(* ===== verification/Prelude.thy ===== *)
theory Prelude
  imports Main "HOL-Library.Word" "HOL-Library.AList" "HOL-Library.Multiset"
    "HOL-Library.Char_ord" "HOL-Library.List_Lexorder" "HOL-Library.Product_Lexorder"
begin

text \<open>
  What every component of the development shares: the names of the machine types of the Go code,
  the model of a Go map, the fold over a collection whose order is not determined, and the lemma
  collections the component proofs extend.

  A Go map is an association list. The list order is the order in which one \<open>range\<close> over the map
  happens to visit it, which Go leaves open, so a statement that holds for every permutation of
  the list says that the code does not depend on the iteration order. \<open>map_ok\<close> is the invariant
  that no key occurs twice.
\<close>

named_theorems go_simps \<open>unfolding rules for the small helpers of the model\<close>
named_theorems inv_intros \<open>preservation lemmas of the component invariants\<close>

type_synonym u32 = "32 word"
type_synonym i32 = "32 word"

type_synonym ('k, 'v) gomap = "('k \<times> 'v) list"

definition map_ok :: "('k, 'v) gomap \<Rightarrow> bool" where
  "map_ok m \<longleftrightarrow> distinct (map fst m)"

abbreviation map_get :: "('k, 'v) gomap \<Rightarrow> 'k \<Rightarrow> 'v option" where
  "map_get \<equiv> map_of"

abbreviation map_put :: "'k \<Rightarrow> 'v \<Rightarrow> ('k, 'v) gomap \<Rightarrow> ('k, 'v) gomap" where
  "map_put \<equiv> AList.update"

abbreviation map_del :: "'k \<Rightarrow> ('k, 'v) gomap \<Rightarrow> ('k, 'v) gomap" where
  "map_del \<equiv> AList.delete"

abbreviation has_key :: "('k, 'v) gomap \<Rightarrow> 'k \<Rightarrow> bool" where
  "has_key m k \<equiv> k \<in> fst ` set m"

lemma map_ok_Nil [simp]: "map_ok []"
  by (simp add: map_ok_def)

lemma map_ok_put [simp, inv_intros]: "map_ok m \<Longrightarrow> map_ok (map_put k v m)"
  by (simp add: map_ok_def distinct_update)

lemma map_ok_del [simp, inv_intros]: "map_ok m \<Longrightarrow> map_ok (map_del k m)"
  by (simp add: map_ok_def distinct_delete)

lemma map_get_put [simp]: "map_get (map_put k v m) k' = (if k' = k then Some v else map_get m k')"
  by (simp add: update_conv')

lemma map_get_None_iff: "map_get m k = None \<longleftrightarrow> \<not> has_key m k"
  by (force simp: map_of_eq_None_iff)

lemma map_get_Some_iff: "map_ok m \<Longrightarrow> map_get m k = Some v \<longleftrightarrow> (k, v) \<in> set m"
  by (simp add: map_ok_def)

lemma has_key_put [simp]: "has_key (map_put k v m) k' \<longleftrightarrow> k' = k \<or> has_key m k'"
  by (auto simp: dom_update [unfolded dom_map_of_conv_image_fst])

lemma set_map_put: "x \<in> set (map_put k v m) \<Longrightarrow> x = (k, v) \<or> x \<in> set m"
  by (induction m) (auto split: if_splits)

lemma keys_map_put: "map_get m k \<noteq> None \<Longrightarrow> map fst (map_put k v m) = map fst m"
  by (auto simp: update_keys map_of_eq_None_iff)

lemma length_map_put: "map_get m k \<noteq> None \<Longrightarrow> length (map_put k v m) = length m"
  by (metis keys_map_put length_map)

lemma keys_put: "fst ` set (map_put k v m) = insert k (fst ` set m)"
  using dom_update [of k v m] by (simp add: dom_map_of_conv_image_fst)

lemma length_map_del:
  assumes "map_ok m" and "has_key m k"
  shows "length (map_del k m) + 1 = length m"
proof -
  from assms(2) obtain us v vs where m: "m = us @ (k, v) # vs" by (auto dest: split_list)
  with assms(1) have "k \<notin> fst ` set us" "k \<notin> fst ` set vs" by (auto simp: map_ok_def)
  then have "map_del k us = us" "map_del k vs = vs" by (simp_all add: delete_idem)
  moreover have "map_del k (us @ (k, v) # vs) = map_del k us @ map_del k vs" by (simp add: AList.delete_eq)
  ultimately show ?thesis by (simp add: m)
qed

lemma length_map_put_new: "\<not> has_key m k \<Longrightarrow> length (map_put k v m) = length m + 1"
  by (induction m) auto

lemma has_key_del [simp]: "has_key (map_del k m) x \<longleftrightarrow> has_key m x \<and> x \<noteq> k"
  by (auto simp: AList.delete_eq)

lemma has_key_get: "map_get m k = Some v \<Longrightarrow> has_key m k"
  by (force dest: map_of_SomeD)

lemma map_put_new: "\<not> has_key m k \<Longrightarrow> map_put k v m = m @ [(k, v)]"
  by (induction m) auto

lemma map_get_perm:
  assumes "map_ok m" and "mset m' = mset m"
  shows "map_get m' = map_get m"
proof -
  have "distinct (map fst m')"
    using assms by (metis map_ok_def mset_map mset_eq_imp_distinct_iff)
  then show ?thesis
    using assms by (metis map_of_inject_set map_ok_def set_mset_mset)
qed

lemma u32_bound: "unat (w :: u32) < 4294967296"
  using unsigned_less [of w, where ?'a = nat] by simp

lemma unat_sum_list:
  assumes "\<And>x. x \<in> set xs \<Longrightarrow> f x = (of_nat (g x) :: u32)"
    and "(\<Sum>x\<leftarrow>xs. g x) < 4294967296"
  shows "unat (\<Sum>x\<leftarrow>xs. f x) = (\<Sum>x\<leftarrow>xs. g x)"
proof -
  have "(\<Sum>x\<leftarrow>xs. f x) = of_nat (\<Sum>x\<leftarrow>xs. g x)"
    using assms(1) by (induction xs) auto
  then show ?thesis using assms(2) by (simp add: unsigned_of_nat take_bit_nat_eq_self)
qed

lemma unat_of_nat_u32: "n < 4294967296 \<Longrightarrow> unat (of_nat n :: u32) = n"
  by (simp add: unsigned_of_nat take_bit_nat_eq_self)

lemma unat_add_u32: "unat a + unat b < 4294967296 \<Longrightarrow> unat (a + b :: u32) = unat a + unat b"
  by (simp add: unat_word_ariths)

lemma sum_list_le_bound:
  "(\<And>x. x \<in> set xs \<Longrightarrow> f x \<le> (b :: nat)) \<Longrightarrow> (\<Sum>x\<leftarrow>xs. f x) \<le> b * length xs"
  by (induction xs) (auto simp: add_mono)

lemma sum_list_eq_bound:
  assumes "\<And>x. x \<in> set xs \<Longrightarrow> f x \<le> (b :: nat)"
  shows "(\<Sum>x\<leftarrow>xs. f x) = b * length xs \<longleftrightarrow> (\<forall>x \<in> set xs. f x = b)"
  using assms
proof (induction xs)
  case (Cons y ys)
  have "(\<Sum>x\<leftarrow>ys. f x) \<le> b * length ys" using Cons.prems by (intro sum_list_le_bound) simp
  moreover have "f y \<le> b" using Cons.prems by simp
  ultimately have "f y + (\<Sum>x\<leftarrow>ys. f x) = b + b * length ys
      \<longleftrightarrow> f y = b \<and> (\<Sum>x\<leftarrow>ys. f x) = b * length ys" by linarith
  with Cons show ?case by simp
qed simp

lemma average_eq_bound:
  assumes "\<And>x. x \<in> set xs \<Longrightarrow> f x \<le> (b :: nat)" and "xs \<noteq> []" and "0 < b"
  shows "(\<Sum>x\<leftarrow>xs. f x) div length xs \<le> b"
    and "(\<Sum>x\<leftarrow>xs. f x) div length xs = b \<longleftrightarrow> (\<forall>x \<in> set xs. f x = b)"
proof -
  have le: "(\<Sum>x\<leftarrow>xs. f x) \<le> b * length xs" using assms(1) by (rule sum_list_le_bound)
  then show "(\<Sum>x\<leftarrow>xs. f x) div length xs \<le> b"
    by (metis div_le_mono nonzero_mult_div_cancel_right length_0_conv assms(2))
  have "(\<Sum>x\<leftarrow>xs. f x) div length xs = b \<longleftrightarrow> (\<Sum>x\<leftarrow>xs. f x) = b * length xs"
  proof
    assume "(\<Sum>x\<leftarrow>xs. f x) div length xs = b"
    then have "b * length xs \<le> (\<Sum>x\<leftarrow>xs. f x)" by (metis div_times_less_eq_dividend)
    with le show "(\<Sum>x\<leftarrow>xs. f x) = b * length xs" by simp
  qed (simp add: assms(2))
  with sum_list_eq_bound [of xs f b] assms(1)
  show "(\<Sum>x\<leftarrow>xs. f x) div length xs = b \<longleftrightarrow> (\<forall>x \<in> set xs. f x = b)" by simp
qed

lemma u32_le_100: "(x :: u32) \<le> 100 \<longleftrightarrow> unat x \<le> 100"
  by (simp add: word_le_nat_alt)

lemma div_le_bound: "(m :: nat) \<le> b * n \<Longrightarrow> m div n \<le> b"
  by (metis div_le_mono div_by_0 le0 nonzero_mult_div_cancel_right)

text \<open>Folding an operation over a collection in two orders: the operation's steps commute.\<close>

definition commuting :: "('s \<Rightarrow> 'a \<Rightarrow> 's) \<Rightarrow> bool" where
  "commuting f \<longleftrightarrow> (\<forall>s x y. f (f s x) y = f (f s y) x)"

lemma foldl_commuting_perm:
  assumes "commuting f" and "mset xs = mset ys"
  shows "foldl f s xs = foldl f s ys"
proof -
  have "fold (\<lambda>x s. f s x) xs = fold (\<lambda>x s. f s x) ys"
    using assms by (intro fold_multiset_equiv) (auto simp: commuting_def fun_eq_iff)
  then show ?thesis by (simp add: foldl_conv_fold)
qed

lemma commutingI [intro?]: "(\<And>s x y. f (f s x) y = f (f s y) x) \<Longrightarrow> commuting f"
  by (simp add: commuting_def)

text \<open>An invariant of a fold, and a fold that sums a measure of its elements.\<close>

lemma foldl_inv:
  assumes "I s" and "\<And>s x. x \<in> set xs \<Longrightarrow> I s \<Longrightarrow> I (f s x)"
  shows "I (foldl f s xs)"
  using assms by (induction xs arbitrary: s) auto

lemma map_sum_eq_Inr [simp]: "map_sum f g s = Inr y \<longleftrightarrow> (\<exists>x. s = Inr x \<and> y = g x)"
  by (cases s) auto

lemma map_sum_eq_Inl [simp]: "map_sum f g s = Inl y \<longleftrightarrow> (\<exists>x. s = Inl x \<and> y = f x)"
  by (cases s) auto

lemma list_all_perm: "mset xs = mset ys \<Longrightarrow> list_all P xs = list_all P ys"
  by (metis list_all_iff set_mset_mset)

lemma map_of_map_val: "map_of (map (\<lambda>(k, v). (k, f v)) m) k = map_option f (map_of m k)"
  by (induction m) auto

lemma map_ok_map_val [simp]: "map_ok (map (\<lambda>(k, v). (k, f v)) m) = map_ok m"
  by (simp add: map_ok_def case_prod_beta comp_def)

end
