(* ===== verification/Go_Float.thy ===== *)
theory Go_Float
  imports Prelude Complex_Main
begin

text \<open>
  Go's \<open>float32\<close> and \<open>float64\<close> as the rationals they denote. \<open>fl p\<close> rounds to \<open>p\<close> significant
  bits, ties to even, which is what every arithmetic operation of IEEE 754 does to its exact
  result: \<open>p = 24\<close> for \<open>float32\<close> and \<open>p = 53\<close> for \<open>float64\<close>. The exponent is not bounded, so
  overflow to infinity and gradual underflow are outside the model; the quantities the scoring
  code computes are counts, weights and ratios of them.

  Two things the Go specification leaves to the platform are a value of \<open>go_arch\<close>: whether
  \<open>c - a * b\<close> is fused into one rounding, and what converting an out-of-range float to an
  integer gives. Every theorem holds for every \<open>go_arch\<close>.
\<close>

subsection \<open>Rounding to an integer, ties to even\<close>

definition rne :: "rat \<Rightarrow> int" where
  "rne x = (let f = \<lfloor>x\<rfloor>; r = x - of_int f in
     if r < 1 / 2 then f else if 1 / 2 < r then f + 1 else if even f then f else f + 1)"

lemma rne_cases: "rne x = \<lfloor>x\<rfloor> \<or> rne x = \<lfloor>x\<rfloor> + 1"
  by (auto simp: rne_def Let_def)

lemma rne_of_int [simp]: "rne (of_int n) = n"
  by (simp add: rne_def)

lemma rne_mono:
  assumes "x \<le> y"
  shows "rne x \<le> rne y"
proof (cases "\<lfloor>x\<rfloor> = \<lfloor>y\<rfloor>")
  case True
  with assms show ?thesis by (auto simp: rne_def Let_def)
next
  case False
  with assms have "\<lfloor>x\<rfloor> + 1 \<le> \<lfloor>y\<rfloor>" using floor_mono [OF assms] by linarith
  then show ?thesis using rne_cases [of x] rne_cases [of y] by linarith
qed

lemma rne_le_int: "x \<le> of_int n \<Longrightarrow> rne x \<le> n"
  using rne_mono [of x "of_int n"] by simp

lemma rne_ge_int: "of_int n \<le> x \<Longrightarrow> n \<le> rne x"
  using rne_mono [of "of_int n" x] by simp

subsection \<open>The binary exponent of a positive rational\<close>

function ilog2 :: "int \<Rightarrow> nat" where
  "ilog2 n = (if n < 2 then 0 else Suc (ilog2 (n div 2)))"
  by pat_completeness auto
termination
  by (relation "measure nat") auto

declare ilog2.simps [simp del]

lemma ilog2_bounds: "0 < n \<Longrightarrow> 2 ^ ilog2 n \<le> n \<and> n < 2 ^ Suc (ilog2 n)"
proof (induction n rule: ilog2.induct)
  case (1 n)
  show ?case
  proof (cases "n < 2")
    case True
    with 1 show ?thesis by (simp add: ilog2.simps [of n])
  next
    case False
    then have "0 < n div 2" by simp
    with 1 False have "2 ^ ilog2 (n div 2) \<le> n div 2 \<and> n div 2 < 2 ^ Suc (ilog2 (n div 2))"
      by blast
    then have "2 * 2 ^ ilog2 (n div 2) \<le> n \<and> n < 2 * 2 ^ Suc (ilog2 (n div 2))" by auto
    with False show ?thesis by (simp add: ilog2.simps [of n])
  qed
qed

definition expo :: "rat \<Rightarrow> int" where
  "expo x = (let (p, q) = quotient_of x; d = int (ilog2 p) - int (ilog2 q)
             in if 2 powi d \<le> x then d else d - 1)"

lemma powi_add_1: "(2::rat) powi (n + 1) = 2 * 2 powi n"
  by (simp add: power_int_add)

lemma powi_mono: "m \<le> n \<Longrightarrow> (2::rat) powi m \<le> 2 powi n"
  by (simp add: power_int_increasing)

lemma powi_of_nat_quotient: "(2::rat) powi (int a - int b) = 2 ^ a / 2 ^ b"
  by (simp add: power_int_diff)

lemma expo_bounds:
  assumes "0 < x"
  shows "2 powi (expo x) \<le> x" and "x < 2 powi (expo x + 1)"
proof -
  obtain p q where pq: "quotient_of x = (p, q)" by fastforce
  then have q: "0 < q" by (rule quotient_of_denom_pos)
  have x: "x = of_int p / of_int q" using pq by (rule quotient_of_div)
  with q assms have p: "0 < p" by (simp add: zero_less_divide_iff)
  let ?a = "ilog2 p" and ?b = "ilog2 q"
  have P: "(2::rat) ^ ?a \<le> of_int p" "(of_int p :: rat) < 2 ^ Suc ?a"
    using ilog2_bounds [OF p] by (metis of_int_le_iff of_int_numeral of_int_power,
      metis of_int_less_iff of_int_numeral of_int_power)
  have Q: "(2::rat) ^ ?b \<le> of_int q" "(of_int q :: rat) < 2 ^ Suc ?b"
    using ilog2_bounds [OF q] by (metis of_int_le_iff of_int_numeral of_int_power,
      metis of_int_less_iff of_int_numeral of_int_power)
  let ?d = "int ?a - int ?b"
  have up: "x < 2 powi (?d + 1)"
  proof -
    have "x < 2 ^ Suc ?a / of_int q" unfolding x using P q by (simp add: divide_strict_right_mono)
    also have "\<dots> \<le> 2 ^ Suc ?a / 2 ^ ?b" using Q(1) q by (intro divide_left_mono) auto
    also have "\<dots> = 2 powi (?d + 1)" by (simp add: powi_add_1 powi_of_nat_quotient)
    finally show ?thesis .
  qed
  have low: "2 powi (?d - 1) \<le> x"
  proof -
    have "(2::rat) powi (?d - 1) = 2 ^ ?a / 2 ^ Suc ?b"
      using powi_of_nat_quotient [of ?a "Suc ?b"] by (simp add: algebra_simps)
    also have "\<dots> \<le> 2 ^ ?a / of_int q" using Q q by (intro divide_left_mono) auto
    also have "\<dots> \<le> x" unfolding x using P q by (simp add: divide_right_mono)
    finally show ?thesis .
  qed
  show "2 powi (expo x) \<le> x" using low by (auto simp: expo_def pq Let_def)
  show "x < 2 powi (expo x + 1)" using up by (auto simp: expo_def pq Let_def)
qed

lemma expo_mono:
  assumes "0 < x" and "x \<le> y"
  shows "expo x \<le> expo y"
proof (rule ccontr)
  assume "\<not> expo x \<le> expo y"
  then have "expo y + 1 \<le> expo x" by simp
  then have "(2::rat) powi (expo y + 1) \<le> 2 powi (expo x)" by (rule powi_mono)
  with expo_bounds(1) [of x] expo_bounds(2) [of y] assms show False by linarith
qed

subsection \<open>Rounding to \<open>p\<close> significant bits\<close>

definition ulp :: "nat \<Rightarrow> rat \<Rightarrow> rat" where
  "ulp p x = 2 powi (expo x - int p + 1)"

definition fl_pos :: "nat \<Rightarrow> rat \<Rightarrow> rat" where
  "fl_pos p x = of_int (rne (x / ulp p x)) * ulp p x"

definition fl :: "nat \<Rightarrow> rat \<Rightarrow> rat" where
  "fl p x = (if x = 0 then 0 else if 0 < x then fl_pos p x else - fl_pos p (- x))"

abbreviation fl32 :: "rat \<Rightarrow> rat" where "fl32 \<equiv> fl 24"
abbreviation fl64 :: "rat \<Rightarrow> rat" where "fl64 \<equiv> fl 53"

lemma ulp_pos [simp]: "0 < ulp p x"
  by (simp add: ulp_def)

lemma scaled_range:
  assumes "0 < x" and "0 < p"
  shows "of_int (2 ^ (p - 1)) \<le> x / ulp p x" and "x / ulp p x \<le> of_int (2 ^ p)"
proof -
  have lo: "(2::rat) ^ (p - 1) * ulp p x = 2 powi (expo x)"
    using assms(2) by (simp add: ulp_def power_int_add power_int_diff power_diff flip: power_int_of_nat)
  then have hi: "(2::rat) ^ p * ulp p x = 2 powi (expo x + 1)"
    using assms(2) by (simp add: powi_add_1 power_eq_if [of 2 p])
  show "of_int (2 ^ (p - 1)) \<le> x / ulp p x"
    using lo expo_bounds(1) [OF assms(1)] by (simp add: le_divide_eq)
  show "x / ulp p x \<le> of_int (2 ^ p)"
    using hi expo_bounds(2) [OF assms(1)] by (simp add: divide_le_eq)
qed

lemma fl_pos_bounds:
  assumes "0 < x" and "0 < p"
  shows "2 powi (expo x) \<le> fl_pos p x" and "fl_pos p x \<le> 2 powi (expo x + 1)"
proof -
  have lo: "(2::rat) ^ (p - 1) * ulp p x = 2 powi (expo x)"
    using assms(2) by (simp add: ulp_def power_int_add power_int_diff power_diff flip: power_int_of_nat)
  then have hi: "(2::rat) ^ p * ulp p x = 2 powi (expo x + 1)"
    using assms(2) by (simp add: powi_add_1 power_eq_if [of 2 p])
  have "2 ^ (p - 1) \<le> rne (x / ulp p x)"
    using scaled_range(1) [OF assms] by (intro rne_ge_int) simp
  then have "(of_int (2 ^ (p - 1)) :: rat) \<le> of_int (rne (x / ulp p x))"
    by (simp only: of_int_le_iff)
  then show "2 powi (expo x) \<le> fl_pos p x"
    unfolding fl_pos_def lo [symmetric] by (intro mult_right_mono) (auto simp: less_imp_le)
  have "rne (x / ulp p x) \<le> 2 ^ p"
    using scaled_range(2) [OF assms] by (intro rne_le_int) simp
  then have "(of_int (rne (x / ulp p x)) :: rat) \<le> of_int (2 ^ p)"
    by (simp only: of_int_le_iff)
  then show "fl_pos p x \<le> 2 powi (expo x + 1)"
    unfolding fl_pos_def hi [symmetric] by (intro mult_right_mono) (auto simp: less_imp_le)
qed

lemma fl_pos_mono:
  assumes "0 < x" and "x \<le> y" and "0 < p"
  shows "fl_pos p x \<le> fl_pos p y"
proof (cases "expo x = expo y")
  case True
  then have u: "ulp p x = ulp p y" by (simp add: ulp_def)
  have "rne (x / ulp p x) \<le> rne (y / ulp p y)"
    unfolding u using assms(2) by (intro rne_mono divide_right_mono) (auto simp: less_imp_le)
  then show ?thesis unfolding fl_pos_def u by (intro mult_right_mono) (auto simp: less_imp_le)
next
  case False
  with expo_mono [OF assms(1,2)] have "expo x + 1 \<le> expo y" by simp
  then have "(2::rat) powi (expo x + 1) \<le> 2 powi (expo y)" by (rule powi_mono)
  with fl_pos_bounds(2) [OF assms(1,3)] fl_pos_bounds(1) [of y p] assms
  show ?thesis by linarith
qed

lemma fl_pos_pos: "0 < x \<Longrightarrow> 0 < p \<Longrightarrow> 0 < fl_pos p x"
  using fl_pos_bounds(1) [of x p] zero_less_power_int [of "2::rat" "expo x"] by linarith

lemma fl_0 [simp]: "fl p 0 = 0"
  by (simp add: fl_def)

lemma fl_minus: "fl p (- x) = - fl p x"
  by (auto simp: fl_def)

lemma fl_mono: "x \<le> y \<Longrightarrow> 0 < p \<Longrightarrow> fl p x \<le> fl p y"
  using fl_pos_pos [of y p] fl_pos_pos [of "- x" p] fl_pos_mono [of x y p] fl_pos_mono [of "- y" "- x" p]
  by (cases "x = 0"; cases "y = 0"; cases "0 < x"; cases "0 < y") (auto simp: fl_def less_imp_le)

lemma fl_pos_of_nat:
  assumes "0 < n" and "n < 2 ^ p"
  shows "fl_pos p (of_nat n) = of_nat n"
proof -
  let ?x = "of_nat n :: rat"
  have x: "0 < ?x" using assms by simp
  have "0 < p" using assms by (cases p) auto
  have "(2::rat) powi expo ?x < 2 powi int p"
  proof -
    have "?x < of_nat (2 ^ p)" using assms(2) by (simp only: of_nat_less_iff)
    then have "?x < 2 powi int p" by simp
    with expo_bounds(1) [OF x] show ?thesis by (rule le_less_trans)
  qed
  then have e: "expo ?x < int p" by (metis not_le powi_mono)
  define k where "k = nat (int p - 1 - expo ?x)"
  have "inverse (ulp p ?x) = 2 ^ k"
    using e by (simp add: ulp_def k_def algebra_simps flip: power_int_minus power_int_of_nat)
  then have "?x / ulp p ?x = of_int (int (n * 2 ^ k))" by (simp add: divide_inverse)
  then have "of_int (rne (?x / ulp p ?x)) = ?x / ulp p ?x"
    by (metis rne_of_int)
  then show ?thesis by (simp add: fl_pos_def less_imp_neq [symmetric])
qed

lemma fl_of_nat: "n < 2 ^ p \<Longrightarrow> fl p (of_nat n) = of_nat n"
  by (cases "n = 0") (auto simp: fl_def fl_pos_of_nat)

lemma fl_of_int: "\<bar>n\<bar> < 2 ^ p \<Longrightarrow> fl p (of_int n) = of_int n"
proof (cases "0 \<le> n")
  case True
  assume "\<bar>n\<bar> < 2 ^ p"
  with True show ?thesis using fl_of_nat [of "nat n" p] by (simp add: nat_less_iff)
next
  case False
  assume "\<bar>n\<bar> < 2 ^ p"
  with False show ?thesis using fl_of_nat [of "nat (- n)" p] fl_minus [of p "- of_int n"]
    by (simp add: nat_less_iff)
qed

subsection \<open>Conversions and platform choices\<close>

record go_arch =
  ga_fused :: bool
  ga_to_u32 :: "rat \<Rightarrow> u32"
  ga_to_int :: "rat \<Rightarrow> int"

definition trunc_rat :: "rat \<Rightarrow> int" where
  "trunc_rat x = (if 0 \<le> x then \<lfloor>x\<rfloor> else - \<lfloor>- x\<rfloor>)"

definition float_to_u32 :: "go_arch \<Rightarrow> rat \<Rightarrow> u32" where
  "float_to_u32 a x = (if -1 < x \<and> x < 2 ^ 32 then word_of_int (trunc_rat x) else ga_to_u32 a x)"

definition float_to_int :: "go_arch \<Rightarrow> rat \<Rightarrow> int" where
  "float_to_int a x = (if - (2 ^ 63) - 1 < x \<and> x < 2 ^ 63 then trunc_rat x else ga_to_int a x)"

definition u32_to_float :: "nat \<Rightarrow> u32 \<Rightarrow> rat" where
  "u32_to_float p w = fl p (of_nat (unat w))"

definition sub_mul32 :: "go_arch \<Rightarrow> rat \<Rightarrow> rat \<Rightarrow> rat \<Rightarrow> rat" where
  "sub_mul32 a c x y = (if ga_fused a then fl32 (c - x * y) else fl32 (c - fl32 (x * y)))"

lemma fl_between_nat:
  assumes "of_nat m \<le> x" and "x \<le> of_nat n" and "m < 2 ^ p" and "n < 2 ^ p" and "0 < p"
  shows "of_nat m \<le> fl p x" and "fl p x \<le> of_nat n"
  using fl_mono [OF assms(1,5)] fl_mono [OF assms(2,5)] fl_of_nat assms by metis+

lemma fl_unit: "0 \<le> x \<Longrightarrow> x \<le> 1 \<Longrightarrow> 0 < p \<Longrightarrow> 0 \<le> fl p x \<and> fl p x \<le> 1"
  using fl_between_nat [of 0 x 1 p] one_less_power [of "2::nat" p] by simp

lemma sub_mul32_range:
  assumes "0 \<le> x * y" and "x * y \<le> of_nat n" and "n \<le> m" and "m < 2 ^ 24"
  shows "of_nat (m - n) \<le> sub_mul32 a (of_nat m) x y" and "sub_mul32 a (of_nat m) x y \<le> of_nat m"
proof -
  have p: "0 \<le> fl32 (x * y)" "fl32 (x * y) \<le> of_nat n"
    using fl_between_nat [of 0 "x * y" n 24] assms by auto
  have "of_nat (m - n) \<le> sub_mul32 a (of_nat m) x y \<and> sub_mul32 a (of_nat m) x y \<le> of_nat m"
    using fl_between_nat [of "m - n" "of_nat m - x * y" m 24]
      fl_between_nat [of "m - n" "of_nat m - fl32 (x * y)" m 24] p assms
    by (auto simp: sub_mul32_def of_nat_diff)
  then show "of_nat (m - n) \<le> sub_mul32 a (of_nat m) x y"
    and "sub_mul32 a (of_nat m) x y \<le> of_nat m" by auto
qed

lemma float_to_u32_range:
  assumes "of_nat m \<le> x" and "x \<le> of_nat n" and "n < 2 ^ 32"
  shows "m \<le> unat (float_to_u32 a x)" and "unat (float_to_u32 a x) \<le> n"
proof -
  have x: "0 \<le> x" using assms(1) of_nat_0_le_iff order_trans by blast
  have f: "int m \<le> \<lfloor>x\<rfloor>" "\<lfloor>x\<rfloor> \<le> int n"
    using assms(1,2) by (auto simp: le_floor_iff floor_le_iff)
  have "x < 2 ^ 32"
  proof -
    have "(of_nat n :: rat) < of_nat (2 ^ 32)" using assms(3) by (simp only: of_nat_less_iff)
    with assms(2) show ?thesis by simp
  qed
  with x have "float_to_u32 a x = word_of_int \<lfloor>x\<rfloor>"
    by (simp add: float_to_u32_def trunc_rat_def)
  moreover have "take_bit 32 \<lfloor>x\<rfloor> = \<lfloor>x\<rfloor>"
  proof (rule take_bit_int_eq_self)
    show "0 \<le> \<lfloor>x\<rfloor>" using f by linarith
    have "int n < 2 ^ 32" using assms(3) by simp
    with f show "\<lfloor>x\<rfloor> < 2 ^ 32" by linarith
  qed
  then have "unat (word_of_int \<lfloor>x\<rfloor> :: u32) = nat \<lfloor>x\<rfloor>" by (simp add: unsigned_of_int)
  ultimately have "unat (float_to_u32 a x) = nat \<lfloor>x\<rfloor>" by simp
  with f show "m \<le> unat (float_to_u32 a x)" and "unat (float_to_u32 a x) \<le> n" by auto
qed

lemma u32_to_float64_exact [simp]: "u32_to_float 53 w = of_nat (unat w)"
  unfolding u32_to_float_def using u32_bound [of w]
  by (intro fl_of_nat) simp

lemma u32_to_float32_exact: "unat w < 2 ^ 24 \<Longrightarrow> u32_to_float 24 w = of_nat (unat w)"
  unfolding u32_to_float_def by (intro fl_of_nat) simp

end
