(* ===== verification/Score_Types.thy ===== *)
theory Score_Types
  imports Go_Float
begin

text \<open>
  The data of \<open>policy/score.go\<close>, \<open>policy/rating.go\<close> and \<open>policy/explorer_impact.go\<close>: scores,
  their types and ratings, impacts and the scoring systems, with the methods on them.

  A score is the protobuf message \<open>Score\<close> with the fields the modelled code reads or writes;
  \<open>ValueModifiedTime\<close>, \<open>FailureTime\<close>, \<open>Source\<close> and \<open>Sources\<close> are only copied along by
  \<open>CloneVT\<close> and are left out. Values here are immutable, so \<open>CloneVT\<close> is the identity.
  The enums of the protobuf schema are open (\<open>int32\<close>): \<open>ScoringSystem\<close>, which is read from user
  input, keeps a constructor for the codes without a name; the others take their named values.
\<close>

unbundle bit_operations_syntax

subsection \<open>Scores\<close>

record ScoredRiskFactor =
  sr_Mrn :: string
  sr_Risk :: rat
  sr_IsToxic :: bool
  sr_IsDetected :: bool

record Score =
  sc_RiskScore :: u32
  sc_QrId :: string
  sc_Type :: u32
  sc_Value :: u32
  sc_Weight :: u32
  sc_ScoreCompletion :: u32
  sc_DataTotal :: u32
  sc_DataCompletion :: u32
  sc_Message :: string
  sc_RiskFactors :: "ScoredRiskFactor list option"

definition zeroScore :: Score where
  "zeroScore = \<lparr>sc_RiskScore = 0, sc_QrId = [], sc_Type = 0, sc_Value = 0, sc_Weight = 0,
     sc_ScoreCompletion = 0, sc_DataTotal = 0, sc_DataCompletion = 0, sc_Message = [],
     sc_RiskFactors = None\<rparr>"

text \<open>The type constants: \<open>1 << iota\<close> starts at the second constant, so \<open>Result\<close> is 2.\<close>

definition ScoreType_Unknown :: u32 where [simp]: "ScoreType_Unknown = 0"
definition ScoreType_Result :: u32 where [simp]: "ScoreType_Result = push_bit 1 1"
definition ScoreType_Error :: u32 where [simp]: "ScoreType_Error = push_bit 2 1"
definition ScoreType_Skip :: u32 where [simp]: "ScoreType_Skip = push_bit 3 1"
definition ScoreType_Unscored :: u32 where [simp]: "ScoreType_Unscored = push_bit 4 1"
definition ScoreType_OutOfScope :: u32 where [simp]: "ScoreType_OutOfScope = push_bit 5 1"
definition ScoreType_Disabled :: u32 where [simp]: "ScoreType_Disabled = push_bit 6 1"

definition TypeLabel :: "Score \<Rightarrow> string" where
  "TypeLabel s =
     (if sc_Type s = ScoreType_Unknown then ''unknown''
      else if sc_Type s = ScoreType_Result then ''result''
      else if sc_Type s = ScoreType_Error then ''error''
      else if sc_Type s = ScoreType_Skip then ''skip''
      else if sc_Type s = ScoreType_Unscored then ''unscored''
      else if sc_Type s = ScoreType_OutOfScope then ''out of scope''
      else if sc_Type s = ScoreType_Disabled then ''disabled''
      else ''unknown type'')"

definition Completion :: "Score \<Rightarrow> u32" where
  "Completion s = (sc_DataCompletion s + sc_ScoreCompletion s) div 2"

lemma Completion_le_100:
  assumes "sc_DataCompletion s \<le> 100" and "sc_ScoreCompletion s \<le> 100"
  shows "Completion s \<le> 100"
    and "Completion s = 100 \<longleftrightarrow> sc_DataCompletion s = 100 \<and> sc_ScoreCompletion s = 100"
proof -
  have d: "unat (sc_DataCompletion s) \<le> 100" and c: "unat (sc_ScoreCompletion s) \<le> 100"
    using assms by (simp_all add: word_le_nat_alt)
  then have u: "unat (Completion s) = (unat (sc_DataCompletion s) + unat (sc_ScoreCompletion s)) div 2"
    by (simp add: Completion_def unat_div unat_word_ariths)
  with d c show "Completion s \<le> 100" by (simp add: word_le_nat_alt)
  have "Completion s = 100 \<longleftrightarrow> unat (Completion s) = 100"
    and "sc_DataCompletion s = 100 \<longleftrightarrow> unat (sc_DataCompletion s) = 100"
    and "sc_ScoreCompletion s = 100 \<longleftrightarrow> unat (sc_ScoreCompletion s) = 100"
    by (simp_all add: word_unat_eq_iff)
  with u d c show "Completion s = 100 \<longleftrightarrow> sc_DataCompletion s = 100 \<and> sc_ScoreCompletion s = 100"
    by auto
qed

subsection \<open>Ratings\<close>

datatype ScoreRating =
    SR_unrated | SR_aPlus | SR_a | SR_aMinus | SR_bPlus | SR_b | SR_bMinus
  | SR_cPlus | SR_c | SR_cMinus | SR_dPlus | SR_d | SR_dMinus | SR_failed | SR_error | SR_skip

definition Rating :: "Score option \<Rightarrow> ScoreRating" where
  "Rating so = (case so of None \<Rightarrow> SR_unrated | Some s \<Rightarrow>
     if sc_Type s = ScoreType_Unknown \<or> sc_Type s = ScoreType_Unscored then SR_unrated
     else if sc_Type s = ScoreType_Skip then SR_skip
     else if sc_Type s = ScoreType_Error then SR_error
     else if Completion s = 0 then SR_unrated
     else if 95 \<le> sc_Value s then SR_aPlus
     else if 85 \<le> sc_Value s then SR_a
     else if 80 \<le> sc_Value s then SR_aMinus
     else if 75 \<le> sc_Value s then SR_bPlus
     else if 65 \<le> sc_Value s then SR_b
     else if 61 \<le> sc_Value s then SR_bMinus
     else if 50 \<le> sc_Value s then SR_cPlus
     else if 40 \<le> sc_Value s then SR_c
     else if 31 \<le> sc_Value s then SR_cMinus
     else if 25 \<le> sc_Value s then SR_dPlus
     else if 15 \<le> sc_Value s then SR_d
     else if 11 \<le> sc_Value s then SR_dMinus
     else if sc_Value s \<le> 10 then SR_failed
     else SR_unrated)"

fun rating_code :: "ScoreRating \<Rightarrow> nat" where
  "rating_code SR_unrated = 0" | "rating_code SR_aPlus = 1" | "rating_code SR_a = 2"
| "rating_code SR_aMinus = 3" | "rating_code SR_bPlus = 4" | "rating_code SR_b = 5"
| "rating_code SR_bMinus = 6" | "rating_code SR_cPlus = 7" | "rating_code SR_c = 8"
| "rating_code SR_cMinus = 9" | "rating_code SR_dPlus = 10" | "rating_code SR_d = 11"
| "rating_code SR_dMinus = 12" | "rating_code SR_failed = 13" | "rating_code SR_error = 14"
| "rating_code SR_skip = 15"

instantiation ScoreRating :: linorder
begin

definition less_eq_ScoreRating :: "ScoreRating \<Rightarrow> ScoreRating \<Rightarrow> bool" where
  "less_eq_ScoreRating r t \<longleftrightarrow> rating_code r \<le> rating_code t"

definition less_ScoreRating :: "ScoreRating \<Rightarrow> ScoreRating \<Rightarrow> bool" where
  "less_ScoreRating r t \<longleftrightarrow> rating_code r < rating_code t"

instance
proof
  fix r t :: ScoreRating
  show "r \<le> t \<Longrightarrow> t \<le> r \<Longrightarrow> r = t"
    unfolding less_eq_ScoreRating_def by (cases r; cases t) simp_all
qed (auto simp: less_eq_ScoreRating_def less_ScoreRating_def)

end

text \<open>The three label tables, maps from the rating's code to a text, and the lookup \<open>enumName\<close>
  that falls back to the decimal code.\<close>

definition ScoreRatingsText :: "(nat, string) gomap" where
  "ScoreRatingsText = [(0, ''UNRATED''), (1, ''LOW''), (2, ''LOW''), (3, ''LOW''), (4, ''LOW''),
     (5, ''LOW''), (6, ''LOW''), (7, ''MEDIUM''), (8, ''MEDIUM''), (9, ''MEDIUM''), (10, ''HIGH''),
     (11, ''HIGH''), (12, ''HIGH''), (13, ''CRITICAL''), (14, ''ERROR''), (15, ''SKIP'')]"

definition ScoreRating_CategoryLabel :: "(nat, string) gomap" where
  "ScoreRating_CategoryLabel = [(0, ''Unrated''), (1, ''Excellent''), (2, ''Excellent''),
     (3, ''Excellent''), (4, ''Good''), (5, ''Good''), (6, ''Good''), (7, ''Fair''), (8, ''Fair''),
     (9, ''Fair''), (10, ''Poor''), (11, ''Poor''), (12, ''Poor''), (13, ''Fail''), (14, ''Error''),
     (15, ''Skip'')]"

definition ScoreRating_Letters :: "(nat, string) gomap" where
  "ScoreRating_Letters = [(0, ''U''), (1, ''A''), (2, ''A''), (3, ''A''), (4, ''B''), (5, ''B''),
     (6, ''B''), (7, ''C''), (8, ''C''), (9, ''C''), (10, ''D''), (11, ''D''), (12, ''D''),
     (13, ''F''), (14, ''X''), (15, ''S'')]"

fun itoa :: "nat \<Rightarrow> string" where
  "itoa n = (if n < 10 then [char_of (48 + n)] else itoa (n div 10) @ [char_of (48 + n mod 10)])"

declare itoa.simps [simp del]

definition enumName :: "(nat, string) gomap \<Rightarrow> nat \<Rightarrow> string" where
  "enumName m v = (case map_get m v of Some s \<Rightarrow> s | None \<Rightarrow> itoa v)"

definition Rating_Text :: "ScoreRating \<Rightarrow> string" where
  "Rating_Text r = enumName ScoreRatingsText (rating_code r)"

definition Rating_Letter :: "ScoreRating \<Rightarrow> string" where
  "Rating_Letter r = enumName ScoreRating_Letters (rating_code r)"

definition Rating_CategoryLabel :: "ScoreRating \<Rightarrow> string" where
  "Rating_CategoryLabel r = enumName ScoreRating_CategoryLabel (rating_code r)"

subsection \<open>Scoring systems, actions and impacts\<close>

datatype ScoringSystem =
    SCORING_UNSPECIFIED | WEIGHTED | WORST | AVERAGE | DATA_ONLY | IGNORE_SCORE
  | BANDED | DECAYED | DISABLED | ScoringCode i32

definition ScoringSystem_of_code :: "i32 \<Rightarrow> ScoringSystem" where
  "ScoringSystem_of_code c =
     (if c = 0 then SCORING_UNSPECIFIED else if c = 1 then WEIGHTED else if c = 2 then WORST
      else if c = 3 then AVERAGE else if c = 4 then DATA_ONLY else if c = 5 then IGNORE_SCORE
      else if c = 6 then BANDED else if c = 7 then DECAYED else if c = 8 then DISABLED
      else ScoringCode c)"

fun ScoringSystem_code :: "ScoringSystem \<Rightarrow> i32" where
  "ScoringSystem_code SCORING_UNSPECIFIED = 0" | "ScoringSystem_code WEIGHTED = 1"
| "ScoringSystem_code WORST = 2" | "ScoringSystem_code AVERAGE = 3"
| "ScoringSystem_code DATA_ONLY = 4" | "ScoringSystem_code IGNORE_SCORE = 5"
| "ScoringSystem_code BANDED = 6" | "ScoringSystem_code DECAYED = 7"
| "ScoringSystem_code DISABLED = 8" | "ScoringSystem_code (ScoringCode c) = c"

datatype Action =
    Action_UNSPECIFIED | Action_MODIFY | Action_DEACTIVATE | Action_ACTIVATE | Action_IGNORE
  | Action_OUT_OF_SCOPE

record Impact =
  im_Value :: "i32 option"
  im_Scoring :: ScoringSystem
  im_Weight :: i32
  im_Action :: Action

definition zeroImpact :: Impact where
  "zeroImpact = \<lparr>im_Value = None, im_Scoring = SCORING_UNSPECIFIED, im_Weight = 0,
     im_Action = Action_UNSPECIFIED\<rparr>"

definition HumanReadable :: "Impact \<Rightarrow> string" where
  "HumanReadable v = (case im_Value v of None \<Rightarrow> ''unknown'' | Some x \<Rightarrow>
     if 90 \<le> sint x then ''critical''
     else if 70 \<le> sint x then ''high''
     else if 40 \<le> sint x then ''medium''
     else if 0 < sint x then ''low''
     else ''info'')"

definition ImpactValues :: "(string, i32) gomap" where
  "ImpactValues = [(''critical'', 95), (''high'', 80), (''medium'', 55), (''low'', 20), (''none'', 0)]"

definition AddBase :: "Impact \<Rightarrow> Impact option \<Rightarrow> Impact" where
  "AddBase v bo = (case bo of None \<Rightarrow> v | Some base \<Rightarrow>
     v\<lparr>im_Scoring := (if im_Scoring v = SCORING_UNSPECIFIED then im_Scoring base else im_Scoring v),
       im_Value := (if im_Value v = None then im_Value base else im_Value v),
       im_Weight := (if sint (im_Weight v) < 1 then im_Weight base else im_Weight v),
       im_Action := (if im_Action v = Action_UNSPECIFIED then im_Action base else im_Action v)\<rparr>)"

text \<open>
  The JSON decoder is the standard library's; what it is given is described by what it takes the
  document for: a number that fits \<open>int32\<close>, a string, an object with the fields of an impact (the
  absent ones \<open>None\<close>), or anything else.
\<close>

datatype json_doc =
    JInt32 i32
  | JString string
  | JObject (jo_value: "json_doc option") (jo_scoring: "json_doc option")
      (jo_weight: "i32 option") (jo_action: "Action option")
  | JOther

datatype impact_error = ImpactRange | ImpactWord | ImpactJSON | UnknownScoring

text \<open>A scoring system is read from its code or its name, and written as its name.\<close>

definition ScoringSystem_of_name :: "string \<Rightarrow> ScoringSystem option" where
  "ScoringSystem_of_name name =
     (if name = ''unspecified'' then Some SCORING_UNSPECIFIED
      else if name = ''weighted'' then Some WEIGHTED
      else if name = ''highest impact'' then Some WORST
      else if name = ''average'' \<or> name = '''' then Some AVERAGE
      else if name = ''data only'' then Some DATA_ONLY
      else if name = ''ignore score'' then Some IGNORE_SCORE
      else if name = ''banded'' then Some BANDED
      else if name = ''decayed'' then Some DECAYED
      else if name = ''disabled'' then Some DISABLED
      else None)"

fun ScoringSystem_UnmarshalJSON :: "json_doc \<Rightarrow> ScoringSystem option" where
  "ScoringSystem_UnmarshalJSON (JInt32 code) = Some (ScoringSystem_of_code code)"
| "ScoringSystem_UnmarshalJSON (JString name) = ScoringSystem_of_name name"
| "ScoringSystem_UnmarshalJSON _ = ScoringSystem_of_name ''''"

fun ScoringSystem_UnmarshalYAML :: "json_doc \<Rightarrow> ScoringSystem option" where
  "ScoringSystem_UnmarshalYAML (JInt32 code) = Some (ScoringSystem_of_code code)"
| "ScoringSystem_UnmarshalYAML (JString name) = ScoringSystem_of_name name"
| "ScoringSystem_UnmarshalYAML _ = ScoringSystem_of_name ''''"

fun ScoringSystem_MarshalJSON :: "ScoringSystem \<Rightarrow> json_doc" where
  "ScoringSystem_MarshalJSON SCORING_UNSPECIFIED = JString ''unspecified''"
| "ScoringSystem_MarshalJSON WEIGHTED = JString ''weighted''"
| "ScoringSystem_MarshalJSON WORST = JString ''highest impact''"
| "ScoringSystem_MarshalJSON AVERAGE = JString ''average''"
| "ScoringSystem_MarshalJSON DATA_ONLY = JString ''data only''"
| "ScoringSystem_MarshalJSON IGNORE_SCORE = JString ''ignore score''"
| "ScoringSystem_MarshalJSON BANDED = JString ''banded''"
| "ScoringSystem_MarshalJSON DECAYED = JString ''decayed''"
| "ScoringSystem_MarshalJSON DISABLED = JString ''disabled''"
| "ScoringSystem_MarshalJSON (ScoringCode c) = JString ''unknown''"

fun ScoringSystem_MarshalYAML :: "ScoringSystem \<Rightarrow> json_doc" where
  "ScoringSystem_MarshalYAML (ScoringCode c) = JInt32 c"
| "ScoringSystem_MarshalYAML s = ScoringSystem_MarshalJSON s"

text \<open>\<open>ImpactValue\<close> reads a number or an object with a \<open>value\<close> field, and checks the range.\<close>

fun ImpactValue_UnmarshalJSON :: "json_doc \<Rightarrow> impact_error + i32" where
  "ImpactValue_UnmarshalJSON (JInt32 res) =
     (if sint res < 0 \<or> 100 < sint res then Inl ImpactRange else Inr res)"
| "ImpactValue_UnmarshalJSON (JObject vo _ _ _) =
     (case vo of
        None \<Rightarrow> Inr 0
      | Some (JInt32 x) \<Rightarrow> if sint x < 0 \<or> 100 < sint x then Inl ImpactRange else Inr x
      | Some _ \<Rightarrow> Inl ImpactJSON)"
| "ImpactValue_UnmarshalJSON _ = Inl ImpactJSON"

text \<open>An impact reads the number form, then the word form, then overlays the object's fields.\<close>

fun Impact_UnmarshalJSON :: "Impact \<Rightarrow> json_doc \<Rightarrow> impact_error + Impact" where
  "Impact_UnmarshalJSON v (JInt32 res) =
     (if sint res < 0 \<or> 100 < sint res then Inl ImpactRange else Inr (v\<lparr>im_Value := Some res\<rparr>))"
| "Impact_UnmarshalJSON v (JString word) =
     (case map_get ImpactValues word of
        None \<Rightarrow> Inl ImpactWord
      | Some num \<Rightarrow> Inr (v\<lparr>im_Value := Some num\<rparr>))"
| "Impact_UnmarshalJSON v (JObject vo so wo ao) =
     (case (case vo of None \<Rightarrow> Inr (im_Value v) | Some d \<Rightarrow> map_sum id Some (ImpactValue_UnmarshalJSON d)) of
        Inl e \<Rightarrow> Inl e
      | Inr x \<Rightarrow>
          (case (case so of None \<Rightarrow> Some (im_Scoring v) | Some d \<Rightarrow> ScoringSystem_UnmarshalJSON d) of
             None \<Rightarrow> Inl UnknownScoring
           | Some sys \<Rightarrow> Inr (v\<lparr>im_Value := x, im_Scoring := sys,
               im_Weight := (case wo of None \<Rightarrow> im_Weight v | Some w \<Rightarrow> w),
               im_Action := (case ao of None \<Rightarrow> im_Action v | Some a \<Rightarrow> a)\<rparr>)))"
| "Impact_UnmarshalJSON v JOther = Inl ImpactJSON"

definition impact_in_range :: "Impact \<Rightarrow> bool" where
  "impact_in_range v \<longleftrightarrow> (case im_Value v of None \<Rightarrow> True | Some x \<Rightarrow> 0 \<le> sint x \<and> sint x \<le> 100)"

lemma ImpactValue_UnmarshalJSON_range:
  "ImpactValue_UnmarshalJSON d = Inr x \<Longrightarrow> 0 \<le> sint x \<and> sint x \<le> 100"
  by (cases d rule: ImpactValue_UnmarshalJSON.cases)
     (auto split: if_splits option.splits json_doc.splits)

lemma ImpactValues_range: "map_get ImpactValues w = Some x \<Longrightarrow> 0 \<le> sint x \<and> sint x \<le> 100"
  by (auto simp: ImpactValues_def split: if_splits)

lemma Impact_UnmarshalJSON_range:
  assumes "impact_in_range v" and "Impact_UnmarshalJSON v d = Inr v'"
  shows "impact_in_range v'"
  using assms
  by (cases d)
     (auto simp: impact_in_range_def split: if_splits option.splits sum.splits
        dest: ImpactValue_UnmarshalJSON_range ImpactValues_range)

text \<open>The base impact only fills what is unset: adding it twice, or to itself, changes nothing.\<close>

lemma AddBase_idem: "AddBase (AddBase v b) b = AddBase v b"
  by (auto simp: AddBase_def split: option.splits)

lemma AddBase_self: "AddBase v (Some v) = v"
  by (simp add: AddBase_def)

end
