(* ===== verification/Score_Calculators.thy ===== *)
theory Score_Calculators
  imports Score_Types
begin

text \<open>
  The score calculators of \<open>policy/score_calculator.go\<close>. Each struct is a record over the fields
  they all have; \<open>Add\<close> and \<open>Calculate\<close> follow the methods branch by branch, in \<open>uint32\<close>
  arithmetic. \<open>Calculate\<close> is an option: \<open>None\<close> is the integer division by zero that panics in
  Go. The interface \<open>ScoreCalculator\<close> is the locale \<open>score_calculator\<close>, whose laws the average,
  weighted, worst and banded calculators satisfy.
\<close>

subsection \<open>The fields all calculators share\<close>

record calc =
  c_value :: u32
  c_weight :: u32
  c_scoreTotal :: u32
  c_scoreCompletion :: u32
  c_dataTotal :: u32
  c_dataCompletion :: u32
  c_hasResults :: bool
  c_hasErrors :: bool
  c_failErrors :: bool

definition calc_Init :: "u32 \<Rightarrow> 'a calc_scheme \<Rightarrow> 'a calc_scheme" where
  "calc_Init v c = c\<lparr>c_value := v, c_weight := 0, c_scoreTotal := 0, c_scoreCompletion := 0,
     c_dataTotal := 0, c_dataCompletion := 0, c_hasResults := False, c_hasErrors := False\<rparr>"

definition add_data :: "Score \<Rightarrow> 'a calc_scheme \<Rightarrow> 'a calc_scheme" where
  "add_data s c = c\<lparr>c_dataCompletion := c_dataCompletion c + sc_DataCompletion s * sc_DataTotal s,
     c_dataTotal := c_dataTotal c + sc_DataTotal s\<rparr>"

definition add_progress :: "Score \<Rightarrow> 'a calc_scheme \<Rightarrow> 'a calc_scheme" where
  "add_progress s c = c\<lparr>c_scoreCompletion := c_scoreCompletion c + sc_ScoreCompletion s,
     c_scoreTotal := c_scoreTotal c + 1\<rparr>"

definition add_weight :: "Score \<Rightarrow> 'a calc_scheme \<Rightarrow> 'a calc_scheme" where
  "add_weight s c = c\<lparr>c_weight := c_weight c + sc_Weight s\<rparr>"

definition ignored :: "Impact option \<Rightarrow> bool" where
  "ignored i \<longleftrightarrow> (case i of None \<Rightarrow> False
     | Some im \<Rightarrow> im_Action im = Action_IGNORE \<or> im_Action im = Action_DEACTIVATE)"

text \<open>
  \<open>Add\<close> is the same switch over the score's type in every calculator; what differs is how a
  counted result enters (\<open>cnt\<close>, given the score and the impact). The flag sends errors the
  same way.
\<close>

definition calc_Add ::
  "(Score \<Rightarrow> Impact option \<Rightarrow> 'a calc_scheme \<Rightarrow> 'a calc_scheme) \<Rightarrow>
   (Score \<Rightarrow> 'a calc_scheme \<Rightarrow> 'a calc_scheme) \<Rightarrow>
   'a calc_scheme \<Rightarrow> Score \<Rightarrow> Impact option \<Rightarrow> 'a calc_scheme" where
  "calc_Add cnt cnt_error c s i =
     (if sc_Type s = ScoreType_Skip \<or> sc_Type s = ScoreType_Disabled
         \<or> sc_Type s = ScoreType_OutOfScope then c
      else if sc_Type s = ScoreType_Unscored then add_data s c
      else if sc_Type s = ScoreType_Result then
        (if ignored i then c
         else (cnt s i (add_progress s (add_weight s (add_data s c))))\<lparr>c_hasResults := True\<rparr>)
      else if sc_Type s = ScoreType_Error then
        (if c_failErrors c then
           (cnt_error s (add_progress s (add_weight s (add_data s
              (c\<lparr>c_hasErrors := True\<rparr>)))))\<lparr>c_hasResults := True\<rparr>
         else add_progress s (add_data s (c\<lparr>c_hasErrors := True\<rparr>)))
      else add_progress s (add_data s c))"

text \<open>A division of \<open>uint32\<close> values: \<open>None\<close> is the run-time panic for a zero divisor.\<close>

definition u32_div :: "u32 \<Rightarrow> u32 \<Rightarrow> u32 option" where
  "u32_div x y = (if y = 0 then None else Some (x div y))"

text \<open>The head of \<open>Calculate\<close>: an unscored result with the data completion.\<close>

definition unscored_result :: "'a calc_scheme \<Rightarrow> Score option" where
  "unscored_result c = map_option
     (\<lambda>d. zeroScore\<lparr>sc_Type := ScoreType_Unscored, sc_DataTotal := c_dataTotal c,
        sc_DataCompletion := d, sc_ScoreCompletion := 100\<rparr>)
     (if c_dataTotal c \<noteq> 0 then u32_div (c_dataCompletion c) (c_dataTotal c) else Some 100)"

text \<open>
  The tail of \<open>Calculate\<close>: completion and value for a scored indicator, the error type otherwise.
  The value \<open>v\<close> is computed under \<open>hasResults\<close> only.
\<close>

definition calc_finish :: "'a calc_scheme \<Rightarrow> u32 option \<Rightarrow> Score option" where
  "calc_finish c v = Option.bind (unscored_result c) (\<lambda>res.
     if c_hasResults c then
       Option.bind (u32_div (c_scoreCompletion c) (c_scoreTotal c)) (\<lambda>completion.
       Option.bind v (\<lambda>x.
         Some (res\<lparr>sc_Type := ScoreType_Result, sc_ScoreCompletion := completion,
           sc_Weight := c_weight c, sc_Value := x\<rparr>)))
     else if c_hasErrors c then Some (res\<lparr>sc_Type := ScoreType_Error\<rparr>)
     else Some res)"

subsection \<open>Average and weighted average\<close>

record averageScoreCalculator = calc +
  c_scoreCnt :: u32

type_synonym weightedScoreCalculator = averageScoreCalculator

definition average_Init :: "averageScoreCalculator \<Rightarrow> averageScoreCalculator" where
  "average_Init c = (calc_Init 0 c)\<lparr>c_scoreCnt := 0\<rparr>"

definition average_count :: "Score \<Rightarrow> averageScoreCalculator \<Rightarrow> averageScoreCalculator" where
  "average_count s c = (if sc_ScoreCompletion s \<noteq> 0
     then c\<lparr>c_scoreCnt := c_scoreCnt c + 1, c_value := c_value c + sc_Value s\<rparr> else c)"

definition average_Add ::
  "averageScoreCalculator \<Rightarrow> Score \<Rightarrow> Impact option \<Rightarrow> averageScoreCalculator" where
  "average_Add = calc_Add (\<lambda>s i. average_count s) average_count"

definition average_Calculate :: "averageScoreCalculator \<Rightarrow> Score option" where
  "average_Calculate c = calc_finish c
     (if c_scoreCnt c \<noteq> 0 then u32_div (c_value c) (c_scoreCnt c) else Some 0)"

definition weighted_Init :: "weightedScoreCalculator \<Rightarrow> weightedScoreCalculator" where
  "weighted_Init c = (calc_Init 0 c)\<lparr>c_scoreCnt := 0\<rparr>"

definition weighted_count :: "Score \<Rightarrow> weightedScoreCalculator \<Rightarrow> weightedScoreCalculator" where
  "weighted_count s c = (if sc_ScoreCompletion s \<noteq> 0
     then c\<lparr>c_scoreCnt := c_scoreCnt c + sc_Weight s,
       c_value := c_value c + sc_Value s * sc_Weight s\<rparr> else c)"

definition weighted_Add ::
  "weightedScoreCalculator \<Rightarrow> Score \<Rightarrow> Impact option \<Rightarrow> weightedScoreCalculator" where
  "weighted_Add = calc_Add (\<lambda>s i. weighted_count s) weighted_count"

definition weighted_Calculate :: "weightedScoreCalculator \<Rightarrow> Score option" where
  "weighted_Calculate c = calc_finish c
     (if c_scoreCnt c \<noteq> 0 then u32_div (c_value c) (c_scoreCnt c) else Some 0)"

subsection \<open>Worst\<close>

type_synonym worstScoreCalculator = calc

definition worst_Init :: "worstScoreCalculator \<Rightarrow> worstScoreCalculator" where
  "worst_Init c = calc_Init 100 c"

definition worst_count :: "Score \<Rightarrow> 'a calc_scheme \<Rightarrow> 'a calc_scheme" where
  "worst_count s c = (if sc_ScoreCompletion s \<noteq> 0 \<and> sc_Weight s \<noteq> 0 \<and> sc_Value s < c_value c
     then c\<lparr>c_value := sc_Value s\<rparr> else c)"

definition worst_Add :: "worstScoreCalculator \<Rightarrow> Score \<Rightarrow> Impact option \<Rightarrow> worstScoreCalculator" where
  "worst_Add = calc_Add (\<lambda>s i. worst_count s) worst_count"

definition worst_Calculate :: "worstScoreCalculator \<Rightarrow> Score option" where
  "worst_Calculate c = (if c_scoreTotal c = 0 then unscored_result c
     else calc_finish c (Some (c_value c)))"

subsection \<open>Banded\<close>

record bandedScoreCalculator = calc +
  b_crit :: u32
  b_high :: u32
  b_mid :: u32
  b_low :: u32
  b_critMax :: u32
  b_highMax :: u32
  b_midMax :: u32
  b_lowMax :: u32
  b_minscore :: u32

text \<open>\<open>Init\<close> sets \<open>minscore\<close> and the shared fields; the eight band counters keep what they hold.\<close>

definition banded_Init :: "bandedScoreCalculator \<Rightarrow> bandedScoreCalculator" where
  "banded_Init c = (calc_Init 100 c)\<lparr>b_minscore := 100\<rparr>"

definition banded_category :: "Impact option \<Rightarrow> u32" where
  "banded_category i = (case i of None \<Rightarrow> 0 | Some im \<Rightarrow>
     (case im_Value im of None \<Rightarrow> 0 | Some v \<Rightarrow> 100 - v))"

definition banded_count :: "Score \<Rightarrow> Impact option \<Rightarrow> bandedScoreCalculator \<Rightarrow> bandedScoreCalculator" where
  "banded_count s i c =
     (if sc_ScoreCompletion s \<noteq> 0 \<and> sc_Weight s \<noteq> 0 then
        (let cat = banded_category i; w = sc_Weight s;
             f = (if sc_Value s < 100 then w else 0)
         in if cat \<le> 10 then c\<lparr>b_critMax := b_critMax c + w, b_crit := b_crit c + f\<rparr>
            else if cat \<le> 30 then c\<lparr>b_highMax := b_highMax c + w, b_high := b_high c + f\<rparr>
            else if cat \<le> 60 then c\<lparr>b_midMax := b_midMax c + w, b_mid := b_mid c + f\<rparr>
            else c\<lparr>b_lowMax := b_lowMax c + w, b_low := b_low c + f\<rparr>)
      else c)"

definition banded_Add :: "bandedScoreCalculator \<Rightarrow> Score \<Rightarrow> Impact option \<Rightarrow> bandedScoreCalculator" where
  "banded_Add = calc_Add banded_count worst_count"

text \<open>
  The share of a band that passes, and the four cumulated shares. A float multiplication by a power
  of two is exact, so fusing \<open>1 + 4 * pcrHigh\<close> gives the same value and no platform choice remains
  here but the final conversion.
\<close>

definition band_ratio :: "u32 \<Rightarrow> u32 \<Rightarrow> rat" where
  "band_ratio mx f = (if mx \<noteq> 0 then fl64 (u32_to_float 53 (mx - f) / u32_to_float 53 mx) else 1)"

definition pcrLow :: "bandedScoreCalculator \<Rightarrow> rat" where
  "pcrLow c = band_ratio (b_lowMax c) (b_low c)"

definition pcrMid :: "bandedScoreCalculator \<Rightarrow> rat" where
  "pcrMid c = fl64 (fl64 (fl64 (3 + pcrLow c) / 4) * band_ratio (b_midMax c) (b_mid c))"

definition pcrHigh :: "bandedScoreCalculator \<Rightarrow> rat" where
  "pcrHigh c = fl64 (fl64 (fl64 (1 + pcrMid c) / 2) * band_ratio (b_highMax c) (b_high c))"

definition pcrCrit :: "bandedScoreCalculator \<Rightarrow> rat" where
  "pcrCrit c = fl64 (fl64 (fl64 (1 + fl64 (4 * pcrHigh c)) / 5) * band_ratio (b_critMax c) (b_crit c))"

definition banded_value :: "go_arch \<Rightarrow> bandedScoreCalculator \<Rightarrow> u32" where
  "banded_value a c =
     (if b_crit c \<noteq> 0 then float_to_u32 a (of_int \<lfloor>fl64 (50 * pcrCrit c)\<rfloor>)
      else if b_high c \<noteq> 0 then float_to_u32 a (of_int \<lfloor>fl64 (50 * pcrHigh c)\<rfloor>) + 10
      else if b_mid c \<noteq> 0 then float_to_u32 a (of_int \<lfloor>fl64 (50 * pcrMid c)\<rfloor>) + 30
      else if b_low c \<noteq> 0 then float_to_u32 a (of_int \<lfloor>fl64 (40 * pcrLow c)\<rfloor>) + 60
      else 100)"

definition banded_Calculate :: "go_arch \<Rightarrow> bandedScoreCalculator \<Rightarrow> Score option" where
  "banded_Calculate a c = (if c_scoreTotal c = 0 then unscored_result c
     else calc_finish c (Some (banded_value a c)))"

subsection \<open>Decayed\<close>

text \<open>
  \<open>math.Exp\<close> is a parameter \<open>mexp\<close> of \<open>Calculate\<close>: the standard library promises an approximation
  of the exponential and no particular rounding. \<open>c.xmax += w * impact / 100\<close> is a product added to a
  variable, which a platform may fuse.
\<close>

record decayedScoreCalculator = calc +
  d_x :: rat
  d_xmax :: rat

definition gravity :: rat where
  "gravity = 10"

definition decayed_Init :: "decayedScoreCalculator \<Rightarrow> decayedScoreCalculator" where
  "decayed_Init c = (calc_Init 100 c)\<lparr>d_x := 0, d_xmax := 0\<rparr>"

definition add_mul64 :: "go_arch \<Rightarrow> rat \<Rightarrow> rat \<Rightarrow> rat \<Rightarrow> rat" where
  "add_mul64 a z x y = (if ga_fused a then fl64 (z + x * y) else fl64 (z + fl64 (x * y)))"

definition decayed_count ::
  "go_arch \<Rightarrow> Score \<Rightarrow> Impact option \<Rightarrow> decayedScoreCalculator \<Rightarrow> decayedScoreCalculator" where
  "decayed_count a s i c =
     (if sc_ScoreCompletion s \<noteq> 0 \<and> sc_Weight s \<noteq> 0 then
        (let v = fl64 (u32_to_float 53 (100 - sc_Value s) / 100); w = u32_to_float 53 (sc_Weight s)
         in c\<lparr>d_x := add_mul64 a (d_x c) v w,
              d_xmax := (case Option.bind i im_Value of
                 None \<Rightarrow> add_mul64 a (d_xmax c) 1 w
               | Some iv \<Rightarrow> add_mul64 a (d_xmax c) (fl64 (of_int (sint iv) / 100)) w)\<rparr>)
      else c)"

definition decayed_Add ::
  "go_arch \<Rightarrow> decayedScoreCalculator \<Rightarrow> Score \<Rightarrow> Impact option \<Rightarrow> decayedScoreCalculator" where
  "decayed_Add a = calc_Add (decayed_count a) worst_count"

definition decayed_value ::
  "(rat \<Rightarrow> rat) \<Rightarrow> go_arch \<Rightarrow> decayedScoreCalculator \<Rightarrow> u32" where
  "decayed_value mexp a c =
     (let relGravity = fl64 (u32_to_float 53 (c_weight c) / gravity) in
      if d_xmax c \<noteq> 0 then
        (let xscaled = fl64 (fl64 (d_x c / d_xmax c) * relGravity);
             floor = mexp (- relGravity)
         in float_to_u32 a (of_int
              \<lfloor>fl64 (fl64 (100 * fl64 (mexp (- xscaled) - floor)) / fl64 (1 - floor))\<rfloor>))
      else 0)"

definition decayed_Calculate ::
  "(rat \<Rightarrow> rat) \<Rightarrow> go_arch \<Rightarrow> decayedScoreCalculator \<Rightarrow> Score option" where
  "decayed_Calculate mexp a c = (if c_scoreTotal c = 0 then unscored_result c
     else calc_finish c (Some (decayed_value mexp a c)))"

subsection \<open>The interface\<close>

datatype ScoreCalculator =
    Average averageScoreCalculator
  | Weighted weightedScoreCalculator
  | Worst worstScoreCalculator
  | Banded bandedScoreCalculator
  | Decayed decayedScoreCalculator

fun calculator_String :: "ScoreCalculator \<Rightarrow> string" where
  "calculator_String (Average c) = ''Average''"
| "calculator_String (Weighted c) = ''Weighted Average''"
| "calculator_String (Worst c) = ''Highest Impact''"
| "calculator_String (Banded c) = ''Banded''"
| "calculator_String (Decayed c) = ''Decayed''"

fun calculator_Init :: "ScoreCalculator \<Rightarrow> ScoreCalculator" where
  "calculator_Init (Average c) = Average (average_Init c)"
| "calculator_Init (Weighted c) = Weighted (weighted_Init c)"
| "calculator_Init (Worst c) = Worst (worst_Init c)"
| "calculator_Init (Banded c) = Banded (banded_Init c)"
| "calculator_Init (Decayed c) = Decayed (decayed_Init c)"

fun calculator_Add :: "go_arch \<Rightarrow> ScoreCalculator \<Rightarrow> Score \<Rightarrow> Impact option \<Rightarrow> ScoreCalculator" where
  "calculator_Add a (Average c) s i = Average (average_Add c s i)"
| "calculator_Add a (Weighted c) s i = Weighted (weighted_Add c s i)"
| "calculator_Add a (Worst c) s i = Worst (worst_Add c s i)"
| "calculator_Add a (Banded c) s i = Banded (banded_Add c s i)"
| "calculator_Add a (Decayed c) s i = Decayed (decayed_Add a c s i)"

fun calculator_Calculate :: "(rat \<Rightarrow> rat) \<Rightarrow> go_arch \<Rightarrow> ScoreCalculator \<Rightarrow> Score option" where
  "calculator_Calculate mexp a (Average c) = average_Calculate c"
| "calculator_Calculate mexp a (Weighted c) = weighted_Calculate c"
| "calculator_Calculate mexp a (Worst c) = worst_Calculate c"
| "calculator_Calculate mexp a (Banded c) = banded_Calculate a c"
| "calculator_Calculate mexp a (Decayed c) = decayed_Calculate mexp a c"

text \<open>A fresh struct: Go's zero values with the flag set as the options say.\<close>

definition zeroCalc :: "bool \<Rightarrow> calc" where
  "zeroCalc ff = \<lparr>c_value = 0, c_weight = 0, c_scoreTotal = 0, c_scoreCompletion = 0,
     c_dataTotal = 0, c_dataCompletion = 0, c_hasResults = False, c_hasErrors = False,
     c_failErrors = ff\<rparr>"

definition zeroAverage :: "bool \<Rightarrow> averageScoreCalculator" where
  "zeroAverage ff = calc.extend (zeroCalc ff) (averageScoreCalculator.fields 0)"

definition zeroBanded :: "bool \<Rightarrow> bandedScoreCalculator" where
  "zeroBanded ff = calc.extend (zeroCalc ff) (bandedScoreCalculator.fields 0 0 0 0 0 0 0 0 0)"

definition zeroDecayed :: "bool \<Rightarrow> decayedScoreCalculator" where
  "zeroDecayed ff = calc.extend (zeroCalc ff) (decayedScoreCalculator.fields 0 0)"

datatype calculator_error = UnknownSystem i32

definition NewScoreCalculator :: "ScoringSystem \<Rightarrow> bool \<Rightarrow> calculator_error + ScoreCalculator" where
  "NewScoreCalculator sys ff =
     (case sys of
        AVERAGE \<Rightarrow> Inr (calculator_Init (Average (zeroAverage ff)))
      | SCORING_UNSPECIFIED \<Rightarrow> Inr (calculator_Init (Average (zeroAverage ff)))
      | DATA_ONLY \<Rightarrow> Inr (calculator_Init (Average (zeroAverage ff)))
      | WEIGHTED \<Rightarrow> Inr (calculator_Init (Weighted (zeroAverage ff)))
      | WORST \<Rightarrow> Inr (calculator_Init (Worst (zeroCalc ff)))
      | BANDED \<Rightarrow> Inr (calculator_Init (Banded (zeroBanded ff)))
      | DECAYED \<Rightarrow> Inr (calculator_Init (Decayed (zeroDecayed ff)))
      | other \<Rightarrow> Inl (UnknownSystem (ScoringSystem_code other)))"

subsection \<open>Feeding a calculator\<close>

definition impact_floor :: "i32 \<Rightarrow> u32 \<Rightarrow> u32" where
  "impact_floor iv v = (let floor = 100 - iv in if v < floor then floor else v)"

definition AddSpecdScore ::
  "('c \<Rightarrow> Score \<Rightarrow> Impact option \<Rightarrow> 'c) \<Rightarrow> 'c \<Rightarrow> Score \<Rightarrow> bool \<Rightarrow> Impact option \<Rightarrow> 'c" where
  "AddSpecdScore add c s found impact =
     (if \<not> found then add c zeroScore None
      else
        (let score = (case Option.bind impact im_Value of
               None \<Rightarrow> s | Some iv \<Rightarrow> s\<lparr>sc_Value := impact_floor iv (sc_Value s)\<rparr>)
         in case impact of
              None \<Rightarrow> add c score None
            | Some im \<Rightarrow>
                if im_Scoring im = IGNORE_SCORE then
                  add c (zeroScore\<lparr>sc_Type := ScoreType_Skip, sc_Value := sc_Value score,
                    sc_Weight := 0, sc_ScoreCompletion := sc_ScoreCompletion score,
                    sc_DataCompletion := sc_DataCompletion score,
                    sc_DataTotal := sc_DataTotal score\<rparr>) None
                else add c (if 0 < sint (im_Weight im) then score\<lparr>sc_Weight := im_Weight im\<rparr>
                            else if sc_Weight score = 0 then score\<lparr>sc_Weight := 1\<rparr>
                            else score) (Some im)))"

definition AddDataScore ::
  "('c \<Rightarrow> Score \<Rightarrow> Impact option \<Rightarrow> 'c) \<Rightarrow> 'c \<Rightarrow> nat \<Rightarrow> nat \<Rightarrow> 'c" where
  "AddDataScore add c totalDeps finishedDeps =
     (if totalDeps = 0 then c
      else add c (zeroScore\<lparr>sc_Type := ScoreType_Unscored, sc_DataTotal := of_nat totalDeps,
        sc_DataCompletion := of_nat ((100 * finishedDeps) div totalDeps)\<rparr>) None)"

subsection \<open>The laws of a score calculator\<close>

text \<open>
  The shared updates of two scores commute: each adds to its own field. A counting operation that
  leaves the shared fields alone and commutes with itself therefore gives an \<open>Add\<close> whose order
  does not matter. This is what the \<open>range\<close> over the child scores, whose order Go leaves open,
  needs.
\<close>

definition set_results :: "'a calc_scheme \<Rightarrow> 'a calc_scheme" where
  "set_results c = c\<lparr>c_hasResults := True\<rparr>"

definition set_errors :: "'a calc_scheme \<Rightarrow> 'a calc_scheme" where
  "set_errors c = c\<lparr>c_hasErrors := True\<rparr>"

lemma shared_commute:
  "add_data s (add_data t c) = add_data t (add_data s c)"
  "add_weight s (add_weight t c) = add_weight t (add_weight s c)"
  "add_progress s (add_progress t c) = add_progress t (add_progress s c)"
  "add_weight s (add_data t c) = add_data t (add_weight s c)"
  "add_progress s (add_data t c) = add_data t (add_progress s c)"
  "add_progress s (add_weight t c) = add_weight t (add_progress s c)"
  "set_results (add_data t c) = add_data t (set_results c)"
  "set_results (add_weight t c) = add_weight t (set_results c)"
  "set_results (add_progress t c) = add_progress t (set_results c)"
  "set_errors (add_data t c) = add_data t (set_errors c)"
  "set_errors (add_weight t c) = add_weight t (set_errors c)"
  "set_errors (add_progress t c) = add_progress t (set_errors c)"
  "set_errors (set_results c) = set_results (set_errors c)"
  "set_results (set_results c) = set_results c"
  "set_errors (set_errors c) = set_errors c"
  by (simp_all add: add_data_def add_weight_def add_progress_def set_results_def set_errors_def ac_simps)

lemma shared_failErrors [simp]:
  "c_failErrors (add_data s c) = c_failErrors c"
  "c_failErrors (add_weight s c) = c_failErrors c"
  "c_failErrors (add_progress s c) = c_failErrors c"
  "c_failErrors (set_results c) = c_failErrors c"
  "c_failErrors (set_errors c) = c_failErrors c"
  by (simp_all add: add_data_def add_weight_def add_progress_def set_results_def set_errors_def)

lemma calc_Add_ops:
  "calc_Add cnt cnt_error c s i =
     (if sc_Type s = ScoreType_Skip \<or> sc_Type s = ScoreType_Disabled
         \<or> sc_Type s = ScoreType_OutOfScope then c
      else if sc_Type s = ScoreType_Unscored then add_data s c
      else if sc_Type s = ScoreType_Result then
        (if ignored i then c
         else set_results (cnt s i (add_progress s (add_weight s (add_data s c)))))
      else if sc_Type s = ScoreType_Error then
        (if c_failErrors c then
           set_results (cnt_error s (add_progress s (add_weight s (add_data s (set_errors c)))))
         else add_progress s (add_data s (set_errors c)))
      else add_progress s (add_data s c))"
  by (simp add: calc_Add_def set_results_def set_errors_def)

lemmas calc_defs = add_data_def add_weight_def add_progress_def set_results_def set_errors_def

text \<open>
  The reference reading of a run of \<open>Add\<close>s: which scores move the progress, which count as
  results, and which of these carry a value.
\<close>

definition run :: "('c \<Rightarrow> Score \<Rightarrow> Impact option \<Rightarrow> 'c) \<Rightarrow> 'c \<Rightarrow> (Score \<times> Impact option) list \<Rightarrow> 'c" where
  "run add c xs = foldl (\<lambda>c (s, i). add c s i) c xs"

lemma run_simps [simp]: "run add c [] = c" "run add c ((s, i) # xs) = run add (add c s i) xs"
  by (simp_all add: run_def)

definition is_counted :: "bool \<Rightarrow> Score \<times> Impact option \<Rightarrow> bool" where
  "is_counted ff = (\<lambda>(s, i). (sc_Type s = ScoreType_Result \<and> \<not> ignored i)
     \<or> (sc_Type s = ScoreType_Error \<and> ff))"

definition is_progress :: "Score \<times> Impact option \<Rightarrow> bool" where
  "is_progress = (\<lambda>(s, i).
     sc_Type s \<notin> {ScoreType_Skip, ScoreType_Disabled, ScoreType_OutOfScope, ScoreType_Unscored}
     \<and> \<not> (sc_Type s = ScoreType_Result \<and> ignored i))"

definition is_valued :: "bool \<Rightarrow> Score \<times> Impact option \<Rightarrow> bool" where
  "is_valued ff = (\<lambda>(s, i). is_counted ff (s, i) \<and> sc_ScoreCompletion s \<noteq> 0)"

lemma counted_progress: "is_counted ff x \<Longrightarrow> is_progress x"
  by (auto simp: is_counted_def is_progress_def)

lemma calc_fields [simp]:
  "c_value (add_data s c) = c_value c" "c_value (add_weight s c) = c_value c"
  "c_value (add_progress s c) = c_value c" "c_value (set_results c) = c_value c"
  "c_value (set_errors c) = c_value c"
  "c_scoreTotal (add_data s c) = c_scoreTotal c" "c_scoreTotal (add_weight s c) = c_scoreTotal c"
  "c_scoreTotal (add_progress s c) = c_scoreTotal c + 1" "c_scoreTotal (set_results c) = c_scoreTotal c"
  "c_scoreTotal (set_errors c) = c_scoreTotal c"
  "c_scoreCompletion (add_data s c) = c_scoreCompletion c"
  "c_scoreCompletion (add_weight s c) = c_scoreCompletion c"
  "c_scoreCompletion (add_progress s c) = c_scoreCompletion c + sc_ScoreCompletion s"
  "c_scoreCompletion (set_results c) = c_scoreCompletion c"
  "c_scoreCompletion (set_errors c) = c_scoreCompletion c"
  "c_hasResults (add_data s c) = c_hasResults c" "c_hasResults (add_weight s c) = c_hasResults c"
  "c_hasResults (add_progress s c) = c_hasResults c" "c_hasResults (set_results c)"
  "c_hasResults (set_errors c) = c_hasResults c"
  by (simp_all add: calc_defs)

text \<open>
  What every \<open>cnt\<close> respects: the fields of progress and the flags are the switch's own.
\<close>

locale counting_frame =
  fixes cnt :: "Score \<Rightarrow> Impact option \<Rightarrow> 'a calc_scheme \<Rightarrow> 'a calc_scheme"
    and cnt_error :: "Score \<Rightarrow> 'a calc_scheme \<Rightarrow> 'a calc_scheme"
  assumes keeps: "c_scoreTotal (cnt s i c) = c_scoreTotal c" "c_scoreTotal (cnt_error s c) = c_scoreTotal c"
    "c_scoreCompletion (cnt s i c) = c_scoreCompletion c"
    "c_scoreCompletion (cnt_error s c) = c_scoreCompletion c"
    "c_hasResults (cnt s i c) = c_hasResults c" "c_hasResults (cnt_error s c) = c_hasResults c"
    "c_failErrors (cnt s i c) = c_failErrors c" "c_failErrors (cnt_error s c) = c_failErrors c"
begin

lemma Add_fields:
  "c_failErrors (calc_Add cnt cnt_error c s i) = c_failErrors c"
  "c_scoreTotal (calc_Add cnt cnt_error c s i) = c_scoreTotal c + (if is_progress (s, i) then 1 else 0)"
  "c_scoreCompletion (calc_Add cnt cnt_error c s i) =
     c_scoreCompletion c + (if is_progress (s, i) then sc_ScoreCompletion s else 0)"
  "c_hasResults (calc_Add cnt cnt_error c s i) \<longleftrightarrow> c_hasResults c \<or> is_counted (c_failErrors c) (s, i)"
  by (simp_all add: calc_Add_ops keeps is_progress_def is_counted_def)

lemma run_fields:
  "c_failErrors (run (calc_Add cnt cnt_error) c xs) = c_failErrors c"
  "c_scoreTotal (run (calc_Add cnt cnt_error) c xs) =
     c_scoreTotal c + of_nat (length (filter is_progress xs))"
  "c_scoreCompletion (run (calc_Add cnt cnt_error) c xs) =
     c_scoreCompletion c + (\<Sum>x\<leftarrow>filter is_progress xs. sc_ScoreCompletion (fst x))"
  "c_hasResults (run (calc_Add cnt cnt_error) c xs) \<longleftrightarrow>
     c_hasResults c \<or> list_ex (is_counted (c_failErrors c)) xs"
  by (induction xs arbitrary: c) (auto simp: Add_fields ac_simps)

lemma Add_skipped_frame:
  "sc_Type s \<in> {ScoreType_Skip, ScoreType_Disabled, ScoreType_OutOfScope} \<Longrightarrow>
   calc_Add cnt cnt_error c s i = c"
  by (auto simp: calc_Add_def)

end

locale counting = counting_frame +
  assumes cnt_cnt: "cnt s i (cnt t j c) = cnt t j (cnt s i c)"
    and cnt_err: "cnt_error t (cnt s i c) = cnt s i (cnt_error t c)"
    and err_err: "cnt_error s (cnt_error t c) = cnt_error t (cnt_error s c)"
    and cnt_frame: "cnt s i (add_data t c) = add_data t (cnt s i c)"
      "cnt s i (add_weight t c) = add_weight t (cnt s i c)"
      "cnt s i (add_progress t c) = add_progress t (cnt s i c)"
      "cnt s i (set_results c) = set_results (cnt s i c)"
      "cnt s i (set_errors c) = set_errors (cnt s i c)"
    and err_frame: "cnt_error s (add_data t c) = add_data t (cnt_error s c)"
      "cnt_error s (add_weight t c) = add_weight t (cnt_error s c)"
      "cnt_error s (add_progress t c) = add_progress t (cnt_error s c)"
      "cnt_error s (set_results c) = set_results (cnt_error s c)"
      "cnt_error s (set_errors c) = set_errors (cnt_error s c)"
begin

lemma calc_Add_commute:
  "calc_Add cnt cnt_error (calc_Add cnt cnt_error c s i) t j =
   calc_Add cnt cnt_error (calc_Add cnt cnt_error c t j) s i"
  unfolding calc_Add_ops
  by (simp add: keeps cnt_cnt cnt_err err_err cnt_frame err_frame shared_commute)

end

text \<open>The interface \<open>ScoreCalculator\<close>: what its clients rely on.\<close>

locale score_calculator =
  fixes Add :: "'c \<Rightarrow> Score \<Rightarrow> Impact option \<Rightarrow> 'c"
  assumes Add_commute: "Add (Add c s i) t j = Add (Add c t j) s i"
    and Add_skipped: "sc_Type s \<in> {ScoreType_Skip, ScoreType_Disabled, ScoreType_OutOfScope} \<Longrightarrow>
      Add c s i = c"
begin

lemma run_perm: "mset xs = mset ys \<Longrightarrow> run Add c xs = run Add c ys"
  unfolding run_def by (rule foldl_commuting_perm) (auto simp: commuting_def Add_commute)

lemma specd_commute:
  "AddSpecdScore Add (AddSpecdScore Add c s f i) t g j = AddSpecdScore Add (AddSpecdScore Add c t g j) s f i"
proof -
  have red: "\<exists>s' i'. \<forall>c. AddSpecdScore Add c s f i = Add c s' i'" for s f i
    by (cases i) (auto simp: AddSpecdScore_def Let_def)
  obtain s' i' where s: "\<And>c. AddSpecdScore Add c s f i = Add c s' i'" using red by blast
  obtain t' j' where t: "\<And>c. AddSpecdScore Add c t g j = Add c t' j'" using red by blast
  show ?thesis unfolding s t by (rule Add_commute)
qed

lemma specd_all_perm:
  "mset xs = mset ys \<Longrightarrow>
   foldl (\<lambda>c (s, i). AddSpecdScore Add c s True i) c xs =
   foldl (\<lambda>c (s, i). AddSpecdScore Add c s True i) c ys"
  by (rule foldl_commuting_perm) (auto simp: commuting_def specd_commute)

lemma ignored_no_effect:
  "im_Scoring im = IGNORE_SCORE \<Longrightarrow> AddSpecdScore Add c s True (Some im) = c"
  by (simp add: AddSpecdScore_def Let_def Add_skipped)

end

sublocale counting \<subseteq> score_calculator "calc_Add cnt cnt_error"
  by unfold_locales (fact calc_Add_commute, fact Add_skipped_frame)

lemma worst_count_commute:
  "worst_count s (worst_count t c) = worst_count t (worst_count s c)"
  by (auto simp: worst_count_def)

interpretation average: counting "\<lambda>s i. average_count s" average_count
  by unfold_locales (simp_all add: average_count_def calc_defs ac_simps)

interpretation weighted: counting "\<lambda>s i. weighted_count s" weighted_count
  by unfold_locales (simp_all add: weighted_count_def calc_defs ac_simps)

interpretation worst: counting "\<lambda>s i. worst_count s" "worst_count :: Score \<Rightarrow> calc \<Rightarrow> calc"
  by unfold_locales (simp_all add: worst_count_commute, auto simp: worst_count_def calc_defs)

lemma banded_count_commute: "banded_count s i (banded_count t j c) = banded_count t j (banded_count s i c)"
  by (simp add: banded_count_def Let_def ac_simps)

interpretation banded: counting banded_count worst_count
  by unfold_locales
     (simp_all only: banded_count_commute worst_count_commute,
      simp_all add: banded_count_def worst_count_def calc_defs Let_def)

interpretation decayed: counting_frame "decayed_count a" worst_count
  by unfold_locales (simp_all add: decayed_count_def worst_count_def Let_def)

end
