(* ===== verification/Calculator_Results.thy ===== *)
theory Calculator_Results
  imports Score_Calculators
begin

text \<open>
  What the calculators compute: the exact averages and minima over the natural numbers while no
  \<open>uint32\<close> wraps, the bands of the banded calculator through the rounding of \<open>float64\<close>, and the
  laws of the calculator as its clients see it (\<open>NewScoreCalculator\<close>, then \<open>Add\<close>s, then
  \<open>Calculate\<close>): no panic, a completion of 100 exactly when every part is complete, a value of at most
  100, and a result that does not depend on the order of the scores, the decayed system excepted.
\<close>

subsection \<open>Exact values\<close>

lemma average_run_value:
  "c_value (run average_Add c xs) = c_value c
     + (\<Sum>x\<leftarrow>filter (is_valued (c_failErrors c)) xs. sc_Value (fst x))"
  "c_scoreCnt (run average_Add c xs) = c_scoreCnt c
     + of_nat (length (filter (is_valued (c_failErrors c)) xs))"
  unfolding average_Add_def
  by (induction xs arbitrary: c)
     (auto simp: average.Add_fields,
      auto simp: calc_Add_ops average_count_def is_valued_def is_counted_def calc_defs)

lemma weighted_run_value:
  "c_value (run weighted_Add c xs) = c_value c
     + (\<Sum>x\<leftarrow>filter (is_valued (c_failErrors c)) xs. sc_Value (fst x) * sc_Weight (fst x))"
  "c_scoreCnt (run weighted_Add c xs) = c_scoreCnt c
     + (\<Sum>x\<leftarrow>filter (is_valued (c_failErrors c)) xs. sc_Weight (fst x))"
  unfolding weighted_Add_def
  by (induction xs arbitrary: c)
     (auto simp: weighted.Add_fields,
      auto simp: calc_Add_ops weighted_count_def is_valued_def is_counted_def calc_defs)

definition worst_values :: "bool \<Rightarrow> (Score \<times> Impact option) list \<Rightarrow> u32 list" where
  "worst_values ff xs = map (\<lambda>x. sc_Value (fst x))
     (filter (\<lambda>x. is_valued ff x \<and> sc_Weight (fst x) \<noteq> 0) xs)"

lemma worst_values_Cons: "worst_values ff (x # xs) = worst_values ff [x] @ worst_values ff xs"
  by (simp add: worst_values_def)

lemma worst_Add_value:
  "c_value (calc_Add (\<lambda>s i. worst_count s) worst_count c s i) =
     fold min (worst_values (c_failErrors c) [(s, i)]) (c_value c)"
  by (auto simp: calc_Add_ops worst_values_def worst_count_def is_valued_def is_counted_def min_def)

lemma worst_run_value:
  "c_value (run worst_Add c xs) = fold min (worst_values (c_failErrors c) xs) (c_value c)"
  unfolding worst_Add_def
proof (induction xs arbitrary: c)
  case (Cons x xs)
  obtain s i where x: "x = (s, i)" by fastforce
  show ?case unfolding x worst_values_Cons [of _ "(s, i)" xs]
    by (simp only: run_simps Cons.IH worst_Add_value worst.Add_fields fold_append comp_apply)
qed (simp add: worst_values_def)

lemma fold_min_Min: "fold min vs (v :: u32) = Min (set (v # vs))"
  by (metis Min.set_eq_fold)

lemma init_fields [simp]:
  "c_failErrors (average_Init (zeroAverage ff)) = ff" "c_value (average_Init c) = 0"
  "c_scoreCnt (average_Init c) = 0" "c_scoreTotal (average_Init c) = 0"
  "c_scoreCompletion (average_Init c) = 0" "\<not> c_hasResults (average_Init c)"
  "c_failErrors (weighted_Init (zeroAverage ff)) = ff" "c_value (weighted_Init c) = 0"
  "c_scoreCnt (weighted_Init c) = 0" "c_scoreTotal (weighted_Init c) = 0"
  "c_scoreCompletion (weighted_Init c) = 0" "\<not> c_hasResults (weighted_Init c)"
  "c_failErrors (worst_Init (zeroCalc ff)) = ff" "c_value (worst_Init c') = 100"
  "c_scoreTotal (worst_Init c') = 0" "c_scoreCompletion (worst_Init c') = 0" "\<not> c_hasResults (worst_Init c')"
  "c_failErrors (banded_Init (zeroBanded ff)) = ff" "c_scoreTotal (banded_Init b) = 0"
  "c_scoreCompletion (banded_Init b) = 0" "\<not> c_hasResults (banded_Init b)"
  "c_failErrors (decayed_Init (zeroDecayed ff)) = ff" "c_scoreTotal (decayed_Init d) = 0"
  "c_scoreCompletion (decayed_Init d) = 0" "\<not> c_hasResults (decayed_Init d)"
  by (simp_all add: average_Init_def weighted_Init_def worst_Init_def banded_Init_def decayed_Init_def
      calc_Init_def zeroAverage_def zeroBanded_def zeroDecayed_def zeroCalc_def calc.defs
      averageScoreCalculator.defs bandedScoreCalculator.defs decayedScoreCalculator.defs)

text \<open>Running the sum type is running the component.\<close>

lemma run_calculator [simp]:
  "run (calculator_Add a) (Average c) xs = Average (run average_Add c xs)"
  "run (calculator_Add a) (Weighted c) xs = Weighted (run weighted_Add c xs)"
  "run (calculator_Add a) (Worst w) xs = Worst (run worst_Add w xs)"
  "run (calculator_Add a) (Banded b) xs = Banded (run banded_Add b xs)"
  "run (calculator_Add a) (Decayed d) xs = Decayed (run (decayed_Add a) d xs)"
  by (induction xs arbitrary: c w b d) auto

lemma NewScoreCalculator_cases:
  assumes "NewScoreCalculator sys ff = Inr c"
  obtains "c = Average (average_Init (zeroAverage ff))" "sys \<in> {AVERAGE, SCORING_UNSPECIFIED, DATA_ONLY}"
  | "c = Weighted (weighted_Init (zeroAverage ff))" "sys = WEIGHTED"
  | "c = Worst (worst_Init (zeroCalc ff))" "sys = WORST"
  | "c = Banded (banded_Init (zeroBanded ff))" "sys = BANDED"
  | "c = Decayed (decayed_Init (zeroDecayed ff))" "sys = DECAYED"
  using assms by (cases sys) (auto simp: NewScoreCalculator_def)

lemma run_fields_defs:
  "c_scoreTotal (run average_Add c xs) = c_scoreTotal c + of_nat (length (filter is_progress xs))"
  "c_scoreTotal (run weighted_Add c xs) = c_scoreTotal c + of_nat (length (filter is_progress xs))"
  "c_scoreTotal (run worst_Add w xs) = c_scoreTotal w + of_nat (length (filter is_progress xs))"
  "c_scoreTotal (run banded_Add b xs) = c_scoreTotal b + of_nat (length (filter is_progress xs))"
  "c_scoreTotal (run (decayed_Add a) d xs) = c_scoreTotal d + of_nat (length (filter is_progress xs))"
  "c_scoreCompletion (run average_Add c xs) =
     c_scoreCompletion c + (\<Sum>x\<leftarrow>filter is_progress xs. sc_ScoreCompletion (fst x))"
  "c_scoreCompletion (run weighted_Add c xs) =
     c_scoreCompletion c + (\<Sum>x\<leftarrow>filter is_progress xs. sc_ScoreCompletion (fst x))"
  "c_scoreCompletion (run worst_Add w xs) =
     c_scoreCompletion w + (\<Sum>x\<leftarrow>filter is_progress xs. sc_ScoreCompletion (fst x))"
  "c_scoreCompletion (run banded_Add b xs) =
     c_scoreCompletion b + (\<Sum>x\<leftarrow>filter is_progress xs. sc_ScoreCompletion (fst x))"
  "c_scoreCompletion (run (decayed_Add a) d xs) =
     c_scoreCompletion d + (\<Sum>x\<leftarrow>filter is_progress xs. sc_ScoreCompletion (fst x))"
  "c_hasResults (run average_Add c xs) \<longleftrightarrow> c_hasResults c \<or> list_ex (is_counted (c_failErrors c)) xs"
  "c_hasResults (run weighted_Add c xs) \<longleftrightarrow> c_hasResults c \<or> list_ex (is_counted (c_failErrors c)) xs"
  "c_hasResults (run worst_Add w xs) \<longleftrightarrow> c_hasResults w \<or> list_ex (is_counted (c_failErrors w)) xs"
  "c_hasResults (run banded_Add b xs) \<longleftrightarrow> c_hasResults b \<or> list_ex (is_counted (c_failErrors b)) xs"
  "c_hasResults (run (decayed_Add a) d xs) \<longleftrightarrow> c_hasResults d \<or> list_ex (is_counted (c_failErrors d)) xs"
  unfolding average_Add_def weighted_Add_def worst_Add_def banded_Add_def decayed_Add_def
  by (simp_all add: average.run_fields weighted.run_fields worst.run_fields banded.run_fields decayed.run_fields)

lemma progress_total:
  assumes "list_ex (is_counted ff) xs" and "length xs < 4294967296"
  shows "filter is_progress xs \<noteq> []"
    and "unat (of_nat (length (filter is_progress xs)) :: u32) = length (filter is_progress xs)"
    and "(of_nat (length (filter is_progress xs)) :: u32) \<noteq> 0"
proof -
  show ne: "filter is_progress xs \<noteq> []"
    using assms(1) by (auto simp: list_ex_iff filter_empty_conv dest: counted_progress)
  have "length (filter is_progress xs) < 4294967296"
    using assms(2) length_filter_le [of is_progress xs] by linarith
  then show u: "unat (of_nat (length (filter is_progress xs)) :: u32) = length (filter is_progress xs)"
    by (rule unat_of_nat_u32)
  with ne show "(of_nat (length (filter is_progress xs)) :: u32) \<noteq> 0"
    by (metis length_0_conv unat_0)
qed

text \<open>The guarded divisions never panic.\<close>

definition data_completion :: "'a calc_scheme \<Rightarrow> u32" where
  "data_completion c = (if c_dataTotal c \<noteq> 0 then c_dataCompletion c div c_dataTotal c else 100)"

lemma guarded_div [simp]:
  "(if y \<noteq> 0 then u32_div x y else Some d) = Some (if y \<noteq> 0 then x div y else d)"
  by (simp add: u32_div_def)

lemma unscored_result_some:
  "unscored_result c = Some (zeroScore\<lparr>sc_Type := ScoreType_Unscored, sc_DataTotal := c_dataTotal c,
     sc_DataCompletion := data_completion c, sc_ScoreCompletion := 100\<rparr>)"
  by (simp add: unscored_result_def data_completion_def u32_div_def)

lemmas calculate_defs = average_Calculate_def weighted_Calculate_def worst_Calculate_def
  banded_Calculate_def decayed_Calculate_def calc_finish_def unscored_result_some u32_div_def

text \<open>What every calculator reports once a result was counted, apart from the value.\<close>

lemma calculator_reports:
  assumes "NewScoreCalculator sys ff = Inr c0" and "length xs < 4294967296"
    and "list_ex (is_counted ff) xs"
  obtains r where "calculator_Calculate mexp a (run (calculator_Add a) c0 xs) = Some r"
    and "sc_Type r = ScoreType_Result"
    and "sc_ScoreCompletion r = (\<Sum>x\<leftarrow>filter is_progress xs. sc_ScoreCompletion (fst x))
           div of_nat (length (filter is_progress xs))"
  using assms(1) progress_total [OF assms(3,2)] assms(3)
  by (cases rule: NewScoreCalculator_cases)
     (auto simp: calculate_defs run_fields_defs)

lemma specd_calculator [simp]:
  "AddSpecdScore (calculator_Add a) (Average c) s f i = Average (AddSpecdScore average_Add c s f i)"
  "AddSpecdScore (calculator_Add a) (Weighted c) s f i = Weighted (AddSpecdScore weighted_Add c s f i)"
  "AddSpecdScore (calculator_Add a) (Worst w) s f i = Worst (AddSpecdScore worst_Add w s f i)"
  "AddSpecdScore (calculator_Add a) (Banded b) s f i = Banded (AddSpecdScore banded_Add b s f i)"
  by (auto simp: AddSpecdScore_def Let_def split: option.splits)

lemma specd_run_calculator [simp]:
  "foldl (\<lambda>c (s, i). AddSpecdScore (calculator_Add a) c s True i) (Average c) xs =
     Average (foldl (\<lambda>c (s, i). AddSpecdScore average_Add c s True i) c xs)"
  "foldl (\<lambda>c (s, i). AddSpecdScore (calculator_Add a) c s True i) (Weighted c) xs =
     Weighted (foldl (\<lambda>c (s, i). AddSpecdScore weighted_Add c s True i) c xs)"
  "foldl (\<lambda>c (s, i). AddSpecdScore (calculator_Add a) c s True i) (Worst w) xs =
     Worst (foldl (\<lambda>c (s, i). AddSpecdScore worst_Add c s True i) w xs)"
  "foldl (\<lambda>c (s, i). AddSpecdScore (calculator_Add a) c s True i) (Banded b) xs =
     Banded (foldl (\<lambda>c (s, i). AddSpecdScore banded_Add c s True i) b xs)"
  by (induction xs arbitrary: c w b) auto

lemma specd_calculator_perm:
  assumes "NewScoreCalculator sys ff = Inr c0" and "sys \<noteq> DECAYED" and "mset xs = mset ys"
  shows "foldl (\<lambda>c (s, i). AddSpecdScore (calculator_Add a) c s True i) c0 xs =
         foldl (\<lambda>c (s, i). AddSpecdScore (calculator_Add a) c s True i) c0 ys"
  using assms
    average.specd_all_perm [OF assms(3), folded average_Add_def]
    weighted.specd_all_perm [OF assms(3), folded weighted_Add_def]
    worst.specd_all_perm [OF assms(3), folded worst_Add_def]
    banded.specd_all_perm [OF assms(3), folded banded_Add_def]
  by (cases rule: NewScoreCalculator_cases) auto

lemma calculate_some:
  assumes "NewScoreCalculator sys ff = Inr c0" and "length xs < 4294967296"
  shows "calculator_Calculate mexp a (run (calculator_Add a) c0 xs) \<noteq> None"
  using assms(1) progress_total [of ff xs] assms(2)
  by (cases rule: NewScoreCalculator_cases)
     (auto simp: calculate_defs run_fields_defs)

text \<open>C26: the score a reporting job computes does not depend on the order in which the
  child scores are visited: for every scoring system but the decayed one, feeding any permutation of the
  children through \<open>AddSpecdScore\<close> gives the same \<open>Calculate\<close>.\<close>

theorem calculator_order_independent:
  assumes "NewScoreCalculator sys ff = Inr c0" and "sys \<noteq> DECAYED" and "mset xs = mset ys"
  shows "calculator_Calculate mexp a (foldl (\<lambda>c (s, i). AddSpecdScore (calculator_Add a) c s True i) c0 xs) =
         calculator_Calculate mexp a (foldl (\<lambda>c (s, i). AddSpecdScore (calculator_Add a) c s True i) c0 ys)"
  using specd_calculator_perm [OF assms] by simp

text \<open>C27: after fewer than \<open>2^32\<close> calls of \<open>Add\<close> on a fresh calculator of any system,
  \<open>Calculate\<close> does not divide by zero.\<close>

theorem calculator_never_panics:
  assumes "NewScoreCalculator sys ff = Inr c0" and "length xs < 4294967296"
  shows "calculator_Calculate mexp a (run (calculator_Add a) c0 xs) \<noteq> None"
  using assms by (rule calculate_some)

text \<open>While the weighted sum and the sum of the weights fit \<open>uint32\<close>, the weighted
  calculator returns exactly the floor of the weighted mean of the counted scores that have started.\<close>

theorem weighted_exact:
  fixes xs :: "(Score \<times> Impact option) list" and ff :: bool
  defines "vs \<equiv> filter (is_valued ff) xs"
  assumes "length xs < 4294967296" and "list_ex (is_counted ff) xs"
    and "(\<Sum>x\<leftarrow>vs. unat (sc_Value (fst x)) * unat (sc_Weight (fst x))) < 4294967296"
    and "(\<Sum>x\<leftarrow>vs. unat (sc_Weight (fst x))) < 4294967296"
  shows "\<exists>r. weighted_Calculate (run weighted_Add (weighted_Init (zeroAverage ff)) xs) = Some r
     \<and> sc_Type r = ScoreType_Result
     \<and> unat (sc_Value r) = (\<Sum>x\<leftarrow>vs. unat (sc_Value (fst x)) * unat (sc_Weight (fst x)))
          div (\<Sum>x\<leftarrow>vs. unat (sc_Weight (fst x)))"
proof -
  let ?c = "run weighted_Add (weighted_Init (zeroAverage ff)) xs"
  have v: "unat (c_value ?c) = (\<Sum>x\<leftarrow>vs. unat (sc_Value (fst x)) * unat (sc_Weight (fst x)))"
    using assms(4) by (simp add: weighted_run_value vs_def unat_sum_list)
  have n: "unat (c_scoreCnt ?c) = (\<Sum>x\<leftarrow>vs. unat (sc_Weight (fst x)))"
    using assms(5) by (simp add: weighted_run_value vs_def unat_sum_list)
  have n0: "c_scoreCnt ?c = 0 \<Longrightarrow> (\<Sum>x\<leftarrow>vs. unat (sc_Weight (fst x))) = 0"
    using n by simp
  from progress_total [OF assms(3,2)] assms(3) show ?thesis
    by (auto simp: n0 calculate_defs run_fields_defs unat_div v n)
qed

text \<open>The worst calculator returns the minimum of 100 and the values of the counted
  scores with a weight and some completion.\<close>

theorem worst_exact:
  assumes "length xs < 4294967296" and "list_ex (is_counted ff) xs"
  shows "\<exists>r. worst_Calculate (run worst_Add (worst_Init (zeroCalc ff)) xs) = Some r
     \<and> sc_Type r = ScoreType_Result \<and> sc_Value r = Min (set (100 # worst_values ff xs))"
  using progress_total [OF assms(2,1)] assms(2)
  by (simp add: calculate_defs run_fields_defs worst_run_value fold_min_Min)

subsection \<open>The bands\<close>

definition band_of :: "u32 \<Rightarrow> nat" where
  "band_of cat = (if cat \<le> 10 then 0 else if cat \<le> 30 then 1 else if cat \<le> 60 then 2 else 3)"

definition in_band :: "nat \<Rightarrow> Score \<times> Impact option \<Rightarrow> bool" where
  "in_band k = (\<lambda>(s, i). sc_Type s = ScoreType_Result \<and> \<not> ignored i \<and> sc_ScoreCompletion s \<noteq> 0
     \<and> sc_Weight s \<noteq> 0 \<and> band_of (banded_category i) = k)"

definition fails_in :: "nat \<Rightarrow> Score \<times> Impact option \<Rightarrow> bool" where
  "fails_in k x \<longleftrightarrow> in_band k x \<and> sc_Value (fst x) < 100"

definition weights :: "(Score \<times> Impact option) list \<Rightarrow> u32" where
  "weights xs = (\<Sum>x\<leftarrow>xs. sc_Weight (fst x))"

lemma banded_Add_bands:
  "b_crit (banded_Add c s i) = b_crit c + (if fails_in 0 (s, i) then sc_Weight s else 0)"
  "b_high (banded_Add c s i) = b_high c + (if fails_in 1 (s, i) then sc_Weight s else 0)"
  "b_mid (banded_Add c s i) = b_mid c + (if fails_in 2 (s, i) then sc_Weight s else 0)"
  "b_low (banded_Add c s i) = b_low c + (if fails_in 3 (s, i) then sc_Weight s else 0)"
  "b_critMax (banded_Add c s i) = b_critMax c + (if in_band 0 (s, i) then sc_Weight s else 0)"
  "b_highMax (banded_Add c s i) = b_highMax c + (if in_band 1 (s, i) then sc_Weight s else 0)"
  "b_midMax (banded_Add c s i) = b_midMax c + (if in_band 2 (s, i) then sc_Weight s else 0)"
  "b_lowMax (banded_Add c s i) = b_lowMax c + (if in_band 3 (s, i) then sc_Weight s else 0)"
  by (auto simp: banded_Add_def calc_Add_ops calc_defs banded_count_def worst_count_def Let_def
      fails_in_def in_band_def band_of_def)

lemma banded_run_bands:
  "b_crit (run banded_Add c xs) = b_crit c + weights (filter (fails_in 0) xs)"
  "b_high (run banded_Add c xs) = b_high c + weights (filter (fails_in 1) xs)"
  "b_mid (run banded_Add c xs) = b_mid c + weights (filter (fails_in 2) xs)"
  "b_low (run banded_Add c xs) = b_low c + weights (filter (fails_in 3) xs)"
  "b_critMax (run banded_Add c xs) = b_critMax c + weights (filter (in_band 0) xs)"
  "b_highMax (run banded_Add c xs) = b_highMax c + weights (filter (in_band 1) xs)"
  "b_midMax (run banded_Add c xs) = b_midMax c + weights (filter (in_band 2) xs)"
  "b_lowMax (run banded_Add c xs) = b_lowMax c + weights (filter (in_band 3) xs)"
  by (induction xs arbitrary: c) (auto simp: banded_Add_bands weights_def ac_simps)

lemma unat_weights:
  assumes "(\<Sum>x\<leftarrow>xs. unat (sc_Weight (fst x))) < 4294967296"
  shows "unat (weights (filter P xs)) = (\<Sum>x\<leftarrow>filter P xs. unat (sc_Weight (fst x)))"
proof -
  have "(\<Sum>x\<leftarrow>filter P xs. unat (sc_Weight (fst x))) \<le> (\<Sum>x\<leftarrow>xs. unat (sc_Weight (fst x)))"
    by (induction xs) auto
  with assms show ?thesis unfolding weights_def by (intro unat_sum_list) auto
qed

lemma fails_le_band:
  assumes "(\<Sum>x\<leftarrow>xs. unat (sc_Weight (fst x))) < 4294967296"
  shows "weights (filter (fails_in k) xs) \<le> weights (filter (in_band k) xs)"
proof -
  have "(\<Sum>x\<leftarrow>filter (fails_in k) xs. unat (sc_Weight (fst x)))
      \<le> (\<Sum>x\<leftarrow>filter (in_band k) xs. unat (sc_Weight (fst x)))"
    by (induction xs) (auto simp: fails_in_def)
  with assms show ?thesis by (simp add: word_le_nat_alt unat_weights)
qed

lemma weights_fails_0_iff:
  assumes "(\<Sum>x\<leftarrow>xs. unat (sc_Weight (fst x))) < 4294967296"
  shows "weights (filter (fails_in k) xs) = 0 \<longleftrightarrow> \<not> list_ex (fails_in k) xs"
proof -
  have "fails_in k x \<Longrightarrow> unat (sc_Weight (fst x)) \<noteq> 0" for x
    by (cases x) (simp add: fails_in_def in_band_def unat_eq_0)
  then have "(\<Sum>x\<leftarrow>filter (fails_in k) xs. unat (sc_Weight (fst x))) = 0 \<longleftrightarrow> \<not> list_ex (fails_in k) xs"
    by (fastforce simp: list_ex_iff)
  with assms show ?thesis by (metis unat_weights unat_eq_0)
qed

definition shares_ok :: "bandedScoreCalculator \<Rightarrow> bool" where
  "shares_ok c \<longleftrightarrow> b_crit c \<le> b_critMax c \<and> b_high c \<le> b_highMax c
     \<and> b_mid c \<le> b_midMax c \<and> b_low c \<le> b_lowMax c"

lemma banded_init_bands [simp]:
  "b_crit (banded_Init (zeroBanded ff)) = 0" "b_high (banded_Init (zeroBanded ff)) = 0"
  "b_mid (banded_Init (zeroBanded ff)) = 0" "b_low (banded_Init (zeroBanded ff)) = 0"
  "b_critMax (banded_Init (zeroBanded ff)) = 0" "b_highMax (banded_Init (zeroBanded ff)) = 0"
  "b_midMax (banded_Init (zeroBanded ff)) = 0" "b_lowMax (banded_Init (zeroBanded ff)) = 0"
  by (simp_all add: banded_Init_def calc_Init_def zeroBanded_def zeroCalc_def
      calc.defs bandedScoreCalculator.defs)

lemma run_shares_ok:
  assumes "(\<Sum>x\<leftarrow>xs. unat (sc_Weight (fst x))) < 4294967296"
  shows "shares_ok (run banded_Add (banded_Init (zeroBanded ff)) xs)"
  using fails_le_band [OF assms] by (simp add: shares_ok_def banded_run_bands)

lemma of_nat_ratio_le_1: "m \<le> n \<Longrightarrow> (of_nat m :: rat) / of_nat n \<le> 1"
  by (cases "n = 0") (simp_all add: divide_le_eq)

lemma of_nat_ratio_nonneg: "0 \<le> (of_nat m :: rat) / of_nat n"
  by simp

lemma band_ratio_unit:
  assumes "f \<le> mx"
  shows "0 \<le> band_ratio mx f \<and> band_ratio mx f \<le> 1"
proof (cases "mx = 0")
  case False
  have "unat (mx - f) \<le> unat mx" using assms by (simp add: unat_sub_if' word_le_nat_alt)
  then have "(of_nat (unat (mx - f)) :: rat) / of_nat (unat mx) \<le> 1"
    by (rule of_nat_ratio_le_1)
  then have "0 \<le> fl64 (of_nat (unat (mx - f)) / of_nat (unat mx))
      \<and> fl64 (of_nat (unat (mx - f)) / of_nat (unat mx)) \<le> 1"
    by (rule fl_unit [OF of_nat_ratio_nonneg]) simp
  with False show ?thesis by (simp add: band_ratio_def)
qed (simp add: band_ratio_def)

lemma fl_mul_unit:
  "0 \<le> x \<Longrightarrow> x \<le> 1 \<Longrightarrow> 0 \<le> y \<Longrightarrow> y \<le> 1 \<Longrightarrow> 0 \<le> fl64 (x * y) \<and> fl64 (x * y) \<le> 1"
  by (rule fl_unit) (auto simp: mult_le_one)

lemma fl_mean_unit:
  assumes "of_nat k \<le> x" and "x \<le> of_nat n" and "0 < n" and "n < 9007199254740992"
  shows "0 \<le> fl64 (fl64 x / of_nat n) \<and> fl64 (fl64 x / of_nat n) \<le> 1"
proof -
  have "0 \<le> x" using assms(1) of_nat_0_le_iff order_trans by blast
  then have "0 \<le> fl64 x \<and> fl64 x \<le> of_nat n"
    using fl_between_nat [of 0 x n 53] assms by simp
  then show ?thesis using assms(3) by (intro fl_unit) (auto simp: divide_le_eq)
qed

lemma pcr_units:
  assumes "shares_ok c"
  shows "0 \<le> pcrLow c \<and> pcrLow c \<le> 1" and "0 \<le> pcrMid c \<and> pcrMid c \<le> 1"
    and "0 \<le> pcrHigh c \<and> pcrHigh c \<le> 1" and "0 \<le> pcrCrit c \<and> pcrCrit c \<le> 1"
proof -
  have r: "0 \<le> band_ratio (b_lowMax c) (b_low c) \<and> band_ratio (b_lowMax c) (b_low c) \<le> 1"
    "0 \<le> band_ratio (b_midMax c) (b_mid c) \<and> band_ratio (b_midMax c) (b_mid c) \<le> 1"
    "0 \<le> band_ratio (b_highMax c) (b_high c) \<and> band_ratio (b_highMax c) (b_high c) \<le> 1"
    "0 \<le> band_ratio (b_critMax c) (b_crit c) \<and> band_ratio (b_critMax c) (b_crit c) \<le> 1"
    using assms by (simp_all add: shares_ok_def band_ratio_unit)
  show l: "0 \<le> pcrLow c \<and> pcrLow c \<le> 1" using r(1) by (simp add: pcrLow_def)
  show m: "0 \<le> pcrMid c \<and> pcrMid c \<le> 1"
    unfolding pcrMid_def using r(2) l fl_mean_unit [of 3 "3 + pcrLow c" 4] by (simp add: fl_mul_unit)
  show h: "0 \<le> pcrHigh c \<and> pcrHigh c \<le> 1"
    unfolding pcrHigh_def using r(3) m fl_mean_unit [of 1 "1 + pcrMid c" 2] by (simp add: fl_mul_unit)
  have "0 \<le> fl64 (4 * pcrHigh c) \<and> fl64 (4 * pcrHigh c) \<le> 4"
    using fl_between_nat [of 0 "4 * pcrHigh c" 4 53] h by simp
  then show "0 \<le> pcrCrit c \<and> pcrCrit c \<le> 1"
    unfolding pcrCrit_def using r(4) fl_mean_unit [of 1 "1 + fl64 (4 * pcrHigh c)" 5]
    by (simp add: fl_mul_unit)
qed

lemma floor_scaled_range:
  assumes "0 \<le> p \<and> p \<le> 1" and "n < 4294967296"
  shows "unat (float_to_u32 a (of_int \<lfloor>fl64 (of_nat n * p)\<rfloor>)) \<le> n"
proof -
  have "of_nat n * p \<le> of_nat n" using assms by (simp add: mult_left_le)
  then have f: "0 \<le> fl64 (of_nat n * p)" "fl64 (of_nat n * p) \<le> of_nat n"
    using fl_between_nat [of 0 "of_nat n * p" n 53] assms by auto
  have "(of_int \<lfloor>fl64 (of_nat n * p)\<rfloor> :: rat) \<le> of_nat n"
    using f(2) by (rule order_trans [OF of_int_floor_le])
  moreover have "of_nat 0 \<le> (of_int \<lfloor>fl64 (of_nat n * p)\<rfloor> :: rat)" using f(1) by simp
  ultimately have "of_nat 0 \<le> (of_int \<lfloor>fl64 (of_nat n * p)\<rfloor> :: rat)"
    "(of_int \<lfloor>fl64 (of_nat n * p)\<rfloor> :: rat) \<le> of_nat n" by blast+
  then show ?thesis using float_to_u32_range(2) [of 0] assms(2) by simp
qed

lemma add_small_u32: "unat (x :: u32) \<le> n \<Longrightarrow> n + m < 4294967296 \<Longrightarrow>
   m \<le> unat (x + of_nat m) \<and> unat (x + of_nat m) \<le> n + m"
  by (simp add: unat_add_u32 unat_of_nat_u32)

lemma banded_value_bands:
  assumes "shares_ok c"
  shows "b_crit c \<noteq> 0 \<longrightarrow> unat (banded_value a c) \<le> 50"
    and "b_crit c = 0 \<and> b_high c \<noteq> 0 \<longrightarrow> unat (banded_value a c) \<in> {10..60}"
    and "b_crit c = 0 \<and> b_high c = 0 \<and> b_mid c \<noteq> 0 \<longrightarrow> unat (banded_value a c) \<in> {30..80}"
    and "b_crit c = 0 \<and> b_high c = 0 \<and> b_mid c = 0 \<and> b_low c \<noteq> 0 \<longrightarrow>
           unat (banded_value a c) \<in> {60..100}"
  using floor_scaled_range [OF pcr_units(1) [OF assms], of 40 a]
    floor_scaled_range [OF pcr_units(2) [OF assms], of 50 a]
    floor_scaled_range [OF pcr_units(3) [OF assms], of 50 a]
    floor_scaled_range [OF pcr_units(4) [OF assms], of 50 a]
    add_small_u32 [of "float_to_u32 a (of_int \<lfloor>fl64 (50 * pcrHigh c)\<rfloor>)" 50 10]
    add_small_u32 [of "float_to_u32 a (of_int \<lfloor>fl64 (50 * pcrMid c)\<rfloor>)" 50 30]
    add_small_u32 [of "float_to_u32 a (of_int \<lfloor>fl64 (40 * pcrLow c)\<rfloor>)" 40 60]
  by (auto simp: banded_value_def)


text \<open>A calculator with a counted result reports a result whose score completion is at
  most 100, and 100 exactly when every score that moves the progress is complete.\<close>

theorem calculator_completion:
  assumes "NewScoreCalculator sys ff = Inr c0" and "100 * length xs < 4294967296"
    and "list_ex (is_counted ff) xs" and "\<forall>x \<in> set xs. sc_ScoreCompletion (fst x) \<le> 100"
    and "calculator_Calculate mexp a (run (calculator_Add a) c0 xs) = Some r"
  shows "sc_Type r = ScoreType_Result \<and> sc_ScoreCompletion r \<le> 100
    \<and> (sc_ScoreCompletion r = 100 \<longleftrightarrow> (\<forall>x \<in> set xs. is_progress x \<longrightarrow> sc_ScoreCompletion (fst x) = 100))"
proof -
  define ps where "ps = filter is_progress xs"
  have len: "length xs < 4294967296" using assms(2) by linarith
  note prog = progress_total [OF assms(3) len, folded ps_def]
  obtain r' where r': "calculator_Calculate mexp a (run (calculator_Add a) c0 xs) = Some r'"
    "sc_Type r' = ScoreType_Result"
    "sc_ScoreCompletion r' = (\<Sum>x\<leftarrow>ps. sc_ScoreCompletion (fst x)) div of_nat (length ps)"
    unfolding ps_def using calculator_reports [OF assms(1) len assms(3)] .
  have le: "x \<in> set ps \<Longrightarrow> unat (sc_ScoreCompletion (fst x)) \<le> 100" for x
    using assms(4) by (auto simp: ps_def u32_le_100)
  have "(\<Sum>x\<leftarrow>ps. unat (sc_ScoreCompletion (fst x))) \<le> 100 * length ps"
    using le by (rule sum_list_le_bound)
  also have "\<dots> \<le> 100 * length xs" by (simp add: ps_def)
  finally have sum: "unat (\<Sum>x\<leftarrow>ps. sc_ScoreCompletion (fst x)) = (\<Sum>x\<leftarrow>ps. unat (sc_ScoreCompletion (fst x)))"
    using assms(2) by (intro unat_sum_list) auto
  have u: "unat (sc_ScoreCompletion r') = (\<Sum>x\<leftarrow>ps. unat (sc_ScoreCompletion (fst x))) div length ps"
    by (simp only: r'(3) unat_div sum prog(2))
  have avg: "unat (sc_ScoreCompletion r') \<le> 100"
    "unat (sc_ScoreCompletion r') = 100 \<longleftrightarrow> (\<forall>x \<in> set ps. unat (sc_ScoreCompletion (fst x)) = 100)"
    unfolding u using average_eq_bound [of ps "\<lambda>x. unat (sc_ScoreCompletion (fst x))" 100] le prog(1)
    by simp_all
  have "(\<forall>x \<in> set ps. unat (sc_ScoreCompletion (fst x)) = 100) \<longleftrightarrow>
      (\<forall>x \<in> set xs. is_progress x \<longrightarrow> sc_ScoreCompletion (fst x) = 100)"
    by (auto simp: ps_def word_unat_eq_iff)
  moreover have "sc_ScoreCompletion r' = 100 \<longleftrightarrow> unat (sc_ScoreCompletion r') = 100"
    by (simp add: word_unat_eq_iff)
  ultimately show ?thesis using avg r' assms(5) by (simp add: u32_le_100)
qed

lemma weighted_value_le:
  assumes "\<forall>x \<in> set xs. sc_Value (fst x) \<le> 100"
    and "(\<Sum>x\<leftarrow>xs. 100 * unat (sc_Weight (fst x))) < 4294967296"
  shows "(let c = run weighted_Add (weighted_Init (zeroAverage ff)) xs
          in if c_scoreCnt c \<noteq> 0 then c_value c div c_scoreCnt c else 0) \<le> 100"
proof -
  let ?c = "run weighted_Add (weighted_Init (zeroAverage ff)) xs"
  let ?vs = "filter (is_valued ff) xs"
  have w: "100 * (\<Sum>x\<leftarrow>?vs. unat (sc_Weight (fst x))) \<le> (\<Sum>x\<leftarrow>xs. 100 * unat (sc_Weight (fst x)))"
    by (induction xs) auto
  have vw: "(\<Sum>x\<leftarrow>?vs. unat (sc_Value (fst x)) * unat (sc_Weight (fst x)))
      \<le> 100 * (\<Sum>x\<leftarrow>?vs. unat (sc_Weight (fst x)))"
    using assms(1)
    by (subst sum_list_const_mult [symmetric], intro sum_list_mono mult_right_mono) (auto simp: u32_le_100)
  have "unat (c_value ?c) = (\<Sum>x\<leftarrow>?vs. unat (sc_Value (fst x)) * unat (sc_Weight (fst x)))"
    using w vw assms(2) by (simp add: weighted_run_value unat_sum_list)
  moreover have "unat (c_scoreCnt ?c) = (\<Sum>x\<leftarrow>?vs. unat (sc_Weight (fst x)))"
    using w assms(2) by (simp add: weighted_run_value unat_sum_list)
  ultimately have "unat (c_value ?c) \<le> 100 * unat (c_scoreCnt ?c)" using vw by simp
  then have "unat (c_value ?c) div unat (c_scoreCnt ?c) \<le> 100" by (rule div_le_bound)
  then show ?thesis by (simp add: u32_le_100 unat_div Let_def)
qed

lemma average_value_le:
  assumes "\<forall>x \<in> set xs. sc_Value (fst x) \<le> 100" and "100 * length xs < 4294967296"
  shows "(let c = run average_Add (average_Init (zeroAverage ff)) xs
          in if c_scoreCnt c \<noteq> 0 then c_value c div c_scoreCnt c else 0) \<le> 100"
proof -
  let ?c = "run average_Add (average_Init (zeroAverage ff)) xs"
  let ?vs = "filter (is_valued ff) xs"
  have n: "length ?vs \<le> length xs" by simp
  have v: "(\<Sum>x\<leftarrow>?vs. unat (sc_Value (fst x))) \<le> 100 * length ?vs"
    using assms(1) by (intro sum_list_le_bound) (auto simp: u32_le_100)
  have "(\<Sum>x\<leftarrow>?vs. unat (sc_Value (fst x))) < 4294967296" using n v assms(2) by linarith
  then have "unat (c_value ?c) = (\<Sum>x\<leftarrow>?vs. unat (sc_Value (fst x)))"
    by (simp add: average_run_value unat_sum_list)
  moreover have "length ?vs < 4294967296" using n assms(2) by linarith
  then have "unat (c_scoreCnt ?c) = length ?vs"
    by (simp add: average_run_value unat_of_nat_u32)
  ultimately have "unat (c_value ?c) \<le> 100 * unat (c_scoreCnt ?c)" using v by simp
  then have "unat (c_value ?c) div unat (c_scoreCnt ?c) \<le> 100" by (rule div_le_bound)
  then show ?thesis by (simp add: u32_le_100 unat_div Let_def)
qed

lemma worst_value_le: "c_value (run worst_Add (worst_Init (zeroCalc ff)) xs) \<le> 100"
  by (simp add: worst_run_value fold_min_Min)

lemma banded_value_le:
  assumes "shares_ok c"
  shows "banded_value a c \<le> 100"
proof -
  have "banded_value a c \<le> 100 \<longleftrightarrow> unat (banded_value a c) \<le> 100" by (rule u32_le_100)
  then show ?thesis using banded_value_bands [OF assms, of a]
    by (cases "b_crit c = 0"; cases "b_high c = 0"; cases "b_mid c = 0"; cases "b_low c = 0")
       (auto simp: banded_value_def)
qed

lemma calc_finish_value: "calc_finish c (Some v) = Some r \<Longrightarrow> sc_Value r = v \<or> sc_Value r = 0"
  by (auto simp: calculate_defs zeroScore_def split: if_splits)

lemma unscored_value: "unscored_result c = Some r \<Longrightarrow> sc_Value r = 0"
  by (auto simp: unscored_result_some zeroScore_def)

text \<open>While nothing wraps, the value of every system but the decayed one stays within
  100 when the values it is fed do.\<close>

theorem calculator_value_bound:
  assumes "NewScoreCalculator sys ff = Inr c0" and "sys \<noteq> DECAYED"
    and "\<forall>x \<in> set xs. sc_Value (fst x) \<le> 100" and "100 * length xs < 4294967296"
    and "(\<Sum>x\<leftarrow>xs. 100 * unat (sc_Weight (fst x))) < 4294967296"
    and "calculator_Calculate mexp a (run (calculator_Add a) c0 xs) = Some r"
  shows "sc_Value r \<le> 100"
proof -
  have "(\<Sum>x\<leftarrow>xs. unat (sc_Weight (fst x))) \<le> (\<Sum>x\<leftarrow>xs. 100 * unat (sc_Weight (fst x)))"
    by (intro sum_list_mono) simp
  with assms(5) have w: "(\<Sum>x\<leftarrow>xs. unat (sc_Weight (fst x))) < 4294967296" by linarith
  from assms(1) show ?thesis
  proof (cases rule: NewScoreCalculator_cases)
    case 1
    with assms(6) average_value_le [OF assms(3,4), of ff] show ?thesis
      by (auto simp: average_Calculate_def Let_def dest!: calc_finish_value)
  next
    case 2
    with assms(6) weighted_value_le [OF assms(3,5), of ff] show ?thesis
      by (auto simp: weighted_Calculate_def Let_def dest!: calc_finish_value)
  next
    case 3
    with assms(6) worst_value_le [of ff xs] show ?thesis
      by (auto simp: worst_Calculate_def split: if_splits dest!: calc_finish_value unscored_value)
  next
    case 4
    with assms(6) banded_value_le [OF run_shares_ok [OF w], of a ff] show ?thesis
      by (auto simp: banded_Calculate_def split: if_splits dest!: calc_finish_value unscored_value)
  qed (use assms(2) in simp)
qed

text \<open>The banded value lies in the band of the worst failing category: at most 50 with a
  failing critical check, 10 to 60 with a failing high one and no critical one, 30 to 80 for medium, 60 to
  100 for low, and 100 exactly when nothing fails. The bounds hold through the \<open>float64\<close> rounding.\<close>

theorem banded_input_bands:
  assumes "(\<Sum>x\<leftarrow>xs. unat (sc_Weight (fst x))) < 4294967296" and "length xs < 4294967296"
    and "list_ex (is_counted ff) xs"
    and "banded_Calculate a (run banded_Add (banded_Init (zeroBanded ff)) xs) = Some r"
  shows "if list_ex (fails_in 0) xs then unat (sc_Value r) \<le> 50
    else if list_ex (fails_in 1) xs then unat (sc_Value r) \<in> {10..60}
    else if list_ex (fails_in 2) xs then unat (sc_Value r) \<in> {30..80}
    else if list_ex (fails_in 3) xs then unat (sc_Value r) \<in> {60..100}
    else sc_Value r = 100"
proof -
  let ?c = "run banded_Add (banded_Init (zeroBanded ff)) xs"
  have "sc_Value r = banded_value a ?c"
    using assms(4) progress_total [OF assms(3,2)] assms(3)
    by (auto simp: calculate_defs run_fields_defs split: if_splits)
  with banded_value_bands [OF run_shares_ok [OF assms(1)], of ff a]
    weights_fails_0_iff [OF assms(1)]
  show ?thesis by (auto simp: banded_run_bands banded_value_def)
qed

text \<open>Errored checks never change the banded value, with the fail-errors flag or without:
  the value is the one computed without them. (The comment in the code says that under the flag an
  error is treated as a failed result; here it only moves the completion and the weight.)\<close>

theorem banded_errors_leave_value:
  "banded_value a (run banded_Add c xs) =
   banded_value a (run banded_Add c (filter (\<lambda>x. sc_Type (fst x) \<noteq> ScoreType_Error) xs))"
proof -
  have "filter (in_band k) xs = filter (in_band k) (filter (\<lambda>x. sc_Type (fst x) \<noteq> ScoreType_Error) xs)" for k
    by (auto simp: in_band_def intro!: filter_cong)
  moreover have "filter (fails_in k) xs = filter (fails_in k) (filter (\<lambda>x. sc_Type (fst x) \<noteq> ScoreType_Error) xs)" for k
    by (auto simp: fails_in_def in_band_def intro!: filter_cong)
  ultimately show ?thesis
    by (simp add: banded_value_def pcrCrit_def pcrHigh_def pcrMid_def pcrLow_def banded_run_bands del: filter_filter)
qed

definition plain_arch :: go_arch where
  "plain_arch = \<lparr>ga_fused = False, ga_to_u32 = (\<lambda>_. 0), ga_to_int = (\<lambda>_. 0)\<rparr>"
definition result_score :: "u32 \<Rightarrow> u32 \<Rightarrow> Score" where
  "result_score v w = zeroScore\<lparr>sc_Type := ScoreType_Result, sc_Value := v, sc_Weight := w, sc_ScoreCompletion := 100, sc_DataCompletion := 100\<rparr>"
text \<open>The roundings of one run over the values 90, 80 and 70 and of its reverse.\<close>

lemma fl64_tenths:
  "fl64 (1 / 10) = 3602879701896397 / 36028797018963968"
  "fl64 (1 / 5) = 3602879701896397 / 18014398509481984"
  "fl64 (3 / 10) = 5404319552844595 / 18014398509481984"
  "fl64 (3602879701896397 / 36028797018963968) = 3602879701896397 / 36028797018963968"
  "fl64 (3602879701896397 / 18014398509481984) = 3602879701896397 / 18014398509481984"
  "fl64 (5404319552844595 / 18014398509481984) = 5404319552844595 / 18014398509481984"
  "fl64 (10808639105689191 / 36028797018963968) = 1351079888211149 / 4503599627370496"
  "fl64 (10808639105689191 / 18014398509481984) = 1351079888211149 / 2251799813685248"
  "fl64 (1 / 2) = 1 / 2"
  "fl64 (21617278211378381 / 36028797018963968) = 5404319552844595 / 9007199254740992"
  by code_simp+

text \<open>The decayed calculator accumulates \<open>float64\<close> sums, so two orders of the same three
  scores end in different states.\<close>

theorem decayed_order_dependent:
  "\<exists>a c xs ys. mset xs = mset ys \<and> d_x (run (decayed_Add a) c xs) \<noteq> d_x (run (decayed_Add a) c ys)"
proof (intro exI conjI)
  let ?x = "map (\<lambda>v. (result_score v 1, None :: Impact option)) [90, 80, 70]"
  let ?y = "map (\<lambda>v. (result_score v 1, None :: Impact option)) [70, 80, 90]"
  let ?r = "\<lambda>xs. d_x (run (decayed_Add plain_arch) (decayed_Init (zeroDecayed False)) xs)"
  show "mset ?x = mset ?y" by simp
  have "?r ?x = 1351079888211149 / 2251799813685248"
    by (simp add: decayed_Add_def calc_Add_def add_data_def add_weight_def add_progress_def ignored_def
        decayed_count_def decayed_Init_def calc_Init_def zeroDecayed_def zeroCalc_def calc.defs
        decayedScoreCalculator.defs result_score_def zeroScore_def plain_arch_def add_mul64_def
        fl64_tenths Let_def)
  moreover have "?r ?y = 5404319552844595 / 9007199254740992"
    by (simp add: decayed_Add_def calc_Add_def add_data_def add_weight_def add_progress_def ignored_def
        decayed_count_def decayed_Init_def calc_Init_def zeroDecayed_def zeroCalc_def calc.defs
        decayedScoreCalculator.defs result_score_def zeroScore_def plain_arch_def add_mul64_def
        fl64_tenths Let_def)
  ultimately show "?r ?x \<noteq> ?r ?y" by simp
qed

subsection \<open>Concrete runs\<close>

definition two_scores :: "(Score \<times> Impact option) list" where
  "two_scores = [(result_score 40 1, None), (result_score 100 3, None)]"

lemma two_scores_props:
  "list_ex (is_counted False) two_scores" "length two_scores = 2"
  "\<forall>x \<in> set two_scores. sc_ScoreCompletion (fst x) \<le> 100 \<and> sc_Value (fst x) \<le> 100"
  "filter (is_valued False) two_scores = two_scores"
  "(\<Sum>x\<leftarrow>two_scores. unat (sc_Weight (fst x))) = 4"
  "(\<Sum>x\<leftarrow>two_scores. 100 * unat (sc_Weight (fst x))) = 400"
  "(\<Sum>x\<leftarrow>two_scores. unat (sc_Value (fst x)) * unat (sc_Weight (fst x))) = 340"
  by (simp_all add: two_scores_def result_score_def zeroScore_def is_counted_def is_valued_def ignored_def)

lemma new_worst: "NewScoreCalculator WORST False = Inr (Worst (worst_Init (zeroCalc False)))"
  by (simp add: NewScoreCalculator_def)

theorem calculator_order_independent_witness:
  "calculator_Calculate id plain_arch
     (foldl (\<lambda>c (s, i). AddSpecdScore (calculator_Add plain_arch) c s True i)
       (Worst (worst_Init (zeroCalc False))) two_scores) =
   calculator_Calculate id plain_arch
     (foldl (\<lambda>c (s, i). AddSpecdScore (calculator_Add plain_arch) c s True i)
       (Worst (worst_Init (zeroCalc False))) (rev two_scores))"
  by (rule calculator_order_independent [OF new_worst]) simp_all

theorem calculator_never_panics_witness:
  "calculator_Calculate id plain_arch
     (run (calculator_Add plain_arch) (Worst (worst_Init (zeroCalc False))) two_scores) \<noteq> None"
  by (rule calculator_never_panics [OF new_worst]) (simp add: two_scores_props)

theorem weighted_exact_witness:
  "\<exists>r. weighted_Calculate (run weighted_Add (weighted_Init (zeroAverage False)) two_scores) = Some r
     \<and> sc_Type r = ScoreType_Result \<and> unat (sc_Value r) = 85"
  using weighted_exact [of two_scores False] by (simp add: two_scores_props)

lemma worst_values_two_scores: "worst_values False two_scores = [40, 100]"
  by (simp add: worst_values_def two_scores_def result_score_def zeroScore_def is_valued_def
      is_counted_def ignored_def)

theorem worst_exact_witness:
  "\<exists>r. worst_Calculate (run worst_Add (worst_Init (zeroCalc False)) two_scores) = Some r
     \<and> sc_Type r = ScoreType_Result \<and> sc_Value r = 40"
  using worst_exact [of two_scores False, unfolded worst_values_two_scores] two_scores_props(1,2)
  by simp

lemma worst_run_some:
  "\<exists>r. calculator_Calculate id plain_arch
     (run (calculator_Add plain_arch) (Worst (worst_Init (zeroCalc False))) two_scores) = Some r"
  using calculator_reports [OF new_worst, of two_scores id plain_arch] two_scores_props(1,2) by auto

theorem calculator_completion_witness:
  "\<exists>r. calculator_Calculate id plain_arch
     (run (calculator_Add plain_arch) (Worst (worst_Init (zeroCalc False))) two_scores) = Some r
     \<and> sc_ScoreCompletion r = 100"
proof -
  obtain r where r: "calculator_Calculate id plain_arch
     (run (calculator_Add plain_arch) (Worst (worst_Init (zeroCalc False))) two_scores) = Some r"
    using worst_run_some by blast
  have "sc_ScoreCompletion r = 100"
    using calculator_completion [OF new_worst _ _ _ r] two_scores_props
    by (simp add: two_scores_def result_score_def zeroScore_def)
  with r show ?thesis by blast
qed

theorem calculator_value_bound_witness:
  "\<exists>r. calculator_Calculate id plain_arch
     (run (calculator_Add plain_arch) (Worst (worst_Init (zeroCalc False))) two_scores) = Some r
     \<and> sc_Value r \<le> 100"
proof -
  obtain r where r: "calculator_Calculate id plain_arch
     (run (calculator_Add plain_arch) (Worst (worst_Init (zeroCalc False))) two_scores) = Some r"
    using worst_run_some by blast
  have "sc_Value r \<le> 100"
    using calculator_value_bound [OF new_worst _ _ _ _ r] two_scores_props by simp
  with r show ?thesis by blast
qed

theorem banded_input_bands_witness:
  "\<exists>r. banded_Calculate plain_arch (run banded_Add (banded_Init (zeroBanded False)) two_scores) = Some r
     \<and> unat (sc_Value r) \<le> 50"
proof -
  have "NewScoreCalculator BANDED False = Inr (Banded (banded_Init (zeroBanded False)))"
    by (simp add: NewScoreCalculator_def)
  from calculator_reports [OF this, of two_scores id plain_arch] two_scores_props(1,2)
  obtain r where r: "banded_Calculate plain_arch (run banded_Add (banded_Init (zeroBanded False)) two_scores) = Some r"
    by auto
  have "list_ex (fails_in 0) two_scores"
    by (simp add: two_scores_def fails_in_def in_band_def result_score_def zeroScore_def ignored_def
        banded_category_def band_of_def)
  with banded_input_bands [OF _ _ two_scores_props(1) r] two_scores_props(2,5)
  have "unat (sc_Value r) \<le> 50" by simp
  with r show ?thesis by blast
qed

end
