(* ===== verification/Ordering.thy ===== *)
theory Ordering
  imports Prelude
begin

text \<open>
  Go's three-way comparison functions: \<open>cmp.Compare\<close> and \<open>strings.Compare\<close> (byte order, which is the
  lexicographic order of \<open>char\<close> lists here), \<open>slices.SortStableFunc\<close> as an insertion sort, and the
  contract of a comparison function as the locale \<open>go_cmp\<close>, under which the sort is the one stable
  sorted rearrangement; and the merge of sorted slices.
\<close>

definition cmp_compare :: "'a :: linorder \<Rightarrow> 'a \<Rightarrow> int" where
  "cmp_compare x y = (if x < y then - 1 else if y < x then 1 else 0)"

fun insert_stable :: "('a \<Rightarrow> 'a \<Rightarrow> int) \<Rightarrow> 'a \<Rightarrow> 'a list \<Rightarrow> 'a list" where
  "insert_stable cmp x [] = [x]"
| "insert_stable cmp x (y # ys) =
     (if cmp x y \<le> 0 then x # y # ys else y # insert_stable cmp x ys)"

definition SortStableFunc :: "('a \<Rightarrow> 'a \<Rightarrow> int) \<Rightarrow> 'a list \<Rightarrow> 'a list" where
  "SortStableFunc cmp xs = foldr (insert_stable cmp) xs []"

definition sorted_by :: "('a \<Rightarrow> 'a \<Rightarrow> int) \<Rightarrow> 'a list \<Rightarrow> bool" where
  "sorted_by cmp xs = sorted_wrt (\<lambda>x y. cmp x y \<le> 0) xs"

lemma SortStableFunc_simps [simp]:
  "SortStableFunc cmp [] = []"
  "SortStableFunc cmp (x # xs) = insert_stable cmp x (SortStableFunc cmp xs)"
  by (simp_all add: SortStableFunc_def)

lemma mset_insert_stable [simp]: "mset (insert_stable cmp x ys) = add_mset x (mset ys)"
  by (induction ys) auto

lemma mset_SortStableFunc [simp]: "mset (SortStableFunc cmp xs) = mset xs"
  by (induction xs) auto

lemma set_SortStableFunc [simp]: "set (SortStableFunc cmp xs) = set xs"
  by (metis mset_SortStableFunc set_mset_mset)

lemma set_insert_stable [simp]: "set (insert_stable cmp x ys) = insert x (set ys)"
  by (metis mset_insert_stable set_mset_add_mset_insert set_mset_mset)

locale go_cmp =
  fixes cmp :: "'a \<Rightarrow> 'a \<Rightarrow> int"
  assumes refl [simp]: "cmp x x = 0"
    and swap: "cmp x y < 0 \<longleftrightarrow> 0 < cmp y x"
    and trans: "cmp x y \<le> 0 \<Longrightarrow> cmp y z \<le> 0 \<Longrightarrow> cmp x z \<le> 0"
begin

lemma total: "cmp x y \<le> 0 \<or> cmp y x < 0"
  using swap [of y x] by linarith

lemma not_le: "\<not> cmp x y \<le> 0 \<longleftrightarrow> cmp y x < 0"
  using swap [of y x] by linarith

lemma less_trans: "cmp x y < 0 \<Longrightarrow> cmp y z \<le> 0 \<Longrightarrow> cmp x z < 0"
  using trans [of y z x] trans [of x y z] swap [of x y] swap [of x z] by linarith

lemma eq_sym: "cmp x y = 0 \<longleftrightarrow> cmp y x = 0"
  using swap [of x y] swap [of y x] by linarith

lemma sorted_insert_stable: "sorted_by cmp ys \<Longrightarrow> sorted_by cmp (insert_stable cmp x ys)"
  by (induction ys) (auto simp: sorted_by_def not_le less_imp_le intro: trans)

lemma sorted_SortStableFunc: "sorted_by cmp (SortStableFunc cmp xs)"
  by (induction xs) (auto simp: sorted_by_def sorted_insert_stable [unfolded sorted_by_def])

lemma insert_stable_min: "(\<And>y. y \<in> set ys \<Longrightarrow> cmp x y \<le> 0) \<Longrightarrow> insert_stable cmp x ys = x # ys"
  by (cases ys) auto

lemma SortStableFunc_sorted: "sorted_by cmp xs \<Longrightarrow> SortStableFunc cmp xs = xs"
  by (induction xs) (auto simp: sorted_by_def insert_stable_min)

text \<open>The first of the least elements comes first in the sorted list, and the rest is sorted as before.\<close>

lemma SortStableFunc_first_min:
  assumes "\<And>u. u \<in> set us \<Longrightarrow> cmp x u < 0" and "\<And>v. v \<in> set vs \<Longrightarrow> cmp x v \<le> 0"
  shows "SortStableFunc cmp (us @ x # vs) = x # SortStableFunc cmp (us @ vs)"
  using assms(1)
proof (induction us)
  case Nil
  show ?case using assms(2) by (auto intro!: insert_stable_min)
next
  case (Cons u us)
  then have "\<not> cmp u x \<le> 0" by (simp add: not_le)
  with Cons show ?case by simp
qed

text \<open>Elements that compare equal only to themselves: one sorted rearrangement.\<close>

lemma sorted_unique:
  assumes "sorted_by cmp xs" and "sorted_by cmp ys" and "mset xs = mset ys"
    and "\<And>x y. x \<in> set xs \<Longrightarrow> y \<in> set xs \<Longrightarrow> cmp x y = 0 \<Longrightarrow> x = y"
  shows "xs = ys"
  using assms
proof (induction xs arbitrary: ys)
  case (Cons x xs)
  then obtain y ys' where ys: "ys = y # ys'" by (cases ys) auto
  have mem: "x \<in> set ys" "y \<in> set (x # xs)"
    using Cons.prems(3) ys by (metis list.set_intros(1) set_mset_mset)+
  have "cmp x y \<le> 0"
    using mem(2) Cons.prems(1) by (auto simp: sorted_by_def)
  moreover have "cmp y x \<le> 0"
    using mem(1) Cons.prems(2) ys by (auto simp: sorted_by_def)
  ultimately have "cmp x y = 0" using swap [of x y] swap [of y x] by linarith
  with Cons.prems(4) mem(2) have "x = y" by simp
  with Cons ys show ?case by (auto simp: sorted_by_def)
qed simp

lemma SortStableFunc_perm:
  assumes "mset xs = mset ys"
    and "\<And>x y. x \<in> set xs \<Longrightarrow> y \<in> set xs \<Longrightarrow> cmp x y = 0 \<Longrightarrow> x = y"
  shows "SortStableFunc cmp xs = SortStableFunc cmp ys"
  using assms by (intro sorted_unique sorted_SortStableFunc) auto

end

subsection \<open>Merging sorted slices\<close>

text \<open>
  \<open>mergeSorted\<close> and \<open>minF\<close> of \<open>policy/risk_factor.go\<close>, generic in the comparison: each slice with its
  cursor; the heads of the slices that have one are collected in order, the first least of them is
  yielded and its cursor moves on. The consumer never stops the iterator, so the sequence is the list of
  all it yields.
\<close>

definition minF :: "'a list \<Rightarrow> ('a \<Rightarrow> 'a \<Rightarrow> int) \<Rightarrow> nat" where
  "minF v cmp = foldl (\<lambda>minIdx i. if cmp (v ! i) (v ! minIdx) < 0 then i else minIdx) 0 [1..<length v]"

definition merge_heads :: "('a list \<times> nat) list \<Rightarrow> ('a \<times> nat) list" where
  "merge_heads ts = map (\<lambda>i. (fst (ts ! i) ! snd (ts ! i), i))
     (filter (\<lambda>i. snd (ts ! i) < length (fst (ts ! i))) [0..<length ts])"

definition advance :: "nat \<Rightarrow> ('a list \<times> nat) list \<Rightarrow> ('a list \<times> nat) list" where
  "advance i ts = ts[i := (fst (ts ! i), Suc (snd (ts ! i)))]"

lemma foldl_upt_Suc: "foldl f s [a..<Suc n] = (if a \<le> n then f (foldl f s [a..<n]) n else s)"
  by auto

lemma minF_less:
  assumes "v \<noteq> []"
  shows "minF v cmp < length v"
proof -
  have "0 < n \<Longrightarrow> foldl (\<lambda>m i. if cmp (v ! i) (v ! m) < 0 then i else m) 0 [1..<n] < n" for n
  proof (induction n)
    case (Suc n)
    then show ?case by (cases "n = 0") (auto simp add: foldl_upt_Suc intro: less_SucI)
  qed simp
  then show ?thesis using assms by (simp add: minF_def)
qed

definition remaining :: "('a list \<times> nat) list \<Rightarrow> 'a list" where
  "remaining ts = concat (map (\<lambda>(t, c). drop c t) ts)"

lemma remaining_append [simp]: "remaining (xs @ ys) = remaining xs @ remaining ys"
  by (simp add: remaining_def)

lemma remaining_Cons [simp]: "remaining (p # ys) = drop (snd p) (fst p) @ remaining ys"
  by (simp add: remaining_def case_prod_beta)

lemma merge_headsD:
  assumes "(x, i) \<in> set (merge_heads ts)"
  shows "i < length ts" "snd (ts ! i) < length (fst (ts ! i))" "x = fst (ts ! i) ! snd (ts ! i)"
  using assms by (auto simp: merge_heads_def)

lemma advance_split:
  assumes "(x, i) \<in> set (merge_heads ts)"
  shows "ts = take i ts @ ts ! i # drop (Suc i) ts"
    and "advance i ts = take i ts @ (fst (ts ! i), Suc (snd (ts ! i))) # drop (Suc i) ts"
    and "drop (snd (ts ! i)) (fst (ts ! i)) = x # drop (Suc (snd (ts ! i))) (fst (ts ! i))"
  using merge_headsD [OF assms]
  by (simp_all add: id_take_nth_drop advance_def upd_conv_take_nth_drop Cons_nth_drop_Suc)

lemma remaining_advance:
  assumes "(x, i) \<in> set (merge_heads ts)"
  shows "remaining ts = remaining (take i ts) @ x # drop (Suc (snd (ts ! i))) (fst (ts ! i)) @ remaining (drop (Suc i) ts)"
    and "remaining (advance i ts) = remaining (take i ts) @ drop (Suc (snd (ts ! i))) (fst (ts ! i)) @ remaining (drop (Suc i) ts)"
proof -
  have "remaining ts = remaining (take i ts @ ts ! i # drop (Suc i) ts)"
    using advance_split(1) [OF assms] by simp
  then show "remaining ts = remaining (take i ts) @ x # drop (Suc (snd (ts ! i))) (fst (ts ! i)) @ remaining (drop (Suc i) ts)"
    by (simp add: advance_split(3) [OF assms])
qed (simp add: advance_split(2) [OF assms])

function merge_loop :: "('a \<Rightarrow> 'a \<Rightarrow> int) \<Rightarrow> ('a list \<times> nat) list \<Rightarrow> 'a list" where
  "merge_loop cmp ts =
     (let heads = merge_heads ts in
      if heads = [] then []
      else let (x, i) = heads ! minF (map fst heads) cmp
           in x # merge_loop cmp (advance i ts))"
  by pat_completeness auto
termination
proof (relation "measure (\<lambda>(cmp, ts). length (remaining ts))")
  fix cmp :: "'a \<Rightarrow> 'a \<Rightarrow> int" and ts heads p y i
  assume h: "heads = merge_heads ts" "heads \<noteq> []" "p = heads ! minF (map fst heads) cmp" "(y, i) = p"
  then have "p \<in> set heads" using minF_less [of "map fst heads" cmp] by simp
  with h have "(y, i) \<in> set (merge_heads ts)" by simp
  from remaining_advance [OF this] show "((cmp, advance i ts), (cmp, ts)) \<in> measure (\<lambda>(cmp, ts). length (remaining ts))"
    by simp
qed simp

declare merge_loop.simps [simp del]

definition mergeSorted :: "('a \<Rightarrow> 'a \<Rightarrow> int) \<Rightarrow> 'a list list \<Rightarrow> 'a list" where
  "mergeSorted cmp ts = merge_loop cmp (map (\<lambda>t. (t, 0)) ts)"

lemma merge_heads_Nil: "merge_heads ts = [] \<longleftrightarrow> remaining ts = []"
proof -
  have "merge_heads ts = [] \<longleftrightarrow> (\<forall>p \<in> set ts. length (fst p) \<le> snd p)"
    by (auto simp: merge_heads_def filter_empty_conv all_set_conv_all_nth not_less)
  then show ?thesis by (auto simp: remaining_def)
qed

lemma merge_heads_snd: "sorted_wrt (<) (map snd (merge_heads ts))"
  by (simp add: merge_heads_def comp_def sorted_wrt_filter)

text \<open>On sorted slices the merge is the stable sort of all elements.\<close>

context go_cmp
begin

lemma minF_spec:
  assumes "v \<noteq> []"
  shows "\<And>j. j < minF v cmp \<Longrightarrow> cmp (v ! minF v cmp) (v ! j) < 0"
    and "\<And>j. j < length v \<Longrightarrow> cmp (v ! minF v cmp) (v ! j) \<le> 0"
proof -
  define m where "m n = foldl (\<lambda>m i. if cmp (v ! i) (v ! m) < 0 then i else m) 0 [1..<n]" for n
  have "0 < n \<Longrightarrow> m n < n \<and> (\<forall>j < m n. cmp (v ! m n) (v ! j) < 0) \<and> (\<forall>j < n. cmp (v ! m n) (v ! j) \<le> 0)" for n
  proof (induction n)
    case (Suc n)
    show ?case
    proof (cases "n = 0")
      case False
      with Suc have IH: "m n < n" "\<forall>j < m n. cmp (v ! m n) (v ! j) < 0" "\<forall>j < n. cmp (v ! m n) (v ! j) \<le> 0" by auto
      have m: "m (Suc n) = (if cmp (v ! n) (v ! m n) < 0 then n else m n)"
        using False by (simp add: m_def foldl_upt_Suc)
      show ?thesis
      proof (cases "cmp (v ! n) (v ! m n) < 0")
        case True
        then show ?thesis using IH less_trans [OF True] by (auto simp: m less_Suc_eq less_imp_le)
      next
        case 2: False
        then have "cmp (v ! m n) (v ! n) \<le> 0" using total [of "v ! m n" "v ! n"] by blast
        with 2 show ?thesis using IH by (auto simp: m less_Suc_eq)
      qed
    qed (simp add: m_def)
  qed simp
  from this [of "length v"] assms
  show "\<And>j. j < minF v cmp \<Longrightarrow> cmp (v ! minF v cmp) (v ! j) < 0"
    and "\<And>j. j < length v \<Longrightarrow> cmp (v ! minF v cmp) (v ! j) \<le> 0"
    by (auto simp: minF_def m_def)
qed

lemma remaining_bound:
  assumes "\<And>p. p \<in> set ps \<Longrightarrow> sorted_by cmp (fst p)"
    and "\<And>p. p \<in> set ps \<Longrightarrow> snd p < length (fst p) \<Longrightarrow> cmp x (fst p ! snd p) \<le> 0"
    and "u \<in> set (remaining ps)"
  shows "\<exists>p \<in> set ps. snd p < length (fst p) \<and> cmp (fst p ! snd p) u \<le> 0"
proof -
  from assms(3) obtain p where p: "p \<in> set ps" "u \<in> set (drop (snd p) (fst p))"
    by (auto simp: remaining_def)
  then have c: "snd p < length (fst p)" by (cases "snd p < length (fst p)") auto
  have "sorted_wrt (\<lambda>x y. cmp x y \<le> 0) (drop (snd p) (fst p))"
    using assms(1) [OF p(1)] by (simp add: sorted_by_def sorted_wrt_drop)
  then have "cmp (fst p ! snd p) u \<le> 0"
    using p(2) c by (auto simp: Cons_nth_drop_Suc [symmetric])
  with p(1) c show ?thesis by blast
qed

lemma merge_min:
  assumes "\<And>p. p \<in> set ts \<Longrightarrow> sorted_by cmp (fst p)" and "merge_heads ts \<noteq> []"
    and "(x, i) = merge_heads ts ! minF (map fst (merge_heads ts)) cmp"
  shows "\<And>u. u \<in> set (remaining (take i ts)) \<Longrightarrow> cmp x u < 0"
    and "\<And>u. u \<in> set (remaining ts) \<Longrightarrow> cmp x u \<le> 0"
proof -
  let ?hs = "merge_heads ts" and ?m = "minF (map fst (merge_heads ts)) cmp"
  have m: "?m < length ?hs" using minF_less [of "map fst ?hs" cmp] assms(2) by simp
  have x: "map fst ?hs ! ?m = x" "map snd ?hs ! ?m = i" using m assms(3) by (metis nth_map fst_conv snd_conv)+
  have hd: "cmp x (fst (ts ! j) ! snd (ts ! j)) \<le> 0 \<and> (j < i \<longrightarrow> cmp x (fst (ts ! j) ! snd (ts ! j)) < 0)"
    if "j < length ts" "snd (ts ! j) < length (fst (ts ! j))" for j
  proof -
    have "(fst (ts ! j) ! snd (ts ! j), j) \<in> set ?hs" using that by (auto simp: merge_heads_def)
    then obtain k where k: "k < length ?hs" "?hs ! k = (fst (ts ! j) ! snd (ts ! j), j)"
      by (auto simp: in_set_conv_nth)
    then have kn: "map fst ?hs ! k = fst (ts ! j) ! snd (ts ! j)" "map snd ?hs ! k = j" by simp_all
    have "j < i \<Longrightarrow> k < ?m"
      using sorted_wrt_nth_less [OF merge_heads_snd, of ?m k ts] kn x k m
      by (cases k ?m rule: linorder_cases) auto
    then show ?thesis
      using minF_spec(1) [of "map fst ?hs" k] minF_spec(2) [of "map fst ?hs" k] assms(2) k(1) x(1) kn(1) by auto
  qed
  show "cmp x u \<le> 0" if u: "u \<in> set (remaining ts)" for u
  proof -
    have "cmp x (fst p ! snd p) \<le> 0" if "p \<in> set ts" "snd p < length (fst p)" for p
      using hd that by (metis in_set_conv_nth)
    from remaining_bound [OF assms(1) this u] this show ?thesis by (metis trans)
  qed
  show "cmp x u < 0" if u: "u \<in> set (remaining (take i ts))" for u
  proof -
    have strict: "cmp x (fst p ! snd p) < 0" if "p \<in> set (take i ts)" "snd p < length (fst p)" for p
      using hd that by (auto simp: in_set_conv_nth)
    from remaining_bound [OF _ _ u, of x] strict obtain p
      where "p \<in> set (take i ts)" "snd p < length (fst p)" "cmp (fst p ! snd p) u \<le> 0"
      using assms(1) by (meson in_set_takeD less_imp_le)
    with strict show ?thesis by (metis less_trans)
  qed
qed

lemma merge_loop_sorted:
  assumes "\<And>p. p \<in> set ts \<Longrightarrow> sorted_by cmp (fst p)"
  shows "merge_loop cmp ts = SortStableFunc cmp (remaining ts)"
  using assms
proof (induction "length (remaining ts)" arbitrary: ts rule: less_induct)
  case less
  show ?case
  proof (cases "merge_heads ts = []")
    case True
    then show ?thesis by (subst merge_loop.simps) (use merge_heads_Nil [of ts] in simp)
  next
    case False
    obtain x i where xi: "merge_heads ts ! minF (map fst (merge_heads ts)) cmp = (x, i)" by fastforce
    then have mem: "(x, i) \<in> set (merge_heads ts)"
      using minF_less [of "map fst (merge_heads ts)" cmp] False by (metis length_map map_is_Nil_conv nth_mem)
    note rem = remaining_advance [OF mem] and min = merge_min [OF less.prems False xi [symmetric]]
    have "sorted_by cmp (fst p)" if "p \<in> set (advance i ts)" for p
    proof -
      have "p = (fst (ts ! i), Suc (snd (ts ! i))) \<or> p \<in> set ts"
        using that set_update_subset_insert [of ts i] by (auto simp: advance_def)
      with less.prems merge_headsD(1) [OF mem] show ?thesis by (metis fst_conv nth_mem)
    qed
    then have "merge_loop cmp (advance i ts) = SortStableFunc cmp (remaining (advance i ts))"
      using rem by (intro less.hyps) simp
    moreover have "SortStableFunc cmp (remaining ts) = x # SortStableFunc cmp (remaining (advance i ts))"
      unfolding rem using min rem(1) by (intro SortStableFunc_first_min) auto
    ultimately show ?thesis by (subst merge_loop.simps) (simp add: False xi)
  qed
qed

lemma mergeSorted_sort:
  assumes "\<And>t. t \<in> set ts \<Longrightarrow> sorted_by cmp t"
  shows "mergeSorted cmp ts = SortStableFunc cmp (concat ts)"
proof -
  have "remaining (map (\<lambda>t. (t, 0)) ts) = concat ts" by (induction ts) (simp_all add: remaining_def)
  moreover have "merge_loop cmp (map (\<lambda>t. (t, 0)) ts) = SortStableFunc cmp (remaining (map (\<lambda>t. (t, 0)) ts))"
    using assms by (intro merge_loop_sorted) auto
  ultimately show ?thesis by (simp add: mergeSorted_def)
qed

end

text \<open>The comparison of a linear order satisfies the contract, and so does a lexicographic chain.\<close>

lemma cmp_compare_simps [simp]:
  "cmp_compare x x = 0" "cmp_compare x y < 0 \<longleftrightarrow> x < y" "0 < cmp_compare x y \<longleftrightarrow> y < x"
  "cmp_compare x y = 0 \<longleftrightarrow> x = y" "cmp_compare x y \<le> 0 \<longleftrightarrow> x \<le> y"
  by (auto simp: cmp_compare_def)

interpretation compare: go_cmp "cmp_compare :: 'a :: linorder \<Rightarrow> 'a \<Rightarrow> int"
  by unfold_locales auto

end
