(* ===== verification/Risk_Factors.thy ===== *)
theory Risk_Factors
  imports Score_Types Ordering
begin

text \<open>
  Risk factors (\<open>policy/risk_factor.go\<close>) and score statistics (\<open>policy/score_stats.go\<close>): how a
  detected or missing risk moves the risk score of a check, the order in which several are applied, the
  merge of sorted slices behind it, and the blast radius.

  Magnitudes are finite \<open>float32\<close> values, given as rationals; infinities and NaN, which the JSON decoder
  cannot produce, are not modelled. Conversions of \<open>Go_Float\<close> that the language leaves to the
  platform are its parameter \<open>go_arch\<close>. A nil pointer to a message is \<open>None\<close>.
\<close>

subsection \<open>Data\<close>

datatype ScopeType =
    UNSCOPED | ASSET | ASSET_VULNS | RESOURCE | SOFTWARE | SOFTWARE_AND_RESOURCE

record RiskMagnitude =
  rm_Value :: rat
  rm_IsToxic :: bool

record SoftwareSelector =
  ss_Type :: string
  ss_Namespace :: string
  ss_Name :: string
  ss_Version :: string
  ss_MqlMrn :: string

record RiskFactor =
  rf_Mrn :: string
  rf_Scope :: ScopeType
  rf_DeprecatedV11Magnitude :: rat
  rf_DeprecatedV11IsAbsolute :: bool
  rf_Magnitude :: "RiskMagnitude option"
  rf_Software :: "SoftwareSelector list"
  rf_Resources :: "string list"

definition mag_Value :: "RiskMagnitude option \<Rightarrow> rat" where
  "mag_Value m = (case m of None \<Rightarrow> 0 | Some x \<Rightarrow> rm_Value x)"

definition mag_IsToxic :: "RiskMagnitude option \<Rightarrow> bool" where
  "mag_IsToxic m = (case m of None \<Rightarrow> False | Some x \<Rightarrow> rm_IsToxic x)"

definition DetectScope :: "RiskFactor \<Rightarrow> RiskFactor" where
  "DetectScope r =
     (if rf_Scope r \<noteq> UNSCOPED then r
      else let resourceScoped = rf_Resources r \<noteq> []; softwareScoped = rf_Software r \<noteq> [] in
        r\<lparr>rf_Scope := if resourceScoped \<and> softwareScoped then SOFTWARE_AND_RESOURCE
             else if resourceScoped then RESOURCE
             else if softwareScoped then SOFTWARE
             else ASSET\<rparr>)"

text \<open>
  The JSON forms: a magnitude is a number or an object with the fields that are present; a risk
  factor is its decoded fields, or nothing when decoding fails, and the optional \<open>is_absolute\<close>.
\<close>

datatype magnitude_doc = MNumber rat | MObject "rat option" "bool option" | MInvalid

fun RiskMagnitude_UnmarshalJSON :: "RiskMagnitude \<Rightarrow> magnitude_doc \<Rightarrow> RiskMagnitude option" where
  "RiskMagnitude_UnmarshalJSON s (MNumber f) = Some (s\<lparr>rm_Value := f\<rparr>)"
| "RiskMagnitude_UnmarshalJSON s (MObject vo to) =
     Some \<lparr>rm_Value = (case vo of None \<Rightarrow> rm_Value s | Some v \<Rightarrow> v),
           rm_IsToxic = (case to of None \<Rightarrow> rm_IsToxic s | Some t \<Rightarrow> t)\<rparr>"
| "RiskMagnitude_UnmarshalJSON s MInvalid = None"

definition zeroMagnitude :: RiskMagnitude where
  "zeroMagnitude = \<lparr>rm_Value = 0, rm_IsToxic = False\<rparr>"

definition RiskFactor_UnmarshalJSON :: "(RiskFactor \<times> bool option) option \<Rightarrow> RiskFactor option" where
  "RiskFactor_UnmarshalJSON d = (case d of None \<Rightarrow> None | Some (s, isAbsolute) \<Rightarrow>
     (let m = (case rf_Magnitude s of None \<Rightarrow> zeroMagnitude | Some m \<Rightarrow> m)
      in Some (s\<lparr>rf_Magnitude := Some
           (case isAbsolute of None \<Rightarrow> m | Some b \<Rightarrow> m\<lparr>rm_IsToxic := b\<rparr>)\<rparr>)))"

definition Migrate :: "RiskFactor \<Rightarrow> RiskFactor" where
  "Migrate s =
     (let m = (case rf_Magnitude s of
          None \<Rightarrow> \<lparr>rm_Value = rf_DeprecatedV11Magnitude s, rm_IsToxic = rf_DeprecatedV11IsAbsolute s\<rparr>
        | Some m \<Rightarrow> m)
      in s\<lparr>rf_Magnitude := Some m, rf_DeprecatedV11IsAbsolute := rm_IsToxic m,
           rf_DeprecatedV11Magnitude := rm_Value m\<rparr>)"

subsection \<open>Adjusting a risk score\<close>

text \<open>Go's \<open>int\<close> is 64 bits wide; the subtraction below wraps there.\<close>

definition int64 :: "int \<Rightarrow> int" where
  "int64 x = sint (word_of_int x :: 64 word)"

definition append_risk :: "ScoredRiskFactor \<Rightarrow> Score \<Rightarrow> Score" where
  "append_risk item s = s\<lparr>sc_RiskFactors :=
     Some ((case sc_RiskFactors s of None \<Rightarrow> [] | Some items \<Rightarrow> items) @ [item])\<rparr>"

text \<open>The relative move: \<open>uint32(100 - float32(100-score.RiskScore)*factor)\<close>.\<close>

definition relative_risk :: "go_arch \<Rightarrow> u32 \<Rightarrow> rat \<Rightarrow> u32" where
  "relative_risk a rs factor =
     float_to_u32 a (sub_mul32 a 100 (u32_to_float 24 (100 - rs)) factor)"

definition RiskFactor_AdjustRiskScore :: "go_arch \<Rightarrow> RiskFactor \<Rightarrow> Score \<Rightarrow> bool \<Rightarrow> Score" where
  "RiskFactor_AdjustRiskScore a r s isDetected =
     (let v = mag_Value (rf_Magnitude r) in
      if mag_IsToxic (rf_Magnitude r) then
        (if isDetected then
           (let nu = int64 (int (unat (sc_RiskScore s)) - float_to_int a (fl32 (v * 100)))
            in append_risk \<lparr>sr_Mrn = rf_Mrn r, sr_Risk = v, sr_IsToxic = True, sr_IsDetected = isDetected\<rparr>
                (s\<lparr>sc_RiskScore := if nu < 0 then 0 else if 100 < nu then 100 else word_of_int nu\<rparr>))
         else s)
      else if v < 0 then
        (if isDetected then
           append_risk \<lparr>sr_Mrn = rf_Mrn r, sr_Risk = v, sr_IsToxic = False, sr_IsDetected = isDetected\<rparr>
             (s\<lparr>sc_RiskScore := relative_risk a (sc_RiskScore s) (fl32 (1 + v))\<rparr>)
         else s)
      else if isDetected then
        append_risk \<lparr>sr_Mrn = rf_Mrn r, sr_Risk = v, sr_IsToxic = False, sr_IsDetected = isDetected\<rparr> s
      else
        append_risk \<lparr>sr_Mrn = rf_Mrn r, sr_Risk = - v, sr_IsToxic = False, sr_IsDetected = isDetected\<rparr>
          (s\<lparr>sc_RiskScore := relative_risk a (sc_RiskScore s) (fl32 (1 - v))\<rparr>))"

text \<open>\<open>ScoredRiskFactors.Add\<close>: items with the same MRN are replaced in place, others appended.\<close>

fun upsert_risk :: "ScoredRiskFactor \<Rightarrow> ScoredRiskFactor list \<Rightarrow> ScoredRiskFactor list" where
  "upsert_risk nu [] = [nu]"
| "upsert_risk nu (x # xs) = (if sr_Mrn x = sr_Mrn nu then nu # xs else x # upsert_risk nu xs)"

definition ScoredRiskFactors_Add ::
  "ScoredRiskFactor list \<Rightarrow> ScoredRiskFactor list option \<Rightarrow> ScoredRiskFactor list" where
  "ScoredRiskFactors_Add items other =
     (case other of None \<Rightarrow> items | Some nus \<Rightarrow> foldl (\<lambda>s nu. upsert_risk nu s) items nus)"

subsection \<open>The order of risk factors\<close>

definition cmpRiskFactors :: "RiskFactor \<Rightarrow> RiskFactor \<Rightarrow> int" where
  "cmpRiskFactors ri rj =
     (let isToxicI = mag_IsToxic (rf_Magnitude ri); isToxicJ = mag_IsToxic (rf_Magnitude rj);
          valI = mag_Value (rf_Magnitude ri); valJ = mag_Value (rf_Magnitude rj)
      in if isToxicI \<noteq> isToxicJ then (if isToxicJ then - 1 else 1)
         else if valI \<noteq> valJ then cmp_compare valI valJ
         else cmp_compare (rf_Mrn ri) (rf_Mrn rj))"

definition SortRiskFactors :: "RiskFactor list \<Rightarrow> RiskFactor list" where
  "SortRiskFactors risks = SortStableFunc cmpRiskFactors risks"

type_synonym ScoredRiskInfo = "RiskFactor \<times> ScoredRiskFactor"

definition cmpScoredRiskFactors :: "ScoredRiskInfo \<Rightarrow> ScoredRiskInfo \<Rightarrow> int" where
  "cmpScoredRiskFactors ri rj = cmpRiskFactors (fst ri) (fst rj)"

definition SortScoredRiskInfo :: "ScoredRiskInfo list \<Rightarrow> ScoredRiskInfo list" where
  "SortScoredRiskInfo risks = SortStableFunc cmpScoredRiskFactors risks"

text \<open>A score without slices of risks is left alone; else the risk score starts at the value.\<close>

definition AdjustRiskScore :: "go_arch \<Rightarrow> Score option \<Rightarrow> ScoredRiskInfo list list \<Rightarrow> Score option" where
  "AdjustRiskScore a so sortedRisks = (case so of None \<Rightarrow> None | Some score \<Rightarrow> Some
     (if sortedRisks = [] then score
      else let s = score\<lparr>sc_RiskScore := sc_Value score\<rparr> in
        if sc_Value s = 100 then s
        else foldl (\<lambda>s risk. RiskFactor_AdjustRiskScore a (fst risk) s (sr_IsDetected (snd risk))) s
               (mergeSorted cmpScoredRiskFactors sortedRisks)))"

lemma append_risk_fields [simp]:
  "sc_RiskScore (append_risk x s) = sc_RiskScore s" "sc_Value (append_risk x s) = sc_Value s"
  by (simp_all add: append_risk_def)

subsection \<open>The order\<close>

lemma cmpRiskFactors_eq_0:
  "cmpRiskFactors r s = 0 \<longleftrightarrow> mag_IsToxic (rf_Magnitude r) = mag_IsToxic (rf_Magnitude s)
     \<and> mag_Value (rf_Magnitude r) = mag_Value (rf_Magnitude s) \<and> rf_Mrn r = rf_Mrn s"
  by (auto simp: cmpRiskFactors_def Let_def)

lemma cmpRiskFactors_key:
  "cmpRiskFactors r s = cmp_compare
     (mag_IsToxic (rf_Magnitude r), mag_Value (rf_Magnitude r), rf_Mrn r)
     (mag_IsToxic (rf_Magnitude s), mag_Value (rf_Magnitude s), rf_Mrn s)"
  by (auto simp: cmpRiskFactors_def cmp_compare_def Let_def)

interpretation risk: go_cmp cmpRiskFactors
  unfolding cmpRiskFactors_key by unfold_locales (auto intro: compare.trans dest: order_trans)

interpretation scored_risk: go_cmp cmpScoredRiskFactors
  unfolding cmpScoredRiskFactors_def
  by unfold_locales (auto intro: risk.trans simp: risk.swap)

subsection \<open>One adjustment\<close>

lemma int64_id: "- 9223372036854775808 \<le> x \<Longrightarrow> x < 9223372036854775808 \<Longrightarrow> int64 x = x"
  by (simp add: int64_def signed_of_int signed_take_bit_int_eq_self)

lemma relative_risk_bounds:
  assumes "rs \<le> 100" and "0 \<le> f" and "f \<le> 1"
  shows "rs \<le> relative_risk a rs f" and "relative_risk a rs f \<le> 100"
proof -
  let ?n = "100 - unat rs"
  have rs: "unat rs \<le> 100" using assms(1) by (simp add: u32_le_100)
  have n: "unat (100 - rs) = ?n" using assms(1) by (simp add: unat_sub)
  then have x: "u32_to_float 24 (100 - rs) = of_nat ?n"
    by (simp add: u32_to_float32_exact)
  have "0 \<le> of_nat ?n * f" and "of_nat ?n * f \<le> of_nat ?n"
    using assms(2,3) by (auto simp: mult_left_le)
  from sub_mul32_range [OF this, of 100 a] rs
  have "of_nat (unat rs) \<le> sub_mul32 a 100 (of_nat ?n) f" "sub_mul32 a 100 (of_nat ?n) f \<le> of_nat 100"
    by simp_all
  moreover have "(100 :: nat) < 2 ^ 32" by simp
  ultimately have "unat rs \<le> unat (relative_risk a rs f)" "unat (relative_risk a rs f) \<le> 100"
    using float_to_u32_range [of _ _ 100 a] unfolding relative_risk_def x by blast+
  then show "rs \<le> relative_risk a rs f" and "relative_risk a rs f \<le> 100"
    by (simp_all add: word_le_nat_alt)
qed

lemma magnitude_factor:
  "- 1 \<le> v \<Longrightarrow> v \<le> 0 \<Longrightarrow> 0 \<le> fl32 (1 + v) \<and> fl32 (1 + v) \<le> 1"
  "0 \<le> v \<Longrightarrow> v \<le> 1 \<Longrightarrow> 0 \<le> fl32 (1 - v) \<and> fl32 (1 - v) \<le> 1"
  by (simp_all add: fl_unit)

text \<open>A magnitude is a share: between -1 and 1.\<close>

definition magnitude_ok :: "RiskFactor \<Rightarrow> bool" where
  "magnitude_ok r \<longleftrightarrow> \<bar>mag_Value (rf_Magnitude r)\<bar> \<le> 1"

lemma adjust_relative_improves:
  assumes "\<not> mag_IsToxic (rf_Magnitude r)" and "magnitude_ok r" and "sc_RiskScore s \<le> 100"
  shows "sc_RiskScore s \<le> sc_RiskScore (RiskFactor_AdjustRiskScore a r s d)"
  using assms magnitude_factor [of "mag_Value (rf_Magnitude r)"]
  by (auto simp: RiskFactor_AdjustRiskScore_def magnitude_ok_def Let_def abs_le_iff intro!: relative_risk_bounds(1))

lemma adjust_range:
  assumes "magnitude_ok r" and "sc_RiskScore s \<le> 100"
  shows "sc_RiskScore (RiskFactor_AdjustRiskScore a r s d) \<le> 100"
proof -
  have "word_of_int nu \<le> (100 :: u32)" if "\<not> nu < 0" "\<not> 100 < nu" for nu
    using that by (simp add: u32_le_100 unsigned_of_int take_bit_int_eq_self)
  then show ?thesis using assms magnitude_factor [of "mag_Value (rf_Magnitude r)"]
    by (auto simp: RiskFactor_AdjustRiskScore_def magnitude_ok_def Let_def abs_le_iff intro!: relative_risk_bounds(2))
qed

lemma word_of_int_le: "0 \<le> n \<Longrightarrow> n \<le> uint w \<Longrightarrow> word_of_int n \<le> (w :: u32)"
  by (simp add: word_le_def unsigned_of_int) (metis take_bit_int_less_eq_self_iff order.trans)

lemma adjust_toxic_lowers:
  assumes "mag_IsToxic (rf_Magnitude r)" and "0 \<le> mag_Value (rf_Magnitude r)" and "magnitude_ok r"
    and "sc_RiskScore s \<le> 100"
  shows "sc_RiskScore (RiskFactor_AdjustRiskScore a r s d) \<le> sc_RiskScore s"
proof -
  let ?v = "mag_Value (rf_Magnitude r)"
  let ?m = "float_to_int a (fl32 (?v * 100))"
  have "?v * 100 \<le> of_nat 100" using assms(3) by (simp add: magnitude_ok_def)
  then have "0 \<le> fl32 (?v * 100)" and "fl32 (?v * 100) \<le> 100"
    using fl_between_nat [of 0 "?v * 100" 100 24] assms(2) by simp_all
  then have m: "0 \<le> ?m" "?m \<le> 100" by (auto simp: float_to_int_def trunc_rat_def floor_le_iff)
  have rs: "0 \<le> uint (sc_RiskScore s)" "uint (sc_RiskScore s) \<le> 100" using assms(4) by (simp_all add: word_le_def)
  let ?nu = "int (unat (sc_RiskScore s)) - ?m"
  have "int64 ?nu = ?nu"
    unfolding of_nat_unat by (rule int64_id) (use m rs in linarith)+
  moreover have "word_of_int ?nu \<le> sc_RiskScore s" if "0 \<le> ?nu"
    unfolding of_nat_unat by (rule word_of_int_le) (use that m in simp_all)
  ultimately show ?thesis using assms m rs by (auto simp: RiskFactor_AdjustRiskScore_def Let_def)
qed

lemma adjust_toxic_full:
  assumes "mag_IsToxic (rf_Magnitude r)" and "mag_Value (rf_Magnitude r) = 1" and "sc_RiskScore s \<le> 100"
  shows "sc_RiskScore (RiskFactor_AdjustRiskScore a r s True) = 0"
proof -
  have f: "fl32 100 = 100" using fl_of_nat [of 100 24] by simp
  have m: "float_to_int a (fl32 (1 * 100)) = 100"
    unfolding mult_1 f by (simp add: float_to_int_def trunc_rat_def)
  have rs: "0 \<le> uint (sc_RiskScore s)" "uint (sc_RiskScore s) \<le> 100" using assms(3) by (simp_all add: word_le_def)
  then have "int64 (int (unat (sc_RiskScore s)) - 100) = int (unat (sc_RiskScore s)) - 100"
    by (intro int64_id) auto
  with assms m rs show ?thesis by (auto simp: RiskFactor_AdjustRiskScore_def Let_def)
qed

subsection \<open>A row of adjustments\<close>

definition apply_risks :: "go_arch \<Rightarrow> ScoredRiskInfo list \<Rightarrow> Score \<Rightarrow> Score" where
  "apply_risks a risks s =
     foldl (\<lambda>s risk. RiskFactor_AdjustRiskScore a (fst risk) s (sr_IsDetected (snd risk))) s risks"

lemma apply_risks_append: "apply_risks a (xs @ ys) s = apply_risks a ys (apply_risks a xs s)"
  by (simp add: apply_risks_def)

lemma apply_risks_range:
  assumes "\<forall>x \<in> set risks. magnitude_ok (fst x)" and "sc_RiskScore s \<le> 100"
  shows "sc_RiskScore (apply_risks a risks s) \<le> 100"
  unfolding apply_risks_def
  by (rule foldl_inv [where I = "\<lambda>s. sc_RiskScore s \<le> 100"]) (use assms adjust_range in auto)

lemma apply_risks_improves:
  assumes "\<forall>x \<in> set risks. magnitude_ok (fst x) \<and> \<not> mag_IsToxic (rf_Magnitude (fst x))"
    and "sc_RiskScore s \<le> 100"
  shows "sc_RiskScore s \<le> sc_RiskScore (apply_risks a risks s)"
  using assms
proof (induction risks arbitrary: s)
  case (Cons x xs)
  let ?s = "RiskFactor_AdjustRiskScore a (fst x) s (sr_IsDetected (snd x))"
  have "sc_RiskScore ?s \<le> 100" using Cons.prems by (intro adjust_range) auto
  then have "sc_RiskScore ?s \<le> sc_RiskScore (apply_risks a xs ?s)" using Cons by simp
  moreover have "sc_RiskScore s \<le> sc_RiskScore ?s" using Cons.prems by (intro adjust_relative_improves) auto
  ultimately show ?case by (simp add: apply_risks_def)
qed (simp add: apply_risks_def)

lemma apply_risks_keeps_0:
  assumes "\<forall>x \<in> set risks. magnitude_ok (fst x) \<and> mag_IsToxic (rf_Magnitude (fst x))
     \<and> 0 \<le> mag_Value (rf_Magnitude (fst x))"
    and "sc_RiskScore s = 0"
  shows "sc_RiskScore (apply_risks a risks s) = 0"
  unfolding apply_risks_def
proof (rule foldl_inv [where I = "\<lambda>s. sc_RiskScore s = 0"])
  fix s :: Score and x assume "x \<in> set risks" "sc_RiskScore s = 0"
  with assms(1) adjust_toxic_lowers [of "fst x" s a "sr_IsDetected (snd x)"]
  show "sc_RiskScore (RiskFactor_AdjustRiskScore a (fst x) s (sr_IsDetected (snd x))) = 0"
    by (simp add: word_le_0_iff)
qed (rule assms(2))

lemma AdjustRiskScore_Some:
  "risks \<noteq> [] \<Longrightarrow> AdjustRiskScore a (Some s) risks = Some
     (if sc_Value s = 100 then s\<lparr>sc_RiskScore := 100\<rparr>
      else apply_risks a (mergeSorted cmpScoredRiskFactors risks) (s\<lparr>sc_RiskScore := sc_Value s\<rparr>))"
  by (simp add: AdjustRiskScore_def apply_risks_def)

abbreviation sorted_risks :: "ScoredRiskInfo list list \<Rightarrow> bool" where
  "sorted_risks risks \<equiv> (\<forall>t \<in> set risks. sorted_by cmpScoredRiskFactors t)"

lemma merge_set: "sorted_risks risks \<Longrightarrow> set (mergeSorted cmpScoredRiskFactors risks) = set (concat risks)"
  by (simp add: scored_risk.mergeSorted_sort)

subsection \<open>Properties\<close>

text \<open>C28: merging sorted slices of risk factors yields the stable sort of all of them, so
  \<open>AdjustRiskScore\<close> applies them in the order \<open>SortScoredRiskInfo\<close> gives the whole collection.\<close>

theorem mergeSorted_stable_sort:
  assumes "\<forall>t \<in> set risks. SortScoredRiskInfo t = t"
  shows "mergeSorted cmpScoredRiskFactors risks = SortScoredRiskInfo (concat risks)"
proof -
  have "sorted_by cmpScoredRiskFactors t" if "t \<in> set risks" for t
    using that assms scored_risk.sorted_SortStableFunc [of t] by (simp add: SortScoredRiskInfo_def)
  then show ?thesis by (simp add: SortScoredRiskInfo_def scored_risk.mergeSorted_sort)
qed

text \<open>The adjusted score depends only on the collection of risk factors: not on how it is
  partitioned into slices nor on the order of the slices, as long as two factors that compare equal are
  the same factor.\<close>

theorem AdjustRiskScore_partition_independent:
  assumes "\<forall>t \<in> set risks. SortScoredRiskInfo t = t" and "\<forall>t \<in> set risks'. SortScoredRiskInfo t = t"
    and "risks \<noteq> []" and "risks' \<noteq> []" and "mset (concat risks) = mset (concat risks')"
    and "\<forall>x \<in> set (concat risks). \<forall>y \<in> set (concat risks). cmpScoredRiskFactors x y = 0 \<longrightarrow> x = y"
  shows "AdjustRiskScore a (Some s) risks = AdjustRiskScore a (Some s) risks'"
proof -
  have "sorted_risks risks" "sorted_risks risks'"
    using assms(1,2) by (metis SortScoredRiskInfo_def scored_risk.sorted_SortStableFunc)+
  then have "mergeSorted cmpScoredRiskFactors risks = mergeSorted cmpScoredRiskFactors risks'"
    using scored_risk.SortStableFunc_perm [OF assms(5)] assms(6) by (simp add: scored_risk.mergeSorted_sort)
  with assms(3,4) show ?thesis by (simp add: AdjustRiskScore_Some)
qed

text \<open>C29: with magnitudes that are shares the risk score stays within 100, through every
  conversion between \<open>uint32\<close>, \<open>int\<close> and \<open>float32\<close>, and factors that are not toxic only ever raise
  it above the score's own value.\<close>

theorem AdjustRiskScore_range:
  assumes "\<forall>t \<in> set risks. SortScoredRiskInfo t = t" and "risks \<noteq> []"
    and "\<forall>x \<in> set (concat risks). magnitude_ok (fst x)" and "sc_Value s \<le> 100"
    and "AdjustRiskScore a (Some s) risks = Some s'"
  shows "sc_RiskScore s' \<le> 100
    \<and> ((\<forall>x \<in> set (concat risks). \<not> mag_IsToxic (rf_Magnitude (fst x))) \<longrightarrow> sc_Value s \<le> sc_RiskScore s')"
proof -
  have so: "sorted_risks risks"
    using assms(1) by (metis SortScoredRiskInfo_def scored_risk.sorted_SortStableFunc)
  note ms = merge_set [OF so]
  show ?thesis using assms(5) assms(3,4) ms
      apply_risks_range [of "mergeSorted cmpScoredRiskFactors risks" "s\<lparr>sc_RiskScore := sc_Value s\<rparr>" a]
      apply_risks_improves [of "mergeSorted cmpScoredRiskFactors risks" "s\<lparr>sc_RiskScore := sc_Value s\<rparr>" a]
    by (auto simp: AdjustRiskScore_Some [OF assms(2)] split: if_splits)
qed

text \<open>A detected toxic factor of full magnitude takes the risk score to 0 whatever else
  applies: the order puts the relative factors before it and only toxic ones after it.\<close>

theorem AdjustRiskScore_full_toxic:
  assumes "\<forall>t \<in> set risks. SortScoredRiskInfo t = t"
    and "\<forall>x \<in> set (concat risks). magnitude_ok (fst x)"
    and "x \<in> set (concat risks)" and "mag_IsToxic (rf_Magnitude (fst x))"
    and "mag_Value (rf_Magnitude (fst x)) = 1" and "sr_IsDetected (snd x)"
    and "sc_Value s < 100" and "AdjustRiskScore a (Some s) risks = Some s'"
  shows "sc_RiskScore s' = 0"
proof -
  let ?m = "mergeSorted cmpScoredRiskFactors risks"
  have so: "sorted_risks risks"
    using assms(1) by (metis SortScoredRiskInfo_def scored_risk.sorted_SortStableFunc)
  have ok: "\<forall>x \<in> set ?m. magnitude_ok (fst x)" using merge_set [OF so] assms(2) by simp
  have "x \<in> set ?m" using merge_set [OF so] assms(3) by simp
  then obtain us vs where m: "?m = us @ x # vs" by (meson split_list)
  have "sorted_by cmpScoredRiskFactors ?m"
    using so by (simp add: scored_risk.mergeSorted_sort scored_risk.sorted_SortStableFunc)
  then have "\<forall>y \<in> set vs. cmpScoredRiskFactors x y \<le> 0" by (simp add: m sorted_by_def sorted_wrt_append)
  then have vs: "\<forall>y \<in> set vs. magnitude_ok (fst y) \<and> mag_IsToxic (rf_Magnitude (fst y))
      \<and> 0 \<le> mag_Value (rf_Magnitude (fst y))"
    using ok assms(4,5) m
    by (auto simp: cmpScoredRiskFactors_def cmpRiskFactors_def Let_def split: if_splits)
  let ?s = "s\<lparr>sc_RiskScore := sc_Value s\<rparr>"
  have "sc_RiskScore (apply_risks a us ?s) \<le> 100"
    using ok m assms(7) by (intro apply_risks_range) auto
  then have "sc_RiskScore (RiskFactor_AdjustRiskScore a (fst x) (apply_risks a us ?s) True) = 0"
    using assms(4,5) by (intro adjust_toxic_full) auto
  with apply_risks_keeps_0 [OF vs] assms(6) have "sc_RiskScore (apply_risks a ?m ?s) = 0"
    by (simp add: m apply_risks_append) (simp add: apply_risks_def)
  moreover have "risks \<noteq> []" using assms(3) by auto
  ultimately show ?thesis using assms(7,8) by (auto simp: AdjustRiskScore_Some split: if_splits)
qed

subsection \<open>Scored risk factors are a map\<close>

abbreviation by_mrn :: "ScoredRiskFactor list \<Rightarrow> (string, ScoredRiskFactor) gomap" where
  "by_mrn items \<equiv> map (\<lambda>x. (sr_Mrn x, x)) items"

lemma upsert_risk_lookup: "map_get (by_mrn (upsert_risk nu xs)) = (map_get (by_mrn xs))(sr_Mrn nu \<mapsto> nu)"
  by (induction xs) (auto simp: fun_eq_iff)

lemma upsert_risk_set: "sr_Mrn ` set (upsert_risk nu xs) = insert (sr_Mrn nu) (sr_Mrn ` set xs)"
  by (induction xs) auto

lemma upsert_risk_distinct: "distinct (map sr_Mrn xs) \<Longrightarrow> distinct (map sr_Mrn (upsert_risk nu xs))"
  by (induction xs) (auto simp: upsert_risk_set [unfolded image_set [symmetric]])

lemma upsert_risk_keys: "take (length xs) (map sr_Mrn (upsert_risk nu xs)) = map sr_Mrn xs"
  by (induction xs) auto

text \<open>\<open>ScoredRiskFactors.Add\<close> overlays the other list: afterwards an MRN maps to the last item
  the other list has for it, else to the item it had; the MRNs stay distinct and keep their places.\<close>

theorem ScoredRiskFactors_Add_overlay:
  assumes "distinct (map sr_Mrn items)"
  shows "map_get (by_mrn (ScoredRiskFactors_Add items (Some nus))) =
     map_get (by_mrn items) ++ map_get (by_mrn (rev nus))
   \<and> distinct (map sr_Mrn (ScoredRiskFactors_Add items (Some nus)))
   \<and> take (length items) (map sr_Mrn (ScoredRiskFactors_Add items (Some nus))) = map sr_Mrn items"
proof (intro conjI)
  show "map_get (by_mrn (ScoredRiskFactors_Add items (Some nus))) =
     map_get (by_mrn items) ++ map_get (by_mrn (rev nus))"
    unfolding ScoredRiskFactors_Add_def option.simps
    by (induction nus arbitrary: items) (auto simp: upsert_risk_lookup fun_eq_iff map_add_def split: option.splits)
  show "distinct (map sr_Mrn (ScoredRiskFactors_Add items (Some nus)))"
    unfolding ScoredRiskFactors_Add_def option.simps
    by (rule foldl_inv [where I = "\<lambda>xs. distinct (map sr_Mrn xs)"]) (use assms upsert_risk_distinct in auto)
  show "take (length items) (map sr_Mrn (ScoredRiskFactors_Add items (Some nus))) = map sr_Mrn items"
    unfolding ScoredRiskFactors_Add_def option.simps
  proof (rule foldl_inv [where I = "\<lambda>xs. take (length items) (map sr_Mrn xs) = map sr_Mrn items"])
    fix s :: "ScoredRiskFactor list" and nu
    assume s: "take (length items) (map sr_Mrn s) = map sr_Mrn items"
    then have "length (take (length items) s) = length items" by (metis length_map take_map)
    then have "length items \<le> length s" by simp
    then have "take (length items) (map sr_Mrn (upsert_risk nu s)) = take (length items) (map sr_Mrn s)"
      using upsert_risk_keys [of s nu] by (metis min.absorb1 take_take)
    with s show "take (length items) (map sr_Mrn (upsert_risk nu s)) = map sr_Mrn items" by simp
  qed simp
qed

subsection \<open>Statistics and the blast radius\<close>

record ScoreStats =
  st_Assets :: "64 word"
  st_Critical :: "64 word"
  st_High :: "64 word"
  st_Medium :: "64 word"
  st_Low :: "64 word"
  st_None :: "64 word"
  st_Pass :: "64 word"
  st_Unknown :: "64 word"
  st_Error :: "64 word"
  st_Disabled :: "64 word"
  st_Snoozed :: "64 word"
  st_FirstFailureTime :: "64 word"
  st_OldestScanTime :: "64 word"
  st_NewestScanTime :: "64 word"
  st_Exceptions :: "64 word"

definition ScoreStats_Add :: "ScoreStats \<Rightarrow> ScoreStats \<Rightarrow> ScoreStats" where
  "ScoreStats_Add s other = \<lparr>
     st_Assets = st_Assets s + st_Assets other,
     st_Critical = st_Critical s + st_Critical other,
     st_High = st_High s + st_High other,
     st_Medium = st_Medium s + st_Medium other,
     st_Low = st_Low s + st_Low other,
     st_None = st_None s + st_None other,
     st_Pass = st_Pass s + st_Pass other,
     st_Unknown = st_Unknown s + st_Unknown other,
     st_Error = st_Error s + st_Error other,
     st_Disabled = st_Disabled s + st_Disabled other,
     st_Snoozed = st_Snoozed s + st_Snoozed other,
     st_FirstFailureTime = st_FirstFailureTime s + st_FirstFailureTime other,
     st_OldestScanTime = st_OldestScanTime s + st_OldestScanTime other,
     st_NewestScanTime = st_NewestScanTime s + st_NewestScanTime other,
     st_Exceptions = st_Exceptions s + st_Exceptions other\<rparr>"

lemma ScoreStats_Add_commuting: "commuting ScoreStats_Add"
  by (rule commutingI) (simp add: ScoreStats_Add_def algebra_simps)

type_synonym BlastRadiusIndicator = string

definition BlastRadius_Small :: BlastRadiusIndicator where "BlastRadius_Small = ''s''"
definition BlastRadius_Medium :: BlastRadiusIndicator where "BlastRadius_Medium = ''m''"
definition BlastRadius_Large :: BlastRadiusIndicator where "BlastRadius_Large = ''l''"

record BlastRadiusConfig =
  br_SmallPct :: rat
  br_MediumPct :: rat
  br_MediumMinCnt :: rat
  br_LargeMinCnt :: rat

definition DefaultBlastRadiusConfig :: BlastRadiusConfig where
  "DefaultBlastRadiusConfig = \<lparr>br_SmallPct = fl32 (5 / 100), br_MediumPct = fl32 (20 / 100),
     br_MediumMinCnt = 10, br_LargeMinCnt = 25\<rparr>"

text \<open>
  \<open>weight / totalWeight < pct\<close>: a division by (positive) zero is an infinity of the sign of
  \<open>weight\<close>, or NaN, which compares false.
\<close>

definition rel_below :: "rat \<Rightarrow> rat \<Rightarrow> rat \<Rightarrow> bool" where
  "rel_below totalWeight weight pct \<longleftrightarrow>
     (if totalWeight = 0 then weight < 0 else fl32 (weight / totalWeight) < pct)"

definition Indicator :: "BlastRadiusConfig \<Rightarrow> rat \<Rightarrow> rat \<Rightarrow> BlastRadiusIndicator" where
  "Indicator b totalWeight weight =
     (if rel_below totalWeight weight (br_SmallPct b) \<or> weight < br_MediumMinCnt b then BlastRadius_Small
      else if rel_below totalWeight weight (br_MediumPct b) \<or> weight < br_LargeMinCnt b then BlastRadius_Medium
      else BlastRadius_Large)"

definition radius_rank :: "BlastRadiusIndicator \<Rightarrow> nat" where
  "radius_rank i = (if i = BlastRadius_Small then 0 else if i = BlastRadius_Medium then 1 else 2)"

lemma rel_below_mono: "0 \<le> tw \<Longrightarrow> w \<le> w' \<Longrightarrow> rel_below tw w' p \<Longrightarrow> rel_below tw w p"
  using fl_mono [of "w / tw" "w' / tw" 24] by (auto simp: rel_below_def divide_right_mono)

text \<open>A larger affected weight never has a smaller blast radius, whatever the thresholds, and
  with the default thresholds fewer than 10 assets are always small and fewer than 25 never large.\<close>

theorem Indicator_monotone:
  assumes "0 \<le> totalWeight" and "weight \<le> weight'"
  shows "radius_rank (Indicator b totalWeight weight) \<le> radius_rank (Indicator b totalWeight weight')
    \<and> (weight < 10 \<longrightarrow> Indicator DefaultBlastRadiusConfig totalWeight weight = BlastRadius_Small)
    \<and> (weight < 25 \<longrightarrow> Indicator DefaultBlastRadiusConfig totalWeight weight \<noteq> BlastRadius_Large)"
  using rel_below_mono [OF assms] assms(2)
  by (auto simp: Indicator_def radius_rank_def DefaultBlastRadiusConfig_def BlastRadius_Small_def
      BlastRadius_Medium_def BlastRadius_Large_def)

subsection \<open>Concrete runs\<close>

definition exposed :: ScoredRiskInfo where
  "exposed = (\<lparr>rf_Mrn = ''exposed'', rf_Scope = ASSET, rf_DeprecatedV11Magnitude = 0,
     rf_DeprecatedV11IsAbsolute = False, rf_Magnitude = Some \<lparr>rm_Value = 1 / 2, rm_IsToxic = False\<rparr>,
     rf_Software = [], rf_Resources = []\<rparr>,
     \<lparr>sr_Mrn = ''exposed'', sr_Risk = 1 / 2, sr_IsToxic = False, sr_IsDetected = False\<rparr>)"

definition end_of_life :: ScoredRiskInfo where
  "end_of_life = (\<lparr>rf_Mrn = ''eol'', rf_Scope = ASSET, rf_DeprecatedV11Magnitude = 0,
     rf_DeprecatedV11IsAbsolute = False, rf_Magnitude = Some \<lparr>rm_Value = 1, rm_IsToxic = True\<rparr>,
     rf_Software = [], rf_Resources = []\<rparr>,
     \<lparr>sr_Mrn = ''eol'', sr_Risk = 1, sr_IsToxic = True, sr_IsDetected = True\<rparr>)"

definition risk_arch :: go_arch where
  "risk_arch = \<lparr>ga_fused = True, ga_to_u32 = (\<lambda>_. 0), ga_to_int = (\<lambda>_. 0)\<rparr>"

lemma example_cmp [simp]:
  "cmpScoredRiskFactors exposed end_of_life = - 1" "cmpScoredRiskFactors end_of_life exposed = 1"
  by (simp_all add: cmpScoredRiskFactors_def cmpRiskFactors_def exposed_def end_of_life_def
      mag_IsToxic_def mag_Value_def)

lemma example_fields:
  "magnitude_ok (fst exposed)" "magnitude_ok (fst end_of_life)"
  "\<not> mag_IsToxic (rf_Magnitude (fst exposed))" "mag_IsToxic (rf_Magnitude (fst end_of_life))"
  "mag_Value (rf_Magnitude (fst end_of_life)) = 1" "sr_IsDetected (snd end_of_life)"
  by (simp_all add: magnitude_ok_def exposed_def end_of_life_def mag_IsToxic_def mag_Value_def)

theorem mergeSorted_stable_sort_witness:
  "mergeSorted cmpScoredRiskFactors [[end_of_life], [exposed]] = [exposed, end_of_life]"
  using mergeSorted_stable_sort [of "[[end_of_life], [exposed]]"] by (simp add: SortScoredRiskInfo_def)

theorem AdjustRiskScore_partition_independent_witness:
  "AdjustRiskScore risk_arch (Some zeroScore) [[end_of_life], [exposed]] =
   AdjustRiskScore risk_arch (Some zeroScore) [[exposed, end_of_life]]"
  by (rule AdjustRiskScore_partition_independent) (simp_all add: SortScoredRiskInfo_def)

lemma example_some: "\<exists>s'. AdjustRiskScore a (Some s) risks = Some s'"
  by (simp add: AdjustRiskScore_def)

theorem AdjustRiskScore_range_witness:
  "\<exists>s'. AdjustRiskScore risk_arch (Some (zeroScore\<lparr>sc_Value := 40\<rparr>)) [[exposed]] = Some s'
     \<and> sc_RiskScore s' \<le> 100 \<and> 40 \<le> sc_RiskScore s'"
proof -
  obtain s' where s: "AdjustRiskScore risk_arch (Some (zeroScore\<lparr>sc_Value := 40\<rparr>)) [[exposed]] = Some s'"
    using example_some by blast
  then show ?thesis using AdjustRiskScore_range [OF _ _ _ _ s] example_fields
    by (simp add: SortScoredRiskInfo_def)
qed

theorem AdjustRiskScore_full_toxic_witness:
  "\<exists>s'. AdjustRiskScore risk_arch (Some (zeroScore\<lparr>sc_Value := 40\<rparr>)) [[end_of_life], [exposed]] = Some s'
     \<and> sc_RiskScore s' = 0"
proof -
  obtain s' where s: "AdjustRiskScore risk_arch (Some (zeroScore\<lparr>sc_Value := 40\<rparr>)) [[end_of_life], [exposed]] = Some s'"
    using example_some by blast
  then show ?thesis using AdjustRiskScore_full_toxic [OF _ _ _ _ _ _ _ s, of end_of_life] example_fields
    by (simp add: SortScoredRiskInfo_def zeroScore_def)
qed

theorem ScoredRiskFactors_Add_overlay_witness:
  "map sr_Mrn (ScoredRiskFactors_Add [snd exposed] (Some [snd end_of_life])) = [''exposed'', ''eol''] \<and>
   distinct (map sr_Mrn (ScoredRiskFactors_Add [snd exposed] (Some [snd end_of_life])))"
  using ScoredRiskFactors_Add_overlay [of "[snd exposed]" "[snd end_of_life]"]
  by (simp add: ScoredRiskFactors_Add_def exposed_def end_of_life_def)

theorem Indicator_monotone_witness:
  "radius_rank (Indicator DefaultBlastRadiusConfig 100 9) \<le> radius_rank (Indicator DefaultBlastRadiusConfig 100 30)"
  by (rule Indicator_monotone [of 100 9 30 DefaultBlastRadiusConfig, THEN conjunct1]) simp_all

end
