(* ===== verification/Query_Results.thy ===== *)
theory Query_Results
  imports Score_Calculators
begin

text \<open>
  The results that travel through the execution graph (\<open>policy/executor/internal/nodes.go\<close>, first
  part): when one result may replace another.

  \<open>llx.RawResult\<close>, \<open>llx.RawData\<close>, \<open>llx.Result\<close> and \<open>llx.CodeBundle\<close> belong to the query engine, a package
  outside this repository; the records below have the fields the code reads. Raw values are a type
  parameter \<open>'v\<close>. The engine's functions on them (\<open>Score\<close>, \<open>IsSuccess\<close>, \<open>Result\<close>, the cast, the message of
  deduplicated errors) and the platform are the fields of \<open>env\<close>, a parameter of every definition that
  calls one. A nil pointer is \<open>None\<close>; a run-time panic is a value of \<open>panic\<close>, the left of a sum.
\<close>

datatype panic =
    NilDereference
  | DivideByZero
  | CloseOfClosedChannel
  | InvalidScoreReport
  | InvalidDatapointReport
  | InvalidReportingJob
  | InvalidQueryId
  | NoQrId
  | WorkIDNotFound string
  | DuplicateWorkID string
  | StackOverflow
  | Bug string

type_synonym 'a go = "panic + 'a"

definition go_bind :: "'a go \<Rightarrow> ('a \<Rightarrow> 'b go) \<Rightarrow> 'b go" where
  "go_bind m f = (case m of Inl e \<Rightarrow> Inl e | Inr x \<Rightarrow> f x)"

lemma go_bind_simps [simp]: "go_bind (Inl e) f = Inl e" "go_bind (Inr x) f = f x"
  by (simp_all add: go_bind_def)

lemma go_bind_Inr_iff: "go_bind m f = Inr y \<longleftrightarrow> (\<exists>x. m = Inr x \<and> f x = Inr y)"
  by (cases m) auto

fun go_deref :: "'a option \<Rightarrow> 'a go" where
  "go_deref None = Inl NilDereference"
| "go_deref (Some x) = Inr x"

subsection \<open>Errors and results\<close>

datatype go_error =
    GoError string
  | WrappedError string go_error
  | QueryRunError (originCodeID: string) go_error

primrec error_message :: "go_error \<Rightarrow> string" where
  "error_message (GoError m) = m"
| "error_message (WrappedError m e) = m"
| "error_message (QueryRunError c e) = error_message e"

text \<open>\<open>errors.As\<close> walks the chain of wrapped errors to the first \<open>queryRunError\<close>.\<close>

primrec as_queryRunError :: "go_error \<Rightarrow> string option" where
  "as_queryRunError (GoError m) = None"
| "as_queryRunError (WrappedError m e) = as_queryRunError e"
| "as_queryRunError (QueryRunError c e) = Some c"

record 'v RawData =
  rd_Type :: string
  rd_Value :: "'v option"
  rd_Error :: "go_error option"

record 'v RawResult =
  rr_CodeID :: string
  rr_Data :: "'v RawData option"

record Primitive =
  pr_Type :: string
  pr_Value :: string

record Result =
  re_CodeID :: string
  re_Error :: string
  re_Data :: "Primitive option"

record CodeBundle =
  cb_Id :: string
  cb_MinMondooVersion :: string
  cb_Checksums :: "(nat, string) gomap"
  cb_Entrypoints :: "nat list"
  cb_Datapoints :: "nat list"

record 'v env =
  env_arch :: go_arch
  env_exp :: "rat \<Rightarrow> rat"
  env_Score :: "'v RawData \<Rightarrow> int option"
  env_IsSuccess :: "'v RawData \<Rightarrow> bool \<times> bool"
  env_Result :: "'v RawResult \<Rightarrow> Result"
  env_CastResult :: "'v RawResult \<Rightarrow> string \<Rightarrow> 'v RawResult"
  env_Deduplicate :: "go_error list \<Rightarrow> string"
  env_Nil :: string
  env_Unset :: string

definition isNilResult :: "'v RawResult option \<Rightarrow> bool" where
  "isNilResult res = (case Option.bind res rr_Data of None \<Rightarrow> False
     | Some d \<Rightarrow> rd_Value d = None \<and> rd_Error d = None)"

definition hasRealData :: "'v RawResult option \<Rightarrow> bool" where
  "hasRealData res = (case Option.bind res rr_Data of None \<Rightarrow> False
     | Some d \<Rightarrow> rd_Value d \<noteq> None \<or> rd_Error d \<noteq> None)"

definition isPlaceholderResult :: "'v RawResult option \<Rightarrow> bool" where
  "isPlaceholderResult res = (case Option.bind res rr_Data of None \<Rightarrow> False
     | Some d \<Rightarrow> (case rd_Error d of None \<Rightarrow> False | Some e \<Rightarrow> as_queryRunError e \<noteq> None))"

definition placeholderOrigin :: "'v RawResult option \<Rightarrow> string" where
  "placeholderOrigin res = (case Option.bind res rr_Data of None \<Rightarrow> ''''
     | Some d \<Rightarrow> (case rd_Error d of None \<Rightarrow> ''''
        | Some e \<Rightarrow> (case as_queryRunError e of None \<Rightarrow> '''' | Some c \<Rightarrow> c)))"

definition resultUpgrades :: "'v RawResult option \<Rightarrow> 'v RawResult option \<Rightarrow> bool" where
  "resultUpgrades prev nxt =
     (if isPlaceholderResult nxt then False
      else if isPlaceholderResult prev then True
      else isNilResult prev \<and> hasRealData nxt)"

definition isNilResultProto :: "'v env \<Rightarrow> Result option \<Rightarrow> bool" where
  "isNilResultProto E res = (case res of None \<Rightarrow> False | Some r \<Rightarrow>
     if re_Error r \<noteq> '''' then False
     else (case re_Data r of None \<Rightarrow> True | Some d \<Rightarrow> pr_Type d = env_Nil E))"

subsection \<open>Ranks\<close>

text \<open>
  What the upgrade rules amount to: results have ranks, a placeholder 0, an evaluated nil 1, an executed
  result with a value or an error 2, and a result replaces exactly those of a lower rank.
\<close>

definition result_rank :: "'v RawResult \<Rightarrow> nat" where
  "result_rank r = (if isPlaceholderResult (Some r) then 0 else if isNilResult (Some r) then 1 else 2)"

definition with_data :: "'v RawResult \<Rightarrow> bool" where
  "with_data r \<longleftrightarrow> rr_Data r \<noteq> None"

lemma result_rank_cases:
  assumes "with_data r"
  shows "result_rank r = 0 \<longleftrightarrow> isPlaceholderResult (Some r)"
    and "result_rank r = 1 \<longleftrightarrow> isNilResult (Some r)"
    and "result_rank r = 2 \<longleftrightarrow> hasRealData (Some r) \<and> \<not> isPlaceholderResult (Some r)"
  using assms by (auto simp: with_data_def result_rank_def isPlaceholderResult_def isNilResult_def
      hasRealData_def split: option.splits)

lemma resultUpgrades_rank:
  assumes "with_data p" and "with_data n"
  shows "resultUpgrades (Some p) (Some n) \<longleftrightarrow> result_rank p < result_rank n"
  using result_rank_cases [OF assms(1)] result_rank_cases [OF assms(2)]
  by (auto simp: resultUpgrades_def result_rank_def split: if_splits)

text \<open>What is kept of a sequence of results: the first of the highest rank.\<close>

definition keep_result :: "'v RawResult option \<Rightarrow> 'v RawResult \<Rightarrow> 'v RawResult option" where
  "keep_result prev r = (case prev of None \<Rightarrow> Some r
     | Some p \<Rightarrow> if resultUpgrades (Some p) (Some r) then Some r else Some p)"

definition best_result :: "'v RawResult list \<Rightarrow> 'v RawResult option" where
  "best_result rs = foldl keep_result None rs"

lemma best_result_snoc: "best_result (rs @ [r]) = keep_result (best_result rs) r"
  by (simp add: best_result_def)

lemma best_result_spec:
  assumes "\<forall>r \<in> set rs. with_data r" and "rs \<noteq> []"
  obtains us r vs where "rs = us @ r # vs" "best_result rs = Some r"
    "\<forall>u \<in> set us. result_rank u < result_rank r" "\<forall>v \<in> set vs. result_rank v \<le> result_rank r"
proof -
  have "\<exists>us r vs. rs = us @ r # vs \<and> best_result rs = Some r
    \<and> (\<forall>u \<in> set us. result_rank u < result_rank r) \<and> (\<forall>v \<in> set vs. result_rank v \<le> result_rank r)"
    using assms
  proof (induction rs rule: rev_induct)
    case (snoc x xs)
    show ?case
    proof (cases "xs = []")
      case True
      then have "best_result (xs @ [x]) = Some x" by (simp add: best_result_def keep_result_def)
      with True show ?thesis by fastforce
    next
      case False
      with snoc obtain us r vs where IH: "xs = us @ r # vs" "best_result xs = Some r"
        "\<forall>u \<in> set us. result_rank u < result_rank r" "\<forall>v \<in> set vs. result_rank v \<le> result_rank r" by auto
      have up: "resultUpgrades (Some r) (Some x) \<longleftrightarrow> result_rank r < result_rank x"
        using snoc.prems IH(1) by (intro resultUpgrades_rank) auto
      show ?thesis
      proof (cases "result_rank r < result_rank x")
        case True
        then have "best_result (xs @ [x]) = Some x"
          by (simp add: best_result_snoc IH(2) keep_result_def up)
        moreover have "\<forall>u \<in> set xs. result_rank u < result_rank x"
          using True IH by auto
        ultimately show ?thesis by (intro exI [of _ xs] exI [of _ x] exI [of _ "[]"]) simp
      next
        case 2: False
        then have "best_result (xs @ [x]) = Some r"
          by (simp add: best_result_snoc IH(2) keep_result_def up)
        with IH 2 show ?thesis by (intro exI [of _ us] exI [of _ r] exI [of _ "vs @ [x]"]) auto
      qed
    qed
  qed simp
  with that show ?thesis by blast
qed

text \<open>
  The interface of the three consumers of results (datapoints, scored queries, reporting jobs): each
  has a slot it reads and offers results to, and keeps of all offers the first of the highest rank.
\<close>

locale result_slot =
  fixes slot :: "'s \<Rightarrow> 'v RawResult option"
    and offer :: "'s \<Rightarrow> 'v RawResult \<Rightarrow> 's"
    and ok :: "'s \<Rightarrow> bool"
  assumes slot_offer: "ok s \<Longrightarrow> slot (offer s r) = keep_result (slot s) r"
    and ok_offer: "ok s \<Longrightarrow> ok (offer s r)"
begin

lemma ok_offers: "ok s \<Longrightarrow> ok (foldl offer s rs)"
  by (induction rs arbitrary: s) (auto intro: ok_offer)

lemma slot_offers: "ok s \<Longrightarrow> slot (foldl offer s rs) = foldl keep_result (slot s) rs"
  by (induction rs arbitrary: s) (auto simp: slot_offer ok_offer)

lemma slot_best: "ok s \<Longrightarrow> slot s = None \<Longrightarrow> slot (foldl offer s rs) = best_result rs"
  by (simp add: slot_offers best_result_def)

text \<open>The rank of what is kept does not depend on the order of the offers.\<close>

lemma rank_perm:
  assumes "ok s" and "slot s = None" and "mset rs = mset rs'" and "\<forall>r \<in> set rs. with_data r"
  shows "map_option result_rank (slot (foldl offer s rs)) = map_option result_rank (slot (foldl offer s rs'))"
proof (cases "rs = []")
  case False
  have set: "set rs = set rs'" using assms(3) by (metis set_mset_mset)
  then have "rs' \<noteq> []" "\<forall>r \<in> set rs'. with_data r" using False assms(4) by auto
  from best_result_spec [OF this(2,1)] obtain us' r' vs' where r': "rs' = us' @ r' # vs'" "best_result rs' = Some r'"
    "\<forall>u \<in> set us'. result_rank u < result_rank r'" "\<forall>v \<in> set vs'. result_rank v \<le> result_rank r'" by metis
  from best_result_spec [OF assms(4) False] obtain us r vs where r: "rs = us @ r # vs" "best_result rs = Some r"
    "\<forall>u \<in> set us. result_rank u < result_rank r" "\<forall>v \<in> set vs. result_rank v \<le> result_rank r" by metis
  have "\<forall>x \<in> set rs. result_rank x \<le> result_rank r" "\<forall>x \<in> set rs'. result_rank x \<le> result_rank r'"
    using r r' by (auto simp: less_imp_le)
  moreover have "r \<in> set rs" "r' \<in> set rs'" using r(1) r'(1) by auto
  ultimately have "result_rank r = result_rank r'" using set by (metis le_antisym)
  with r(2) r'(2) show ?thesis using assms(1,2) by (simp add: slot_best)
qed (use assms(3) in simp)

end

end
