(* ===== verification/Wait_Group.thy ===== *)
theory Wait_Group
  imports Query_Results
begin

text \<open>
  The wait group of the query executors (\<open>policy/executor/internal/waitgroup.go\<close>). Every operation holds
  the lock from its first to its last line, so it is one step and a run is a sequence of steps.
  \<open>Wait\<close> has no effect on the state: \<open>may_return\<close> is the condition it sleeps on, and the operations
  return whether they broadcast. The locale \<open>work_tracker\<close> is what the executors rely on.
\<close>

record WaitGroup =
  wg_activeWorkIDs :: "(string, unit) gomap"
  wg_seenWorkIDs :: "(string, unit) gomap"
  wg_decommissioned :: bool
  wg_numAdded :: int
  wg_numDone :: int

definition NewWaitGroup :: WaitGroup where
  "NewWaitGroup = \<lparr>wg_activeWorkIDs = [], wg_seenWorkIDs = [], wg_decommissioned = False,
     wg_numAdded = 0, wg_numDone = 0\<rparr>"

text \<open>The state after the call and whether waiting goroutines are woken.\<close>

definition WaitGroup_Done :: "WaitGroup \<Rightarrow> string \<Rightarrow> (WaitGroup \<times> bool) go" where
  "WaitGroup_Done w workID =
     (if \<not> has_key (wg_seenWorkIDs w) workID then Inl (WorkIDNotFound workID)
      else let w = (if has_key (wg_activeWorkIDs w) workID
                    then w\<lparr>wg_activeWorkIDs := map_del workID (wg_activeWorkIDs w), wg_numDone := wg_numDone w + 1\<rparr>
                    else w)
        in Inr (w, length (wg_activeWorkIDs w) = 0))"

definition WaitGroup_Add :: "WaitGroup \<Rightarrow> string \<Rightarrow> WaitGroup go" where
  "WaitGroup_Add w workID =
     (if has_key (wg_activeWorkIDs w) workID then Inl (DuplicateWorkID workID)
      else Inr (w\<lparr>wg_seenWorkIDs := map_put workID () (wg_seenWorkIDs w),
                  wg_activeWorkIDs := map_put workID () (wg_activeWorkIDs w),
                  wg_numAdded := wg_numAdded w + 1\<rparr>))"

definition may_return :: "WaitGroup \<Rightarrow> bool" where
  "may_return w \<longleftrightarrow> wg_decommissioned w \<or> length (wg_activeWorkIDs w) = 0"

definition Decommission :: "WaitGroup \<Rightarrow> WaitGroup \<times> string list" where
  "Decommission w = (w\<lparr>wg_decommissioned := True\<rparr>, map fst (wg_activeWorkIDs w))"

definition IsDecommissioned :: "WaitGroup \<Rightarrow> bool" where
  "IsDecommissioned w = wg_decommissioned w"

record WaitGroupStats =
  NumAdded :: int
  NumActive :: int
  NumDone :: int

definition Stats :: "WaitGroup \<Rightarrow> WaitGroupStats" where
  "Stats w = \<lparr>NumAdded = wg_numAdded w, NumActive = int (length (wg_activeWorkIDs w)), NumDone = wg_numDone w\<rparr>"

subsection \<open>Runs\<close>

text \<open>The steps of the goroutines that share a wait group, in the order they take the lock.\<close>

inductive wg_step :: "WaitGroup \<Rightarrow> bool \<Rightarrow> WaitGroup \<Rightarrow> bool" where
  Done: "WaitGroup_Done w i = Inr (w', woken) \<Longrightarrow> wg_step w woken w'"
| Add: "WaitGroup_Add w i = Inr w' \<Longrightarrow> wg_step w False w'"
| Decommission: "Decommission w = (w', ids) \<Longrightarrow> wg_step w True w'"

inductive wg_reachable :: "WaitGroup \<Rightarrow> bool" where
  init: "wg_reachable NewWaitGroup"
| step: "wg_reachable w \<Longrightarrow> wg_step w woken w' \<Longrightarrow> wg_reachable w'"

inductive_cases wg_stepE: "wg_step w woken w'"

definition wg_inv :: "WaitGroup \<Rightarrow> bool" where
  "wg_inv w \<longleftrightarrow> map_ok (wg_activeWorkIDs w) \<and> fst ` set (wg_activeWorkIDs w) \<subseteq> fst ` set (wg_seenWorkIDs w)
     \<and> wg_numAdded w = wg_numDone w + int (length (wg_activeWorkIDs w))"

lemma wg_inv_Done:
  assumes "wg_inv w" and "WaitGroup_Done w i = Inr (w', woken)"
  shows "wg_inv w'"
proof (cases "has_key (wg_activeWorkIDs w) i")
  case True
  with assms(2) have w': "w' = w\<lparr>wg_activeWorkIDs := map_del i (wg_activeWorkIDs w), wg_numDone := wg_numDone w + 1\<rparr>"
    by (simp add: WaitGroup_Done_def Let_def split: if_splits)
  note inv = assms(1) [unfolded wg_inv_def]
  from inv have l: "length (map_del i (wg_activeWorkIDs w)) + 1 = length (wg_activeWorkIDs w)"
    by (intro length_map_del True) blast
  have "fst ` set (map_del i (wg_activeWorkIDs w)) \<subseteq> fst ` set (wg_activeWorkIDs w)" by (auto simp: AList.delete_eq)
  with inv have "fst ` set (map_del i (wg_activeWorkIDs w)) \<subseteq> fst ` set (wg_seenWorkIDs w)" by (blast intro: subset_trans)
  moreover have "map_ok (map_del i (wg_activeWorkIDs w))" using inv by simp
  moreover have "wg_numAdded w = wg_numDone w + 1 + int (length (map_del i (wg_activeWorkIDs w)))" using inv l by linarith
  moreover have "wg_activeWorkIDs w' = map_del i (wg_activeWorkIDs w)" "wg_seenWorkIDs w' = wg_seenWorkIDs w"
    "wg_numAdded w' = wg_numAdded w" "wg_numDone w' = wg_numDone w + 1" by (simp_all add: w')
  ultimately show ?thesis by (simp only: wg_inv_def)
next
  case False
  with assms have "w' = w" by (simp add: WaitGroup_Done_def split: if_splits)
  with assms(1) show ?thesis by simp
qed

lemma wg_inv_Add:
  assumes "wg_inv w" and "WaitGroup_Add w i = Inr w'"
  shows "wg_inv w'"
proof -
  from assms(2) have new: "\<not> has_key (wg_activeWorkIDs w) i"
    and w': "w' = w\<lparr>wg_seenWorkIDs := map_put i () (wg_seenWorkIDs w),
      wg_activeWorkIDs := map_put i () (wg_activeWorkIDs w), wg_numAdded := wg_numAdded w + 1\<rparr>"
    by (simp_all add: WaitGroup_Add_def split: if_splits)
  from assms(1) length_map_put_new [OF new] show ?thesis
    unfolding w' wg_inv_def by (simp add: keys_put insert_mono) blast
qed

lemma wg_inv_step:
  assumes "wg_step w woken w'" and "wg_inv w"
  shows "wg_inv w'"
  using assms
proof (cases rule: wg_step.cases)
  case (Decommission ids)
  then have "wg_activeWorkIDs w' = wg_activeWorkIDs w" "wg_seenWorkIDs w' = wg_seenWorkIDs w"
    "wg_numAdded w' = wg_numAdded w" "wg_numDone w' = wg_numDone w" by (auto simp: Decommission_def)
  with assms(2) show ?thesis by (simp only: wg_inv_def)
next
  case (Done i)
  from wg_inv_Done [OF assms(2) this] show ?thesis .
next
  case (Add i)
  from wg_inv_Add [OF assms(2) this(2)] show ?thesis .
qed

lemma wg_reachable_inv: "wg_reachable w \<Longrightarrow> wg_inv w"
proof (induction rule: wg_reachable.induct)
  case init
  show ?case by (simp add: NewWaitGroup_def wg_inv_def)
qed (rule wg_inv_step)

text \<open>C31: in every state a run can reach the counters agree: what was added is what is done and what
  is still active, active work was once added, and a work id is active once at most.\<close>

theorem wait_group_counts:
  assumes "wg_reachable w"
  shows "NumAdded (Stats w) = NumDone (Stats w) + NumActive (Stats w)
    \<and> fst ` set (wg_activeWorkIDs w) \<subseteq> fst ` set (wg_seenWorkIDs w) \<and> map_ok (wg_activeWorkIDs w)"
  using wg_reachable_inv [OF assms] by (simp add: wg_inv_def Stats_def)

text \<open>No wake-up is lost: a step after which \<open>Wait\<close> may return while it could not before is one that
  broadcasts.\<close>

theorem wait_group_no_lost_wakeup:
  assumes "wg_step w woken w'" and "\<not> may_return w" and "may_return w'"
  shows "woken"
  using assms
  by (auto elim!: wg_stepE simp: may_return_def WaitGroup_Done_def WaitGroup_Add_def Let_def split: if_splits)

subsection \<open>What the executors rely on\<close>

locale work_tracker =
  fixes add :: "'w \<Rightarrow> string \<Rightarrow> 'w go"
    and finish :: "'w \<Rightarrow> string \<Rightarrow> 'w go"
    and active :: "'w \<Rightarrow> string set"
    and seen :: "'w \<Rightarrow> string set"
  assumes add_new: "i \<notin> active w \<Longrightarrow> \<exists>w'. add w i = Inr w' \<and> active w' = insert i (active w) \<and> seen w' = insert i (seen w)"
    and add_active: "i \<in> active w \<Longrightarrow> add w i = Inl (DuplicateWorkID i)"
    and finish_seen: "i \<in> seen w \<Longrightarrow> \<exists>w'. finish w i = Inr w' \<and> active w' = active w - {i} \<and> seen w' = seen w"
    and finish_unseen: "i \<notin> seen w \<Longrightarrow> finish w i = Inl (WorkIDNotFound i)"
begin

fun finish_all :: "'w \<Rightarrow> string list \<Rightarrow> 'w go" where
  "finish_all w [] = Inr w"
| "finish_all w (i # is) = go_bind (finish w i) (\<lambda>w. finish_all w is)"

lemma finish_all_ok:
  assumes "set is \<subseteq> seen w"
  shows "\<exists>w'. finish_all w is = Inr w' \<and> active w' = active w - set is \<and> seen w' = seen w"
  using assms
proof (induction "is" arbitrary: w)
  case (Cons i js)
  from finish_seen [of i w] Cons.prems obtain w1 where
    1: "finish w i = Inr w1" "active w1 = active w - {i}" "seen w1 = seen w" by auto
  from Cons.IH [of w1] Cons.prems 1 show ?case by auto
qed simp

lemma finish_twice: "i \<in> seen w \<Longrightarrow> finish w i = Inr w' \<Longrightarrow> \<exists>w''. finish w' i = Inr w'' \<and> active w'' = active w'"
  using finish_seen [of i w] finish_seen [of i w'] by auto

end

definition active_ids :: "WaitGroup \<Rightarrow> string set" where
  "active_ids w = fst ` set (wg_activeWorkIDs w)"

definition seen_ids :: "WaitGroup \<Rightarrow> string set" where
  "seen_ids w = fst ` set (wg_seenWorkIDs w)"

definition finish_work :: "WaitGroup \<Rightarrow> string \<Rightarrow> WaitGroup go" where
  "finish_work w i = map_sum id fst (WaitGroup_Done w i)"

interpretation wg: work_tracker WaitGroup_Add finish_work active_ids seen_ids
proof
  fix i w
  show "\<exists>w'. WaitGroup_Add w i = Inr w' \<and> active_ids w' = insert i (active_ids w) \<and> seen_ids w' = insert i (seen_ids w)"
    if "i \<notin> active_ids w"
    using that by (simp add: active_ids_def seen_ids_def WaitGroup_Add_def keys_put)
  show "WaitGroup_Add w i = Inl (DuplicateWorkID i)" if "i \<in> active_ids w"
    using that by (simp add: active_ids_def WaitGroup_Add_def)
  show "\<exists>w'. finish_work w i = Inr w' \<and> active_ids w' = active_ids w - {i} \<and> seen_ids w' = seen_ids w"
    if "i \<in> seen_ids w"
    using that by (auto simp: active_ids_def seen_ids_def finish_work_def WaitGroup_Done_def Let_def AList.delete_eq)
  show "finish_work w i = Inl (WorkIDNotFound i)" if "i \<notin> seen_ids w"
    using that by (simp add: seen_ids_def finish_work_def WaitGroup_Done_def)
qed

theorem wait_group_counts_witness:
  "\<exists>w. WaitGroup_Add NewWaitGroup ''a'' = Inr w \<and> NumAdded (Stats w) = NumDone (Stats w) + NumActive (Stats w)
    \<and> NumActive (Stats w) = 1"
proof -
  obtain w where w: "WaitGroup_Add NewWaitGroup ''a'' = Inr w" "NumActive (Stats w) = 1"
    by (simp add: WaitGroup_Add_def NewWaitGroup_def Stats_def)
  then have "wg_reachable w" by (blast intro: wg_reachable.intros wg_step.intros)
  from wait_group_counts [OF this] w show ?thesis by blast
qed

theorem wait_group_no_lost_wakeup_witness:
  "\<exists>w w' woken. WaitGroup_Add NewWaitGroup ''a'' = Inr w \<and> WaitGroup_Done w ''a'' = Inr (w', woken) \<and> woken"
proof -
  obtain w where w: "WaitGroup_Add NewWaitGroup ''a'' = Inr w" "\<not> may_return w"
    by (simp add: WaitGroup_Add_def NewWaitGroup_def may_return_def)
  then obtain w' woken where d: "WaitGroup_Done w ''a'' = Inr (w', woken)" "may_return w'"
    by (auto simp: WaitGroup_Add_def NewWaitGroup_def WaitGroup_Done_def may_return_def)
  from wait_group_no_lost_wakeup [OF wg_step.Done [OF d(1)] w(2) d(2)] w d show ?thesis by blast
qed

end
