(* ===== verification/Graph_Nodes.thy ===== *)
theory Graph_Nodes
  imports Query_Results
begin

text \<open>
  The nodes of the execution graph (\<open>policy/executor/internal/nodes.go\<close>): one record per node type and
  its \<open>initialize\<close>, \<open>consume\<close> and \<open>recalculate\<close>. A \<open>recalculate\<close> returns the new data, the effects
  outside the graph (queries put on the run queue, collectors called, progress, the done channel
  closed) and the envelope for the out edges, if any. Go maps are association lists in their iteration
  order. \<open>propsLock\<close> only orders accesses from two goroutines and has no counterpart; \<open>dumpDatapoints\<close>
  only logs and is left out.
\<close>

type_synonym NodeID = string

record 'v envelope =
  ev_res :: "'v RawResult option"
  ev_score :: "Score option"

definition empty_envelope :: "'v envelope" where
  "empty_envelope = \<lparr>ev_res = None, ev_score = None\<rparr>"

datatype 'v effect =
    RunQuery CodeBundle
  | SinkData string "'v RawResult list"
  | SinkScore string "Score list"
  | OnProgress int int
  | CloseDone

type_synonym ('v, 's) recalculated = "('s \<times> 'v effect list \<times> 'v envelope option) go"

subsection \<open>Execution queries\<close>

record executionQueryProperty =
  ep_name :: string
  ep_checksum :: string
  ep_value :: "Result option"
  ep_resolved :: bool
  ep_resolvedNil :: bool
  ep_resolvedPlaceholder :: bool

datatype queryRunState = notReadyQueryNotReady | readyQueryRunState | executedQueryRunState

record ExecutionQueryNodeData =
  eq_queryID :: string
  eq_codeBundle :: CodeBundle
  eq_invalidated :: bool
  eq_requiredProperties :: "(string, executionQueryProperty) gomap"
  eq_runState :: queryRunState

definition updateRunState :: "ExecutionQueryNodeData \<Rightarrow> ExecutionQueryNodeData" where
  "updateRunState d =
     (if eq_runState d = readyQueryRunState \<or> eq_runState d = executedQueryRunState then d
      else if list_all (\<lambda>(k, p). ep_resolved p) (eq_requiredProperties d)
        then d\<lparr>eq_runState := readyQueryRunState\<rparr>
        else d\<lparr>eq_runState := notReadyQueryNotReady\<rparr>)"

definition ExecutionQuery_initialize :: "ExecutionQueryNodeData \<Rightarrow> ExecutionQueryNodeData" where
  "ExecutionQuery_initialize nd =
     (let d = updateRunState nd
      in if eq_runState d = readyQueryRunState then d\<lparr>eq_invalidated := True\<rparr> else d)"

definition consume_property ::
  "'v env \<Rightarrow> 'v RawResult \<Rightarrow> executionQueryProperty \<Rightarrow> executionQueryProperty" where
  "consume_property E res p =
     (if ep_checksum p \<noteq> rr_CodeID res then p
      else let v = env_Result E res in
        if \<not> ep_resolved p then
          p\<lparr>ep_value := Some v, ep_resolved := True, ep_resolvedNil := isNilResultProto E (Some v),
            ep_resolvedPlaceholder := isPlaceholderResult (Some res)\<rparr>
        else if ep_resolvedPlaceholder p \<and> \<not> isPlaceholderResult (Some res) then
          p\<lparr>ep_value := Some v, ep_resolvedPlaceholder := False,
            ep_resolvedNil := isNilResultProto E (Some v)\<rparr>
        else if ep_resolvedNil p \<and> hasRealData (Some res) \<and> \<not> isPlaceholderResult (Some res) then
          p\<lparr>ep_value := Some v, ep_resolvedNil := False\<rparr>
        else p)"

definition ExecutionQuery_consume ::
  "'v env \<Rightarrow> NodeID \<Rightarrow> 'v envelope \<Rightarrow> ExecutionQueryNodeData \<Rightarrow> ExecutionQueryNodeData" where
  "ExecutionQuery_consume E from data nd =
     (if eq_requiredProperties nd = [] then
        (if eq_runState nd \<noteq> executedQueryRunState then nd\<lparr>eq_invalidated := True\<rparr> else nd)
      else case ev_res data of None \<Rightarrow> nd | Some res \<Rightarrow>
        nd\<lparr>eq_requiredProperties :=
             map (\<lambda>(k, p). (k, consume_property E res p)) (eq_requiredProperties nd),
           eq_invalidated := eq_invalidated nd \<or> (eq_runState nd \<noteq> executedQueryRunState
             \<and> list_ex (\<lambda>(k, p). ep_checksum p = rr_CodeID res \<and> \<not> ep_resolved p)
                 (eq_requiredProperties nd))\<rparr>)"

definition ExecutionQuery_recalculate ::
  "ExecutionQueryNodeData \<Rightarrow> ('v, ExecutionQueryNodeData) recalculated" where
  "ExecutionQuery_recalculate nd =
     (if \<not> eq_invalidated nd then Inr (nd, [], None)
      else let d = (updateRunState nd)\<lparr>eq_invalidated := False\<rparr> in
        if eq_runState d = readyQueryRunState
        then Inr (d\<lparr>eq_runState := executedQueryRunState\<rparr>, [RunQuery (eq_codeBundle d)], Some empty_envelope)
        else Inr (d, [], Some empty_envelope))"

text \<open>What the execution manager reads when it takes the query from the run queue.\<close>

definition materializeProps :: "ExecutionQueryNodeData \<Rightarrow> (string, Result option) gomap" where
  "materializeProps nd =
     foldl (\<lambda>props (k, p). map_put (ep_name p) (ep_value p) props) [] (eq_requiredProperties nd)"

subsection \<open>Datapoints\<close>

record 'v DatapointNodeData =
  dn_expectedType :: "string option"
  dn_isReported :: bool
  dn_invalidated :: bool
  dn_res :: "'v RawResult option"

definition Datapoint_set :: "'v env \<Rightarrow> 'v RawResult \<Rightarrow> 'v DatapointNodeData \<Rightarrow> 'v DatapointNodeData go" where
  "Datapoint_set E res nd =
     (let d = nd\<lparr>dn_invalidated := True, dn_isReported := True\<rparr> in
      case dn_expectedType nd of
        None \<Rightarrow> Inr (d\<lparr>dn_res := Some res\<rparr>)
      | Some t \<Rightarrow>
          if t = env_Unset E then Inr (d\<lparr>dn_res := Some res\<rparr>)
          else go_bind (go_deref (rr_Data res)) (\<lambda>rd.
            if rd_Type rd = env_Nil E \<or> rd_Type rd = t \<or> rd_Error rd \<noteq> None
            then Inr (d\<lparr>dn_res := Some res\<rparr>)
            else Inr (d\<lparr>dn_res := Some (env_CastResult E res t)\<rparr>)))"

definition Datapoint_initialize :: "'v env \<Rightarrow> 'v DatapointNodeData \<Rightarrow> 'v DatapointNodeData go" where
  "Datapoint_initialize E nd = (case dn_res nd of None \<Rightarrow> Inr nd | Some res \<Rightarrow> Datapoint_set E res nd)"

definition Datapoint_consume ::
  "'v env \<Rightarrow> NodeID \<Rightarrow> 'v envelope \<Rightarrow> 'v DatapointNodeData \<Rightarrow> 'v DatapointNodeData go" where
  "Datapoint_consume E from data nd =
     (case ev_res data of None \<Rightarrow> Inr nd | Some res \<Rightarrow>
        if dn_isReported nd then
          (if resultUpgrades (dn_res nd) (Some res) then Datapoint_set E res nd else Inr nd)
        else Datapoint_set E res nd)"

definition Datapoint_recalculate :: "'v DatapointNodeData \<Rightarrow> ('v, 'v DatapointNodeData) recalculated" where
  "Datapoint_recalculate nd =
     (if \<not> dn_invalidated nd then Inr (nd, [], None)
      else Inr (nd\<lparr>dn_invalidated := False\<rparr>, [], Some \<lparr>ev_res = dn_res nd, ev_score = None\<rparr>))"

subsection \<open>Reporting queries\<close>

record 'v DataResult =
  dr_checksum :: string
  dr_resolved :: bool
  dr_value :: "'v RawResult option"

record 'v ReportingQueryNodeData =
  rq_queryID :: string
  rq_results :: "(string, 'v DataResult) gomap"
  rq_invalidated :: bool

definition ReportingQuery_initialize :: "'v ReportingQueryNodeData \<Rightarrow> 'v ReportingQueryNodeData" where
  "ReportingQuery_initialize nd = nd\<lparr>rq_invalidated :=
     rq_results nd = [] \<or> list_ex (\<lambda>(k, dr). dr_resolved dr) (rq_results nd)\<rparr>"

definition ReportingQuery_consume ::
  "NodeID \<Rightarrow> 'v envelope \<Rightarrow> 'v ReportingQueryNodeData \<Rightarrow> 'v ReportingQueryNodeData" where
  "ReportingQuery_consume from data nd =
     (case map_get (rq_results nd) from of None \<Rightarrow> nd | Some dr \<Rightarrow>
        if dr_resolved dr then
          (if resultUpgrades (dr_value dr) (ev_res data)
           then nd\<lparr>rq_results := map_put from (dr\<lparr>dr_value := ev_res data\<rparr>) (rq_results nd),
                   rq_invalidated := True\<rparr>
           else nd)
        else nd\<lparr>rq_results := map_put from (dr\<lparr>dr_value := ev_res data, dr_resolved := True\<rparr>) (rq_results nd),
                rq_invalidated := True\<rparr>)"

text \<open>The accumulators of the loop in \<open>score\<close>; \<open>scoreFound\<close> is only tested for nil.\<close>

record score_acc =
  sa_allSkipped :: bool
  sa_allTrue :: bool
  sa_foundError :: bool
  sa_assetVanished :: bool
  sa_scoreFound :: bool
  sa_scoreValue :: int
  sa_err :: "go_error list"
  sa_foreignErr :: "go_error list"

definition zeroAcc :: score_acc where
  "zeroAcc = \<lparr>sa_allSkipped = True, sa_allTrue = True, sa_foundError = False, sa_assetVanished = False,
     sa_scoreFound = False, sa_scoreValue = 0, sa_err = [], sa_foreignErr = []\<rparr>"

definition HasPrefix :: "string \<Rightarrow> string \<Rightarrow> bool" where
  "HasPrefix s p \<longleftrightarrow> take (length p) s = p"

definition score_error :: "string \<Rightarrow> 'v RawResult \<Rightarrow> go_error \<Rightarrow> score_acc \<Rightarrow> score_acc" where
  "score_error queryID cur e acc =
     (let acc = (if HasPrefix (error_message e) ''could not find resource''
                 then acc\<lparr>sa_assetVanished := True\<rparr>
                 else acc\<lparr>sa_allSkipped := False, sa_foundError := True\<rparr>);
          origin = placeholderOrigin (Some cur)
      in if origin \<noteq> '''' \<and> origin \<noteq> queryID then acc\<lparr>sa_foreignErr := sa_foreignErr acc @ [e]\<rparr>
         else acc\<lparr>sa_err := sa_err acc @ [e]\<rparr>)"

definition score_step :: "'v env \<Rightarrow> string \<Rightarrow> 'v RawResult \<Rightarrow> 'v RawData \<Rightarrow> score_acc \<Rightarrow> score_acc" where
  "score_step E queryID cur d acc =
     (case rd_Error d of
        Some e \<Rightarrow> score_error queryID cur e acc
      | None \<Rightarrow>
          if rd_Value d = None then acc
          else case env_Score E d of
            Some v \<Rightarrow> acc\<lparr>sa_scoreFound := True, sa_scoreValue := v, sa_allSkipped := False\<rparr>
          | None \<Rightarrow>
              let (success, valid) = env_IsSuccess E d in
              acc\<lparr>sa_allTrue := sa_allTrue acc \<and> \<not> (\<not> success \<and> valid),
                  sa_allSkipped := sa_allSkipped acc \<and> \<not> valid\<rparr>)"

text \<open>\<open>None\<close>: a result is missing, \<open>allFound\<close> is false and the loop breaks.\<close>

fun score_loop :: "'v env \<Rightarrow> string \<Rightarrow> (string \<times> 'v DataResult) list \<Rightarrow> score_acc \<Rightarrow> score_acc option go" where
  "score_loop E queryID [] acc = Inr (Some acc)"
| "score_loop E queryID ((k, dr) # drs) acc =
     (case dr_value dr of
        None \<Rightarrow> Inr None
      | Some cur \<Rightarrow> go_bind (go_deref (rr_Data cur)) (\<lambda>d.
          score_loop E queryID drs (score_step E queryID cur d acc)))"

definition sorted_results :: "(string, 'v DataResult) gomap \<Rightarrow> (string \<times> 'v DataResult) list" where
  "sorted_results m = map (\<lambda>k. (k, the (map_get m k))) (sort (map fst m))"

definition query_score :: "string \<Rightarrow> u32 \<Rightarrow> u32 \<Rightarrow> string \<Rightarrow> Score" where
  "query_score queryID typ value msg = zeroScore\<lparr>sc_QrId := queryID, sc_Type := typ, sc_Value := value,
     sc_ScoreCompletion := 100, sc_Weight := 1, sc_Message := msg\<rparr>"

definition score_of_acc :: "'v env \<Rightarrow> string \<Rightarrow> score_acc \<Rightarrow> Score" where
  "score_of_acc E queryID acc =
     (let err = (if sa_err acc = [] then sa_foreignErr acc else sa_err acc) in
      if sa_assetVanished acc then query_score queryID ScoreType_Unscored 0 (env_Deduplicate E err)
      else if sa_foundError acc then query_score queryID ScoreType_Error 0 (env_Deduplicate E err)
      else if sa_allSkipped acc then query_score queryID ScoreType_Skip 0 ''''
      else query_score queryID ScoreType_Result
        (word_of_int (if sa_scoreFound acc then sa_scoreValue acc
                      else if sa_allTrue acc then 100 else 0)) '''')"

definition ReportingQuery_score :: "'v env \<Rightarrow> 'v ReportingQueryNodeData \<Rightarrow> Score option go" where
  "ReportingQuery_score E nd =
     go_bind (score_loop E (rq_queryID nd) (sorted_results (rq_results nd)) zeroAcc)
       (\<lambda>acc. Inr (map_option (score_of_acc E (rq_queryID nd)) acc))"

definition score_envelope :: "Score \<Rightarrow> 'v envelope" where
  "score_envelope s = \<lparr>ev_res = None, ev_score = Some s\<rparr>"

definition ReportingQuery_recalculate ::
  "'v env \<Rightarrow> 'v ReportingQueryNodeData \<Rightarrow> ('v, 'v ReportingQueryNodeData) recalculated" where
  "ReportingQuery_recalculate E nd =
     (if \<not> rq_invalidated nd then Inr (nd, [], None)
      else let nd = nd\<lparr>rq_invalidated := False\<rparr> in
        go_bind (ReportingQuery_score E nd) (\<lambda>s. Inr (nd, [], map_option score_envelope s)))"

subsection \<open>Static reporting jobs\<close>

record StaticReportingJobNodeData =
  sj_score :: Score
  sj_sent :: bool

definition StaticReportingJob_consume ::
  "NodeID \<Rightarrow> 'v envelope \<Rightarrow> StaticReportingJobNodeData \<Rightarrow> StaticReportingJobNodeData" where
  "StaticReportingJob_consume from data nd = nd"

definition StaticReportingJob_recalculate ::
  "StaticReportingJobNodeData \<Rightarrow> ('v, StaticReportingJobNodeData) recalculated" where
  "StaticReportingJob_recalculate nd =
     (if sj_sent nd then Inr (nd, [], None)
      else Inr (nd\<lparr>sj_sent := True\<rparr>, [], Some (score_envelope (sj_score nd))))"

end
