(* ===== verification/Graph_Jobs.thy ===== *)
theory Graph_Jobs
  imports Graph_Nodes
begin

text \<open>
  The remaining nodes of \<open>policy/executor/internal/nodes.go\<close>: reporting jobs, which roll up scores with
  the calculators of \<open>Score_Calculators\<close>, the collection finisher and the two collectors, and the
  sum of all node types with the methods of the interface \<open>nodeData\<close>.
\<close>

subsection \<open>Reporting jobs\<close>

datatype ReportingJob_Type =
    RJ_UNSPECIFIED | RJ_CHECK | RJ_DATA_QUERY | RJ_CONTROL | RJ_POLICY | RJ_FRAMEWORK
  | RJ_RISK_FACTOR | RJ_CHECK_AND_DATA_QUERY | RJ_EXECUTION_QUERY

record reportingJobResult =
  rr_impact :: "Impact option"
  rr_score :: "Score option"

record 'v ReportingJobNodeData =
  rj_queryID :: string
  rj_scoringSystem :: ScoringSystem
  rj_forwardScore :: bool
  rj_rjType :: ReportingJob_Type
  rj_childScores :: "(NodeID, reportingJobResult) gomap"
  rj_datapoints :: "(NodeID, 'v RawResult option) gomap"
  rj_completed :: bool
  rj_invalidated :: bool
  rj_featureFlagFailErrors :: bool

definition ReportingJob_initialize :: "'v ReportingJobNodeData \<Rightarrow> 'v ReportingJobNodeData" where
  "ReportingJob_initialize nd = nd\<lparr>rj_invalidated := True\<rparr>"

definition control_score :: "Score \<Rightarrow> Score" where
  "control_score s =
     (if sc_Type s = ScoreType_Result then s
      else if sc_Type s = ScoreType_Error then s\<lparr>sc_Type := ScoreType_Result, sc_Value := 0\<rparr>
      else if sc_Type s = ScoreType_Skip \<or> sc_Type s = ScoreType_Unscored
        then s\<lparr>sc_Type := ScoreType_Result, sc_Value := 100\<rparr>
      else s)"

definition consume_score :: "NodeID \<Rightarrow> Score \<Rightarrow> 'v ReportingJobNodeData \<Rightarrow> 'v ReportingJobNodeData go" where
  "consume_score from s nd =
     (case map_get (rj_childScores nd) from of
        None \<Rightarrow> Inl InvalidScoreReport
      | Some rjRes \<Rightarrow>
          let score = (if rj_rjType nd = RJ_CONTROL then control_score s else s) in
          Inr (nd\<lparr>rj_childScores := map_put from (rjRes\<lparr>rr_score := Some score\<rparr>) (rj_childScores nd),
                  rj_invalidated := True\<rparr>))"

definition consume_datapoint ::
  "NodeID \<Rightarrow> 'v RawResult \<Rightarrow> 'v ReportingJobNodeData \<Rightarrow> 'v ReportingJobNodeData go" where
  "consume_datapoint from res nd =
     (case map_get (rj_datapoints nd) from of
        None \<Rightarrow> Inl InvalidDatapointReport
      | Some dp \<Rightarrow>
          if dp \<noteq> None \<and> isPlaceholderResult (Some res) \<and> \<not> isPlaceholderResult dp then Inr nd
          else if dp \<noteq> None \<and> \<not> resultUpgrades dp (Some res) then Inr nd
          else Inr (nd\<lparr>rj_completed := False, rj_datapoints := map_put from (Some res) (rj_datapoints nd),
                       rj_invalidated := True\<rparr>))"

definition ReportingJob_consume ::
  "NodeID \<Rightarrow> 'v envelope \<Rightarrow> 'v ReportingJobNodeData \<Rightarrow> 'v ReportingJobNodeData go" where
  "ReportingJob_consume from data nd =
     go_bind (case ev_score data of None \<Rightarrow> Inr nd | Some s \<Rightarrow> consume_score from s nd)
       (\<lambda>nd. case ev_res data of None \<Rightarrow> Inr nd | Some res \<Rightarrow> consume_datapoint from res nd)"

definition finishedDatapoints :: "'v ReportingJobNodeData \<Rightarrow> nat" where
  "finishedDatapoints nd = length (filter (\<lambda>(k, res). res \<noteq> None) (rj_datapoints nd))"

definition impact_Scoring :: "Impact option \<Rightarrow> ScoringSystem" where
  "impact_Scoring i = (case i of None \<Rightarrow> SCORING_UNSPECIFIED | Some im \<Rightarrow> im_Scoring im)"

text \<open>A job that forwards the score of its only child.\<close>

definition forward_child :: "'v ReportingJobNodeData \<Rightarrow> reportingJobResult \<Rightarrow> Score" where
  "forward_child nd c =
     (case rr_score c of
        None \<Rightarrow> zeroScore\<lparr>sc_QrId := rj_queryID nd, sc_Type := ScoreType_Result\<rparr>
      | Some cs \<Rightarrow>
          let s = cs\<lparr>sc_QrId := rj_queryID nd\<rparr> in
          if impact_Scoring (rr_impact c) = DISABLED then s\<lparr>sc_Type := ScoreType_Disabled\<rparr>
          else if sc_Type s = ScoreType_Result then
            (case Option.bind (rr_impact c) im_Value of
               None \<Rightarrow> s
             | Some iv \<Rightarrow> s\<lparr>sc_Value := impact_floor iv (sc_Value s)\<rparr>)
          else s)"

definition add_datapoints :: "'v ReportingJobNodeData \<Rightarrow> Score \<Rightarrow> Score" where
  "add_datapoints nd s =
     (let totalDatapoints = length (rj_datapoints nd) in
      if 0 < totalDatapoints then
        s\<lparr>sc_DataTotal := of_nat totalDatapoints,
          sc_DataCompletion := of_nat ((100 * finishedDatapoints nd) div totalDatapoints)\<rparr>
      else s)"

definition forward_score :: "'v ReportingJobNodeData \<Rightarrow> Score go" where
  "forward_score nd =
     (case rj_childScores nd of
        [] \<Rightarrow> Inr (add_datapoints nd (zeroScore\<lparr>sc_QrId := rj_queryID nd,
                 sc_Type := ScoreType_Unscored, sc_ScoreCompletion := 100\<rparr>))
      | [(k, c)] \<Rightarrow> Inr (add_datapoints nd (forward_child nd c))
      | _ \<Rightarrow> Inl InvalidReportingJob)"

text \<open>The loop over the child scores: \<open>None\<close> when one has not reported.\<close>

fun add_children ::
  "('c \<Rightarrow> Score \<Rightarrow> Impact option \<Rightarrow> 'c) \<Rightarrow> 'c \<Rightarrow> (NodeID \<times> reportingJobResult) list \<Rightarrow> 'c option" where
  "add_children add c [] = Some c"
| "add_children add c ((k, rjRes) # rs) =
     (case rr_score rjRes of None \<Rightarrow> None
      | Some s \<Rightarrow> add_children add (AddSpecdScore add c s True (rr_impact rjRes)) rs)"

definition ReportingJob_score ::
  "'v env \<Rightarrow> 'v ReportingJobNodeData \<Rightarrow> (calculator_error + Score option) go" where
  "ReportingJob_score E nd =
     (if rj_forwardScore nd then go_bind (forward_score nd) (\<lambda>s. Inr (Inr (Some s)))
      else case NewScoreCalculator (rj_scoringSystem nd) (rj_featureFlagFailErrors nd) of
        Inl err \<Rightarrow> Inr (Inl err)
      | Inr calculator \<Rightarrow>
          (case add_children (calculator_Add (env_arch E)) calculator (rj_childScores nd) of
             None \<Rightarrow> Inr (Inr None)
           | Some c \<Rightarrow>
               (case calculator_Calculate (env_exp E) (env_arch E)
                   (AddDataScore (calculator_Add (env_arch E)) c
                     (length (rj_datapoints nd)) (finishedDatapoints nd)) of
                  None \<Rightarrow> Inl DivideByZero
                | Some s \<Rightarrow> Inr (Inr (Some (s\<lparr>sc_QrId := rj_queryID nd\<rparr>))))))"

text \<open>The message of the constructor's error, with \<open>strconv.Itoa\<close> of the \<open>int32\<close> code.\<close>

fun calculator_error_message :: "calculator_error \<Rightarrow> string" where
  "calculator_error_message (UnknownSystem code) =
     ''don't know how to create scoring calculator for system '' @
     (if sint code < 0 then ''-'' @ itoa (nat (- sint code)) else itoa (nat (sint code)))"

definition ReportingJob_recalculate ::
  "'v env \<Rightarrow> 'v ReportingJobNodeData \<Rightarrow> ('v, 'v ReportingJobNodeData) recalculated" where
  "ReportingJob_recalculate E nd =
     (if rj_queryID nd = '''' then Inl InvalidQueryId
      else if \<not> rj_invalidated nd \<or> rj_completed nd then Inr (nd, [], None)
      else let nd = nd\<lparr>rj_invalidated := False\<rparr> in
        go_bind (ReportingJob_score E nd) (\<lambda>r. case r of
          Inl err \<Rightarrow> Inr (nd\<lparr>rj_completed := True\<rparr>, [],
            Some (score_envelope (query_score (rj_queryID nd) ScoreType_Error 0 (calculator_error_message err))))
        | Inr None \<Rightarrow> Inr (nd, [], None)
        | Inr (Some s) \<Rightarrow>
            if Completion s = 100 then Inr (nd\<lparr>rj_completed := True\<rparr>, [], Some (score_envelope s))
            else Inr (nd, [], None)))"

subsection \<open>Collection finisher and collectors\<close>

record CollectionFinisherNodeData =
  cf_totalDatapoints :: nat
  cf_remainingDatapoints :: "(NodeID, unit) gomap"
  cf_invalidated :: bool

definition CollectionFinisher_initialize :: "CollectionFinisherNodeData \<Rightarrow> CollectionFinisherNodeData" where
  "CollectionFinisher_initialize nd =
     (if cf_remainingDatapoints nd = [] then nd\<lparr>cf_invalidated := True\<rparr> else nd)"

definition CollectionFinisher_consume ::
  "NodeID \<Rightarrow> 'v envelope \<Rightarrow> CollectionFinisherNodeData \<Rightarrow> CollectionFinisherNodeData" where
  "CollectionFinisher_consume from data nd =
     (if cf_remainingDatapoints nd = [] then nd
      else nd\<lparr>cf_remainingDatapoints := map_del from (cf_remainingDatapoints nd), cf_invalidated := True\<rparr>)"

definition CollectionFinisher_recalculate ::
  "CollectionFinisherNodeData \<Rightarrow> ('v, CollectionFinisherNodeData) recalculated" where
  "CollectionFinisher_recalculate nd =
     (if \<not> cf_invalidated nd then Inr (nd, [], None)
      else Inr (nd\<lparr>cf_invalidated := False\<rparr>,
        OnProgress (int (cf_totalDatapoints nd) - int (length (cf_remainingDatapoints nd)))
          (int (cf_totalDatapoints nd))
        # (if cf_remainingDatapoints nd = [] then [CloseDone] else []), None))"

text \<open>A collector node hands what is unreported to each of its collectors, named by strings here.\<close>

record 'v DatapointCollectorNodeData =
  dc_collectors :: "string list"
  dc_unreported :: "(string, 'v RawResult) gomap"
  dc_invalidated :: bool

definition DatapointCollector_initialize :: "'v DatapointCollectorNodeData \<Rightarrow> 'v DatapointCollectorNodeData" where
  "DatapointCollector_initialize nd =
     (if 0 < length (dc_unreported nd) then nd\<lparr>dc_invalidated := True\<rparr> else nd)"

definition DatapointCollector_consume ::
  "NodeID \<Rightarrow> 'v envelope \<Rightarrow> 'v DatapointCollectorNodeData \<Rightarrow> 'v DatapointCollectorNodeData" where
  "DatapointCollector_consume from data nd =
     (case ev_res data of None \<Rightarrow> nd | Some res \<Rightarrow>
        nd\<lparr>dc_unreported := map_put (rr_CodeID res) res (dc_unreported nd), dc_invalidated := True\<rparr>)"

definition DatapointCollector_recalculate ::
  "'v DatapointCollectorNodeData \<Rightarrow> ('v, 'v DatapointCollectorNodeData) recalculated" where
  "DatapointCollector_recalculate nd =
     (if \<not> dc_invalidated nd then Inr (nd, [], None)
      else Inr (nd\<lparr>dc_invalidated := False, dc_unreported := []\<rparr>,
        map (\<lambda>dc. SinkData dc (map snd (dc_unreported nd))) (dc_collectors nd), None))"

record ScoreCollectorNodeData =
  sco_collectors :: "string list"
  sco_unreported :: "(NodeID, Score) gomap"
  sco_invalidated :: bool

definition ScoreCollector_initialize :: "ScoreCollectorNodeData \<Rightarrow> ScoreCollectorNodeData" where
  "ScoreCollector_initialize nd =
     (if 0 < length (sco_unreported nd) then nd\<lparr>sco_invalidated := True\<rparr> else nd)"

definition ScoreCollector_consume ::
  "NodeID \<Rightarrow> 'v envelope \<Rightarrow> ScoreCollectorNodeData \<Rightarrow> ScoreCollectorNodeData go" where
  "ScoreCollector_consume from data nd =
     (case ev_score data of None \<Rightarrow> Inr nd | Some s \<Rightarrow>
        if sc_QrId s = '''' then Inl NoQrId
        else Inr (nd\<lparr>sco_unreported := map_put from s (sco_unreported nd), sco_invalidated := True\<rparr>))"

definition ScoreCollector_recalculate ::
  "ScoreCollectorNodeData \<Rightarrow> ('v, ScoreCollectorNodeData) recalculated" where
  "ScoreCollector_recalculate nd =
     (if \<not> sco_invalidated nd then Inr (nd, [], None)
      else Inr (nd\<lparr>sco_invalidated := False, sco_unreported := []\<rparr>,
        map (\<lambda>sc. SinkScore sc (map snd (sco_unreported nd))) (sco_collectors nd), None))"

subsection \<open>The interface of the nodes\<close>

datatype 'v nodeData =
    ExecutionQuery ExecutionQueryNodeData
  | Datapoint "'v DatapointNodeData"
  | ReportingQuery "'v ReportingQueryNodeData"
  | StaticReportingJob StaticReportingJobNodeData
  | ReportingJob "'v ReportingJobNodeData"
  | CollectionFinisher CollectionFinisherNodeData
  | DatapointCollector "'v DatapointCollectorNodeData"
  | ScoreCollector ScoreCollectorNodeData

fun node_initialize :: "'v env \<Rightarrow> 'v nodeData \<Rightarrow> 'v nodeData go" where
  "node_initialize E (ExecutionQuery d) = Inr (ExecutionQuery (ExecutionQuery_initialize d))"
| "node_initialize E (Datapoint d) = map_sum id Datapoint (Datapoint_initialize E d)"
| "node_initialize E (ReportingQuery d) = Inr (ReportingQuery (ReportingQuery_initialize d))"
| "node_initialize E (StaticReportingJob d) = Inr (StaticReportingJob d)"
| "node_initialize E (ReportingJob d) = Inr (ReportingJob (ReportingJob_initialize d))"
| "node_initialize E (CollectionFinisher d) = Inr (CollectionFinisher (CollectionFinisher_initialize d))"
| "node_initialize E (DatapointCollector d) = Inr (DatapointCollector (DatapointCollector_initialize d))"
| "node_initialize E (ScoreCollector d) = Inr (ScoreCollector (ScoreCollector_initialize d))"

fun node_consume :: "'v env \<Rightarrow> NodeID \<Rightarrow> 'v envelope \<Rightarrow> 'v nodeData \<Rightarrow> 'v nodeData go" where
  "node_consume E from ev (ExecutionQuery d) = Inr (ExecutionQuery (ExecutionQuery_consume E from ev d))"
| "node_consume E from ev (Datapoint d) = map_sum id Datapoint (Datapoint_consume E from ev d)"
| "node_consume E from ev (ReportingQuery d) = Inr (ReportingQuery (ReportingQuery_consume from ev d))"
| "node_consume E from ev (StaticReportingJob d) =
     Inr (StaticReportingJob (StaticReportingJob_consume from ev d))"
| "node_consume E from ev (ReportingJob d) = map_sum id ReportingJob (ReportingJob_consume from ev d)"
| "node_consume E from ev (CollectionFinisher d) =
     Inr (CollectionFinisher (CollectionFinisher_consume from ev d))"
| "node_consume E from ev (DatapointCollector d) =
     Inr (DatapointCollector (DatapointCollector_consume from ev d))"
| "node_consume E from ev (ScoreCollector d) = map_sum id ScoreCollector (ScoreCollector_consume from ev d)"

definition lift_recalc :: "('s \<Rightarrow> 'v nodeData) \<Rightarrow> ('v, 's) recalculated \<Rightarrow> ('v, 'v nodeData) recalculated" where
  "lift_recalc C r = map_sum id (\<lambda>(d, effs, ev). (C d, effs, ev)) r"

fun node_recalculate :: "'v env \<Rightarrow> 'v nodeData \<Rightarrow> ('v, 'v nodeData) recalculated" where
  "node_recalculate E (ExecutionQuery d) = lift_recalc ExecutionQuery (ExecutionQuery_recalculate d)"
| "node_recalculate E (Datapoint d) = lift_recalc Datapoint (Datapoint_recalculate d)"
| "node_recalculate E (ReportingQuery d) = lift_recalc ReportingQuery (ReportingQuery_recalculate E d)"
| "node_recalculate E (StaticReportingJob d) = lift_recalc StaticReportingJob (StaticReportingJob_recalculate d)"
| "node_recalculate E (ReportingJob d) = lift_recalc ReportingJob (ReportingJob_recalculate E d)"
| "node_recalculate E (CollectionFinisher d) = lift_recalc CollectionFinisher (CollectionFinisher_recalculate d)"
| "node_recalculate E (DatapointCollector d) = lift_recalc DatapointCollector (DatapointCollector_recalculate d)"
| "node_recalculate E (ScoreCollector d) = lift_recalc ScoreCollector (ScoreCollector_recalculate d)"

end
