(* ===== verification/Priority_Queue.thy ===== *)
theory Priority_Queue
  imports Graph_Jobs
begin

text \<open>
  The priority queue of the executor (\<open>policy/executor/internal/queue.go\<close>): the order of the items, and the sift operations
  of \<open>container/heap\<close> that \<open>Push\<close> and \<open>Pop\<close> run on the slice. The locale \<open>priority_queue\<close> is what a client relies on; its
  interpretation \<open>heap\<close> discharges it for the slice.
\<close>

record Item =
  it_receiver :: NodeID
  it_sender :: NodeID
  it_priority :: int

definition Less :: "Item list \<Rightarrow> nat \<Rightarrow> nat \<Rightarrow> bool" where
  "Less pq i j \<longleftrightarrow> it_priority (pq ! i) > it_priority (pq ! j)"

definition Swap :: "Item list \<Rightarrow> nat \<Rightarrow> nat \<Rightarrow> Item list" where
  "Swap pq i j = pq[i := pq ! j, j := pq ! i]"

text \<open>Go's \<open>(j - 1) / 2\<close> truncates toward zero, which is what natural numbers do at 0.\<close>

function heap_up :: "Item list \<Rightarrow> nat \<Rightarrow> Item list" where
  "heap_up h j = (let i = (j - 1) div 2 in
     if i = j \<or> \<not> Less h j i then h else heap_up (Swap h i j) i)"
  by pat_completeness auto
termination by (relation "measure snd") auto

function heap_down :: "Item list \<Rightarrow> nat \<Rightarrow> nat \<Rightarrow> Item list" where
  "heap_down h i n = (let j1 = 2 * i + 1 in
     if n \<le> j1 then h
     else let j = (if j1 + 1 < n \<and> Less h (j1 + 1) j1 then j1 + 1 else j1) in
       if \<not> Less h j i then h else heap_down (Swap h i j) j n)"
  by pat_completeness auto
termination by (relation "measure (\<lambda>(h, i, n). n - i)") auto

declare heap_up.simps [simp del] heap_down.simps [simp del]

definition heap_Push :: "Item list \<Rightarrow> Item \<Rightarrow> Item list" where
  "heap_Push pq x = (let h = pq @ [x] in heap_up h (length h - 1))"

definition heap_Pop :: "Item list \<Rightarrow> (Item \<times> Item list) option" where
  "heap_Pop h = (if h = [] then None
     else let n = length h - 1; h = heap_down (Swap h 0 n) 0 n in Some (last h, butlast h))"

text \<open>The heap property of the first \<open>n\<close> items: no item before its parent in priority.\<close>

definition parent :: "nat \<Rightarrow> nat" where
  "parent c = (c - 1) div 2"

definition heap_ok :: "Item list \<Rightarrow> nat \<Rightarrow> bool" where
  "heap_ok h n \<longleftrightarrow> (\<forall>c. 0 < c \<and> c < n \<longrightarrow> it_priority (h ! c) \<le> it_priority (h ! parent c))"

lemma parent_iff: "0 < c \<Longrightarrow> parent c = i \<longleftrightarrow> c = 2 * i + 1 \<or> c = 2 * i + 2"
  unfolding parent_def by presburger

lemma parent_less: "0 < c \<Longrightarrow> parent c < c"
  unfolding parent_def by simp

lemma length_Swap [simp]: "length (Swap h i j) = length h"
  by (simp add: Swap_def)

lemma mset_Swap: "i < length h \<Longrightarrow> j < length h \<Longrightarrow> mset (Swap h i j) = mset h"
  by (simp add: Swap_def mset_swap)

lemma nth_Swap: "i < length h \<Longrightarrow> j < length h \<Longrightarrow> c < length h \<Longrightarrow>
   Swap h i j ! c = (if c = j then h ! i else if c = i then h ! j else h ! c)"
  by (simp add: Swap_def nth_list_update)

subsection \<open>Sifting up\<close>

definition up_inv :: "Item list \<Rightarrow> nat \<Rightarrow> bool" where
  "up_inv h j \<longleftrightarrow>
     (\<forall>c. 0 < c \<and> c < length h \<and> c \<noteq> j \<longrightarrow> it_priority (h ! c) \<le> it_priority (h ! parent c))
   \<and> (\<forall>c. 0 < c \<and> c < length h \<and> parent c = j \<and> 0 < j \<longrightarrow> it_priority (h ! c) \<le> it_priority (h ! parent j))"

lemma up_inv_Swap:
  assumes "up_inv h j" and "j < length h" and "0 < j" and "it_priority (h ! parent j) < it_priority (h ! j)"
  shows "up_inv (Swap h (parent j) j) (parent j)"
proof -
  let ?i = "parent j"
  have i: "?i < j" using assms(3) by (rule parent_less)
  with assms(2) have il: "?i < length h" by simp
  note sw = nth_Swap [OF il assms(2)]
  have inv1: "0 < c \<Longrightarrow> c < length h \<Longrightarrow> c \<noteq> j \<Longrightarrow> it_priority (h ! c) \<le> it_priority (h ! parent c)" for c
    using assms(1) by (simp add: up_inv_def)
  have inv2: "0 < c \<Longrightarrow> c < length h \<Longrightarrow> parent c = j \<Longrightarrow> it_priority (h ! c) \<le> it_priority (h ! ?i)" for c
    using assms(1,3) by (simp add: up_inv_def)
  show ?thesis unfolding up_inv_def length_Swap
  proof (intro conjI allI impI; elim conjE)
    fix c assume c: "0 < c" "c < length h" "c \<noteq> ?i"
    have p: "parent c < length h" using parent_less [OF c(1)] c(2) by simp
    show "it_priority (Swap h ?i j ! c) \<le> it_priority (Swap h ?i j ! parent c)"
      using c inv1 [OF c(1,2)] inv2 [OF c(1,2)] assms(4) parent_less [OF c(1)]
      by (auto simp: sw p)
  next
    fix c assume c: "0 < c" "c < length h" "parent c = ?i" "0 < ?i"
    have p: "parent ?i < ?i" using c(4) by (rule parent_less)
    have gp: "it_priority (h ! ?i) \<le> it_priority (h ! parent ?i)" using inv1 [of ?i] c(4) il i by simp
    show "it_priority (Swap h ?i j ! c) \<le> it_priority (Swap h ?i j ! parent ?i)"
      using c p i il gp inv1 [OF c(1,2)] parent_less [OF c(1)] by (auto simp: sw)
  qed
qed

lemma heap_up_ok:
  assumes "j < length h" and "up_inv h j"
  shows "heap_ok (heap_up h j) (length h) \<and> mset (heap_up h j) = mset h"
  using assms
proof (induction h j rule: heap_up.induct)
  case (1 h j)
  let ?i = "parent j"
  show ?case
  proof (cases "?i = j \<or> \<not> Less h j ?i")
    case True
    then have "heap_up h j = h" by (subst heap_up.simps) (simp add: parent_def)
    moreover have "heap_ok h (length h)"
      using 1(3) True parent_less [of j] by (auto simp: heap_ok_def up_inv_def Less_def)
    ultimately show ?thesis by simp
  next
    case False
    then have j: "0 < j" by (auto simp: parent_def)
    then have i: "?i < length h" using parent_less [OF j] 1(2) by simp
    have "heap_up h j = heap_up (Swap h ?i j) ?i"
      using False by (subst heap_up.simps) (simp add: parent_def Let_def)
    moreover have "up_inv (Swap h ?i j) ?i"
      using False by (intro up_inv_Swap 1 j) (simp add: Less_def)
    with 1(1) [of ?i] False i have "heap_ok (heap_up (Swap h ?i j) ?i) (length h)
        \<and> mset (heap_up (Swap h ?i j) ?i) = mset (Swap h ?i j)" by (simp add: parent_def)
    ultimately show ?thesis using mset_Swap [OF i 1(2)] by simp
  qed
qed

subsection \<open>Sifting down\<close>

definition down_inv :: "Item list \<Rightarrow> nat \<Rightarrow> nat \<Rightarrow> bool" where
  "down_inv h i n \<longleftrightarrow>
     (\<forall>c. 0 < c \<and> c < n \<and> parent c \<noteq> i \<longrightarrow> it_priority (h ! c) \<le> it_priority (h ! parent c))
   \<and> (\<forall>c. 0 < c \<and> c < n \<and> parent c = i \<and> 0 < i \<longrightarrow> it_priority (h ! c) \<le> it_priority (h ! parent i))"

lemma down_inv_Swap:
  assumes "down_inv h i n" and "n \<le> length h" and "j < n" and "0 < j" and "parent j = i"
    and "it_priority (h ! i) < it_priority (h ! j)"
    and "\<And>c. 0 < c \<Longrightarrow> c < n \<Longrightarrow> parent c = i \<Longrightarrow> it_priority (h ! c) \<le> it_priority (h ! j)"
  shows "down_inv (Swap h i j) j n"
proof -
  have i: "i < j" using assms(4,5) parent_less by blast
  with assms(2,3) have l: "i < length h" "j < length h" by simp_all
  note sw = nth_Swap [OF l]
  have inv1: "0 < c \<Longrightarrow> c < n \<Longrightarrow> parent c \<noteq> i \<Longrightarrow> it_priority (h ! c) \<le> it_priority (h ! parent c)" for c
    using assms(1) by (simp add: down_inv_def)
  have inv2: "0 < c \<Longrightarrow> c < n \<Longrightarrow> parent c = i \<Longrightarrow> 0 < i \<Longrightarrow> it_priority (h ! c) \<le> it_priority (h ! parent i)" for c
    using assms(1) by (simp add: down_inv_def)
  show ?thesis unfolding down_inv_def
  proof (intro conjI allI impI; elim conjE)
    fix c assume c: "0 < c" "c < n" "parent c \<noteq> j"
    have cl: "c < length h" "parent c < length h" using parent_less [OF c(1)] c(2) assms(2) by simp_all
    show "it_priority (Swap h i j ! c) \<le> it_priority (Swap h i j ! parent c)"
    proof (cases "c = i")
      case True
      then have "it_priority (h ! j) \<le> it_priority (h ! parent i)" using inv2 [OF assms(4,3,5)] c(1) by simp
      then show ?thesis using True i parent_less [OF c(1)] c(3) cl by (simp add: sw)
    next
      case False
      show ?thesis using False c cl i inv1 [OF c(1,2)] assms(5,6) assms(7) [OF c(1,2)]
        by (auto simp: sw)
    qed
  next
    fix c assume c: "0 < c" "c < n" "parent c = j" "0 < j"
    have "it_priority (h ! c) \<le> it_priority (h ! j)" using inv1 [OF c(1,2)] c(3) i by simp
    then show "it_priority (Swap h i j ! c) \<le> it_priority (Swap h i j ! parent j)"
      using c i l assms(2,5) parent_less [OF c(1)] by (auto simp: sw)
  qed
qed

lemma heap_down_ok:
  assumes "i < n" and "n \<le> length h" and "down_inv h i n"
  shows "heap_ok (heap_down h i n) n \<and> mset (heap_down h i n) = mset h \<and> drop n (heap_down h i n) = drop n h"
  using assms
proof (induction h i n rule: heap_down.induct)
  case (1 h i n)
  let ?j1 = "2 * i + 1"
  let ?j = "if ?j1 + 1 < n \<and> Less h (?j1 + 1) ?j1 then ?j1 + 1 else ?j1"
  show ?case
  proof (cases "n \<le> ?j1 \<or> \<not> Less h ?j i")
    case True
    then have "heap_down h i n = h" by (subst heap_down.simps) (auto simp: Let_def)
    moreover have "heap_ok h n" unfolding heap_ok_def
    proof (intro allI impI; elim conjE)
      fix c assume c: "0 < c" "c < n"
      show "it_priority (h ! c) \<le> it_priority (h ! parent c)"
      proof (cases "parent c = i")
        case p: True
        then have "c = ?j1 \<or> c = ?j1 + 1" using parent_iff [OF c(1)] by auto
        with True c p show ?thesis by (auto simp: Less_def split: if_splits)
      qed (use 1(4) c in \<open>simp add: down_inv_def\<close>)
    qed
    ultimately show ?thesis by simp
  next
    case False
    then have j: "?j < n" "0 < ?j" "parent ?j = i" by (auto simp: parent_iff)
    have "down_inv (Swap h i ?j) ?j n"
    proof (rule down_inv_Swap [OF 1(4,3) j])
      show "it_priority (h ! i) < it_priority (h ! ?j)" using False by (simp add: Less_def)
      fix c assume c: "0 < c" "c < n" "parent c = i"
      then have "c = ?j1 \<or> c = ?j1 + 1" using parent_iff [OF c(1)] by auto
      then show "it_priority (h ! c) \<le> it_priority (h ! ?j)" using c by (auto simp: Less_def)
    qed
    with 1(1) [OF refl _ refl] False j 1(3) have
      "heap_ok (heap_down (Swap h i ?j) ?j n) n \<and> mset (heap_down (Swap h i ?j) ?j n) = mset (Swap h i ?j)
       \<and> drop n (heap_down (Swap h i ?j) ?j n) = drop n (Swap h i ?j)" by auto
    moreover have "heap_down h i n = heap_down (Swap h i ?j) ?j n"
      using False by (subst heap_down.simps) (auto simp: Let_def)
    moreover have "drop n (Swap h i ?j) = drop n h" using 1(2) j by (simp add: Swap_def)
    moreover have "mset (Swap h i ?j) = mset h" using 1(2,3) j by (intro mset_Swap) simp_all
    ultimately show ?thesis by simp
  qed
qed

subsection \<open>The queue\<close>

lemma heap_Push_ok:
  assumes "heap_ok h (length h)"
  shows "heap_ok (heap_Push h x) (length (heap_Push h x)) \<and> mset (heap_Push h x) = add_mset x (mset h)"
proof -
  have "up_inv (h @ [x]) (length h)" unfolding up_inv_def
  proof (intro conjI allI impI; elim conjE)
    fix c assume c: "0 < c" "c < length (h @ [x])" "c \<noteq> length h"
    then show "it_priority ((h @ [x]) ! c) \<le> it_priority ((h @ [x]) ! parent c)"
      using assms parent_less [OF c(1)] by (simp add: heap_ok_def nth_append)
  next
    fix c assume c: "0 < c" "c < length (h @ [x])" "parent c = length h"
    then show "it_priority ((h @ [x]) ! c) \<le> it_priority ((h @ [x]) ! parent (length h))"
      using parent_less [OF c(1)] by simp
  qed
  from heap_up_ok [OF _ this] have up: "heap_ok (heap_up (h @ [x]) (length h)) (length (h @ [x]))
      \<and> mset (heap_up (h @ [x]) (length h)) = add_mset x (mset h)" by simp
  then have "length (heap_up (h @ [x]) (length h)) = length (h @ [x])"
    by (metis length_append_singleton size_add_mset size_mset)
  with up show ?thesis by (simp add: heap_Push_def)
qed

lemma heap_root_max:
  assumes "heap_ok h n" and "c < n"
  shows "it_priority (h ! c) \<le> it_priority (h ! 0)"
  using assms(2)
proof (induction c rule: less_induct)
  case (less c)
  show ?case
  proof (cases "c = 0")
    case False
    then have "parent c < c" using parent_less by simp
    with less have "it_priority (h ! parent c) \<le> it_priority (h ! 0)" by simp
    moreover have "it_priority (h ! c) \<le> it_priority (h ! parent c)"
      using assms(1) less.prems False by (simp add: heap_ok_def)
    ultimately show ?thesis by simp
  qed simp
qed

lemma heap_Pop_ok:
  assumes "heap_ok h (length h)" and "heap_Pop h = Some (x, h')"
  shows "heap_ok h' (length h') \<and> mset h = add_mset x (mset h') \<and> (\<forall>y \<in># mset h. it_priority y \<le> it_priority x)"
proof -
  let ?n = "length h - 1"
  let ?s = "Swap h 0 ?n"
  let ?d = "heap_down ?s 0 ?n"
  from assms(2) have ne: "h \<noteq> []" and x: "x = last ?d" and h': "h' = butlast ?d"
    by (auto simp: heap_Pop_def Let_def split: if_splits)
  have d: "heap_ok ?d ?n \<and> mset ?d = mset h \<and> drop ?n ?d = drop ?n ?s"
  proof (cases "?n = 0")
    case True
    then have "heap_down ?s 0 ?n = ?s" by (subst heap_down.simps) simp
    with ne True show ?thesis by (simp add: heap_ok_def mset_Swap)
  next
    case False
    have "down_inv ?s 0 ?n" unfolding down_inv_def
    proof (intro conjI allI impI; elim conjE)
      fix c assume c: "0 < c" "c < ?n" "parent c \<noteq> 0"
      then have l: "c < length h" "parent c < length h" "0 < length h" "c \<noteq> ?n" "parent c \<noteq> ?n"
        using parent_less [OF c(1)] ne by simp_all
      then show "it_priority (?s ! c) \<le> it_priority (?s ! parent c)"
        using assms(1) c by (simp add: heap_ok_def nth_Swap)
    qed simp
    from heap_down_ok [OF _ _ this] False ne show ?thesis by (simp add: mset_Swap)
  qed
  have len: "length ?d = length h" using d by (metis mset_eq_length)
  have "last ?d = ?d ! ?n" using len ne by (metis last_conv_nth length_0_conv)
  also have "\<dots> = hd (drop ?n ?d)" using len ne by (simp add: hd_drop_conv_nth)
  also have "\<dots> = ?s ! ?n" using d ne by (simp add: hd_drop_conv_nth)
  also have "\<dots> = h ! 0" using ne by (simp add: Swap_def nth_list_update)
  finally have x0: "x = h ! 0" using x by simp
  have dd: "?d = h' @ [x]" using x h' len ne by (metis append_butlast_last_id length_0_conv)
  have "heap_ok h' (length h')" using d len unfolding heap_ok_def dd
  proof (intro allI impI; elim conjE)
    fix c assume dd': "\<forall>c. 0 < c \<and> c < ?n \<longrightarrow> it_priority ((h' @ [x]) ! c) \<le> it_priority ((h' @ [x]) ! parent c)"
      and c: "0 < c" "c < length h'"
    have "length h' = ?n" using h' len by simp
    with dd' c parent_less [OF c(1)] show "it_priority (h' ! c) \<le> it_priority (h' ! parent c)"
      by (metis nth_append order_less_trans)
  qed
  moreover have "mset h = add_mset x (mset h')" using d unfolding dd by simp
  moreover have "\<forall>y \<in># mset h. it_priority y \<le> it_priority x"
    unfolding x0 using heap_root_max [OF assms(1)] by (auto simp: in_set_conv_nth)
  ultimately show ?thesis by blast
qed

text \<open>What the executor relies on.\<close>

locale priority_queue =
  fixes push :: "'q \<Rightarrow> 'x \<Rightarrow> 'q"
    and pop :: "'q \<Rightarrow> ('x \<times> 'q) option"
    and inv :: "'q \<Rightarrow> bool"
    and items :: "'q \<Rightarrow> 'x multiset"
    and prio :: "'x \<Rightarrow> int"
  assumes push: "inv q \<Longrightarrow> inv (push q x) \<and> items (push q x) = add_mset x (items q)"
    and pop: "inv q \<Longrightarrow> pop q = Some (x, q') \<Longrightarrow>
      inv q' \<and> items q = add_mset x (items q') \<and> (\<forall>y \<in># items q. prio y \<le> prio x)"
    and pop_empty: "pop q = None \<longleftrightarrow> items q = {#}"
begin

lemma pushes: "inv q \<Longrightarrow> inv (foldl push q xs) \<and> items (foldl push q xs) = items q + mset xs"
  by (induction xs arbitrary: q) (auto simp: push)

end

text \<open>Popping until the queue is empty, at most \<open>n\<close> times.\<close>

fun pop_all :: "('q \<Rightarrow> ('x \<times> 'q) option) \<Rightarrow> nat \<Rightarrow> 'q \<Rightarrow> 'x list" where
  "pop_all pop 0 q = []"
| "pop_all pop (Suc n) q = (case pop q of None \<Rightarrow> [] | Some (x, q) \<Rightarrow> x # pop_all pop n q)"

context priority_queue
begin

lemma pop_all_sorted:
  assumes "inv q" and "size (items q) \<le> n"
  shows "mset (pop_all pop n q) = items q \<and> sorted_wrt (\<lambda>x y. prio y \<le> prio x) (pop_all pop n q)"
  using assms
proof (induction n arbitrary: q)
  case (Suc n)
  show ?case
  proof (cases "pop q")
    case None
    then have "items q = {#}" using pop_empty by blast
    with None show ?thesis by simp
  next
    case (Some p)
    then obtain x q' where p: "pop q = Some (x, q')" by (cases p) auto
    from pop [OF Suc.prems(1) p] have q': "inv q'" "items q = add_mset x (items q')"
      "\<forall>y \<in># items q. prio y \<le> prio x" by blast+
    then have IH: "mset (pop_all pop n q') = items q'"
      "sorted_wrt (\<lambda>x y. prio y \<le> prio x) (pop_all pop n q')"
      using Suc.IH [of q'] Suc.prems(2) by auto
    then have "\<forall>y \<in> set (pop_all pop n q'). prio y \<le> prio x"
      using q'(2,3) by (metis insert_DiffM2 set_mset_mset union_iff add_mset_add_single)
    with IH q'(2) p show ?thesis by simp
  qed
qed simp

end

interpretation heap: priority_queue heap_Push heap_Pop "\<lambda>h. heap_ok h (length h)" mset it_priority
proof
  fix q x
  show "heap_ok q (length q) \<Longrightarrow> heap_ok (heap_Push q x) (length (heap_Push q x)) \<and> mset (heap_Push q x) = add_mset x (mset q)"
    by (rule heap_Push_ok)
next
  fix q x q'
  show "heap_ok q (length q) \<Longrightarrow> heap_Pop q = Some (x, q') \<Longrightarrow> heap_ok q' (length q') \<and> mset q = add_mset x (mset q')
      \<and> (\<forall>y \<in># mset q. it_priority y \<le> it_priority x)"
    by (rule heap_Pop_ok)
next
  fix q
  show "heap_Pop q = None \<longleftrightarrow> mset q = {#}" by (simp add: heap_Pop_def Let_def)
qed

lemma heap_ok_Nil [simp]: "heap_ok [] 0"
  by (simp add: heap_ok_def)

text \<open>C23: the priority queue over \<open>container/heap\<close> hands out exactly what was pushed, in
  descending priority.\<close>

theorem queue_pops_by_priority:
  "mset (pop_all heap_Pop (length xs) (foldl heap_Push [] xs)) = mset xs
   \<and> sorted_wrt (\<lambda>x y. it_priority y \<le> it_priority x) (pop_all heap_Pop (length xs) (foldl heap_Push [] xs))"
proof -
  have "heap_ok (foldl heap_Push [] xs) (length (foldl heap_Push [] xs)) \<and> mset (foldl heap_Push [] xs) = mset xs"
    using heap.pushes [of "[]" xs] by simp
  then show ?thesis using heap.pop_all_sorted [of "foldl heap_Push [] xs" "length xs"]
    by (metis order_refl size_mset)
qed

end
