(* ===== verification/Node_Results.thy ===== *)
theory Node_Results
  imports Graph_Jobs Calculator_Results
begin

text \<open>
  What the nodes of the graph guarantee: which result a consumer keeps of several (\<open>result_slot\<close>,
  interpreted on the three consumers), that a query runs once and the collection finishes once over any
  sequence of calls, how the score of a query is classified, and that the scores of queries and jobs do
  not depend on the iteration order of Go's maps.
\<close>

subsection \<open>Result slots\<close>

definition res_envelope :: "'v RawResult \<Rightarrow> 'v envelope" where
  "res_envelope r = \<lparr>ev_res = Some r, ev_score = None\<rparr>"

definition go_default :: "'a \<Rightarrow> 'a go \<Rightarrow> 'a" where
  "go_default x m = (case m of Inl e \<Rightarrow> x | Inr y \<Rightarrow> y)"

lemma go_default_simps [simp]: "go_default x (Inl e) = x" "go_default x (Inr y) = y"
  by (simp_all add: go_default_def)

definition datapoint_offer :: "'v env \<Rightarrow> 'v DatapointNodeData \<Rightarrow> 'v RawResult \<Rightarrow> 'v DatapointNodeData" where
  "datapoint_offer E nd r = go_default nd (Datapoint_consume E [] (res_envelope r) nd)"

definition datapoint_untyped :: "'v env \<Rightarrow> 'v DatapointNodeData \<Rightarrow> bool" where
  "datapoint_untyped E nd \<longleftrightarrow> (dn_expectedType nd = None \<or> dn_expectedType nd = Some (env_Unset E))
     \<and> (dn_isReported nd \<longleftrightarrow> dn_res nd \<noteq> None)"

interpretation datapoint: result_slot dn_res "datapoint_offer E" "datapoint_untyped E" for E
  by unfold_locales
    (auto simp: datapoint_offer_def datapoint_untyped_def Datapoint_consume_def Datapoint_set_def
      res_envelope_def keep_result_def Let_def split: option.splits)

definition query_slot :: "NodeID \<Rightarrow> 'v ReportingQueryNodeData \<Rightarrow> 'v RawResult option" where
  "query_slot k nd = Option.bind (map_get (rq_results nd) k) dr_value"

definition query_offer :: "NodeID \<Rightarrow> 'v ReportingQueryNodeData \<Rightarrow> 'v RawResult \<Rightarrow> 'v ReportingQueryNodeData" where
  "query_offer k nd r = ReportingQuery_consume k (res_envelope r) nd"

definition query_slot_ok :: "NodeID \<Rightarrow> 'v ReportingQueryNodeData \<Rightarrow> bool" where
  "query_slot_ok k nd \<longleftrightarrow> (\<exists>dr. map_get (rq_results nd) k = Some dr \<and> (dr_resolved dr \<longleftrightarrow> dr_value dr \<noteq> None))"

interpretation query: result_slot "query_slot k" "query_offer k" "query_slot_ok k" for k
  by unfold_locales
    (auto simp: query_slot_def query_offer_def query_slot_ok_def ReportingQuery_consume_def
      res_envelope_def keep_result_def update_Some_unfold split: option.splits)

definition job_slot :: "NodeID \<Rightarrow> 'v ReportingJobNodeData \<Rightarrow> 'v RawResult option" where
  "job_slot k nd = Option.bind (map_get (rj_datapoints nd) k) id"

definition job_offer :: "NodeID \<Rightarrow> 'v ReportingJobNodeData \<Rightarrow> 'v RawResult \<Rightarrow> 'v ReportingJobNodeData" where
  "job_offer k nd r = go_default nd (ReportingJob_consume k (res_envelope r) nd)"

definition job_slot_ok :: "NodeID \<Rightarrow> 'v ReportingJobNodeData \<Rightarrow> bool" where
  "job_slot_ok k nd \<longleftrightarrow> map_get (rj_datapoints nd) k \<noteq> None"

interpretation job: result_slot "job_slot k" "job_offer k" "job_slot_ok k" for k
  by unfold_locales
    (auto simp: job_slot_def job_offer_def job_slot_ok_def ReportingJob_consume_def consume_datapoint_def
      res_envelope_def keep_result_def resultUpgrades_def update_Some_unfold split: option.splits if_splits)

text \<open>The form in which \<open>set\<close> stores a result: converted to the expected type, unless there is none, the result has it already, or the
  result is nil or an error.\<close>

definition typed_result :: "'v env \<Rightarrow> string option \<Rightarrow> 'v RawResult \<Rightarrow> 'v RawResult" where
  "typed_result E et r = (case et of None \<Rightarrow> r | Some t \<Rightarrow> (case rr_Data r of None \<Rightarrow> r | Some rd \<Rightarrow>
     if t = env_Unset E \<or> rd_Type rd = env_Nil E \<or> rd_Type rd = t \<or> rd_Error rd \<noteq> None then r else env_CastResult E r t))"

lemma Datapoint_set_typed:
  assumes "with_data r"
  shows "Datapoint_set E r nd = Inr (nd\<lparr>dn_invalidated := True, dn_isReported := True,
    dn_res := Some (typed_result E (dn_expectedType nd) r)\<rparr>)"
  using assms by (auto simp: Datapoint_set_def typed_result_def with_data_def Let_def split: option.split)

lemma datapoint_offer_step:
  assumes "with_data r"
  shows "datapoint_offer E d r = (if dn_isReported d \<and> \<not> resultUpgrades (dn_res d) (Some r) then d
    else d\<lparr>dn_invalidated := True, dn_isReported := True, dn_res := Some (typed_result E (dn_expectedType d) r)\<rparr>)"
  using assms by (simp add: datapoint_offer_def Datapoint_consume_def res_envelope_def Datapoint_set_typed)

lemma datapoint_offers:
  assumes "dn_res nd = None" and "\<not> dn_isReported nd" and "\<forall>r \<in> set rs. with_data r"
    and "\<forall>r \<in> set rs. with_data (typed_result E (dn_expectedType nd) r)
      \<and> result_rank (typed_result E (dn_expectedType nd) r) = result_rank r"
  shows "dn_res (foldl (datapoint_offer E) nd rs) = map_option (typed_result E (dn_expectedType nd)) (best_result rs)
    \<and> dn_expectedType (foldl (datapoint_offer E) nd rs) = dn_expectedType nd
    \<and> (dn_isReported (foldl (datapoint_offer E) nd rs) \<longleftrightarrow> rs \<noteq> []) \<and> set_option (best_result rs) \<subseteq> set rs
    \<and> (best_result rs = None \<longleftrightarrow> rs = [])"
  using assms(3,4)
proof (induction rs rule: rev_induct)
  case Nil
  then show ?case using assms(1,2) by (simp add: best_result_def)
next
  case (snoc r rs)
  let ?f = "typed_result E (dn_expectedType nd)"
  let ?d = "foldl (datapoint_offer E) nd rs"
  have ih: "dn_res ?d = map_option ?f (best_result rs)" "dn_expectedType ?d = dn_expectedType nd"
    "dn_isReported ?d \<longleftrightarrow> rs \<noteq> []" "set_option (best_result rs) \<subseteq> set rs" "best_result rs = None \<longleftrightarrow> rs = []"
    using snoc by simp_all
  have r: "with_data r" using snoc.prems(1) by simp
  show ?case
  proof (cases "best_result rs")
    case None
    then have "best_result (rs @ [r]) = Some r" by (simp add: best_result_snoc keep_result_def)
    then show ?thesis using None ih r
      by (simp add: datapoint_offer_step)
  next
    case (Some b)
    then have b: "b \<in> set rs" using ih(4) by simp
    then have fb: "with_data b" "with_data (?f b)" "result_rank (?f b) = result_rank b" using snoc.prems by simp_all
    have up: "resultUpgrades (Some (?f b)) (Some r) \<longleftrightarrow> resultUpgrades (Some b) (Some r)"
      using resultUpgrades_rank [OF fb(2) r] resultUpgrades_rank [OF fb(1) r] fb(3) by simp
    have "rs \<noteq> []" using b by auto
    then show ?thesis using ih r Some up b
      by (auto simp: datapoint_offer_step best_result_snoc keep_result_def)
  qed
qed


text \<open>A scored query reaches the same rank of result for each of its entrypoints in whatever
  order the results arrive; in particular it never ends with a placeholder or a nil when a real result
  was reported.\<close>

theorem query_results_order_independent:
  assumes "query_slot_ok k nd" and "query_slot k nd = None"
    and "mset rs = mset rs'" and "\<forall>r \<in> set rs. with_data r"
  shows "map_option result_rank (query_slot k (foldl (query_offer k) nd rs))
       = map_option result_rank (query_slot k (foldl (query_offer k) nd rs'))"
  using assms by (rule query.rank_perm)

text \<open>The same for the datapoints of a reporting job, whose code is written differently: its
  two guards keep exactly what the upgrade rule keeps, and a kept result reopens the job.\<close>

theorem job_datapoints_order_independent:
  assumes "job_slot_ok k nd" and "job_slot k nd = None"
    and "mset rs = mset rs'" and "\<forall>r \<in> set rs. with_data r"
  shows "map_option result_rank (job_slot k (foldl (job_offer k) nd rs))
       = map_option result_rank (job_slot k (foldl (job_offer k) nd rs'))"
  using assms by (rule job.rank_perm)

subsection \<open>Runs of one node\<close>

datatype 'v node_op = Consume NodeID "'v envelope" | Recalculate

text \<open>Any sequence of calls the graph may make on a node, with the effects they have.\<close>

fun node_run :: "'v env \<Rightarrow> 'v node_op list \<Rightarrow> 'v nodeData \<Rightarrow> ('v nodeData \<times> 'v effect list) go" where
  "node_run E [] nd = Inr (nd, [])"
| "node_run E (Consume from ev # ops) nd = go_bind (node_consume E from ev nd) (node_run E ops)"
| "node_run E (Recalculate # ops) nd = go_bind (node_recalculate E nd) (\<lambda>(nd, effs, _).
     go_bind (node_run E ops nd) (\<lambda>(nd, effs'). Inr (nd, effs @ effs')))"

definition is_RunQuery :: "'v effect \<Rightarrow> bool" where
  "is_RunQuery e \<longleftrightarrow> (case e of RunQuery c \<Rightarrow> True | _ \<Rightarrow> False)"

definition is_CloseDone :: "'v effect \<Rightarrow> bool" where
  "is_CloseDone e \<longleftrightarrow> (case e of CloseDone \<Rightarrow> True | _ \<Rightarrow> False)"

definition count_effects :: "('v effect \<Rightarrow> bool) \<Rightarrow> 'v effect list \<Rightarrow> nat" where
  "count_effects P effs = length (filter P effs)"

lemma count_effects_simps [simp]:
  "count_effects P [] = 0" "count_effects P (effs @ effs') = count_effects P effs + count_effects P effs'"
  "count_effects P (e # effs) = (if P e then Suc (count_effects P effs) else count_effects P effs)"
  by (simp_all add: count_effects_def)

lemma is_effect_simps [simp]:
  "is_RunQuery (RunQuery c)" "\<not> is_RunQuery (SinkData x a)" "\<not> is_RunQuery (SinkScore x b)"
  "\<not> is_RunQuery (OnProgress i j)" "\<not> is_RunQuery CloseDone"
  "is_CloseDone CloseDone" "\<not> is_CloseDone (RunQuery c)" "\<not> is_CloseDone (SinkData x a)"
  "\<not> is_CloseDone (SinkScore x b)" "\<not> is_CloseDone (OnProgress i j)"
  by (simp_all add: is_RunQuery_def is_CloseDone_def)

text \<open>
  The pattern of the two once-only effects: a state condition \<open>pending\<close> that every call keeps until a
  recalculation finds the node ready, has the effect once, and leaves the node in a spent state.
\<close>

lemma node_run_once:
  assumes step_c: "\<And>nd from ev nd'. I nd \<Longrightarrow> node_consume E from ev nd = Inr nd' \<Longrightarrow> I nd'"
    and step_r: "\<And>nd nd' effs ev. I nd \<Longrightarrow> node_recalculate E nd = Inr (nd', effs, ev) \<Longrightarrow>
      I nd' \<and> count_effects P effs = (if spent nd' \<and> \<not> spent nd then 1 else 0)"
    and spent_c: "\<And>nd from ev nd'. I nd \<Longrightarrow> node_consume E from ev nd = Inr nd' \<Longrightarrow> spent nd' = spent nd"
    and spent_r: "\<And>nd nd' effs ev. I nd \<Longrightarrow> node_recalculate E nd = Inr (nd', effs, ev) \<Longrightarrow> spent nd \<Longrightarrow> spent nd'"
    and "I nd" and "node_run E ops nd = Inr (nd', effs)"
  shows "I nd' \<and> (spent nd \<longrightarrow> spent nd') \<and> count_effects P effs = (if spent nd' \<and> \<not> spent nd then 1 else 0)"
  using assms(5,6)
proof (induction ops arbitrary: nd effs)
  case (Cons op ops)
  show ?case
  proof (cases op)
    case (Consume sender ev)
    with Cons.prems obtain nd1 where c: "node_consume E sender ev nd = Inr nd1" "node_run E ops nd1 = Inr (nd', effs)"
      by (auto simp: go_bind_Inr_iff)
    then show ?thesis using Cons.IH [of nd1 effs] step_c [OF Cons.prems(1) c(1)] spent_c [OF Cons.prems(1) c(1)] by simp
  next
    case Recalculate
    with Cons.prems obtain nd1 e1 ev e2 where r: "node_recalculate E nd = Inr (nd1, e1, ev)"
      "node_run E ops nd1 = Inr (nd', e2)" "effs = e1 @ e2"
      by (auto simp: go_bind_Inr_iff)
    have r1: "I nd1" "count_effects P e1 = (if spent nd1 \<and> \<not> spent nd then 1 else 0)"
      using step_r [OF Cons.prems(1) r(1)] by blast+
    have r2: "I nd'" "spent nd1 \<longrightarrow> spent nd'" "count_effects P e2 = (if spent nd' \<and> \<not> spent nd1 then 1 else 0)"
      using Cons.IH [OF r1(1) r(2)] by blast+
    show ?thesis using r1 r2 spent_r [OF Cons.prems(1) r(1)] r(3)
      by (cases "spent nd"; cases "spent nd1"; cases "spent nd'") simp_all
  qed
qed simp

subsection \<open>A query runs once, when its properties are resolved\<close>

definition all_resolved :: "(string, executionQueryProperty) gomap \<Rightarrow> bool" where
  "all_resolved ps \<longleftrightarrow> (\<forall>x \<in> set ps. ep_resolved (snd x))"

fun query_inv :: "'v nodeData \<Rightarrow> bool" where
  "query_inv (ExecutionQuery d) \<longleftrightarrow>
     (if eq_runState d = executedQueryRunState then all_resolved (eq_requiredProperties d) else all_resolved (eq_requiredProperties d) \<longrightarrow> eq_invalidated d)
     \<and> (eq_runState d = readyQueryRunState \<longrightarrow> all_resolved (eq_requiredProperties d))"
| "query_inv _ = False"

fun query_executed :: "'v nodeData \<Rightarrow> bool" where
  "query_executed (ExecutionQuery d) \<longleftrightarrow> eq_runState d = executedQueryRunState"
| "query_executed _ = False"

lemma consume_property_resolved:
  "ep_resolved (consume_property E res p) \<longleftrightarrow> ep_resolved p \<or> ep_checksum p = rr_CodeID res"
  by (auto simp: consume_property_def Let_def)

lemma all_resolved_consume:
  "all_resolved (map (\<lambda>(k, p). (k, consume_property E res p)) ps) \<longleftrightarrow>
   (\<forall>x \<in> set ps. ep_resolved (snd x) \<or> ep_checksum (snd x) = rr_CodeID res)"
  by (simp add: all_resolved_def case_prod_beta consume_property_resolved)

lemma query_consume_inv:
  assumes "query_inv nd" and "node_consume E sender ev nd = Inr nd'"
  shows "query_inv nd' \<and> query_executed nd' = query_executed nd"
proof (cases nd)
  case (ExecutionQuery d)
  show ?thesis
  proof (cases "eq_requiredProperties d = []")
    case True
    with assms ExecutionQuery show ?thesis
      by (auto simp: ExecutionQuery_consume_def all_resolved_def split: if_splits)
  next
    case False
    show ?thesis
    proof (cases "ev_res ev")
      case None
      with False assms ExecutionQuery show ?thesis by (auto simp: ExecutionQuery_consume_def)
    next
      case (Some res)
      with False assms ExecutionQuery have nd': "nd' = ExecutionQuery (ExecutionQuery_consume E sender ev d)" by simp
      show ?thesis using assms(1) False unfolding nd' ExecutionQuery
        by (simp add: ExecutionQuery_consume_def Some all_resolved_consume list_ex_iff case_prod_beta)
          (fastforce simp: all_resolved_def)
    qed
  qed
qed (use assms in simp_all)

lemma query_recalculate_inv:
  assumes "query_inv nd" and "node_recalculate E nd = Inr (nd', effs, ev)"
  shows "query_inv nd' \<and> count_effects is_RunQuery effs = (if query_executed nd' \<and> \<not> query_executed nd then 1 else 0)
    \<and> (query_executed nd \<longrightarrow> query_executed nd')"
  using assms
  by (cases nd)
    (auto simp: lift_recalc_def ExecutionQuery_recalculate_def updateRunState_def all_resolved_def list_all_iff Let_def case_prod_beta
      split: if_splits)

lemma node_run_snoc:
  "node_run E (ops @ [Recalculate]) nd = Inr (nd', effs) \<Longrightarrow>
   \<exists>nd1 e1 e2 ev. node_run E ops nd = Inr (nd1, e1) \<and> node_recalculate E nd1 = Inr (nd', e2, ev) \<and> effs = e1 @ e2"
proof (induction ops arbitrary: nd effs)
  case (Cons op ops)
  then show ?case by (cases op) (fastforce simp: go_bind_Inr_iff)+
qed (auto simp: go_bind_Inr_iff)

lemma query_recalculate_valid:
  "node_recalculate E nd = Inr (ExecutionQuery d', effs, ev) \<Longrightarrow> \<not> eq_invalidated d'"
  by (cases nd) (auto simp: lift_recalc_def ExecutionQuery_recalculate_def Let_def split: if_splits)

lemma query_initialize_inv:
  assumes "eq_runState d = notReadyQueryNotReady" and "\<not> eq_invalidated d"
  shows "query_inv (ExecutionQuery (ExecutionQuery_initialize d))"
  using assms by (auto simp: ExecutionQuery_initialize_def updateRunState_def all_resolved_def list_all_iff Let_def case_prod_beta)

text \<open>C24: whatever an execution query is sent and however often it is asked, it is put on the run
  queue at most once; once it is asked again the number is one exactly when all its required properties
  have resolved.\<close>

theorem query_runs_exactly_once:
  assumes "eq_runState d = notReadyQueryNotReady" and "\<not> eq_invalidated d"
    and "node_run E (ops @ [Recalculate]) (ExecutionQuery (ExecutionQuery_initialize d)) = Inr (ExecutionQuery d', effs)"
  shows "count_effects is_RunQuery effs = (if all_resolved (eq_requiredProperties d') then 1 else 0)"
proof -
  have init: "query_inv (ExecutionQuery (ExecutionQuery_initialize d))"
    using assms(1,2) by (rule query_initialize_inv)
  have "eq_runState (ExecutionQuery_initialize d) \<noteq> executedQueryRunState"
    using assms(1) by (auto simp: ExecutionQuery_initialize_def updateRunState_def Let_def)
  moreover have "query_inv (ExecutionQuery d' :: 'a nodeData) \<and>
      (query_executed (ExecutionQuery (ExecutionQuery_initialize d) :: 'a nodeData) \<longrightarrow> query_executed (ExecutionQuery d' :: 'a nodeData)) \<and>
      count_effects is_RunQuery effs = (if query_executed (ExecutionQuery d' :: 'a nodeData)
        \<and> \<not> query_executed (ExecutionQuery (ExecutionQuery_initialize d) :: 'a nodeData) then 1 else 0)"
    using query_consume_inv query_recalculate_inv init assms(3)
    by (intro node_run_once [where I = query_inv and E = E]) blast+
  ultimately have "query_inv (ExecutionQuery d' :: 'a nodeData)"
      "count_effects is_RunQuery effs = (if eq_runState d' = executedQueryRunState then 1 else 0)" by auto
  moreover have "\<not> eq_invalidated d'" using node_run_snoc [OF assms(3)] query_recalculate_valid by blast
  ultimately show ?thesis by (auto split: if_splits)
qed

subsection \<open>Collection ends once, with the last datapoint\<close>

fun finisher_inv :: "'v nodeData \<Rightarrow> bool" where
  "finisher_inv (CollectionFinisher d) \<longleftrightarrow> True"
| "finisher_inv _ = False"

text \<open>Spent: nothing remains and the node has seen to it.\<close>

fun finisher_closed :: "'v nodeData \<Rightarrow> bool" where
  "finisher_closed (CollectionFinisher d) \<longleftrightarrow> cf_remainingDatapoints d = [] \<and> \<not> cf_invalidated d"
| "finisher_closed _ = False"

lemma finisher_consume_inv:
  "finisher_inv nd \<Longrightarrow> node_consume E from ev nd = Inr nd' \<Longrightarrow>
   finisher_inv nd' \<and> finisher_closed nd' = finisher_closed nd"
  by (cases nd) (auto simp: CollectionFinisher_consume_def split: if_splits)

lemma finisher_recalculate_inv:
  "finisher_inv nd \<Longrightarrow> node_recalculate E nd = Inr (nd', effs, ev) \<Longrightarrow>
   finisher_inv nd' \<and> count_effects is_CloseDone effs = (if finisher_closed nd' \<and> \<not> finisher_closed nd then 1 else 0)
   \<and> (finisher_closed nd \<longrightarrow> finisher_closed nd')"
  by (cases nd) (auto simp: lift_recalc_def CollectionFinisher_recalculate_def split: if_splits)

fun consumed_from :: "'v node_op list \<Rightarrow> NodeID set" where
  "consumed_from [] = {}"
| "consumed_from (Consume from ev # ops) = insert from (consumed_from ops)"
| "consumed_from (Recalculate # ops) = consumed_from ops"

lemma map_del_keys: "fst ` set (map_del k m) = fst ` set m - {k}"
  by (metis delete_keys list.set_map set_removeAll)

lemma finisher_remaining:
  "node_run E ops (CollectionFinisher d) = Inr (CollectionFinisher d', effs) \<Longrightarrow>
   fst ` set (cf_remainingDatapoints d') = fst ` set (cf_remainingDatapoints d) - consumed_from ops"
proof (induction ops arbitrary: d effs)
  case (Cons op ops)
  show ?case
  proof (cases op)
    case (Consume sender ev)
    with Cons.prems have "node_run E ops (CollectionFinisher (CollectionFinisher_consume sender ev d)) =
        Inr (CollectionFinisher d', effs)" by simp
    from Cons.IH [OF this] Consume show ?thesis
      by (auto simp: CollectionFinisher_consume_def map_del_keys split: if_splits)
  next
    case Recalculate
    with Cons.prems obtain e1 e2 d1 where "node_run E ops (CollectionFinisher d1) = Inr (CollectionFinisher d', e2)"
      "cf_remainingDatapoints d1 = cf_remainingDatapoints d"
      by (auto simp: go_bind_Inr_iff lift_recalc_def CollectionFinisher_recalculate_def split: if_splits)
    from Cons.IH [OF this(1)] this(2) Recalculate show ?thesis by simp
  qed
qed auto

text \<open>The channel that ends the collection is never closed twice, and once the finisher is
  asked again it has been closed exactly when every datapoint it waits for has sent something.\<close>

theorem collection_finishes_exactly_once:
  assumes "\<not> cf_invalidated d"
    and "node_run E (ops @ [Recalculate]) (CollectionFinisher (CollectionFinisher_initialize d)) =
      Inr (CollectionFinisher d', effs)"
  shows "count_effects is_CloseDone effs =
    (if fst ` set (cf_remainingDatapoints d) \<subseteq> consumed_from (ops @ [Recalculate]) then 1 else 0)"
proof -
  let ?nd = "CollectionFinisher (CollectionFinisher_initialize d) :: 'a nodeData"
  have open0: "\<not> finisher_closed ?nd" using assms(1) by (auto simp: CollectionFinisher_initialize_def)
  have rem: "cf_remainingDatapoints (CollectionFinisher_initialize d) = cf_remainingDatapoints d"
    by (simp add: CollectionFinisher_initialize_def)
  have "finisher_inv (CollectionFinisher d' :: 'a nodeData) \<and>
      (finisher_closed ?nd \<longrightarrow> finisher_closed (CollectionFinisher d' :: 'a nodeData)) \<and>
      count_effects is_CloseDone effs =
        (if finisher_closed (CollectionFinisher d' :: 'a nodeData) \<and> \<not> finisher_closed ?nd then 1 else 0)"
    using finisher_consume_inv finisher_recalculate_inv assms(2)
    by (intro node_run_once [where I = finisher_inv and E = E]) (blast | simp)+
  moreover have "\<not> cf_invalidated d'"
  proof -
    from node_run_snoc [OF assms(2)] obtain nd1 e2 ev where
      "node_recalculate E nd1 = Inr (CollectionFinisher d', e2, ev)" by blast
    then show ?thesis by (cases nd1) (auto simp: lift_recalc_def CollectionFinisher_recalculate_def split: if_splits)
  qed
  ultimately have "count_effects is_CloseDone effs = (if cf_remainingDatapoints d' = [] then 1 else 0)"
    using open0 by simp
  moreover have "cf_remainingDatapoints d' = [] \<longleftrightarrow> fst ` set (cf_remainingDatapoints d) \<subseteq> consumed_from (ops @ [Recalculate])"
    using finisher_remaining [OF assms(2)] unfolding rem by (metis Diff_eq_empty_iff image_is_empty set_empty)
  ultimately show ?thesis by simp
qed

subsection \<open>The score of a query\<close>

definition result_data :: "'v DataResult \<Rightarrow> 'v RawData option" where
  "result_data dr = Option.bind (dr_value dr) rr_Data"

definition complete :: "(string \<times> 'v DataResult) list \<Rightarrow> bool" where
  "complete drs \<longleftrightarrow> (\<forall>x \<in> set drs. result_data (snd x) \<noteq> None)"

definition datas :: "(string \<times> 'v DataResult) list \<Rightarrow> 'v RawData list" where
  "datas drs = map (\<lambda>x. the (result_data (snd x))) drs"

definition vanished :: "'v RawData \<Rightarrow> bool" where
  "vanished d \<longleftrightarrow> (case rd_Error d of None \<Rightarrow> False
     | Some e \<Rightarrow> HasPrefix (error_message e) ''could not find resource'')"

definition errored :: "'v RawData \<Rightarrow> bool" where
  "errored d \<longleftrightarrow> rd_Error d \<noteq> None \<and> \<not> vanished d"

definition scored :: "'v env \<Rightarrow> 'v RawData \<Rightarrow> bool" where
  "scored E d \<longleftrightarrow> rd_Error d = None \<and> rd_Value d \<noteq> None \<and> env_Score E d \<noteq> None"

definition valid :: "'v env \<Rightarrow> 'v RawData \<Rightarrow> bool" where
  "valid E d \<longleftrightarrow> rd_Error d = None \<and> rd_Value d \<noteq> None \<and> env_Score E d = None \<and> snd (env_IsSuccess E d)"

definition failing :: "'v env \<Rightarrow> 'v RawData \<Rightarrow> bool" where
  "failing E d \<longleftrightarrow> valid E d \<and> \<not> fst (env_IsSuccess E d)"

lemma score_step_fields:
  "sa_allSkipped (score_step E q cur d acc) \<longleftrightarrow> sa_allSkipped acc \<and> \<not> errored d \<and> \<not> scored E d \<and> \<not> valid E d"
  "sa_allTrue (score_step E q cur d acc) \<longleftrightarrow> sa_allTrue acc \<and> \<not> failing E d"
  "sa_foundError (score_step E q cur d acc) \<longleftrightarrow> sa_foundError acc \<or> errored d"
  "sa_assetVanished (score_step E q cur d acc) \<longleftrightarrow> sa_assetVanished acc \<or> vanished d"
  "sa_scoreFound (score_step E q cur d acc) \<longleftrightarrow> sa_scoreFound acc \<or> scored E d"
  by (auto simp: score_step_def score_error_def errored_def vanished_def scored_def valid_def failing_def
      Let_def case_prod_beta split: option.splits)

lemma score_loop_fields:
  assumes "complete drs"
  shows "\<exists>acc'. score_loop E q drs acc = Inr (Some acc')
    \<and> (sa_allSkipped acc' \<longleftrightarrow> sa_allSkipped acc \<and> (\<forall>d \<in> set (datas drs). \<not> errored d \<and> \<not> scored E d \<and> \<not> valid E d))
    \<and> (sa_allTrue acc' \<longleftrightarrow> sa_allTrue acc \<and> (\<forall>d \<in> set (datas drs). \<not> failing E d))
    \<and> (sa_foundError acc' \<longleftrightarrow> sa_foundError acc \<or> (\<exists>d \<in> set (datas drs). errored d))
    \<and> (sa_assetVanished acc' \<longleftrightarrow> sa_assetVanished acc \<or> (\<exists>d \<in> set (datas drs). vanished d))
    \<and> (sa_scoreFound acc' \<longleftrightarrow> sa_scoreFound acc \<or> (\<exists>d \<in> set (datas drs). scored E d))"
  using assms
proof (induction drs arbitrary: acc)
  case (Cons x drs)
  obtain k dr where x: "x = (k, dr)" by fastforce
  from Cons.prems obtain cur d where d: "dr_value dr = Some cur" "rr_Data cur = Some d" "complete drs"
    by (auto simp: complete_def x result_data_def bind_eq_Some_conv)
  have ds: "datas (x # drs) = d # datas drs" using d by (simp add: datas_def x result_data_def)
  have st: "score_loop E q (x # drs) acc = score_loop E q drs (score_step E q cur d acc)"
    by (simp add: x d)
  show ?case using Cons.IH [OF d(3), of "score_step E q cur d acc"]
    unfolding ds st score_step_fields by (elim exE, intro exI) (simp, blast)
qed (simp add: datas_def)

lemma sorted_results_set:
  assumes "map_ok m"
  shows "set (sorted_results m) = set m"
proof -
  have "(\<lambda>k. (k, the (map_get m k))) (fst x) = x" if "x \<in> set m" for x
  proof -
    have "map_get m (fst x) = Some (snd x)"
      using that assms unfolding map_ok_def by (intro map_of_is_SomeI) auto
    then show ?thesis by simp
  qed
  then have "(\<lambda>x. (fst x, the (map_get m (fst x)))) ` set m = set m" by (force simp: image_iff)
  then show ?thesis by (simp add: sorted_results_def image_image)
qed

text \<open>Once every entrypoint has a result, a query's score is classified by the results as a
  set: unscored when a resource vanished, else an error when any result is one, else skipped when nothing
  can be judged, else a result, 100 when no judged result fails and none carries a score of its own.\<close>

theorem query_score_classified:
  assumes "map_ok (rq_results nd)" and "complete (rq_results nd)"
  defines "ds \<equiv> set (datas (rq_results nd))"
  shows "\<exists>s. ReportingQuery_score E nd = Inr (Some s)
    \<and> sc_QrId s = rq_queryID nd \<and> sc_ScoreCompletion s = 100 \<and> sc_Weight s = 1
    \<and> sc_Type s = (if \<exists>d \<in> ds. vanished d then ScoreType_Unscored
        else if \<exists>d \<in> ds. errored d then ScoreType_Error
        else if \<forall>d \<in> ds. \<not> scored E d \<and> \<not> valid E d then ScoreType_Skip
        else ScoreType_Result)
    \<and> ((\<forall>d \<in> ds. \<not> scored E d) \<longrightarrow> sc_Type s = ScoreType_Result \<longrightarrow>
        sc_Value s = (if \<exists>d \<in> ds. failing E d then 0 else 100))"
proof -
  have set: "set (sorted_results (rq_results nd)) = set (rq_results nd)" using assms(1) by (rule sorted_results_set)
  then have c: "complete (sorted_results (rq_results nd))" using assms(2) by (simp add: complete_def)
  have ds: "set (datas (sorted_results (rq_results nd))) = ds" unfolding ds_def datas_def by (simp add: set)
  from score_loop_fields [OF c, of E "rq_queryID nd" zeroAcc] obtain acc where
    acc: "score_loop E (rq_queryID nd) (sorted_results (rq_results nd)) zeroAcc = Inr (Some acc)"
    "sa_allSkipped acc \<longleftrightarrow> (\<forall>d \<in> ds. \<not> errored d \<and> \<not> scored E d \<and> \<not> valid E d)"
    "sa_allTrue acc \<longleftrightarrow> (\<forall>d \<in> ds. \<not> failing E d)" "sa_foundError acc \<longleftrightarrow> (\<exists>d \<in> ds. errored d)"
    "sa_assetVanished acc \<longleftrightarrow> (\<exists>d \<in> ds. vanished d)" "sa_scoreFound acc \<longleftrightarrow> (\<exists>d \<in> ds. scored E d)"
    unfolding ds by (auto simp: zeroAcc_def)
  have "ReportingQuery_score E nd = Inr (Some (score_of_acc E (rq_queryID nd) acc))"
    by (simp add: ReportingQuery_score_def acc(1))
  then show ?thesis
    by (intro exI [of _ "score_of_acc E (rq_queryID nd) acc"])
      (auto simp: score_of_acc_def query_score_def zeroScore_def Let_def acc(2-6))
qed

text \<open>The whole score of a query, its message included, does not depend on the iteration order
  of the map of results, and there is a score only when every entrypoint has a result.\<close>

theorem query_score_map_order:
  assumes "map_ok (rq_results nd)" and "mset m = mset (rq_results nd)"
  shows "ReportingQuery_score E (nd\<lparr>rq_results := m\<rparr>) = ReportingQuery_score E nd
    \<and> (\<forall>s. ReportingQuery_score E nd = Inr (Some s) \<longrightarrow> (\<forall>x \<in> set (rq_results nd). dr_value (snd x) \<noteq> None))"
proof -
  have "map_get m = map_get (rq_results nd)" using assms by (rule map_get_perm)
  moreover have "sort (map fst m) = sort (map fst (rq_results nd))"
    using assms(2) by (metis mset_map properties_for_sort sorted_sort mset_sort)
  ultimately have "sorted_results m = sorted_results (rq_results nd)" by (simp add: sorted_results_def)
  moreover have "score_loop E q drs acc = Inr (Some acc') \<Longrightarrow> \<forall>x \<in> set drs. dr_value (snd x) \<noteq> None"
    for q drs acc acc'
    by (induction drs arbitrary: acc) (fastforce simp: go_bind_Inr_iff split: option.splits)+
  ultimately show ?thesis using sorted_results_set [OF assms(1)]
    by (fastforce simp: ReportingQuery_score_def go_bind_Inr_iff)
qed

subsection \<open>The score of a reporting job\<close>

text \<open>What \<open>AddSpecdScore\<close> hands to \<open>Add\<close> for a child that has reported.\<close>

definition specd :: "Score \<times> Impact option \<Rightarrow> Score \<times> Impact option" where
  "specd = (\<lambda>(s, i). AddSpecdScore (\<lambda>_ s i. (s, i)) (s, i) s True i)"

lemma AddSpecdScore_specd: "AddSpecdScore add c s True i = add c (fst (specd (s, i))) (snd (specd (s, i)))"
  by (simp add: specd_def AddSpecdScore_def Let_def split: option.splits)

lemma foldl_specd:
  "foldl (\<lambda>c (s, i). AddSpecdScore add c s True i) c xs = run add c (map specd xs)"
  by (induction xs arbitrary: c) (auto simp: run_def AddSpecdScore_specd case_prod_beta)

definition child_scores :: "(NodeID \<times> reportingJobResult) list \<Rightarrow> (Score \<times> Impact option) list" where
  "child_scores rs = map (\<lambda>(k, r). (the (rr_score r), rr_impact r)) rs"

definition all_reported :: "(NodeID \<times> reportingJobResult) list \<Rightarrow> bool" where
  "all_reported rs \<longleftrightarrow> (\<forall>x \<in> set rs. rr_score (snd x) \<noteq> None)"

lemma all_reported_simps [simp]:
  "all_reported []" "all_reported (x # rs) \<longleftrightarrow> rr_score (snd x) \<noteq> None \<and> all_reported rs"
  by (auto simp: all_reported_def)

lemma add_children_foldl:
  "add_children add c rs = (if all_reported rs
     then Some (foldl (\<lambda>c (s, i). AddSpecdScore add c s True i) c (child_scores rs)) else None)"
  by (induction rs arbitrary: c) (auto simp: child_scores_def split: option.splits)

lemma AddDataScore_run: "\<exists>ds. length ds \<le> 1 \<and> (\<forall>c. AddDataScore add c n m = run add c ds)"
proof (cases "n = 0")
  case True
  then show ?thesis by (intro exI [of _ "[]"]) (simp add: AddDataScore_def)
next
  case False
  then show ?thesis
    by (intro exI [of _ "[(zeroScore\<lparr>sc_Type := ScoreType_Unscored, sc_DataTotal := of_nat n,
        sc_DataCompletion := of_nat ((100 * m) div n)\<rparr>, None)]"]) (simp add: AddDataScore_def)
qed

lemma run_append: "run add (run add c xs) ys = run add c (xs @ ys)"
  by (simp add: run_def)

text \<open>The score of a reporting job does not depend on the iteration order of its two maps:
  for every scoring system but the decayed one, permuting the children and the datapoints changes
  neither the score nor the error nor the panic.\<close>

theorem job_score_map_order:
  assumes "rj_scoringSystem nd \<noteq> DECAYED"
    and "mset cs = mset (rj_childScores nd)" and "mset dps = mset (rj_datapoints nd)"
  shows "ReportingJob_score E (nd\<lparr>rj_childScores := cs, rj_datapoints := dps\<rparr>) = ReportingJob_score E nd"
proof -
  let ?nd = "nd\<lparr>rj_childScores := cs, rj_datapoints := dps\<rparr>"
  have n: "length dps = length (rj_datapoints nd)" using assms(3) by (rule mset_eq_length)
  have f: "finishedDatapoints (nd\<lparr>rj_childScores := cs', rj_datapoints := dps\<rparr>) = finishedDatapoints nd" for cs'
  proof -
    have "length (filter P dps) = length (filter P (rj_datapoints nd))" for P
      by (metis assms(3) mset_filter size_mset)
    then show ?thesis by (simp add: finishedDatapoints_def)
  qed
  have dp: "add_datapoints (nd\<lparr>rj_childScores := cs', rj_datapoints := dps\<rparr>) s = add_datapoints nd s" for cs' s
    by (simp add: add_datapoints_def n f Let_def)
  have fc: "forward_child (nd\<lparr>rj_childScores := cs', rj_datapoints := dps\<rparr>) c = forward_child nd c" for cs' c
    by (cases "rr_score c") (simp_all add: forward_child_def Let_def)
  have fwd: "forward_score ?nd = forward_score nd"
  proof (cases "rj_childScores nd")
    case Nil
    with assms(2) show ?thesis by (simp add: forward_score_def dp)
  next
    case (Cons x xs)
    have "length cs = length (rj_childScores nd)" using assms(2) by (rule mset_eq_length)
    then show ?thesis using Cons assms(2)
      by (cases xs; cases cs; cases "tl cs")
        (auto simp: forward_score_def dp fc split: list.splits)
  qed
  have "set cs = set (rj_childScores nd)" using assms(2) by (metis set_mset_mset)
  then have rep: "all_reported cs = all_reported (rj_childScores nd)" by (simp add: all_reported_def)
  have "mset (child_scores cs) = mset (child_scores (rj_childScores nd))"
    unfolding child_scores_def using assms(2) by simp
  then have "foldl (\<lambda>c (s, i). AddSpecdScore (calculator_Add (env_arch E)) c s True i) c0 (child_scores cs) =
      foldl (\<lambda>c (s, i). AddSpecdScore (calculator_Add (env_arch E)) c s True i) c0 (child_scores (rj_childScores nd))"
    if "NewScoreCalculator (rj_scoringSystem nd) (rj_featureFlagFailErrors nd) = Inr c0" for c0
    using specd_calculator_perm [OF that assms(1)] by blast
  then show ?thesis
    by (simp add: ReportingJob_score_def fwd f n add_children_foldl rep split: sum.split option.split)
qed

lemma job_score_safe:
  assumes "rj_forwardScore nd \<Longrightarrow> length (rj_childScores nd) \<le> 1"
    and "length (rj_childScores nd) + 1 < 4294967296"
  obtains r where "ReportingJob_score E nd = Inr r" "\<And>s. r = Inr (Some s) \<Longrightarrow> sc_QrId s = rj_queryID nd"
proof (cases "rj_forwardScore nd")
  case True
  with assms(1) have "\<exists>s. forward_score nd = Inr s \<and> sc_QrId s = rj_queryID nd"
    by (cases "rj_childScores nd")
      (auto simp: forward_score_def add_datapoints_def forward_child_def Let_def zeroScore_def split: option.splits)
  with True that show ?thesis by (auto simp: ReportingJob_score_def)
next
  case False
  show ?thesis
  proof (cases "NewScoreCalculator (rj_scoringSystem nd) (rj_featureFlagFailErrors nd)")
    case (Inl e)
    with False that show ?thesis by (auto simp: ReportingJob_score_def)
  next
    case (Inr c0)
    obtain ds where ds: "length ds \<le> 1" "\<And>c. AddDataScore (calculator_Add (env_arch E)) c
        (length (rj_datapoints nd)) (finishedDatapoints nd) = run (calculator_Add (env_arch E)) c ds"
      using AddDataScore_run [of "calculator_Add (env_arch E)" "length (rj_datapoints nd)" "finishedDatapoints nd"] by auto
    have "length (map specd (child_scores (rj_childScores nd)) @ ds) < 4294967296"
      using ds(1) assms(2) by (simp add: child_scores_def)
    from calculate_some [OF Inr this, of "env_exp E" "env_arch E"] obtain s where
      "calculator_Calculate (env_exp E) (env_arch E) (run (calculator_Add (env_arch E)) c0
        (map specd (child_scores (rj_childScores nd)) @ ds)) = Some s" by blast
    with False Inr that show ?thesis
      by (cases "all_reported (rj_childScores nd)")
        (auto simp: ReportingJob_score_def add_children_foldl foldl_specd ds(2) run_append)
  qed
qed

lemma completed_silent:
  "rj_queryID nd \<noteq> '''' \<Longrightarrow> rj_completed nd \<Longrightarrow> ReportingJob_recalculate E nd = Inr (nd, [], None)"
  by (simp add: ReportingJob_recalculate_def)

lemma job_recalculate_ok:
  assumes "rj_queryID nd \<noteq> ''''" and "rj_forwardScore nd \<longrightarrow> length (rj_childScores nd) \<le> 1"
    and "length (rj_childScores nd) + 1 < 4294967296"
  shows "\<exists>nd' ev. ReportingJob_recalculate E nd = Inr (nd', [], ev)
    \<and> (\<forall>e. ev = Some e \<longrightarrow> (\<exists>s. e = score_envelope s \<and> sc_QrId s = rj_queryID nd
          \<and> (Completion s = 100 \<or> sc_Type s = ScoreType_Error \<and> sc_ScoreCompletion s = 100)
          \<and> ReportingJob_recalculate E nd' = Inr (nd', [], None)))"
proof -
  have "rj_forwardScore (nd\<lparr>rj_invalidated := False\<rparr>) \<Longrightarrow> length (rj_childScores (nd\<lparr>rj_invalidated := False\<rparr>)) \<le> 1"
    using assms(2) by simp
  from job_score_safe [OF this, of E] assms(3) obtain r where
    r: "ReportingJob_score E (nd\<lparr>rj_invalidated := False\<rparr>) = Inr r" "\<And>s. r = Inr (Some s) \<Longrightarrow> sc_QrId s = rj_queryID nd"
    by auto
  show ?thesis
  proof (cases "\<not> rj_invalidated nd \<or> rj_completed nd")
    case True
    with assms(1) show ?thesis by (auto simp: ReportingJob_recalculate_def)
  next
    case False
    let ?nd = "nd\<lparr>rj_invalidated := False\<rparr>"
    have silent: "ReportingJob_recalculate E (?nd\<lparr>rj_completed := True\<rparr>) = Inr (?nd\<lparr>rj_completed := True\<rparr>, [], None)"
      using assms(1) by (intro completed_silent) simp_all
    show ?thesis
    proof (cases r)
      case (Inl err)
      with False assms(1) r(1) have "ReportingJob_recalculate E nd = Inr (?nd\<lparr>rj_completed := True\<rparr>, [],
          Some (score_envelope (query_score (rj_queryID nd) ScoreType_Error 0 (calculator_error_message err))))"
        by (simp add: ReportingJob_recalculate_def)
      with silent show ?thesis by (fastforce simp: query_score_def zeroScore_def)
    next
      case (Inr so)
      show ?thesis
      proof (cases "\<exists>s. so = Some s \<and> Completion s = 100")
        case True
        then obtain s where s: "so = Some s" "Completion s = 100" by blast
        with False Inr assms(1) r(1) have
          "ReportingJob_recalculate E nd = Inr (?nd\<lparr>rj_completed := True\<rparr>, [], Some (score_envelope s))"
          by (simp add: ReportingJob_recalculate_def)
        with silent s r(2) Inr show ?thesis by fastforce
      next
        case none: False
        with False Inr assms(1) r(1) have "ReportingJob_recalculate E nd = Inr (?nd, [], None)"
          by (cases so) (auto simp: ReportingJob_recalculate_def)
        then show ?thesis by blast
      qed
    qed
  qed
qed

text \<open>A reporting job that has a query id and, when it forwards, at most one child never
  panics in \<open>recalculate\<close>; it sends only scores that carry its id and are either complete or the error
  of an unknown scoring system, and having sent one it is silent until a datapoint reopens it.\<close>

theorem job_recalculate_safe:
  assumes "rj_queryID nd \<noteq> ''''" and "rj_forwardScore nd \<longrightarrow> length (rj_childScores nd) \<le> 1"
    and "length (rj_childScores nd) + 1 < 4294967296"
  shows "\<exists>nd' ev. ReportingJob_recalculate E nd = Inr (nd', [], ev)
    \<and> (\<forall>e. ev = Some e \<longrightarrow> (\<exists>s. e = score_envelope s \<and> sc_QrId s = rj_queryID nd
          \<and> (Completion s = 100 \<or> sc_Type s = ScoreType_Error \<and> sc_ScoreCompletion s = 100)
          \<and> ReportingJob_recalculate E nd' = Inr (nd', [], None)))"
  using assms by (rule job_recalculate_ok)

text \<open>A job that waits for datapoints and forwards its child is silent while none has
  reported, whatever the child sends: its completion stays at 50 or less.\<close>

theorem job_waits_for_datapoints:
  assumes "rj_forwardScore nd" and "rj_queryID nd \<noteq> ''''" and "length (rj_childScores nd) \<le> 1"
    and "rj_datapoints nd \<noteq> []" and "\<forall>x \<in> set (rj_datapoints nd). snd x = None"
    and "\<forall>x \<in> set (rj_childScores nd). \<forall>s. rr_score (snd x) = Some s \<longrightarrow> sc_ScoreCompletion s \<le> 100"
  shows "\<exists>nd'. ReportingJob_recalculate E nd = Inr (nd', [], None)"
proof -
  let ?nd = "nd\<lparr>rj_invalidated := False\<rparr>"
  have "finishedDatapoints ?nd = 0" using assms(5) by (auto simp: finishedDatapoints_def filter_empty_conv)
  then have "\<exists>s. forward_score ?nd = Inr s \<and> sc_DataCompletion s = 0 \<and> sc_ScoreCompletion s \<le> 100"
    using assms(3,4,6)
    by (cases "rj_childScores nd")
      (auto simp: forward_score_def add_datapoints_def forward_child_def Let_def zeroScore_def split: option.splits)
  then obtain s where s: "forward_score ?nd = Inr s" "sc_DataCompletion s = 0" "sc_ScoreCompletion s \<le> 100" by blast
  have "Completion s \<noteq> 100" using Completion_le_100(2) [of s] s(2,3) by simp
  with s(1) assms(1,2) show ?thesis by (auto simp: ReportingJob_recalculate_def ReportingJob_score_def)
qed

subsection \<open>Concrete runs\<close>

text \<open>An engine whose values are numbers: 1 is success, and errors are listed in the message.\<close>

definition test_env :: "nat env" where
  "test_env = \<lparr>env_arch = plain_arch, env_exp = id, env_Score = (\<lambda>d. None),
     env_IsSuccess = (\<lambda>d. (rd_Value d = Some 1, True)),
     env_Result = (\<lambda>r. \<lparr>re_CodeID = rr_CodeID r, re_Error = '''', re_Data = None\<rparr>),
     env_CastResult = (\<lambda>r t. r), env_Deduplicate = (\<lambda>es. concat (map error_message es)),
     env_Nil = ''nil'', env_Unset = ''''\<rparr>"

definition test_result :: "string \<Rightarrow> nat option \<Rightarrow> go_error option \<Rightarrow> nat RawResult" where
  "test_result c v e = \<lparr>rr_CodeID = c, rr_Data = Some \<lparr>rd_Type = ''int'', rd_Value = v, rd_Error = e\<rparr>\<rparr>"

definition test_results :: "nat RawResult list" where
  "test_results = [test_result ''c'' None (Some (QueryRunError ''q'' (GoError ''no props''))),
     test_result ''c'' None None, test_result ''c'' (Some 1) None]"

definition test_datapoint :: "nat DatapointNodeData" where
  "test_datapoint = \<lparr>dn_expectedType = None, dn_isReported = False, dn_invalidated = False, dn_res = None\<rparr>"

definition test_query :: "nat ReportingQueryNodeData" where
  "test_query = \<lparr>rq_queryID = ''q'', rq_results =
     [(''c'', \<lparr>dr_checksum = ''c'', dr_resolved = False, dr_value = None\<rparr>)], rq_invalidated = False\<rparr>"

definition test_job :: "nat ReportingJobNodeData" where
  "test_job = \<lparr>rj_queryID = ''j'', rj_scoringSystem = AVERAGE, rj_forwardScore = True, rj_rjType = RJ_CHECK,
     rj_childScores = [(''q'', \<lparr>rr_impact = None, rr_score = Some zeroScore\<rparr>)],
     rj_datapoints = [(''c'', None)], rj_completed = False, rj_invalidated = True,
     rj_featureFlagFailErrors = False\<rparr>"

lemma test_results_data: "\<forall>r \<in> set test_results. with_data r" "test_results \<noteq> []"
  by (simp_all add: test_results_def test_result_def with_data_def)

text \<open>A datapoint that expects a string, with a conversion that only changes the type.\<close>

definition string_env :: "nat env" where
  "string_env = test_env\<lparr>env_CastResult := (\<lambda>r t. r\<lparr>rr_Data := map_option (\<lambda>d. d\<lparr>rd_Type := t\<rparr>) (rr_Data r)\<rparr>)\<rparr>"


theorem query_results_order_independent_witness:
  "map_option result_rank (query_slot ''c'' (foldl (query_offer ''c'') test_query test_results))
 = map_option result_rank (query_slot ''c'' (foldl (query_offer ''c'') test_query (rev test_results)))"
  by (rule query_results_order_independent)
    (simp_all add: test_results_data query_slot_ok_def query_slot_def test_query_def)

theorem job_datapoints_order_independent_witness:
  "map_option result_rank (job_slot ''c'' (foldl (job_offer ''c'') test_job test_results))
 = map_option result_rank (job_slot ''c'' (foldl (job_offer ''c'') test_job (rev test_results)))"
  by (rule job_datapoints_order_independent)
    (simp_all add: test_results_data job_slot_ok_def job_slot_def test_job_def)

definition test_execution :: ExecutionQueryNodeData where
  "test_execution = \<lparr>eq_queryID = ''q'', eq_codeBundle = \<lparr>cb_Id = ''q'', cb_MinMondooVersion = '''',
       cb_Checksums = [], cb_Entrypoints = [], cb_Datapoints = []\<rparr>, eq_invalidated = False,
     eq_requiredProperties = [(''p'', \<lparr>ep_name = ''p'', ep_checksum = ''c'', ep_value = None,
       ep_resolved = False, ep_resolvedNil = False, ep_resolvedPlaceholder = False\<rparr>)],
     eq_runState = notReadyQueryNotReady\<rparr>"

theorem query_runs_exactly_once_witness:
  "\<exists>d' effs. node_run test_env ([Consume ''c'' (res_envelope (test_result ''c'' (Some 1) None))] @ [Recalculate])
      (ExecutionQuery (ExecutionQuery_initialize test_execution)) = Inr (ExecutionQuery d', effs)
    \<and> count_effects is_RunQuery effs = (if all_resolved (eq_requiredProperties d') then 1 else 0)
    \<and> all_resolved (eq_requiredProperties d')"
proof -
  have "\<exists>d' effs. node_run test_env ([Consume ''c'' (res_envelope (test_result ''c'' (Some 1) None))] @ [Recalculate])
      (ExecutionQuery (ExecutionQuery_initialize test_execution)) = Inr (ExecutionQuery d', effs)
      \<and> all_resolved (eq_requiredProperties d')"
    by (simp add: test_execution_def ExecutionQuery_initialize_def updateRunState_def ExecutionQuery_consume_def
        res_envelope_def test_result_def consume_property_def lift_recalc_def ExecutionQuery_recalculate_def
        all_resolved_def Let_def)
  then obtain d' effs where run: "node_run test_env ([Consume ''c'' (res_envelope (test_result ''c'' (Some 1) None))] @ [Recalculate])
      (ExecutionQuery (ExecutionQuery_initialize test_execution)) = Inr (ExecutionQuery d', effs)"
    "all_resolved (eq_requiredProperties d')" by blast
  with query_runs_exactly_once [OF _ _ run(1)] show ?thesis by (auto simp: test_execution_def)
qed

theorem collection_finishes_exactly_once_witness:
  "\<exists>d' effs. node_run test_env ([Consume ''c'' empty_envelope] @ [Recalculate])
      (CollectionFinisher (CollectionFinisher_initialize
        \<lparr>cf_totalDatapoints = 1, cf_remainingDatapoints = [(''c'', ())], cf_invalidated = False\<rparr>))
      = Inr (CollectionFinisher d', effs) \<and> count_effects is_CloseDone effs = 1"
proof -
  let ?d = "\<lparr>cf_totalDatapoints = 1, cf_remainingDatapoints = [(''c'', ())], cf_invalidated = False\<rparr>"
  have "\<exists>d' effs. node_run test_env ([Consume ''c'' empty_envelope] @ [Recalculate])
      (CollectionFinisher (CollectionFinisher_initialize ?d)) = Inr (CollectionFinisher d', effs)"
    by (simp add: CollectionFinisher_initialize_def CollectionFinisher_consume_def lift_recalc_def
        CollectionFinisher_recalculate_def)
  then obtain d' effs where run: "node_run test_env ([Consume ''c'' empty_envelope] @ [Recalculate])
      (CollectionFinisher (CollectionFinisher_initialize ?d)) = Inr (CollectionFinisher d', effs)" by blast
  with collection_finishes_exactly_once [OF _ run] show ?thesis by auto
qed

definition test_answered :: "nat ReportingQueryNodeData" where
  "test_answered = test_query\<lparr>rq_results :=
     [(''c'', \<lparr>dr_checksum = ''c'', dr_resolved = True, dr_value = Some (test_result ''c'' (Some 1) None)\<rparr>),
      (''b'', \<lparr>dr_checksum = ''b'', dr_resolved = True, dr_value = Some (test_result ''b'' (Some 0) None)\<rparr>)]\<rparr>"

theorem query_score_classified_witness:
  "\<exists>s. ReportingQuery_score test_env test_answered = Inr (Some s) \<and> sc_Type s = ScoreType_Result \<and> sc_Value s = 0"
  using query_score_classified [of test_answered test_env]
  by (auto simp: test_answered_def test_query_def test_result_def map_ok_def complete_def result_data_def
      datas_def vanished_def errored_def scored_def valid_def failing_def test_env_def)

theorem query_score_map_order_witness:
  "ReportingQuery_score test_env (test_answered\<lparr>rq_results := rev (rq_results test_answered)\<rparr>)
   = ReportingQuery_score test_env test_answered"
  by (rule query_score_map_order [THEN conjunct1]) (simp_all add: test_answered_def map_ok_def)

theorem job_score_map_order_witness:
  "ReportingJob_score test_env (test_job\<lparr>rj_childScores := rev (rj_childScores test_job),
     rj_datapoints := rev (rj_datapoints test_job)\<rparr>) = ReportingJob_score test_env test_job"
  by (rule job_score_map_order) (simp_all add: test_job_def)

theorem job_recalculate_safe_witness:
  "\<exists>nd' ev. ReportingJob_recalculate test_env test_job = Inr (nd', [], ev)"
  using job_recalculate_safe [of test_job test_env] by (auto simp: test_job_def)

theorem job_waits_for_datapoints_witness:
  "\<exists>nd'. ReportingJob_recalculate test_env test_job = Inr (nd', [], None)"
  by (rule job_waits_for_datapoints) (simp_all add: test_job_def zeroScore_def)

end
