(* ===== verification/Graph_Exec.thy ===== *)
theory Graph_Exec
  imports Priority_Queue Node_Results
begin

text \<open>
  The executor (\<open>policy/executor/internal/graph.go\<close>): the state of the graph, the processing of one
  queue item, a round, and the main loop over the batches of messages it receives. The goroutines of the
  execution manager are the environment: they decide which results arrive and when, so the loop is a
  function of the sequence of batches. Each iteration of the loop receives one message by the \<open>select\<close>
  and drains the results available behind it. Logging and \<open>Debug\<close> are left out.
\<close>

subsection \<open>State\<close>

datatype NodeType =
    ExecutionQueryNodeType | DatapointNodeType | ReportingQueryNodeType | ReportingJobNodeType
  | DatapointCollectorNodeType | ScoreCollectorNodeType | CollectionFinisherNodeType

record 'v Node =
  nd_id :: NodeID
  nd_type :: NodeType
  nd_data :: "'v nodeData"

text \<open>\<open>executionManager\<close> is nil exactly in rescore mode.\<close>

record 'v GraphExecutor =
  ge_nodes :: "(NodeID, 'v Node) gomap"
  ge_edges :: "(NodeID, NodeID list) gomap"
  ge_priorityMap :: "(NodeID, int) gomap"
  ge_rescore :: bool

definition edges_of :: "'v GraphExecutor \<Rightarrow> NodeID \<Rightarrow> NodeID list" where
  "edges_of ge n = (case map_get (ge_edges ge) n of None \<Rightarrow> [] | Some vs \<Rightarrow> vs)"

definition priority_of :: "'v GraphExecutor \<Rightarrow> NodeID \<Rightarrow> int" where
  "priority_of ge n = (case map_get (ge_priorityMap ge) n of None \<Rightarrow> 0 | Some p \<Rightarrow> p)"

definition maxPriority :: "'v GraphExecutor \<Rightarrow> int" where
  "maxPriority ge = int (length (ge_nodes ge)) + 1"

text \<open>While it runs: the nodes, the queue, whether the done channel is closed, and the effects so far.\<close>

record 'v exec =
  ex_nodes :: "(NodeID, 'v Node) gomap"
  ex_queue :: "Item list"
  ex_closed :: bool
  ex_effects :: "'v effect list"

fun go_fold :: "('s \<Rightarrow> 'a \<Rightarrow> 's go) \<Rightarrow> 's \<Rightarrow> 'a list \<Rightarrow> 's go" where
  "go_fold f s [] = Inr s"
| "go_fold f s (x # xs) = go_bind (f s x) (\<lambda>s. go_fold f s xs)"

lemma go_fold_inv:
  assumes "I s" and "\<And>s x. x \<in> set xs \<Longrightarrow> I s \<Longrightarrow> \<exists>s'. f s x = Inr s' \<and> I s'"
  shows "\<exists>s'. go_fold f s xs = Inr s' \<and> I s'"
  using assms
proof (induction xs arbitrary: s)
  case (Cons x xs)
  from Cons.prems(2) [of x s] Cons.prems(1) obtain s1 where "f s x = Inr s1" "I s1" by auto
  with Cons.IH [of s1] Cons.prems(2) show ?case by auto
qed simp

subsection \<open>One item of the queue\<close>

definition perform :: "'v exec \<Rightarrow> 'v effect \<Rightarrow> 'v exec go" where
  "perform st eff =
     (if eff = CloseDone then
        (if ex_closed st then Inl CloseOfClosedChannel
         else Inr (st\<lparr>ex_closed := True, ex_effects := ex_effects st @ [eff]\<rparr>))
      else Inr (st\<lparr>ex_effects := ex_effects st @ [eff]\<rparr>))"

definition deliver ::
  "'v env \<Rightarrow> NodeID \<Rightarrow> NodeID \<Rightarrow> int \<Rightarrow> NodeID \<Rightarrow> 'v envelope \<Rightarrow> 'v exec \<Rightarrow> 'v exec go" where
  "deliver E from sender prio v ev st =
     go_bind (go_deref (map_get (ex_nodes st) v)) (\<lambda>child.
     go_bind (node_consume E from ev (nd_data child)) (\<lambda>d.
       Inr (st\<lparr>ex_nodes := map_put v (child\<lparr>nd_data := d\<rparr>) (ex_nodes st),
               ex_queue := heap_Push (ex_queue st)
                 \<lparr>it_receiver = v, it_sender = sender, it_priority = prio\<rparr>\<rparr>)))"

text \<open>Pop an item, recalculate its receiver, send the envelope along the out edges.\<close>

definition process_item :: "'v env \<Rightarrow> 'v GraphExecutor \<Rightarrow> 'v exec \<Rightarrow> 'v exec go" where
  "process_item E ge st =
     (case heap_Pop (ex_queue st) of
        None \<Rightarrow> Inr st
      | Some (item, q) \<Rightarrow>
          let r = it_receiver item; st = st\<lparr>ex_queue := q\<rparr> in
          go_bind (go_deref (map_get (ex_nodes st) r)) (\<lambda>n.
          go_bind (node_recalculate E (nd_data n)) (\<lambda>(d, effs, ev).
          go_bind (go_fold perform (st\<lparr>ex_nodes := map_put r (n\<lparr>nd_data := d\<rparr>) (ex_nodes st)\<rparr>) effs) (\<lambda>st.
            case ev of
              None \<Rightarrow> Inr st
            | Some e \<Rightarrow> go_fold (\<lambda>st v. deliver E (nd_id n) r (priority_of ge v) v e st) st (edges_of ge r)))))"

text \<open>The inner loop, with fuel: \<open>None\<close> when the fuel runs out before the queue is empty.\<close>

fun process_queue :: "'v env \<Rightarrow> 'v GraphExecutor \<Rightarrow> nat \<Rightarrow> 'v exec \<Rightarrow> 'v exec go option" where
  "process_queue E ge 0 st = None"
| "process_queue E ge (Suc n) st =
     (if ex_queue st = [] then Some (Inr st)
      else case process_item E ge st of
        Inl p \<Rightarrow> Some (Inl p)
      | Inr st \<Rightarrow> process_queue E ge n st)"

subsection \<open>Start, messages and the main loop\<close>

fun is_Static :: "'v nodeData \<Rightarrow> bool" where
  "is_Static (StaticReportingJob d) = True"
| "is_Static _ = False"

definition init_item :: "'v GraphExecutor \<Rightarrow> NodeID \<Rightarrow> Item" where
  "init_item ge n = \<lparr>it_receiver = n, it_sender = ''__initialize__'', it_priority = maxPriority ge\<rparr>"

definition start_node :: "'v env \<Rightarrow> 'v GraphExecutor \<Rightarrow> 'v exec \<Rightarrow> NodeID \<times> 'v Node \<Rightarrow> 'v exec go" where
  "start_node E ge st = (\<lambda>(nodeID, n).
     go_bind (node_initialize E (nd_data n)) (\<lambda>d.
       let st = st\<lparr>ex_nodes := map_put nodeID (n\<lparr>nd_data := d\<rparr>) (ex_nodes st)\<rparr> in
       if ge_rescore ge \<and> \<not> is_Static d then Inr st
       else Inr (st\<lparr>ex_queue := heap_Push (ex_queue st) (init_item ge nodeID)\<rparr>)))"

definition start :: "'v env \<Rightarrow> 'v GraphExecutor \<Rightarrow> 'v exec go" where
  "start E ge = go_fold (start_node E ge)
     \<lparr>ex_nodes = ge_nodes ge, ex_queue = [], ex_closed = False, ex_effects = []\<rparr> (ge_nodes ge)"

definition receive :: "'v env \<Rightarrow> 'v GraphExecutor \<Rightarrow> 'v exec \<Rightarrow> 'v RawResult \<Rightarrow> 'v exec go" where
  "receive E ge st res =
     deliver E '''' '''' (maxPriority ge) (rr_CodeID res) \<lparr>ev_res = Some res, ev_score = None\<rparr> st"

datatype 'v message = ResultMsg "'v RawResult" | DoneMsg | ErrMsg

text \<open>A batch is the message of the \<open>select\<close> and the results drained behind it.\<close>

type_synonym 'v batch = "'v message \<times> 'v RawResult list"

datatype 'v outcome = Waiting "'v exec" | Finished "'v exec" | Failed "'v exec"

text \<open>
  The outer loop from the point where the queue has to be processed. \<open>DoneMsg\<close> can only be received
  once the channel is closed; a batch that has it earlier does not occur, which \<open>batch_ok\<close> says below.
\<close>

fun execute_loop ::
  "'v env \<Rightarrow> 'v GraphExecutor \<Rightarrow> nat \<Rightarrow> bool \<Rightarrow> 'v exec \<Rightarrow> 'v batch list \<Rightarrow> 'v outcome go option" where
  "execute_loop E ge fuel done st batches =
     (case process_queue E ge fuel st of
        None \<Rightarrow> None
      | Some (Inl p) \<Rightarrow> Some (Inl p)
      | Some (Inr st) \<Rightarrow>
          if ge_rescore ge \<or> done then Some (Inr (Finished st))
          else (case batches of
            [] \<Rightarrow> Some (Inr (Waiting st))
          | (msg, drained) # batches \<Rightarrow>
              (case msg of
                 ErrMsg \<Rightarrow> Some (Inr (Failed st))
               | _ \<Rightarrow>
                   (case go_fold (receive E ge) st ((case msg of ResultMsg r \<Rightarrow> [r] | _ \<Rightarrow> []) @ drained) of
                      Inl p \<Rightarrow> Some (Inl p)
                    | Inr st \<Rightarrow> execute_loop E ge fuel (msg = DoneMsg) st batches))))"

declare execute_loop.simps [simp del]

definition Execute :: "'v env \<Rightarrow> 'v GraphExecutor \<Rightarrow> nat \<Rightarrow> 'v batch list \<Rightarrow> 'v outcome go option" where
  "Execute E ge fuel batches =
     (case start E ge of Inl p \<Rightarrow> Some (Inl p) | Inr st \<Rightarrow> execute_loop E ge fuel False st batches)"

end
