(* ===== verification/Graph_Builder.thy ===== *)
theory Graph_Builder
  imports Graph_Exec
begin

text \<open>
  The graph builder (\<open>policy/executor/internal/builder.go\<close>): the builder's state, the functions that add
  nodes and edges, the priorities, and \<open>Build\<close>. Queries and reporting jobs are those of a resolved policy.
  \<open>Build\<close> ranges over Go maps; the lists here are their iteration order. The version library
  (\<open>hashicorp/go-version\<close>) is a parameter: \<open>parse\<close> and \<open>older\<close>. Timeouts, the progress reporter and
  the channels the builder hands on have no part in the graph.
\<close>

subsection \<open>Input\<close>

record query =
  q_codeBundle :: CodeBundle
  q_requiredProps :: "(string, string) gomap"
  q_resolvedProperties :: "(string, Primitive) gomap"
  q_notifies :: "string list"

record ReportingJobSpec =
  pj_QrId :: string
  pj_Uuid :: string
  pj_Notify :: "string list"
  pj_ScoringSystem :: ScoringSystem
  pj_Datapoints :: "(string, bool) gomap"
  pj_ChildJobs :: "(string, Impact option) gomap"
  pj_Type :: ReportingJob_Type

record GraphBuilder =
  gb_queries :: "query list"
  gb_datapointCollectors :: "string list"
  gb_scoreCollectors :: "string list"
  gb_reportingJobs :: "ReportingJobSpec list"
  gb_collectDatapointChecksums :: "string list"
  gb_collectScoreQrIDs :: "string list"
  gb_datapointType :: "(string, string) gomap"
  gb_mondooVersion :: string
  gb_rescoreScores :: "(string, Score) gomap option"
  gb_featureFlagFailErrors :: bool

definition NewBuilder :: "string \<Rightarrow> GraphBuilder" where
  "NewBuilder coreVersion = \<lparr>gb_queries = [], gb_datapointCollectors = [], gb_scoreCollectors = [],
     gb_reportingJobs = [], gb_collectDatapointChecksums = [], gb_collectScoreQrIDs = [],
     gb_datapointType = [], gb_mondooVersion = coreVersion, gb_rescoreScores = None,
     gb_featureFlagFailErrors = False\<rparr>"

definition AddQuery ::
  "CodeBundle \<Rightarrow> (string, string) gomap \<Rightarrow> (string, Primitive) gomap \<Rightarrow> string list \<Rightarrow> GraphBuilder \<Rightarrow> GraphBuilder" where
  "AddQuery c props resolved notifies b = b\<lparr>gb_queries := gb_queries b @
     [\<lparr>q_codeBundle = c, q_requiredProps = props, q_resolvedProperties = resolved, q_notifies = notifies\<rparr>]\<rparr>"

definition AddDatapointType :: "string \<Rightarrow> string \<Rightarrow> GraphBuilder \<Rightarrow> GraphBuilder" where
  "AddDatapointType c t b = b\<lparr>gb_datapointType := map_put c t (gb_datapointType b)\<rparr>"

definition CollectDatapoint :: "string \<Rightarrow> GraphBuilder \<Rightarrow> GraphBuilder" where
  "CollectDatapoint c b = b\<lparr>gb_collectDatapointChecksums := gb_collectDatapointChecksums b @ [c]\<rparr>"

definition CollectScore :: "string \<Rightarrow> GraphBuilder \<Rightarrow> GraphBuilder" where
  "CollectScore q b = b\<lparr>gb_collectScoreQrIDs := gb_collectScoreQrIDs b @ [q]\<rparr>"

definition AddReportingJob :: "ReportingJobSpec \<Rightarrow> GraphBuilder \<Rightarrow> GraphBuilder" where
  "AddReportingJob rj b = b\<lparr>gb_reportingJobs := gb_reportingJobs b @ [rj]\<rparr>"

definition AddScoreCollector :: "string \<Rightarrow> GraphBuilder \<Rightarrow> GraphBuilder" where
  "AddScoreCollector c b = b\<lparr>gb_scoreCollectors := gb_scoreCollectors b @ [c]\<rparr>"

definition AddDatapointCollector :: "string \<Rightarrow> GraphBuilder \<Rightarrow> GraphBuilder" where
  "AddDatapointCollector c b = b\<lparr>gb_datapointCollectors := gb_datapointCollectors b @ [c]\<rparr>"

definition WithMondooVersion :: "string \<Rightarrow> GraphBuilder \<Rightarrow> GraphBuilder" where
  "WithMondooVersion v b = b\<lparr>gb_mondooVersion := v\<rparr>"

definition WithFeatureFlagFailErrors :: "GraphBuilder \<Rightarrow> GraphBuilder" where
  "WithFeatureFlagFailErrors b = b\<lparr>gb_featureFlagFailErrors := True\<rparr>"

definition WithRescore :: "(string, Score) gomap option \<Rightarrow> GraphBuilder \<Rightarrow> GraphBuilder" where
  "WithRescore scores b = b\<lparr>gb_rescoreScores := scores\<rparr>"

subsection \<open>Checksums and versions\<close>

definition checksum_of :: "CodeBundle \<Rightarrow> nat \<Rightarrow> string" where
  "checksum_of cb ref = (case map_get (cb_Checksums cb) ref of None \<Rightarrow> '''' | Some c \<Rightarrow> c)"

definition EntrypointChecksums :: "CodeBundle \<Rightarrow> string list" where
  "EntrypointChecksums cb = map (checksum_of cb) (cb_Entrypoints cb)"

definition DatapointChecksums :: "CodeBundle \<Rightarrow> string list" where
  "DatapointChecksums cb = map (checksum_of cb) (cb_Datapoints cb)"

definition CodepointChecksums :: "CodeBundle \<Rightarrow> string list" where
  "CodepointChecksums cb = EntrypointChecksums cb @ DatapointChecksums cb"

definition checkVersion ::
  "(string \<Rightarrow> 'r option) \<Rightarrow> ('r \<Rightarrow> 'r \<Rightarrow> bool) \<Rightarrow> CodeBundle \<Rightarrow> 'r option \<Rightarrow> bool" where
  "checkVersion parse older cb curMin =
     (case curMin of None \<Rightarrow> True | Some cur \<Rightarrow>
        if cb_MinMondooVersion cb = '''' then True
        else (case parse (cb_MinMondooVersion cb) of None \<Rightarrow> True | Some req \<Rightarrow> \<not> older cur req))"

subsection \<open>Edges\<close>

text \<open>\<open>sort.Search\<close>: the binary search of the standard library for the first index that satisfies \<open>f\<close>.\<close>

function sort_Search :: "(nat \<Rightarrow> bool) \<Rightarrow> nat \<Rightarrow> nat \<Rightarrow> nat" where
  "sort_Search f i j = (if i < j then
     (let h = (i + j) div 2 in if \<not> f h then sort_Search f (h + 1) j else sort_Search f i h) else i)"
  by pat_completeness auto
termination by (relation "measure (\<lambda>(f, i, j). j - i)") auto

declare sort_Search.simps [simp del]

definition SearchStrings :: "string list \<Rightarrow> string \<Rightarrow> nat" where
  "SearchStrings ss s = sort_Search (\<lambda>i. s \<le> ss ! i) 0 (length ss)"

definition insertSorted :: "string list \<Rightarrow> string \<Rightarrow> string list" where
  "insertSorted ss s = (let i = SearchStrings ss s in
     if i < length ss \<and> ss ! i = s then ss else take i ss @ [s] @ drop i ss)"

definition addEdge :: "NodeID \<Rightarrow> NodeID \<Rightarrow> 'v GraphExecutor \<Rightarrow> 'v GraphExecutor" where
  "addEdge src tgt ge = ge\<lparr>ge_edges := map_put src (insertSorted (edges_of ge src) tgt) (ge_edges ge)\<rparr>"

definition addEdges :: "(NodeID \<times> NodeID) list \<Rightarrow> 'v GraphExecutor \<Rightarrow> 'v GraphExecutor" where
  "addEdges es ge = foldl (\<lambda>ge (src, tgt). addEdge src tgt ge) ge es"

subsection \<open>Nodes\<close>

definition put_node :: "NodeID \<Rightarrow> NodeType \<Rightarrow> 'v nodeData \<Rightarrow> 'v GraphExecutor \<Rightarrow> 'v GraphExecutor" where
  "put_node n t d ge = ge\<lparr>ge_nodes := map_put n \<lparr>nd_id = n, nd_type = t, nd_data = d\<rparr> (ge_nodes ge)\<rparr>"

definition addDatapointNode ::
  "string \<Rightarrow> string option \<Rightarrow> 'v RawResult option \<Rightarrow> 'v GraphExecutor \<Rightarrow> 'v GraphExecutor" where
  "addDatapointNode checksum expectedType res ge =
     (if has_key (ge_nodes ge) checksum then ge
      else put_node checksum DatapointNodeType
        (Datapoint \<lparr>dn_expectedType = expectedType, dn_isReported = res \<noteq> None,
           dn_invalidated = False, dn_res = res\<rparr>) ge)"

definition new_property :: "string \<Rightarrow> string \<Rightarrow> executionQueryProperty" where
  "new_property name checksum = \<lparr>ep_name = name, ep_checksum = checksum, ep_value = None,
     ep_resolved = False, ep_resolvedNil = False, ep_resolvedPlaceholder = False\<rparr>"

definition primitive_result :: "Primitive \<Rightarrow> Result" where
  "primitive_result v = \<lparr>re_CodeID = '''', re_Error = '''', re_Data = Some v\<rparr>"

definition resolve_property ::
  "(string, executionQueryProperty) gomap \<Rightarrow> string \<times> Primitive \<Rightarrow> (string, executionQueryProperty) gomap" where
  "resolve_property ps = (\<lambda>(name, v).
     (case map_get ps name of
        None \<Rightarrow> map_put name ((new_property name '''')\<lparr>ep_resolved := True,
          ep_value := Some (primitive_result v)\<rparr>) ps
      | Some rp \<Rightarrow> map_put name (rp\<lparr>ep_value := Some (primitive_result v), ep_resolved := True\<rparr>) ps))"

definition execution_id :: "string \<Rightarrow> NodeID" where
  "execution_id queryID = ''execution_query'' @ ''/'' @ queryID"

definition addExecutionQueryNode ::
  "string \<Rightarrow> query \<Rightarrow> (string, string) gomap \<Rightarrow> 'v GraphExecutor \<Rightarrow> 'v GraphExecutor" where
  "addExecutionQueryNode queryID q datapointType ge =
     (let nid = execution_id queryID;
          ge = foldl (\<lambda>ge c. addEdge nid c (addDatapointNode c (map_get datapointType c) None ge)) ge
                 (CodepointChecksums (q_codeBundle q));
          ge = foldl (\<lambda>ge (name, c). addEdge c nid ge) ge (q_requiredProps q);
          props = foldl (\<lambda>ps (name, c). map_put name (new_property name c) ps) [] (q_requiredProps q)
      in put_node nid ExecutionQueryNodeType (ExecutionQuery
           \<lparr>eq_queryID = queryID, eq_codeBundle = q_codeBundle q, eq_invalidated = False,
            eq_requiredProperties = foldl resolve_property props (q_resolvedProperties q),
            eq_runState = notReadyQueryNotReady\<rparr>) ge)"

definition addReportingQueryNode :: "string \<Rightarrow> query \<Rightarrow> 'v GraphExecutor \<Rightarrow> 'v GraphExecutor" where
  "addReportingQueryNode queryID q ge =
     (if has_key (ge_nodes ge) queryID then ge
      else let cs = EntrypointChecksums (q_codeBundle q) in
        put_node queryID ReportingQueryNodeType (ReportingQuery
          \<lparr>rq_queryID = queryID,
           rq_results = foldl (\<lambda>m c. map_put c \<lparr>dr_checksum = c, dr_resolved = False, dr_value = None\<rparr> m) [] cs,
           rq_invalidated = False\<rparr>)
          (foldl (\<lambda>ge c. addEdge c queryID ge) ge cs))"

definition forwards :: "ReportingJob_Type \<Rightarrow> bool" where
  "forwards t \<longleftrightarrow> t = RJ_CHECK \<or> t = RJ_DATA_QUERY \<or> t = RJ_CHECK_AND_DATA_QUERY \<or> t = RJ_EXECUTION_QUERY"

definition job_children :: "ReportingJobSpec \<Rightarrow> string \<Rightarrow> (NodeID, reportingJobResult) gomap" where
  "job_children rj rq = foldl (\<lambda>m (child, ss). map_put child \<lparr>rr_impact = ss, rr_score = None\<rparr> m)
     (if rq \<noteq> '''' then [(rq, \<lparr>rr_impact = None, rr_score = None\<rparr>)] else []) (pj_ChildJobs rj)"

definition addReportingJobNode ::
  "bool \<Rightarrow> string \<Rightarrow> string \<Rightarrow> ReportingJobSpec \<Rightarrow> string \<Rightarrow> 'v GraphExecutor \<Rightarrow> 'v GraphExecutor" where
  "addReportingJobNode failErrors assetMrn nid rj rq ge =
     (if has_key (ge_nodes ge) nid then ge
      else let
          queryID = (if pj_QrId rj = ''root'' then assetMrn else pj_QrId rj);
          ge = foldl (\<lambda>ge (c, x). addEdge c nid ge) ge (pj_Datapoints rj);
          ge = foldl (\<lambda>ge e. addEdge nid e ge) ge (pj_Notify rj);
          ge = (if rq \<noteq> '''' then addEdge rq nid ge else ge)
        in put_node nid ReportingJobNodeType (ReportingJob
             \<lparr>rj_queryID = queryID, rj_scoringSystem = pj_ScoringSystem rj, rj_forwardScore = forwards (pj_Type rj),
              rj_rjType = pj_Type rj, rj_childScores = job_children rj rq,
              rj_datapoints = foldl (\<lambda>m (c, x). map_put c None m) [] (pj_Datapoints rj),
              rj_completed = False, rj_invalidated = False, rj_featureFlagFailErrors = failErrors\<rparr>) ge)"

definition addStaticReportingJobNode ::
  "string \<Rightarrow> ReportingJobSpec \<Rightarrow> string \<Rightarrow> Score \<Rightarrow> 'v GraphExecutor \<Rightarrow> 'v GraphExecutor" where
  "addStaticReportingJobNode nid rj queryID score ge =
     (if has_key (ge_nodes ge) nid then ge
      else put_node nid ReportingJobNodeType (StaticReportingJob
        \<lparr>sj_score = score\<lparr>sc_QrId := queryID, sc_ScoreCompletion := 100, sc_DataCompletion := 100\<rparr>,
         sj_sent = False\<rparr>)
        (foldl (\<lambda>ge e. addEdge nid e ge) ge (pj_Notify rj)))"

definition CollectionFinisherID :: NodeID where "CollectionFinisherID = ''__collection_finisher__''"
definition DatapointCollectorID :: NodeID where "DatapointCollectorID = ''__datapoint_collector__''"
definition ScoreCollectorID :: NodeID where "ScoreCollectorID = ''__score_collector__''"

definition createFinisherNode :: "'v GraphExecutor \<Rightarrow> 'v GraphExecutor" where
  "createFinisherNode ge =
     (let ds = map fst (filter (\<lambda>(nid, n). nd_type n = DatapointNodeType) (ge_nodes ge));
          ge = foldl (\<lambda>ge d. addEdge d CollectionFinisherID ge) ge ds
      in put_node CollectionFinisherID CollectionFinisherNodeType (CollectionFinisher
           \<lparr>cf_totalDatapoints = length ds, cf_remainingDatapoints = map (\<lambda>d. (d, ())) ds,
            cf_invalidated = False\<rparr>) ge)"

text \<open>A query the running version is too old for: its datapoints report an error, unless they are there.\<close>

definition unrunnable_result :: "CodeBundle \<Rightarrow> string \<Rightarrow> 'v RawResult" where
  "unrunnable_result cb checksum = \<lparr>rr_CodeID = checksum, rr_Data = Some \<lparr>rd_Type = '''', rd_Value = None,
     rd_Error = Some (GoError (''unable to run query, cnspec version '' @ cb_MinMondooVersion cb @ '' required''))\<rparr>\<rparr>"

definition handleUnrunnableQueries :: "query list \<Rightarrow> 'v GraphExecutor \<Rightarrow> 'v GraphExecutor" where
  "handleUnrunnableQueries qs ge = foldl (\<lambda>ge q.
     foldl (\<lambda>ge c. if has_key (ge_nodes ge) c then ge
         else addDatapointNode c None (Some (unrunnable_result (q_codeBundle q) c)) ge)
       ge (CodepointChecksums (q_codeBundle q))) ge qs"

subsection \<open>Priorities\<close>

text \<open>
  The depth-first search that assigns each node one more than the largest priority of its children. It
  recurses without a check for cycles: the first argument is the depth the call stack may still grow to,
  and \<open>None\<close> a search that goes deeper.
\<close>

fun prioritizeNode ::
  "nat \<Rightarrow> (NodeID \<Rightarrow> NodeID list) \<Rightarrow> (NodeID, int) gomap \<Rightarrow> NodeID \<Rightarrow> (int \<times> (NodeID, int) gomap) option"
and prioritizeChildren ::
  "nat \<Rightarrow> (NodeID \<Rightarrow> NodeID list) \<Rightarrow> (NodeID, int) gomap \<Rightarrow> NodeID list \<Rightarrow> int
     \<Rightarrow> (int \<times> (NodeID, int) gomap) option" where
  "prioritizeNode 0 edges pm n = None"
| "prioritizeNode (Suc k) edges pm n =
     (case map_get pm n of Some d \<Rightarrow> Some (d, pm)
      | None \<Rightarrow>
          (case prioritizeChildren k edges pm (edges n) 0 of
             None \<Rightarrow> None
           | Some (childrenMaxDepth, pm) \<Rightarrow>
               let myDepth = childrenMaxDepth + 1 in Some (myDepth, map_put n myDepth pm)))"
| "prioritizeChildren k edges pm [] m = Some (m, pm)"
| "prioritizeChildren k edges pm (v # vs) m =
     (case prioritizeNode k edges pm v of
        None \<Rightarrow> None
      | Some (childDepth, pm) \<Rightarrow>
          prioritizeChildren k edges pm vs (if m < childDepth then childDepth else m))"

fun prioritizeNodes ::
  "nat \<Rightarrow> (NodeID \<Rightarrow> NodeID list) \<Rightarrow> (NodeID, int) gomap \<Rightarrow> NodeID list \<Rightarrow> (NodeID, int) gomap option" where
  "prioritizeNodes k edges pm [] = Some pm"
| "prioritizeNodes k edges pm (n # ns) =
     (case prioritizeNode k edges pm n of None \<Rightarrow> None
      | Some (d, pm) \<Rightarrow> prioritizeNodes k edges pm ns)"

subsection \<open>Build\<close>

definition query_map :: "query list \<Rightarrow> (string, query) gomap" where
  "query_map qs = foldl (\<lambda>m q. map_put (cb_Id (q_codeBundle q)) q m) [] qs"

definition empty_graph :: "GraphBuilder \<Rightarrow> 'v GraphExecutor" where
  "empty_graph b =
     put_node ScoreCollectorID ScoreCollectorNodeType (ScoreCollector
       \<lparr>sco_collectors = gb_scoreCollectors b, sco_unreported = [], sco_invalidated = False\<rparr>)
     (put_node DatapointCollectorID DatapointCollectorNodeType (DatapointCollector
       \<lparr>dc_collectors = gb_datapointCollectors b, dc_unreported = [], dc_invalidated = False\<rparr>)
     \<lparr>ge_nodes = [], ge_edges = [], ge_priorityMap = [], ge_rescore = gb_rescoreScores b \<noteq> None\<rparr>)"

text \<open>The loop over the queries, with the two maps it fills.\<close>

record 'v query_pass =
  qp_graph :: "'v GraphExecutor"
  qp_unrunnable :: "query list"
  qp_forJob :: "(string, string) gomap"
  qp_byCodeId :: "(string, string) gomap"

definition add_query ::
  "(CodeBundle \<Rightarrow> bool) \<Rightarrow> (string, string) gomap \<Rightarrow> 'v query_pass \<Rightarrow> string \<times> query \<Rightarrow> 'v query_pass" where
  "add_query canRun datapointType p = (\<lambda>(queryID, q).
     (let ge = (if canRun (q_codeBundle q) then addExecutionQueryNode queryID q datapointType (qp_graph p)
                else qp_graph p);
          unrunnable = (if canRun (q_codeBundle q) then qp_unrunnable p else qp_unrunnable p @ [q])
      in p\<lparr>qp_graph := addReportingQueryNode queryID q ge,
           qp_unrunnable := unrunnable,
           qp_byCodeId := map_put (cb_Id (q_codeBundle q)) queryID (qp_byCodeId p),
           qp_forJob := foldl (\<lambda>m notify. map_put notify queryID m) (qp_forJob p) (q_notifies q)\<rparr>))"

text \<open>The query whose score a job takes: the one that notifies it, else the one with the job's own id.\<close>

definition reporting_query_for :: "'v query_pass \<Rightarrow> ReportingJobSpec \<Rightarrow> string" where
  "reporting_query_for p rj =
     (let rq = (case map_get (qp_forJob p) (pj_Uuid rj) of Some q \<Rightarrow> q | None \<Rightarrow> '''') in
      if rq = '''' then (case map_get (qp_byCodeId p) (pj_QrId rj) of Some q \<Rightarrow> q | None \<Rightarrow> '''') else rq)"

definition add_job ::
  "GraphBuilder \<Rightarrow> string \<Rightarrow> 'v query_pass \<Rightarrow> 'v GraphExecutor \<Rightarrow> ReportingJobSpec \<Rightarrow> 'v GraphExecutor" where
  "add_job b assetMrn p ge rj =
     (case gb_rescoreScores b of
        Some scores \<Rightarrow>
          let queryID = (if pj_QrId rj = ''root'' then assetMrn else pj_QrId rj) in
          (case map_get scores queryID of
             Some score \<Rightarrow> addStaticReportingJobNode (pj_Uuid rj) rj queryID score ge
           | None \<Rightarrow> addReportingJobNode (gb_featureFlagFailErrors b) assetMrn (pj_Uuid rj) rj '''' ge)
      | None \<Rightarrow> addReportingJobNode (gb_featureFlagFailErrors b) assetMrn (pj_Uuid rj) rj (reporting_query_for p rj) ge)"

definition min_int :: int where
  "min_int = - 9223372036854775808"

definition build_pass ::
  "(string \<Rightarrow> 'r option) \<Rightarrow> ('r \<Rightarrow> 'r \<Rightarrow> bool) \<Rightarrow> GraphBuilder \<Rightarrow> 'v query_pass" where
  "build_pass parse older b =
     (let version = (if gb_mondooVersion b \<noteq> '''' \<and> gb_mondooVersion b \<noteq> ''unstable''
                     then parse (gb_mondooVersion b) else None)
      in foldl (add_query (\<lambda>cb. checkVersion parse older cb version) (gb_datapointType b))
           \<lparr>qp_graph = empty_graph b, qp_unrunnable = [], qp_forJob = [], qp_byCodeId = []\<rparr>
           (if gb_rescoreScores b \<noteq> None then [] else query_map (gb_queries b)))"

definition build_graph ::
  "(string \<Rightarrow> 'r option) \<Rightarrow> ('r \<Rightarrow> 'r \<Rightarrow> bool) \<Rightarrow> string \<Rightarrow> GraphBuilder \<Rightarrow> 'v GraphExecutor" where
  "build_graph parse older assetMrn b =
     (let rescore = (gb_rescoreScores b \<noteq> None);
          p = build_pass parse older b;
          scoresToCollect = gb_collectScoreQrIDs b @ map pj_Uuid (gb_reportingJobs b);
          datapointsToCollect = gb_collectDatapointChecksums b
            @ (if rescore then [] else concat (map (\<lambda>rj. map fst (pj_Datapoints rj)) (gb_reportingJobs b)));
          ge = foldl (add_job b assetMrn p) (qp_graph p) (gb_reportingJobs b);
          ge = foldl (\<lambda>ge s. addEdge s ScoreCollectorID ge) ge scoresToCollect;
          ge = foldl (\<lambda>ge d. addEdge d DatapointCollectorID ge) ge datapointsToCollect
      in if rescore then ge else createFinisherNode (handleUnrunnableQueries (qp_unrunnable p) ge))"

text \<open>
  The stack depth allowed is one more than the number of nodes with out edges: a path that goes deeper
  meets one of them twice, so a search that needs more never returns.
\<close>

definition Build ::
  "(string \<Rightarrow> 'r option) \<Rightarrow> ('r \<Rightarrow> 'r \<Rightarrow> bool) \<Rightarrow> string \<Rightarrow> GraphBuilder \<Rightarrow> 'v GraphExecutor option" where
  "Build parse older assetMrn b =
     (let ge = build_graph parse older assetMrn b in
      (case prioritizeNodes (Suc (length (ge_edges ge))) (edges_of ge) [] (map fst (ge_nodes ge)) of
         None \<Rightarrow> None
       | Some pm \<Rightarrow> Some (ge\<lparr>ge_priorityMap :=
           if gb_rescoreScores b \<noteq> None then pm else map_put CollectionFinisherID min_int pm\<rparr>)))"

end
