(* ===== verification/Execution_Manager.thy ===== *)
theory Execution_Manager
  imports Wait_Group Graph_Builder
begin

text \<open>
  The execution manager (\<open>policy/executor/internal/execution_manager.go\<close>): the goroutine that takes items
  off the run queue, runs their code and sends the results. The query engine is the parameter \<open>engine\<close>: for
  a code bundle and its properties it fails to start or gives the results its callback is called with
  before the timer fires, in their order. A result is sent when the result channel takes it; the stop
  request, that ends the goroutine at any of its selects, is not modelled, nor are logging and the memory
  report. A panic is recovered at the top of the goroutine and ends it like an error.
\<close>

record 'v runQueueItem =
  ri_codeBundle :: CodeBundle
  ri_props :: "(string, Result) gomap option"

text \<open>How the run of a code bundle ends; the results sent on the way are returned beside it.\<close>

datatype exec_end = ExecOk | ExecError go_error | ExecPanic panic

definition errQueryTimeout :: go_error where
  "errQueryTimeout = GoError ''query execution timed out''"

text \<open>The callback: finish the work id, then send.\<close>

fun sendResults :: "WaitGroup \<Rightarrow> 'v RawResult list \<Rightarrow> 'v RawResult list \<times> WaitGroup go" where
  "sendResults w [] = ([], Inr w)"
| "sendResults w (rr # rrs) = (case WaitGroup_Done w (rr_CodeID rr) of
     Inl p \<Rightarrow> ([], Inl p)
   | Inr (w, woken) \<Rightarrow> (case sendResults w rrs of (sent, r) \<Rightarrow> (rr # sent, r)))"

definition broadcast_result :: "CodeBundle \<Rightarrow> string \<Rightarrow> string \<Rightarrow> 'v RawResult" where
  "broadcast_result cb errMsg checksum = \<lparr>rr_CodeID = checksum, rr_Data = Some \<lparr>rd_Type = '''', rd_Value = None,
     rd_Error = Some (QueryRunError (cb_Id cb) (GoError errMsg))\<rparr>\<rparr>"

text \<open>The loop over the codepoints: each distinct one is added, and reported at once if the query cannot run.\<close>

fun await_codepoints ::
  "CodeBundle \<Rightarrow> string \<Rightarrow> string list \<Rightarrow> (string, unit) gomap \<Rightarrow> WaitGroup \<Rightarrow> 'v RawResult list \<times> WaitGroup go" where
  "await_codepoints cb errMsg [] checksums w = ([], Inr w)"
| "await_codepoints cb errMsg (c # cs) checksums w =
     (if has_key checksums c then await_codepoints cb errMsg cs checksums w
      else case WaitGroup_Add w c of
          Inl p \<Rightarrow> ([], Inl p)
        | Inr w \<Rightarrow>
            (case (if errMsg \<noteq> '''' then sendResults w [broadcast_result cb errMsg c] else ([], Inr w)) of
               (sent, Inl p) \<Rightarrow> (sent, Inl p)
             | (sent, Inr w) \<Rightarrow>
                 (case await_codepoints cb errMsg cs (map_put c () checksums) w of (sent', r) \<Rightarrow> (sent @ sent', r))))"

definition executeCodeBundle ::
  "(CodeBundle \<Rightarrow> (string, Primitive option) gomap \<Rightarrow> go_error + 'v RawResult list) \<Rightarrow> CodeBundle
     \<Rightarrow> (string, Primitive option) gomap \<Rightarrow> string \<Rightarrow> 'v RawResult list \<times> exec_end" where
  "executeCodeBundle engine cb props errMsg =
     (case await_codepoints cb errMsg (CodepointChecksums cb) [] NewWaitGroup of
        (sent, Inl p) \<Rightarrow> (sent, ExecPanic p)
      | (sent, Inr w) \<Rightarrow>
          if errMsg \<noteq> '''' then (sent, ExecOk)
          else (case engine cb props of
              Inl err \<Rightarrow> (sent, ExecError err)
            | Inr rrs \<Rightarrow>
                (case sendResults w rrs of
                   (sent', Inl p) \<Rightarrow> (sent @ sent', ExecPanic p)
                 | (sent', Inr w) \<Rightarrow> (sent @ sent', if may_return w then ExecOk else ExecError errQueryTimeout))))"

text \<open>The properties of an item, up to the first that errored; the map is visited in its list order.\<close>

fun item_props :: "(string, Result) gomap \<Rightarrow> (string, Primitive option) gomap \<Rightarrow> (string, Primitive option) gomap \<times> string" where
  "item_props [] props = (props, '''')"
| "item_props ((k, r) # rs) props =
     (if re_Error r \<noteq> '''' then (props, ''property '' @ k @ '' errored: '' @ re_Error r)
      else item_props rs (map_put k (re_Data r) props))"

definition run_item ::
  "(CodeBundle \<Rightarrow> (string, Primitive option) gomap \<Rightarrow> go_error + 'v RawResult list) \<Rightarrow> 'v runQueueItem
     \<Rightarrow> 'v RawResult list \<times> exec_end" where
  "run_item engine item =
     (case item_props (case ri_props item of None \<Rightarrow> [] | Some m \<Rightarrow> m) [] of
        (props, errMsg) \<Rightarrow> executeCodeBundle engine (ri_codeBundle item) props errMsg)"

text \<open>The loop of the goroutine over the items of the queue: it ends with the first that fails.\<close>

fun run_queue ::
  "(CodeBundle \<Rightarrow> (string, Primitive option) gomap \<Rightarrow> go_error + 'v RawResult list) \<Rightarrow> 'v runQueueItem list
     \<Rightarrow> 'v RawResult list \<times> exec_end" where
  "run_queue engine [] = ([], ExecOk)"
| "run_queue engine (item # items) =
     (case run_item engine item of
        (sent, ExecOk) \<Rightarrow> (case run_queue engine items of (sent', e) \<Rightarrow> (sent @ sent', e))
      | (sent, e) \<Rightarrow> (sent, e))"

subsection \<open>What a run sends\<close>

text \<open>The distinct elements of a list in the order of their first occurrence.\<close>

fun firsts :: "string set \<Rightarrow> string list \<Rightarrow> string list" where
  "firsts S [] = []"
| "firsts S (c # cs) = (if c \<in> S then firsts S cs else c # firsts (insert c S) cs)"

lemma set_firsts: "set (firsts S cs) = set cs - S"
  by (induction cs arbitrary: S) auto

lemma distinct_firsts: "distinct (firsts S cs)"
  by (induction cs arbitrary: S) (auto simp: set_firsts)

lemma Done_finish: "WaitGroup_Done w i = Inr (w', woken) \<Longrightarrow> finish_work w i = Inr w'"
  by (simp add: finish_work_def)

lemma Done_seen:
  assumes "i \<in> seen_ids w"
  obtains w' woken where "WaitGroup_Done w i = Inr (w', woken)" and "active_ids w' = active_ids w - {i}" and "seen_ids w' = seen_ids w"
proof -
  from wg.finish_seen [OF assms] obtain w' where
    w': "finish_work w i = Inr w'" "active_ids w' = active_ids w - {i}" "seen_ids w' = seen_ids w" by blast
  from w'(1) obtain woken where "WaitGroup_Done w i = Inr (w', woken)" by (auto simp: finish_work_def)
  with w' that show thesis by blast
qed

text \<open>The callback sends everything and finishes what was added.\<close>

lemma sendResults_ok:
  assumes "rr_CodeID ` set rrs \<subseteq> seen_ids w"
  shows "\<exists>w'. sendResults w rrs = (rrs, Inr w') \<and> active_ids w' = active_ids w - rr_CodeID ` set rrs \<and> seen_ids w' = seen_ids w"
  using assms
proof (induction rrs arbitrary: w)
  case (Cons rr rrs)
  from Cons.prems have "rr_CodeID rr \<in> seen_ids w" by simp
  then obtain w1 woken where 1: "WaitGroup_Done w (rr_CodeID rr) = Inr (w1, woken)"
    "active_ids w1 = active_ids w - {rr_CodeID rr}" "seen_ids w1 = seen_ids w" by (rule Done_seen)
  from Cons.IH [of w1] Cons.prems 1(3) obtain w2 where
    "sendResults w1 rrs = (rrs, Inr w2)" "active_ids w2 = active_ids w1 - rr_CodeID ` set rrs" "seen_ids w2 = seen_ids w1" by auto
  with 1 show ?case by auto
qed simp

lemma await_broadcast:
  assumes "errMsg \<noteq> ''''" and "active_ids w = {}"
  shows "\<exists>w'. await_codepoints cb errMsg cs checksums w =
    (map (broadcast_result cb errMsg :: string \<Rightarrow> 'v RawResult) (firsts (fst ` set checksums) cs), Inr w')"
  using assms(2)
proof (induction cs arbitrary: checksums w)
  case (Cons c cs)
  show ?case
  proof (cases "has_key checksums c")
    case True
    with Cons show ?thesis by simp
  next
    case False
    from wg.add_new [of c w] Cons.prems obtain w1 where
      1: "WaitGroup_Add w c = Inr w1" "active_ids w1 = {c}" "c \<in> seen_ids w1" by auto
    then obtain w2 where 2: "sendResults w1 [broadcast_result cb errMsg c :: 'v RawResult] = ([broadcast_result cb errMsg c], Inr w2)"
      "active_ids w2 = {}" using sendResults_ok [of "[broadcast_result cb errMsg c :: 'v RawResult]" w1] by (auto simp: broadcast_result_def)
    from Cons.IH [OF 2(2), of "map_put c () checksums"] obtain w3 where
      "await_codepoints cb errMsg cs (map_put c () checksums) w2 =
        (map (broadcast_result cb errMsg :: string \<Rightarrow> 'v RawResult) (firsts (insert c (fst ` set checksums)) cs), Inr w3)" by (auto simp: keys_put)
    with False 1(1) 2(1) assms(1) show ?thesis by (simp del: sendResults.simps)
  qed
qed simp

lemma await_plain:
  assumes "active_ids w \<subseteq> fst ` set checksums"
  shows "\<exists>w'. await_codepoints cb '''' cs checksums w = ([] :: 'v RawResult list, Inr w')
    \<and> active_ids w' = active_ids w \<union> (set cs - fst ` set checksums)
    \<and> seen_ids w' = seen_ids w \<union> (set cs - fst ` set checksums)"
  using assms
proof (induction cs arbitrary: checksums w)
  case (Cons c cs)
  show ?case
  proof (cases "has_key checksums c")
    case True
    with Cons.IH [OF Cons.prems] show ?thesis by auto
  next
    case False
    with Cons.prems have "c \<notin> active_ids w" by blast
    from wg.add_new [OF this] obtain w1 where
      1: "WaitGroup_Add w c = Inr w1" "active_ids w1 = insert c (active_ids w)" "seen_ids w1 = insert c (seen_ids w)" by blast
    from Cons.prems 1(2) have "active_ids w1 \<subseteq> fst ` set (map_put c () checksums)" by (auto simp: keys_put)
    from Cons.IH [OF this] obtain w2 where
      "await_codepoints cb '''' cs (map_put c () checksums) w1 = ([] :: 'v RawResult list, Inr w2)"
      "active_ids w2 = active_ids w1 \<union> (set cs - insert c (fst ` set checksums))"
      "seen_ids w2 = seen_ids w1 \<union> (set cs - insert c (fst ` set checksums))" by (auto simp: keys_put)
    with False 1 show ?thesis by auto
  qed
qed simp

lemma new_ids [simp]: "active_ids NewWaitGroup = {}" "seen_ids NewWaitGroup = {}"
  by (simp_all add: active_ids_def seen_ids_def NewWaitGroup_def)

lemma may_return_iff: "may_return w \<longleftrightarrow> wg_decommissioned w \<or> active_ids w = {}"
  by (simp add: may_return_def active_ids_def)

text \<open>Nothing decommissions the group while a code bundle runs.\<close>

lemma sendResults_running: "sendResults w rrs = (sent, Inr w') \<Longrightarrow> wg_decommissioned w' = wg_decommissioned w"
  by (induction rrs arbitrary: w sent) (auto simp: WaitGroup_Done_def Let_def split: if_splits sum.splits prod.splits)

lemma await_running:
  "await_codepoints cb '''' cs checksums w = (sent, Inr w') \<Longrightarrow> wg_decommissioned w' = wg_decommissioned w"
  by (induction cs arbitrary: w checksums sent) (auto simp: WaitGroup_Add_def split: if_splits sum.splits prod.splits)

text \<open>A query whose properties errored is not run: one placeholder is sent for each of its distinct
  datapoints, in their order, and the manager goes on.\<close>

theorem errored_query_broadcasts_placeholders:
  assumes "errMsg \<noteq> ''''"
  shows "executeCodeBundle engine cb props errMsg = (map (broadcast_result cb errMsg :: string \<Rightarrow> 'v RawResult) (firsts {} (CodepointChecksums cb)), ExecOk)"
proof -
  from await_broadcast [OF assms, of NewWaitGroup cb "CodepointChecksums cb" "[]"] obtain w' where
    "await_codepoints cb errMsg (CodepointChecksums cb) [] NewWaitGroup =
      (map (broadcast_result cb errMsg :: string \<Rightarrow> 'v RawResult) (firsts {} (CodepointChecksums cb)), Inr w')" by auto
  with assms show ?thesis by (simp add: executeCodeBundle_def)
qed

text \<open>If the engine starts and reports datapoints of the query only, each as often as it likes, the run
  does not panic and every result is sent; it succeeds if all datapoints were reported before the timer
  fires, else it ends with the timeout error.\<close>

theorem query_run_sends_all:
  assumes "engine cb props = Inr rrs" and "rr_CodeID ` set rrs \<subseteq> set (CodepointChecksums cb)"
  shows "executeCodeBundle engine cb props '''' =
    (rrs, if set (CodepointChecksums cb) \<subseteq> rr_CodeID ` set rrs then ExecOk else ExecError errQueryTimeout)"
proof -
  from await_plain [of NewWaitGroup "[]" cb "CodepointChecksums cb"] obtain w where
    w: "await_codepoints cb '''' (CodepointChecksums cb) [] NewWaitGroup = ([] :: 'a RawResult list, Inr w)"
    "active_ids w = set (CodepointChecksums cb)" "seen_ids w = set (CodepointChecksums cb)" by auto
  from sendResults_ok [of rrs w] assms(2) w(3) obtain w' where
    w': "sendResults w rrs = (rrs, Inr w')" "active_ids w' = active_ids w - rr_CodeID ` set rrs" by auto
  have "\<not> wg_decommissioned w'" using sendResults_running [OF w'(1)] await_running [OF w(1)] by (simp add: NewWaitGroup_def)
  then have "may_return w' \<longleftrightarrow> set (CodepointChecksums cb) \<subseteq> rr_CodeID ` set rrs"
    using w'(2) w(2) by (simp add: may_return_iff)
  with w(1) w'(1) assms(1) show ?thesis by (simp add: executeCodeBundle_def)
qed

definition two_points :: CodeBundle where
  "two_points = \<lparr>cb_Id = ''q'', cb_MinMondooVersion = '''', cb_Checksums = [(1, ''a''), (2, ''b'')],
     cb_Entrypoints = [1], cb_Datapoints = [2, 1]\<rparr>"

theorem errored_query_broadcasts_placeholders_witness:
  "executeCodeBundle (\<lambda>cb props. Inr ([] :: nat RawResult list)) two_points [] ''no'' =
     ([broadcast_result two_points ''no'' ''a'', broadcast_result two_points ''no'' ''b''], ExecOk)"
  by (subst errored_query_broadcasts_placeholders)
    (simp_all add: CodepointChecksums_def EntrypointChecksums_def DatapointChecksums_def checksum_of_def two_points_def)

theorem query_run_sends_all_witness:
  "executeCodeBundle (\<lambda>cb props. Inr [broadcast_result cb '''' ''a'' :: nat RawResult]) two_points [] '''' =
     ([broadcast_result two_points '''' ''a''], ExecError errQueryTimeout)"
  by (subst query_run_sends_all [OF refl])
    (simp_all add: CodepointChecksums_def EntrypointChecksums_def DatapointChecksums_def checksum_of_def two_points_def
      broadcast_result_def)

end
