(* ===== verification/Query_Executor.thy ===== *)
theory Query_Executor
  imports Execution_Manager
begin

text \<open>
  The stand-alone query executor (\<open>policy/executor/executor.go\<close>): code bundles are added and removed, the
  engine reports results by a callback, watchers are told of them. The engine (\<open>llx\<close>), its error
  deduplication (\<open>DictGroupTracker\<close>, with states \<open>'t\<close>) and the version library are the fields of
  \<open>engine\<close>. The thread-safe maps are Go maps here: each operation on one is atomic, and the operations of
  the executor are modelled as they run without interference. Results the engine reports are calls of
  \<open>onResult\<close> after \<open>AddCodeBundle\<close>; they carry the wait group and the maps of the time the code was added.
\<close>

record ('v, 't, 'r) engine =
  en_New :: "CodeBundle \<Rightarrow> go_error option"
  en_Run :: "CodeBundle \<Rightarrow> go_error option"
  en_Score :: "'v RawData \<Rightarrow> int option"
  en_IsTruthy :: "'v RawData \<Rightarrow> bool"
  en_Nil :: string
  en_NilData :: "'v RawData"
  en_BoolTrue :: "'v RawData"
  en_BoolFalse :: "'v RawData"
  en_CheckOrSet :: "'t \<Rightarrow> string \<Rightarrow> string \<Rightarrow> bool \<times> 't"
  en_ClearGroup :: "'t \<Rightarrow> string \<Rightarrow> 't"
  en_Clear :: "'t \<Rightarrow> 't"
  en_version :: "string \<Rightarrow> 'r option"
  en_older :: "'r \<Rightarrow> 'r \<Rightarrow> bool"
  en_core :: string

text \<open>What a callback captures: the wait group, the results and the scores.\<close>

record 'v stores =
  st_waitGroup :: WaitGroup
  st_Results :: "(string, 'v RawResult) gomap"
  st_ScoreResults :: "(string, int) gomap"

record ('v, 't) Executor =
  xe_stores :: "'v stores"
  xe_RunningCode :: "(string, CodeBundle) gomap"
  xe_CodeID2Bundle :: "(string, (string, unit) gomap) gomap"
  xe_bundleErrors :: 't
  xe_executors :: "(string, unit) gomap"
  xe_watchers :: "(string, unit) gomap"
  xe_seen :: "(string \<times> 'v RawResult) list"

text \<open>\<open>xe_seen\<close> records what the watchers were told, in order.\<close>

definition empty_stores :: "'v stores" where
  "empty_stores = \<lparr>st_waitGroup = NewWaitGroup, st_Results = [], st_ScoreResults = []\<rparr>"

definition New :: "('v, 't, 'r) engine \<Rightarrow> 't \<Rightarrow> ('v, 't) Executor" where
  "New en t = \<lparr>xe_stores = empty_stores, xe_RunningCode = [], xe_CodeID2Bundle = [],
     xe_bundleErrors = en_Clear en t, xe_executors = [], xe_watchers = [], xe_seen = []\<rparr>"

definition AddWatcher :: "string \<Rightarrow> ('v, 't) Executor \<Rightarrow> ('v, 't) Executor" where
  "AddWatcher w e = e\<lparr>xe_watchers := map_put w () (xe_watchers e)\<rparr>"

definition RemoveWatcher :: "string \<Rightarrow> ('v, 't) Executor \<Rightarrow> ('v, 't) Executor" where
  "RemoveWatcher w e = e\<lparr>xe_watchers := map_del w (xe_watchers e)\<rparr>"

definition notify_watchers :: "'v RawResult \<Rightarrow> ('v, 't) Executor \<Rightarrow> ('v, 't) Executor" where
  "notify_watchers res e = e\<lparr>xe_seen := xe_seen e @ map (\<lambda>(w, x). (w, res)) (xe_watchers e)\<rparr>"

definition AreAllResultsCollected :: "('v, 't) Executor \<Rightarrow> bool" where
  "AreAllResultsCollected e = list_all (\<lambda>(k, x). has_key (st_ScoreResults (xe_stores e)) k) (xe_RunningCode e)"

subsection \<open>The result of a bundle\<close>

record 'v bundle_acc =
  ba_allFound :: bool
  ba_allSkipped :: bool
  ba_allTrue :: bool
  ba_foundError :: bool
  ba_scoreFound :: "'v RawData option"
  ba_score :: int
  ba_errorsMsg :: string

definition bundle_start :: "'v bundle_acc" where
  "bundle_start = \<lparr>ba_allFound = True, ba_allSkipped = True, ba_allTrue = True, ba_foundError = False,
     ba_scoreFound = None, ba_score = 0, ba_errorsMsg = ''''\<rparr>"

fun bundle_loop ::
  "('v, 't, 'r) engine \<Rightarrow> (string, 'v RawResult) gomap \<Rightarrow> string list \<Rightarrow> 'v bundle_acc \<Rightarrow> 'v bundle_acc go" where
  "bundle_loop en results [] acc = Inr acc"
| "bundle_loop en results (checksum # cs) acc =
     (case map_get results checksum of
        None \<Rightarrow> Inr (acc\<lparr>ba_allFound := False\<rparr>)
      | Some cur \<Rightarrow> go_bind (go_deref (rr_Data cur)) (\<lambda>d. bundle_loop en results cs
          (case rd_Error d of
             Some err \<Rightarrow> acc\<lparr>ba_allSkipped := False, ba_foundError := True,
               ba_errorsMsg := (if ba_errorsMsg acc \<noteq> '''' then ba_errorsMsg acc @ ''; '' else ba_errorsMsg acc) @ error_message err\<rparr>
           | None \<Rightarrow>
               if rd_Value d \<noteq> None then
                 (let acc = acc\<lparr>ba_allSkipped := False\<rparr> in
                  case en_Score en d of
                    Some v \<Rightarrow> acc\<lparr>ba_scoreFound := Some d, ba_score := v\<rparr>
                  | None \<Rightarrow> if \<not> en_IsTruthy en d then acc\<lparr>ba_allTrue := False\<rparr> else acc)
               else acc)))"

definition bundle_score :: "'v bundle_acc \<Rightarrow> int" where
  "bundle_score acc = (if ba_foundError acc then 0 else if ba_scoreFound acc \<noteq> None then ba_score acc
     else if ba_allTrue acc then 100 else 0)"

definition bundle_data :: "('v, 't, 'r) engine \<Rightarrow> 'v bundle_acc \<Rightarrow> 'v RawData" where
  "bundle_data en acc =
     (if ba_foundError acc then \<lparr>rd_Type = en_Nil en, rd_Value = None, rd_Error = Some (GoError (ba_errorsMsg acc))\<rparr>
      else if ba_allSkipped acc then en_NilData en
      else case ba_scoreFound acc of Some d \<Rightarrow> d
        | None \<Rightarrow> if ba_allTrue acc then en_BoolTrue en else en_BoolFalse en)"

definition updateBundle :: "('v, 't, 'r) engine \<Rightarrow> string \<Rightarrow> ('v, 't) Executor \<Rightarrow> ('v, 't) Executor go" where
  "updateBundle en bundleID e =
     (case map_get (xe_RunningCode e) bundleID of
        None \<Rightarrow> Inr e
      | Some bundle \<Rightarrow>
          go_bind (bundle_loop en (st_Results (xe_stores e)) (EntrypointChecksums bundle) bundle_start) (\<lambda>acc.
            if \<not> ba_allFound acc then Inr e
            else
              let e = e\<lparr>xe_stores := (xe_stores e)\<lparr>st_ScoreResults :=
                      map_put bundleID (bundle_score acc) (st_ScoreResults (xe_stores e))\<rparr>\<rparr>
              in Inr (notify_watchers \<lparr>rr_CodeID = bundleID, rr_Data = Some (bundle_data en acc)\<rparr> e)))"

definition tryUpdateBundles :: "('v, 't, 'r) engine \<Rightarrow> string \<Rightarrow> ('v, 't) Executor \<Rightarrow> ('v, 't) Executor go" where
  "tryUpdateBundles en codeID e =
     (case map_get (xe_CodeID2Bundle e) codeID of
        None \<Rightarrow> Inr e
      | Some bundles \<Rightarrow> go_fold (\<lambda>e b. updateBundle en b e) e (map fst bundles))"

subsection \<open>Results\<close>

definition isKnownError ::
  "('v, 't, 'r) engine \<Rightarrow> string \<Rightarrow> go_error option \<Rightarrow> ('v, 't) Executor \<Rightarrow> bool \<times> ('v, 't) Executor" where
  "isKnownError en codeID err e =
     (case err of None \<Rightarrow> (False, e)
      | Some er \<Rightarrow>
          let bundles = (case map_get (xe_CodeID2Bundle e) codeID of None \<Rightarrow> [] | Some bs \<Rightarrow> map fst bs);
              (isUnknown, t) = foldl (\<lambda>(unknown, t) b. case en_CheckOrSet en t b (error_message er) of
                  (ex, t) \<Rightarrow> (unknown \<or> \<not> ex, t)) (False, xe_bundleErrors e) bundles
          in (\<not> isUnknown, e\<lparr>xe_bundleErrors := t\<rparr>))"

text \<open>
  A callback whose captured stores are those of the executor updates both; one from before a reset
  (\<open>stale\<close>) updates the captured stores alone. The captured stores are an argument and part of the result.
\<close>

definition store_result :: "('v, 't, 'r) engine \<Rightarrow> 'v RawResult \<Rightarrow> 'v RawData \<Rightarrow> 'v stores \<Rightarrow> 'v stores" where
  "store_result en res d st =
     (let score = (case en_Score en d of Some v \<Rightarrow> v | None \<Rightarrow> 0);
          put = st\<lparr>st_ScoreResults := map_put (rr_CodeID res) score (st_ScoreResults st),
                  st_Results := map_put (rr_CodeID res) res (st_Results st)\<rparr>
      in case map_get (st_ScoreResults st) (rr_CodeID res) of
           None \<Rightarrow> put
         | Some old \<Rightarrow> if old \<noteq> score then put else st)"

definition onResult ::
  "('v, 't, 'r) engine \<Rightarrow> bool \<Rightarrow> 'v RawResult \<Rightarrow> 'v stores \<Rightarrow> ('v, 't) Executor \<Rightarrow> ('v stores \<times> ('v, 't) Executor) go" where
  "onResult en stale res st e =
     (if rr_CodeID res = '''' then Inr (st, e)
      else go_bind (go_deref (rr_Data res)) (\<lambda>d.
        let existing = has_key (st_ScoreResults st) (rr_CodeID res);
            st = store_result en res d st;
            e = (if stale then e else e\<lparr>xe_stores := st\<rparr>);
            (known, e) = isKnownError en (rr_CodeID res) (rd_Error d) e;
            e = (if known then e else notify_watchers res e)
        in go_bind (if \<not> IsDecommissioned (st_waitGroup st) then tryUpdateBundles en (rr_CodeID res) e else Inr e) (\<lambda>e.
          let st = (if stale then st else xe_stores e) in
          if existing then Inr (st, e)
          else go_bind (finish_work (st_waitGroup st) (rr_CodeID res)) (\<lambda>w.
            let st = st\<lparr>st_waitGroup := w\<rparr> in Inr (st, if stale then e else e\<lparr>xe_stores := st\<rparr>)))))"

subsection \<open>Adding and removing code\<close>

definition isRunSafe :: "('v, 't, 'r) engine \<Rightarrow> CodeBundle \<Rightarrow> bool" where
  "isRunSafe en cb =
     (if cb_MinMondooVersion cb = '''' \<or> en_core en = ''unstable'' then True
      else case (en_version en (cb_MinMondooVersion cb), en_version en (en_core en)) of
          (Some reqMin, Some curMin) \<Rightarrow> \<not> en_older en curMin reqMin
        | _ \<Rightarrow> True)"

definition increment_one :: "string \<Rightarrow> ('v, 't) Executor \<Rightarrow> string \<Rightarrow> ('v, 't) Executor go" where
  "increment_one codeID e checksum =
     (let members = (case map_get (xe_CodeID2Bundle e) checksum of None \<Rightarrow> [] | Some g \<Rightarrow> g) in
      go_bind (if has_key (xe_CodeID2Bundle e) checksum then Inr (st_waitGroup (xe_stores e))
               else WaitGroup_Add (st_waitGroup (xe_stores e)) checksum) (\<lambda>w.
        Inr (e\<lparr>xe_CodeID2Bundle := map_put checksum (map_put codeID () members) (xe_CodeID2Bundle e),
              xe_stores := (xe_stores e)\<lparr>st_waitGroup := w\<rparr>\<rparr>)))"

definition incrementWaitGroup :: "CodeBundle \<Rightarrow> ('v, 't) Executor \<Rightarrow> ('v, 't) Executor go" where
  "incrementWaitGroup cb e = go_fold (increment_one (cb_Id cb)) e (CodepointChecksums cb)"

definition decrement_one :: "string \<Rightarrow> ('v, 't) Executor \<Rightarrow> string \<Rightarrow> ('v, 't) Executor go" where
  "decrement_one codeID e checksum =
     (case map_get (xe_CodeID2Bundle e) checksum of
        None \<Rightarrow> Inr e
      | Some members \<Rightarrow>
          let members = map_del codeID members in
          if length members = 0 then
            let e = e\<lparr>xe_CodeID2Bundle := map_del checksum (xe_CodeID2Bundle e)\<rparr>; st = xe_stores e in
            if has_key (st_ScoreResults st) checksum then
              go_bind (finish_work (st_waitGroup st) checksum) (\<lambda>w.
                Inr (e\<lparr>xe_stores := st\<lparr>st_waitGroup := w,
                  st_ScoreResults := map_del checksum (st_ScoreResults st)\<rparr>\<rparr>))
            else Inr e
          else Inr (e\<lparr>xe_CodeID2Bundle := map_put checksum members (xe_CodeID2Bundle e)\<rparr>))"

definition decrementWaitGroup :: "CodeBundle \<Rightarrow> ('v, 't) Executor \<Rightarrow> ('v, 't) Executor go" where
  "decrementWaitGroup cb e =
     go_bind (go_fold (decrement_one (cb_Id cb)) e (CodepointChecksums cb)) (\<lambda>e.
       Inr (e\<lparr>xe_stores := (xe_stores e)\<lparr>st_ScoreResults := map_del (cb_Id cb) (st_ScoreResults (xe_stores e))\<rparr>\<rparr>))"

definition RemoveCode :: "string \<Rightarrow> ('v, 't) Executor \<Rightarrow> ('v, 't) Executor go" where
  "RemoveCode codeID e =
     (let cb = map_get (xe_RunningCode e) codeID;
          e = e\<lparr>xe_RunningCode := map_del codeID (xe_RunningCode e), xe_executors := map_del codeID (xe_executors e)\<rparr>
      in case cb of None \<Rightarrow> Inr e | Some cb \<Rightarrow> decrementWaitGroup cb e)"

text \<open>The error returned, and the executor after the call.\<close>

definition AddCodeBundle ::
  "('v, 't, 'r) engine \<Rightarrow> CodeBundle \<Rightarrow> ('v, 't) Executor \<Rightarrow> (go_error option \<times> ('v, 't) Executor) go" where
  "AddCodeBundle en cb e =
     (let org = map_get (xe_RunningCode e) (cb_Id cb) in
      if (case org of Some o' \<Rightarrow> cb_Id o' = cb_Id cb | None \<Rightarrow> False) then Inr (None, e)
      else go_bind (case org of Some o' \<Rightarrow> RemoveCode (cb_Id cb) e | None \<Rightarrow> Inr e) (\<lambda>e.
        let e = e\<lparr>xe_RunningCode := map_put (cb_Id cb) cb (xe_RunningCode e),
                  xe_bundleErrors := en_ClearGroup en (xe_bundleErrors e) (cb_Id cb)\<rparr> in
        if length (CodepointChecksums cb) = 0 then map_sum id (\<lambda>e. (None, e)) (updateBundle en (cb_Id cb) e)
        else go_bind (incrementWaitGroup cb e) (\<lambda>e.
          case en_New en cb of
            Some err \<Rightarrow> Inr (Some err, e)
          | None \<Rightarrow>
              (case (if isRunSafe en cb then en_Run en cb else None) of
                 Some err \<Rightarrow> Inr (Some err, e)
               | None \<Rightarrow> Inr (None, e\<lparr>xe_executors := map_put (cb_Id cb) () (xe_executors e)\<rparr>)))))"

definition DecommissionAndReset :: "('v, 't, 'r) engine \<Rightarrow> ('v, 't) Executor \<Rightarrow> ('v, 't) Executor go" where
  "DecommissionAndReset en e =
     (let wg = fst (Decommission (st_waitGroup (xe_stores e)));
          e = e\<lparr>xe_watchers := [], xe_stores := \<lparr>st_waitGroup = wg, st_Results = [], st_ScoreResults = []\<rparr>\<rparr>
      in go_bind (go_fold (\<lambda>e k. RemoveCode k e) e (map fst (xe_RunningCode e))) (\<lambda>e.
           Inr (e\<lparr>xe_stores := (xe_stores e)\<lparr>st_waitGroup := NewWaitGroup\<rparr>, xe_CodeID2Bundle := [],
                 xe_bundleErrors := en_Clear en (xe_bundleErrors e)\<rparr>)))"

subsection \<open>Waiting\<close>

text \<open>\<open>WaitForResults\<close> gives true when the group lets it return before the timeout.\<close>

definition WaitForResults :: "('v, 't) Executor \<Rightarrow> bool" where
  "WaitForResults e = may_return (st_waitGroup (xe_stores e))"

record MissingQuery =
  mq_Bundle :: CodeBundle
  mq_Entrypoints :: "string list"

definition MissingQueries :: "('v, 't) Executor \<Rightarrow> MissingQuery list" where
  "MissingQueries e = concat (map (\<lambda>(codeID, bundle).
     let missing = filter (\<lambda>c. \<not> has_key (st_ScoreResults (xe_stores e)) c) (codeID # EntrypointChecksums bundle)
     in if missing \<noteq> [] then [\<lparr>mq_Bundle = bundle, mq_Entrypoints = missing\<rparr>] else []) (xe_RunningCode e))"

end
