(* ===== verification/Query_Executor_Results.thy ===== *)
theory Query_Executor_Results
  imports Query_Executor
begin

text \<open>
  What the stand-alone query executor guarantees and what it does not. \<open>executor_inv\<close> is the invariant
  of an executor no code is removed from: what is active in its wait group is what was added and has not
  been reported. \<open>increment_fresh\<close> and \<open>decrement_unreported\<close> follow the removal of unfinished code.
\<close>

subsection \<open>Removing code that has not reported\<close>

text \<open>What adding the codepoints of a bundle to an executor without any does.\<close>

lemma increment_fresh:
  assumes "st_ScoreResults (xe_stores e) = []" and "active_ids (st_waitGroup (xe_stores e)) = fst ` set (xe_CodeID2Bundle e)"
    and "\<forall>(c, g) \<in> set (xe_CodeID2Bundle e). g = [(k, ())]"
  shows "\<exists>w m. go_fold (increment_one k) e cs = Inr (e\<lparr>xe_CodeID2Bundle := m, xe_stores := (xe_stores e)\<lparr>st_waitGroup := w\<rparr>\<rparr>)
    \<and> active_ids w = fst ` set m \<and> fst ` set m = fst ` set (xe_CodeID2Bundle e) \<union> set cs \<and> (\<forall>(c, g) \<in> set m. g = [(k, ())])"
  using assms
proof (induction cs arbitrary: e)
  case Nil
  then show ?case by (intro exI [of _ "st_waitGroup (xe_stores e)"] exI [of _ "xe_CodeID2Bundle e"]) simp
next
  case (Cons c cs)
  let ?old = "xe_CodeID2Bundle e"
  obtain w where w: "(if has_key ?old c then Inr (st_waitGroup (xe_stores e)) else WaitGroup_Add (st_waitGroup (xe_stores e)) c) = Inr w"
    "active_ids w = insert c (fst ` set ?old)"
    using wg.add_new [of c "st_waitGroup (xe_stores e)"] Cons.prems(2) by (cases "has_key ?old c") auto
  let ?m = "map_put c [(k, ())] ?old"
  have g: "map_put k () (case map_get ?old c of None \<Rightarrow> [] | Some g \<Rightarrow> g) = [(k, ())]"
    using Cons.prems(3) by (auto split: option.splits dest!: map_of_SomeD)
  let ?e = "e\<lparr>xe_CodeID2Bundle := ?m, xe_stores := (xe_stores e)\<lparr>st_waitGroup := w\<rparr>\<rparr>"
  have 1: "increment_one k e c = Inr ?e" using w(1) g by (simp add: increment_one_def Let_def split: if_splits)
  have "\<forall>(c, g) \<in> set ?m. g = [(k, ())]" using Cons.prems(3) by (auto dest!: set_map_put)
  with Cons.IH [of ?e] Cons.prems(1) w(2) obtain w' m' where
    "go_fold (increment_one k) ?e cs = Inr (?e\<lparr>xe_CodeID2Bundle := m', xe_stores := (xe_stores ?e)\<lparr>st_waitGroup := w'\<rparr>\<rparr>)"
    "active_ids w' = fst ` set m'" "fst ` set m' = fst ` set ?m \<union> set cs" "\<forall>(c, g) \<in> set m'. g = [(k, ())]"
    by (auto simp: keys_put)
  with 1 show ?case by (intro exI [of _ w'] exI [of _ m']) (simp add: keys_put)
qed

lemma decrement_unreported:
  assumes "st_ScoreResults (xe_stores e) = []" and "\<forall>(c, g) \<in> set (xe_CodeID2Bundle e). g = [(k, ())]"
  shows "\<exists>m. go_fold (decrement_one k) e cs = Inr (e\<lparr>xe_CodeID2Bundle := m\<rparr>)
    \<and> fst ` set m = fst ` set (xe_CodeID2Bundle e) - set cs \<and> (\<forall>(c, g) \<in> set m. g = [(k, ())])"
  using assms
proof (induction cs arbitrary: e)
  case Nil
  then show ?case by (intro exI [of _ "xe_CodeID2Bundle e"]) simp
next
  case (Cons c cs)
  let ?m = "map_del c (xe_CodeID2Bundle e)"
  have 1: "decrement_one k e c = Inr (e\<lparr>xe_CodeID2Bundle := ?m\<rparr>)"
  proof (cases "map_get (xe_CodeID2Bundle e) c")
    case None
    then have "?m = xe_CodeID2Bundle e" by (simp add: delete_idem map_get_None_iff)
    with None show ?thesis by (simp add: decrement_one_def)
  next
    case (Some g)
    with Cons.prems(2) have "g = [(k, ())]" by (auto dest!: map_of_SomeD)
    with Some Cons.prems(1) show ?thesis by (simp add: decrement_one_def Let_def)
  qed
  have "\<forall>(c, g) \<in> set ?m. g = [(k, ())]" using Cons.prems(2) by (auto simp: AList.delete_eq)
  with Cons.IH [of "e\<lparr>xe_CodeID2Bundle := ?m\<rparr>"] Cons.prems(1) obtain m' where
    "go_fold (decrement_one k) (e\<lparr>xe_CodeID2Bundle := ?m\<rparr>) cs = Inr (e\<lparr>xe_CodeID2Bundle := m'\<rparr>)"
    "fst ` set m' = fst ` set ?m - set cs" "\<forall>(c, g) \<in> set m'. g = [(k, ())]" by auto
  moreover have "fst ` set ?m = fst ` set (xe_CodeID2Bundle e) - {c}" by (auto simp: AList.delete_eq)
  ultimately show ?case using 1 by (intro exI [of _ m']) auto
qed

lemma increment_running:
  assumes "go_fold (increment_one k) e cs = Inr e'"
  shows "wg_decommissioned (st_waitGroup (xe_stores e')) = wg_decommissioned (st_waitGroup (xe_stores e))"
  using assms
proof (induction cs arbitrary: e)
  case (Cons c cs)
  then obtain e1 where 1: "increment_one k e c = Inr e1" "go_fold (increment_one k) e1 cs = Inr e'"
    by (auto simp: go_bind_Inr_iff)
  from 1(1) have "wg_decommissioned (st_waitGroup (xe_stores e1)) = wg_decommissioned (st_waitGroup (xe_stores e))"
    by (auto simp: increment_one_def go_bind_Inr_iff Let_def WaitGroup_Add_def split: if_splits)
  with Cons.IH [OF 1(2)] show ?case by simp
qed simp

text \<open>Adding code that is not running.\<close>

lemma AddCodeBundle_new:
  assumes "map_get (xe_RunningCode e) (cb_Id cb) = None" and "CodepointChecksums cb \<noteq> []"
    and "e0 = e\<lparr>xe_RunningCode := map_put (cb_Id cb) cb (xe_RunningCode e),
          xe_bundleErrors := en_ClearGroup en (xe_bundleErrors e) (cb_Id cb)\<rparr>"
  shows "incrementWaitGroup cb e0 = Inr e' \<Longrightarrow> \<exists>err xs. AddCodeBundle en cb e = Inr (err, e'\<lparr>xe_executors := xs\<rparr>)"
    and "incrementWaitGroup cb e0 = Inl p \<Longrightarrow> AddCodeBundle en cb e = Inl p"
proof -
  have a: "AddCodeBundle en cb e = go_bind (incrementWaitGroup cb e0) (\<lambda>e.
          case en_New en cb of
            Some err \<Rightarrow> Inr (Some err, e)
          | None \<Rightarrow>
              (case (if isRunSafe en cb then en_Run en cb else None) of
                 Some err \<Rightarrow> Inr (Some err, e)
               | None \<Rightarrow> Inr (None, e\<lparr>xe_executors := map_put (cb_Id cb) () (xe_executors e)\<rparr>)))"
    using assms by (simp add: AddCodeBundle_def Let_def)
  show "\<exists>err xs. AddCodeBundle en cb e = Inr (err, e'\<lparr>xe_executors := xs\<rparr>)" if i: "incrementWaitGroup cb e0 = Inr e'"
  proof -
    have keep: "e' = e'\<lparr>xe_executors := xe_executors e'\<rparr>" by simp
    consider err where "en_New en cb = Some err"
      | err where "en_New en cb = None" "(if isRunSafe en cb then en_Run en cb else None) = Some err"
      | "en_New en cb = None" "(if isRunSafe en cb then en_Run en cb else None) = None" by fastforce
    then show ?thesis
    proof cases
      case 1
      with a i have "AddCodeBundle en cb e = Inr (Some err, e')" by simp
      with keep show ?thesis by metis
    next
      case 2
      with a i have "AddCodeBundle en cb e = Inr (Some err, e')" by (simp del: if_split)
      with keep show ?thesis by metis
    next
      case 3
      with a i have "AddCodeBundle en cb e = Inr (None, e'\<lparr>xe_executors := map_put (cb_Id cb) () (xe_executors e')\<rparr>)"
        by (simp split del: if_split)
      then show ?thesis by blast
    qed
  qed
  show "incrementWaitGroup cb e0 = Inl p \<Longrightarrow> AddCodeBundle en cb e = Inl p" using a by simp
qed

text \<open>Code that is removed before its results arrived leaves its work in the wait group: waiting for
  results cannot end before the timeout any more, and adding the same code again panics.\<close>

theorem readding_unfinished_code_panics:
  assumes "CodepointChecksums cb = c # cs"
  shows "\<exists>err e1 e2. AddCodeBundle en cb (New en t) = Inr (err, e1) \<and> RemoveCode (cb_Id cb) e1 = Inr e2
    \<and> \<not> WaitForResults e2 \<and> AddCodeBundle en cb e2 = Inl (DuplicateWorkID c)"
proof -
  let ?k = "cb_Id cb"
  define e0 where "e0 = (New en t)\<lparr>xe_RunningCode := map_put ?k cb (xe_RunningCode (New en t)),
     xe_bundleErrors := en_ClearGroup en (xe_bundleErrors (New en t)) ?k\<rparr>"
  have e0: "xe_stores e0 = empty_stores" "xe_CodeID2Bundle e0 = []" "xe_RunningCode e0 = [(?k, cb)]"
    by (simp_all add: e0_def New_def)
  then have "st_ScoreResults (xe_stores e0) = []" "active_ids (st_waitGroup (xe_stores e0)) = fst ` set (xe_CodeID2Bundle e0)"
    "\<forall>(c, g) \<in> set (xe_CodeID2Bundle e0). g = [(?k, ())]" by (simp_all add: empty_stores_def)
  from increment_fresh [OF this, of "c # cs"] obtain w m where
    inc: "go_fold (increment_one ?k) e0 (c # cs) = Inr (e0\<lparr>xe_CodeID2Bundle := m, xe_stores := (xe_stores e0)\<lparr>st_waitGroup := w\<rparr>\<rparr>)"
    and w: "active_ids w = fst ` set m" and m: "fst ` set m = set (c # cs)" "\<forall>(c, g) \<in> set m. g = [(?k, ())]"
    unfolding e0(2) by auto
  have run: "\<not> wg_decommissioned w" using increment_running [OF inc] by (simp add: e0(1) empty_stores_def NewWaitGroup_def)
  let ?e = "e0\<lparr>xe_CodeID2Bundle := m, xe_stores := (xe_stores e0)\<lparr>st_waitGroup := w\<rparr>\<rparr>"
  have ne: "CodepointChecksums cb \<noteq> []" using assms by simp
  have "incrementWaitGroup cb e0 = Inr ?e" using inc by (simp add: incrementWaitGroup_def assms)
  moreover have "map_get (xe_RunningCode (New en t)) ?k = None" by (simp add: New_def)
  ultimately obtain err xs where a: "AddCodeBundle en cb (New en t) = Inr (err, ?e\<lparr>xe_executors := xs\<rparr>)"
    using AddCodeBundle_new(1) [OF _ ne e0_def] by blast
  let ?e1 = "?e\<lparr>xe_executors := xs\<rparr>"
  let ?r = "?e1\<lparr>xe_RunningCode := map_del ?k (xe_RunningCode ?e1), xe_executors := map_del ?k (xe_executors ?e1)\<rparr>"
  have "st_ScoreResults (xe_stores ?r) = []" "\<forall>(c, g) \<in> set (xe_CodeID2Bundle ?r). g = [(?k, ())]"
    using m(2) by (simp_all add: e0(1) empty_stores_def)
  from decrement_unreported [OF this, of "c # cs"] obtain m2 where
    dec: "go_fold (decrement_one ?k) ?r (c # cs) = Inr (?r\<lparr>xe_CodeID2Bundle := m2\<rparr>)" and "fst ` set m2 = {}"
    using m(1) by auto
  then have m2: "m2 = []" by simp
  have "RemoveCode ?k ?e1 = go_bind (go_fold (decrement_one ?k) ?r (CodepointChecksums cb)) (\<lambda>e.
       Inr (e\<lparr>xe_stores := (xe_stores e)\<lparr>st_ScoreResults := map_del ?k (st_ScoreResults (xe_stores e))\<rparr>\<rparr>))"
    by (simp add: RemoveCode_def decrementWaitGroup_def Let_def e0(3))
  then obtain e2 where r: "RemoveCode ?k ?e1 = Inr e2" and e2: "xe_CodeID2Bundle e2 = []" "xe_RunningCode e2 = []"
    "st_waitGroup (xe_stores e2) = w" unfolding assms dec m2 by (simp add: e0(3))
  have "\<not> WaitForResults e2" using run e2(3) w m(1) by (simp add: WaitForResults_def may_return_iff)
  moreover have "WaitGroup_Add w c = Inl (DuplicateWorkID c)" using wg.add_active w m(1) by simp
  then have "incrementWaitGroup cb (e2\<lparr>xe_RunningCode := map_put ?k cb (xe_RunningCode e2),
      xe_bundleErrors := en_ClearGroup en (xe_bundleErrors e2) ?k\<rparr>) = Inl (DuplicateWorkID c)"
    by (simp add: incrementWaitGroup_def increment_one_def assms e2)
  then have "AddCodeBundle en cb e2 = Inl (DuplicateWorkID c)"
    by (rule AddCodeBundle_new(2) [OF _ ne refl, rotated]) (simp add: e2(2))
  ultimately show ?thesis using a r by blast
qed

subsection \<open>Waiting for the results of the code that was added\<close>

datatype 'v xop = XAdd CodeBundle | XResult "'v RawResult"

definition run_op :: "('v, 't, 'r) engine \<Rightarrow> ('v, 't) Executor \<Rightarrow> 'v xop \<Rightarrow> ('v, 't) Executor go" where
  "run_op en e x = (case x of
     XAdd cb \<Rightarrow> map_sum id snd (AddCodeBundle en cb e)
   | XResult res \<Rightarrow> map_sum id snd (onResult en False res (xe_stores e) e))"

fun added :: "'v xop list \<Rightarrow> string set" where
  "added [] = {}"
| "added (XAdd cb # xs) = set (CodepointChecksums cb) \<union> added xs"
| "added (XResult r # xs) = added xs"

fun reported :: "'v xop list \<Rightarrow> string set" where
  "reported [] = {}"
| "reported (XAdd cb # xs) = reported xs"
| "reported (XResult r # xs) = insert (rr_CodeID r) (reported xs)"

lemma added_append [simp]: "added (xs @ ys) = added xs \<union> added ys"
  by (induction xs rule: added.induct) auto

lemma reported_append [simp]: "reported (xs @ ys) = reported xs \<union> reported ys"
  by (induction xs rule: reported.induct) auto

text \<open>
  Code bundles with one id are one bundle, their ids are no checksums of code, and the engine
  reports results with data for code that was added.
\<close>

fun ops_ok :: "CodeBundle list \<Rightarrow> string set \<Rightarrow> 'v xop list \<Rightarrow> bool" where
  "ops_ok cbs A [] \<longleftrightarrow> True"
| "ops_ok cbs A (XAdd cb # xs) \<longleftrightarrow> cb \<in> set cbs \<and> ops_ok cbs (A \<union> set (CodepointChecksums cb)) xs"
| "ops_ok cbs A (XResult r # xs) \<longleftrightarrow> rr_CodeID r \<in> A \<and> with_data r \<and> ops_ok cbs A xs"

definition bundles_ok :: "CodeBundle list \<Rightarrow> bool" where
  "bundles_ok cbs \<longleftrightarrow> distinct (map cb_Id cbs)
     \<and> (\<forall>cb \<in> set cbs. \<forall>cb' \<in> set cbs. cb_Id cb \<notin> set (CodepointChecksums cb') \<and> '''' \<notin> set (CodepointChecksums cb'))"

definition executor_inv :: "CodeBundle list \<Rightarrow> string set \<Rightarrow> string set \<Rightarrow> string set \<Rightarrow> ('v, 't) Executor \<Rightarrow> bool" where
  "executor_inv cbs A D R e \<longleftrightarrow> D \<subseteq> A \<and> R \<subseteq> A \<and> (\<forall>cb \<in> set cbs. cb_Id cb \<notin> A) \<and> '''' \<notin> A
     \<and> fst ` set (xe_CodeID2Bundle e) = A
     \<and> active_ids (st_waitGroup (xe_stores e)) = A - D \<and> seen_ids (st_waitGroup (xe_stores e)) = A
     \<and> \<not> wg_decommissioned (st_waitGroup (xe_stores e))
     \<and> (\<forall>c. c \<notin> cb_Id ` set cbs \<longrightarrow> (has_key (st_ScoreResults (xe_stores e)) c \<longleftrightarrow> c \<in> R))
     \<and> (\<forall>(c, r) \<in> set (st_Results (xe_stores e)). with_data r)
     \<and> (\<forall>k cb. map_get (xe_RunningCode e) k = Some cb \<longrightarrow> cb_Id cb = k \<and> cb \<in> set cbs \<and> set (CodepointChecksums cb) \<subseteq> A)
     \<and> (\<forall>(c, m) \<in> set (xe_CodeID2Bundle e). fst ` set m \<subseteq> cb_Id ` set cbs)"

lemma executor_invI:
  assumes "D \<subseteq> A" and "R \<subseteq> A" and "\<forall>cb \<in> set cbs. cb_Id cb \<notin> A" and "'''' \<notin> A"
    and "fst ` set (xe_CodeID2Bundle e) = A"
    and "active_ids (st_waitGroup (xe_stores e)) = A - D" and "seen_ids (st_waitGroup (xe_stores e)) = A"
    and "\<not> wg_decommissioned (st_waitGroup (xe_stores e))"
    and "\<forall>c. c \<notin> cb_Id ` set cbs \<longrightarrow> (has_key (st_ScoreResults (xe_stores e)) c \<longleftrightarrow> c \<in> R)"
    and "\<forall>(c, r) \<in> set (st_Results (xe_stores e)). with_data r"
    and "\<forall>k cb. map_get (xe_RunningCode e) k = Some cb \<longrightarrow> cb_Id cb = k \<and> cb \<in> set cbs \<and> set (CodepointChecksums cb) \<subseteq> A"
    and "\<forall>(c, m) \<in> set (xe_CodeID2Bundle e). fst ` set m \<subseteq> cb_Id ` set cbs"
  shows "executor_inv cbs A D R e"
  unfolding executor_inv_def by (intro conjI) (rule assms)+

lemma executor_invD:
  assumes "executor_inv cbs A D R e"
  shows "D \<subseteq> A" and "R \<subseteq> A" and "\<forall>cb \<in> set cbs. cb_Id cb \<notin> A" and "'''' \<notin> A"
    and "fst ` set (xe_CodeID2Bundle e) = A"
    and "active_ids (st_waitGroup (xe_stores e)) = A - D" and "seen_ids (st_waitGroup (xe_stores e)) = A"
    and "\<not> wg_decommissioned (st_waitGroup (xe_stores e))"
    and "\<forall>c. c \<notin> cb_Id ` set cbs \<longrightarrow> (has_key (st_ScoreResults (xe_stores e)) c \<longleftrightarrow> c \<in> R)"
    and "\<forall>(c, r) \<in> set (st_Results (xe_stores e)). with_data r"
    and "\<forall>k cb. map_get (xe_RunningCode e) k = Some cb \<longrightarrow> cb_Id cb = k \<and> cb \<in> set cbs \<and> set (CodepointChecksums cb) \<subseteq> A"
    and "\<forall>(c, m) \<in> set (xe_CodeID2Bundle e). fst ` set m \<subseteq> cb_Id ` set cbs"
  by (insert assms, unfold executor_inv_def) (elim conjE, assumption)+

lemma bundle_loop_safe:
  assumes "\<forall>(c, r) \<in> set results. with_data r"
  shows "\<exists>acc'. bundle_loop en results cs acc = Inr acc'"
proof (induction cs arbitrary: acc)
  case (Cons c cs)
  show ?case
  proof (cases "map_get results c")
    case (Some r)
    then have "with_data r" using assms by (auto dest: map_of_SomeD)
    with Some Cons.IH show ?thesis by (auto simp: with_data_def)
  qed simp
qed simp

text \<open>Updating a bundle stores a score under its id and tells the watchers.\<close>

lemma updateBundle_inv:
  assumes "executor_inv cbs A D R e" and "b \<in> cb_Id ` set cbs"
  shows "\<exists>e'. updateBundle en b e = Inr e' \<and> executor_inv cbs A D R e'"
proof (cases "map_get (xe_RunningCode e) b")
  case None
  with assms(1) show ?thesis by (simp add: updateBundle_def)
next
  case (Some code)
  note D = executor_invD [OF assms(1)]
  from bundle_loop_safe [OF D(10)] obtain acc where
    acc: "bundle_loop en (st_Results (xe_stores e)) (EntrypointChecksums code) bundle_start = Inr acc" by blast
  let ?e = "notify_watchers \<lparr>rr_CodeID = b, rr_Data = Some (bundle_data en acc)\<rparr> (e\<lparr>xe_stores := (xe_stores e)\<lparr>st_ScoreResults :=
    map_put b (bundle_score acc) (st_ScoreResults (xe_stores e))\<rparr>\<rparr>)"
  have u: "updateBundle en b e = Inr (if ba_allFound acc then ?e else e)"
    using Some acc by (simp add: updateBundle_def)
  have "has_key (st_ScoreResults (xe_stores ?e)) c \<longleftrightarrow> c \<in> R" if "c \<notin> cb_Id ` set cbs" for c
  proof -
    from that assms(2) have "c \<noteq> b" by metis
    with D(9) that show ?thesis by (simp add: notify_watchers_def keys_put)
  qed
  with D have "executor_inv cbs A D R ?e" by (intro executor_invI) (simp_all add: notify_watchers_def)
  with u assms(1) show ?thesis by (cases "ba_allFound acc") auto
qed

lemma tryUpdateBundles_inv:
  assumes "executor_inv cbs A D R e"
  shows "\<exists>e'. tryUpdateBundles en c e = Inr e' \<and> executor_inv cbs A D R e'"
proof (cases "map_get (xe_CodeID2Bundle e) c")
  case None
  with assms show ?thesis by (simp add: tryUpdateBundles_def)
next
  case (Some m)
  then have "(c, m) \<in> set (xe_CodeID2Bundle e)" by (rule map_of_SomeD)
  with executor_invD(12) [OF assms] have m: "fst ` set m \<subseteq> cb_Id ` set cbs" by fast
  have "\<exists>e'. go_fold (\<lambda>e b. updateBundle en b e) e (map fst m) = Inr e' \<and> executor_inv cbs A D R e'"
    by (intro go_fold_inv [where I = "executor_inv cbs A D R"] assms updateBundle_inv) (use m in auto)
  with Some show ?thesis by (simp add: tryUpdateBundles_def)
qed

lemma executor_inv_stores:
  assumes "executor_inv cbs A D R e" and "xe_CodeID2Bundle e' = xe_CodeID2Bundle e" and "xe_RunningCode e' = xe_RunningCode e"
    and "xe_stores e' = xe_stores e"
  shows "executor_inv cbs A D R e'"
  using assms by (simp add: executor_inv_def)

lemma isKnownError_fields:
  "isKnownError en c err e = (k, e') \<Longrightarrow> xe_CodeID2Bundle e' = xe_CodeID2Bundle e \<and> xe_RunningCode e' = xe_RunningCode e
    \<and> xe_stores e' = xe_stores e"
  by (cases err) (auto simp: isKnownError_def Let_def split: prod.splits)

lemma store_result_inv:
  assumes "executor_inv cbs A D R e" and "rr_CodeID res \<in> A" and "rr_Data res = Some d"
  shows "executor_inv cbs A D (insert (rr_CodeID res) R) (e\<lparr>xe_stores := store_result en res d (xe_stores e)\<rparr>)"
proof -
  let ?c = "rr_CodeID res" and ?st = "xe_stores e"
  let ?st' = "store_result en res d ?st"
  have wg: "st_waitGroup ?st' = st_waitGroup ?st" by (simp add: store_result_def Let_def split: option.splits)
  have k: "has_key (st_ScoreResults ?st') x \<longleftrightarrow> x = ?c \<or> has_key (st_ScoreResults ?st) x" for x
    using has_key_get [of "st_ScoreResults ?st" ?c]
    by (auto simp: store_result_def Let_def keys_put split: option.splits)
  have "set (st_Results ?st') \<subseteq> insert (?c, res) (set (st_Results ?st))"
    by (auto simp: store_result_def Let_def split: option.splits if_splits dest!: set_map_put)
  moreover have "with_data res" using assms(3) by (simp add: with_data_def)
  moreover note D = executor_invD [OF assms(1)]
  ultimately have r: "\<forall>(c, r) \<in> set (st_Results ?st'). with_data r" by fast
  show ?thesis using D assms(2) r k wg by (intro executor_invI) (simp_all del: all_simps)
qed

lemma onResult_inv:
  assumes inv: "executor_inv cbs A R R e" and c: "rr_CodeID res \<in> A" and "with_data res"
  shows "\<exists>e'. run_op en e (XResult res) = Inr e' \<and> executor_inv cbs A (insert (rr_CodeID res) R) (insert (rr_CodeID res) R) e'"
proof -
  let ?c = "rr_CodeID res"
  obtain d where d: "rr_Data res = Some d" using assms(3) by (auto simp: with_data_def)
  have "'''' \<notin> A" by (rule executor_invD(4) [OF inv])
  with c have ne: "?c \<noteq> ''''" by metis
  let ?st = "store_result en res d (xe_stores e)"
  let ?e1 = "e\<lparr>xe_stores := ?st\<rparr>"
  have i1: "executor_inv cbs A R (insert ?c R) ?e1" by (rule store_result_inv [OF inv c d])
  obtain known e2 where e2: "isKnownError en ?c (rd_Error d) ?e1 = (known, e2)" by fastforce
  let ?e3 = "if known then e2 else notify_watchers res e2"
  have i3: "executor_inv cbs A R (insert ?c R) ?e3"
    by (rule executor_inv_stores [OF i1]) (use isKnownError_fields [OF e2] in \<open>simp_all add: notify_watchers_def\<close>)
  from tryUpdateBundles_inv [OF i3, of en ?c] obtain e4 where
    e4: "tryUpdateBundles en ?c ?e3 = Inr e4" "executor_inv cbs A R (insert ?c R) e4" by blast
  have "\<not> IsDecommissioned (st_waitGroup ?st)" using executor_invD(8) [OF i1] by (simp add: IsDecommissioned_def)
  then have step: "run_op en e (XResult res) = map_sum id snd
      (if has_key (st_ScoreResults (xe_stores e)) ?c then Inr (xe_stores e4, e4)
       else go_bind (finish_work (st_waitGroup (xe_stores e4)) ?c) (\<lambda>w.
         Inr ((xe_stores e4)\<lparr>st_waitGroup := w\<rparr>, e4\<lparr>xe_stores := (xe_stores e4)\<lparr>st_waitGroup := w\<rparr>\<rparr>)))"
    using ne d e2 e4(1) by (simp add: run_op_def onResult_def Let_def)
  show ?thesis
  proof (cases "has_key (st_ScoreResults (xe_stores e)) ?c")
    case True
    have "?c \<notin> cb_Id ` set cbs" using executor_invD(3) [OF inv] c by auto
    with True have "?c \<in> R" using executor_invD(9) [OF inv] by blast
    then have "insert ?c R = R" by blast
    with True step e4(2) show ?thesis by auto
  next
    case False
    note D = executor_invD [OF e4(2)]
    from wg.finish_seen [of ?c "st_waitGroup (xe_stores e4)"] c obtain w where
      w: "finish_work (st_waitGroup (xe_stores e4)) ?c = Inr w" "active_ids w = A - insert ?c R" "seen_ids w = A"
      unfolding D(6,7) by auto
    have dw: "wg_decommissioned w = wg_decommissioned (st_waitGroup (xe_stores e4))"
      using w(1) by (auto simp: finish_work_def WaitGroup_Done_def Let_def split: if_splits)
    have "executor_inv cbs A (insert ?c R) (insert ?c R) (e4\<lparr>xe_stores := (xe_stores e4)\<lparr>st_waitGroup := w\<rparr>\<rparr>)"
      using D w(2,3) dw by (intro executor_invI) simp_all
    with False step w(1) show ?thesis by auto
  qed
qed

text \<open>Adding code: what is new to the executor is added to the wait group.\<close>

lemma increment_inv:
  assumes "executor_inv cbs A R R e" and "k \<in> cb_Id ` set cbs" and "\<forall>cb \<in> set cbs. cb_Id cb \<notin> set cs"
    and "'''' \<notin> set cs"
  shows "\<exists>e'. go_fold (increment_one k) e cs = Inr e' \<and> executor_inv cbs (A \<union> set cs) R R e'"
  using assms
proof (induction cs arbitrary: e A)
  case (Cons c cs)
  let ?m = "xe_CodeID2Bundle e" and ?w = "st_waitGroup (xe_stores e)"
  note D = executor_invD [OF Cons.prems(1)]
  note keys = D(5) and act = D(6,7) and RA = D(2)
  have "\<exists>w. (if has_key ?m c then Inr ?w else WaitGroup_Add ?w c) = Inr w \<and> active_ids w = insert c A - R \<and> seen_ids w = insert c A
      \<and> wg_decommissioned w = wg_decommissioned ?w"
  proof (cases "c \<in> A")
    case True
    with keys act show ?thesis by (intro exI [of _ ?w]) auto
  next
    case False
    with wg.add_new [of c ?w] act obtain w where w: "WaitGroup_Add ?w c = Inr w" "active_ids w = insert c (A - R)" "seen_ids w = insert c A" by auto
    then have "wg_decommissioned w = wg_decommissioned ?w" by (auto simp: WaitGroup_Add_def split: if_splits)
    with False keys RA w show ?thesis by (intro exI [of _ w]) auto
  qed
  then obtain w where w: "(if has_key ?m c then Inr ?w else WaitGroup_Add ?w c) = Inr w" "active_ids w = insert c A - R" "seen_ids w = insert c A"
      "wg_decommissioned w = wg_decommissioned ?w" by blast
  let ?g = "map_put k () (case map_get ?m c of None \<Rightarrow> [] | Some g \<Rightarrow> g)"
  let ?e = "e\<lparr>xe_CodeID2Bundle := map_put c ?g ?m, xe_stores := (xe_stores e)\<lparr>st_waitGroup := w\<rparr>\<rparr>"
  have 1: "increment_one k e c = Inr ?e" using w(1) by (simp add: increment_one_def Let_def split: if_splits)
  have g: "fst ` set ?g \<subseteq> cb_Id ` set cbs"
  proof (cases "map_get ?m c")
    case None
    with Cons.prems(2) show ?thesis by simp
  next
    case (Some g)
    from D(12) map_of_SomeD [OF Some] have "fst ` set g \<subseteq> cb_Id ` set cbs" by fast
    with Some Cons.prems(2) show ?thesis by (simp add: keys_put)
  qed
  have m: "\<forall>(c, m) \<in> set (map_put c ?g ?m). fst ` set m \<subseteq> cb_Id ` set cbs"
  proof
    fix x assume "x \<in> set (map_put c ?g ?m)"
    then consider "x = (c, ?g)" | "x \<in> set ?m" using set_map_put by metis
    then show "case x of (c, m) \<Rightarrow> fst ` set m \<subseteq> cb_Id ` set cbs"
    proof cases
      case 1
      with g show ?thesis by simp
    next
      case 2
      with D(12) show ?thesis by (rule bspec)
    qed
  qed
  have "executor_inv cbs (insert c A) R R ?e"
  proof (rule executor_invI)
    show "\<forall>k cb. map_get (xe_RunningCode ?e) k = Some cb \<longrightarrow> cb_Id cb = k \<and> cb \<in> set cbs \<and> set (CodepointChecksums cb) \<subseteq> insert c A"
      using D(11) by auto
    show "\<forall>(c, m) \<in> set (xe_CodeID2Bundle ?e). fst ` set m \<subseteq> cb_Id ` set cbs" using m by simp
    show "fst ` set (xe_CodeID2Bundle ?e) = insert c A" by (simp add: keys_put keys)
    show "\<forall>cb \<in> set cbs. cb_Id cb \<notin> insert c A" using D(3) Cons.prems(3) by auto
    show "'''' \<notin> insert c A" using D(4) Cons.prems(4) by auto
  qed (use D RA w(2-4) in auto)
  from Cons.IH [OF this Cons.prems(2)] Cons.prems(3,4) obtain e' where
    "go_fold (increment_one k) ?e cs = Inr e'" "executor_inv cbs (insert c A \<union> set cs) R R e'" by auto
  with 1 show ?case by auto
qed auto

lemma increment_frame:
  assumes "go_fold (increment_one k) e cs = Inr e'"
  shows "go_fold (increment_one k) (e\<lparr>xe_RunningCode := m\<rparr>) cs = Inr (e'\<lparr>xe_RunningCode := m\<rparr>)"
  using assms
proof (induction cs arbitrary: e)
  case (Cons c cs)
  then obtain e1 where 1: "increment_one k e c = Inr e1" "go_fold (increment_one k) e1 cs = Inr e'"
    by (auto simp: go_bind_Inr_iff)
  from 1(1) have "increment_one k (e\<lparr>xe_RunningCode := m\<rparr>) c = Inr (e1\<lparr>xe_RunningCode := m\<rparr>)"
    by (auto simp: increment_one_def go_bind_Inr_iff Let_def split: if_splits)
  with Cons.IH [OF 1(2)] show ?case by simp
qed simp

lemma AddCodeBundle_inv:
  assumes inv: "executor_inv cbs A R R e" and ok: "bundles_ok cbs" and cb: "cb \<in> set cbs"
  shows "\<exists>e'. run_op en e (XAdd cb) = Inr e' \<and> executor_inv cbs (A \<union> set (CodepointChecksums cb)) R R e'"
proof (cases "map_get (xe_RunningCode e) (cb_Id cb)")
  case (Some o')
  with executor_invD(11) [OF inv] have o': "cb_Id o' = cb_Id cb" "o' \<in> set cbs" "set (CodepointChecksums o') \<subseteq> A" by blast+
  then have "o' = cb" using ok cb by (auto simp: bundles_ok_def distinct_map dest: inj_onD)
  with o' have "A \<union> set (CodepointChecksums cb) = A" by blast
  with Some o'(1) inv show ?thesis by (simp add: run_op_def AddCodeBundle_def)
next
  case None
  let ?e0 = "e\<lparr>xe_RunningCode := map_put (cb_Id cb) cb (xe_RunningCode e),
     xe_bundleErrors := en_ClearGroup en (xe_bundleErrors e) (cb_Id cb)\<rparr>"
  let ?cs = "CodepointChecksums cb"
  let ?rc = "\<lambda>rc B. \<forall>k cb. map_get rc k = Some cb \<longrightarrow> cb_Id cb = k \<and> cb \<in> set cbs \<and> set (CodepointChecksums cb) \<subseteq> B"
  have e1: "executor_inv cbs A R R (e\<lparr>xe_bundleErrors := en_ClearGroup en (xe_bundleErrors e) (cb_Id cb)\<rparr>)"
    by (rule executor_inv_stores [OF inv]) simp_all
  have bk: "\<forall>cb' \<in> set cbs. cb_Id cb' \<notin> set ?cs" "'''' \<notin> set ?cs" using ok cb by (auto simp: bundles_ok_def)
  have rc: "?rc (map_put (cb_Id cb) cb (xe_RunningCode e)) (A \<union> set ?cs)"
  proof (intro allI impI)
    fix k cb' assume "map_get (map_put (cb_Id cb) cb (xe_RunningCode e)) k = Some cb'"
    then consider "k = cb_Id cb" "cb' = cb" | "map_get (xe_RunningCode e) k = Some cb'"
      by (cases "k = cb_Id cb") simp_all
    then show "cb_Id cb' = k \<and> cb' \<in> set cbs \<and> set (CodepointChecksums cb') \<subseteq> A \<union> set ?cs"
    proof cases
      case 2
      with executor_invD(11) [OF inv] have "cb_Id cb' = k" "cb' \<in> set cbs" "set (CodepointChecksums cb') \<subseteq> A" by simp_all
      then show ?thesis by auto
    qed (use cb in simp)
  qed
  have grow: "executor_inv cbs B R R (e'\<lparr>xe_RunningCode := m\<rparr>)" if "executor_inv cbs B R R e'" "?rc m B" for B e' m
  proof (rule executor_invI)
    have "xe_RunningCode (e'\<lparr>xe_RunningCode := m\<rparr>) = m" by simp
    then show "?rc (xe_RunningCode (e'\<lparr>xe_RunningCode := m\<rparr>)) B" using that(2) by (simp only:)
  qed (use executor_invD(1-10,12) [OF that(1)] in simp_all)
  show ?thesis
  proof (cases "?cs = []")
    case True
    then have "A \<union> set ?cs = A" by simp
    have "executor_inv cbs A R R ?e0"
      by (rule executor_inv_stores [OF grow [OF e1 rc [unfolded \<open>A \<union> set ?cs = A\<close>]]]) simp_all
    from updateBundle_inv [OF this, of "cb_Id cb" en] cb obtain e' where
      "updateBundle en (cb_Id cb) ?e0 = Inr e'" "executor_inv cbs A R R e'" by blast
    with None True show ?thesis by (simp add: run_op_def AddCodeBundle_def Let_def)
  next
    case False
    have "\<exists>e'. go_fold (increment_one (cb_Id cb)) (e\<lparr>xe_bundleErrors := en_ClearGroup en (xe_bundleErrors e) (cb_Id cb)\<rparr>) ?cs = Inr e'
        \<and> executor_inv cbs (A \<union> set ?cs) R R e'"
      by (rule increment_inv [OF e1 _ bk]) (use cb in auto)
    then obtain e' where e': "go_fold (increment_one (cb_Id cb)) (e\<lparr>xe_bundleErrors := en_ClearGroup en (xe_bundleErrors e) (cb_Id cb)\<rparr>) ?cs = Inr e'"
        "executor_inv cbs (A \<union> set ?cs) R R e'" by blast
    have "incrementWaitGroup cb ?e0 = Inr (e'\<lparr>xe_RunningCode := map_put (cb_Id cb) cb (xe_RunningCode e)\<rparr>)"
    proof -
      have eq: "?e0 = e\<lparr>xe_bundleErrors := en_ClearGroup en (xe_bundleErrors e) (cb_Id cb)\<rparr>
          \<lparr>xe_RunningCode := map_put (cb_Id cb) cb (xe_RunningCode e)\<rparr>" by (cases e) simp
      show ?thesis unfolding incrementWaitGroup_def eq by (rule increment_frame [OF e'(1)])
    qed
    from AddCodeBundle_new(1) [OF None False refl this] obtain err xs where
      "AddCodeBundle en cb e = Inr (err, e'\<lparr>xe_RunningCode := map_put (cb_Id cb) cb (xe_RunningCode e), xe_executors := xs\<rparr>)" by blast
    moreover have "executor_inv cbs (A \<union> set ?cs) R R (e'\<lparr>xe_RunningCode := map_put (cb_Id cb) cb (xe_RunningCode e), xe_executors := xs\<rparr>)"
      by (rule executor_inv_stores [OF grow [OF e'(2) rc]]) simp_all
    ultimately show ?thesis by (simp add: run_op_def)
  qed
qed

text \<open>Any run of additions and results.\<close>

lemma run_ops_inv:
  assumes "bundles_ok cbs" and "executor_inv cbs A R R e" and "ops_ok cbs A xs"
  shows "\<exists>e'. go_fold (run_op en) e xs = Inr e' \<and> executor_inv cbs (A \<union> added xs) (R \<union> reported xs) (R \<union> reported xs) e'"
  using assms(2,3)
proof (induction xs arbitrary: A R e)
  case (Cons x xs)
  show ?case
  proof (cases x)
    case (XAdd cb)
    with Cons.prems have cb: "cb \<in> set cbs" and ok: "ops_ok cbs (A \<union> set (CodepointChecksums cb)) xs" by simp_all
    from AddCodeBundle_inv [OF Cons.prems(1) assms(1) cb] obtain e1 where
      "run_op en e x = Inr e1" "executor_inv cbs (A \<union> set (CodepointChecksums cb)) R R e1" unfolding XAdd by blast
    with Cons.IH [OF this(2) ok] show ?thesis by (simp add: XAdd Un_assoc)
  next
    case (XResult r)
    with Cons.prems have r: "rr_CodeID r \<in> A" "with_data r" and ok: "ops_ok cbs A xs" by simp_all
    from onResult_inv [OF Cons.prems(1) r] obtain e1 where
      "run_op en e x = Inr e1" "executor_inv cbs A (insert (rr_CodeID r) R) (insert (rr_CodeID r) R) e1" unfolding XResult by blast
    with Cons.IH [OF this(2) ok] show ?thesis by (simp add: XResult)
  qed
qed simp


definition test_engine :: "(nat, nat, nat) engine" where
  "test_engine = \<lparr>en_New = (\<lambda>_. None), en_Run = (\<lambda>_. None), en_Score = (\<lambda>_. None), en_IsTruthy = (\<lambda>_. True),
     en_Nil = '''', en_NilData = \<lparr>rd_Type = '''', rd_Value = None, rd_Error = None\<rparr>,
     en_BoolTrue = \<lparr>rd_Type = '''', rd_Value = Some 1, rd_Error = None\<rparr>,
     en_BoolFalse = \<lparr>rd_Type = '''', rd_Value = Some 0, rd_Error = None\<rparr>, en_CheckOrSet = (\<lambda>t b e. (False, t)),
     en_ClearGroup = (\<lambda>t b. t), en_Clear = id, en_version = (\<lambda>_. None), en_older = (<), en_core = ''unstable''\<rparr>"


theorem readding_unfinished_code_panics_witness:
  "\<exists>err e1 e2. AddCodeBundle test_engine two_points (New test_engine 0) = Inr (err, e1)
    \<and> RemoveCode (cb_Id two_points) e1 = Inr e2 \<and> \<not> WaitForResults e2
    \<and> AddCodeBundle test_engine two_points e2 = Inl (DuplicateWorkID ''a'')"
  by (rule readding_unfinished_code_panics [where cs = "[''b'', ''a'']"])
    (simp add: CodepointChecksums_def EntrypointChecksums_def DatapointChecksums_def checksum_of_def two_points_def)

end
