(* ===== verification/Policy_Types.thy ===== *)
theory Policy_Types
  imports Graph_Builder Graph_Exec Risk_Factors
begin

text \<open>
  The messages of \<open>policy/cnspec_policy.proto\<close> that policy resolution reads and writes: queries,
  properties, filters, groups, policies, frameworks and the resolved policy, each with the fields the
  code uses; and the operations on filters and properties (\<open>explorer_filters.go\<close>,
  \<open>explorer_property.go\<close>).

  The code shares \<open>*Impact\<close> and \<open>*Property\<close> values between the bundle and its indexes and writes through
  the pointers, so both are references (\<open>nat\<close>) into an explicit store. A filter is itself a query, of which only
  the leading fields are read: \<open>Mquery\<close> extends that record. The MQL compiler, the checksum library and
  the MRN library are not part of the repository: they are the fields of \<open>externals\<close>.
\<close>

subsection \<open>Enumerations and references\<close>

datatype GroupType =
    UNCATEGORIZED | CHAPTER | IMPORT_GROUP | OVERRIDE | IGNORED | DISABLE | PROPERTIES | OUT_OF_SCOPE_GROUP

datatype ReviewStatus = NOT_REVIEWED | APPROVED | REJECTED | PENDING_EXTENSION

type_synonym impact_ref = nat
type_synonym property_ref = nat

record ObjectRef =
  or_Mrn :: string
  or_Uid :: string

subsection \<open>Queries, properties and filters\<close>

record Property =
  pp_Mql :: string
  pp_CodeId :: string
  pp_Checksum :: string
  pp_Mrn :: string
  pp_Uid :: string
  pp_Type :: string
  pp_Context :: string
  pp_For :: "ObjectRef list"
  pp_Title :: string
  pp_Desc :: string

record FilterQuery =
  mq_Query :: string
  mq_Mql :: string
  mq_CodeId :: string
  mq_Checksum :: string
  mq_Mrn :: string
  mq_Title :: string
  mq_Desc :: string

record Filters =
  fi_Items :: "(string, FilterQuery) gomap"

record Mquery = FilterQuery +
  mq_Impact :: "impact_ref option"
  mq_Filters :: "Filters option"
  mq_Props :: "property_ref list"
  mq_Variants :: "ObjectRef list"
  mq_Action :: Action

subsection \<open>Policies\<close>

record PolicyRef =
  pf_Mrn :: string
  pf_Action :: Action
  pf_Impact :: "impact_ref option"
  pf_ScoringSystem :: ScoringSystem

text \<open>\<open>Valid\<close> is an optional message with an optional end; times are seconds since the epoch.\<close>

record Validity =
  va_Until :: "int option"

record PolicyGroup =
  pg_Policies :: "PolicyRef list"
  pg_Checks :: "Mquery list"
  pg_Queries :: "Mquery list"
  pg_Type :: GroupType
  pg_Filters :: "Filters option"
  pg_EndDate :: int
  pg_Valid :: "Validity option"
  pg_ReviewStatus :: ReviewStatus

record PolicyRiskFactor = RiskFactor +
  prf_Filters :: "Filters option"
  prf_Checks :: "Mquery list"
  prf_Queries :: "Mquery list"
  prf_Action :: Action

record Policy =
  po_Mrn :: string
  po_Uid :: string
  po_Version :: string
  po_Groups :: "PolicyGroup list"
  po_ScoringSystem :: ScoringSystem
  po_Props :: "property_ref list"
  po_RiskFactors :: "PolicyRiskFactor list"
  po_GraphExecutionChecksum :: string
  po_ComputedFilters :: "Filters option"

subsection \<open>Frameworks\<close>

record Control =
  ct_Mrn :: string
  ct_Action :: Action

record FrameworkGroup =
  fg_Controls :: "Control list"
  fg_Type :: GroupType
  fg_EndDate :: int
  fg_ReviewStatus :: ReviewStatus

record ControlMap =
  cm_Mrn :: string
  cm_Checks :: "string list"
  cm_Policies :: "string list"
  cm_Controls :: "string list"
  cm_Queries :: "string list"

record FrameworkMap =
  fm_FrameworkOwner :: "ObjectRef option"
  fm_Controls :: "ControlMap list"

record Framework =
  fw_Mrn :: string
  fw_Groups :: "FrameworkGroup list"
  fw_Dependencies :: "string list"
  fw_GraphExecutionChecksum :: string
  fw_FrameworkMaps :: "FrameworkMap list"

record Bundle =
  bu_OwnerMrn :: string
  bu_Policies :: "Policy list"
  bu_Frameworks :: "Framework list"
  bu_Queries :: "Mquery list"
  bu_Props :: "property_ref list"

record PolicyBundleMap =
  bm_OwnerMrn :: string
  bm_Policies :: "(string, Policy option) gomap"
  bm_Frameworks :: "(string, Framework) gomap"
  bm_Queries :: "(string, Mquery option) gomap"
  bm_Props :: "(string, property_ref) gomap"
  bm_RiskFactors :: "(string, PolicyRiskFactor) gomap"

subsection \<open>Compiled code and the resolved policy\<close>

record Chunk =
  ch_IsFunction :: bool
  ch_Id :: string
  ch_Function :: "(nat \<times> string) option"

record compiled = CodeBundle +
  cb_Props :: "string list"
  cb_Blocks :: "Chunk list list"

record ExecutionQuery =
  xq_Query :: string
  xq_Checksum :: string
  xq_Properties :: "(string, string) gomap"
  xq_Datapoints :: "string list"
  xq_Code :: compiled

record ExecutionJob =
  xj_Checksum :: string
  xj_Queries :: "(string, ExecutionQuery) gomap"

record DataQueryInfo =
  dq_Type :: string
  dq_Notify :: "string list"

record ReportingJob = ReportingJobSpec +
  pj_Checksum :: string
  pj_Mrns :: "string list"

record CollectorJob =
  cj_Checksum :: string
  cj_ReportingJobs :: "(string, ReportingJob) gomap"
  cj_ReportingQueries :: "(string, string list) gomap"
  cj_Datapoints :: "(string, DataQueryInfo) gomap"
  cj_RiskMrns :: "(string, string list) gomap"
  cj_RiskFactors :: "(string, RiskFactor) gomap"
  cj_RiskDataQueries :: "(string, (string, string) gomap) gomap"

record ResolvedPolicy =
  rpo_ExecutionJob :: ExecutionJob
  rpo_CollectorJob :: CollectorJob
  rpo_Filters :: "FilterQuery list"
  rpo_GraphExecutionChecksum :: string
  rpo_FiltersChecksum :: string
  rpo_ReportingJobUuid :: string

fun Action_code :: "Action \<Rightarrow> 64 word" where
  "Action_code Action_UNSPECIFIED = 0" | "Action_code Action_MODIFY = 1" | "Action_code Action_DEACTIVATE = 2"
| "Action_code Action_ACTIVATE = 3" | "Action_code Action_IGNORE = 4" | "Action_code Action_OUT_OF_SCOPE = 5"

subsection \<open>What the code calls outside the repository\<close>

text \<open>
  \<open>ex_Compile\<close> is \<open>mqlc.Compile\<close> on a snippet and the types of its properties (an error or the code),
  \<open>ex_DerefType\<close> the dereferenced type of a chunk, \<open>ex_Refresh\<close> the recompilation of a filter query,
  \<open>ex_GetResource\<close> the resource name within an MRN. A \<open>checksums.Fast\<close> is the list of what was added
  to it, with its value \<open>ex_FastValue\<close> and its text \<open>ex_String\<close>; \<open>ex_fnv\<close> is the string step of the FNV hash.
\<close>

datatype sum_part = SumStr string | SumUint "64 word"

type_synonym Fast = "sum_part list"

record externals =
  ex_Compile :: "string \<Rightarrow> (string, string) gomap \<Rightarrow> string + compiled"
  ex_DerefType :: "compiled \<Rightarrow> nat \<Rightarrow> string"
  ex_Refresh :: "FilterQuery \<Rightarrow> string + FilterQuery"
  ex_GetResource :: "string \<Rightarrow> string \<Rightarrow> string option"
  ex_String :: "Fast \<Rightarrow> string"
  ex_fnv_init :: "64 word"
  ex_fnv :: "64 word \<Rightarrow> string \<Rightarrow> 64 word"
  ex_FastValue :: "Fast \<Rightarrow> 64 word"

definition sum_Add :: "Fast \<Rightarrow> string \<Rightarrow> Fast" where
  "sum_Add f s = f @ [SumStr s]"

definition sum_AddUint :: "Fast \<Rightarrow> 64 word \<Rightarrow> Fast" where
  "sum_AddUint f w = f @ [SumUint w]"

definition Impact_Checksum :: "externals \<Rightarrow> Impact option \<Rightarrow> 64 word" where
  "Impact_Checksum X i = ex_FastValue X (case i of None \<Rightarrow> []
     | Some v \<Rightarrow>
         let res = sum_AddUint (sum_AddUint (sum_AddUint [] (signed (ScoringSystem_code (im_Scoring v))))
               (signed (im_Weight v))) (Action_code (im_Action v))
         in (case im_Value v of None \<Rightarrow> res | Some x \<Rightarrow> sum_AddUint res (signed x)))"

subsection \<open>Filters\<close>

definition AddFilters :: "Filters option \<Rightarrow> Filters \<Rightarrow> Filters" where
  "AddFilters child s = (case child of None \<Rightarrow> s
     | Some c \<Rightarrow> s\<lparr>fi_Items := foldl (\<lambda>m (k, v). map_put k v m) (fi_Items s) (fi_Items c)\<rparr>)"

definition Supports :: "Filters option \<Rightarrow> (string, unit) gomap \<Rightarrow> bool" where
  "Supports s supported = (case s of None \<Rightarrow> True
     | Some f \<Rightarrow> fi_Items f = [] \<or> list_ex (\<lambda>(k, q). has_key supported k) (fi_Items f))"

text \<open>
  \<open>AddQueryFiltersFn\<close> follows the variants with a lookup that may fail. A chain of variants that returns
  to its start recurses until the stack is exhausted: the first argument is the depth the stack may grow to.
\<close>

fun AddQueryFiltersFn ::
  "nat \<Rightarrow> (string \<Rightarrow> string + Mquery option) \<Rightarrow> Mquery option \<Rightarrow> Filters \<Rightarrow> (string + Filters) option"
and addVariantFilters ::
  "nat \<Rightarrow> (string \<Rightarrow> string + Mquery option) \<Rightarrow> ObjectRef list \<Rightarrow> Filters \<Rightarrow> (string + Filters) option" where
  "AddQueryFiltersFn 0 lookup q s = None"
| "AddQueryFiltersFn (Suc k) lookup q s = (case q of None \<Rightarrow> Some (Inr s)
     | Some query \<Rightarrow> addVariantFilters k lookup (mq_Variants query) (AddFilters (mq_Filters query) s))"
| "addVariantFilters k lookup [] s = Some (Inr s)"
| "addVariantFilters k lookup (v # vs) s =
     (case lookup (or_Mrn v) of
        Inl e \<Rightarrow> Some (Inl (''cannot find query variant '' @ or_Mrn v @ '': '' @ e))
      | Inr variant \<Rightarrow>
          (case AddQueryFiltersFn k lookup variant s of
             None \<Rightarrow> None
           | Some (Inl e) \<Rightarrow> Some (Inl e)
           | Some (Inr s) \<Rightarrow> addVariantFilters k lookup vs s))"

definition AddQueryFilters ::
  "nat \<Rightarrow> (string, Mquery option) gomap \<Rightarrow> Mquery option \<Rightarrow> Filters \<Rightarrow> (string + Filters) option" where
  "AddQueryFilters k lookupQueries = AddQueryFiltersFn k
     (\<lambda>mrn. case map_get lookupQueries mrn of None \<Rightarrow> Inl ''query not found'' | Some q \<Rightarrow> Inr q)"

definition Summarize :: "Filters option \<Rightarrow> string" where
  "Summarize s = (case s of None \<Rightarrow> ''''
     | Some f \<Rightarrow> if fi_Items f = [] then ''''
         else let fs = sort (map (\<lambda>(k, q). if mq_Title q \<noteq> '''' then mq_Title q else mq_Mql q) (fi_Items f))
              in foldl (\<lambda>acc x. acc @ '', '' @ x) (hd fs) (tl fs))"

subsection \<open>Properties\<close>

definition Property_Merge :: "Property \<Rightarrow> Property \<Rightarrow> Property" where
  "Property_Merge p base =
     (let p = (if pp_Mql p = '''' then p\<lparr>pp_Mql := pp_Mql base, pp_CodeId := pp_CodeId base\<rparr> else p)
      in p\<lparr>pp_Type := (if pp_Type p = '''' then pp_Type base else pp_Type p),
           pp_Context := (if pp_Context p = '''' then pp_Context base else pp_Context p),
           pp_Title := (if pp_Title p = '''' then pp_Title base else pp_Title p),
           pp_Desc := (if pp_Desc p = '''' then pp_Desc base else pp_Desc p),
           pp_For := (if pp_For p = [] then pp_For base else pp_For p)\<rparr>)"

definition GetPropName :: "externals \<Rightarrow> string \<Rightarrow> string option" where
  "GetPropName X propMrn = (case ex_GetResource X propMrn ''properties'' of Some n \<Rightarrow> Some n
     | None \<Rightarrow> ex_GetResource X propMrn ''queries'')"

text \<open>The cache and the store its references point to. \<open>Clone\<close> of a property copies all its fields.\<close>

record PropsCache =
  pc_cache :: "(string, property_ref) gomap"
  pc_uidOnlyProps :: "(string, property_ref) gomap"
  pc_store :: "Property list"

definition prop_at :: "PropsCache \<Rightarrow> property_ref \<Rightarrow> Property" where
  "prop_at c r = pc_store c ! r"

definition prop_new :: "Property \<Rightarrow> PropsCache \<Rightarrow> property_ref \<times> PropsCache" where
  "prop_new p c = (length (pc_store c), c\<lparr>pc_store := pc_store c @ [p]\<rparr>)"

definition merge_into :: "property_ref \<Rightarrow> property_ref \<Rightarrow> PropsCache \<Rightarrow> PropsCache" where
  "merge_into r base c = c\<lparr>pc_store := (pc_store c)[r := Property_Merge (prop_at c r) (prop_at c base)]\<rparr>"

text \<open>Entering one target of a property, then the property itself.\<close>

definition add_for :: "property_ref \<Rightarrow> PropsCache \<Rightarrow> ObjectRef \<Rightarrow> PropsCache" where
  "add_for merged c pfor =
     (if or_Mrn pfor = '''' then c
      else case map_get (pc_cache c) (or_Mrn pfor) of
        Some existing \<Rightarrow> merge_into existing merged c
      | None \<Rightarrow> let (r, c) = prop_new (prop_at c merged) c in c\<lparr>pc_cache := map_put (or_Mrn pfor) r (pc_cache c)\<rparr>)"

definition PropsCache_Add1 :: "externals \<Rightarrow> PropsCache \<Rightarrow> property_ref \<Rightarrow> PropsCache" where
  "PropsCache_Add1 X c base =
     (let b = prop_at c base in
      if pp_Uid b \<noteq> '''' \<and> pp_Mrn b = '''' then c\<lparr>pc_uidOnlyProps := map_put (pp_Uid b) base (pc_uidOnlyProps c)\<rparr>
      else
        let name = (case GetPropName X (pp_Mrn b) of None \<Rightarrow> '''' | Some n \<Rightarrow> n);
            (base, c) = (case (if pp_Mrn b \<noteq> '''' then map_get (pc_uidOnlyProps c) name else None) of
               None \<Rightarrow> (base, c)
             | Some u \<Rightarrow> prop_new (Property_Merge (prop_at c u) b) c);
            mrn = pp_Mrn (prop_at c base);
            (merged, c) =
              (if pp_Mrn b = '''' then (base, c)
               else case map_get (pc_cache c) mrn of
                 Some existing \<Rightarrow> (existing, merge_into existing base c)
               | None \<Rightarrow> (base, c\<lparr>pc_cache := map_put mrn base (pc_cache c)\<rparr>))
        in foldl (add_for merged) c (pp_For (prop_at c base)))"

definition PropsCache_Add :: "externals \<Rightarrow> property_ref list \<Rightarrow> PropsCache \<Rightarrow> PropsCache" where
  "PropsCache_Add X props c = foldl (PropsCache_Add1 X) c props"

definition PropsCache_Get :: "externals \<Rightarrow> PropsCache \<Rightarrow> string \<Rightarrow> (Property \<times> string) option" where
  "PropsCache_Get X c propMrn =
     (case map_get (pc_cache c) propMrn of None \<Rightarrow> None
      | Some r \<Rightarrow>
          (case GetPropName X propMrn of None \<Rightarrow> None
           | Some name \<Rightarrow>
               (case map_get (pc_uidOnlyProps c) name of
                  Some u \<Rightarrow> Some (Property_Merge (prop_at c u) (prop_at c r), name)
                | None \<Rightarrow> Some (prop_at c r, name))))"

subsection \<open>The map form of a bundle\<close>

definition NewPolicyBundleMap :: "string \<Rightarrow> PolicyBundleMap" where
  "NewPolicyBundleMap ownerMrn = \<lparr>bm_OwnerMrn = ownerMrn, bm_Policies = [], bm_Frameworks = [],
     bm_Queries = [], bm_Props = [], bm_RiskFactors = []\<rparr>"

definition put_all :: "('a \<Rightarrow> 'k) \<Rightarrow> ('a \<Rightarrow> 'v) \<Rightarrow> 'a list \<Rightarrow> ('k, 'v) gomap \<Rightarrow> ('k, 'v) gomap" where
  "put_all k v xs m = foldl (\<lambda>m x. map_put (k x) (v x) m) m xs"

definition ToMap :: "Property list \<Rightarrow> Bundle \<Rightarrow> PolicyBundleMap" where
  "ToMap props p = (NewPolicyBundleMap (bu_OwnerMrn p))
     \<lparr>bm_Policies := put_all po_Mrn Some (bu_Policies p) [],
      bm_RiskFactors := put_all rf_Mrn (\<lambda>r. r) (concat (map po_RiskFactors (bu_Policies p))) [],
      bm_Frameworks := put_all fw_Mrn (\<lambda>f. f) (bu_Frameworks p) [],
      bm_Queries := put_all mq_Mrn Some (bu_Queries p) [],
      bm_Props := put_all (\<lambda>r. pp_Mrn (props ! r)) (\<lambda>r. r) (bu_Props p) []\<rparr>"

end
