(* ===== verification/Resolver_Graph.thy ===== *)
theory Resolver_Graph
  imports Policy_Types
begin

text \<open>
  The graph that policy resolution builds from a bundle (\<open>policy/resolved_policy_builder.go\<close>): a first pass
  gathers the overrides of actions, impacts, scoring systems and risk magnitudes and the types of the
  queries; a second adds a node per policy, query, risk factor, framework and control that applies to the
  asset, and the edges along which scores are reported.

  Every traversal of dependencies recurses without a check for cycles. Its first argument is the depth
  the call stack may still grow to; a traversal that goes deeper is the panic \<open>StackOverflow\<close>. The lookups
  that the code does not check for nil are \<open>NilDereference\<close> when they fail.
\<close>

subsection \<open>The state of the builder\<close>

datatype queryType = queryTypeScoring | queryTypeData | queryTypeBoth

datatype rpBuilderNode =
    PolicyNode Policy ScoringSystem bool
  | GenericQueryNode string queryType string
  | ExecQueryNode Mquery
  | FrameworkNode string
  | ControlNode string
  | RiskFactorNode PolicyRiskFactor "RiskMagnitude option" "string list"

fun getId :: "rpBuilderNode \<Rightarrow> string" where
  "getId (PolicyNode p s r) = po_Mrn p"
| "getId (GenericQueryNode mrn t c) = mrn"
| "getId (ExecQueryNode q) = mq_CodeId q"
| "getId (FrameworkNode mrn) = mrn"
| "getId (ControlNode mrn) = mrn"
| "getId (RiskFactorNode r m cs) = rf_Mrn r"

definition space_prefix :: string where
  "space_prefix = ''//captain.api.mondoo.app/spaces/''"

fun isPrunable :: "rpBuilderNode \<Rightarrow> bool" where
  "isPrunable (PolicyNode p s isRoot) \<longleftrightarrow>
     \<not> isRoot \<and> take (length space_prefix) (po_Mrn p) \<noteq> space_prefix"
| "isPrunable (ExecQueryNode q) \<longleftrightarrow> False"
| "isPrunable n \<longleftrightarrow> True"

record edgeImpact =
  ei_edge :: string
  ei_impact :: "Impact option"

record riskDataQueryRef =
  rd_codeId :: string
  rd_queryMrn :: string

text \<open>\<open>rb_impacts\<close> is the store of the impacts that the references in the bundle point to.\<close>

record resolvedPolicyBuilder =
  rb_bundleMrn :: string
  rb_bundleMap :: PolicyBundleMap
  rb_nodes :: "(string, rpBuilderNode) gomap"
  rb_reportsToEdges :: "(string, string list) gomap"
  rb_reportsFromEdges :: "(string, edgeImpact list) gomap"
  rb_assetFilters :: "(string, unit) gomap"
  rb_policyScoringSystems :: "(string, ScoringSystem) gomap"
  rb_actionOverrides :: "(string, Action) gomap"
  rb_impactOverrides :: "(string, impact_ref) gomap"
  rb_riskMagnitudes :: "(string, RiskMagnitude) gomap"
  rb_queryTypes :: "(string, queryType) gomap"
  rb_propsCache :: PropsCache
  rb_now :: int
  rb_disabledQuery :: Mquery
  rb_riskDataQueryInfos :: "(string, riskDataQueryRef list) gomap"
  rb_impacts :: "Impact list"

definition impact_at :: "resolvedPolicyBuilder \<Rightarrow> impact_ref \<Rightarrow> Impact" where
  "impact_at b r = rb_impacts b ! r"

text \<open>The value of a missing key is the zero value of its type.\<close>

definition action_of :: "resolvedPolicyBuilder \<Rightarrow> string \<Rightarrow> Action" where
  "action_of b mrn = (case map_get (rb_actionOverrides b) mrn of None \<Rightarrow> Action_UNSPECIFIED | Some a \<Rightarrow> a)"

definition impact_of :: "resolvedPolicyBuilder \<Rightarrow> string \<Rightarrow> Impact option" where
  "impact_of b mrn = map_option (impact_at b) (map_get (rb_impactOverrides b) mrn)"

definition ignoredImpact :: Impact where
  "ignoredImpact = zeroImpact\<lparr>im_Scoring := IGNORE_SCORE, im_Action := Action_IGNORE\<rparr>"

subsection \<open>Edges, nodes and conditions\<close>

definition edges_from :: "resolvedPolicyBuilder \<Rightarrow> string \<Rightarrow> string list" where
  "edges_from b n = (case map_get (rb_reportsToEdges b) n of None \<Rightarrow> [] | Some es \<Rightarrow> es)"

definition edges_to :: "resolvedPolicyBuilder \<Rightarrow> string \<Rightarrow> edgeImpact list" where
  "edges_to b n = (case map_get (rb_reportsFromEdges b) n of None \<Rightarrow> [] | Some es \<Rightarrow> es)"

definition rb_addEdge :: "string \<Rightarrow> string \<Rightarrow> Impact option \<Rightarrow> resolvedPolicyBuilder \<Rightarrow> resolvedPolicyBuilder" where
  "rb_addEdge src tgt impact b =
     (if tgt \<in> set (edges_from b src) then b
      else b\<lparr>rb_reportsToEdges := map_put src (edges_from b src @ [tgt]) (rb_reportsToEdges b),
             rb_reportsFromEdges := map_put tgt (edges_to b tgt @ [\<lparr>ei_edge = src, ei_impact = impact\<rparr>])
               (rb_reportsFromEdges b)\<rparr>)"

definition rb_addNode :: "rpBuilderNode \<Rightarrow> resolvedPolicyBuilder \<Rightarrow> resolvedPolicyBuilder" where
  "rb_addNode n b = b\<lparr>rb_nodes := map_put (getId n) n (rb_nodes b)\<rparr>"

definition rb_addProps :: "externals \<Rightarrow> property_ref list \<Rightarrow> resolvedPolicyBuilder \<Rightarrow> resolvedPolicyBuilder" where
  "rb_addProps X ps b = b\<lparr>rb_propsCache := PropsCache_Add X ps (rb_propsCache b)\<rparr>"

definition canRun :: "Action \<Rightarrow> bool" where
  "canRun a \<longleftrightarrow> a \<noteq> Action_DEACTIVATE \<and> a \<noteq> Action_OUT_OF_SCOPE"

fun normalizeAction :: "GroupType \<Rightarrow> Action \<Rightarrow> Impact option \<Rightarrow> Action" where
  "normalizeAction DISABLE a i = Action_DEACTIVATE"
| "normalizeAction OUT_OF_SCOPE_GROUP a i = Action_OUT_OF_SCOPE"
| "normalizeAction IGNORED a i = Action_IGNORE"
| "normalizeAction t a i = (case i of None \<Rightarrow> a
     | Some i \<Rightarrow> if im_Scoring i = IGNORE_SCORE then Action_IGNORE else a)"

definition isOverride :: "Action \<Rightarrow> GroupType \<Rightarrow> bool" where
  "isOverride a t \<longleftrightarrow> a \<noteq> Action_UNSPECIFIED \<or> t = DISABLE \<or> t = OUT_OF_SCOPE_GROUP \<or> t = IGNORED"

definition anyFilterMatches :: "resolvedPolicyBuilder \<Rightarrow> Filters option \<Rightarrow> bool" where
  "anyFilterMatches b f = Supports f (rb_assetFilters b)"

text \<open>\<open>rb_now\<close> is in nanoseconds. Only policy groups have a validity and filters.\<close>

definition expired :: "resolvedPolicyBuilder \<Rightarrow> int \<Rightarrow> bool" where
  "expired b seconds \<longleftrightarrow> seconds * 1000000000 < rb_now b"

definition isPolicyGroupMatching :: "resolvedPolicyBuilder \<Rightarrow> PolicyGroup \<Rightarrow> bool" where
  "isPolicyGroupMatching b g =
     (if pg_ReviewStatus g = REJECTED then False
      else if (case pg_Valid g of None \<Rightarrow> False
                 | Some v \<Rightarrow> (case va_Until v of None \<Rightarrow> False | Some s \<Rightarrow> expired b s)) then False
      else if pg_EndDate g \<noteq> 0 \<and> expired b (pg_EndDate g) then False
      else (case pg_Filters g of None \<Rightarrow> True
            | Some f \<Rightarrow> fi_Items f = []
                \<or> list_ex (\<lambda>(k, q). has_key (rb_assetFilters b) (mq_CodeId q)) (fi_Items f)))"

definition isFrameworkGroupMatching :: "resolvedPolicyBuilder \<Rightarrow> FrameworkGroup \<Rightarrow> bool" where
  "isFrameworkGroupMatching b g =
     (if fg_ReviewStatus g = REJECTED then False
      else if fg_EndDate g \<noteq> 0 \<and> expired b (fg_EndDate g) then False
      else True)"

subsection \<open>The types of the queries\<close>

definition add_type :: "string \<Rightarrow> queryType \<Rightarrow> (string, queryType) gomap \<Rightarrow> (string, queryType) gomap" where
  "add_type mrn t acc = (case map_get acc mrn of None \<Rightarrow> map_put mrn t acc
     | Some existing \<Rightarrow> if existing \<noteq> t \<and> existing \<noteq> queryTypeBoth then map_put mrn queryTypeBoth acc else acc)"

fun accumulate ::
  "nat \<Rightarrow> resolvedPolicyBuilder \<Rightarrow> queryType \<Rightarrow> (string, queryType) gomap \<Rightarrow> string \<Rightarrow> (string, queryType) gomap go" where
  "accumulate 0 b t acc mrn = Inl StackOverflow"
| "accumulate (Suc k) b t acc mrn =
     (let acc = add_type mrn t acc in
      case map_get (bm_Queries (rb_bundleMap b)) mrn of
        Some (Some q) \<Rightarrow> go_fold (accumulate k b t) acc (map or_Mrn (mq_Variants q))
      | _ \<Rightarrow> Inr acc)"

fun collectQueryTypes ::
  "nat \<Rightarrow> resolvedPolicyBuilder \<Rightarrow> (string, queryType) gomap \<Rightarrow> string \<Rightarrow> (string, queryType) gomap go" where
  "collectQueryTypes 0 b acc policyMrn = Inl StackOverflow"
| "collectQueryTypes (Suc k) b acc policyMrn =
     (case map_get (bm_Policies (rb_bundleMap b)) policyMrn of
        Some (Some p) \<Rightarrow>
          go_bind (go_fold (\<lambda>acc g. if \<not> isPolicyGroupMatching b g then Inr acc else
              go_bind (go_fold (accumulate k b queryTypeScoring) acc (map mq_Mrn (pg_Checks g))) (\<lambda>acc.
              go_bind (go_fold (accumulate k b queryTypeData) acc (map mq_Mrn (pg_Queries g))) (\<lambda>acc.
              go_fold (collectQueryTypes k b) acc (map pf_Mrn (pg_Policies g))))) acc (po_Groups p)) (\<lambda>acc.
            go_fold (\<lambda>acc r.
              go_bind (go_fold (accumulate k b queryTypeScoring) acc (map mq_Mrn (prf_Checks r))) (\<lambda>acc.
              go_fold (accumulate k b queryTypeData) acc (map mq_Mrn (prf_Queries r)))) acc (po_RiskFactors p))
      | _ \<Rightarrow> Inr acc)"

subsection \<open>Overrides\<close>

definition is_action :: "Action \<Rightarrow> bool" where
  "is_action a \<longleftrightarrow> a \<noteq> Action_UNSPECIFIED \<and> a \<noteq> Action_MODIFY"

definition put_action :: "string \<Rightarrow> Action \<Rightarrow> resolvedPolicyBuilder \<Rightarrow> resolvedPolicyBuilder" where
  "put_action mrn a b = (if is_action a then b\<lparr>rb_actionOverrides := map_put mrn a (rb_actionOverrides b)\<rparr> else b)"

fun gatherGlobalInfoFromFramework :: "nat \<Rightarrow> Framework option \<Rightarrow> resolvedPolicyBuilder \<Rightarrow> resolvedPolicyBuilder go" where
  "gatherGlobalInfoFromFramework 0 f b = Inl StackOverflow"
| "gatherGlobalInfoFromFramework (Suc k) f b =
     (case f of None \<Rightarrow> Inr b
      | Some fw \<Rightarrow>
          go_bind (go_fold (\<lambda>b dep. case map_get (bm_Frameworks (rb_bundleMap b)) dep of None \<Rightarrow> Inr b
              | Some f \<Rightarrow> gatherGlobalInfoFromFramework k (Some f) b) b (fw_Dependencies fw)) (\<lambda>b.
            Inr (foldl (\<lambda>b g. if \<not> isFrameworkGroupMatching b g then b
                else foldl (\<lambda>b c. put_action (ct_Mrn c) (normalizeAction (fg_Type g) (ct_Action c) None) b)
                       b (fg_Controls g)) b (fw_Groups fw))))"

definition impact_value :: "Impact \<Rightarrow> int" where
  "impact_value i = (case im_Value i of None \<Rightarrow> 0 | Some v \<Rightarrow> sint v)"

definition getWorstImpact :: "resolvedPolicyBuilder \<Rightarrow> impact_ref option \<Rightarrow> impact_ref option \<Rightarrow> impact_ref option" where
  "getWorstImpact b impact1 impact2 =
     (case impact1 of None \<Rightarrow> impact2
      | Some r1 \<Rightarrow> (case impact2 of None \<Rightarrow> impact1
          | Some r2 \<Rightarrow> if impact_value (impact_at b r1) > impact_value (impact_at b r2) then impact1 else impact2))"

text \<open>Ignoring a check writes through the pointer of its impact, or allocates one.\<close>

definition ignore_impact :: "impact_ref option \<Rightarrow> resolvedPolicyBuilder \<Rightarrow> impact_ref \<times> resolvedPolicyBuilder" where
  "ignore_impact impact b =
     (let (r, heap) = (case impact of None \<Rightarrow> (length (rb_impacts b), rb_impacts b @ [zeroImpact])
            | Some r \<Rightarrow> (r, rb_impacts b))
      in (r, b\<lparr>rb_impacts := heap[r := (heap ! r)\<lparr>im_Scoring := IGNORE_SCORE, im_Action := Action_IGNORE\<rparr>]\<rparr>))"

definition put_impact :: "string \<Rightarrow> impact_ref option \<Rightarrow> resolvedPolicyBuilder \<Rightarrow> resolvedPolicyBuilder" where
  "put_impact mrn r b = (case r of None \<Rightarrow> b
     | Some r \<Rightarrow> b\<lparr>rb_impactOverrides := map_put mrn r (rb_impactOverrides b)\<rparr>)"

definition gather_check :: "GroupType \<Rightarrow> resolvedPolicyBuilder \<Rightarrow> Mquery \<Rightarrow> resolvedPolicyBuilder go" where
  "gather_check t b c =
     go_bind (case map_get (bm_Queries (rb_bundleMap b)) (mq_Mrn c) of None \<Rightarrow> Inr (mq_Impact c)
        | Some q \<Rightarrow> go_bind (go_deref q) (\<lambda>q. Inr (getWorstImpact b (mq_Impact c) (mq_Impact q)))) (\<lambda>impact.
     let impact = getWorstImpact b impact (map_get (rb_impactOverrides b) (mq_Mrn c));
         action = normalizeAction t (mq_Action c) (map_option (impact_at b) impact);
         b = put_action (mq_Mrn c) action b;
         (impact, b) = (if is_action action \<and> action = Action_IGNORE
            then map_prod Some (\<lambda>b. b) (ignore_impact impact b) else (impact, b))
     in Inr (put_impact (mq_Mrn c) impact b))"

definition gather_query :: "GroupType \<Rightarrow> resolvedPolicyBuilder \<Rightarrow> Mquery \<Rightarrow> resolvedPolicyBuilder" where
  "gather_query t b q = (if mq_Action q \<noteq> Action_UNSPECIFIED
     then put_action (mq_Mrn q) (normalizeAction t (mq_Action q) (map_option (impact_at b) (mq_Impact q))) b else b)"

definition gather_ref :: "GroupType \<Rightarrow> Policy option \<Rightarrow> PolicyRef \<Rightarrow> resolvedPolicyBuilder \<Rightarrow> resolvedPolicyBuilder go" where
  "gather_ref t p pRef b =
     (let b = put_action (pf_Mrn pRef) (normalizeAction t (pf_Action pRef) (map_option (impact_at b) (pf_Impact pRef))) b;
          b = put_impact (pf_Mrn pRef) (pf_Impact pRef) b
      in if pf_ScoringSystem pRef \<noteq> SCORING_UNSPECIFIED
         then Inr (b\<lparr>rb_policyScoringSystems := map_put (pf_Mrn pRef) (pf_ScoringSystem pRef) (rb_policyScoringSystems b)\<rparr>)
         else if has_key (bm_Policies (rb_bundleMap b)) (pf_Mrn pRef)
         then go_bind (go_deref p) (\<lambda>p.
           Inr (b\<lparr>rb_policyScoringSystems := map_put (pf_Mrn pRef) (po_ScoringSystem p) (rb_policyScoringSystems b)\<rparr>))
         else Inr b)"

definition gather_risk :: "resolvedPolicyBuilder \<Rightarrow> PolicyRiskFactor \<Rightarrow> resolvedPolicyBuilder" where
  "gather_risk b r =
     (let b = (case rf_Magnitude r of None \<Rightarrow> b
            | Some m \<Rightarrow> b\<lparr>rb_riskMagnitudes := map_put (rf_Mrn r) m (rb_riskMagnitudes b)\<rparr>)
      in put_action (rf_Mrn r) (prf_Action r) b)"

definition policy_at :: "resolvedPolicyBuilder \<Rightarrow> string \<Rightarrow> Policy option" where
  "policy_at b mrn = (case map_get (bm_Policies (rb_bundleMap b)) mrn of None \<Rightarrow> None | Some p \<Rightarrow> p)"

fun gatherGlobalInfoFromPolicy :: "nat \<Rightarrow> Policy option \<Rightarrow> resolvedPolicyBuilder \<Rightarrow> resolvedPolicyBuilder go" where
  "gatherGlobalInfoFromPolicy 0 policy b = Inl StackOverflow"
| "gatherGlobalInfoFromPolicy (Suc k) policy b =
     go_bind (go_deref policy) (\<lambda>policy.
     go_bind (go_fold (\<lambda>b g. if \<not> isPolicyGroupMatching b g then Inr b else
         go_bind (go_fold (\<lambda>b pRef. let p = policy_at b (pf_Mrn pRef) in
             go_bind (gatherGlobalInfoFromPolicy k p b) (gather_ref (pg_Type g) p pRef)) b (pg_Policies g)) (\<lambda>b.
         go_bind (go_fold (gather_check (pg_Type g)) b (pg_Checks g)) (\<lambda>b.
         Inr (foldl (gather_query (pg_Type g)) b (pg_Queries g))))) b (po_Groups policy)) (\<lambda>b.
     Inr (foldl gather_risk b (po_RiskFactors policy))))"

subsection \<open>Queries\<close>

definition query_type_of :: "resolvedPolicyBuilder \<Rightarrow> string \<Rightarrow> queryType" where
  "query_type_of b mrn = (case map_get (rb_queryTypes b) mrn of None \<Rightarrow> queryTypeScoring | Some t \<Rightarrow> t)"

fun addQuery :: "nat \<Rightarrow> externals \<Rightarrow> Mquery option \<Rightarrow> resolvedPolicyBuilder
    \<Rightarrow> (string option \<times> resolvedPolicyBuilder) go"
and addVariants :: "nat \<Rightarrow> externals \<Rightarrow> ObjectRef list \<Rightarrow> resolvedPolicyBuilder
    \<Rightarrow> ((Mquery \<times> string) option \<times> resolvedPolicyBuilder) go" where
  "addQuery 0 X q b = Inl StackOverflow"
| "addQuery (Suc k) X None b = Inl NilDereference"
| "addQuery (Suc k) X (Some q) b =
     (let impact = impact_of b (mq_Mrn q); t = query_type_of b (mq_Mrn q); dq = rb_disabledQuery b in
      if \<not> canRun (action_of b (mq_Mrn q)) then
        if \<not> anyFilterMatches b (mq_Filters q) then Inr (None, b)
        else Inr (Some (mq_CodeId dq),
          rb_addEdge (mq_CodeId dq) (mq_Mrn q) (Some (zeroImpact\<lparr>im_Scoring := DISABLED\<rparr>))
            (rb_addNode (GenericQueryNode (mq_Mrn q) t (mq_CodeId dq)) (rb_addNode (ExecQueryNode dq) b)))
      else if mq_Variants q \<noteq> [] then
        go_bind (addVariants k X (mq_Variants q) b) (\<lambda>(r, b).
          case r of None \<Rightarrow> Inr (None, b)
          | Some (v, codeId) \<Rightarrow> Inr (Some codeId,
              rb_addEdge (mq_Mrn v) (mq_Mrn q) impact
                (rb_addNode (GenericQueryNode (mq_Mrn q) t codeId)
                  (rb_addProps X (mq_Props v) (rb_addProps X (mq_Props q) b)))))
      else if \<not> anyFilterMatches b (mq_Filters q) then Inr (None, b)
      else Inr (Some (mq_CodeId q),
        rb_addEdge (mq_CodeId q) (mq_Mrn q) impact
          (rb_addNode (GenericQueryNode (mq_Mrn q) t (mq_CodeId q))
            (rb_addNode (ExecQueryNode q) (rb_addProps X (mq_Props q) b)))))"
| "addVariants k X [] b = Inr (None, b)"
| "addVariants k X (v # vs) b =
     (case map_get (bm_Queries (rb_bundleMap b)) (or_Mrn v) of
        None \<Rightarrow> addVariants k X vs b
      | Some q \<Rightarrow> go_bind (addQuery k X q b) (\<lambda>(r, b).
          case r of None \<Rightarrow> addVariants k X vs b
          | Some codeId \<Rightarrow> go_bind (go_deref q) (\<lambda>v. Inr (Some (v, codeId), b))))"

subsection \<open>Risk factors\<close>

text \<open>The loops over the checks and the data queries stop at the first query with variants, with what was added so far.\<close>

fun add_risk_checks ::
  "externals \<Rightarrow> string \<Rightarrow> Mquery list \<Rightarrow> string list \<Rightarrow> resolvedPolicyBuilder \<Rightarrow> string list option \<times> resolvedPolicyBuilder" where
  "add_risk_checks X mrn [] selected b = (Some selected, b)"
| "add_risk_checks X mrn (c # cs) selected b =
     (if mq_Variants c \<noteq> [] then (None, b)
      else if \<not> anyFilterMatches b (mq_Filters c) then add_risk_checks X mrn cs selected b
      else add_risk_checks X mrn cs (selected @ [mq_CodeId c])
        (rb_addEdge (mq_CodeId c) mrn (Some ignoredImpact)
          (rb_addNode (ExecQueryNode c) (rb_addProps X (mq_Props c) b))))"

fun add_risk_queries ::
  "externals \<Rightarrow> Mquery list \<Rightarrow> riskDataQueryRef list \<Rightarrow> resolvedPolicyBuilder
     \<Rightarrow> riskDataQueryRef list option \<times> resolvedPolicyBuilder" where
  "add_risk_queries X [] selected b = (Some selected, b)"
| "add_risk_queries X (q # qs) selected b =
     (if mq_Variants q \<noteq> [] then (None, b)
      else if \<not> anyFilterMatches b (mq_Filters q) then add_risk_queries X qs selected b
      else add_risk_queries X qs (selected @ [\<lparr>rd_codeId = mq_CodeId q, rd_queryMrn = mq_Mrn q\<rparr>])
        (rb_addNode (ExecQueryNode q) (rb_addProps X (mq_Props q) b)))"

definition addRiskFactor ::
  "externals \<Rightarrow> PolicyRiskFactor \<Rightarrow> resolvedPolicyBuilder \<Rightarrow> (string + bool) \<times> resolvedPolicyBuilder" where
  "addRiskFactor X r b =
     (if \<not> canRun (action_of b (rf_Mrn r)) then (Inr False, b)
      else if \<not> anyFilterMatches b (prf_Filters r) then (Inr False, b)
      else case add_risk_checks X (rf_Mrn r) (prf_Checks r) [] b of
        (None, b) \<Rightarrow> (Inl ''risk factor checks cannot have variants'', b)
      | (Some codeIds, b) \<Rightarrow>
          (case add_risk_queries X (prf_Queries r) [] b of
             (None, b) \<Rightarrow> (Inl ''risk factor data queries cannot have variants'', b)
           | (Some refs, b) \<Rightarrow>
               if codeIds = [] \<and> refs = [] then (Inr False, b)
               else let b = (if refs \<noteq> []
                       then b\<lparr>rb_riskDataQueryInfos := map_put (rf_Mrn r) refs (rb_riskDataQueryInfos b)\<rparr> else b)
                    in (Inr True, rb_addNode (RiskFactorNode r (map_get (rb_riskMagnitudes b) (rf_Mrn r)) codeIds) b)))"

subsection \<open>Policies\<close>

definition policy_edge_impact :: "resolvedPolicyBuilder \<Rightarrow> string \<Rightarrow> Impact option" where
  "policy_edge_impact b mrn =
     (if map_get (rb_actionOverrides b) mrn = Some Action_IGNORE then Some ignoredImpact else impact_of b mrn)"

definition check_edge_impact :: "resolvedPolicyBuilder \<Rightarrow> string \<Rightarrow> Impact option" where
  "check_edge_impact b mrn =
     (if action_of b mrn = Action_IGNORE then Some ignoredImpact
      else case impact_of b mrn of None \<Rightarrow> None
        | Some i \<Rightarrow> if im_Value i \<noteq> None then Some (zeroImpact\<lparr>im_Value := im_Value i\<rparr>) else None)"

definition add_check :: "nat \<Rightarrow> externals \<Rightarrow> string \<Rightarrow> GroupType \<Rightarrow> resolvedPolicyBuilder \<Rightarrow> Mquery \<Rightarrow> resolvedPolicyBuilder go" where
  "add_check k X policyMrn t b c =
     (if isOverride (mq_Action c) t then Inr (rb_addProps X (mq_Props c) b)
      else case map_get (bm_Queries (rb_bundleMap b)) (mq_Mrn c) of
        None \<Rightarrow> Inr b
      | Some q \<Rightarrow> go_bind (addQuery k X q b) (\<lambda>(r, b).
          if r = None then Inr b
          else go_bind (go_deref q) (\<lambda>q. Inr (rb_addEdge (mq_Mrn q) policyMrn (check_edge_impact b (mq_Mrn q)) b))))"

definition add_data_query :: "nat \<Rightarrow> externals \<Rightarrow> string \<Rightarrow> GroupType \<Rightarrow> resolvedPolicyBuilder \<Rightarrow> Mquery \<Rightarrow> resolvedPolicyBuilder go" where
  "add_data_query k X policyMrn t b q =
     (if isOverride (mq_Action q) t then Inr (rb_addProps X (mq_Props q) b)
      else case map_get (bm_Queries (rb_bundleMap b)) (mq_Mrn q) of
        None \<Rightarrow> Inr b
      | Some q \<Rightarrow> go_bind (addQuery k X q b) (\<lambda>(r, b).
          if r = None then Inr b
          else go_bind (go_deref q) (\<lambda>q. Inr (rb_addEdge (mq_Mrn q) policyMrn (Some ignoredImpact) b))))"

definition add_policy_risk :: "externals \<Rightarrow> string \<Rightarrow> resolvedPolicyBuilder \<times> bool \<Rightarrow> PolicyRiskFactor \<Rightarrow> resolvedPolicyBuilder \<times> bool" where
  "add_policy_risk X policyMrn = (\<lambda>(b, found) r.
     if prf_Checks r = [] then (b, found)
     else case addRiskFactor X r b of
       (Inr True, b) \<Rightarrow> (rb_addEdge (rf_Mrn r) policyMrn (Some ignoredImpact) b, True)
     | (_, b) \<Rightarrow> (b, found))"

fun addPolicy :: "nat \<Rightarrow> externals \<Rightarrow> Policy option \<Rightarrow> resolvedPolicyBuilder \<Rightarrow> (bool \<times> resolvedPolicyBuilder) go" where
  "addPolicy 0 X policy b = Inl StackOverflow"
| "addPolicy (Suc k) X None b = Inl NilDereference"
| "addPolicy (Suc k) X (Some policy) b =
     (if \<not> canRun (action_of b (po_Mrn policy)) then Inr (False, b)
      else if \<not> anyFilterMatches b (po_ComputedFilters policy) then Inr (False, b)
      else
        let b = rb_addProps X (po_Props policy) b;
            scoringSystem = (case map_get (rb_policyScoringSystems b) (po_Mrn policy) of
              None \<Rightarrow> SCORING_UNSPECIFIED | Some s \<Rightarrow> s);
            b = rb_addNode (PolicyNode policy scoringSystem (rb_bundleMrn b = po_Mrn policy)) b;
            gs = filter (isPolicyGroupMatching b) (po_Groups policy)
        in go_bind (go_fold (\<lambda>b g.
             go_bind (go_fold (\<lambda>b pRef.
                 go_bind (addPolicy k X (policy_at b (pf_Mrn pRef)) b) (\<lambda>(added, b).
                   if added then Inr (rb_addEdge (pf_Mrn pRef) (po_Mrn policy) (policy_edge_impact b (pf_Mrn pRef)) b)
                   else Inr b)) b (pg_Policies g)) (\<lambda>b.
             go_bind (go_fold (add_check k X (po_Mrn policy) (pg_Type g)) b (pg_Checks g)) (\<lambda>b.
             go_fold (add_data_query k X (po_Mrn policy) (pg_Type g)) b (pg_Queries g)))) b gs) (\<lambda>b.
           let (b, foundRisk) = foldl (add_policy_risk X (po_Mrn policy)) (b, False) (po_RiskFactors policy)
           in Inr (gs \<noteq> [] \<or> foundRisk, b)))"

subsection \<open>Controls and frameworks\<close>

definition actionToImpact :: "resolvedPolicyBuilder \<Rightarrow> string \<Rightarrow> Impact option" where
  "actionToImpact b mrn = (if action_of b mrn = Action_IGNORE then Some ignoredImpact else None)"

definition add_control_query ::
  "string \<Rightarrow> (resolvedPolicyBuilder \<Rightarrow> string \<Rightarrow> Impact option) \<Rightarrow> resolvedPolicyBuilder \<times> bool \<Rightarrow> string \<Rightarrow> resolvedPolicyBuilder \<times> bool" where
  "add_control_query controlMrn impact = (\<lambda>(b, hasChild) q.
     case map_get (rb_nodes b) q of
       Some (GenericQueryNode mrn t codeId) \<Rightarrow> (rb_addEdge codeId controlMrn (impact b q) b, True)
     | _ \<Rightarrow> (b, hasChild))"

definition add_control_policy :: "string \<Rightarrow> resolvedPolicyBuilder \<times> bool \<Rightarrow> string \<Rightarrow> resolvedPolicyBuilder \<times> bool" where
  "add_control_policy controlMrn = (\<lambda>(b, hasChild) p.
     if has_key (rb_nodes b) p then (rb_addEdge p controlMrn (actionToImpact b p) b, True) else (b, hasChild))"

definition addControl :: "ControlMap \<Rightarrow> resolvedPolicyBuilder \<Rightarrow> bool \<times> resolvedPolicyBuilder" where
  "addControl control b =
     (if \<not> canRun (action_of b (cm_Mrn control)) then (False, b)
      else
        let s = foldl (add_control_query (cm_Mrn control) actionToImpact) (b, False) (cm_Checks control);
            s = foldl (add_control_query (cm_Mrn control) (\<lambda>b q. Some ignoredImpact)) s (cm_Queries control);
            s = foldl (add_control_policy (cm_Mrn control)) s (cm_Policies control);
            (b, hasChild) = foldl (\<lambda>(b, hasChild) c. (rb_addEdge c (cm_Mrn control) (actionToImpact b c) b, True)) s (cm_Controls control)
        in (True, if hasChild then rb_addNode (ControlNode (cm_Mrn control)) b else b))"

definition add_framework_control :: "ObjectRef option \<Rightarrow> resolvedPolicyBuilder \<Rightarrow> ControlMap \<Rightarrow> resolvedPolicyBuilder go" where
  "add_framework_control owner b control =
     (case addControl control b of
        (True, b) \<Rightarrow> go_bind (go_deref owner) (\<lambda>owner.
          Inr (rb_addEdge (cm_Mrn control) (or_Mrn owner) (actionToImpact b (cm_Mrn control)) b))
      | (False, b) \<Rightarrow> Inr b)"

fun addFramework :: "nat \<Rightarrow> Framework \<Rightarrow> resolvedPolicyBuilder \<Rightarrow> (bool \<times> resolvedPolicyBuilder) go" where
  "addFramework 0 fw b = Inl StackOverflow"
| "addFramework (Suc k) fw b =
     (if \<not> canRun (action_of b (fw_Mrn fw)) then Inr (False, b)
      else
        let new = \<not> has_key (rb_nodes b) (fw_Mrn fw);
            impact = (if new then None else Some ignoredImpact);
            b = (if new then rb_addNode (FrameworkNode (fw_Mrn fw)) b else b)
        in go_bind (go_fold (\<lambda>b fmap. go_fold (add_framework_control (fm_FrameworkOwner fmap)) b (fm_Controls fmap))
                 b (fw_FrameworkMaps fw)) (\<lambda>b.
           go_bind (go_fold (\<lambda>b dep. case map_get (bm_Frameworks (rb_bundleMap b)) dep of
                 None \<Rightarrow> Inr b
               | Some f \<Rightarrow> go_bind (addFramework k f b) (\<lambda>(added, b).
                   if added then Inr (rb_addEdge dep (fw_Mrn fw) impact b) else Inr b)) b (fw_Dependencies fw)) (\<lambda>b.
           Inr (True, b))))"

end
