(* ===== verification/Resolver_Build.thy ===== *)
theory Resolver_Build
  imports Resolver_Graph
begin

text \<open>
  The second half of policy resolution (\<open>policy/resolved_policy_builder.go\<close>, \<open>policy/resolver.go\<close>,
  \<open>policy/mquery.go\<close>): the graph is walked from the nodes that cannot be pruned, each node adds its part to the
  resolved policy, and the reporting jobs are connected along the edges.
\<close>

subsection \<open>Checksums\<close>

text \<open>\<open>checksum2string\<close> is the standard base64 text of the little-endian bytes.\<close>

definition le_bytes :: "64 word \<Rightarrow> nat list" where
  "le_bytes w = map (\<lambda>i. unat (take_bit 8 (drop_bit (8 * i) w))) [0..<8]"

definition base64_digits :: string where
  "base64_digits = ''ABCDEFGHIJKLMNOPQRSTUVWXYZabcdefghijklmnopqrstuvwxyz0123456789+/''"

definition base64_digit :: "nat \<Rightarrow> char" where
  "base64_digit n = base64_digits ! (n mod 64)"

fun base64_encode :: "nat list \<Rightarrow> string" where
  "base64_encode [] = ''''"
| "base64_encode [a] = [base64_digit (a div 4), base64_digit (a mod 4 * 16), CHR ''='', CHR ''='']"
| "base64_encode [a, b] = [base64_digit (a div 4), base64_digit (a mod 4 * 16 + b div 16), base64_digit (b mod 16 * 4), CHR ''='']"
| "base64_encode (a # b # c # xs) =
     [base64_digit (a div 4), base64_digit (a mod 4 * 16 + b div 16), base64_digit (b mod 16 * 4 + c div 64), base64_digit (c mod 64)]
     @ base64_encode xs"

definition checksum2string :: "64 word \<Rightarrow> string" where
  "checksum2string w = base64_encode (le_bytes w)"

definition checksumStrings :: "externals \<Rightarrow> string list \<Rightarrow> string" where
  "checksumStrings X ss = checksum2string (foldl (ex_fnv X) (ex_fnv_init X) ss)"

definition relativeChecksum :: "externals \<Rightarrow> string \<Rightarrow> string \<Rightarrow> string" where
  "relativeChecksum X base s = checksumStrings X [base, s]"

definition BundleExecutionChecksum :: "externals \<Rightarrow> Policy option \<Rightarrow> Framework option \<Rightarrow> string" where
  "BundleExecutionChecksum X policy framework =
     (let res = (case policy of None \<Rightarrow> [] | Some p \<Rightarrow> sum_Add [] (po_GraphExecutionChecksum p));
          res = (case framework of None \<Rightarrow> res | Some f \<Rightarrow> sum_Add res (fw_GraphExecutionChecksum f))
      in ex_String X (sum_Add res ''v2024-12-02''))"

fun refresh_filters :: "externals \<Rightarrow> FilterQuery list \<Rightarrow> string + FilterQuery list" where
  "refresh_filters X [] = Inr []"
| "refresh_filters X (q # qs) =
     (case (if mq_CodeId q \<noteq> '''' \<and> mq_Mql q = '''' then Inr q else ex_Refresh X q) of
        Inl e \<Rightarrow> Inl (''failed to compile query: '' @ e)
      | Inr q \<Rightarrow> map_sum (\<lambda>e. e) (\<lambda>qs. q # qs) (refresh_filters X qs))"

text \<open>The checksum, and the refreshed filters in the order of their code ids.\<close>

definition ChecksumAssetFilters :: "externals \<Rightarrow> FilterQuery list \<Rightarrow> string + (string \<times> FilterQuery list)" where
  "ChecksumAssetFilters X qs = map_sum (\<lambda>e. e) (\<lambda>qs. let qs = sort_key mq_CodeId qs
     in (ex_String X (foldl (\<lambda>afc q. sum_Add afc (mq_CodeId q)) [] qs), qs)) (refresh_filters X qs)"

subsection \<open>Compiled queries\<close>

record queryLike =
  ql_Compile :: "(string, string) gomap \<Rightarrow> string + compiled"
  ql_Checksum :: string
  ql_Mql :: string

text \<open>\<open>Compile\<close> of a query moves the deprecated field \<open>query\<close> to \<open>mql\<close>, which is what is read afterwards.\<close>

definition Mquery_source :: "Mquery \<Rightarrow> string" where
  "Mquery_source m = (if mq_Mql m = '''' then mq_Query m else mq_Mql m)"

definition Mquery_like :: "externals \<Rightarrow> Mquery \<Rightarrow> queryLike" where
  "Mquery_like X m = \<lparr>ql_Compile = (\<lambda>props.
       if Mquery_source m = '''' then Inl (''query is not implemented '' @ mq_Mrn m) else ex_Compile X (Mquery_source m) props),
     ql_Checksum = mq_Checksum m, ql_Mql = Mquery_source m\<rparr>"

definition Property_like :: "externals \<Rightarrow> Property \<Rightarrow> queryLike" where
  "Property_like X p = \<lparr>ql_Compile = ex_Compile X (pp_Mql p), ql_Checksum = pp_Checksum p, ql_Mql = pp_Mql p\<rparr>"

fun translate_props :: "(string, string) gomap \<Rightarrow> string \<Rightarrow> string list \<Rightarrow> (string, string) gomap \<Rightarrow> string + (string, string) gomap" where
  "translate_props checksums mql [] acc = Inr acc"
| "translate_props checksums mql (name # ns) acc =
     (let checksum = (case map_get checksums name of None \<Rightarrow> '''' | Some c \<Rightarrow> c) in
      if checksum = '''' then Inl (''cannot find checksum for property '' @ name @ '' in query '' @ mql)
      else translate_props checksums mql ns (map_put name checksum acc))"

definition code_refs :: "compiled \<Rightarrow> nat list" where
  "code_refs code = cb_Datapoints code @ cb_Entrypoints code"

definition collect_datapoints :: "externals \<Rightarrow> compiled \<Rightarrow> (string, DataQueryInfo) gomap \<Rightarrow> (string, DataQueryInfo) gomap" where
  "collect_datapoints X code ds = foldl (\<lambda>ds ref. map_put (checksum_of (CodeBundle.truncate code) ref)
     \<lparr>dq_Type = ex_DerefType X code ref, dq_Notify = []\<rparr> ds) ds (code_refs code)"

definition mquery2executionQuery ::
  "externals \<Rightarrow> queryLike \<Rightarrow> (string, string) gomap \<Rightarrow> (string, string) gomap \<Rightarrow> CollectorJob
     \<Rightarrow> string + (ExecutionQuery \<times> string \<times> CollectorJob)" where
  "mquery2executionQuery X q props propsToChecksums cj =
     (case ql_Compile q props of Inl e \<Rightarrow> Inl e
      | Inr code \<Rightarrow>
          let dataChecksum = (case cb_Entrypoints code of [ref] \<Rightarrow> checksum_of (CodeBundle.truncate code) ref | _ \<Rightarrow> '''');
              datapoints = map (checksum_of (CodeBundle.truncate code)) (code_refs code);
              cj = cj\<lparr>cj_Datapoints := collect_datapoints X code (cj_Datapoints cj)\<rparr>
          in (case translate_props propsToChecksums (ql_Mql q) (cb_Props code) [] of
                Inl e \<Rightarrow> Inl e
              | Inr eqProps \<Rightarrow> Inr (\<lparr>xq_Query = ql_Mql q, xq_Checksum = ql_Checksum q, xq_Properties = eqProps,
                  xq_Datapoints = datapoints, xq_Code = code\<rparr>, dataChecksum, cj)))"

subsection \<open>Parts of the resolved policy\<close>

definition on_collector :: "(CollectorJob \<Rightarrow> CollectorJob) \<Rightarrow> ResolvedPolicy \<Rightarrow> ResolvedPolicy" where
  "on_collector f rp = rp\<lparr>rpo_CollectorJob := f (rpo_CollectorJob rp)\<rparr>"

definition on_jobs :: "((string, ReportingJob) gomap \<Rightarrow> (string, ReportingJob) gomap) \<Rightarrow> ResolvedPolicy \<Rightarrow> ResolvedPolicy" where
  "on_jobs f = on_collector (\<lambda>cj. cj\<lparr>cj_ReportingJobs := f (cj_ReportingJobs cj)\<rparr>)"

definition rp_jobs :: "ResolvedPolicy \<Rightarrow> (string, ReportingJob) gomap" where
  "rp_jobs rp = cj_ReportingJobs (rpo_CollectorJob rp)"

definition put_query :: "string \<Rightarrow> ExecutionQuery \<Rightarrow> ResolvedPolicy \<Rightarrow> ResolvedPolicy" where
  "put_query codeId q rp = rp\<lparr>rpo_ExecutionJob := (rpo_ExecutionJob rp)
     \<lparr>xj_Queries := map_put codeId q (xj_Queries (rpo_ExecutionJob rp))\<rparr>\<rparr>"

text \<open>Changing a job in place: the map holds a pointer to it.\<close>

definition on_job :: "string \<Rightarrow> (ReportingJob \<Rightarrow> ReportingJob) \<Rightarrow> (string, ReportingJob) gomap \<Rightarrow> (string, ReportingJob) gomap" where
  "on_job uuid f js = (case map_get js uuid of None \<Rightarrow> js | Some j \<Rightarrow> map_put uuid (f j) js)"

definition new_job :: "string \<Rightarrow> string \<Rightarrow> ReportingJob_Type \<Rightarrow> string list \<Rightarrow> ReportingJob" where
  "new_job qrId uuid typ mrns = \<lparr>pj_QrId = qrId, pj_Uuid = uuid, pj_Notify = [], pj_ScoringSystem = SCORING_UNSPECIFIED,
     pj_Datapoints = [], pj_ChildJobs = [], pj_Type = typ, pj_Checksum = '''', pj_Mrns = mrns\<rparr>"

definition rp_addReportingJob ::
  "string \<Rightarrow> bool \<Rightarrow> string \<Rightarrow> ReportingJob_Type \<Rightarrow> bool \<Rightarrow> ResolvedPolicy \<Rightarrow> ResolvedPolicy" where
  "rp_addReportingJob qrId qrIdIsMrn uuid typ allowMrns = on_jobs (\<lambda>js. if has_key js uuid then js
     else map_put uuid (new_job qrId uuid typ (if qrIdIsMrn \<and> allowMrns then [qrId] else [])) js)"

text \<open>Appending to the list under a key, which is made when it is not there.\<close>

definition append_at :: "'k \<Rightarrow> 'a \<Rightarrow> ('k, 'a list) gomap \<Rightarrow> ('k, 'a list) gomap" where
  "append_at k x m = map_put k ((case map_get m k of None \<Rightarrow> [] | Some xs \<Rightarrow> xs) @ [x]) m"

fun connectDatapointsToReportingJob :: "string list \<Rightarrow> string \<Rightarrow> CollectorJob \<Rightarrow> string + CollectorJob" where
  "connectDatapointsToReportingJob [] uuid cj = Inr cj"
| "connectDatapointsToReportingJob (dp # dps) uuid cj =
     (case map_get (cj_Datapoints cj) dp of
        None \<Rightarrow> Inl ''failed to identify datapoint in collectorjob''
      | Some info \<Rightarrow> connectDatapointsToReportingJob dps uuid
          (cj\<lparr>cj_Datapoints := map_put dp (info\<lparr>dq_Notify := dq_Notify info @ [uuid]\<rparr>) (cj_Datapoints cj),
              cj_ReportingJobs := on_job uuid (\<lambda>j. j\<lparr>pj_Datapoints := map_put dp True (pj_Datapoints j)\<rparr>) (cj_ReportingJobs cj)\<rparr>))"

subsection \<open>The build step of each node\<close>

record rpBuilderData =
  bd_baseChecksum :: string
  bd_propsCache :: PropsCache

type_synonym compiled_props = "(string, string) gomap \<times> (string, string) gomap \<times> ResolvedPolicy"

fun compileProps :: "externals \<Rightarrow> rpBuilderData \<Rightarrow> string list \<Rightarrow> compiled_props \<Rightarrow> string + compiled_props" where
  "compileProps X d [] s = Inr s"
| "compileProps X d (mrn # mrns) (propTypes, propToChecksums, rp) =
     (case PropsCache_Get X (bd_propsCache d) mrn of
        None \<Rightarrow> Inl (''resolver> property mrn is empty for prop '' @ mrn)
      | Some (prop, name) \<Rightarrow>
          if name = '''' then Inl (''resolver> property mrn is empty for prop '' @ mrn)
          else if pp_CodeId prop = '''' then Inl (''resolver> property code id is empty for prop '' @ pp_Mrn prop)
          else case mquery2executionQuery X (Property_like X prop) [] [] (rpo_CollectorJob rp) of
            Inl e \<Rightarrow> Inl (''resolver> failed to compile query for MRN '' @ pp_Mrn prop @ '': '' @ e)
          | Inr (eq, dataChecksum, cj) \<Rightarrow>
              if dataChecksum = '''' then Inl ''property returns too many values, cannot determine entrypoint checksum''
              else compileProps X d mrns (map_put name (pp_Type prop) propTypes,
                map_put name dataChecksum propToChecksums,
                put_query (pp_CodeId prop) eq (rp\<lparr>rpo_CollectorJob := cj\<rparr>)))"

definition build_exec :: "externals \<Rightarrow> rpBuilderData \<Rightarrow> Mquery \<Rightarrow> ResolvedPolicy \<Rightarrow> string + ResolvedPolicy" where
  "build_exec X d q rp =
     (case compileProps X d (map (\<lambda>r. pp_Mrn (prop_at (bd_propsCache d) r)) (mq_Props q)) ([], [], rp) of
        Inl e \<Rightarrow> Inl e
      | Inr (propTypes, propToChecksums, rp) \<Rightarrow>
          (case mquery2executionQuery X (Mquery_like X q) propTypes propToChecksums (rpo_CollectorJob rp) of
             Inl e \<Rightarrow> Inl e
           | Inr (eq, dataChecksum, cj) \<Rightarrow>
               let uuid = relativeChecksum X (bd_baseChecksum d) (mq_CodeId q);
                   rp = put_query (mq_CodeId q) eq (rp\<lparr>rpo_CollectorJob := cj\<rparr>);
                   rp = rp_addReportingJob (mq_CodeId q) False uuid RJ_EXECUTION_QUERY False rp
               in map_sum (\<lambda>e. e) (\<lambda>cj. rp\<lparr>rpo_CollectorJob := cj\<rparr>)
                    (connectDatapointsToReportingJob (xq_Datapoints eq) uuid (rpo_CollectorJob rp))))"

fun query_job_type :: "queryType \<Rightarrow> ReportingJob_Type" where
  "query_job_type queryTypeScoring = RJ_CHECK"
| "query_job_type queryTypeData = RJ_DATA_QUERY"
| "query_job_type queryTypeBoth = RJ_CHECK_AND_DATA_QUERY"

definition build_generic :: "externals \<Rightarrow> rpBuilderData \<Rightarrow> string \<Rightarrow> queryType \<Rightarrow> string \<Rightarrow> ResolvedPolicy \<Rightarrow> ResolvedPolicy" where
  "build_generic X d mrn t codeId rp =
     (let rp = rp_addReportingJob mrn True (relativeChecksum X (bd_baseChecksum d) mrn) (query_job_type t) True rp;
          uuid = relativeChecksum X (bd_baseChecksum d) codeId
      in if t = queryTypeScoring \<or> t = queryTypeBoth then
           on_collector (\<lambda>cj. let items = (case map_get (cj_ReportingQueries cj) codeId of None \<Rightarrow> [] | Some xs \<Rightarrow> xs) in
             cj\<lparr>cj_ReportingQueries := map_put codeId (if uuid \<in> set items then items else items @ [uuid])
                  (cj_ReportingQueries cj)\<rparr>) rp
         else rp)"

definition build_risk ::
  "externals \<Rightarrow> rpBuilderData \<Rightarrow> PolicyRiskFactor \<Rightarrow> RiskMagnitude option \<Rightarrow> string list \<Rightarrow> ResolvedPolicy \<Rightarrow> ResolvedPolicy" where
  "build_risk X d r magnitude codeIds rp =
     (let m = (if magnitude \<noteq> None then magnitude else rf_Magnitude r);
          risk = \<lparr>rf_Mrn = '''', rf_Scope = rf_Scope r,
            rf_DeprecatedV11Magnitude = (case m of None \<Rightarrow> 0 | Some m \<Rightarrow> rm_Value m),
            rf_DeprecatedV11IsAbsolute = (case m of None \<Rightarrow> False | Some m \<Rightarrow> rm_IsToxic m),
            rf_Magnitude = m, rf_Software = [], rf_Resources = rf_Resources r\<rparr>;
          rp = on_collector (\<lambda>cj. cj\<lparr>cj_RiskFactors := map_put (rf_Mrn r) risk (cj_RiskFactors cj)\<rparr>) rp;
          rp = rp_addReportingJob (rf_Mrn r) True (relativeChecksum X (bd_baseChecksum d) (rf_Mrn r)) RJ_RISK_FACTOR True rp
      in foldl (\<lambda>rp codeId. on_collector (\<lambda>cj. cj\<lparr>cj_RiskMrns :=
           append_at (relativeChecksum X (bd_baseChecksum d) codeId) (rf_Mrn r) (cj_RiskMrns cj)\<rparr>) rp) rp codeIds)"

definition build_policy :: "externals \<Rightarrow> rpBuilderData \<Rightarrow> Policy \<Rightarrow> ScoringSystem \<Rightarrow> bool \<Rightarrow> ResolvedPolicy \<Rightarrow> ResolvedPolicy" where
  "build_policy X d p scoringSystem isRoot rp =
     (if isRoot
      then rp_addReportingJob (po_Mrn p) True (relativeChecksum X (bd_baseChecksum d) (po_GraphExecutionChecksum p)) RJ_POLICY False rp
      else let uuid = relativeChecksum X (bd_baseChecksum d) (po_Mrn p) in
        on_jobs (on_job uuid (\<lambda>j. j\<lparr>pj_ScoringSystem := scoringSystem\<rparr>)) (rp_addReportingJob (po_Mrn p) True uuid RJ_POLICY True rp))"

fun node_build :: "externals \<Rightarrow> rpBuilderData \<Rightarrow> rpBuilderNode \<Rightarrow> ResolvedPolicy \<Rightarrow> string + ResolvedPolicy" where
  "node_build X d (PolicyNode p s r) rp = Inr (build_policy X d p s r rp)"
| "node_build X d (GenericQueryNode mrn t c) rp = Inr (build_generic X d mrn t c rp)"
| "node_build X d (ExecQueryNode q) rp = build_exec X d q rp"
| "node_build X d (FrameworkNode mrn) rp =
     Inr (rp_addReportingJob mrn True (relativeChecksum X (bd_baseChecksum d) mrn) RJ_FRAMEWORK True rp)"
| "node_build X d (ControlNode mrn) rp =
     Inr (rp_addReportingJob mrn True (relativeChecksum X (bd_baseChecksum d) mrn) RJ_CONTROL True rp)"
| "node_build X d (RiskFactorNode r m cs) rp = Inr (build_risk X d r m cs rp)"

subsection \<open>The walk\<close>

fun walk ::
  "nat \<Rightarrow> ('n \<Rightarrow> 'r \<Rightarrow> string + 'r) \<Rightarrow> (string \<Rightarrow> 'n option) \<Rightarrow> (string \<Rightarrow> string list) \<Rightarrow> string \<times> 'n
     \<Rightarrow> string list \<times> 'r \<Rightarrow> (string + string list \<times> 'r) go"
and walk_all ::
  "nat \<Rightarrow> ('n \<Rightarrow> 'r \<Rightarrow> string + 'r) \<Rightarrow> (string \<Rightarrow> 'n option) \<Rightarrow> (string \<Rightarrow> string list) \<Rightarrow> string list
     \<Rightarrow> string list \<times> 'r \<Rightarrow> (string + string list \<times> 'r) go" where
  "walk 0 build nodes edges n s = Inl StackOverflow"
| "walk (Suc k) build nodes edges (nid, n) (visited, rp) =
     (if nid \<in> set visited then Inr (Inr (visited, rp))
      else case build n rp of
        Inl e \<Rightarrow> Inr (Inl e)
      | Inr rp \<Rightarrow> walk_all k build nodes edges (edges nid) (nid # visited, rp))"
| "walk_all k build nodes edges [] s = Inr (Inr s)"
| "walk_all k build nodes edges (e # es) s =
     (case nodes e of
        None \<Rightarrow> walk_all k build nodes edges es s
      | Some n \<Rightarrow> go_bind (walk k build nodes edges (e, n) s) (\<lambda>r.
          case r of Inl err \<Rightarrow> Inr (Inl err) | Inr s \<Rightarrow> walk_all k build nodes edges es s))"

text \<open>The walks from the nodes of a list, one after the other.\<close>

fun walk_roots ::
  "nat \<Rightarrow> ('n \<Rightarrow> 'r \<Rightarrow> string + 'r) \<Rightarrow> (string \<Rightarrow> 'n option) \<Rightarrow> (string \<Rightarrow> string list) \<Rightarrow> (string \<times> 'n) list
     \<Rightarrow> string list \<times> 'r \<Rightarrow> (string + string list \<times> 'r) go" where
  "walk_roots k build nodes edges [] s = Inr (Inr s)"
| "walk_roots k build nodes edges (n # ns) s =
     go_bind (walk k build nodes edges n s) (\<lambda>r.
       case r of Inl err \<Rightarrow> Inr (Inl err) | Inr s \<Rightarrow> walk_roots k build nodes edges ns s)"

subsection \<open>Connecting the reporting jobs\<close>

fun jobs_by_qrid :: "(string, ReportingJob) gomap \<Rightarrow> (string, string) gomap \<Rightarrow> string + (string, string) gomap" where
  "jobs_by_qrid [] m = Inr m"
| "jobs_by_qrid ((u, rj) # js) m =
     (if has_key m (pj_QrId rj) then Inl ''multiple reporting jobs with the same qr id''
      else jobs_by_qrid js (map_put (pj_QrId rj) u m))"

definition connectReportingJobNotifies ::
  "string \<Rightarrow> string \<Rightarrow> Impact option \<Rightarrow> (string, ReportingJob) gomap \<Rightarrow> (string, ReportingJob) gomap" where
  "connectReportingJobNotifies childUuid parentUuid impact js =
     on_job parentUuid (\<lambda>j. j\<lparr>pj_ChildJobs := map_put childUuid impact (pj_ChildJobs j)\<rparr>)
       (on_job childUuid (\<lambda>j. j\<lparr>pj_Notify := pj_Notify j @ [parentUuid]\<rparr>) js)"

definition connect_edge ::
  "(string, string) gomap \<Rightarrow> string \<Rightarrow> (string, ReportingJob) gomap \<Rightarrow> edgeImpact \<Rightarrow> (string, ReportingJob) gomap" where
  "connect_edge byQrId parentQrId js e =
     (case (map_get byQrId parentQrId, map_get byQrId (ei_edge e)) of
        (Some parentUuid, Some childUuid) \<Rightarrow> connectReportingJobNotifies childUuid parentUuid (ei_impact e) js
      | _ \<Rightarrow> js)"

definition connect_jobs ::
  "(string, string) gomap \<Rightarrow> (string, edgeImpact list) gomap \<Rightarrow> (string, ReportingJob) gomap \<Rightarrow> (string, ReportingJob) gomap" where
  "connect_jobs byQrId edges js =
     foldl (\<lambda>js (parentQrId, es). foldl (connect_edge byQrId parentQrId) js es) js edges"

definition risk_data_info :: "(string, ExecutionQuery) gomap \<Rightarrow> riskDataQueryRef list \<Rightarrow> (string, string) gomap" where
  "risk_data_info queries refs = foldl (\<lambda>m r. case map_get queries (rd_codeId r) of
       None \<Rightarrow> m
     | Some eq \<Rightarrow> (case cb_Entrypoints (xq_Code eq) of
           [] \<Rightarrow> m
         | e # _ \<Rightarrow> map_put (rd_queryMrn r) (checksum_of (CodeBundle.truncate (xq_Code eq)) e) m)) [] refs"

definition add_risk_data :: "(string, riskDataQueryRef list) gomap \<Rightarrow> ResolvedPolicy \<Rightarrow> ResolvedPolicy" where
  "add_risk_data infos rp = foldl (\<lambda>rp (riskMrn, refs).
     let info = risk_data_info (xj_Queries (rpo_ExecutionJob rp)) refs in
     if info = [] then rp
     else on_collector (\<lambda>cj. cj\<lparr>cj_RiskDataQueries := map_put riskMrn info (cj_RiskDataQueries cj)\<rparr>) rp) rp infos"

subsection \<open>Checksums of the jobs\<close>

definition sorted_keys :: "(string, 'v) gomap \<Rightarrow> string list" where
  "sorted_keys m = sort (map fst m)"

definition execution_checksum :: "externals \<Rightarrow> ExecutionJob \<Rightarrow> string" where
  "execution_checksum X xj = ex_String X (foldl (\<lambda>c k. sum_Add c (xq_Checksum (the (map_get (xj_Queries xj) k))))
     (sum_Add [] ''v2'') (sorted_keys (xj_Queries xj)))"

definition collector_checksum :: "externals \<Rightarrow> CollectorJob \<Rightarrow> string" where
  "collector_checksum X cj =
     (let c = foldl (\<lambda>c k. sum_Add (sum_Add c k) (pj_Checksum (the (map_get (cj_ReportingJobs cj) k)))) []
            (sorted_keys (cj_ReportingJobs cj))
      in ex_String X (foldl (\<lambda>c k. let info = the (map_get (cj_Datapoints cj) k) in
           foldl sum_Add (sum_Add (sum_Add c k) (dq_Type info)) (sort (dq_Notify info))) c
             (sorted_keys (cj_Datapoints cj))))"

definition refreshChecksums :: "externals \<Rightarrow> ResolvedPolicy \<Rightarrow> ResolvedPolicy" where
  "refreshChecksums X rp = rp
     \<lparr>rpo_ExecutionJob := (rpo_ExecutionJob rp)\<lparr>xj_Checksum := execution_checksum X (rpo_ExecutionJob rp)\<rparr>,
      rpo_CollectorJob := (rpo_CollectorJob rp)\<lparr>cj_Checksum := collector_checksum X (rpo_CollectorJob rp)\<rparr>\<rparr>"

definition RefreshChecksum :: "externals \<Rightarrow> ReportingJob \<Rightarrow> ReportingJob" where
  "RefreshChecksum X r =
     (let c = sum_Add (sum_Add (sum_Add [] ''v2'') (pj_Uuid r)) (pj_QrId r);
          c = foldl (\<lambda>c k. case the (map_get (pj_ChildJobs r) k) of None \<Rightarrow> sum_Add c k
                | i \<Rightarrow> sum_AddUint (sum_Add c k) (Impact_Checksum X i)) c (sorted_keys (pj_ChildJobs r));
          c = foldl sum_Add c (sort (pj_Notify r))
      in r\<lparr>pj_Checksum := ex_String X c\<rparr>)"

subsection \<open>Resolving\<close>

datatype resolve_error = ResolveError string | AssetMatchError string

definition initial_builder ::
  "string \<Rightarrow> PolicyBundleMap \<Rightarrow> Property list \<Rightarrow> Impact list \<Rightarrow> FilterQuery list \<Rightarrow> int \<Rightarrow> Mquery \<Rightarrow> resolvedPolicyBuilder" where
  "initial_builder mrn bm props impacts assetFilters now dq =
     \<lparr>rb_bundleMrn = mrn, rb_bundleMap = bm, rb_nodes = [], rb_reportsToEdges = [], rb_reportsFromEdges = [],
      rb_assetFilters = foldl (\<lambda>m f. map_put (mq_CodeId f) () m) [] assetFilters, rb_policyScoringSystems = [],
      rb_actionOverrides = [], rb_impactOverrides = [], rb_riskMagnitudes = [], rb_queryTypes = [],
      rb_propsCache = \<lparr>pc_cache = [], pc_uidOnlyProps = [], pc_store = props\<rparr>, rb_now = now,
      rb_disabledQuery = dq, rb_riskDataQueryInfos = [], rb_impacts = impacts\<rparr>"

definition disabledQuery_mql :: string where
  "disabledQuery_mql = ''// Disabled'' @ [CHR 0x0A] @ replicate 2 (CHR 0x09) @ ''if(false) { return false }''"

definition disabledQuery :: "string \<Rightarrow> Mquery" where
  "disabledQuery codeId = \<lparr>mq_Query = '''', mq_Mql = disabledQuery_mql, mq_CodeId = codeId, mq_Checksum = '''', mq_Mrn = '''',
     mq_Title = '''', mq_Desc = '''', mq_Impact = None, mq_Filters = None, mq_Props = [], mq_Variants = [],
     mq_Action = Action_UNSPECIFIED\<rparr>"

text \<open>The graph of a bundle: the three passes over the policy and the two over the framework.\<close>

definition resolver_graph ::
  "nat \<Rightarrow> externals \<Rightarrow> string \<Rightarrow> resolvedPolicyBuilder \<Rightarrow> resolvedPolicyBuilder go" where
  "resolver_graph k X mrn b =
     (let policyObj = policy_at b mrn; frameworkObj = map_get (bm_Frameworks (rb_bundleMap b)) mrn in
      go_bind (gatherGlobalInfoFromPolicy k policyObj b) (\<lambda>b.
      go_bind (gatherGlobalInfoFromFramework k frameworkObj b) (\<lambda>b.
      go_bind (collectQueryTypes k b (rb_queryTypes b) mrn) (\<lambda>types.
      go_bind (addPolicy k X policyObj (b\<lparr>rb_queryTypes := types\<rparr>)) (\<lambda>(added, b).
      case frameworkObj of None \<Rightarrow> Inr b
      | Some f \<Rightarrow> go_bind (addFramework k f b) (\<lambda>(added, b). Inr b))))))"

definition empty_policy :: "FilterQuery list \<Rightarrow> string \<Rightarrow> string \<Rightarrow> ResolvedPolicy" where
  "empty_policy filters exec_sum filters_sum =
     \<lparr>rpo_ExecutionJob = \<lparr>xj_Checksum = '''', xj_Queries = []\<rparr>,
      rpo_CollectorJob = \<lparr>cj_Checksum = '''', cj_ReportingJobs = [], cj_ReportingQueries = [], cj_Datapoints = [],
        cj_RiskMrns = [], cj_RiskFactors = [], cj_RiskDataQueries = []\<rparr>,
      rpo_Filters = filters, rpo_GraphExecutionChecksum = exec_sum, rpo_FiltersChecksum = filters_sum,
      rpo_ReportingJobUuid = ''''\<rparr>"

text \<open>What follows the walk: the jobs are connected, the root is renamed and the checksums are computed.\<close>

definition finish_policy :: "externals \<Rightarrow> string \<Rightarrow> resolvedPolicyBuilder \<Rightarrow> ResolvedPolicy \<Rightarrow> resolve_error + ResolvedPolicy" where
  "finish_policy X bundleMrn b rp =
     (let rp = add_risk_data (rb_riskDataQueryInfos b) rp in
      case jobs_by_qrid (rp_jobs rp) [] of
        Inl e \<Rightarrow> Inl (ResolveError e)
      | Inr byQrId \<Rightarrow>
          let rp = on_jobs (connect_jobs byQrId (rb_reportsFromEdges b)) rp in
          (case map_get byQrId bundleMrn of
             None \<Rightarrow> Inl (AssetMatchError bundleMrn)
           | Some rootUuid \<Rightarrow>
               let rp = on_jobs (on_job rootUuid (\<lambda>j. j\<lparr>pj_QrId := ''root''\<rparr>)) rp;
                   rp = rp\<lparr>rpo_ReportingJobUuid := rootUuid\<rparr>;
                   rp = refreshChecksums X rp
               in Inr (on_jobs (map (\<lambda>(u, j). (u, RefreshChecksum X j))) rp)))"

definition non_prunables :: "resolvedPolicyBuilder \<Rightarrow> (string \<times> rpBuilderNode) list" where
  "non_prunables b = filter (\<lambda>(nid, n). \<not> isPrunable n) (rb_nodes b)"

definition build_walk ::
  "nat \<Rightarrow> externals \<Rightarrow> rpBuilderData \<Rightarrow> resolvedPolicyBuilder \<Rightarrow> (string \<times> rpBuilderNode) list \<Rightarrow> ResolvedPolicy
     \<Rightarrow> (string + string list \<times> ResolvedPolicy) go" where
  "build_walk k X d b roots rp = walk_roots k (node_build X d) (map_get (rb_nodes b)) (edges_from b) roots ([], rp)"

definition buildResolvedPolicy ::
  "nat \<Rightarrow> externals \<Rightarrow> string \<Rightarrow> Bundle \<Rightarrow> Property list \<Rightarrow> Impact list \<Rightarrow> FilterQuery list \<Rightarrow> int
     \<Rightarrow> (resolve_error + ResolvedPolicy) go" where
  "buildResolvedPolicy k X bundleMrn p props impacts assetFilters now =
     (case ex_Compile X disabledQuery_mql [] of
        Inl e \<Rightarrow> Inr (Inl (ResolveError e))
      | Inr cb \<Rightarrow>
          let b = initial_builder bundleMrn (ToMap props p) props impacts assetFilters now (disabledQuery (cb_Id cb));
              policyObj = policy_at b bundleMrn;
              frameworkObj = map_get (bm_Frameworks (rb_bundleMap b)) bundleMrn
          in go_bind (resolver_graph k X bundleMrn b) (\<lambda>b.
            let exec_sum = BundleExecutionChecksum X policyObj frameworkObj in
            case ChecksumAssetFilters X assetFilters of
              Inl e \<Rightarrow> Inr (Inl (ResolveError e))
            | Inr (filters_sum, filters) \<Rightarrow>
                let d = \<lparr>bd_baseChecksum = checksumStrings X [exec_sum, filters_sum, ''v2''], bd_propsCache = rb_propsCache b\<rparr>
                in go_bind (build_walk k X d b (non_prunables b) (empty_policy filters exec_sum filters_sum)) (\<lambda>r.
                  case r of Inl e \<Rightarrow> Inr (Inl (ResolveError e))
                  | Inr (visited, rp) \<Rightarrow> Inr (finish_policy X bundleMrn b rp))))"

end
