(* ===== verification/Resolver_Walk.thy ===== *)
theory Resolver_Walk
  imports Resolver_Build
begin

text \<open>
  The depth-first walk of policy resolution, over any kind of nodes and any build step: it visits exactly the nodes
  that can be reached, builds each once and in the order it visits them, and returns within a stack that is one deeper
  than there are nodes.
\<close>

subsection \<open>Reachability and the order of the build steps\<close>

inductive reachable :: "(string \<Rightarrow> 'n option) \<Rightarrow> (string \<Rightarrow> string list) \<Rightarrow> string set \<Rightarrow> string \<Rightarrow> bool"
  for nodes edges roots where
  root: "x \<in> roots \<Longrightarrow> reachable nodes edges roots x"
| step: "reachable nodes edges roots x \<Longrightarrow> y \<in> set (edges x) \<Longrightarrow> nodes y \<noteq> None \<Longrightarrow> reachable nodes edges roots y"

lemma reachable_mono: "reachable nodes edges A x \<Longrightarrow> A \<subseteq> B \<Longrightarrow> reachable nodes edges B x"
  by (induction rule: reachable.induct) (auto intro: reachable.intros)

lemma reachable_trans:
  "reachable nodes edges A x \<Longrightarrow> (\<And>a. a \<in> A \<Longrightarrow> reachable nodes edges B a) \<Longrightarrow> reachable nodes edges B x"
  by (induction rule: reachable.induct) (auto intro: reachable.intros)

text \<open>Building a list of nodes, one after the other.\<close>

fun build_list :: "('n \<Rightarrow> 'r \<Rightarrow> string + 'r) \<Rightarrow> 'n list \<Rightarrow> 'r \<Rightarrow> string + 'r" where
  "build_list build [] rp = Inr rp"
| "build_list build (n # ns) rp = (case build n rp of Inl e \<Rightarrow> Inl e | Inr rp \<Rightarrow> build_list build ns rp)"

lemma build_list_append:
  "build_list build (xs @ ys) rp = (case build_list build xs rp of Inl e \<Rightarrow> Inl e | Inr rp \<Rightarrow> build_list build ys rp)"
  by (induction xs arbitrary: rp) (auto split: sum.splits)

text \<open>
  A step of the walk from visited nodes \<open>V\<close> to \<open>V'\<close>: what is new was not visited, was built in the order in
  which it was visited, lies in \<open>R\<close>, and has all its successors among the visited.
\<close>

definition walked ::
  "('n \<Rightarrow> 'r \<Rightarrow> string + 'r) \<Rightarrow> (string \<Rightarrow> 'n option) \<Rightarrow> (string \<Rightarrow> string list) \<Rightarrow> string set
     \<Rightarrow> string list \<times> 'r \<Rightarrow> string list \<times> 'r \<Rightarrow> bool" where
  "walked build nodes edges A s s' \<longleftrightarrow> (\<exists>W. fst s' = W @ fst s \<and> distinct W \<and> set W \<inter> set (fst s) = {}
     \<and> (\<forall>x \<in> set W. nodes x \<noteq> None \<and> reachable nodes edges A x)
     \<and> (\<forall>x \<in> set W. \<forall>y \<in> set (edges x). nodes y \<noteq> None \<longrightarrow> y \<in> set (fst s'))
     \<and> build_list build (map (the \<circ> nodes) (rev W)) (snd s) = Inr (snd s'))"

lemma walked_refl: "walked build nodes edges A s s"
  by (auto simp: walked_def)

lemma walked_trans:
  assumes "walked build nodes edges A s t" and "walked build nodes edges A t u"
  shows "walked build nodes edges A s u"
proof -
  from assms(1) obtain W1 where W1: "fst t = W1 @ fst s" "distinct W1" "set W1 \<inter> set (fst s) = {}"
    "\<forall>x \<in> set W1. nodes x \<noteq> None \<and> reachable nodes edges A x"
    "\<forall>x \<in> set W1. \<forall>y \<in> set (edges x). nodes y \<noteq> None \<longrightarrow> y \<in> set (fst t)"
    "build_list build (map (the \<circ> nodes) (rev W1)) (snd s) = Inr (snd t)" by (auto simp: walked_def)
  from assms(2) obtain W2 where W2: "fst u = W2 @ fst t" "distinct W2" "set W2 \<inter> set (fst t) = {}"
    "\<forall>x \<in> set W2. nodes x \<noteq> None \<and> reachable nodes edges A x"
    "\<forall>x \<in> set W2. \<forall>y \<in> set (edges x). nodes y \<noteq> None \<longrightarrow> y \<in> set (fst u)"
    "build_list build (map (the \<circ> nodes) (rev W2)) (snd t) = Inr (snd u)" by (auto simp: walked_def)
  have "fst u = (W2 @ W1) @ fst s" "distinct (W2 @ W1)" "set (W2 @ W1) \<inter> set (fst s) = {}"
    using W1 W2 by auto
  moreover have "\<forall>x \<in> set (W2 @ W1). \<forall>y \<in> set (edges x). nodes y \<noteq> None \<longrightarrow> y \<in> set (fst u)"
    using W1(1,5) W2(1,5) by auto
  moreover have "build_list build (map (the \<circ> nodes) (rev (W2 @ W1))) (snd s) = Inr (snd u)"
    using W1(6) W2(6) by (simp add: build_list_append)
  ultimately show ?thesis using W1(4) W2(4) unfolding walked_def by (intro exI [of _ "W2 @ W1"]) auto
qed

lemma walked_mono: "walked build nodes edges A s t \<Longrightarrow> (\<And>x. reachable nodes edges A x \<Longrightarrow> reachable nodes edges B x)
    \<Longrightarrow> walked build nodes edges B s t"
  unfolding walked_def by blast

lemma walked_visited: "walked build nodes edges A s t \<Longrightarrow> set (fst s) \<subseteq> set (fst t)"
  by (auto simp: walked_def)

lemma walk_walked:
  "walk k build nodes edges n s = Inr (Inr t) \<Longrightarrow> nodes (fst n) = Some (snd n)
    \<Longrightarrow> walked build nodes edges {fst n} s t \<and> fst n \<in> set (fst t)"
  "walk_all k build nodes edges es s = Inr (Inr t) \<Longrightarrow>
     walked build nodes edges {e \<in> set es. nodes e \<noteq> None} s t \<and> (\<forall>e \<in> set es. nodes e \<noteq> None \<longrightarrow> e \<in> set (fst t))"
proof (induction k build nodes edges n s and k build nodes edges es s arbitrary: t and t rule: walk_walk_all.induct)
  case (2 k build nodes edges nid n visited rp)
  show ?case
  proof (cases "nid \<in> set visited")
    case True
    with 2 show ?thesis by (auto simp: walked_refl)
  next
    case False
    with 2 obtain rp1 where b: "build n rp = Inr rp1"
      and w: "walk_all k build nodes edges (edges nid) (nid # visited, rp1) = Inr (Inr t)"
      by (auto split: sum.splits)
    let ?A = "{e \<in> set (edges nid). nodes e \<noteq> None}"
    from 2(1) [OF False b w] have ih: "walked build nodes edges ?A (nid # visited, rp1) t"
      "\<forall>e \<in> set (edges nid). nodes e \<noteq> None \<longrightarrow> e \<in> set (fst t)" by auto
    have r: "reachable nodes edges {nid} x" if "reachable nodes edges ?A x" for x
      by (rule reachable_trans [OF that]) (auto intro: reachable.intros)
    from ih(1) obtain W where W: "fst t = W @ nid # visited" "distinct W" "set W \<inter> set (nid # visited) = {}"
      "\<forall>x \<in> set W. nodes x \<noteq> None \<and> reachable nodes edges ?A x"
      "\<forall>x \<in> set W. \<forall>y \<in> set (edges x). nodes y \<noteq> None \<longrightarrow> y \<in> set (fst t)"
      "build_list build (map (the \<circ> nodes) (rev W)) rp1 = Inr (snd t)" by (auto simp: walked_def)
    have "walked build nodes edges {nid} (visited, rp) t"
      unfolding walked_def using W ih(2) False 2(3) b r
      by (intro exI [of _ "W @ [nid]"]) (auto intro: reachable.root)
    with W(1) show ?thesis by simp
  qed
next
  case (4 k build nodes edges e es s)
  show ?case
  proof (cases "nodes e")
    case None
    with 4(4) have w: "walk_all k build nodes edges es s = Inr (Inr t)" by simp
    from 4(1) [OF None w] None show ?thesis by (auto elim!: walked_mono reachable_mono)
  next
    case (Some n)
    with 4(4) obtain s1 where w1: "walk k build nodes edges (e, n) s = Inr (Inr s1)"
      and w2: "walk_all k build nodes edges es s1 = Inr (Inr t)"
      by (auto simp: go_bind_def split: sum.splits)
    from 4(2) [OF Some w1] Some have a: "walked build nodes edges {e} s s1" "e \<in> set (fst s1)" by auto
    from 4(3) [OF Some w2] have b: "walked build nodes edges {e \<in> set es. nodes e \<noteq> None} s1 t"
      "\<forall>e \<in> set es. nodes e \<noteq> None \<longrightarrow> e \<in> set (fst t)" by auto
    let ?B = "{x \<in> set (e # es). nodes x \<noteq> None}"
    have "walked build nodes edges ?B s s1" using a(1) Some by (auto elim!: walked_mono reachable_mono)
    moreover have "walked build nodes edges ?B s1 t" using b(1) by (auto elim!: walked_mono reachable_mono)
    ultimately have "walked build nodes edges ?B s t" by (rule walked_trans)
    with a(2) b walked_visited [OF b(1)] show ?thesis by auto
  qed
qed (auto simp: walked_refl)

lemma walk_roots_walked:
  assumes "walk_roots k build nodes edges ns s = Inr (Inr t)" and "\<forall>n \<in> set ns. nodes (fst n) = Some (snd n)"
  shows "walked build nodes edges (fst ` set ns) s t \<and> fst ` set ns \<subseteq> set (fst t)"
  using assms
proof (induction ns arbitrary: s)
  case (Cons n ns)
  then obtain s1 where w1: "walk k build nodes edges n s = Inr (Inr s1)"
    and w2: "walk_roots k build nodes edges ns s1 = Inr (Inr t)"
    by (auto simp: go_bind_def split: sum.splits)
  from walk_walked(1) [OF w1] Cons.prems have a: "walked build nodes edges {fst n} s s1" "fst n \<in> set (fst s1)" by auto
  from Cons.IH [OF w2] Cons.prems have b: "walked build nodes edges (fst ` set ns) s1 t" "fst ` set ns \<subseteq> set (fst t)" by auto
  have "walked build nodes edges (fst ` set (n # ns)) s s1" using a(1) by (auto elim!: walked_mono reachable_mono)
  moreover have "walked build nodes edges (fst ` set (n # ns)) s1 t" using b(1) by (auto elim!: walked_mono reachable_mono)
  ultimately have "walked build nodes edges (fst ` set (n # ns)) s t" by (rule walked_trans)
  with a(2) b walked_visited [OF b(1)] show ?case by auto
qed (simp add: walked_refl)


subsection \<open>The walk returns\<close>

definition unvisited :: "(string \<Rightarrow> 'n option) \<Rightarrow> string list \<Rightarrow> nat" where
  "unvisited nodes V = card (dom nodes - set V)"

lemma unvisited_less:
  assumes "finite (dom nodes)" and "nodes x \<noteq> None" and "x \<notin> set V"
  shows "unvisited nodes (x # V) < unvisited nodes V"
  unfolding unvisited_def using assms by (intro psubset_card_mono) auto

lemma unvisited_mono: "finite (dom nodes) \<Longrightarrow> set V \<subseteq> set W \<Longrightarrow> unvisited nodes W \<le> unvisited nodes V"
  unfolding unvisited_def by (rule card_mono) auto

lemma walk_returns:
  "finite (dom nodes) \<Longrightarrow> unvisited nodes (fst s) < k \<Longrightarrow> nodes (fst n) = Some (snd n)
    \<Longrightarrow> \<exists>r. walk k build nodes edges n s = Inr r"
  "finite (dom nodes) \<Longrightarrow> unvisited nodes (fst s) < k \<Longrightarrow> \<exists>r. walk_all k build nodes edges es s = Inr r"
proof (induction k build nodes edges n s and k build nodes edges es s rule: walk_walk_all.induct)
  case (2 k build nodes edges nid n visited rp)
  show ?case
  proof (cases "nid \<in> set visited")
    case False
    have "unvisited nodes (nid # visited) < k" using unvisited_less [OF 2(2) _ False] 2(3,4) by fastforce
    with 2(1) [OF False _ 2(2)] False show ?thesis by (auto split: sum.splits)
  qed simp
next
  case (4 k build nodes edges e es s)
  show ?case
  proof (cases "nodes e")
    case None
    with 4(1) [OF None 4(4,5)] show ?thesis by simp
  next
    case (Some n)
    with 4(2) [OF Some 4(4,5)] obtain r where r: "walk k build nodes edges (e, n) s = Inr r" by auto
    show ?thesis
    proof (cases r)
      case (Inr t)
      have "set (fst s) \<subseteq> set (fst t)"
        by (rule walked_visited, rule conjunct1, rule walk_walked(1) [OF r [unfolded Inr]]) (simp add: Some)
      with unvisited_mono [OF 4(4) this] 4(5) have "unvisited nodes (fst t) < k" by simp
      from 4(3) [OF Some 4(4) this] obtain r2 where "walk_all k build nodes edges es t = Inr r2" by blast
      then show ?thesis by (simp add: Some r Inr)
    qed (use r Some in simp)
  qed
qed auto

lemma walk_roots_returns:
  assumes "finite (dom nodes)" and "unvisited nodes (fst s) < k" and "\<forall>n \<in> set ns. nodes (fst n) = Some (snd n)"
  shows "\<exists>r. walk_roots k build nodes edges ns s = Inr r"
  using assms
proof (induction ns arbitrary: s)
  case (Cons n ns)
  then obtain r where r: "walk k build nodes edges n s = Inr r" by (meson list.set_intros(1) walk_returns(1))
  show ?case
  proof (cases r)
    case (Inr t)
    have "set (fst s) \<subseteq> set (fst t)"
      by (rule walked_visited, rule conjunct1, rule walk_walked(1) [OF r [unfolded Inr]]) (simp add: Cons.prems)
    with unvisited_mono [OF Cons.prems(1) this] Cons.prems(2) have "unvisited nodes (fst t) < k" by simp
    from Cons.IH [OF Cons.prems(1) this] Cons.prems(3)
    obtain r2 where "walk_roots k build nodes edges ns t = Inr r2" by auto
    then show ?thesis by (simp add: r Inr)
  qed (use r in simp)
qed simp

text \<open>Everything together: the walk from nothing visits exactly what can be reached, each node once.\<close>

lemma walk_roots_reachable:
  assumes "walk_roots k build nodes edges ns ([], rp) = Inr (Inr (V, rp'))"
    and "\<forall>n \<in> set ns. nodes (fst n) = Some (snd n)"
  shows "distinct V" and "set V = {x. reachable nodes edges (fst ` set ns) x}"
    and "build_list build (map (the \<circ> nodes) (rev V)) rp = Inr rp'"
proof -
  from walk_roots_walked [OF assms] have w: "walked build nodes edges (fst ` set ns) ([], rp) (V, rp')"
    "fst ` set ns \<subseteq> set V" by auto
  then obtain W where W: "V = W" "distinct W" "\<forall>x \<in> set W. nodes x \<noteq> None \<and> reachable nodes edges (fst ` set ns) x"
    "\<forall>x \<in> set W. \<forall>y \<in> set (edges x). nodes y \<noteq> None \<longrightarrow> y \<in> set V"
    "build_list build (map (the \<circ> nodes) (rev W)) rp = Inr rp'"
    unfolding walked_def fst_conv snd_conv append_Nil2 by blast
  then show "distinct V" and "build_list build (map (the \<circ> nodes) (rev V)) rp = Inr rp'" by simp_all
  have "x \<in> set V" if "reachable nodes edges (fst ` set ns) x" for x
    using that
  proof (induction rule: reachable.induct)
    case (step x y)
    with W(1,4) show ?case by blast
  qed (use w(2) in blast)
  with W(1,3) show "set V = {x. reachable nodes edges (fst ` set ns) x}" by blast
qed

end
