(* ===== verification/Resolver_Steps.thy ===== *)
theory Resolver_Steps
  imports Resolver_Build
begin

text \<open>
  What the construction of the resolver's graph keeps. \<open>graph_steps\<close> is the interface of the four changes it makes to
  the builder, with the induction over the whole construction done once; \<open>gather_steps\<close> is that of the first pass.
  \<open>graph_ok\<close> is the invariant of the graph.
\<close>

subsection \<open>What every step of the graph construction keeps\<close>

lemma go_fold_keeps:
  assumes "go_fold f s xs = Inr s'" and "I s"
    and "\<And>x s s'. x \<in> set xs \<Longrightarrow> f s x = Inr s' \<Longrightarrow> I s \<Longrightarrow> I s'"
  shows "I s'"
  using assms by (induction xs arbitrary: s) (auto simp: go_bind_Inr_iff)

text \<open>
  What may be executed: the placeholder of disabled queries, and a query that supports the asset and either may run
  or belongs to a risk factor of the bundle.
\<close>

definition bundle_risks :: "PolicyBundleMap \<Rightarrow> PolicyRiskFactor set" where
  "bundle_risks M = {r. \<exists>mrn p. (mrn, Some p) \<in> set (bm_Policies M) \<and> r \<in> set (po_RiskFactors p)}"

definition risk_queries :: "PolicyBundleMap \<Rightarrow> Mquery set" where
  "risk_queries M = (\<Union>r \<in> bundle_risks M. set (prf_Checks r) \<union> set (prf_Queries r))"

definition runnable :: "resolvedPolicyBuilder \<Rightarrow> Mquery \<Rightarrow> bool" where
  "runnable b q \<longleftrightarrow> q = rb_disabledQuery b
     \<or> anyFilterMatches b (mq_Filters q) \<and> (canRun (action_of b (mq_Mrn q)) \<or> q \<in> risk_queries (rb_bundleMap b))"

lemma action_of_simps [simp]:
  "action_of (rb_addProps X ps b) mrn = action_of b mrn" "anyFilterMatches (rb_addProps X ps b) f = anyFilterMatches b f"
  "rb_bundleMap (rb_addProps X ps b) = rb_bundleMap b" "runnable (rb_addProps X ps b) q = runnable b q"
  by (simp_all add: action_of_def anyFilterMatches_def rb_addProps_def runnable_def)

text \<open>What decides which part of the bundle applies is fixed before the graph is built.\<close>

definition same_config :: "resolvedPolicyBuilder \<Rightarrow> resolvedPolicyBuilder \<Rightarrow> bool" where
  "same_config b b' \<longleftrightarrow> rb_bundleMrn b' = rb_bundleMrn b \<and> rb_bundleMap b' = rb_bundleMap b
     \<and> rb_assetFilters b' = rb_assetFilters b \<and> rb_actionOverrides b' = rb_actionOverrides b
     \<and> rb_impactOverrides b' = rb_impactOverrides b \<and> rb_impacts b' = rb_impacts b
     \<and> rb_policyScoringSystems b' = rb_policyScoringSystems b \<and> rb_riskMagnitudes b' = rb_riskMagnitudes b
     \<and> rb_queryTypes b' = rb_queryTypes b \<and> rb_now b' = rb_now b \<and> rb_disabledQuery b' = rb_disabledQuery b"

lemma same_config_refl [simp]: "same_config b b"
  by (simp add: same_config_def)


subsection \<open>Which edges are added\<close>

text \<open>
  The child of a query: the query that runs in its place, the variant that was selected, or its own code, with the code
  that is executed in the end. \<open>None\<close> is a traversal that is too deep or a panic.
\<close>

fun child_of :: "nat \<Rightarrow> resolvedPolicyBuilder \<Rightarrow> Mquery \<Rightarrow> (string \<times> string) option option"
and variant_of :: "nat \<Rightarrow> resolvedPolicyBuilder \<Rightarrow> ObjectRef list \<Rightarrow> (string \<times> string) option option" where
  "child_of 0 b q = None"
| "child_of (Suc k) b q =
     (if \<not> canRun (action_of b (mq_Mrn q)) then
        Some (if anyFilterMatches b (mq_Filters q) then Some (mq_CodeId (rb_disabledQuery b), mq_CodeId (rb_disabledQuery b)) else None)
      else if mq_Variants q \<noteq> [] then variant_of k b (mq_Variants q)
      else Some (if anyFilterMatches b (mq_Filters q) then Some (mq_CodeId q, mq_CodeId q) else None))"
| "variant_of k b [] = Some None"
| "variant_of k b (v # vs) = (case map_get (bm_Queries (rb_bundleMap b)) (or_Mrn v) of
     None \<Rightarrow> variant_of k b vs
   | Some None \<Rightarrow> None
   | Some (Some q) \<Rightarrow> (case child_of k b q of
         None \<Rightarrow> None
       | Some None \<Rightarrow> variant_of k b vs
       | Some (Some (c, code)) \<Rightarrow> Some (Some (mq_Mrn q, code))))"

lemma child_of_config:
  "same_config b b' \<Longrightarrow> child_of k b' q = child_of k b q"
  "same_config b b' \<Longrightarrow> variant_of k b' vs = variant_of k b vs"
  by (induction k b q and k b vs rule: child_of_variant_of.induct)
    (auto simp: same_config_def action_of_def anyFilterMatches_def split: option.splits)

lemma same_config_steps [simp]:
  "same_config b (rb_addEdge src tgt impact b') = same_config b b'" "same_config b (rb_addNode n b') = same_config b b'"
  "same_config b (rb_addProps X ps b') = same_config b b'" "same_config b (b'\<lparr>rb_riskDataQueryInfos := m\<rparr>) = same_config b b'"
  by (simp_all add: same_config_def rb_addEdge_def rb_addNode_def rb_addProps_def)

lemma same_config_trans: "same_config b b' \<Longrightarrow> same_config b' b'' \<Longrightarrow> same_config b b''"
  by (simp add: same_config_def)

definition bundle_queries :: "PolicyBundleMap \<Rightarrow> Mquery set" where
  "bundle_queries M = {q. \<exists>mrn. (mrn, Some q) \<in> set (bm_Queries M)}"

lemma bundle_queriesI: "map_get (bm_Queries M) mrn = Some (Some q) \<Longrightarrow> q \<in> bundle_queries M"
  by (auto simp: bundle_queries_def dest: map_of_SomeD)

lemma addQuery_child:
  "addQuery k X qo b = Inr (r, b') \<Longrightarrow> \<exists>q x. qo = Some q \<and> same_config b b' \<and> child_of k b q = Some x \<and> r = map_option snd x"
  "addVariants k X vs b = Inr (r', b') \<Longrightarrow> same_config b b' \<and> (\<exists>x. variant_of k b vs = Some x
     \<and> (case r' of None \<Rightarrow> x = None | Some (v, code) \<Rightarrow> x = Some (mq_Mrn v, code) \<and> v \<in> bundle_queries (rb_bundleMap b)))"
proof (induction k X qo b and k X vs b arbitrary: r b' and r' b' rule: addQuery_addVariants.induct)
  case (3 k X q b)
  show ?case
  proof (cases "canRun (action_of b (mq_Mrn q)) \<and> mq_Variants q \<noteq> []")
    case True
    with 3(2) obtain r1 b1 where v: "addVariants k X (mq_Variants q) b = Inr (r1, b1)"
      by (auto simp: go_bind_Inr_iff)
    from 3(1) [OF refl refl refl _ _ v] True have "same_config b b1 \<and> (\<exists>x. variant_of k b (mq_Variants q) = Some x
     \<and> (case r1 of None \<Rightarrow> x = None | Some (v, code) \<Rightarrow> x = Some (mq_Mrn v, code) \<and> v \<in> bundle_queries (rb_bundleMap b)))" by simp
    with 3(2) v True show ?thesis by (auto simp: Let_def split: option.splits)
  qed (use 3(2) in \<open>auto simp: Let_def split: if_splits\<close>)
next
  case c5: (5 k X v vs b)
  show ?case
  proof (cases "map_get (bm_Queries (rb_bundleMap b)) (or_Mrn v)")
    case None
    with c5(1) [OF None] c5.prems show ?thesis by simp
  next
    case (Some qo)
    with c5.prems obtain r1 b1 where a: "addQuery k X qo b = Inr (r1, b1)"
      and rest: "(case r1 of None \<Rightarrow> addVariants k X vs b1 | Some codeId \<Rightarrow> go_bind (go_deref qo) (\<lambda>v. Inr (Some (v, codeId), b1))) = Inr (r', b')"
      by (auto simp: go_bind_Inr_iff)
    from c5(2) [OF Some a] obtain q x where q: "qo = Some q" "same_config b b1" "child_of k b q = Some x" "r1 = map_option snd x" by blast
    show ?thesis
    proof (cases x)
      case None
      with q rest have "addVariants k X vs b1 = Inr (r', b')" by simp
      from c5(3) [OF \<open>map_get _ _ = Some qo\<close> refl this] q(4) None have "same_config b1 b' \<and> (\<exists>x. variant_of k b1 vs = Some x
        \<and> (case r' of None \<Rightarrow> x = None | Some (v, code) \<Rightarrow> x = Some (mq_Mrn v, code) \<and> v \<in> bundle_queries (rb_bundleMap b1)))" by simp
      moreover have "rb_bundleMap b1 = rb_bundleMap b" using q(2) by (simp add: same_config_def)
      ultimately show ?thesis using q None \<open>map_get _ _ = Some qo\<close> child_of_config(2) [OF q(2)] same_config_trans [OF q(2)]
        by (cases r') auto
    next
      case (Some c)
      with q rest show ?thesis using \<open>map_get (bm_Queries (rb_bundleMap b)) (or_Mrn v) = Some qo\<close>
        by (cases c) (auto intro: bundle_queriesI)
    qed
  qed
qed auto

text \<open>An edge leads from the child of a query to the query, or to a policy, a risk factor, a framework or a control.\<close>

definition bundle_policies :: "PolicyBundleMap \<Rightarrow> Policy set" where
  "bundle_policies M = {p. \<exists>mrn. (mrn, Some p) \<in> set (bm_Policies M)}"

definition group_mrns :: "PolicyBundleMap \<Rightarrow> string set" where
  "group_mrns M = po_Mrn ` bundle_policies M \<union> rf_Mrn ` bundle_risks M
     \<union> (\<Union>f \<in> snd ` set (bm_Frameworks M). insert (fw_Mrn f) (\<Union>fm \<in> set (fw_FrameworkMaps f).
          (case fm_FrameworkOwner fm of None \<Rightarrow> {} | Some r \<Rightarrow> {or_Mrn r}) \<union> cm_Mrn ` set (fm_Controls fm)))"

definition proper_edge :: "PolicyBundleMap \<Rightarrow> resolvedPolicyBuilder \<Rightarrow> string \<Rightarrow> string \<Rightarrow> bool" where
  "proper_edge M b src tgt \<longleftrightarrow> tgt \<in> group_mrns M
     \<or> (\<exists>q k code. q \<in> bundle_queries M \<and> tgt = mq_Mrn q \<and> child_of k b q = Some (Some (src, code)))"

text \<open>The nodes besides the executed queries are those of the queries of the bundle and of the groups.\<close>

fun proper_node :: "PolicyBundleMap \<Rightarrow> rpBuilderNode \<Rightarrow> bool" where
  "proper_node M (GenericQueryNode mrn t c) \<longleftrightarrow> mrn \<in> mq_Mrn ` bundle_queries M"
| "proper_node M (ExecQueryNode q) \<longleftrightarrow> False"
| "proper_node M n \<longleftrightarrow> getId n \<in> group_mrns M"

lemma proper_edge_config: "same_config b b' \<Longrightarrow> proper_edge M b' src tgt = proper_edge M b src tgt"
  by (simp add: proper_edge_def child_of_config)

lemma proper_group: "tgt \<in> group_mrns M \<Longrightarrow> proper_edge M b src tgt"
  by (simp add: proper_edge_def)

lemma policy_groups: "pol \<in> bundle_policies M \<Longrightarrow> po_Mrn pol \<in> group_mrns M"
  "pol \<in> bundle_policies M \<Longrightarrow> set (po_RiskFactors pol) \<subseteq> bundle_risks M" "rk \<in> bundle_risks M \<Longrightarrow> rf_Mrn rk \<in> group_mrns M"
  by (auto simp: group_mrns_def bundle_policies_def bundle_risks_def)

lemma framework_groups:
  assumes "f \<in> snd ` set (bm_Frameworks M)"
  shows "fw_Mrn f \<in> group_mrns M" and "fm \<in> set (fw_FrameworkMaps f) \<Longrightarrow> c \<in> set (fm_Controls fm) \<Longrightarrow> cm_Mrn c \<in> group_mrns M"
    and "fm \<in> set (fw_FrameworkMaps f) \<Longrightarrow> fm_FrameworkOwner fm = Some ow \<Longrightarrow> or_Mrn ow \<in> group_mrns M"
  using assms unfolding group_mrns_def by (blast, blast, fastforce)

text \<open>
  The construction changes the builder only by adding edges, nodes, properties and the data queries of risk factors, and
  adds an executed query only when it is \<open>runnable\<close>: what these changes keep, the whole construction keeps.
\<close>

locale graph_steps =
  fixes I :: "resolvedPolicyBuilder \<Rightarrow> bool" and M :: PolicyBundleMap
  assumes keeps_edge: "I b \<Longrightarrow> proper_edge M b src tgt \<Longrightarrow> I (rb_addEdge src tgt impact b)"
    and keeps_exec: "I b \<Longrightarrow> runnable b q \<Longrightarrow> I (rb_addNode (ExecQueryNode q) b)"
    and keeps_node: "I b \<Longrightarrow> proper_node M n \<Longrightarrow> I (rb_addNode n b)"
    and keeps_props: "I b \<Longrightarrow> I (rb_addProps X ps b)"
    and keeps_info: "I b \<Longrightarrow> I (b\<lparr>rb_riskDataQueryInfos := m\<rparr>)"
    and keeps_bundle: "I b \<Longrightarrow> rb_bundleMap b = M"
begin

lemmas keeps = keeps_node keeps_props keeps_info

lemma keeps_group: "I b \<Longrightarrow> tgt \<in> group_mrns M \<Longrightarrow> I (rb_addEdge src tgt impact b)"
  by (intro keeps_edge proper_group)

lemma addQuery_keeps:
  "addQuery k X qo b = Inr (r, b') \<Longrightarrow> I b \<Longrightarrow> set_option qo \<subseteq> bundle_queries M \<Longrightarrow> I b'"
  "addVariants k X vs b = Inr (r', b') \<Longrightarrow> I b \<Longrightarrow> I b'"
proof (induction k X qo b and k X vs b arbitrary: r b' and r' b' rule: addQuery_addVariants.induct)
  case (3 k X q b)
  have pe: "proper_edge M b1 src (mq_Mrn q)" if "same_config b b1" "child_of (Suc k) b q = Some (Some (src, code))" for b1 src code
    unfolding proper_edge_def
    using that(2) 3(4) by (intro disjI2 exI [of _ q] exI [of _ "Suc k"] exI [of _ code]) (simp add: child_of_config(1) [OF that(1)] del: child_of.simps)
  show ?case
  proof (cases "canRun (action_of b (mq_Mrn q)) \<and> mq_Variants q \<noteq> []")
    case True
    with 3(2) obtain r1 b1 where v: "addVariants k X (mq_Variants q) b = Inr (r1, b1)"
      by (auto simp: go_bind_Inr_iff)
    have b1: "I b1" by (rule 3(1) [OF refl refl refl _ _ v 3(3)]) (simp_all add: True)
    show ?thesis
    proof (cases r1)
      case None
      with 3(2) v b1 True show ?thesis by (simp add: Let_def)
    next
      case (Some x)
      obtain v code where x: "x = (v, code)" by fastforce
      from addQuery_child(2) [OF v] Some x have c: "same_config b b1" "child_of (Suc k) b q = Some (Some (mq_Mrn v, code))" using True by auto
      from 3(2) v Some x True have b': "b' = rb_addEdge (mq_Mrn v) (mq_Mrn q) (impact_of b (mq_Mrn q))
        (rb_addNode (GenericQueryNode (mq_Mrn q) (query_type_of b (mq_Mrn q)) code) (rb_addProps X (mq_Props v) (rb_addProps X (mq_Props q) b1)))"
        by (simp add: Let_def)
      show ?thesis unfolding b' by (intro keeps_edge keeps b1 pe [OF _ c(2)]) (use 3(4) in \<open>simp_all add: c(1)\<close>)
    qed
  qed (use 3(2,3,4) in \<open>auto simp: Let_def runnable_def intro!: keeps_edge pe keeps keeps_exec split: if_splits\<close>)
next
  case c5: (5 k X v vs b)
  show ?case
  proof (cases "map_get (bm_Queries (rb_bundleMap b)) (or_Mrn v)")
    case None
    with c5(1) [OF None] c5.prems show ?thesis by simp
  next
    case (Some q)
    with c5.prems(1) obtain r1 b1 where a: "addQuery k X q b = Inr (r1, b1)"
      and rest: "(case r1 of None \<Rightarrow> addVariants k X vs b1 | Some codeId \<Rightarrow> go_bind (go_deref q) (\<lambda>v. Inr (Some (v, codeId), b1))) = Inr (r', b')"
      by (auto simp: go_bind_Inr_iff)
    have "set_option q \<subseteq> bundle_queries M"
      using Some bundle_queriesI [of M "or_Mrn v"] keeps_bundle [OF c5.prems(2)] by (cases q) auto
    then have b1: "I b1" by (rule c5(2) [OF Some a c5.prems(2)])
    with rest c5(3) [OF Some] show ?thesis by (cases r1) (auto simp: go_bind_Inr_iff)
  qed
qed auto

lemma runnable_risk: "I b \<Longrightarrow> q \<in> risk_queries M \<Longrightarrow> anyFilterMatches b (mq_Filters q) \<Longrightarrow> runnable b q"
  by (auto simp: runnable_def dest: keeps_bundle)

lemma keeps_risk: "I b \<Longrightarrow> q \<in> risk_queries M \<Longrightarrow> anyFilterMatches b (mq_Filters q)
    \<Longrightarrow> I (rb_addNode (ExecQueryNode q) (rb_addProps X ps b))"
  by (intro keeps_exec keeps_props) (simp_all add: runnable_risk)

lemma add_risk_checks_keeps:
  "I b \<Longrightarrow> set cs \<subseteq> risk_queries M \<Longrightarrow> mrn \<in> group_mrns M \<Longrightarrow> I (snd (add_risk_checks X mrn cs selected b))"
  by (induction X mrn cs selected b rule: add_risk_checks.induct) (auto simp: keeps keeps_group keeps_risk)

lemma add_risk_queries_keeps: "I b \<Longrightarrow> set qs \<subseteq> risk_queries M \<Longrightarrow> I (snd (add_risk_queries X qs selected b))"
  by (induction X qs selected b rule: add_risk_queries.induct) (auto simp: keeps keeps_risk)

lemma addRiskFactor_keeps:
  assumes "I b" and r: "r \<in> bundle_risks M"
  shows "I (snd (addRiskFactor X r b))"
proof -
  obtain c b1 where c: "add_risk_checks X (rf_Mrn r) (prf_Checks r) [] b = (c, b1)" by fastforce
  obtain d b2 where d: "add_risk_queries X (prf_Queries r) [] b1 = (d, b2)" by fastforce
  have sub: "set (prf_Checks r) \<subseteq> risk_queries M" "set (prf_Queries r) \<subseteq> risk_queries M"
    using r by (auto simp: risk_queries_def)
  have "I b1" using add_risk_checks_keeps [OF assms(1) sub(1) policy_groups(3) [OF r], of X "[]"] c by simp
  moreover from this have "I b2" using add_risk_queries_keeps [OF _ sub(2), of b1 X "[]"] d by simp
  ultimately show ?thesis using assms(1)
    using policy_groups(3) [OF r] by (auto simp: addRiskFactor_def c d keeps Let_def split: option.splits)
qed

lemma bundle_query: "I b \<Longrightarrow> map_get (bm_Queries (rb_bundleMap b)) mrn = Some qo \<Longrightarrow> set_option qo \<subseteq> bundle_queries M"
  using bundle_queriesI [of M mrn] by (cases qo) (auto dest: keeps_bundle)

lemma addQuery_at: "addQuery k X qo b = Inr (r, b') \<Longrightarrow> I b \<Longrightarrow> map_get (bm_Queries (rb_bundleMap b)) mrn = Some qo \<Longrightarrow> I b'"
  by (rule addQuery_keeps(1)) (auto dest!: bundle_query)

lemma add_check_keeps: "add_check k X mrn t b c = Inr b' \<Longrightarrow> I b \<Longrightarrow> mrn \<in> group_mrns M \<Longrightarrow> I b'"
  by (auto simp: add_check_def go_bind_Inr_iff keeps keeps_group split: if_splits option.splits dest: addQuery_at)

lemma add_data_query_keeps: "add_data_query k X mrn t b q = Inr b' \<Longrightarrow> I b \<Longrightarrow> mrn \<in> group_mrns M \<Longrightarrow> I b'"
  by (auto simp: add_data_query_def go_bind_Inr_iff keeps keeps_group split: if_splits option.splits dest: addQuery_at)

lemma add_policy_risk_keeps:
  "I (fst s) \<Longrightarrow> r \<in> bundle_risks M \<Longrightarrow> mrn \<in> group_mrns M \<Longrightarrow> I (fst (add_policy_risk X mrn s r))"
  using addRiskFactor_keeps [of "fst s" r X]
  by (auto simp: add_policy_risk_def keeps_group split: prod.splits sum.splits bool.splits)

lemma policy_at_bundle: "I b \<Longrightarrow> policy_at b mrn = Some p \<Longrightarrow> p \<in> bundle_policies M"
  by (auto simp: policy_at_def bundle_policies_def dest!: keeps_bundle map_of_SomeD split: option.splits)

lemma addPolicy_keeps:
  "addPolicy k X p b = Inr (r, b') \<Longrightarrow> I b \<Longrightarrow> set_option p \<subseteq> bundle_policies M \<Longrightarrow> I b'"
proof (induction k X p b arbitrary: r b' rule: addPolicy.induct)
  case (3 k X policy b)
  then have pol: "policy \<in> bundle_policies M" by simp
  note mrn = policy_groups(1) [OF pol]
  show ?case
  proof (cases "\<not> canRun (action_of b (po_Mrn policy)) \<or> \<not> anyFilterMatches b (po_ComputedFilters policy)")
    case True
    then have "addPolicy (Suc k) X (Some policy) b = Inr (False, b)" by (cases "canRun (action_of b (po_Mrn policy))") simp_all
    with 3(2,3) show ?thesis by simp
  next
    case False
    define b0 where "b0 = rb_addNode (PolicyNode policy
      (case map_get (rb_policyScoringSystems (rb_addProps X (po_Props policy) b)) (po_Mrn policy) of
         None \<Rightarrow> SCORING_UNSPECIFIED | Some s \<Rightarrow> s)
      (rb_bundleMrn (rb_addProps X (po_Props policy) b) = po_Mrn policy)) (rb_addProps X (po_Props policy) b)"
    define gs where "gs = filter (isPolicyGroupMatching b0) (po_Groups policy)"
    let ?step = "\<lambda>b g. go_bind (go_fold (\<lambda>b pRef.
                 go_bind (addPolicy k X (policy_at b (pf_Mrn pRef)) b) (\<lambda>(added, b).
                   if added then Inr (rb_addEdge (pf_Mrn pRef) (po_Mrn policy) (policy_edge_impact b (pf_Mrn pRef)) b)
                   else Inr b)) b (pg_Policies g)) (\<lambda>b.
             go_bind (go_fold (add_check k X (po_Mrn policy) (pg_Type g)) b (pg_Checks g)) (\<lambda>b.
             go_fold (add_data_query k X (po_Mrn policy) (pg_Type g)) b (pg_Queries g)))"
    have i0: "I b0" unfolding b0_def using 3(3) mrn by (simp add: keeps)
    have "addPolicy (Suc k) X (Some policy) b = go_bind (go_fold ?step b0 gs) (\<lambda>b.
        let (b, foundRisk) = foldl (add_policy_risk X (po_Mrn policy)) (b, False) (po_RiskFactors policy)
        in Inr (gs \<noteq> [] \<or> foundRisk, b))"
      using False by (simp only: addPolicy.simps Let_def gs_def b0_def de_Morgan_disj not_not if_False not_True_eq_False)
    from trans [OF this [symmetric] 3(2)] obtain b1 where b1: "go_fold ?step b0 gs = Inr b1"
      and b': "b' = fst (foldl (add_policy_risk X (po_Mrn policy)) (b1, False) (po_RiskFactors policy))"
      unfolding go_bind_Inr_iff Let_def case_prod_beta by auto
    have ih: "I t'" if "addPolicy k X (policy_at t (pf_Mrn pRef)) t = Inr (r', t')" and "I t" for t t' r' and pRef :: PolicyRef
      using 3(1) [OF _ _ refl refl refl refl that] policy_at_bundle [OF that(2)] False
      by (cases "policy_at t (pf_Mrn pRef)") simp_all
    have i1: "I b1"
    proof (rule go_fold_keeps [where I = I, OF b1 i0])
      fix g :: PolicyGroup and s s' assume "?step s g = Inr s'" and s: "I s"
      then obtain s1 s2 where
        s1: "go_fold (\<lambda>b pRef.
                 go_bind (addPolicy k X (policy_at b (pf_Mrn pRef)) b) (\<lambda>(added, b).
                   if added then Inr (rb_addEdge (pf_Mrn pRef) (po_Mrn policy) (policy_edge_impact b (pf_Mrn pRef)) b)
                   else Inr b)) s (pg_Policies g) = Inr s1"
        and s2: "go_fold (add_check k X (po_Mrn policy) (pg_Type g)) s1 (pg_Checks g) = Inr s2"
        and s3: "go_fold (add_data_query k X (po_Mrn policy) (pg_Type g)) s2 (pg_Queries g) = Inr s'"
        by (auto simp: go_bind_Inr_iff)
      have "I s1"
      proof (rule go_fold_keeps [where I = I, OF s1 s])
        fix pRef :: PolicyRef and t t'
        assume "go_bind (addPolicy k X (policy_at t (pf_Mrn pRef)) t) (\<lambda>(added, b).
                   if added then Inr (rb_addEdge (pf_Mrn pRef) (po_Mrn policy) (policy_edge_impact b (pf_Mrn pRef)) b)
                   else Inr b) = Inr t'" and "I t"
        then show "I t'" by (auto simp: go_bind_Inr_iff keeps_group mrn dest!: ih split: if_splits)
      qed
      then have "I s2" by (rule go_fold_keeps [where I = I, OF s2]) (rule add_check_keeps [OF _ _ mrn])
      then show "I s'" by (rule go_fold_keeps [where I = I, OF s3]) (rule add_data_query_keeps [OF _ _ mrn])
    qed
    show ?thesis unfolding b'
      by (rule foldl_inv [where I = "\<lambda>s. I (fst s)"]) (use i1 policy_groups(2) [OF pol] mrn in \<open>auto intro: add_policy_risk_keeps\<close>)
  qed
qed auto

lemma addControl_keeps:
  assumes "I b" and mrn: "cm_Mrn c \<in> group_mrns M"
  shows "I (snd (addControl c b))"
proof -
  have q: "I (fst (add_control_query (cm_Mrn c) f s x))" if "I (fst s)" for f s x
    using that mrn by (auto simp: add_control_query_def keeps_group split: prod.splits option.splits rpBuilderNode.splits)
  have p: "I (fst (add_control_policy (cm_Mrn c) s x))" if "I (fst s)" for s x
    using that mrn by (auto simp: add_control_policy_def keeps_group split: prod.splits)
  have i1: "I (fst (foldl (add_control_query (cm_Mrn c) actionToImpact) (b, False) (cm_Checks c)))" (is "I (fst ?s1)")
    by (rule foldl_inv [where I = "\<lambda>s. I (fst s)"]) (simp_all add: assms q)
  have i2: "I (fst (foldl (add_control_query (cm_Mrn c) (\<lambda>b q. Some ignoredImpact)) ?s1 (cm_Queries c)))" (is "I (fst ?s2)")
    by (rule foldl_inv [where I = "\<lambda>s. I (fst s)"]) (simp_all add: i1 q)
  have i3: "I (fst (foldl (add_control_policy (cm_Mrn c)) ?s2 (cm_Policies c)))" (is "I (fst ?s3)")
    by (rule foldl_inv [where I = "\<lambda>s. I (fst s)"]) (simp_all add: i2 p)
  have "I (fst (foldl (\<lambda>(b, hasChild) x. (rb_addEdge x (cm_Mrn c) (actionToImpact b x) b, True)) ?s3 (cm_Controls c)))"
    by (rule foldl_inv [where I = "\<lambda>s. I (fst s)"]) (auto simp: i3 mrn keeps_group split: prod.splits)
  then show ?thesis using assms by (auto simp: addControl_def Let_def keeps_node split: prod.splits)
qed

lemma addFramework_keeps: "addFramework k f b = Inr (r, b') \<Longrightarrow> I b \<Longrightarrow> f \<in> snd ` set (bm_Frameworks M) \<Longrightarrow> I b'"
proof (induction k f b arbitrary: r b' rule: addFramework.induct)
  case (2 k fw b)
  show ?case
  proof (cases "canRun (action_of b (fw_Mrn fw))")
    case False
    with 2(2,3) show ?thesis by auto
  next
    case True
    define new where "new \<longleftrightarrow> \<not> has_key (rb_nodes b) (fw_Mrn fw)"
    define impact where "impact = (if new then None else Some ignoredImpact)"
    define b0 where "b0 = (if new then rb_addNode (FrameworkNode (fw_Mrn fw)) b else b)"
    let ?maps = "\<lambda>b. go_fold (\<lambda>b fmap. go_fold (add_framework_control (fm_FrameworkOwner fmap)) b (fm_Controls fmap)) b (fw_FrameworkMaps fw)"
    let ?deps = "\<lambda>b. go_fold (\<lambda>b dep. case map_get (bm_Frameworks (rb_bundleMap b)) dep of
                 None \<Rightarrow> Inr b
               | Some f \<Rightarrow> go_bind (addFramework k f b) (\<lambda>(added, b).
                   if added then Inr (rb_addEdge dep (fw_Mrn fw) impact b) else Inr b)) b (fw_Dependencies fw)"
    have "addFramework (Suc k) fw b = go_bind (?maps b0) (\<lambda>b. go_bind (?deps b) (\<lambda>b. Inr (True, b)))"
      using True by (simp only: addFramework.simps Let_def new_def impact_def b0_def not_True_eq_False if_False)
    from trans [OF this [symmetric] 2(2)] obtain b1 where b1: "?maps b0 = Inr b1" and b': "?deps b1 = Inr b'"
      by (auto simp: go_bind_Inr_iff)
    have "I b0" using 2(3) framework_groups(1) [OF 2(4)] by (simp add: b0_def keeps)
    then have "I b1"
    proof (rule go_fold_keeps [where I = I, OF b1])
      fix fm s s' assume fm: "fm \<in> set (fw_FrameworkMaps fw)" and f: "go_fold (add_framework_control (fm_FrameworkOwner fm)) s (fm_Controls fm) = Inr s'" and "I s"
      then show "I s'"
      proof (rule_tac go_fold_keeps [where I = I, OF f])
        fix c s s' assume c: "c \<in> set (fm_Controls fm)" and "add_framework_control (fm_FrameworkOwner fm) s c = Inr s'" and "I s"
        with addControl_keeps [OF \<open>I s\<close> framework_groups(2) [OF 2(4) fm c]] framework_groups(3) [OF 2(4) fm] show "I s'"
          by (cases "fm_FrameworkOwner fm")
            (auto simp: add_framework_control_def go_bind_Inr_iff keeps_group split: prod.splits bool.splits)
      qed
    qed
    then show ?thesis
    proof (rule go_fold_keeps [where I = I, OF b'])
      fix dep s s'
      assume d: "(case map_get (bm_Frameworks (rb_bundleMap s)) dep of
                 None \<Rightarrow> Inr s
               | Some f \<Rightarrow> go_bind (addFramework k f s) (\<lambda>(added, b).
                   if added then Inr (rb_addEdge dep (fw_Mrn fw) impact b) else Inr b)) = Inr s'" and s: "I s"
      show "I s'"
      proof (cases "map_get (bm_Frameworks (rb_bundleMap s)) dep")
        case (Some f)
        with d have "go_bind (addFramework k f s) (\<lambda>(added, b). if added then Inr (rb_addEdge dep (fw_Mrn fw) impact b) else Inr b) = Inr s'"
          by simp
        then obtain r1 s1 where f: "addFramework k f s = Inr (r1, s1)"
          and s': "(if r1 then Inr (rb_addEdge dep (fw_Mrn fw) impact s1) else Inr s1) = (Inr s' :: _ go)"
          unfolding go_bind_Inr_iff by auto
        have "f \<in> snd ` set (bm_Frameworks M)" using Some keeps_bundle [OF s] by (auto dest!: map_of_SomeD intro: rev_image_eqI)
        then have "I s1" by (rule_tac 2(1)) (rule refl f s Some | assumption | simp add: True)+
        then show ?thesis using s' framework_groups(1) [OF 2(4)] by (auto simp: keeps_group split: if_splits)
      qed (use d s in simp)
    qed
  qed
qed auto

end

subsection \<open>What gathering the overrides keeps\<close>

text \<open>Gathering changes the overrides and the store of impacts and nothing else.\<close>

locale gather_steps =
  fixes I :: "resolvedPolicyBuilder \<Rightarrow> bool"
  assumes keeps_actions: "I b \<Longrightarrow> I (b\<lparr>rb_actionOverrides := a\<rparr>)"
    and keeps_impacts: "I b \<Longrightarrow> I (b\<lparr>rb_impactOverrides := i\<rparr>)"
    and keeps_store: "I b \<Longrightarrow> I (b\<lparr>rb_impacts := h\<rparr>)"
    and keeps_systems: "I b \<Longrightarrow> I (b\<lparr>rb_policyScoringSystems := s\<rparr>)"
    and keeps_magnitudes: "I b \<Longrightarrow> I (b\<lparr>rb_riskMagnitudes := m\<rparr>)"
begin

lemmas gather_keeps = keeps_actions keeps_impacts keeps_store keeps_systems keeps_magnitudes

lemma put_action_keeps: "I b \<Longrightarrow> I (put_action mrn a b)"
  by (simp add: put_action_def gather_keeps)

lemma put_impact_keeps: "I b \<Longrightarrow> I (put_impact mrn r b)"
  by (simp add: put_impact_def gather_keeps split: option.splits)

lemma ignore_impact_keeps: "I b \<Longrightarrow> I (snd (ignore_impact r b))"
  by (auto simp: ignore_impact_def gather_keeps split: option.splits)

lemma gather_check_keeps: "gather_check t b c = Inr b' \<Longrightarrow> I b \<Longrightarrow> I b'"
  by (auto simp: gather_check_def go_bind_Inr_iff Let_def map_prod_def
      intro!: put_impact_keeps put_action_keeps split: if_splits prod.splits)
    (metis ignore_impact_keeps put_action_keeps snd_conv)+

lemma gather_query_keeps: "I b \<Longrightarrow> I (gather_query t b q)"
  by (simp add: gather_query_def put_action_keeps)

lemma gather_ref_keeps: "gather_ref t p pRef b = Inr b' \<Longrightarrow> I b \<Longrightarrow> I b'"
  by (auto simp: gather_ref_def Let_def go_bind_Inr_iff intro!: keeps_systems put_impact_keeps put_action_keeps split: if_splits)

lemma gather_risk_keeps: "I b \<Longrightarrow> I (gather_risk b r)"
  by (simp add: gather_risk_def Let_def put_action_keeps gather_keeps split: option.splits)

lemma gatherPolicy_keeps: "gatherGlobalInfoFromPolicy k p b = Inr b' \<Longrightarrow> I b \<Longrightarrow> I b'"
proof (induction k p b arbitrary: b' rule: gatherGlobalInfoFromPolicy.induct)
  case (2 k p b)
  let ?step = "\<lambda>b g. if \<not> isPolicyGroupMatching b g then Inr b else
         go_bind (go_fold (\<lambda>b pRef. let p = policy_at b (pf_Mrn pRef) in
             go_bind (gatherGlobalInfoFromPolicy k p b) (gather_ref (pg_Type g) p pRef)) b (pg_Policies g)) (\<lambda>b.
         go_bind (go_fold (gather_check (pg_Type g)) b (pg_Checks g)) (\<lambda>b.
         Inr (foldl (gather_query (pg_Type g)) b (pg_Queries g))))"
  from 2(2) obtain pol b1 where pol: "p = Some pol" and b1: "go_fold ?step b (po_Groups pol) = Inr b1"
    and b': "b' = foldl gather_risk b1 (po_RiskFactors pol)" by (cases p) (auto simp: go_bind_Inr_iff)
  have "I b1"
  proof (rule go_fold_keeps [where I = I, OF b1 2(3)])
    fix g :: PolicyGroup and s s' assume s: "?step s g = Inr s'" and i: "I s"
    show "I s'"
    proof (cases "isPolicyGroupMatching s g")
      case True
      with s obtain s1 s2 where
        s1: "go_fold (\<lambda>b pRef. let p = policy_at b (pf_Mrn pRef) in
             go_bind (gatherGlobalInfoFromPolicy k p b) (gather_ref (pg_Type g) p pRef)) s (pg_Policies g) = Inr s1"
        and s2: "go_fold (gather_check (pg_Type g)) s1 (pg_Checks g) = Inr s2"
        and s': "s' = foldl (gather_query (pg_Type g)) s2 (pg_Queries g)" by (auto simp: go_bind_Inr_iff)
      have "I s1"
      proof (rule go_fold_keeps [where I = I, OF s1 i])
        fix pRef :: PolicyRef and t t'
        assume t: "(let p = policy_at t (pf_Mrn pRef) in
             go_bind (gatherGlobalInfoFromPolicy k p t) (gather_ref (pg_Type g) p pRef)) = Inr t'" and it: "I t"
        then obtain u where u: "gatherGlobalInfoFromPolicy k (policy_at t (pf_Mrn pRef)) t = Inr u"
          and t': "gather_ref (pg_Type g) (policy_at t (pf_Mrn pRef)) pRef u = Inr t'" by (auto simp: Let_def go_bind_Inr_iff)
        have "\<not> \<not> isPolicyGroupMatching s g" using True by simp
        from 2(1) [OF this refl u it] have "I u" .
        with t' show "I t'" by (rule gather_ref_keeps)
      qed
      then have "I s2" by (rule go_fold_keeps [where I = I, OF s2]) (rule gather_check_keeps)
      then show ?thesis unfolding s' by (rule foldl_inv) (rule gather_query_keeps)
    qed (use s i in simp)
  qed
  then show ?case unfolding b' by (rule foldl_inv) (rule gather_risk_keeps)
qed simp

lemma gatherFramework_keeps: "gatherGlobalInfoFromFramework k f b = Inr b' \<Longrightarrow> I b \<Longrightarrow> I b'"
proof (induction k f b arbitrary: b' rule: gatherGlobalInfoFromFramework.induct)
  case (2 k f b)
  show ?case
  proof (cases f)
    case (Some fw)
    let ?step = "\<lambda>b dep. case map_get (bm_Frameworks (rb_bundleMap b)) dep of None \<Rightarrow> Inr b
              | Some f \<Rightarrow> gatherGlobalInfoFromFramework k (Some f) b"
    let ?groups = "\<lambda>b. foldl (\<lambda>b g. if \<not> isFrameworkGroupMatching b g then b
                else foldl (\<lambda>b c. put_action (ct_Mrn c) (normalizeAction (fg_Type g) (ct_Action c) None) b)
                       b (fg_Controls g)) b (fw_Groups fw)"
    from 2(2) Some obtain b1 where b1: "go_fold ?step b (fw_Dependencies fw) = Inr b1" and b': "b' = ?groups b1"
      by (auto simp: go_bind_Inr_iff)
    have "I b1"
    proof (rule go_fold_keeps [where I = I, OF b1 2(3)])
      fix dep s s' assume s: "?step s dep = Inr s'" and i: "I s"
      show "I s'"
      proof (cases "map_get (bm_Frameworks (rb_bundleMap s)) dep")
        case (Some fd)
        with s have "gatherGlobalInfoFromFramework k (Some fd) s = Inr s'" by simp
        from 2(1) [OF \<open>f = Some fw\<close> Some this i] show ?thesis .
      qed (use s i in simp)
    qed
    then show ?thesis unfolding b'
      by (rule foldl_inv) (auto intro!: foldl_inv [where I = I] put_action_keeps)
  qed (use 2 in simp)
qed simp

end

subsection \<open>The graph of a bundle\<close>

text \<open>
  Nodes are stored under their own id, the two directions of the edges describe the same relation, and no
  edge occurs twice.
\<close>

definition graph_ok :: "resolvedPolicyBuilder \<Rightarrow> bool" where
  "graph_ok b \<longleftrightarrow> map_ok (rb_nodes b) \<and> (\<forall>(k, n) \<in> set (rb_nodes b). getId n = k)
     \<and> map_ok (rb_reportsFromEdges b)
     \<and> (\<forall>x. distinct (edges_from b x)) \<and> (\<forall>y. distinct (map ei_edge (edges_to b y)))
     \<and> (\<forall>x y. y \<in> set (edges_from b x) \<longleftrightarrow> x \<in> ei_edge ` set (edges_to b y))"

lemma graph_ok_addEdge:
  assumes "graph_ok b"
  shows "graph_ok (rb_addEdge src tgt impact b)"
proof (cases "tgt \<in> set (edges_from b src)")
  case False
  let ?b = "rb_addEdge src tgt impact b"
  have f: "edges_from ?b x = (if x = src then edges_from b src @ [tgt] else edges_from b x)" for x
    using False by (simp add: rb_addEdge_def) (simp add: edges_from_def)
  have t: "edges_to ?b y = (if y = tgt then edges_to b tgt @ [\<lparr>ei_edge = src, ei_impact = impact\<rparr>] else edges_to b y)" for y
    using False by (simp add: rb_addEdge_def) (simp add: edges_to_def)
  have "src \<notin> ei_edge ` set (edges_to b tgt)" using False assms by (simp add: graph_ok_def)
  with assms False show ?thesis
    unfolding graph_ok_def f t by (auto simp: rb_addEdge_def)
qed (use assms in \<open>simp add: rb_addEdge_def\<close>)

lemma rb_bundleMap_simps [simp]:
  "rb_bundleMap (rb_addEdge src tgt impact b) = rb_bundleMap b" "rb_bundleMap (rb_addNode n b) = rb_bundleMap b"
  by (simp_all add: rb_addEdge_def rb_addNode_def)

lemma graph_ok_addNode: "graph_ok b \<Longrightarrow> graph_ok (rb_addNode n b)"
  by (auto simp: graph_ok_def rb_addNode_def edges_from_def edges_to_def dest!: set_map_put)

lemma graph_ok_cong: "rb_nodes b' = rb_nodes b \<Longrightarrow> rb_reportsToEdges b' = rb_reportsToEdges b
    \<Longrightarrow> rb_reportsFromEdges b' = rb_reportsFromEdges b \<Longrightarrow> graph_ok b \<Longrightarrow> graph_ok b'"
  by (simp add: graph_ok_def edges_from_def edges_to_def)

lemma graph_ok_addProps: "graph_ok b \<Longrightarrow> graph_ok (rb_addProps X ps b)"
  by (rule graph_ok_cong [of _ b]) (simp_all add: rb_addProps_def)

interpretation ok_graph: graph_steps "\<lambda>b. graph_ok b \<and> rb_bundleMap b = M" M for M
  by unfold_locales (auto intro: graph_ok_addEdge graph_ok_addNode graph_ok_addProps graph_ok_cong)

interpretation ok_gather: gather_steps "\<lambda>b. graph_ok b \<and> rb_bundleMap b = M" for M
  by unfold_locales (auto intro: graph_ok_cong)

interpretation config: graph_steps "same_config b" "rb_bundleMap b" for b
  by unfold_locales (auto simp: same_config_def rb_addEdge_def rb_addNode_def rb_addProps_def)

text \<open>What the whole construction keeps, from what the two passes keep.\<close>

lemma resolver_graph_keeps:
  assumes g: "resolver_graph k X mrn b = Inr b'" and i: "I b"
    and gi: "gather_steps I" and ti: "\<And>b t. I b \<Longrightarrow> J (b\<lparr>rb_queryTypes := t\<rparr>)" and gs: "graph_steps J (rb_bundleMap b)"
  shows "J b'"
proof -
  from g obtain b1 b2 types added b3 where
    b1: "gatherGlobalInfoFromPolicy k (policy_at b mrn) b = Inr b1"
    and b2: "gatherGlobalInfoFromFramework k (map_get (bm_Frameworks (rb_bundleMap b)) mrn) b1 = Inr b2"
    and b3: "addPolicy k X (policy_at b mrn) (b2\<lparr>rb_queryTypes := types\<rparr>) = Inr (added, b3)"
    and b': "(case map_get (bm_Frameworks (rb_bundleMap b)) mrn of None \<Rightarrow> Inr b3
        | Some f \<Rightarrow> go_bind (addFramework k f b3) (\<lambda>(added, b). Inr b)) = Inr b'"
    unfolding resolver_graph_def Let_def go_bind_Inr_iff by auto
  have "I b2" by (rule gather_steps.gatherFramework_keeps [OF gi b2 gather_steps.gatherPolicy_keeps [OF gi b1 i]])
  then have j2: "J (b2\<lparr>rb_queryTypes := types\<rparr>)" by (rule ti)
  have "set_option (policy_at b mrn) \<subseteq> bundle_policies (rb_bundleMap b)"
    by (auto simp: policy_at_def bundle_policies_def dest!: map_of_SomeD split: option.splits)
  with b3 j2 have b3: "J b3" by (rule graph_steps.addPolicy_keeps [OF gs])
  show ?thesis
  proof (cases "map_get (bm_Frameworks (rb_bundleMap b)) mrn")
    case (Some f)
    with b' obtain r where "addFramework k f b3 = Inr (r, b')" by (auto simp: go_bind_Inr_iff)
    moreover have "f \<in> snd ` set (bm_Frameworks (rb_bundleMap b))" using Some by (auto dest!: map_of_SomeD intro: rev_image_eqI)
    ultimately show ?thesis using b3 by (blast intro: graph_steps.addFramework_keeps [OF gs])
  qed (use b' b3 in simp)
qed

lemma resolver_graph_ok:
  assumes "resolver_graph k X mrn b = Inr b'" and "graph_ok b"
  shows "graph_ok b'"
proof -
  have "graph_ok b' \<and> rb_bundleMap b' = rb_bundleMap b"
    by (rule resolver_graph_keeps [OF assms(1), where I = "\<lambda>x. graph_ok x \<and> rb_bundleMap x = rb_bundleMap b"
        and J = "\<lambda>x. graph_ok x \<and> rb_bundleMap x = rb_bundleMap b"])
      (use assms(2) in \<open>auto intro: graph_ok_cong ok_graph.graph_steps_axioms ok_gather.gather_steps_axioms\<close>)
  then show ?thesis ..
qed

lemma graph_ok_initial: "graph_ok (initial_builder mrn bm props impacts filters now dq)"
  by (simp add: graph_ok_def initial_builder_def edges_from_def edges_to_def)

end
