(* ===== verification/Resolver_Jobs.thy ===== *)
theory Resolver_Jobs
  imports Resolver_Walk Resolver_Steps
begin

text \<open>
  The reporting jobs of a resolved policy: what the nodes add (\<open>fresh_jobs\<close>) and what connecting them along the edges
  makes of them (\<open>linked\<close>).
\<close>

subsection \<open>The reporting jobs that the nodes add\<close>

text \<open>
  Before they are connected: every job is stored under its uuid, belongs to a built node, and no two jobs
  belong to the same node.
\<close>

definition fresh_jobs :: "string set \<Rightarrow> (string, ReportingJob) gomap \<Rightarrow> bool" where
  "fresh_jobs ids js \<longleftrightarrow> map_ok js \<and> distinct (map (\<lambda>(u, j). pj_QrId j) js)
     \<and> (\<forall>(u, j) \<in> set js. pj_Uuid j = u \<and> pj_QrId j \<in> ids \<and> pj_Notify j = [] \<and> pj_ChildJobs j = [])"

lemma map_put_map:
  assumes "map_ok m" and "map_get m k = Some v" and "f v' = f v"
  shows "map (\<lambda>(k, v). f v) (map_put k v' m) = map (\<lambda>(k, v). f v) m"
  using assms by (induction m) (auto simp: map_ok_def split: if_splits)

lemma fresh_jobs_on_job:
  assumes "fresh_jobs ids js"
    and f: "\<And>j. pj_Uuid (f j) = pj_Uuid j" "\<And>j. pj_QrId (f j) = pj_QrId j"
      "\<And>j. pj_Notify (f j) = pj_Notify j" "\<And>j. pj_ChildJobs (f j) = pj_ChildJobs j"
  shows "fresh_jobs ids (on_job u f js)"
proof (cases "map_get js u")
  case (Some j)
  from assms(1) have ok: "map_ok js" by (simp add: fresh_jobs_def)
  have "(u, j) \<in> set js" using Some ok by (simp add: map_get_Some_iff)
  with assms map_put_map [OF ok Some, of pj_QrId "f j"] show ?thesis
    by (auto simp: fresh_jobs_def on_job_def Some f dest!: set_map_put)
qed (use assms in \<open>simp add: on_job_def\<close>)

lemma fresh_jobs_add:
  assumes "fresh_jobs ids js" and "q \<notin> ids"
  shows "fresh_jobs (insert q ids) (if has_key js u then js else map_put u (new_job q u t ms) js)"
proof -
  have "q \<notin> (\<lambda>(u, j). pj_QrId j) ` set js" using assms by (auto simp: fresh_jobs_def)
  with assms show ?thesis by (auto simp: fresh_jobs_def map_put_new new_job_def map_ok_def case_prod_beta)
qed

lemma rp_jobs_simps [simp]:
  "rp_jobs (on_collector f rp) = cj_ReportingJobs (f (rpo_CollectorJob rp))"
  "rp_jobs (on_jobs g rp) = g (rp_jobs rp)"
  "rp_jobs (put_query c eq rp) = rp_jobs rp"
  "rp_jobs (rp\<lparr>rpo_CollectorJob := cj\<rparr>) = cj_ReportingJobs cj"
  "rp_jobs (rp\<lparr>rpo_ReportingJobUuid := u\<rparr>) = rp_jobs rp"
  by (simp_all add: rp_jobs_def on_collector_def on_jobs_def put_query_def)

lemma fresh_jobs_report:
  "fresh_jobs ids (rp_jobs rp) \<Longrightarrow> q \<notin> ids \<Longrightarrow> fresh_jobs (insert q ids) (rp_jobs (rp_addReportingJob q m u t a rp))"
  unfolding rp_addReportingJob_def rp_jobs_simps by (rule fresh_jobs_add)

lemma mquery2executionQuery_jobs:
  "mquery2executionQuery X q props checksums cj = Inr (eq, c, cj') \<Longrightarrow> cj_ReportingJobs cj' = cj_ReportingJobs cj"
  by (auto simp: mquery2executionQuery_def Let_def split: sum.splits)

lemma compileProps_jobs:
  "compileProps X d mrns s = Inr s' \<Longrightarrow> rp_jobs (snd (snd s')) = rp_jobs (snd (snd s))"
proof (induction X d mrns s rule: compileProps.induct)
  case (2 X d mrn mrns propTypes propToChecksums rp)
  from 2(2) obtain pr name where g: "PropsCache_Get X (bd_propsCache d) mrn = Some (pr, name)" "name \<noteq> []" "pp_CodeId pr \<noteq> []"
    by (auto split: option.splits if_splits)
  with 2(2) obtain eq dc cj where m: "mquery2executionQuery X (Property_like X pr) [] [] (rpo_CollectorJob rp) = Inr (eq, dc, cj)"
    and dc: "dc \<noteq> []" by (auto split: sum.splits if_splits)
  from 2(1) [OF g(1) refl g(2,3) m refl refl dc] 2(2) g m dc mquery2executionQuery_jobs [OF m]
  show ?case by (simp add: rp_jobs_def put_query_def)
qed auto

lemma connectDatapoints_fresh:
  "connectDatapointsToReportingJob dps u cj = Inr cj' \<Longrightarrow> fresh_jobs ids (cj_ReportingJobs cj)
    \<Longrightarrow> fresh_jobs ids (cj_ReportingJobs cj')"
proof (induction dps u cj rule: connectDatapointsToReportingJob.induct)
  case (2 dp dps uuid cj)
  have "fresh_jobs ids (on_job uuid (\<lambda>j. j\<lparr>pj_Datapoints := map_put dp True (pj_Datapoints j)\<rparr>) (cj_ReportingJobs cj))"
    by (rule fresh_jobs_on_job [OF 2(3)]) simp_all
  with 2(1,2) show ?case by (auto split: option.splits)
qed simp

lemma node_build_fresh:
  assumes "node_build X d n rp = Inr rp'" and "fresh_jobs ids (rp_jobs rp)" and "getId n \<notin> ids"
  shows "fresh_jobs (insert (getId n) ids) (rp_jobs rp')"
proof (cases n)
  case (PolicyNode p s r)
  with assms show ?thesis
    by (auto simp: build_policy_def Let_def intro!: fresh_jobs_report fresh_jobs_on_job split: if_splits)
next
  case (ExecQueryNode q)
  with assms(1) have e: "build_exec X d q rp = Inr rp'" by simp
  from e obtain pt pc rp1 where cp: "compileProps X d (map (\<lambda>r. pp_Mrn (prop_at (bd_propsCache d) r)) (mq_Props q)) ([], [], rp) = Inr (pt, pc, rp1)"
    unfolding build_exec_def by (auto split: sum.splits)
  from e cp obtain eq dc cj where mq: "mquery2executionQuery X (Mquery_like X q) pt pc (rpo_CollectorJob rp1) = Inr (eq, dc, cj)"
    unfolding build_exec_def by (auto split: sum.splits)
  let ?u = "relativeChecksum X (bd_baseChecksum d) (mq_CodeId q)"
  let ?rp = "rp_addReportingJob (mq_CodeId q) False ?u RJ_EXECUTION_QUERY False (put_query (mq_CodeId q) eq (rp1\<lparr>rpo_CollectorJob := cj\<rparr>))"
  from e cp mq obtain cj' where c: "connectDatapointsToReportingJob (xq_Datapoints eq) ?u (rpo_CollectorJob ?rp) = Inr cj'"
    and rp': "rp' = ?rp\<lparr>rpo_CollectorJob := cj'\<rparr>"
    unfolding build_exec_def by (auto simp: Let_def)
  have "cj_ReportingJobs cj = rp_jobs rp"
    using mquery2executionQuery_jobs [OF mq] compileProps_jobs [OF cp] by (simp add: rp_jobs_def)
  then have "fresh_jobs (insert (mq_CodeId q) ids) (rp_jobs ?rp)"
    using assms(2,3) ExecQueryNode by (intro fresh_jobs_report) simp_all
  then have "fresh_jobs (insert (mq_CodeId q) ids) (cj_ReportingJobs cj')"
    using connectDatapoints_fresh [OF c] by (simp add: rp_jobs_def)
  then show ?thesis by (simp add: rp' ExecQueryNode)
next
  case (GenericQueryNode mrn t c)
  with assms show ?thesis
    by (auto simp: build_generic_def Let_def fresh_jobs_report simp flip: rp_jobs_def split: if_splits)
next
  case (FrameworkNode mrn)
  with assms show ?thesis by (auto intro!: fresh_jobs_report)
next
  case (ControlNode mrn)
  with assms show ?thesis by (auto intro!: fresh_jobs_report)
next
  case (RiskFactorNode r m cs)
  have keep: "rp_jobs (foldl (\<lambda>rp c. on_collector (\<lambda>cj. cj\<lparr>cj_RiskMrns := g c cj\<rparr>) rp) rp0 xs) = rp_jobs rp0" for rp0 xs g
    by (induction xs arbitrary: rp0) (simp_all add: rp_jobs_def on_collector_def)
  have "fresh_jobs (insert (rf_Mrn r) ids) (rp_jobs (rp_addReportingJob (rf_Mrn r) True u RJ_RISK_FACTOR True (on_collector (\<lambda>cj. cj\<lparr>cj_RiskFactors := h cj\<rparr>) rp)))" for u h
    using assms(2,3) RiskFactorNode by (intro fresh_jobs_report) (simp_all flip: rp_jobs_def)
  with assms(1) RiskFactorNode show ?thesis by (auto simp: build_risk_def Let_def keep)
qed

lemma build_list_fresh:
  assumes "build_list (node_build X d) ns rp = Inr rp'" and "fresh_jobs ids (rp_jobs rp)"
    and "distinct (map getId ns)" and "getId ` set ns \<inter> ids = {}"
  shows "fresh_jobs (getId ` set ns \<union> ids) (rp_jobs rp')"
  using assms
proof (induction ns arbitrary: rp ids)
  case (Cons n ns)
  from Cons.prems(1) obtain rp1 where rp1: "node_build X d n rp = Inr rp1" "build_list (node_build X d) ns rp1 = Inr rp'"
    by (auto split: sum.splits)
  have "fresh_jobs (insert (getId n) ids) (rp_jobs rp1)"
    by (rule node_build_fresh [OF rp1(1) Cons.prems(2)]) (use Cons.prems(4) in auto)
  from Cons.IH [OF rp1(2) this] Cons.prems(3,4) show ?case by (auto simp: Un_ac image_iff)
qed auto

lemma fresh_jobs_mono: "fresh_jobs A js \<Longrightarrow> A \<subseteq> B \<Longrightarrow> fresh_jobs B js"
  unfolding fresh_jobs_def by fast

subsection \<open>The walk of a graph\<close>

definition node_ids :: "(string \<times> rpBuilderNode) list \<Rightarrow> string set" where
  "node_ids ns = fst ` set ns"

lemma build_walk_fresh:
  assumes ok: "graph_ok b" and roots: "set roots \<subseteq> set (rb_nodes b)"
    and w: "build_walk k X d b roots rp = Inr (Inr (V, rp'))" and rp: "rp_jobs rp = []"
  shows "distinct V" and "set V = {x. reachable (map_get (rb_nodes b)) (edges_from b) (node_ids roots) x}"
    and "build_list (node_build X d) (map (the \<circ> map_get (rb_nodes b)) (rev V)) rp = Inr rp'"
    and "fresh_jobs (set V) (rp_jobs rp')"
proof -
  have nok: "map_ok (rb_nodes b)" and ids: "\<forall>(k, n) \<in> set (rb_nodes b). getId n = k" using ok by (simp_all add: graph_ok_def)
  have r: "\<forall>n \<in> set roots. map_get (rb_nodes b) (fst n) = Some (snd n)"
    using roots nok by (auto simp: map_get_Some_iff)
  note all = walk_roots_reachable [OF w [unfolded build_walk_def] r]
  show d: "distinct V" and v: "set V = {x. reachable (map_get (rb_nodes b)) (edges_from b) (node_ids roots) x}"
    and bl: "build_list (node_build X d) (map (the \<circ> map_get (rb_nodes b)) (rev V)) rp = Inr rp'"
    using all by (simp_all add: node_ids_def)
  have there: "map_get (rb_nodes b) x \<noteq> None" if "x \<in> set V" for x
  proof -
    from that v have "reachable (map_get (rb_nodes b)) (edges_from b) (node_ids roots) x" by simp
    then show ?thesis using r by (cases rule: reachable.cases) (auto simp: node_ids_def)
  qed
  have gid: "getId (the (map_get (rb_nodes b) x)) = x" if "x \<in> set V" for x
  proof -
    from there [OF that] obtain n where n: "map_get (rb_nodes b) x = Some n" by blast
    then have "(x, n) \<in> set (rb_nodes b)" using nok by (simp add: map_get_Some_iff)
    with ids n show ?thesis by fastforce
  qed
  have m: "map getId (map (the \<circ> map_get (rb_nodes b)) (rev V)) = rev V" unfolding map_map by (rule map_idI) (simp add: gid)
  have "fresh_jobs (getId ` set (map (the \<circ> map_get (rb_nodes b)) (rev V)) \<union> {}) (rp_jobs rp')"
    by (rule build_list_fresh [OF bl]) (simp_all only: m rp, simp_all add: fresh_jobs_def d)
  moreover have "getId ` set (map (the \<circ> map_get (rb_nodes b)) (rev V)) = set V"
    using m by (metis list.set_map set_rev)
  ultimately show "fresh_jobs (set V) (rp_jobs rp')" by simp
qed

lemma non_prunables_nodes: "set (non_prunables b) \<subseteq> set (rb_nodes b)"
  by (auto simp: non_prunables_def)

subsection \<open>Connecting the jobs\<close>

text \<open>After the edges \<open>P\<close> between jobs have been connected.\<close>

definition linked :: "(string \<times> string) list \<Rightarrow> (string, ReportingJob) gomap \<Rightarrow> bool" where
  "linked P js \<longleftrightarrow> map_ok js \<and> (\<forall>u j. map_get js u = Some j \<longrightarrow> pj_Uuid j = u
     \<and> pj_Notify j = map snd (filter (\<lambda>(c, p). c = u) P) \<and> fst ` set (pj_ChildJobs j) = {c. (c, u) \<in> set P})"

lemma linked_fresh: "fresh_jobs ids js \<Longrightarrow> linked [] js"
  by (auto simp: linked_def fresh_jobs_def dest!: map_of_SomeD)

lemma on_job_get: "map_get (on_job u f js) x = (if x = u then map_option f (map_get js u) else map_get js x)"
  by (simp add: on_job_def split: option.splits)

lemma on_job_keys [simp]: "map fst (on_job u f js) = map fst js"
  by (simp add: on_job_def keys_map_put split: option.splits)

lemma on_job_ok [simp]: "map_ok (on_job u f js) = map_ok js"
  by (simp add: map_ok_def)

lemma on_job_has_key [simp]: "has_key (on_job u f js) x \<longleftrightarrow> has_key js x"
  by (metis on_job_keys list.set_map)

lemma linked_connect:
  assumes "linked P js"
  shows "linked (P @ [(c, p)]) (connectReportingJobNotifies c p i js)"
  unfolding linked_def
proof (intro conjI allI impI)
  let ?js = "connectReportingJobNotifies c p i js"
  show "map_ok ?js" using assms by (simp add: connectReportingJobNotifies_def linked_def)
  fix u j assume "map_get ?js u = Some j"
  then obtain j0 where j0: "map_get js u = Some j0" and j: "pj_Uuid j = pj_Uuid j0"
    "pj_Notify j = pj_Notify j0 @ (if u = c then [p] else [])"
    "fst ` set (pj_ChildJobs j) = fst ` set (pj_ChildJobs j0) \<union> (if u = p then {c} else {})"
    by (auto simp: connectReportingJobNotifies_def on_job_get keys_put split: if_splits)
  from assms j0 have "pj_Uuid j0 = u" "pj_Notify j0 = map snd (filter (\<lambda>(c, p). c = u) P)"
    "fst ` set (pj_ChildJobs j0) = {c. (c, u) \<in> set P}" by (simp_all add: linked_def)
  with j show "pj_Uuid j = u" and "pj_Notify j = map snd (filter (\<lambda>(c, p). c = u) (P @ [(c, p)]))"
    and "fst ` set (pj_ChildJobs j) = {x. (x, u) \<in> set (P @ [(c, p)])}" by auto
qed

text \<open>The pairs of jobs the edges of the builder connect.\<close>

definition edge_pair :: "(string, string) gomap \<Rightarrow> string \<Rightarrow> edgeImpact \<Rightarrow> (string \<times> string) list" where
  "edge_pair byQrId q e = (case (map_get byQrId q, map_get byQrId (ei_edge e)) of
     (Some p, Some c) \<Rightarrow> [(c, p)] | _ \<Rightarrow> [])"

definition job_pairs :: "(string, string) gomap \<Rightarrow> (string, edgeImpact list) gomap \<Rightarrow> (string \<times> string) list" where
  "job_pairs byQrId edges = concat (map (\<lambda>(q, es). concat (map (edge_pair byQrId q) es)) edges)"

lemma linked_connect_edge: "linked P js \<Longrightarrow> linked (P @ edge_pair byQrId q e) (connect_edge byQrId q js e)"
  by (auto simp: connect_edge_def edge_pair_def linked_connect split: option.splits)

lemma linked_connect_jobs:
  assumes "linked P js"
  shows "linked (P @ job_pairs byQrId edges) (connect_jobs byQrId edges js)"
proof -
  have one: "linked (P @ concat (map (edge_pair byQrId q) es)) (foldl (connect_edge byQrId q) js es)" if "linked P js" for P js q es
    using that
  proof (induction es arbitrary: P js)
    case (Cons e es)
    from Cons.IH [OF linked_connect_edge [OF Cons.prems]] show ?case by simp
  qed simp
  show ?thesis unfolding connect_jobs_def job_pairs_def using assms
  proof (induction edges arbitrary: P js)
    case (Cons x edges)
    obtain q es where x: "x = (q, es)" by fastforce
    from Cons.IH [OF one [OF Cons.prems]] show ?case by (simp add: x)
  qed simp
qed

lemma connect_jobs_keys [simp]: "map fst (connect_jobs byQrId edges js) = map fst js"
proof -
  have one: "map fst (foldl (connect_edge byQrId q) js es) = map fst js" for js q es
    by (induction es arbitrary: js) (simp_all add: connect_edge_def connectReportingJobNotifies_def split: option.splits)
  show ?thesis unfolding connect_jobs_def
    by (induction edges arbitrary: js) (simp_all add: one case_prod_beta)
qed

text \<open>Looking up the jobs by the node they belong to never finds two.\<close>

lemma jobs_by_qrid_total:
  assumes "distinct (map (\<lambda>(u, j). pj_QrId j) js)" and "\<forall>(u, j) \<in> set js. \<not> has_key m (pj_QrId j)"
  shows "\<exists>m'. jobs_by_qrid js m = Inr m' \<and>
    (\<forall>q. map_get m' q = (case map_get (map (\<lambda>(u, j). (pj_QrId j, u)) js) q of None \<Rightarrow> map_get m q | Some u \<Rightarrow> Some u))"
  using assms
proof (induction js arbitrary: m)
  case (Cons x js)
  obtain u j where x: "x = (u, j)" by fastforce
  have "pj_QrId j' \<noteq> pj_QrId j" "\<not> has_key m (pj_QrId j')" if "(u', j') \<in> set js" for u' j'
    using Cons.prems that by (auto simp: x rev_image_eqI)
  then have "\<not> has_key (map_put (pj_QrId j) u m) (pj_QrId j')" if "(u', j') \<in> set js" for u' j'
    using that by simp
  then have "\<forall>(u', j') \<in> set js. \<not> has_key (map_put (pj_QrId j) u m) (pj_QrId j')" by blast
  moreover have "distinct (map (\<lambda>(u, j). pj_QrId j) js)" using Cons.prems by simp
  ultimately obtain m' where m': "jobs_by_qrid js (map_put (pj_QrId j) u m) = Inr m'"
    "\<forall>q. map_get m' q = (case map_get (map (\<lambda>(u, j). (pj_QrId j, u)) js) q of
       None \<Rightarrow> map_get (map_put (pj_QrId j) u m) q | Some u \<Rightarrow> Some u)" using Cons.IH by blast
  have "map_get (map (\<lambda>(u, j). (pj_QrId j, u)) js) (pj_QrId j) = None"
    using Cons.prems(1) by (auto simp: x map_of_eq_None_iff)
  with m' Cons.prems(2) show ?case by (auto simp: x split: option.splits)
qed simp

end
