(* ===== verification/Resolver_Results.thy ===== *)
theory Resolver_Results
  imports Resolver_Jobs
begin

text \<open>
  What a resolved policy promises to the executor: its reporting jobs carry the connections of the resolver's graph in
  both directions, and the results about the whole of \<open>buildResolvedPolicy\<close>.
\<close>

subsection \<open>Finishing a resolved policy\<close>

lemma add_risk_data_jobs [simp]: "rp_jobs (add_risk_data infos rp) = rp_jobs rp"
proof -
  have "rp_jobs (foldl (\<lambda>rp (riskMrn, refs).
     let info = risk_data_info (xj_Queries (rpo_ExecutionJob rp)) refs in
     if info = [] then rp
     else on_collector (\<lambda>cj. cj\<lparr>cj_RiskDataQueries := map_put riskMrn info (cj_RiskDataQueries cj)\<rparr>) rp) rp0 xs) = rp_jobs rp0" for rp0 xs
    by (induction xs arbitrary: rp0) (auto simp: Let_def rp_jobs_def on_collector_def)
  then show ?thesis by (simp add: add_risk_data_def)
qed

lemma rp_jobs_refreshChecksums [simp]: "rp_jobs (refreshChecksums X rp) = rp_jobs rp"
  by (simp add: rp_jobs_def refreshChecksums_def)

lemma RefreshChecksum_fields [simp]:
  "pj_Uuid (RefreshChecksum X j) = pj_Uuid j" "pj_Notify (RefreshChecksum X j) = pj_Notify j"
  "pj_ChildJobs (RefreshChecksum X j) = pj_ChildJobs j" "pj_QrId (RefreshChecksum X j) = pj_QrId j"
  "pj_Datapoints (RefreshChecksum X j) = pj_Datapoints j" "pj_Type (RefreshChecksum X j) = pj_Type j"
  by (simp_all add: RefreshChecksum_def Let_def)

lemma linkedD:
  assumes "linked P js" and "map_get js u = Some j"
  shows "pj_Uuid j = u" and "pj_Notify j = map snd (filter (\<lambda>(c, p). c = u) P)" and "has_key (pj_ChildJobs j) c \<longleftrightarrow> (c, u) \<in> set P"
  using assms by (auto simp: linked_def)

lemma linkedI:
  assumes "map_ok js" and "\<And>u j. map_get js u = Some j \<Longrightarrow> pj_Uuid j = u \<and> pj_Notify j = map snd (filter (\<lambda>(c, p). c = u) P)
    \<and> fst ` set (pj_ChildJobs j) = {c. (c, u) \<in> set P}"
  shows "linked P js"
  using assms by (simp add: linked_def)

lemma linked_map:
  assumes l: "linked P js" and f: "\<And>j. pj_Uuid (f j) = pj_Uuid j" "\<And>j. pj_Notify (f j) = pj_Notify j"
    "\<And>j. pj_ChildJobs (f j) = pj_ChildJobs j"
  shows "linked P (map (\<lambda>(u, j). (u, f j)) js)"
proof (rule linkedI)
  fix u j assume "map_get (map (\<lambda>(u, j). (u, f j)) js) u = Some j"
  then obtain j0 where j0: "map_get js u = Some j0" "j = f j0" by (auto simp: map_of_map_val)
  then show "pj_Uuid j = u \<and> pj_Notify j = map snd (filter (\<lambda>(c, p). c = u) P)
    \<and> fst ` set (pj_ChildJobs j) = {c. (c, u) \<in> set P}" using l by (simp add: f linked_def)
qed (use l in \<open>simp add: linked_def\<close>)

lemma linked_on_job:
  assumes l: "linked P js" and f: "\<And>j. pj_Uuid (f j) = pj_Uuid j" "\<And>j. pj_Notify (f j) = pj_Notify j"
    "\<And>j. pj_ChildJobs (f j) = pj_ChildJobs j"
  shows "linked P (on_job u f js)"
proof (rule linkedI)
  fix v j assume "map_get (on_job u f js) v = Some j"
  then obtain j0 where j0: "map_get js v = Some j0" "j = j0 \<or> j = f j0" by (auto simp: on_job_get split: if_splits)
  with l have "pj_Uuid j0 = v" "pj_Notify j0 = map snd (filter (\<lambda>(c, p). c = v) P)"
    "fst ` set (pj_ChildJobs j0) = {c. (c, v) \<in> set P}" by (simp_all add: linked_def)
  with j0(2) show "pj_Uuid j = v \<and> pj_Notify j = map snd (filter (\<lambda>(c, p). c = v) P)
    \<and> fst ` set (pj_ChildJobs j) = {c. (c, v) \<in> set P}" by (elim disjE) (simp_all add: f)
qed (use l in \<open>simp add: linked_def\<close>)

definition jobs_of_nodes :: "(string, ReportingJob) gomap \<Rightarrow> (string, string) gomap" where
  "jobs_of_nodes js = map (\<lambda>(u, j). (pj_QrId j, u)) js"

lemma finish_policy_jobs:
  assumes f: "finish_policy X mrn b rp = Inr rp'" and js: "fresh_jobs ids (rp_jobs rp)"
  shows "\<exists>byQrId. (\<forall>q. map_get byQrId q = map_get (jobs_of_nodes (rp_jobs rp)) q)
    \<and> linked (job_pairs byQrId (rb_reportsFromEdges b)) (rp_jobs rp')
    \<and> map fst (rp_jobs rp') = map fst (rp_jobs rp) \<and> map_get byQrId mrn = Some (rpo_ReportingJobUuid rp')"
proof -
  have "distinct (map (\<lambda>(u, j). pj_QrId j) (rp_jobs rp))" using js by (simp add: fresh_jobs_def)
  from jobs_by_qrid_total [OF this, of "[]"]
  have *: "\<exists>m'. jobs_by_qrid (rp_jobs rp) [] = Inr m' \<and> (\<forall>q. map_get m' q =
    (case map_get (map (\<lambda>(u, j). (pj_QrId j, u)) (rp_jobs rp)) q of None \<Rightarrow> map_get [] q | Some u \<Rightarrow> Some u))" by simp
  obtain bq where bq: "jobs_by_qrid (rp_jobs rp) [] = Inr bq"
    and get: "\<forall>q. map_get bq q = map_get (jobs_of_nodes (rp_jobs rp)) q"
  proof -
    have c: "(case x of None \<Rightarrow> map_get [] q | Some u \<Rightarrow> Some u) = x" for x :: "string option" and q
      by (cases x) simp_all
    from that * show thesis unfolding c jobs_of_nodes_def by blast
  qed
  let ?js = "connect_jobs bq (rb_reportsFromEdges b) (rp_jobs rp)"
  from f bq obtain u where u: "map_get bq mrn = Some u"
    and rp': "rp' = on_jobs (map (\<lambda>(u, j). (u, RefreshChecksum X j))) (refreshChecksums X
       ((on_jobs (on_job u (\<lambda>j. j\<lparr>pj_QrId := ''root''\<rparr>)) (on_jobs (connect_jobs bq (rb_reportsFromEdges b))
          (add_risk_data (rb_riskDataQueryInfos b) rp)))\<lparr>rpo_ReportingJobUuid := u\<rparr>))"
    unfolding finish_policy_def Let_def by (auto split: option.splits)
  have jobs: "rp_jobs rp' = map (\<lambda>(u, j). (u, RefreshChecksum X j)) (on_job u (\<lambda>j. j\<lparr>pj_QrId := ''root''\<rparr>) ?js)"
    by (simp add: rp')
  have "linked ([] @ job_pairs bq (rb_reportsFromEdges b)) ?js" by (rule linked_connect_jobs [OF linked_fresh [OF js]])
  then have "linked (job_pairs bq (rb_reportsFromEdges b)) (rp_jobs rp')"
    unfolding jobs by (intro linked_map linked_on_job) simp_all
  moreover have "map fst (rp_jobs rp') = map fst (rp_jobs rp)" 
  proof -
    have "map fst (map (\<lambda>(u, j). (u, RefreshChecksum X j)) xs) = map fst xs" for xs :: "(string, ReportingJob) gomap" by (induction xs) auto
    then show ?thesis unfolding jobs by (simp only: on_job_keys connect_jobs_keys)
  qed
  moreover have "rpo_ReportingJobUuid rp' = u" by (simp add: rp' on_jobs_def on_collector_def refreshChecksums_def)
  ultimately show ?thesis using get u by blast
qed

text \<open>What a successful run of \<open>buildResolvedPolicy\<close> went through.\<close>

lemma buildResolvedPolicy_steps:
  assumes "buildResolvedPolicy k X mrn p props impacts filters now = Inr (Inr rp)"
  shows "\<exists>cb b d V rp0 fs es fsum. ex_Compile X disabledQuery_mql [] = Inr cb
    \<and> resolver_graph k X mrn (initial_builder mrn (ToMap props p) props impacts filters now (disabledQuery (cb_Id cb))) = Inr b
    \<and> build_walk k X d b (non_prunables b) (empty_policy fs es fsum) = Inr (Inr (V, rp0))
    \<and> finish_policy X mrn b rp0 = Inr rp \<and> bd_propsCache d = rb_propsCache b"
proof -
  from assms obtain cb where cb: "ex_Compile X disabledQuery_mql [] = Inr cb"
    by (auto simp: buildResolvedPolicy_def split: sum.splits)
  let ?b = "initial_builder mrn (ToMap props p) props impacts filters now (disabledQuery (cb_Id cb))"
  from assms cb obtain b where b: "resolver_graph k X mrn ?b = Inr b"
    by (auto simp: buildResolvedPolicy_def Let_def go_bind_Inr_iff)
  from assms cb b obtain fsum fs where fs: "ChecksumAssetFilters X filters = Inr (fsum, fs)"
    by (auto simp: buildResolvedPolicy_def Let_def split: sum.splits)
  let ?es = "BundleExecutionChecksum X (policy_at ?b mrn) (map_get (bm_Frameworks (rb_bundleMap ?b)) mrn)"
  let ?d = "\<lparr>bd_baseChecksum = checksumStrings X [?es, fsum, ''v2''], bd_propsCache = rb_propsCache b\<rparr>"
  have "go_bind (build_walk k X ?d b (non_prunables b) (empty_policy fs ?es fsum)) (\<lambda>r.
      case r of Inl e \<Rightarrow> Inr (Inl (ResolveError e)) | Inr (visited, rp) \<Rightarrow> Inr (finish_policy X mrn b rp)) = Inr (Inr rp)"
    using assms by (simp only: buildResolvedPolicy_def cb b fs Let_def sum.case go_bind_simps prod.case)
  then obtain r where r: "build_walk k X ?d b (non_prunables b) (empty_policy fs ?es fsum) = Inr r"
    and fin: "(case r of Inl e \<Rightarrow> Inr (Inl (ResolveError e)) | Inr (visited, rp) \<Rightarrow> Inr (finish_policy X mrn b rp)) = (Inr (Inr rp) :: _ go)"
    unfolding go_bind_Inr_iff by blast
  then obtain V rp0 where "r = Inr (V, rp0)" "finish_policy X mrn b rp0 = Inr rp" by (cases r) auto
  with r have "build_walk k X ?d b (non_prunables b) (empty_policy fs ?es fsum) = Inr (Inr (V, rp0))"
    and "finish_policy X mrn b rp0 = Inr rp" by simp_all
  with cb b show ?thesis by (metis rpBuilderData.select_convs(2))
qed

lemma rp_jobs_empty [simp]: "rp_jobs (empty_policy fs es fsum) = []"
  by (simp add: rp_jobs_def empty_policy_def)

lemma resolved_linked:
  assumes "buildResolvedPolicy k X mrn p props impacts filters now = Inr (Inr rp)"
  shows "\<exists>b V js byQrId. graph_ok b \<and> fresh_jobs (set V) js \<and> (\<forall>q. map_get byQrId q = map_get (jobs_of_nodes js) q)
    \<and> linked (job_pairs byQrId (rb_reportsFromEdges b)) (rp_jobs rp) \<and> map fst (rp_jobs rp) = map fst js"
proof -
  from buildResolvedPolicy_steps [OF assms] obtain cb :: compiled and b d V rp0 fs es fsum where
    b: "resolver_graph k X mrn (initial_builder mrn (ToMap props p) props impacts filters now (disabledQuery (cb_Id cb))) = Inr b"
    and w: "build_walk k X d b (non_prunables b) (empty_policy fs es fsum) = Inr (Inr (V, rp0))"
    and f: "finish_policy X mrn b rp0 = Inr rp" by blast
  have ok: "graph_ok b" by (rule resolver_graph_ok [OF b graph_ok_initial])
  note js = build_walk_fresh(4) [OF ok non_prunables_nodes w rp_jobs_empty]
  from finish_policy_jobs [OF f js] ok js show ?thesis by blast
qed

subsection \<open>No job is connected twice\<close>

lemma jobs_of_nodes_inj:
  assumes "fresh_jobs ids js" and "map_get (jobs_of_nodes js) q = Some u" and "map_get (jobs_of_nodes js) q' = Some u"
  shows "q = q'"
proof -
  from assms(2,3) have "(q, u) \<in> set (jobs_of_nodes js)" "(q', u) \<in> set (jobs_of_nodes js)" by (auto dest: map_of_SomeD)
  then obtain j j' where "(u, j) \<in> set js" "q = pj_QrId j" "(u, j') \<in> set js" "q' = pj_QrId j'"
    by (auto simp: jobs_of_nodes_def)
  moreover from assms(1) have "map_ok js" by (simp add: fresh_jobs_def)
  ultimately show ?thesis by (metis map_get_Some_iff option.inject)
qed

lemma distinct_concat_map:
  assumes "distinct xs" and "\<And>x. x \<in> set xs \<Longrightarrow> distinct (f x)"
    and "\<And>x y. x \<in> set xs \<Longrightarrow> y \<in> set xs \<Longrightarrow> x \<noteq> y \<Longrightarrow> set (f x) \<inter> set (f y) = {}"
  shows "distinct (concat (map f xs))"
  using assms by (induction xs) (simp_all, blast)

lemma job_pairs_distinct:
  assumes g: "graph_ok b" and js: "fresh_jobs ids js" and bq: "\<forall>q. map_get bq q = map_get (jobs_of_nodes js) q"
  shows "distinct (job_pairs bq (rb_reportsFromEdges b))"
proof -
  have inj: "q = q'" if "map_get bq q = Some u" "map_get bq q' = Some u" for q q' u
    using that jobs_of_nodes_inj [OF js] by (auto simp: bq)
  have one: "set (edge_pair bq q e) \<inter> set (edge_pair bq q' e') = {}" if "q \<noteq> q' \<or> ei_edge e \<noteq> ei_edge e'" for q q' and e e' :: edgeImpact
    using that by (auto simp: edge_pair_def split: option.splits) (metis inj)+
  have es: "distinct (map ei_edge es)" if "(q, es) \<in> set (rb_reportsFromEdges b)" for q es
  proof -
    from g that have "map_get (rb_reportsFromEdges b) q = Some es" by (simp add: graph_ok_def map_get_Some_iff)
    then have "edges_to b q = es" by (simp add: edges_to_def)
    with g show ?thesis by (auto simp: graph_ok_def)
  qed
  have mok: "map_ok (rb_reportsFromEdges b)" using g by (simp add: graph_ok_def)
  show ?thesis unfolding job_pairs_def
  proof (rule distinct_concat_map)
    show "distinct (rb_reportsFromEdges b)" using mok by (simp add: map_ok_def distinct_map)
  next
    fix x assume x: "x \<in> set (rb_reportsFromEdges b)"
    obtain q es where qe: "x = (q, es)" by fastforce
    have d: "distinct (map ei_edge es)" using es x qe by blast
    have "distinct (concat (map (edge_pair bq q) es))"
    proof (rule distinct_concat_map)
      show "distinct es" using d by (simp add: distinct_map)
      show "distinct (edge_pair bq q e)" for e by (simp add: edge_pair_def split: option.splits)
      show "set (edge_pair bq q e) \<inter> set (edge_pair bq q e') = {}" if "e \<in> set es" "e' \<in> set es" "e \<noteq> e'" for e e'
        using that d by (intro one) (auto simp: distinct_map inj_on_def)
    qed
    then show "distinct (case x of (q, es) \<Rightarrow> concat (map (edge_pair bq q) es))" by (simp add: qe)
  next
    fix x y assume xy: "x \<in> set (rb_reportsFromEdges b)" "y \<in> set (rb_reportsFromEdges b)" "x \<noteq> y"
    obtain q es q' es' where e: "x = (q, es)" "y = (q', es')" by fastforce
    have "q \<noteq> q'" using xy e mok by (metis map_get_Some_iff option.inject)
    with one show "set (case x of (q, es) \<Rightarrow> concat (map (edge_pair bq q) es))
      \<inter> set (case y of (q, es) \<Rightarrow> concat (map (edge_pair bq q) es)) = {}" by (fastforce simp: e)
  qed
qed

lemma linked_notify_distinct:
  assumes "linked P js" and "distinct P" and "map_get js u = Some j"
  shows "distinct (pj_Notify j)"
proof -
  have "pj_Notify j = map snd (filter (\<lambda>(c, p). c = u) P)" using assms by (simp add: linked_def)
  moreover have "inj_on snd (set (filter (\<lambda>(c, p). c = u) P))" by (auto simp: inj_on_def)
  ultimately show ?thesis using assms(2) by (simp add: distinct_map)
qed

lemma job_pairs_jobs:
  assumes "\<forall>q. map_get bq q = map_get (jobs_of_nodes js) q" and "(c, p) \<in> set (job_pairs bq edges)"
  shows "has_key js c" and "has_key js p"
proof -
  from assms(2) obtain q and e :: edgeImpact where "map_get bq q = Some p" "map_get bq (ei_edge e) = Some c"
    by (auto simp: job_pairs_def edge_pair_def split: option.splits)
  moreover have keys: "has_key js u" if "map_get (jobs_of_nodes js) q = Some u" for q u
    using map_of_SomeD [OF that] by (force simp: jobs_of_nodes_def)
  ultimately show "has_key js c" "has_key js p" using assms(1)
    by (metis keys)+
qed

lemma resolved_sync:
  assumes "buildResolvedPolicy k X mrn p props impacts filters now = Inr (Inr rp)"
  shows "map_ok (rp_jobs rp) \<and> (\<forall>u j. map_get (rp_jobs rp) u = Some j \<longrightarrow> pj_Uuid j = u \<and> distinct (pj_Notify j)
    \<and> (\<forall>v. v \<in> set (pj_Notify j) \<longleftrightarrow> (\<exists>parentJob. map_get (rp_jobs rp) v = Some parentJob \<and> has_key (pj_ChildJobs parentJob) u)))"
proof -
  from resolved_linked [OF assms] obtain b V js byQrId where g: "graph_ok b" and fr: "fresh_jobs (set V) js"
    and get: "\<forall>q. map_get byQrId q = map_get (jobs_of_nodes js) q"
    and l: "linked (job_pairs byQrId (rb_reportsFromEdges b)) (rp_jobs rp)"
    and keys: "map fst (rp_jobs rp) = map fst js" by blast
  let ?P = "job_pairs byQrId (rb_reportsFromEdges b)"
  have there: "\<exists>j. map_get (rp_jobs rp) v = Some j" if "(u, v) \<in> set ?P" for u v
    using job_pairs_jobs(2) [OF get that] keys by (metis list.set_map map_get_None_iff not_None_eq)
  have "v \<in> set (pj_Notify j) \<longleftrightarrow> (\<exists>pj. map_get (rp_jobs rp) v = Some pj \<and> has_key (pj_ChildJobs pj) u)"
    if "map_get (rp_jobs rp) u = Some j" for u j v
  proof -
    have "v \<in> set (pj_Notify j) \<longleftrightarrow> (u, v) \<in> set ?P" unfolding linkedD(2) [OF l that] by force
    also have "\<dots> \<longleftrightarrow> (\<exists>pj. map_get (rp_jobs rp) v = Some pj \<and> has_key (pj_ChildJobs pj) u)"
    proof
      assume uv: "(u, v) \<in> set ?P"
      from there [OF uv] obtain pj where "map_get (rp_jobs rp) v = Some pj" by blast
      with linkedD(3) [OF l this] uv show "\<exists>pj. map_get (rp_jobs rp) v = Some pj \<and> has_key (pj_ChildJobs pj) u" by blast
    next
      assume "\<exists>pj. map_get (rp_jobs rp) v = Some pj \<and> has_key (pj_ChildJobs pj) u"
      then obtain pj where pj: "map_get (rp_jobs rp) v = Some pj" "has_key (pj_ChildJobs pj) u" by blast
      with linkedD(3) [OF l pj(1)] show "(u, v) \<in> set ?P" by blast
    qed
    finally show ?thesis .
  qed
  moreover have "pj_Uuid j = u \<and> distinct (pj_Notify j)" if "map_get (rp_jobs rp) u = Some j" for u j
    using linked_notify_distinct [OF l job_pairs_distinct [OF g fr get] that] linkedD(1) [OF l that] by simp
  moreover have "map_ok (rp_jobs rp)" using l by (simp add: linked_def)
  ultimately show ?thesis by blast
qed

text \<open>C6: in a resolved policy every reporting job is stored under its own uuid, notifies each of its parents once, and
  a job notifies another exactly when that one has it among its child jobs.\<close>

theorem resolved_jobs_in_sync:
  assumes "buildResolvedPolicy k X mrn p props impacts filters now = Inr (Inr rp)"
  shows "map_ok (rp_jobs rp) \<and> (\<forall>u j. map_get (rp_jobs rp) u = Some j \<longrightarrow> pj_Uuid j = u \<and> distinct (pj_Notify j)
    \<and> (\<forall>v. v \<in> set (pj_Notify j) \<longleftrightarrow> (\<exists>parentJob. map_get (rp_jobs rp) v = Some parentJob \<and> has_key (pj_ChildJobs parentJob) u)))"
  by (rule resolved_sync [OF assms])

end
