(* ===== verification/Collector.thy ===== *)
theory Collector
  imports Resolver_Results Query_Executor_Results
begin

text \<open>
  How results leave the executor: the buffered collector and the collector of the policy service
  (\<open>policy/executor/internal/collector.go\<close>), the operations on a resolved policy (\<open>policy/resolved_policy.go\<close>,
  \<open>policy/collectorjob.go\<close>) and the counts of a scan (\<open>policy/executor/counting_collector.go\<close>,
  \<open>policy/scanstats/kinds.go\<close>).

  The buffered collector runs a goroutine that empties the buffers on every tick of its timer and once more when it
  is stopped; a run is a sequence of events, and every operation on the buffers is atomic under the lock. The requests
  that are sent are the output. The size of a primitive, the chunking of messages (\<open>iox.ChunkMessages\<close>) and the types
  of the query engine are not in the repository: they are the fields of \<open>sink_env\<close>.
\<close>

subsection \<open>The resolved policy\<close>

definition GetCodeBundle :: "ResolvedPolicy \<Rightarrow> Mquery \<Rightarrow> compiled option" where
  "GetCodeBundle r query = map_option xq_Code (map_get (xj_Queries (rpo_ExecutionJob r)) (mq_CodeId query))"

definition WithDataQueries :: "ResolvedPolicy \<Rightarrow> ('s \<Rightarrow> string \<Rightarrow> ExecutionQuery \<Rightarrow> 's) \<Rightarrow> 's \<Rightarrow> 's" where
  "WithDataQueries x f s = foldl (\<lambda>s (qid, query).
     if has_key (cj_ReportingQueries (rpo_CollectorJob x)) qid then s else f s qid query) s (xj_Queries (rpo_ExecutionJob x))"

definition NumDataQueries :: "ResolvedPolicy \<Rightarrow> nat" where
  "NumDataQueries x = foldl (\<lambda>n (qid, query).
     if has_key (cj_ReportingQueries (rpo_CollectorJob x)) qid then n else n + 1) 0 (xj_Queries (rpo_ExecutionJob x))"

text \<open>
  The worklist of \<open>RootBundlePolicies\<close> is not checked for jobs it has seen: on a cycle of child jobs it does not end,
  which is the result \<open>None\<close>.
\<close>

partial_function (option) root_policies ::
  "PolicyBundleMap \<Rightarrow> (string, ReportingJob) gomap \<Rightarrow> string list \<Rightarrow> Policy option list \<Rightarrow> (string + Policy option list) option" where
  "root_policies bundle js jobs res = (case jobs of [] \<Rightarrow> Some (Inr res)
     | u # us \<Rightarrow> (case map_get js u of
          None \<Rightarrow> Some (Inl ''cannot find jobs in resolved policy to get policies'')
        | Some job \<Rightarrow> (case map_get (bm_Policies bundle) (pj_QrId job) of
             Some p \<Rightarrow> root_policies bundle js us (res @ [p])
           | None \<Rightarrow> root_policies bundle js (us @ map fst (pj_ChildJobs job)) res)))"

definition RootBundlePolicies :: "ResolvedPolicy \<Rightarrow> PolicyBundleMap \<Rightarrow> string \<Rightarrow> (string + Policy option list) option" where
  "RootBundlePolicies x bundle assetMrn =
     (case (case map_get (bm_Policies bundle) assetMrn of None \<Rightarrow> None | Some p \<Rightarrow> p) of
        Some p \<Rightarrow> Some (Inr [Some p])
      | None \<Rightarrow> if rpo_ReportingJobUuid x = '''' then Some (Inl ''cannot find the primary policy'')
          else map_option (\<lambda>r. case r of Inl e \<Rightarrow> Inl e
              | Inr res \<Rightarrow> if res = [] then Inl ''cannot find any primary policies'' else Inr res)
            (root_policies bundle (rp_jobs x) [rpo_ReportingJobUuid x] []))"

record 'v sink_env =
  se_env :: "'v env"
  se_Size :: "Primitive option \<Rightarrow> nat"
  se_Chunk :: "Result list \<Rightarrow> Result list list"
  se_TooLarge :: "Result \<Rightarrow> bool"
  se_IsResource :: "string \<Rightarrow> bool"
  se_ResourceName :: "string \<Rightarrow> string"

definition chunk_resource :: "'v sink_env \<Rightarrow> Chunk \<Rightarrow> string option" where
  "chunk_resource S chunk =
     (if \<not> ch_IsFunction chunk then None
      else case ch_Function chunk of None \<Rightarrow> Some (ch_Id chunk)
        | Some (binding, rt) \<Rightarrow> if binding = 0 then Some (ch_Id chunk)
            else if rt \<noteq> '''' \<and> se_IsResource S rt then Some (se_ResourceName S rt) else None)"

definition query_resources :: "'v sink_env \<Rightarrow> compiled \<Rightarrow> string list" where
  "query_resources S code = remdups (List.map_filter (chunk_resource S) (concat (cb_Blocks code)))"

definition EnumerateQueryResources :: "'v sink_env \<Rightarrow> ResolvedPolicy \<Rightarrow> (string, string list) gomap" where
  "EnumerateQueryResources S x = foldl (\<lambda>res (csum, query). foldl (\<lambda>res name. append_at name csum res) res
     (query_resources S (xq_Code query))) [] (xj_Queries (rpo_ExecutionJob x))"

subsection \<open>Validation of a collector job\<close>

record InvalidCollectorJobError =
  InvalidSpecsByReportingJob :: "(string, string list) gomap"
  InvalidNotifiersByReportingJob :: "(string, string list) gomap"

definition addInvalidSpec :: "string \<Rightarrow> string \<Rightarrow> InvalidCollectorJobError \<Rightarrow> InvalidCollectorJobError" where
  "addInvalidSpec uuid ref e = e\<lparr>InvalidSpecsByReportingJob := append_at uuid ref (InvalidSpecsByReportingJob e)\<rparr>"

definition addInvalidNotifier :: "string \<Rightarrow> string \<Rightarrow> InvalidCollectorJobError \<Rightarrow> InvalidCollectorJobError" where
  "addInvalidNotifier uuid ref e = e\<lparr>InvalidNotifiersByReportingJob := append_at uuid ref (InvalidNotifiersByReportingJob e)\<rparr>"

definition validate_job :: "CollectorJob \<Rightarrow> bool \<times> InvalidCollectorJobError \<Rightarrow> ReportingJob \<Rightarrow> bool \<times> InvalidCollectorJobError" where
  "validate_job c s job =
     foldl (\<lambda>(invalid, e) ref. if has_key (cj_ReportingJobs c) ref then (invalid, e) else (True, addInvalidNotifier (pj_Uuid job) ref e))
       (foldl (\<lambda>(invalid, e) ref. if has_key (cj_ReportingJobs c) ref then (invalid, e) else (True, addInvalidSpec (pj_Uuid job) ref e))
          s (map fst (pj_ChildJobs job))) (pj_Notify job)"

definition CollectorJob_Validate :: "CollectorJob \<Rightarrow> InvalidCollectorJobError option" where
  "CollectorJob_Validate c =
     (let (invalid, e) = foldl (validate_job c) (False, \<lparr>InvalidSpecsByReportingJob = [], InvalidNotifiersByReportingJob = []\<rparr>)
        (map snd (cj_ReportingJobs c)) in if invalid then Some e else None)"

subsection \<open>The buffered collector\<close>

record 'v BufferedCollector =
  bc_results :: "(string, 'v RawResult) gomap"
  bc_scores :: "(string, Score) gomap"
  bc_policy :: ResolvedPolicy
  bc_riskMRNs :: "(string, string list) gomap"
  bc_keepQrIds :: "(string, bool) gomap"
  bc_runScores :: "Score list"
  bc_risksIdx :: "(string, bool) gomap"

text \<open>
  \<open>WithResolvedPolicy\<close>: the two indexes of the jobs, an error, or a panic for a child job that is missing. A nil map
  \<open>RiskMrns\<close> differs from an empty one only here: it is the first argument.
\<close>

fun risk_children ::
  "bool \<Rightarrow> CollectorJob \<Rightarrow> string list \<Rightarrow> (string, string list) gomap \<Rightarrow> (string + (string, string list) gomap) go" where
  "risk_children isNil cj [] m = Inr (Inr m)"
| "risk_children isNil cj (k # ks) m =
     (if isNil then Inr (Inl ''missing query MRNs in resolved policy'')
      else go_bind (go_deref (map_get (cj_ReportingJobs cj) k)) (\<lambda>cjob.
        case map_get (cj_RiskMrns cj) (pj_Uuid cjob) of
          None \<Rightarrow> Inr (Inl (''missing query MRNs for job uuid='' @ pj_Uuid cjob @ '' checksum='' @ pj_Checksum cjob))
        | Some mrns \<Rightarrow> risk_children isNil cj ks (map_put (pj_QrId cjob)
            ((case map_get m (pj_QrId cjob) of None \<Rightarrow> [] | Some xs \<Rightarrow> xs) @ mrns) m)))"

type_synonym risk_indexes = "(string, string list) gomap \<times> (string, bool) gomap"

fun index_jobs :: "bool \<Rightarrow> CollectorJob \<Rightarrow> ReportingJob list \<Rightarrow> risk_indexes \<Rightarrow> (string + risk_indexes) go" where
  "index_jobs isNil cj [] s = Inr (Inr s)"
| "index_jobs isNil cj (rj # js) (riskMRNs, keepQrIds) =
     (if pj_Type rj = RJ_RISK_FACTOR then
        go_bind (risk_children isNil cj (map fst (pj_ChildJobs rj)) riskMRNs) (\<lambda>r. case r of
          Inl e \<Rightarrow> Inr (Inl e) | Inr m \<Rightarrow> index_jobs isNil cj js (m, keepQrIds))
      else go_bind (go_fold (\<lambda>keep k. go_bind (go_deref (map_get (cj_ReportingJobs cj) k)) (\<lambda>cjob.
             Inr (map_put (pj_QrId cjob) True keep))) keepQrIds (map fst (pj_ChildJobs rj))) (\<lambda>keep.
           index_jobs isNil cj js (riskMRNs, keep)))"

definition WithResolvedPolicy :: "bool \<Rightarrow> ResolvedPolicy \<Rightarrow> 'v BufferedCollector \<Rightarrow> (string + 'v BufferedCollector) go" where
  "WithResolvedPolicy isNil resolved b =
     go_bind (index_jobs isNil (rpo_CollectorJob resolved) (map snd (rp_jobs resolved)) ([], [])) (\<lambda>r.
       Inr (map_sum (\<lambda>e. e) (\<lambda>(riskMRNs, keepQrIds).
         b\<lparr>bc_policy := resolved, bc_riskMRNs := riskMRNs, bc_keepQrIds := keepQrIds\<rparr>) r))"

definition SinkData :: "'v RawResult list \<Rightarrow> 'v BufferedCollector \<Rightarrow> 'v BufferedCollector" where
  "SinkData results c = c\<lparr>bc_results := foldl (\<lambda>m rr. map_put (rr_CodeID rr) rr m) (bc_results c) results\<rparr>"

definition SinkScore :: "Score list \<Rightarrow> 'v BufferedCollector \<Rightarrow> 'v BufferedCollector" where
  "SinkScore scores c = c\<lparr>bc_scores := foldl (\<lambda>m s. map_put (sc_QrId s) s m) (bc_scores c) scores\<rparr>"

definition consumeRisk :: "'v BufferedCollector \<Rightarrow> Score \<Rightarrow> (string, bool) gomap \<Rightarrow> bool \<times> (string, bool) gomap" where
  "consumeRisk c score risks = (case map_get (bc_riskMRNs c) (sc_QrId score) of
     None \<Rightarrow> (False, risks)
   | Some riskMRNs \<Rightarrow> (True, foldl (\<lambda>risks riskMRN.
       let isDetected = (sc_Value score = 100) in
       map_put riskMRN (map_get risks riskMRN = Some True \<or> isDetected) risks) risks riskMRNs))"

definition keep_score :: "'v BufferedCollector \<Rightarrow> Score list \<times> (string, bool) gomap \<Rightarrow> Score \<Rightarrow> Score list \<times> (string, bool) gomap" where
  "keep_score c = (\<lambda>(scores, risks) s.
     let (consumedRisk, risks) = consumeRisk c s risks;
         shouldKeepIfConsumed = (map_get (bc_keepQrIds c) (sc_QrId s) = Some True)
     in (if \<not> consumedRisk \<or> shouldKeepIfConsumed then scores @ [s] else scores, risks))"

definition listScoredRisks :: "(string, bool) gomap \<Rightarrow> ScoredRiskFactor list" where
  "listScoredRisks risksIdx = map (\<lambda>(mrn, isDetected).
     \<lparr>sr_Mrn = mrn, sr_Risk = 0, sr_IsToxic = False, sr_IsDetected = isDetected\<rparr>) risksIdx"

subsection \<open>Risk scores\<close>

type_synonym risk_acc = "ResolvedPolicy \<times> ScoredRiskInfo list \<times> (string, ScoredRiskInfo list) gomap"

definition collect_risk :: "risk_acc \<Rightarrow> ScoredRiskFactor \<Rightarrow> risk_acc" where
  "collect_risk = (\<lambda>(rp, assetRisks, resourceRisks) scoredRisk.
     case map_get (cj_RiskFactors (rpo_CollectorJob rp)) (sr_Mrn scoredRisk) of
       None \<Rightarrow> (rp, assetRisks, resourceRisks)
     | Some risk \<Rightarrow>
         let risk = risk\<lparr>rf_Mrn := sr_Mrn scoredRisk\<rparr>;
             rp = on_collector (\<lambda>cj. cj\<lparr>cj_RiskFactors := map_put (sr_Mrn scoredRisk) risk (cj_RiskFactors cj)\<rparr>) rp
         in if rf_Scope risk = ASSET then (rp, assetRisks @ [(risk, scoredRisk)], resourceRisks)
            else if rf_Scope risk = RESOURCE \<or> rf_Scope risk = SOFTWARE_AND_RESOURCE then
              (rp, assetRisks, foldl (\<lambda>m name. if name = '''' then m else append_at name (risk, scoredRisk) m)
                 resourceRisks (rf_Resources risk))
            else (rp, assetRisks, resourceRisks))"

definition csums_of :: "(string, string list) gomap \<Rightarrow> string \<Rightarrow> string list" where
  "csums_of names name = (case map_get names name of None \<Rightarrow> [] | Some cs \<Rightarrow> cs)"

definition index_resource_risks ::
  "(string, string list) gomap \<Rightarrow> (string, ScoredRiskInfo list) gomap \<Rightarrow> (string, ScoredRiskInfo list) gomap" where
  "index_resource_risks names resourceRisks = foldl (\<lambda>m (name, risks).
     let csums = csums_of names name; risks = SortScoredRiskInfo risks
     in foldl (\<lambda>m csum. map_put csum risks m) m csums) [] resourceRisks"

definition updateRiskScores ::
  "'v sink_env \<Rightarrow> ResolvedPolicy \<Rightarrow> Score list \<Rightarrow> ScoredRiskFactor list \<Rightarrow> ResolvedPolicy \<times> Score list" where
  "updateRiskScores S rp scores scoredRisks =
     (let (rp, assetRisks, resourceRisks) = foldl collect_risk (rp, [], []) scoredRisks;
          assetRisks = SortScoredRiskInfo assetRisks;
          csumsIdx = index_resource_risks (EnumerateQueryResources S rp) resourceRisks
      in (rp, map (\<lambda>score. the (AdjustRiskScore (env_arch (se_env S)) (Some score)
           [assetRisks, (case map_get csumsIdx (sc_QrId score) of None \<Rightarrow> [] | Some risks \<Rightarrow> risks)])) scores))"

subsection \<open>Sending\<close>

record StoreResultsReq =
  req_AssetMrn :: string
  req_Data :: "(string, Result) gomap"
  req_Scores :: "Score list"
  req_Risks :: "ScoredRiskFactor list"
  req_IsPreprocessed :: bool
  req_IsLastBatch :: bool

definition MAX_DATAPOINT :: nat where
  "MAX_DATAPOINT = 2 * 2 ^ 20"

definition toResult :: "'v sink_env \<Rightarrow> 'v RawResult \<Rightarrow> Result" where
  "toResult S rr =
     (let v = env_Result (se_env S) rr in
      if se_Size S (re_Data v) > MAX_DATAPOINT
      then \<lparr>re_CodeID = re_CodeID v, re_Error = ''datafield was removed because it is too large'', re_Data = None\<rparr>
      else v)"

definition data_request :: "string \<Rightarrow> bool \<Rightarrow> Result list \<Rightarrow> StoreResultsReq" where
  "data_request assetMrn isDone chunk = \<lparr>req_AssetMrn = assetMrn, req_Data = foldl (\<lambda>m rr. map_put (re_CodeID rr) rr m) [] chunk,
     req_Scores = [], req_Risks = [], req_IsPreprocessed = True, req_IsLastBatch = isDone\<rparr>"

definition Sink ::
  "'v sink_env \<Rightarrow> string \<Rightarrow> 'v RawResult list \<Rightarrow> Score list \<Rightarrow> ScoredRiskFactor list \<Rightarrow> bool \<Rightarrow> StoreResultsReq list" where
  "Sink S assetMrn results scores risks isDone =
     (if results = [] \<and> scores = [] \<and> risks = [] \<and> \<not> isDone then []
      else (if results \<noteq> [] then map (data_request assetMrn isDone) (se_Chunk S (map (toResult S) results)) else [])
         @ (if scores \<noteq> [] \<or> risks \<noteq> [] then
              [\<lparr>req_AssetMrn = assetMrn, req_Data = [], req_Scores = scores, req_Risks = risks,
                req_IsPreprocessed = True, req_IsLastBatch = isDone\<rparr>] else []))"

subsection \<open>The goroutine\<close>

text \<open>One pass of the loop: the buffers are emptied, the data is sent, and at the end the scores and risks are.\<close>

definition drain :: "'v BufferedCollector \<Rightarrow> 'v RawResult list \<times> 'v BufferedCollector" where
  "drain c =
     (let (scores, risksIdx) = foldl (keep_score c) (bc_runScores c, bc_risksIdx c) (map snd (bc_scores c))
      in (map snd (bc_results c),
          c\<lparr>bc_results := [], bc_scores := [], bc_runScores := scores, bc_risksIdx := risksIdx\<rparr>))"

definition run_pass :: "'v sink_env \<Rightarrow> string \<Rightarrow> bool \<Rightarrow> 'v BufferedCollector \<Rightarrow> StoreResultsReq list \<times> 'v BufferedCollector" where
  "run_pass S assetMrn isDone c =
     (let (results, c) = drain c;
          sent = (if results \<noteq> [] then Sink S assetMrn results [] [] False else [])
      in if isDone then
           let risks = listScoredRisks (bc_risksIdx c);
               (rp, scores) = updateRiskScores S (bc_policy c) (bc_runScores c) risks
           in (sent @ Sink S assetMrn [] scores risks True, c\<lparr>bc_policy := rp, bc_runScores := [], bc_risksIdx := []\<rparr>)
         else (sent, c))"

text \<open>What happens to a collector: its callers sink data and scores, the timer ticks, and it is stopped once.\<close>

datatype 'v sink_event = EvData "'v RawResult list" | EvScores "Score list" | EvTick

fun collector_event ::
  "'v sink_env \<Rightarrow> string \<Rightarrow> StoreResultsReq list \<times> 'v BufferedCollector \<Rightarrow> 'v sink_event \<Rightarrow> StoreResultsReq list \<times> 'v BufferedCollector" where
  "collector_event S mrn (sent, c) (EvData rs) = (sent, SinkData rs c)"
| "collector_event S mrn (sent, c) (EvScores ss) = (sent, SinkScore ss c)"
| "collector_event S mrn (sent, c) EvTick = map_prod (\<lambda>out. sent @ out) (\<lambda>c. c) (run_pass S mrn False c)"

definition new_collector :: "ResolvedPolicy \<Rightarrow> 'v BufferedCollector" where
  "new_collector rp = \<lparr>bc_results = [], bc_scores = [], bc_policy = rp, bc_riskMRNs = [], bc_keepQrIds = [],
     bc_runScores = [], bc_risksIdx = []\<rparr>"

definition FlushAndStop ::
  "'v sink_env \<Rightarrow> string \<Rightarrow> StoreResultsReq list \<times> 'v BufferedCollector \<Rightarrow> StoreResultsReq list \<times> 'v BufferedCollector" where
  "FlushAndStop S mrn = (\<lambda>(sent, c). map_prod (\<lambda>out. sent @ out) (\<lambda>c. c) (run_pass S mrn True c))"

definition collector_run :: "'v sink_env \<Rightarrow> string \<Rightarrow> 'v BufferedCollector \<Rightarrow> 'v sink_event list \<Rightarrow> StoreResultsReq list" where
  "collector_run S mrn c evs = fst (FlushAndStop S mrn (foldl (collector_event S mrn) ([], c) evs))"

subsection \<open>Function collectors and counts\<close>

record ('v, 's) FuncCollector =
  SinkDataFunc :: "('v RawResult list \<Rightarrow> 's \<Rightarrow> 's) option"
  SinkScoreFunc :: "(Score list \<Rightarrow> 's \<Rightarrow> 's) option"

definition FuncCollector_SinkData :: "('v, 's) FuncCollector \<Rightarrow> 'v RawResult list \<Rightarrow> 's \<Rightarrow> 's" where
  "FuncCollector_SinkData c results s = (case SinkDataFunc c of None \<Rightarrow> s | Some f \<Rightarrow> if results = [] then s else f results s)"

definition FuncCollector_SinkScore :: "('v, 's) FuncCollector \<Rightarrow> Score list \<Rightarrow> 's \<Rightarrow> 's" where
  "FuncCollector_SinkScore c scores s = (case SinkScoreFunc c of None \<Rightarrow> s | Some f \<Rightarrow> if scores = [] then s else f scores s)"

text \<open>The counts are \<open>int64\<close> and far from its bounds: one per reporting job.\<close>

record KindCounts =
  kc_Checks :: int
  kc_DataQueries :: int
  kc_Policies :: int
  kc_Controls :: int
  kc_Frameworks :: int
  kc_ChecksErrored :: int
  kc_DataQueriesErrored :: int

record PolicyKinds =
  pk_Counts :: KindCounts
  pk_checkQrIds :: "(string, unit) gomap"

definition count_kind :: "PolicyKinds \<Rightarrow> string \<times> ReportingJob_Type \<Rightarrow> PolicyKinds" where
  "count_kind pk = (\<lambda>(qr, t).
     let n = pk_Counts pk in
     if t = RJ_CHECK \<or> t = RJ_CHECK_AND_DATA_QUERY then
       pk\<lparr>pk_Counts := n\<lparr>kc_Checks := kc_Checks n + 1\<rparr>, pk_checkQrIds := map_put qr () (pk_checkQrIds pk)\<rparr>
     else if t = RJ_DATA_QUERY then pk\<lparr>pk_Counts := n\<lparr>kc_DataQueries := kc_DataQueries n + 1\<rparr>\<rparr>
     else if t = RJ_POLICY then pk\<lparr>pk_Counts := n\<lparr>kc_Policies := kc_Policies n + 1\<rparr>\<rparr>
     else if t = RJ_CONTROL then pk\<lparr>pk_Counts := n\<lparr>kc_Controls := kc_Controls n + 1\<rparr>\<rparr>
     else if t = RJ_FRAMEWORK then pk\<lparr>pk_Counts := n\<lparr>kc_Frameworks := kc_Frameworks n + 1\<rparr>\<rparr>
     else pk)"

definition zeroKinds :: PolicyKinds where
  "zeroKinds = \<lparr>pk_Counts = \<lparr>kc_Checks = 0, kc_DataQueries = 0, kc_Policies = 0, kc_Controls = 0, kc_Frameworks = 0,
     kc_ChecksErrored = 0, kc_DataQueriesErrored = 0\<rparr>, pk_checkQrIds = []\<rparr>"

definition kind_by_qrid :: "ReportingJob list \<Rightarrow> (string, ReportingJob_Type) gomap" where
  "kind_by_qrid js = foldl (\<lambda>m job. if pj_QrId job = '''' \<or> pj_QrId job = ''root'' then m
     else map_put (pj_QrId job) (pj_Type job) m) [] js"

definition NewPolicyKinds :: "ResolvedPolicy option \<Rightarrow> PolicyKinds" where
  "NewPolicyKinds rp = (case rp of None \<Rightarrow> zeroKinds
     | Some rp \<Rightarrow> foldl count_kind zeroKinds (kind_by_qrid (map snd (rp_jobs rp))))"

definition IsCheckQrId :: "PolicyKinds \<Rightarrow> string \<Rightarrow> bool" where
  "IsCheckQrId pk qrid = has_key (pk_checkQrIds pk) qrid"

record countingCollector =
  cc_pk :: PolicyKinds
  cc_erroredChecks :: "(string, unit) gomap"
  cc_erroredData :: "(string, unit) gomap"

definition newCountingCollector :: "ResolvedPolicy option \<Rightarrow> countingCollector" where
  "newCountingCollector rp = \<lparr>cc_pk = NewPolicyKinds rp, cc_erroredChecks = [], cc_erroredData = []\<rparr>"

definition counting_SinkScore :: "Score option list \<Rightarrow> countingCollector \<Rightarrow> countingCollector" where
  "counting_SinkScore scores c = foldl (\<lambda>c so. case so of None \<Rightarrow> c
     | Some s \<Rightarrow> if \<not> IsCheckQrId (cc_pk c) (sc_QrId s) then c
         else if sc_Type s = ScoreType_Error then c\<lparr>cc_erroredChecks := map_put (sc_QrId s) () (cc_erroredChecks c)\<rparr>
         else c\<lparr>cc_erroredChecks := map_del (sc_QrId s) (cc_erroredChecks c)\<rparr>) c scores"

definition counting_SinkData :: "'v RawResult option list \<Rightarrow> countingCollector \<Rightarrow> countingCollector" where
  "counting_SinkData results c = foldl (\<lambda>c ro. case ro of None \<Rightarrow> c
     | Some r \<Rightarrow> if (case rr_Data r of None \<Rightarrow> False | Some d \<Rightarrow> rd_Error d \<noteq> None)
         then c\<lparr>cc_erroredData := map_put (rr_CodeID r) () (cc_erroredData c)\<rparr>
         else c\<lparr>cc_erroredData := map_del (rr_CodeID r) (cc_erroredData c)\<rparr>) c results"

definition counting_recordTo :: "countingCollector \<Rightarrow> KindCounts" where
  "counting_recordTo c = (pk_Counts (cc_pk c))
     \<lparr>kc_ChecksErrored := int (length (cc_erroredChecks c)), kc_DataQueriesErrored := int (length (cc_erroredData c))\<rparr>"

end
