(* ===== verification/Resolver_Returns.thy ===== *)
theory Resolver_Returns
  imports Resolver_Results
begin

text \<open>
  Resolution returns. The traversals of the resolver recurse without a check for cycles; on a complete bundle without
  cyclic references every one of them settles: from some stack depth on it has the same result. \<open>settles\<close> has a rule
  for each construct the traversals are made of.
\<close>

subsection \<open>Computations that settle\<close>

definition settles :: "nat \<Rightarrow> ('a \<Rightarrow> bool) \<Rightarrow> (nat \<Rightarrow> 'a go) \<Rightarrow> bool" where
  "settles N P g \<longleftrightarrow> (\<exists>r. P r \<and> (\<forall>k \<ge> N. g k = Inr r))"

lemma settles_Inr: "P r \<Longrightarrow> settles N P (\<lambda>k. Inr r)"
  by (auto simp: settles_def)

lemma settles_bind:
  assumes "settles N Q m" and "\<And>x. Q x \<Longrightarrow> settles N P (\<lambda>k. f k x)"
  shows "settles N P (\<lambda>k. go_bind (m k) (f k))"
proof -
  from assms(1) obtain x where x: "Q x" "\<forall>k \<ge> N. m k = Inr x" by (auto simp: settles_def)
  from assms(2) [OF x(1)] x(2) show ?thesis by (auto simp: settles_def)
qed

lemma settles_fold:
  assumes "\<And>x s. x \<in> set xs \<Longrightarrow> P s \<Longrightarrow> settles N P (\<lambda>k. f k s x)" and "P s"
  shows "settles N P (\<lambda>k. go_fold (f k) s xs)"
  using assms
proof (induction xs arbitrary: s)
  case (Cons x xs)
  have "settles N P (\<lambda>k. go_bind (f k s x) (\<lambda>s. go_fold (f k) s xs))"
    using Cons by (intro settles_bind [where Q = P]) simp_all
  then show ?case by simp
qed (simp add: settles_Inr)

lemma settles_mono: "settles N P g \<Longrightarrow> N \<le> N' \<Longrightarrow> (\<And>x. P x \<Longrightarrow> Q x) \<Longrightarrow> settles N' Q g"
  unfolding settles_def by (meson le_trans)

lemma settles_Suc: "settles N P (\<lambda>k. g (Suc k)) \<Longrightarrow> settles (Suc N) P g"
  unfolding settles_def by (metis Suc_le_D Suc_le_mono)

lemma settles_once: "m = Inr r \<Longrightarrow> P r \<Longrightarrow> settles N P (\<lambda>k. m)"
  by (auto simp: settles_def)

subsection \<open>Complete bundles without cycles\<close>

text \<open>
  The ranks of policies, queries and frameworks fall along the references between them, referenced policies are in the
  bundle, and a framework map with controls has an owner.
\<close>

record ranks =
  rk_policy :: "string \<Rightarrow> nat"
  rk_query :: "string \<Rightarrow> nat"
  rk_framework :: "string \<Rightarrow> nat"

definition policies_ranked :: "ranks \<Rightarrow> PolicyBundleMap \<Rightarrow> bool" where
  "policies_ranked R M \<longleftrightarrow> (\<forall>(mrn, p) \<in> set (bm_Policies M). case p of None \<Rightarrow> False
     | Some p \<Rightarrow> \<forall>g \<in> set (po_Groups p). \<forall>r \<in> set (pg_Policies g).
         has_key (bm_Policies M) (pf_Mrn r) \<and> rk_policy R (pf_Mrn r) < rk_policy R mrn)"

definition queries_ranked :: "ranks \<Rightarrow> nat \<Rightarrow> PolicyBundleMap \<Rightarrow> bool" where
  "queries_ranked R n M \<longleftrightarrow> (\<forall>(mrn, q) \<in> set (bm_Queries M). rk_query R mrn < n \<and> (case q of None \<Rightarrow> False
     | Some q \<Rightarrow> \<forall>v \<in> set (mq_Variants q). has_key (bm_Queries M) (or_Mrn v) \<longrightarrow> rk_query R (or_Mrn v) < rk_query R mrn))"

definition frameworks_ranked :: "ranks \<Rightarrow> PolicyBundleMap \<Rightarrow> bool" where
  "frameworks_ranked R M \<longleftrightarrow> (\<forall>(mrn, f) \<in> set (bm_Frameworks M).
     (\<forall>d \<in> set (fw_Dependencies f). has_key (bm_Frameworks M) d \<longrightarrow> rk_framework R d < rk_framework R mrn)
     \<and> (\<forall>m \<in> set (fw_FrameworkMaps f). fm_Controls m = [] \<or> fm_FrameworkOwner m \<noteq> None))"

definition complete_bundle :: "ranks \<Rightarrow> nat \<Rightarrow> PolicyBundleMap \<Rightarrow> bool" where
  "complete_bundle R n M \<longleftrightarrow> policies_ranked R M \<and> queries_ranked R n M \<and> frameworks_ranked R M"

lemma policy_rankedD:
  assumes "policies_ranked R M" and "map_get (bm_Policies M) mrn = Some p" 
  obtains pol where "p = Some pol"
    and "\<And>g r. g \<in> set (po_Groups pol) \<Longrightarrow> r \<in> set (pg_Policies g) \<Longrightarrow> map_get (bm_Policies M) (pf_Mrn r) \<noteq> None"
    and "\<And>g r. g \<in> set (po_Groups pol) \<Longrightarrow> r \<in> set (pg_Policies g) \<Longrightarrow> rk_policy R (pf_Mrn r) < rk_policy R mrn"
proof -
  have "(mrn, p) \<in> set (bm_Policies M)" using assms(2) by (rule map_of_SomeD)
  with assms(1) that show thesis by (cases p) (fastforce simp: policies_ranked_def map_get_None_iff)+
qed

lemma query_rankedD:
  assumes "queries_ranked R n M" and "map_get (bm_Queries M) mrn = Some q"
  obtains m where "q = Some m" and "rk_query R mrn < n"
    and "\<And>v x. v \<in> set (mq_Variants m) \<Longrightarrow> map_get (bm_Queries M) (or_Mrn v) = Some x \<Longrightarrow> rk_query R (or_Mrn v) < rk_query R mrn"
proof -
  have "(mrn, q) \<in> set (bm_Queries M)" using assms(2) by (rule map_of_SomeD)
  with assms(1) that show thesis by (cases q) (fastforce simp: queries_ranked_def dest: has_key_get)+
qed

lemma framework_rankedD:
  assumes "frameworks_ranked R M" and "map_get (bm_Frameworks M) mrn = Some f"
  shows "d \<in> set (fw_Dependencies f) \<Longrightarrow> map_get (bm_Frameworks M) d = Some x \<Longrightarrow> rk_framework R d < rk_framework R mrn"
    and "m \<in> set (fw_FrameworkMaps f) \<Longrightarrow> c \<in> set (fm_Controls m) \<Longrightarrow> fm_FrameworkOwner m \<noteq> None"
proof -
  have "(mrn, f) \<in> set (bm_Frameworks M)" using assms(2) by (rule map_of_SomeD)
  with assms(1) show "d \<in> set (fw_Dependencies f) \<Longrightarrow> map_get (bm_Frameworks M) d = Some x \<Longrightarrow> rk_framework R d < rk_framework R mrn"
    and "m \<in> set (fw_FrameworkMaps f) \<Longrightarrow> c \<in> set (fm_Controls m) \<Longrightarrow> fm_FrameworkOwner m \<noteq> None"
    by (fastforce simp: frameworks_ranked_def dest: has_key_get)+
qed

subsection \<open>The passes\<close>

interpretation in_bundle: graph_steps "\<lambda>b. rb_bundleMap b = M" M for M
  by unfold_locales auto

interpretation in_bundle_gather: gather_steps "\<lambda>b. rb_bundleMap b = M" for M
  by unfold_locales auto

abbreviation on_bundle :: "PolicyBundleMap \<Rightarrow> resolvedPolicyBuilder \<Rightarrow> bool" where
  "on_bundle M b \<equiv> rb_bundleMap b = M"

lemma gather_check_returns:
  assumes "queries_ranked R n M" and "on_bundle M b"
  shows "\<exists>b'. gather_check t b c = Inr b'"
proof -
  have "\<exists>i. (case map_get (bm_Queries (rb_bundleMap b)) (mq_Mrn c) of None \<Rightarrow> Inr (mq_Impact c)
        | Some q \<Rightarrow> go_bind (go_deref q) (\<lambda>q. Inr (getWorstImpact b (mq_Impact c) (mq_Impact q)))) = (Inr i :: _ go)"
  proof (cases "map_get (bm_Queries M) (mq_Mrn c)")
    case (Some q)
    with assms(1) obtain m where "q = Some m" by (rule query_rankedD)
    with Some assms(2) show ?thesis by simp
  qed (simp add: assms(2))
  then obtain i where "(case map_get (bm_Queries (rb_bundleMap b)) (mq_Mrn c) of None \<Rightarrow> Inr (mq_Impact c)
        | Some q \<Rightarrow> go_bind (go_deref q) (\<lambda>q. Inr (getWorstImpact b (mq_Impact c) (mq_Impact q)))) = (Inr i :: _ go)" by blast
  then show ?thesis by (simp only: gather_check_def go_bind_simps Let_def case_prod_beta) blast
qed

lemma gather_check_settles:
  assumes "queries_ranked R n M" and "on_bundle M b"
  shows "settles N (on_bundle M) (\<lambda>k. gather_check t b c)"
proof -
  from gather_check_returns [OF assms] obtain b' where "gather_check t b c = Inr b'" by blast
  with in_bundle_gather.gather_check_keeps [OF this assms(2)] show ?thesis by (intro settles_once)
qed

lemma gatherPolicy_settles:
  assumes P: "policies_ranked R M" and Q: "queries_ranked R n M"
  shows "map_get (bm_Policies M) mrn = Some p \<Longrightarrow> on_bundle M b
    \<Longrightarrow> settles (Suc (rk_policy R mrn)) (on_bundle M) (\<lambda>k. gatherGlobalInfoFromPolicy k p b)"
proof (induction "rk_policy R mrn" arbitrary: mrn p b rule: less_induct)
  case less
  obtain pol where pol: "p = Some pol"
    and there: "\<And>g r. g \<in> set (po_Groups pol) \<Longrightarrow> r \<in> set (pg_Policies g) \<Longrightarrow> map_get (bm_Policies M) (pf_Mrn r) \<noteq> None"
    and rank: "\<And>g r. g \<in> set (po_Groups pol) \<Longrightarrow> r \<in> set (pg_Policies g) \<Longrightarrow> rk_policy R (pf_Mrn r) < rk_policy R mrn"
    by (rule policy_rankedD [OF P less.prems(1)]) blast
  have ref: "settles (rk_policy R mrn) (on_bundle M) (\<lambda>k. let p = policy_at s (pf_Mrn r) in
      go_bind (gatherGlobalInfoFromPolicy k p s) (gather_ref t p r))"
    if g: "g \<in> set (po_Groups pol)" and r: "r \<in> set (pg_Policies g)" and s: "on_bundle M s" for g and r :: PolicyRef and s t
  proof -
    from there [OF g r] obtain q where q: "map_get (bm_Policies M) (pf_Mrn r) = Some q" by blast
    with P obtain pol' where q': "q = Some pol'" by (rule policy_rankedD)
    have at: "policy_at s (pf_Mrn r) = Some pol'" using q q' s by (simp add: policy_at_def)
    have "settles (rk_policy R mrn) (on_bundle M) (\<lambda>k. gatherGlobalInfoFromPolicy k (Some pol') s)"
      by (rule settles_mono [OF less.hyps [OF rank [OF g r] q [unfolded q'] s]]) (use rank [OF g r] in simp_all)
    moreover have "settles (rk_policy R mrn) (on_bundle M) (\<lambda>k. gather_ref t (Some pol') r u)" if u: "on_bundle M u" for u
    proof -
      have "\<exists>u'. gather_ref t (Some pol') r u = Inr u'" by (simp add: gather_ref_def Let_def)
      then obtain u' where "gather_ref t (Some pol') r u = Inr u'" by blast
      with in_bundle_gather.gather_ref_keeps [OF this u] show ?thesis by (intro settles_once)
    qed
    ultimately show ?thesis unfolding at Let_def by (rule settles_bind)
  qed
  show ?case unfolding pol
  proof (rule settles_Suc, simp only: gatherGlobalInfoFromPolicy.simps go_deref.simps go_bind_simps,
      rule settles_bind [where Q = "on_bundle M"], rule settles_fold)
    fix g s assume g: "g \<in> set (po_Groups pol)" and s: "on_bundle M s"
    show "settles (rk_policy R mrn) (on_bundle M) (\<lambda>k. if \<not> isPolicyGroupMatching s g then Inr s
       else go_bind (go_fold (\<lambda>b r. let p = policy_at b (pf_Mrn r) in
                go_bind (gatherGlobalInfoFromPolicy k p b) (gather_ref (pg_Type g) p r)) s (pg_Policies g))
             (\<lambda>b. go_bind (go_fold (gather_check (pg_Type g)) b (pg_Checks g))
               (\<lambda>b. Inr (foldl (gather_query (pg_Type g)) b (pg_Queries g)))))"
    proof (cases "isPolicyGroupMatching s g")
      case True
      show ?thesis
      proof (simp only: True not_True_eq_False if_False, intro settles_bind [where Q = "on_bundle M"] settles_fold settles_Inr)
        show "on_bundle M (foldl (gather_query (pg_Type g)) x (pg_Queries g))" if "on_bundle M x" for x
          by (rule foldl_inv [where I = "on_bundle M"]) (use that in \<open>auto intro: in_bundle_gather.gather_query_keeps\<close>)
      qed (use ref g s gather_check_settles [OF Q] in auto)
    next
      case False
      then show ?thesis using s by (simp add: settles_Inr)
    qed
  next
    show "settles (rk_policy R mrn) (on_bundle M) (\<lambda>k. Inr (foldl gather_risk x (po_RiskFactors pol)))" if "on_bundle M x" for x
      by (rule settles_Inr, rule foldl_inv [where I = "on_bundle M"]) (use that in \<open>auto intro: in_bundle_gather.gather_risk_keeps\<close>)
  qed (use less.prems in simp)
qed


lemma gatherFramework_settles:
  assumes F: "frameworks_ranked R M"
  shows "map_get (bm_Frameworks M) mrn = Some f \<Longrightarrow> on_bundle M b
    \<Longrightarrow> settles (Suc (rk_framework R mrn)) (on_bundle M) (\<lambda>k. gatherGlobalInfoFromFramework k (Some f) b)"
proof (induction "rk_framework R mrn" arbitrary: mrn f b rule: less_induct)
  case less
  show ?case
  proof (rule settles_Suc, simp only: gatherGlobalInfoFromFramework.simps option.case,
      rule settles_bind [where Q = "on_bundle M"], rule settles_fold)
    fix d s assume d: "d \<in> set (fw_Dependencies f)" and s: "on_bundle M s"
    show "settles (rk_framework R mrn) (on_bundle M) (\<lambda>k. case map_get (bm_Frameworks (rb_bundleMap s)) d of
        None \<Rightarrow> Inr s | Some f \<Rightarrow> gatherGlobalInfoFromFramework k (Some f) s)"
    proof (cases "map_get (bm_Frameworks M) d")
      case (Some f')
      note rank = framework_rankedD(1) [OF F less.prems(1) d Some]
      have "settles (rk_framework R mrn) (on_bundle M) (\<lambda>k. gatherGlobalInfoFromFramework k (Some f') s)"
        by (rule settles_mono [OF less.hyps [OF rank Some s]]) (use rank in simp_all)
      then show ?thesis by (simp add: s Some)
    qed (simp add: s settles_Inr)
  next
    show "settles (rk_framework R mrn) (on_bundle M) (\<lambda>k. Inr (foldl (\<lambda>b g. if \<not> isFrameworkGroupMatching b g then b
        else foldl (\<lambda>b c. put_action (ct_Mrn c) (normalizeAction (fg_Type g) (ct_Action c) None) b) b (fg_Controls g))
          x (fw_Groups f)))" if x: "on_bundle M x" for x
      by (rule settles_Inr, intro foldl_inv [where I = "on_bundle M"])
        (simp_all add: x foldl_inv [where I = "on_bundle M"] in_bundle_gather.put_action_keeps)
  qed (use less.prems in simp)
qed

lemma accumulate_settles:
  assumes Q: "queries_ranked R n M" and b: "on_bundle M b"
  shows "settles (Suc n) (\<lambda>_. True) (\<lambda>k. accumulate k b t acc mrn)"
proof -
  have absent: "settles (Suc N) (\<lambda>_. True) (\<lambda>k. accumulate k b t acc mrn)" if "map_get (bm_Queries M) mrn = None" for mrn acc N
    using that by (rule_tac settles_Suc) (simp add: b settles_Inr)
  have main: "map_get (bm_Queries M) mrn = Some (Some q)
    \<Longrightarrow> settles (Suc (Suc (rk_query R mrn))) (\<lambda>_. True) (\<lambda>k. accumulate k b t acc mrn)" for q mrn acc
  proof (induction "rk_query R mrn" arbitrary: mrn q acc rule: less_induct)
    case less
    obtain m where m: "Some q = Some m"
      and rank: "\<And>v x. v \<in> set (mq_Variants m) \<Longrightarrow> map_get (bm_Queries M) (or_Mrn v) = Some x \<Longrightarrow> rk_query R (or_Mrn v) < rk_query R mrn"
      by (rule query_rankedD [OF Q less.prems]) blast
    have var: "settles (Suc (rk_query R mrn)) (\<lambda>_. True) (\<lambda>k. accumulate k b t acc (or_Mrn v))" if v: "v \<in> set (mq_Variants q)" for v acc
    proof (cases "map_get (bm_Queries M) (or_Mrn v)")
      case (Some x)
      from Q Some obtain q' where q': "x = Some q'" by (rule query_rankedD)
      have "rk_query R (or_Mrn v) < rk_query R mrn" using rank [OF _ Some] v m by simp
      from settles_mono [OF less.hyps [OF this Some [unfolded q']]] this show ?thesis by simp
    qed (rule absent)
    have "settles (Suc (rk_query R mrn)) (\<lambda>_. True) (\<lambda>k. go_fold (accumulate k b t) (add_type mrn t acc) (map or_Mrn (mq_Variants q)))"
      by (rule settles_fold) (auto intro: var)
    then show ?case by (rule_tac settles_Suc) (simp add: b less.prems)
  qed
  show ?thesis
  proof (cases "map_get (bm_Queries M) mrn")
    case (Some x)
    with Q obtain q where q: "x = Some q" and n: "rk_query R mrn < n" by (rule query_rankedD)
    from main [OF Some [unfolded q]] show ?thesis by (rule settles_mono) (use n in simp_all)
  qed (rule absent)
qed

lemma accumulate_all_settles:
  assumes "queries_ranked R n M" and "on_bundle M b"
  shows "settles (Suc n + N) (\<lambda>_. True) (\<lambda>k. go_fold (accumulate k b t) acc mrns)"
  by (rule settles_fold) (auto intro: settles_mono [OF accumulate_settles [OF assms]])

lemma collectQueryTypes_settles:
  assumes P: "policies_ranked R M" and Q: "queries_ranked R n M" and b: "on_bundle M b"
  shows "map_get (bm_Policies M) mrn = Some p
    \<Longrightarrow> settles (Suc n + Suc (rk_policy R mrn)) (\<lambda>_. True) (\<lambda>k. collectQueryTypes k b acc mrn)"
proof (induction "rk_policy R mrn" arbitrary: mrn p acc rule: less_induct)
  case less
  obtain pol where pol: "p = Some pol"
    and there: "\<And>g r. g \<in> set (po_Groups pol) \<Longrightarrow> r \<in> set (pg_Policies g) \<Longrightarrow> map_get (bm_Policies M) (pf_Mrn r) \<noteq> None"
    and rank: "\<And>g r. g \<in> set (po_Groups pol) \<Longrightarrow> r \<in> set (pg_Policies g) \<Longrightarrow> rk_policy R (pf_Mrn r) < rk_policy R mrn"
    by (rule policy_rankedD [OF P less.prems]) blast
  note acc = accumulate_all_settles [OF Q b, where N = "rk_policy R mrn"]
  have ref: "settles (Suc n + rk_policy R mrn) (\<lambda>_. True) (\<lambda>k. collectQueryTypes k b acc (pf_Mrn r))"
    if g: "g \<in> set (po_Groups pol)" and r: "r \<in> set (pg_Policies g)" for g and r :: PolicyRef and acc
  proof -
    from there [OF g r] obtain q where q: "map_get (bm_Policies M) (pf_Mrn r) = Some q" by blast
    show ?thesis by (rule settles_mono [OF less.hyps [OF rank [OF g r] q]]) (use rank [OF g r] in simp_all)
  qed
  have "settles (Suc n + rk_policy R mrn) (\<lambda>_. True) (\<lambda>k.
      go_bind (go_fold (\<lambda>acc g. if \<not> isPolicyGroupMatching b g then Inr acc else
              go_bind (go_fold (accumulate k b queryTypeScoring) acc (map mq_Mrn (pg_Checks g))) (\<lambda>acc.
              go_bind (go_fold (accumulate k b queryTypeData) acc (map mq_Mrn (pg_Queries g))) (\<lambda>acc.
              go_fold (collectQueryTypes k b) acc (map pf_Mrn (pg_Policies g))))) acc (po_Groups pol)) (\<lambda>acc.
            go_fold (\<lambda>acc r.
              go_bind (go_fold (accumulate k b queryTypeScoring) acc (map mq_Mrn (prf_Checks r))) (\<lambda>acc.
              go_fold (accumulate k b queryTypeData) acc (map mq_Mrn (prf_Queries r)))) acc (po_RiskFactors pol)))"
  proof (intro settles_bind [where Q = "\<lambda>_. True"] settles_fold TrueI)
    fix g s assume g: "g \<in> set (po_Groups pol)"
    have refs: "settles (Suc n + rk_policy R mrn) (\<lambda>_. True) (\<lambda>k. go_fold (collectQueryTypes k b) s (map pf_Mrn (pg_Policies g)))" for s
      by (rule settles_fold) (use ref [OF g] in auto)
    show "settles (Suc n + rk_policy R mrn) (\<lambda>_. True) (\<lambda>k. if \<not> isPolicyGroupMatching b g then Inr s else
              go_bind (go_fold (accumulate k b queryTypeScoring) s (map mq_Mrn (pg_Checks g))) (\<lambda>acc.
              go_bind (go_fold (accumulate k b queryTypeData) acc (map mq_Mrn (pg_Queries g))) (\<lambda>acc.
              go_fold (collectQueryTypes k b) acc (map pf_Mrn (pg_Policies g)))))"
      by (cases "isPolicyGroupMatching b g")
        (simp_all only: not_True_eq_False not_False_eq_True if_True if_False,
          (intro settles_bind [where Q = "\<lambda>_. True"] settles_Inr acc refs TrueI)+)
  qed (rule settles_mono [OF accumulate_settles [OF Q b]], simp_all)+
  then show ?case unfolding add_Suc_right by (rule_tac settles_Suc) (simp add: b less.prems pol)
qed

abbreviation on_bundle2 :: "PolicyBundleMap \<Rightarrow> 'a \<times> resolvedPolicyBuilder \<Rightarrow> bool" where
  "on_bundle2 M s \<equiv> on_bundle M (snd s)"

text \<open>A traversal that settles keeps the bundle.\<close>

lemma settles_keeps:
  assumes "settles N (\<lambda>_. True) g" and "\<And>k r. g k = Inr r \<Longrightarrow> P r"
  shows "settles N P g"
  using assms unfolding settles_def by (meson le_refl)

lemma addVariants_settles:
  assumes Q: "queries_ranked R n M" and b: "on_bundle M b"
    and vs: "\<And>v m b. v \<in> set vs \<Longrightarrow> map_get (bm_Queries M) (or_Mrn v) = Some (Some m) \<Longrightarrow> on_bundle M b
      \<Longrightarrow> settles N (on_bundle2 M) (\<lambda>k. addQuery k X (Some m) b)"
  shows "settles N (on_bundle2 M) (\<lambda>k. addVariants k X vs b)"
  using b vs
proof (induction vs arbitrary: b)
  case (Cons v vs)
  show ?case
  proof (cases "map_get (bm_Queries M) (or_Mrn v)")
    case (Some x)
    with Q obtain m where m: "x = Some m" by (rule query_rankedD)
    have "settles N (on_bundle2 M) (\<lambda>k. go_bind (addQuery k X (Some m) b) (\<lambda>(r, b).
        case r of None \<Rightarrow> addVariants k X vs b | Some codeId \<Rightarrow> go_bind (go_deref (Some m)) (\<lambda>v. Inr (Some (v, codeId), b))))"
    proof (rule settles_bind [OF Cons.prems(2)])
      fix s :: "string option \<times> resolvedPolicyBuilder" assume s: "on_bundle2 M s"
      show "settles N (on_bundle2 M) (\<lambda>k. case s of (r, b) \<Rightarrow>
          (case r of None \<Rightarrow> addVariants k X vs b | Some codeId \<Rightarrow> go_bind (go_deref (Some m)) (\<lambda>v. Inr (Some (v, codeId), b))))"
      proof (cases s)
        case (Pair r b1)
        have "settles N (on_bundle2 M) (\<lambda>k. addVariants k X vs b1)"
          by (rule Cons.IH) (use s Pair Cons.prems(2) in auto)
        then show ?thesis using s Pair by (cases r) (auto intro: settles_Inr)
      qed
    qed (use Some m Cons.prems in auto)
    then show ?thesis by (simp add: Cons.prems(1) Some m)
  next
    case None
    have "settles N (on_bundle2 M) (\<lambda>k. addVariants k X vs b)"
      by (rule Cons.IH) (use Cons.prems in auto)
    then show ?thesis by (simp add: Cons.prems(1) None)
  qed
qed (simp add: settles_Inr)

lemma addQuery_settles:
  assumes Q: "queries_ranked R n M"
  shows "map_get (bm_Queries M) mrn = Some (Some q) \<Longrightarrow> on_bundle M b
    \<Longrightarrow> settles (Suc (rk_query R mrn)) (on_bundle2 M) (\<lambda>k. addQuery k X (Some q) b)"
proof (induction "rk_query R mrn" arbitrary: mrn q b rule: less_induct)
  case less
  obtain m where m: "Some q = Some m"
    and rank: "\<And>v x. v \<in> set (mq_Variants m) \<Longrightarrow> map_get (bm_Queries M) (or_Mrn v) = Some x \<Longrightarrow> rk_query R (or_Mrn v) < rk_query R mrn"
    by (rule query_rankedD [OF Q less.prems(1)]) blast
  have vs: "settles (rk_query R mrn) (on_bundle2 M) (\<lambda>k. addVariants k X (mq_Variants q) b)"
  proof (rule addVariants_settles [OF Q less.prems(2)])
    fix v m' b assume v: "v \<in> set (mq_Variants q)" "map_get (bm_Queries M) (or_Mrn v) = Some (Some m')" "on_bundle M b"
    have "rk_query R (or_Mrn v) < rk_query R mrn" using rank [OF _ v(2)] v m by simp
    from settles_mono [OF less.hyps [OF this v(2,3)]] this
    show "settles (rk_query R mrn) (on_bundle2 M) (\<lambda>k. addQuery k X (Some m') b)" by simp
  qed
  have "settles (rk_query R mrn) (\<lambda>_. True) (\<lambda>k. addQuery (Suc k) X (Some q) b)"
  proof (cases "canRun (action_of b (mq_Mrn q)) \<and> mq_Variants q \<noteq> []")
    case True
    have "settles (rk_query R mrn) (\<lambda>_. True) (\<lambda>k. go_bind (addVariants k X (mq_Variants q) b) (\<lambda>(r, b).
          case r of None \<Rightarrow> Inr (None, b)
          | Some (v, codeId) \<Rightarrow> Inr (Some codeId,
              rb_addEdge (mq_Mrn v) (mq_Mrn q) i (rb_addNode (GenericQueryNode (mq_Mrn q) t codeId)
                  (rb_addProps X (mq_Props v) (rb_addProps X (mq_Props q) b))))))" for i t
      by (rule settles_bind [OF vs]) (auto intro!: settles_Inr split: option.splits)
    then show ?thesis using True by (simp add: Let_def)
  next
    case False
    then have "\<exists>r. \<forall>k. addQuery (Suc k) X (Some q) b = Inr r" by (auto simp: Let_def)
    then show ?thesis by (auto simp: settles_def)
  qed
  then show ?case
    by (intro settles_keeps [OF settles_Suc]) (auto intro: in_bundle.addQuery_keeps(1) [OF _ less.prems(2)] bundle_queriesI [OF less.prems(1)])
qed

lemma add_check_settles:
  assumes Q: "queries_ranked R n M" and b: "on_bundle M b" and mrn: "mrn \<in> group_mrns M"
  shows "settles (n + N) (on_bundle M) (\<lambda>k. add_check k X mrn t b c)"
    and "settles (n + N) (on_bundle M) (\<lambda>k. add_data_query k X mrn t b c)"
proof -
  have q: "settles (n + N) (\<lambda>_. True) (\<lambda>k. go_bind (addQuery k X q b) (\<lambda>(r, b). if r = None then Inr b
      else go_bind (go_deref q) (\<lambda>q. Inr (f b q))))" if some: "map_get (bm_Queries M) (mq_Mrn c) = Some q"
    for q and f :: "resolvedPolicyBuilder \<Rightarrow> Mquery \<Rightarrow> resolvedPolicyBuilder"
  proof -
    from Q some obtain m where m: "q = Some m" and n: "rk_query R (mq_Mrn c) < n" by (rule query_rankedD)
    have "settles (n + N) (on_bundle2 M) (\<lambda>k. addQuery k X q b)"
      unfolding m by (rule settles_mono [OF addQuery_settles [OF Q some [unfolded m] b]]) (use n in simp_all)
    then show ?thesis by (rule settles_bind) (auto simp: m intro!: settles_Inr)
  qed
  have "settles (n + N) (\<lambda>_. True) (\<lambda>k. add_check k X mrn t b c)"
    using q by (cases "map_get (bm_Queries M) (mq_Mrn c)"; cases "isOverride (mq_Action c) t") (auto simp: add_check_def b intro: settles_Inr)
  then show "settles (n + N) (on_bundle M) (\<lambda>k. add_check k X mrn t b c)"
    by (rule settles_keeps) (auto intro: in_bundle.add_check_keeps [OF _ b mrn])
  have "settles (n + N) (\<lambda>_. True) (\<lambda>k. add_data_query k X mrn t b c)"
    using q by (cases "map_get (bm_Queries M) (mq_Mrn c)"; cases "isOverride (mq_Action c) t") (auto simp: add_data_query_def b intro: settles_Inr)
  then show "settles (n + N) (on_bundle M) (\<lambda>k. add_data_query k X mrn t b c)"
    by (rule settles_keeps) (auto intro: in_bundle.add_data_query_keeps [OF _ b mrn])
qed

lemma addPolicy_settles:
  assumes P: "policies_ranked R M" and Q: "queries_ranked R n M"
  shows "map_get (bm_Policies M) mrn = Some p \<Longrightarrow> on_bundle M b
    \<Longrightarrow> settles (n + Suc (rk_policy R mrn)) (on_bundle2 M) (\<lambda>k. addPolicy k X p b)"
proof (induction "rk_policy R mrn" arbitrary: mrn p b rule: less_induct)
  case less
  obtain pol where pol: "p = Some pol"
    and there: "\<And>g r. g \<in> set (po_Groups pol) \<Longrightarrow> r \<in> set (pg_Policies g) \<Longrightarrow> map_get (bm_Policies M) (pf_Mrn r) \<noteq> None"
    and rank: "\<And>g r. g \<in> set (po_Groups pol) \<Longrightarrow> r \<in> set (pg_Policies g) \<Longrightarrow> rk_policy R (pf_Mrn r) < rk_policy R mrn"
    by (rule policy_rankedD [OF P less.prems(1)]) blast
  let ?N = "n + rk_policy R mrn"
  have bp: "pol \<in> bundle_policies M" using less.prems(1) by (auto simp: pol bundle_policies_def dest: map_of_SomeD)
  have ref: "settles ?N (on_bundle2 M) (\<lambda>k. addPolicy k X (policy_at s (pf_Mrn r)) s)"
    if g: "g \<in> set (po_Groups pol)" and r: "r \<in> set (pg_Policies g)" and s: "on_bundle M s" for g and r :: PolicyRef and s
  proof -
    from there [OF g r] obtain q where q: "map_get (bm_Policies M) (pf_Mrn r) = Some q" by blast
    have at: "policy_at s (pf_Mrn r) = q" using q s by (simp add: policy_at_def)
    show ?thesis unfolding at
      by (rule settles_mono [OF less.hyps [OF rank [OF g r] q s]]) (use rank [OF g r] in simp_all)
  qed
  have group: "settles ?N (on_bundle M) (\<lambda>k. go_bind (go_fold (\<lambda>b pRef.
                 go_bind (addPolicy k X (policy_at b (pf_Mrn pRef)) b) (\<lambda>(added, b).
                   if added then Inr (rb_addEdge (pf_Mrn pRef) (po_Mrn pol) (policy_edge_impact b (pf_Mrn pRef)) b)
                   else Inr b)) s (pg_Policies g)) (\<lambda>b.
             go_bind (go_fold (add_check k X (po_Mrn pol) (pg_Type g)) b (pg_Checks g)) (\<lambda>b.
             go_fold (add_data_query k X (po_Mrn pol) (pg_Type g)) b (pg_Queries g))))"
    if g: "g \<in> set (po_Groups pol)" and s: "on_bundle M s" for g s
    by (intro settles_bind [where Q = "on_bundle M"] settles_fold s add_check_settles [OF Q _ policy_groups(1) [OF bp]] settles_bind [OF ref [OF g]])
      (auto intro!: settles_Inr)
  have "settles ?N (\<lambda>_. True) (\<lambda>k. addPolicy (Suc k) X p b)"
  proof (cases "\<not> canRun (action_of b (po_Mrn pol)) \<or> \<not> anyFilterMatches b (po_ComputedFilters pol)")
    case True
    then have "addPolicy (Suc k) X (Some pol) b = Inr (False, b)" for k by (cases "canRun (action_of b (po_Mrn pol))") simp_all
    then show ?thesis by (simp add: pol settles_Inr)
  next
    case False
    let ?step = "\<lambda>k b g. go_bind (go_fold (\<lambda>b pRef.
                 go_bind (addPolicy k X (policy_at b (pf_Mrn pRef)) b) (\<lambda>(added, b).
                   if added then Inr (rb_addEdge (pf_Mrn pRef) (po_Mrn pol) (policy_edge_impact b (pf_Mrn pRef)) b)
                   else Inr b)) b (pg_Policies g)) (\<lambda>b.
             go_bind (go_fold (add_check k X (po_Mrn pol) (pg_Type g)) b (pg_Checks g)) (\<lambda>b.
             go_fold (add_data_query k X (po_Mrn pol) (pg_Type g)) b (pg_Queries g)))"
    have "settles ?N (\<lambda>_. True) (\<lambda>k. go_bind (go_fold (?step k) s gs) (\<lambda>b.
        let (b, foundRisk) = foldl (add_policy_risk X (po_Mrn pol)) (b, False) (po_RiskFactors pol)
        in Inr (gs \<noteq> [] \<or> foundRisk, b)))" if s: "on_bundle M s" and gs: "set gs \<subseteq> set (po_Groups pol)" for s gs
    proof (rule settles_bind [where Q = "on_bundle M", OF settles_fold])
      show "settles ?N (on_bundle M) (\<lambda>k. ?step k s g)" if "g \<in> set gs" and "on_bundle M s" for g s
        by (rule group) (use gs that in auto)
    qed (auto simp: s case_prod_beta Let_def intro!: settles_Inr)
    then show ?thesis unfolding pol using False less.prems(2)
      by (simp only: addPolicy.simps Let_def de_Morgan_disj not_not if_False not_True_eq_False) simp
  qed
  then show ?case unfolding add_Suc_right
  proof (intro settles_keeps [OF settles_Suc])
    fix k and r :: "bool \<times> resolvedPolicyBuilder" assume r: "addPolicy k X p b = Inr r"
    have "set_option p \<subseteq> bundle_policies M" by (simp add: pol bp)
    with in_bundle.addPolicy_keeps [of k X p b "fst r" "snd r" M] r less.prems(2) show "on_bundle2 M r" by simp
  qed
qed

lemma addFramework_settles:
  assumes F: "frameworks_ranked R M"
  shows "map_get (bm_Frameworks M) mrn = Some f \<Longrightarrow> on_bundle M b
    \<Longrightarrow> settles (Suc (rk_framework R mrn)) (on_bundle2 M) (\<lambda>k. addFramework k f b)"
proof (induction "rk_framework R mrn" arbitrary: mrn f b rule: less_induct)
  case less
  let ?N = "rk_framework R mrn"
  have fw: "f \<in> snd ` set (bm_Frameworks M)" using less.prems(1) by (auto dest!: map_of_SomeD intro: rev_image_eqI)
  have control: "settles ?N (on_bundle M) (\<lambda>k. add_framework_control owner s c)"
    if "owner \<noteq> None" and s: "on_bundle M s" and c: "cm_Mrn c \<in> group_mrns M" for owner s c
    using that in_bundle.addControl_keeps [OF s c]
    by (auto simp: add_framework_control_def intro!: settles_Inr split: prod.splits bool.splits)
  have maps: "settles ?N (on_bundle M) (\<lambda>k. go_fold (\<lambda>b fmap.
      go_fold (add_framework_control (fm_FrameworkOwner fmap)) b (fm_Controls fmap)) s (fw_FrameworkMaps f))"
    if s: "on_bundle M s" for s
    by (intro settles_fold s control) (use framework_rankedD(2) [OF F less.prems(1)] framework_groups(2) [OF fw] in auto)
  have deps: "settles ?N (on_bundle M) (\<lambda>k. go_fold (\<lambda>b dep. case map_get (bm_Frameworks (rb_bundleMap b)) dep of
                 None \<Rightarrow> Inr b
               | Some f' \<Rightarrow> go_bind (addFramework k f' b) (\<lambda>(added, b).
                   if added then Inr (rb_addEdge dep (fw_Mrn f) i b) else Inr b)) s (fw_Dependencies f))"
    if s: "on_bundle M s" for s i
  proof (rule settles_fold)
    fix d s assume d: "d \<in> set (fw_Dependencies f)" and s: "on_bundle M s"
    show "settles ?N (on_bundle M) (\<lambda>k. case map_get (bm_Frameworks (rb_bundleMap s)) d of
                 None \<Rightarrow> Inr s
               | Some f' \<Rightarrow> go_bind (addFramework k f' s) (\<lambda>(added, b).
                   if added then Inr (rb_addEdge d (fw_Mrn f) i b) else Inr b))"
    proof (cases "map_get (bm_Frameworks M) d")
      case (Some f')
      note rank = framework_rankedD(1) [OF F less.prems(1) d Some]
      have "settles ?N (on_bundle2 M) (\<lambda>k. addFramework k f' s)"
        by (rule settles_mono [OF less.hyps [OF rank Some s]]) (use rank in simp_all)
      then have "settles ?N (on_bundle M) (\<lambda>k. go_bind (addFramework k f' s) (\<lambda>(added, b).
                   if added then Inr (rb_addEdge d (fw_Mrn f) i b) else Inr b))"
        by (rule settles_bind) (auto intro!: settles_Inr)
      then show ?thesis by (simp add: s Some)
    qed (simp add: s settles_Inr)
  qed (rule s)
  have "settles ?N (\<lambda>_. True) (\<lambda>k. addFramework (Suc k) f b)"
  proof (cases "canRun (action_of b (fw_Mrn f))")
    case True
    show ?thesis using True
      by (simp only: addFramework.simps Let_def not_True_eq_False if_False)
        (intro settles_bind [OF maps] settles_bind [OF deps] settles_Inr TrueI; simp add: less.prems)
  qed (simp add: settles_Inr)
  then show ?case
    by (intro settles_keeps [OF settles_Suc]) (auto intro: in_bundle.addFramework_keeps [OF _ less.prems(2) fw])
qed

subsection \<open>Resolution as a whole\<close>

lemma resolver_graph_settles:
  assumes c: "complete_bundle R n M" and b: "on_bundle M b" and p: "map_get (bm_Policies M) mrn = Some p"
  shows "settles (Suc n + Suc (rk_policy R mrn) + Suc (rk_framework R mrn)) (on_bundle M) (\<lambda>k. resolver_graph k X mrn b)"
    (is "settles ?N _ _")
proof -
  from c have P: "policies_ranked R M" and Q: "queries_ranked R n M" and F: "frameworks_ranked R M"
    by (simp_all add: complete_bundle_def)
  have at: "policy_at b mrn = p" using b p by (simp add: policy_at_def)
  have s1: "settles ?N (on_bundle M) (\<lambda>k. gatherGlobalInfoFromPolicy k p b)"
    by (rule settles_mono [OF gatherPolicy_settles [OF P Q p b]]) simp_all
  have s2: "settles ?N (on_bundle M) (\<lambda>k. gatherGlobalInfoFromFramework k (map_get (bm_Frameworks M) mrn) x)" if x: "on_bundle M x" for x
  proof (cases "map_get (bm_Frameworks M) mrn")
    case None
    have "settles (Suc 0) (on_bundle M) (\<lambda>k. gatherGlobalInfoFromFramework k None x)" by (rule settles_Suc) (simp add: x settles_Inr)
    then show ?thesis unfolding None by (rule settles_mono) simp_all
  next
    case (Some f)
    show ?thesis unfolding Some by (rule settles_mono [OF gatherFramework_settles [OF F Some x]]) simp_all
  qed
  have s3: "settles ?N (\<lambda>_. True) (\<lambda>k. collectQueryTypes k x acc mrn)" if x: "on_bundle M x" for x acc
    by (rule settles_mono [OF collectQueryTypes_settles [OF P Q x p]]) simp_all
  have s4: "settles ?N (on_bundle2 M) (\<lambda>k. addPolicy k X p x)" if x: "on_bundle M x" for x
    by (rule settles_mono [OF addPolicy_settles [OF P Q p x]]) simp_all
  have s5: "settles ?N (on_bundle M) (\<lambda>k. case map_get (bm_Frameworks M) mrn of None \<Rightarrow> Inr x
      | Some f \<Rightarrow> go_bind (addFramework k f x) (\<lambda>(added, b). Inr b))" if x: "on_bundle M x" for x
  proof (cases "map_get (bm_Frameworks M) mrn")
    case (Some f)
    have "settles ?N (on_bundle2 M) (\<lambda>k. addFramework k f x)"
      by (rule settles_mono [OF addFramework_settles [OF F Some x]]) simp_all
    then have "settles ?N (on_bundle M) (\<lambda>k. go_bind (addFramework k f x) (\<lambda>(added, b). Inr b))"
      by (rule settles_bind) (auto intro!: settles_Inr)
    then show ?thesis by (simp add: Some)
  qed (simp add: x settles_Inr)
  show ?thesis unfolding resolver_graph_def Let_def at b
  proof (rule settles_bind [OF s1], rule settles_bind [OF s2], assumption)
    fix x :: resolvedPolicyBuilder assume x: "on_bundle M x"
    show "settles ?N (on_bundle M) (\<lambda>k. go_bind (collectQueryTypes k x (rb_queryTypes x) mrn) (\<lambda>types.
        go_bind (addPolicy k X p (x\<lparr>rb_queryTypes := types\<rparr>)) (\<lambda>(added, b).
        case map_get (bm_Frameworks M) mrn of None \<Rightarrow> Inr b | Some f \<Rightarrow> go_bind (addFramework k f b) (\<lambda>(added, b). Inr b))))"
    proof (rule settles_bind [OF s3 [OF x]], rule settles_bind [OF s4])
      show "on_bundle M (x\<lparr>rb_queryTypes := t\<rparr>)" for t using x by simp
      show "settles ?N (on_bundle M) (\<lambda>k. case s of (added, b) \<Rightarrow> (case map_get (bm_Frameworks M) mrn of None \<Rightarrow> Inr b
          | Some f \<Rightarrow> go_bind (addFramework k f b) (\<lambda>(added, b). Inr b)))"
        if "on_bundle2 M s" for s :: "bool \<times> resolvedPolicyBuilder"
        using that s5 [of "snd s"] by (simp add: case_prod_beta)
    qed
  qed
qed

text \<open>A deeper stack does not change what the walk returns.\<close>

lemma walk_deeper:
  "walk k build nodes edges n s = Inr r \<Longrightarrow> walk (Suc k) build nodes edges n s = Inr r"
  "walk_all k build nodes edges es s = Inr r' \<Longrightarrow> walk_all (Suc k) build nodes edges es s = Inr r'"
proof (induction k build nodes edges n s and k build nodes edges es s arbitrary: r and r' rule: walk_walk_all.induct)
  case (2 k build nodes edges nid n visited rp)
  show ?case
  proof (cases "nid \<in> set visited")
    case False
    with 2 show ?thesis by (cases "build n rp") auto
  qed (use 2 in simp)
next
  case (4 k build nodes edges e es s)
  show ?case
  proof (cases "nodes e")
    case (Some n)
    with 4(4) obtain r1 where w: "walk k build nodes edges (e, n) s = Inr r1"
      and r: "(case r1 of Inl err \<Rightarrow> Inr (Inl err) | Inr s \<Rightarrow> walk_all k build nodes edges es s) = Inr r'"
      by (auto simp: go_bind_Inr_iff)
    have "walk (Suc k) build nodes edges (e, n) s = Inr r1" by (rule 4(2) [OF Some w])
    moreover have "walk_all (Suc k) build nodes edges es t = Inr r'" if "r1 = Inr t" for t
      using 4(3) [OF Some] r that by simp
    ultimately show ?thesis using Some r by (cases r1) (auto simp del: walk.simps)
  qed (use 4 in simp)
qed simp_all

lemma walk_roots_deeper: "walk_roots k build nodes edges ns s = Inr r \<Longrightarrow> walk_roots (Suc k) build nodes edges ns s = Inr r"
proof (induction ns arbitrary: s)
  case (Cons n ns)
  then obtain r1 where w: "walk k build nodes edges n s = Inr r1"
    and r: "(case r1 of Inl err \<Rightarrow> Inr (Inl err) | Inr s \<Rightarrow> walk_roots k build nodes edges ns s) = Inr r"
    by (auto simp: go_bind_Inr_iff)
  then show ?case using Cons.IH walk_deeper(1) [OF w] by (cases r1) (auto simp del: walk.simps)
qed simp

lemma build_walk_settles:
  assumes "graph_ok b" and "set roots \<subseteq> set (rb_nodes b)"
  shows "settles (Suc (length (rb_nodes b))) (\<lambda>_. True) (\<lambda>k. build_walk k X d b roots rp)"
proof -
  let ?w = "\<lambda>k. build_walk k X d b roots rp"
  have "card (dom (map_get (rb_nodes b))) \<le> length (rb_nodes b)"
    using card_length [of "map fst (rb_nodes b)"] by (simp add: dom_map_of_conv_image_fst)
  then have "unvisited (map_get (rb_nodes b)) [] < Suc (length (rb_nodes b))" by (simp add: unvisited_def)
  moreover have "\<forall>n \<in> set roots. map_get (rb_nodes b) (fst n) = Some (snd n)"
    using assms by (auto simp: graph_ok_def map_get_Some_iff subset_iff)
  ultimately obtain r where r: "?w (Suc (length (rb_nodes b))) = Inr r"
    using walk_roots_returns [of "map_get (rb_nodes b)" "([], rp)" "Suc (length (rb_nodes b))" roots "node_build X d" "edges_from b"]
    by (auto simp: build_walk_def finite_dom_map_of)
  have "?w k = Inr r" if "Suc (length (rb_nodes b)) \<le> k" for k
    using that
  proof (induction rule: dec_induct)
    case (step m)
    from walk_roots_deeper [OF step.IH [unfolded build_walk_def]] show ?case by (simp add: build_walk_def)
  qed (rule r)
  then show ?thesis by (auto simp: settles_def)
qed

text \<open>C7: for a complete bundle without cyclic references there is a stack depth from which on resolution returns, and
  returns the same, whatever the compiler, the filters and the asset.\<close>

theorem resolution_returns:
  assumes c: "complete_bundle R n (ToMap props p)" and mrn: "has_key (bm_Policies (ToMap props p)) mrn"
  shows "\<exists>K r. \<forall>k \<ge> K. buildResolvedPolicy k X mrn p props impacts filters now = Inr r"
proof (cases "ex_Compile X disabledQuery_mql []")
  case (Inl e)
  then show ?thesis by (simp add: buildResolvedPolicy_def)
next
  case (Inr cb)
  let ?b = "initial_builder mrn (ToMap props p) props impacts filters now (disabledQuery (cb_Id cb))"
  from mrn obtain pol where "map_get (bm_Policies (ToMap props p)) mrn = Some pol" by (meson map_get_None_iff not_None_eq)
  from resolver_graph_settles [OF c _ this, of ?b X] obtain N b where b: "\<And>k. N \<le> k \<Longrightarrow> resolver_graph k X mrn ?b = Inr b"
    by (auto simp: settles_def initial_builder_def)
  have "graph_ok b" by (rule resolver_graph_ok [OF b [OF le_refl] graph_ok_initial])
  note walks = build_walk_settles [OF this non_prunables_nodes, of X]
  have "\<exists>r. \<forall>k \<ge> N + Suc (length (rb_nodes b)). buildResolvedPolicy k X mrn p props impacts filters now = Inr r"
  proof (cases "ChecksumAssetFilters X filters")
    case (Inl e)
    then show ?thesis using b Inr by (simp add: buildResolvedPolicy_def Let_def)
  next
    case fs: (Inr s)
    obtain fsum fl where s: "s = (fsum, fl)" by fastforce
    let ?es = "BundleExecutionChecksum X (policy_at ?b mrn) (map_get (bm_Frameworks (rb_bundleMap ?b)) mrn)"
    let ?d = "\<lparr>bd_baseChecksum = checksumStrings X [?es, fsum, ''v2''], bd_propsCache = rb_propsCache b\<rparr>"
    from walks [of ?d "empty_policy fl ?es fsum"] obtain w where
      w: "\<And>k. Suc (length (rb_nodes b)) \<le> k \<Longrightarrow> build_walk k X ?d b (non_prunables b) (empty_policy fl ?es fsum) = Inr w"
      by (auto simp: settles_def)
    have "buildResolvedPolicy k X mrn p props impacts filters now =
        Inr (case w of Inl e \<Rightarrow> Inl (ResolveError e) | Inr (visited, rp) \<Rightarrow> finish_policy X mrn b rp)"
      if k: "N + Suc (length (rb_nodes b)) \<le> k" for k
      using b [of k] w [of k] k by (simp add: buildResolvedPolicy_def Let_def Inr fs s split: sum.split prod.split)
    then show ?thesis by blast
  qed
  then show ?thesis by blast
qed

end
