(* ===== verification/Resolver_Queries.thy ===== *)
theory Resolver_Queries
  imports Resolver_Results
begin

text \<open>
  What a resolved policy executes: exactly the queries of the graph's execution nodes, each of which may run, and the
  properties they use.
\<close>

subsection \<open>Only what may run is in the graph\<close>

definition execs_runnable :: "resolvedPolicyBuilder \<Rightarrow> bool" where
  "execs_runnable b \<longleftrightarrow> (\<forall>nid q. (nid, ExecQueryNode q) \<in> set (rb_nodes b) \<longrightarrow> runnable b q)"

lemma runnable_steps [simp]:
  "runnable (rb_addEdge src tgt impact b) q = runnable b q" "runnable (rb_addNode n b) q = runnable b q"
  "runnable (b\<lparr>rb_riskDataQueryInfos := m\<rparr>) q = runnable b q"
  by (simp_all add: runnable_def action_of_def anyFilterMatches_def rb_addEdge_def rb_addNode_def)

lemma rb_nodes_steps [simp]:
  "rb_nodes (rb_addEdge src tgt impact b) = rb_nodes b" "rb_nodes (rb_addProps X ps b) = rb_nodes b"
  "rb_nodes (rb_addNode n b) = map_put (getId n) n (rb_nodes b)"
  by (simp_all add: rb_addEdge_def rb_addProps_def rb_addNode_def)

interpretation execs: graph_steps "\<lambda>b. execs_runnable b \<and> rb_bundleMap b = M" M for M
  by unfold_locales (auto simp: execs_runnable_def dest!: set_map_put)

interpretation empty_gather: gather_steps "\<lambda>b. rb_nodes b = [] \<and> rb_bundleMap b = M" for M
  by unfold_locales auto

lemma execs_runnable_empty: "rb_nodes b = [] \<Longrightarrow> execs_runnable b"
  by (simp add: execs_runnable_def)

lemma resolver_graph_runnable:
  assumes "resolver_graph k X mrn b = Inr b'" and "rb_nodes b = []"
  shows "execs_runnable b'"
proof -
  have "execs_runnable b' \<and> rb_bundleMap b' = rb_bundleMap b"
    by (rule resolver_graph_keeps [OF assms(1), where I = "\<lambda>x. rb_nodes x = [] \<and> rb_bundleMap x = rb_bundleMap b"
        and J = "\<lambda>x. execs_runnable x \<and> rb_bundleMap x = rb_bundleMap b"])
      (use assms(2) in \<open>auto intro: execs.graph_steps_axioms empty_gather.gather_steps_axioms simp: execs_runnable_empty\<close>)
  then show ?thesis ..
qed

subsection \<open>The queries that building adds\<close>

definition query_keys :: "ResolvedPolicy \<Rightarrow> string set" where
  "query_keys rp = fst ` set (xj_Queries (rpo_ExecutionJob rp))"

definition prop_codes :: "externals \<Rightarrow> PropsCache \<Rightarrow> string set" where
  "prop_codes X c = {pp_CodeId pr | mrn pr name. PropsCache_Get X c mrn = Some (pr, name)}"

fun exec_codes :: "rpBuilderNode \<Rightarrow> string set" where
  "exec_codes (ExecQueryNode q) = {mq_CodeId q}"
| "exec_codes _ = {}"

lemma query_keys_simps [simp]:
  "query_keys (on_collector f rp) = query_keys rp" "query_keys (on_jobs g rp) = query_keys rp"
  "query_keys (put_query c eq rp) = insert c (query_keys rp)" "query_keys (rp\<lparr>rpo_CollectorJob := cj\<rparr>) = query_keys rp"
  "query_keys (rp\<lparr>rpo_ReportingJobUuid := u\<rparr>) = query_keys rp"
  "query_keys (rp_addReportingJob q m u t a rp) = query_keys rp" "query_keys (refreshChecksums X rp) = query_keys rp"
  by (simp_all add: query_keys_def on_collector_def on_jobs_def put_query_def rp_addReportingJob_def refreshChecksums_def keys_put)

lemma compileProps_keys:
  "compileProps X d mrns s = Inr s' \<Longrightarrow> query_keys (snd (snd s)) \<subseteq> query_keys (snd (snd s'))
    \<and> query_keys (snd (snd s')) \<subseteq> query_keys (snd (snd s)) \<union> prop_codes X (bd_propsCache d)"
proof (induction X d mrns s rule: compileProps.induct)
  case (2 X d mrn mrns propTypes propToChecksums rp)
  from 2(2) obtain pr name where g: "PropsCache_Get X (bd_propsCache d) mrn = Some (pr, name)" "name \<noteq> []" "pp_CodeId pr \<noteq> []"
    by (auto split: option.splits if_splits)
  with 2(2) obtain eq dc cj where m: "mquery2executionQuery X (Property_like X pr) [] [] (rpo_CollectorJob rp) = Inr (eq, dc, cj)"
    and dc: "dc \<noteq> []" by (auto split: sum.splits if_splits)
  from g(1) have "pp_CodeId pr \<in> prop_codes X (bd_propsCache d)" by (auto simp: prop_codes_def)
  with 2(1) [OF g(1) refl g(2,3) m refl refl dc] 2(2) g m dc show ?case by auto
qed simp

lemma node_build_keys:
  assumes "node_build X d n rp = Inr rp'"
  shows "query_keys rp \<union> exec_codes n \<subseteq> query_keys rp'
    \<and> query_keys rp' \<subseteq> query_keys rp \<union> exec_codes n \<union> prop_codes X (bd_propsCache d)"
proof (cases n)
  case (ExecQueryNode q)
  with assms obtain pt pc rp1 eq dc cj where
    c: "compileProps X d (map (\<lambda>r. pp_Mrn (prop_at (bd_propsCache d) r)) (mq_Props q)) ([], [], rp) = Inr (pt, pc, rp1)"
    and keys: "query_keys rp' = insert (mq_CodeId q) (query_keys rp1)"
    by (auto simp: build_exec_def Let_def split: sum.splits)
  from compileProps_keys [OF c] keys show ?thesis unfolding ExecQueryNode by auto
next
  case (RiskFactorNode r m cs)
  have "query_keys (foldl (\<lambda>rp codeId. on_collector (f codeId) rp) rp0 cs) = query_keys rp0" for f rp0
    by (induction cs arbitrary: rp0) simp_all
  with assms RiskFactorNode show ?thesis by (auto simp: build_risk_def Let_def)
qed (use assms in \<open>auto simp: build_policy_def build_generic_def Let_def split: if_splits\<close>)

lemma build_list_keys:
  "build_list (node_build X d) ns rp = Inr rp' \<Longrightarrow> query_keys rp \<union> \<Union> (exec_codes ` set ns) \<subseteq> query_keys rp'
    \<and> query_keys rp' \<subseteq> query_keys rp \<union> \<Union> (exec_codes ` set ns) \<union> prop_codes X (bd_propsCache d)"
proof (induction ns arbitrary: rp)
  case (Cons n ns)
  from Cons.prems obtain rp1 where "node_build X d n rp = Inr rp1" "build_list (node_build X d) ns rp1 = Inr rp'"
    by (auto split: sum.splits)
  from node_build_keys [OF this(1)] Cons.IH [OF this(2)] show ?case by auto
qed simp

lemma add_risk_data_keys [simp]: "query_keys (add_risk_data infos rp) = query_keys rp"
proof -
  have "query_keys (foldl (\<lambda>rp (riskMrn, refs).
     let info = risk_data_info (xj_Queries (rpo_ExecutionJob rp)) refs in
     if info = [] then rp
     else on_collector (\<lambda>cj. cj\<lparr>cj_RiskDataQueries := map_put riskMrn info (cj_RiskDataQueries cj)\<rparr>) rp) rp0 xs) = query_keys rp0" for rp0 xs
    by (induction xs arbitrary: rp0) (simp_all add: Let_def split: prod.split)
  then show ?thesis by (simp add: add_risk_data_def)
qed

lemma finish_policy_keys: "finish_policy X mrn b rp = Inr rp' \<Longrightarrow> query_keys rp' = query_keys rp"
  by (auto simp: finish_policy_def Let_def split: sum.splits option.splits)

lemma build_walk_keys:
  assumes g: "graph_ok b" and w: "build_walk k X d b (non_prunables b) rp = Inr (Inr (V, rp'))"
    and e: "rp_jobs rp = []" "query_keys rp = {}"
  shows "\<And>nid q. (nid, ExecQueryNode q) \<in> set (rb_nodes b) \<Longrightarrow> mq_CodeId q \<in> query_keys rp'"
    and "\<And>c. c \<in> query_keys rp' \<Longrightarrow> c \<in> prop_codes X (bd_propsCache d) \<or> (\<exists>nid q. (nid, ExecQueryNode q) \<in> set (rb_nodes b) \<and> mq_CodeId q = c)"
proof -
  note walk = build_walk_fresh [OF g non_prunables_nodes w e(1)]
  let ?ns = "map (the \<circ> map_get (rb_nodes b)) (rev V)"
  have keys: "\<Union> (exec_codes ` set ?ns) \<subseteq> query_keys rp'"
    "query_keys rp' \<subseteq> \<Union> (exec_codes ` set ?ns) \<union> prop_codes X (bd_propsCache d)"
    using build_list_keys [OF walk(3)] e(2) by auto
  have get: "(nid, n) \<in> set (rb_nodes b) \<longleftrightarrow> map_get (rb_nodes b) nid = Some n" for nid n
    using g by (simp add: graph_ok_def map_get_Some_iff)
  show "mq_CodeId q \<in> query_keys rp'" if q: "(nid, ExecQueryNode q) \<in> set (rb_nodes b)" for nid q
  proof -
    have "(nid, ExecQueryNode q) \<in> set (non_prunables b)" using q by (simp add: non_prunables_def)
    then have "nid \<in> set V" unfolding walk(2) by (auto simp: node_ids_def intro!: reachable.root rev_image_eqI)
    moreover have "the (map_get (rb_nodes b) nid) = ExecQueryNode q" using q get by (metis option.sel)
    ultimately have "ExecQueryNode q \<in> set ?ns" unfolding set_map set_rev by (metis comp_apply image_eqI)
    then have "mq_CodeId q \<in> \<Union> (exec_codes ` set ?ns)" by (metis UN_I exec_codes.simps(1) singletonI)
    then show ?thesis using keys(1) by blast
  qed
  show "c \<in> prop_codes X (bd_propsCache d) \<or> (\<exists>nid q. (nid, ExecQueryNode q) \<in> set (rb_nodes b) \<and> mq_CodeId q = c)"
    if c: "c \<in> query_keys rp'" for c
  proof (cases "c \<in> prop_codes X (bd_propsCache d)")
    case False
    with c keys(2) obtain n where n: "n \<in> set ?ns" "c \<in> exec_codes n" by blast
    then obtain nid where nid: "nid \<in> set V" "n = the (map_get (rb_nodes b) nid)" by auto
    have "map_get (rb_nodes b) nid \<noteq> None"
      using nid(1) unfolding walk(2) mem_Collect_eq
      by cases (auto simp: node_ids_def non_prunables_def map_get_None_iff)
    then have "(nid, n) \<in> set (rb_nodes b)" using nid(2) by (auto simp: get)
    with n(2) show ?thesis by (cases n) auto
  qed simp
qed

text \<open>C8: the queries of a resolved policy are exactly those of the execution nodes of its graph, up to the properties
  they use, and each of them supports the asset and either is not deactivated or belongs to a risk factor of the bundle;
  a deactivated query is replaced by the placeholder.\<close>

theorem executed_queries_runnable:
  assumes "buildResolvedPolicy k X mrn p props impacts filters now = Inr (Inr rp)"
  shows "\<exists>b cb. ex_Compile X disabledQuery_mql [] = Inr cb
    \<and> resolver_graph k X mrn (initial_builder mrn (ToMap props p) props impacts filters now (disabledQuery (cb_Id cb))) = Inr b
    \<and> (\<forall>c. has_key (xj_Queries (rpo_ExecutionJob rp)) c \<longrightarrow> c \<in> prop_codes X (rb_propsCache b)
        \<or> (\<exists>nid q. (nid, ExecQueryNode q) \<in> set (rb_nodes b) \<and> mq_CodeId q = c))
    \<and> (\<forall>nid q. (nid, ExecQueryNode q) \<in> set (rb_nodes b) \<longrightarrow> has_key (xj_Queries (rpo_ExecutionJob rp)) (mq_CodeId q)
        \<and> (q = disabledQuery (cb_Id cb) \<or> anyFilterMatches b (mq_Filters q)
             \<and> (canRun (action_of b (mq_Mrn q)) \<or> q \<in> risk_queries (ToMap props p))))"
proof -
  from buildResolvedPolicy_steps [OF assms] obtain cb :: compiled and b d V rp0 fs es fsum where
    cb: "ex_Compile X disabledQuery_mql [] = Inr cb"
    and b: "resolver_graph k X mrn (initial_builder mrn (ToMap props p) props impacts filters now (disabledQuery (cb_Id cb))) = Inr b"
    and w: "build_walk k X d b (non_prunables b) (empty_policy fs es fsum) = Inr (Inr (V, rp0))"
    and f: "finish_policy X mrn b rp0 = Inr rp" and d: "bd_propsCache d = rb_propsCache b" by blast
  let ?b0 = "initial_builder mrn (ToMap props p) props impacts filters now (disabledQuery (cb_Id cb))"
  have ok: "graph_ok b" by (rule resolver_graph_ok [OF b graph_ok_initial])
  have "query_keys (empty_policy fs es fsum) = {}" by (simp add: query_keys_def empty_policy_def)
  note keys = build_walk_keys [OF ok w rp_jobs_empty this, unfolded d, folded finish_policy_keys [OF f], unfolded query_keys_def]
  have conf: "rb_bundleMap b = ToMap props p \<and> rb_disabledQuery b = disabledQuery (cb_Id cb)"
    by (rule resolver_graph_keeps [OF b, where I = "\<lambda>x. rb_bundleMap x = ToMap props p \<and> rb_disabledQuery x = disabledQuery (cb_Id cb)"])
      (auto simp: initial_builder_def rb_addEdge_def rb_addNode_def rb_addProps_def intro!: gather_steps.intro graph_steps.intro)
  have "execs_runnable b" by (rule resolver_graph_runnable [OF b]) (simp add: initial_builder_def)
  then have "runnable b q" if "(nid, ExecQueryNode q) \<in> set (rb_nodes b)" for nid q
    using that by (auto simp: execs_runnable_def)
  then have "q = disabledQuery (cb_Id cb) \<or> anyFilterMatches b (mq_Filters q)
      \<and> (canRun (action_of b (mq_Mrn q)) \<or> q \<in> risk_queries (ToMap props p))" if "(nid, ExecQueryNode q) \<in> set (rb_nodes b)" for nid q
    using that conf by (simp add: runnable_def)
  with cb b keys show ?thesis by blast
qed

end
