(* ===== verification/Resolver_Sample.thy ===== *)
theory Resolver_Sample
  imports Resolver_Returns Resolver_Queries
begin

text \<open>Concrete cases of the results about policy resolution.\<close>

text \<open>The bundle of the concrete cases: a policy with a check and a risk factor, compiled by a small compiler.\<close>

definition sample_fnv :: "64 word \<Rightarrow> string \<Rightarrow> 64 word" where
  "sample_fnv h s = of_nat (length s)"

definition sample_code :: "string \<Rightarrow> compiled" where
  "sample_code mql = \<lparr>cb_Id = mql, cb_MinMondooVersion = '''', cb_Checksums = [(1, ''dp'' @ mql)], cb_Entrypoints = [1],
     cb_Datapoints = [], cb_Props = [], cb_Blocks = []\<rparr>"

definition sample_externals :: externals where
  "sample_externals = \<lparr>ex_Compile = (\<lambda>mql props. Inr (sample_code (take 8 mql))), ex_DerefType = (\<lambda>c r. ''bool''), ex_Refresh = Inr,
     ex_GetResource = (\<lambda>mrn r. Some mrn),
     ex_String = (\<lambda>f. concat (map (\<lambda>p. case p of SumStr s \<Rightarrow> s | SumUint w \<Rightarrow> ''#'') f)),
     ex_fnv_init = 0, ex_fnv = sample_fnv, ex_FastValue = (\<lambda>f. of_nat (length f))\<rparr>"

definition sample_query :: "string \<Rightarrow> string \<Rightarrow> Mquery" where
  "sample_query mrn mql = \<lparr>mq_Query = '''', mq_Mql = mql, mq_CodeId = mql, mq_Checksum = ''s'' @ mql, mq_Mrn = mrn, mq_Title = '''',
     mq_Desc = '''', mq_Impact = None, mq_Filters = None, mq_Props = [], mq_Variants = [], mq_Action = Action_UNSPECIFIED\<rparr>"

definition sample_risk :: PolicyRiskFactor where
  "sample_risk = \<lparr>rf_Mrn = ''//rrr'', rf_Scope = SOFTWARE, rf_DeprecatedV11Magnitude = 0, rf_DeprecatedV11IsAbsolute = False,
     rf_Magnitude = None, rf_Software = [], rf_Resources = [], prf_Filters = None, prf_Checks = [sample_query ''//rc'' ''dd''],
     prf_Queries = [], prf_Action = Action_UNSPECIFIED\<rparr>"

definition sample_group :: "GroupType \<Rightarrow> Mquery list \<Rightarrow> Mquery list \<Rightarrow> PolicyGroup" where
  "sample_group t checks queries = \<lparr>pg_Policies = [], pg_Checks = checks, pg_Queries = queries, pg_Type = t, pg_Filters = None,
     pg_EndDate = 0, pg_Valid = None, pg_ReviewStatus = NOT_REVIEWED\<rparr>"

definition sample_policy :: "PolicyGroup list \<Rightarrow> Policy" where
  "sample_policy gs = \<lparr>po_Mrn = ''//p'', po_Uid = '''', po_Version = '''', po_Groups = gs, po_ScoringSystem = WORST, po_Props = [],
     po_RiskFactors = [sample_risk], po_GraphExecutionChecksum = ''gggggg'', po_ComputedFilters = None\<rparr>"

definition sample_bundle :: Bundle where
  "sample_bundle = \<lparr>bu_OwnerMrn = ''//o'', bu_Policies = [sample_policy [sample_group CHAPTER [sample_query ''//qq'' ''c''] []]],
     bu_Frameworks = [], bu_Queries = [sample_query ''//qq'' ''c''], bu_Props = []\<rparr>"

lemma sample_resolves:
  "(case buildResolvedPolicy 5 sample_externals ''//p'' sample_bundle [] [] [] 0 of Inr (Inr rp) \<Rightarrow>
     length (rp_jobs rp) = 5 \<and> map fst (xj_Queries (rpo_ExecutionJob rp)) = [''c'', ''dd''] | _ \<Rightarrow> False)"
  by code_simp

lemma sample_resolved:
  obtains rp where "buildResolvedPolicy 5 sample_externals ''//p'' sample_bundle [] [] [] 0 = Inr (Inr rp)"
    and "length (rp_jobs rp) = 5"
proof (cases "buildResolvedPolicy 5 sample_externals ''//p'' sample_bundle [] [] [] 0")
  case (Inl e)
  with sample_resolves show thesis by (simp only: sum.case)
next
  case (Inr r)
  with sample_resolves that show thesis by (cases r) (simp_all only: sum.case)
qed

theorem resolved_jobs_in_sync_witness:
  "\<exists>rp. buildResolvedPolicy 5 sample_externals ''//p'' sample_bundle [] [] [] 0 = Inr (Inr rp) \<and> length (rp_jobs rp) = 5 \<and> map_ok (rp_jobs rp)
    \<and> (\<forall>u j. map_get (rp_jobs rp) u = Some j \<longrightarrow> pj_Uuid j = u \<and> distinct (pj_Notify j)
    \<and> (\<forall>v. v \<in> set (pj_Notify j) \<longleftrightarrow> (\<exists>parentJob. map_get (rp_jobs rp) v = Some parentJob \<and> has_key (pj_ChildJobs parentJob) u)))"
proof -
  obtain rp where r: "buildResolvedPolicy 5 sample_externals ''//p'' sample_bundle [] [] [] 0 = Inr (Inr rp)"
    and l: "length (rp_jobs rp) = 5" by (rule sample_resolved)
  from resolved_jobs_in_sync [OF r] r l show ?thesis by blast
qed

theorem executed_queries_runnable_witness:
  "\<exists>rp. buildResolvedPolicy 5 sample_externals ''//p'' sample_bundle [] [] [] 0 = Inr (Inr rp) \<and>
   (\<exists>b cb. ex_Compile sample_externals disabledQuery_mql [] = Inr cb
    \<and> resolver_graph 5 sample_externals ''//p''
        (initial_builder ''//p'' (ToMap [] sample_bundle) [] [] [] 0 (disabledQuery (cb_Id cb))) = Inr b
    \<and> (\<forall>c. has_key (xj_Queries (rpo_ExecutionJob rp)) c \<longrightarrow> c \<in> prop_codes sample_externals (rb_propsCache b)
        \<or> (\<exists>nid q. (nid, ExecQueryNode q) \<in> set (rb_nodes b) \<and> mq_CodeId q = c))
    \<and> (\<forall>nid q. (nid, ExecQueryNode q) \<in> set (rb_nodes b) \<longrightarrow> has_key (xj_Queries (rpo_ExecutionJob rp)) (mq_CodeId q)
        \<and> (q = disabledQuery (cb_Id cb) \<or> anyFilterMatches b (mq_Filters q)
             \<and> (canRun (action_of b (mq_Mrn q)) \<or> q \<in> risk_queries (ToMap [] sample_bundle)))))"
proof -
  obtain rp where r: "buildResolvedPolicy 5 sample_externals ''//p'' sample_bundle [] [] [] 0 = Inr (Inr rp)" by (rule sample_resolved)
  show ?thesis by (rule exI [of _ rp], rule conjI [OF r executed_queries_runnable [OF r]])
qed

lemma sample_complete:
  "complete_bundle \<lparr>rk_policy = \<lambda>_. 0, rk_query = \<lambda>_. 0, rk_framework = \<lambda>_. 0\<rparr> 1 (ToMap [] sample_bundle)"
  by (simp add: complete_bundle_def policies_ranked_def queries_ranked_def frameworks_ranked_def ToMap_def put_all_def
      sample_bundle_def sample_policy_def sample_group_def sample_query_def NewPolicyBundleMap_def)

theorem resolution_returns_witness:
  "\<exists>K r. \<forall>k \<ge> K. buildResolvedPolicy k sample_externals ''//p'' sample_bundle [] [] [] 0 = Inr r"
  by (rule resolution_returns [OF sample_complete])
    (simp add: ToMap_def put_all_def sample_bundle_def sample_policy_def NewPolicyBundleMap_def)

end
