(* ===== verification/Collector_Results.thy ===== *)
theory Collector_Results
  imports Collector Resolver_Sample Node_Results
begin

text \<open>
  What a buffered collector delivers, for every sequence of events: the latest data and the latest scores, whatever the
  timer does; and what depends on the timer. A resolved policy is a valid collector job and wires the collector without
  a panic. The last section evaluates the theorems on concrete runs.
\<close>

subsection \<open>The latest value of a key\<close>

definition latest :: "('a \<Rightarrow> 'k) \<Rightarrow> 'k \<Rightarrow> 'a list \<Rightarrow> 'a option" where
  "latest key q xs = List.find (\<lambda>x. key x = q) (rev xs)"

lemma latest_simps [simp]:
  "latest key q [] = None" "latest key q (xs @ [x]) = (if key x = q then Some x else latest key q xs)"
  by (simp_all add: latest_def)

lemma latest_append: "latest key q (xs @ ys) = (case latest key q ys of None \<Rightarrow> latest key q xs | Some y \<Rightarrow> Some y)"
  by (induction ys rule: rev_induct) (simp_all flip: append_assoc)

lemma latest_map: "(\<And>x. key' (f x) = key x) \<Longrightarrow> latest key' q (map f xs) = map_option f (latest key q xs)"
  by (induction xs rule: rev_induct) simp_all

lemma latest_filter: "latest key q (filter (\<lambda>x. P (key x)) xs) = (if P q then latest key q xs else None)"
  by (induction xs rule: rev_induct) auto

text \<open>A buffer that is keyed by what it holds, and holds the latest of what was put into it.\<close>

definition keyed :: "('a \<Rightarrow> 'k) \<Rightarrow> ('k, 'a) gomap \<Rightarrow> bool" where
  "keyed key m \<longleftrightarrow> map_ok m \<and> (\<forall>(k, x) \<in> set m. key x = k)"

lemma keyed_Nil [simp]: "keyed key []"
  by (simp add: keyed_def)

lemma keyed_put: "keyed key m \<Longrightarrow> keyed key (map_put (key x) x m)"
  by (auto simp: keyed_def dest!: set_map_put)

lemma keyed_puts: "keyed key m \<Longrightarrow> keyed key (foldl (\<lambda>m x. map_put (key x) x m) m xs)"
  by (rule foldl_inv [where I = "keyed key"]) (simp_all add: keyed_put)

lemma get_puts: "map_get (foldl (\<lambda>m x. map_put (key x) x m) m xs) q
    = (case latest key q xs of None \<Rightarrow> map_get m q | Some x \<Rightarrow> Some x)"
  by (induction xs rule: rev_induct) auto

lemma latest_keyed:
  assumes "keyed key m"
  shows "latest key q (map snd m) = map_get m q"
  using assms
proof (induction m rule: rev_induct)
  case (snoc x m)
  then have ih: "latest key q (map snd m) = map_get m q" and x: "key (snd x) = fst x" "\<not> has_key m (fst x)"
    by (auto simp: keyed_def map_ok_def)
  have "map_get m q = None" if "q = fst x" using x(2) that by (simp add: map_get_None_iff)
  with ih x(1) show ?case by (cases x) (auto simp: map_add_def split: option.splits)
qed simp

subsection \<open>What was sunk\<close>

primrec sunk_scores_of :: "'v sink_event \<Rightarrow> Score list" where
  "sunk_scores_of (EvData rs) = []"
| "sunk_scores_of (EvScores ss) = ss"
| "sunk_scores_of EvTick = []"

primrec sunk_data_of :: "'v sink_event \<Rightarrow> 'v RawResult list" where
  "sunk_data_of (EvData rs) = rs"
| "sunk_data_of (EvScores ss) = []"
| "sunk_data_of EvTick = []"

definition scores_of_events :: "'v sink_event list \<Rightarrow> Score list" where
  "scores_of_events evs = concat (map sunk_scores_of evs)"

definition data_of_events :: "'v sink_event list \<Rightarrow> 'v RawResult list" where
  "data_of_events evs = concat (map sunk_data_of evs)"

lemma sunk_snoc [simp]:
  "scores_of_events [] = []" "scores_of_events (evs @ [e]) = scores_of_events evs @ sunk_scores_of e"
  "data_of_events [] = []" "data_of_events (evs @ [e]) = data_of_events evs @ sunk_data_of e"
  by (simp_all add: scores_of_events_def data_of_events_def)

definition events :: "'v sink_env \<Rightarrow> string \<Rightarrow> 'v BufferedCollector \<Rightarrow> 'v sink_event list \<Rightarrow> StoreResultsReq list \<times> 'v BufferedCollector" where
  "events S mrn c evs = foldl (collector_event S mrn) ([], c) evs"

lemma events_snoc [simp]: "events S mrn c [] = ([], c)" "events S mrn c (evs @ [e]) = collector_event S mrn (events S mrn c evs) e"
  by (simp_all add: events_def)

text \<open>Which scores are sent: those not consumed as a risk, and those another job needs.\<close>

definition kept :: "'v BufferedCollector \<Rightarrow> string \<Rightarrow> bool" where
  "kept c q \<longleftrightarrow> map_get (bc_riskMRNs c) q = None \<or> map_get (bc_keepQrIds c) q = Some True"

lemma keep_scores_fst: "fst (foldl (keep_score c) (scores, risks) ss) = scores @ filter (\<lambda>s. kept c (sc_QrId s)) ss"
  by (induction ss arbitrary: scores risks)
    (auto simp: keep_score_def consumeRisk_def kept_def Let_def split: option.splits)

lemma drain_simps [simp]:
  "fst (drain c) = map snd (bc_results c)" "bc_results (snd (drain c)) = []" "bc_scores (snd (drain c)) = []"
  "bc_runScores (snd (drain c)) = bc_runScores c @ filter (\<lambda>s. kept c (sc_QrId s)) (map snd (bc_scores c))"
  "bc_risksIdx (snd (drain c)) = snd (foldl (keep_score c) (bc_runScores c, bc_risksIdx c) (map snd (bc_scores c)))"
  "bc_riskMRNs (snd (drain c)) = bc_riskMRNs c" "bc_keepQrIds (snd (drain c)) = bc_keepQrIds c" "bc_policy (snd (drain c)) = bc_policy c"
  using keep_scores_fst [of c "bc_runScores c" "bc_risksIdx c" "map snd (bc_scores c)"]
  by (cases "foldl (keep_score c) (bc_runScores c, bc_risksIdx c) (map snd (bc_scores c))"; simp add: drain_def)+

lemma kept_cong: "bc_riskMRNs c' = bc_riskMRNs c \<Longrightarrow> bc_keepQrIds c' = bc_keepQrIds c \<Longrightarrow> kept c' = kept c"
  by (simp add: kept_def fun_eq_iff)

lemma run_pass_tick: "snd (run_pass S mrn False c) = snd (drain c)"
  "fst (run_pass S mrn False c) = (if bc_results c = [] then [] else Sink S mrn (map snd (bc_results c)) [] [] False)"
  by (simp_all add: run_pass_def split: prod.split) (auto dest: arg_cong [of _ _ fst])

lemma run_pass_done: "fst (run_pass S mrn True c) = (if bc_results c = [] then [] else Sink S mrn (map snd (bc_results c)) [] [] False)
    @ Sink S mrn [] (snd (updateRiskScores S (bc_policy c) (bc_runScores (snd (drain c))) (listScoredRisks (bc_risksIdx (snd (drain c))))))
        (listScoredRisks (bc_risksIdx (snd (drain c)))) True"
proof -
  obtain rs d where d: "drain c = (rs, d)" by fastforce
  have "rs = map snd (bc_results c)" "bc_policy d = bc_policy c" using drain_simps(1,8) [of c] d by simp_all
  then show ?thesis unfolding run_pass_def by (simp add: d case_prod_beta Let_def)
qed

lemma SinkData_simps [simp]:
  "bc_results (SinkData rs c) = foldl (\<lambda>m rr. map_put (rr_CodeID rr) rr m) (bc_results c) rs"
  "bc_scores (SinkData rs c) = bc_scores c" "bc_runScores (SinkData rs c) = bc_runScores c" "bc_risksIdx (SinkData rs c) = bc_risksIdx c"
  "bc_riskMRNs (SinkData rs c) = bc_riskMRNs c" "bc_keepQrIds (SinkData rs c) = bc_keepQrIds c" "bc_policy (SinkData rs c) = bc_policy c"
  by (simp_all add: SinkData_def)

lemma SinkScore_simps [simp]:
  "bc_scores (SinkScore ss c) = foldl (\<lambda>m s. map_put (sc_QrId s) s m) (bc_scores c) ss"
  "bc_results (SinkScore ss c) = bc_results c" "bc_runScores (SinkScore ss c) = bc_runScores c" "bc_risksIdx (SinkScore ss c) = bc_risksIdx c"
  "bc_riskMRNs (SinkScore ss c) = bc_riskMRNs c" "bc_keepQrIds (SinkScore ss c) = bc_keepQrIds c" "bc_policy (SinkScore ss c) = bc_policy c"
  by (simp_all add: SinkScore_def)

definition fresh_collector :: "'v BufferedCollector \<Rightarrow> bool" where
  "fresh_collector c \<longleftrightarrow> bc_results c = [] \<and> bc_scores c = [] \<and> bc_runScores c = [] \<and> bc_risksIdx c = []"

text \<open>The state after any events: the indexes are as they were, the buffers are keyed, and the latest score of a key is
  the latest in the buffer or else in what the goroutine has taken.\<close>

lemma events_state:
  assumes c: "fresh_collector c" and e: "events S mrn c evs = (sent, d)"
  shows "bc_riskMRNs d = bc_riskMRNs c" "bc_keepQrIds d = bc_keepQrIds c" "bc_policy d = bc_policy c"
    and "keyed rr_CodeID (bc_results d)" and "keyed sc_QrId (bc_scores d)"
    and "latest sc_QrId q (bc_runScores d @ filter (\<lambda>s. kept c (sc_QrId s)) (map snd (bc_scores d)))
      = (if kept c q then latest sc_QrId q (scores_of_events evs) else None)"
proof -
  have "bc_riskMRNs d = bc_riskMRNs c \<and> bc_keepQrIds d = bc_keepQrIds c \<and> bc_policy d = bc_policy c
    \<and> keyed rr_CodeID (bc_results d) \<and> keyed sc_QrId (bc_scores d)
    \<and> latest sc_QrId q (bc_runScores d @ filter (\<lambda>s. kept c (sc_QrId s)) (map snd (bc_scores d)))
      = (if kept c q then latest sc_QrId q (scores_of_events evs) else None)"
    using e
  proof (induction evs arbitrary: sent d rule: rev_induct)
    case (snoc ev evs)
    obtain sent0 d0 where d0: "events S mrn c evs = (sent0, d0)" by fastforce
    note ih = snoc.IH [OF d0]
    have kc: "kept d0 = kept c" using ih by (intro kept_cong) simp_all
    show ?case
    proof (cases ev)
      case (EvData rs)
      with snoc.prems d0 have "d = SinkData rs d0" by simp
      with ih EvData show ?thesis by (simp add: keyed_puts)
    next
      case (EvScores ss)
      with snoc.prems d0 have d: "d = SinkScore ss d0" by simp
      have k0: "keyed sc_QrId (bc_scores d0)" using ih by simp
      have k: "keyed sc_QrId (bc_scores d)" using ih by (simp add: d keyed_puts)
      have "latest sc_QrId q (bc_runScores d @ filter (\<lambda>s. kept c (sc_QrId s)) (map snd (bc_scores d)))
        = (case (if kept c q then map_get (bc_scores d) q else None) of None \<Rightarrow> latest sc_QrId q (bc_runScores d) | Some y \<Rightarrow> Some y)"
        by (simp add: latest_append latest_filter latest_keyed [OF k])
      moreover have "latest sc_QrId q (bc_runScores d0 @ filter (\<lambda>s. kept c (sc_QrId s)) (map snd (bc_scores d0)))
        = (case (if kept c q then map_get (bc_scores d0) q else None) of None \<Rightarrow> latest sc_QrId q (bc_runScores d0) | Some y \<Rightarrow> Some y)"
        by (simp add: latest_append latest_filter latest_keyed [OF k0])
      moreover have "bc_runScores d = bc_runScores d0" "bc_riskMRNs d = bc_riskMRNs d0" "bc_keepQrIds d = bc_keepQrIds d0"
        "bc_policy d = bc_policy d0" "bc_results d = bc_results d0"
        "map_get (bc_scores d) q = (case latest sc_QrId q ss of None \<Rightarrow> map_get (bc_scores d0) q | Some x \<Rightarrow> Some x)"
        by (simp_all add: d get_puts)
      ultimately show ?thesis using ih k EvScores
        by (cases "kept c q"; cases "latest sc_QrId q ss"; cases "map_get (bc_scores d0) q") (simp_all add: latest_append)
    next
      case EvTick
      with snoc.prems d0 have "d = snd (drain d0)"
        by (cases "run_pass S mrn False d0") (auto simp flip: run_pass_tick(1) [of S mrn])
      with ih EvTick kc show ?thesis by simp
    qed
  qed (use c in \<open>simp add: fresh_collector_def\<close>)
  then show "bc_riskMRNs d = bc_riskMRNs c" "bc_keepQrIds d = bc_keepQrIds c" "bc_policy d = bc_policy c"
    and "keyed rr_CodeID (bc_results d)" and "keyed sc_QrId (bc_scores d)"
    and "latest sc_QrId q (bc_runScores d @ filter (\<lambda>s. kept c (sc_QrId s)) (map snd (bc_scores d)))
      = (if kept c q then latest sc_QrId q (scores_of_events evs) else None)" by simp_all
qed

subsection \<open>Delivery of scores\<close>

lemma AdjustRiskScore_core:
  "AdjustRiskScore a (Some s) rss = Some s' \<Longrightarrow> sc_QrId s' = sc_QrId s \<and> sc_Value s' = sc_Value s \<and> sc_Type s' = sc_Type s
     \<and> sc_Message s' = sc_Message s \<and> sc_Weight s' = sc_Weight s \<and> sc_ScoreCompletion s' = sc_ScoreCompletion s
     \<and> sc_DataTotal s' = sc_DataTotal s \<and> sc_DataCompletion s' = sc_DataCompletion s"
proof -
  define core where "core = (\<lambda>s :: Score. (sc_QrId s, sc_Value s, sc_Type s, sc_Message s, sc_Weight s, sc_ScoreCompletion s, sc_DataTotal s, sc_DataCompletion s))"
  have step: "core (RiskFactor_AdjustRiskScore a r s d) = core s" for r s d
    by (simp add: RiskFactor_AdjustRiskScore_def append_risk_def core_def Let_def)
  have "core (foldl (\<lambda>s risk. RiskFactor_AdjustRiskScore a (fst risk) s (sr_IsDetected (snd risk))) s rs) = core s" for s and rs :: "ScoredRiskInfo list"
    by (induction rs arbitrary: s) (simp_all add: step)
  moreover assume "AdjustRiskScore a (Some s) rss = Some s'"
  ultimately have "core s' = core s" by (auto simp: AdjustRiskScore_def Let_def core_def split: if_splits)
  then show ?thesis by (simp add: core_def)
qed

definition score_core :: "Score \<Rightarrow> Score" where
  "score_core s = s\<lparr>sc_RiskScore := 0, sc_RiskFactors := None\<rparr>"

lemma updateRiskScores_core:
  "map score_core (snd (updateRiskScores S rp scores risks)) = map score_core scores"
proof -
  have "score_core (the (AdjustRiskScore a (Some s) rss)) = score_core s" for a s rss
  proof -
    obtain s' where s': "AdjustRiskScore a (Some s) rss = Some s'" by (auto simp: AdjustRiskScore_def)
    from AdjustRiskScore_core [OF s'] show ?thesis by (simp add: s' score_core_def)
  qed
  then show ?thesis by (simp add: updateRiskScores_def Let_def split: prod.split)
qed

lemma Sink_scores: "concat (map req_Scores (Sink S mrn results scores risks isDone)) = scores"
  by (auto simp: Sink_def data_request_def)

lemma events_no_scores: "\<forall>r \<in> set (fst (events S mrn c evs)). req_Scores r = [] \<and> \<not> req_IsLastBatch r"
proof (induction evs rule: rev_induct)
  case (snoc e evs)
  obtain sent d where "events S mrn c evs = (sent, d)" by fastforce
  with snoc show ?case by (cases e) (auto simp: run_pass_tick Sink_def data_request_def split: if_splits)
qed simp

text \<open>The passes of the goroutine, with the last one written out.\<close>

lemma collector_run_eq:
  assumes c: "fresh_collector c" and e: "events S mrn c evs = (sent, d)"
  shows "collector_run S mrn c evs = sent
    @ (if bc_results d = [] then [] else Sink S mrn (map snd (bc_results d)) [] [] False)
    @ Sink S mrn [] (snd (updateRiskScores S (bc_policy c) (bc_runScores (snd (drain d))) (listScoredRisks (bc_risksIdx (snd (drain d))))))
        (listScoredRisks (bc_risksIdx (snd (drain d)))) True"
  using e events_state(3) [OF c e]
  by (simp add: collector_run_def FlushAndStop_def run_pass_done flip: events_def)

lemma delivered_scores:
  assumes "fresh_collector c"
  shows "latest sc_QrId q (map score_core (concat (map req_Scores (collector_run S mrn c evs))))
    = (if kept c q then map_option score_core (latest sc_QrId q (scores_of_events evs)) else None)"
proof -
  obtain sent d where e: "events S mrn c evs = (sent, d)" by fastforce
  have k: "kept d = kept c" by (rule kept_cong) (simp_all add: events_state(1,2) [OF assms e])
  have none: "concat (map req_Scores sent) = []" using events_no_scores [of S mrn c evs] e by simp
  have "concat (map req_Scores (collector_run S mrn c evs)) = snd (updateRiskScores S (bc_policy c) (bc_runScores (snd (drain d)))
      (listScoredRisks (bc_risksIdx (snd (drain d)))))"
    unfolding collector_run_eq [OF assms e] map_append concat_append none by (simp add: Sink_scores del: concat_eq_Nil_conv)
  then have "map score_core (concat (map req_Scores (collector_run S mrn c evs)))
    = map score_core (bc_runScores d @ filter (\<lambda>s. kept c (sc_QrId s)) (map snd (bc_scores d)))"
    by (simp only: updateRiskScores_core) (simp add: k)
  moreover have "latest sc_QrId q (map score_core xs) = map_option score_core (latest sc_QrId q xs)" for xs
    by (rule latest_map) (simp add: score_core_def)
  ultimately show ?thesis by (simp only: events_state(6) [OF assms e, of q]) simp
qed

text \<open>C9: whatever the timer does, the scores that are sent contain, last for each id, the latest score that was sunk for
  it, up to the risk adjustment; scores that only feed a risk factor are not sent.\<close>

theorem collector_delivers_latest_scores:
  assumes "fresh_collector c"
  shows "latest sc_QrId q (map score_core (concat (map req_Scores (collector_run S mrn c evs))))
    = (if kept c q then map_option score_core (latest sc_QrId q (scores_of_events evs)) else None)"
  by (rule delivered_scores [OF assms])

subsection \<open>Delivery of data\<close>

text \<open>The last value that requests carry for a code id.\<close>

definition last_sent :: "StoreResultsReq list \<Rightarrow> string \<Rightarrow> Result option" where
  "last_sent reqs cid = foldl (\<lambda>acc r. case map_get (req_Data r) cid of None \<Rightarrow> acc | Some x \<Rightarrow> Some x) None reqs"

text \<open>What the code relies on: the chunks are, in their order, the messages that do not exceed the limit (the others are handed to
  \<open>onTooLargeFn\<close>, which logs them); and a result keeps its code id.\<close>

definition chunks_all :: "'v sink_env \<Rightarrow> bool" where
  "chunks_all S \<longleftrightarrow> (\<forall>xs. concat (se_Chunk S xs) = filter (\<lambda>x. \<not> se_TooLarge S x) xs)
     \<and> (\<forall>rr. re_CodeID (env_Result (se_env S) rr) = rr_CodeID rr)"

lemma sent_append: "last_sent (xs @ ys) cid = (case last_sent ys cid of None \<Rightarrow> last_sent xs cid | Some x \<Rightarrow> Some x)"
  by (induction ys rule: rev_induct) (auto simp: last_sent_def split: option.splits)

lemma sent_chunks: "last_sent (map (data_request mrn isDone) chunks) cid = latest re_CodeID cid (concat chunks)"
proof (induction chunks rule: rev_induct)
  case (snoc ch chunks)
  have "map_get (foldl (\<lambda>m rr. map_put (re_CodeID rr) rr m) [] ch) cid = latest re_CodeID cid ch"
    by (simp add: get_puts split: option.split)
  with snoc show ?case by (simp add: last_sent_def latest_append) (simp add: data_request_def)
qed (simp add: last_sent_def)

text \<open>What is sent for a code id of which a batch has one result.\<close>

definition sendable :: "'v sink_env \<Rightarrow> 'v RawResult option \<Rightarrow> Result option" where
  "sendable S r = (case r of None \<Rightarrow> None | Some rr \<Rightarrow> if se_TooLarge S (toResult S rr) then None else Some (toResult S rr))"

lemma latest_absent: "q \<notin> key ` set xs \<Longrightarrow> latest key q xs = None"
  by (induction xs rule: rev_induct) auto

lemma latest_of_distinct:
  assumes "distinct (map key xs)"
  shows "latest key q (filter P xs) = (case latest key q xs of None \<Rightarrow> None | Some x \<Rightarrow> if P x then Some x else None)"
  using assms
proof (induction xs rule: rev_induct)
  case (snoc x xs)
  then have "latest key q (filter P xs) = None" if "key x = q" using that by (simp add: latest_absent)
  with snoc show ?case by auto
qed simp

lemma sent_results:
  assumes "chunks_all S" and k: "keyed rr_CodeID (bc_results d)"
  shows "last_sent (if bc_results d = [] then [] else Sink S mrn (map snd (bc_results d)) [] [] False) cid
    = sendable S (map_get (bc_results d) cid)"
proof (cases "bc_results d = []")
  case True
  then show ?thesis by (simp add: last_sent_def sendable_def)
next
  case False
  have key: "re_CodeID (toResult S rr) = rr_CodeID rr" for rr
    using assms(1) by (simp add: toResult_def chunks_all_def Let_def)
  have same: "map (\<lambda>x. rr_CodeID (snd x)) (bc_results d) = map fst (bc_results d)" using k by (auto simp: keyed_def)
  with k have distinct: "distinct (map re_CodeID (map (toResult S) (map snd (bc_results d))))"
    unfolding map_map comp_def key same by (simp add: keyed_def map_ok_def)
  have "last_sent (Sink S mrn (map snd (bc_results d)) [] [] False) cid
    = latest re_CodeID cid (filter (\<lambda>x. \<not> se_TooLarge S x) (map (toResult S) (map snd (bc_results d))))"
    using assms(1) False by (simp add: Sink_def sent_chunks chunks_all_def)
  also have "\<dots> = sendable S (map_get (bc_results d) cid)"
    unfolding latest_of_distinct [OF distinct] latest_map [of re_CodeID, OF key] latest_keyed [OF k]
    by (simp add: sendable_def split: option.splits)
  finally show ?thesis using False by simp
qed

lemma sent_Sink_scores: "last_sent (Sink S mrn [] scores risks b) cid = None"
  by (simp add: Sink_def last_sent_def)

text \<open>The latest result is pending or, if its message is not too large, the last that was sent.\<close>

lemma pending_data:
  assumes "fresh_collector c" and "events S mrn c evs = (sent, d)" and "map_get (bc_results d) cid = Some rr"
  shows "latest rr_CodeID cid (data_of_events evs) = Some rr"
  using assms(2,3)
proof (induction evs arbitrary: sent d rule: rev_induct)
  case Nil
  then show ?case using assms(1) by (auto simp: fresh_collector_def)
next
  case (snoc e evs)
  obtain sent0 d0 where d0: "events S mrn c evs = (sent0, d0)" by fastforce
  show ?case
  proof (cases e)
    case (EvData rs)
    with snoc.prems d0 show ?thesis using snoc.IH [OF d0] by (auto simp: get_puts latest_append split: option.splits)
  next
    case (EvScores ss)
    with snoc.prems d0 show ?thesis using snoc.IH [OF d0] by auto
  next
    case EvTick
    with snoc.prems(1) d0 have "d = snd (drain d0)"
      by (cases "run_pass S mrn False d0"; auto simp flip: run_pass_tick(1) [of S mrn])
    with snoc.prems(2) show ?thesis by simp
  qed
qed

lemma events_data:
  assumes "chunks_all S" and "fresh_collector c" and "events S mrn c evs = (sent, d)"
    and "\<forall>rr. latest rr_CodeID cid (data_of_events evs) = Some rr \<longrightarrow> \<not> se_TooLarge S (toResult S rr)"
  shows "(case map_get (bc_results d) cid of None \<Rightarrow> last_sent sent cid | Some rr \<Rightarrow> Some (toResult S rr))
    = map_option (toResult S) (latest rr_CodeID cid (data_of_events evs))"
  using assms(3,4)
proof (induction evs arbitrary: sent d rule: rev_induct)
  case Nil
  then show ?case using assms(2) by (auto simp: fresh_collector_def last_sent_def)
next
  case (snoc e evs)
  obtain sent0 d0 where d0: "events S mrn c evs = (sent0, d0)" by fastforce
  note ih = snoc.IH [OF d0] and k = events_state(4) [OF assms(2) d0]
  show ?case
  proof (cases e)
    case (EvData rs)
    with snoc.prems(1) d0 have "d = SinkData rs d0" "sent = sent0" by auto
    then show ?thesis using ih snoc.prems(2) EvData
      by (cases "latest rr_CodeID cid rs"; cases "map_get (bc_results d0) cid") (simp_all add: get_puts latest_append)
  next
    case (EvScores ss)
    with snoc.prems(1) d0 have "d = SinkScore ss d0" "sent = sent0" by auto
    then show ?thesis using ih snoc.prems(2) EvScores by (cases "map_get (bc_results d0) cid") simp_all
  next
    case EvTick
    with snoc.prems(1) d0 have d: "d = snd (drain d0)" and sent: "sent = sent0 @ fst (run_pass S mrn False d0)"
      by (cases "run_pass S mrn False d0"; auto simp flip: run_pass_tick(1) [of S mrn])+
    from snoc.prems(2) EvTick have same: "\<forall>rr. latest rr_CodeID cid (data_of_events evs) = Some rr \<longrightarrow> \<not> se_TooLarge S (toResult S rr)"
      by simp
    show ?thesis using ih [OF same, symmetric] same EvTick d sent
      by (cases "map_get (bc_results d0) cid")
        (auto simp: run_pass_tick(2) sent_append sent_results [OF assms(1) k] sendable_def)
  qed
qed

lemma delivered_data:
  assumes "chunks_all S" and "fresh_collector c"
    and "\<forall>rr. latest rr_CodeID cid (data_of_events evs) = Some rr \<longrightarrow> \<not> se_TooLarge S (toResult S rr)"
  shows "last_sent (collector_run S mrn c evs) cid = map_option (toResult S) (latest rr_CodeID cid (data_of_events evs))"
proof -
  obtain sent d where e: "events S mrn c evs = (sent, d)" by fastforce
  note k = events_state(4) [OF assms(2) e]
  have pending: "\<not> se_TooLarge S (toResult S rr)" if "map_get (bc_results d) cid = Some rr" for rr
    using assms(3) pending_data [OF assms(2) e that] by blast
  have "last_sent (collector_run S mrn c evs) cid
    = (case map_get (bc_results d) cid of None \<Rightarrow> last_sent sent cid | Some rr \<Rightarrow> Some (toResult S rr))"
    unfolding collector_run_eq [OF assms(2) e]
    by (cases "map_get (bc_results d) cid")
      (simp_all add: sent_append sent_Sink_scores sent_results [OF assms(1) k] sendable_def pending)
  then show ?thesis using events_data [OF assms(1,2) e assms(3)] by simp
qed


subsection \<open>The last batch\<close>

lemma Sink_last: "length (filter req_IsLastBatch (Sink S mrn [] scores risks True)) = (if scores = [] \<and> risks = [] then 0 else 1)"
  by (simp add: Sink_def)

lemma Sink_not_last: "filter req_IsLastBatch (Sink S mrn rs ss risks False) = []"
  by (auto simp: Sink_def data_request_def filter_empty_conv)

lemma map_put_not_Nil [simp]: "map_put k v m \<noteq> []"
  by (cases m) auto

lemma put_risks_Nil: "foldl (\<lambda>risks r. map_put r (f risks r) risks) m rs = [] \<longleftrightarrow> m = [] \<and> rs = []"
  by (induction rs arbitrary: m) simp_all

lemma keep_score_Nil:
  assumes "\<forall>q. map_get (bc_riskMRNs c) q \<noteq> Some []"
  shows "foldl (keep_score c) (scores, risks) ss = ([], []) \<longleftrightarrow> scores = [] \<and> risks = [] \<and> ss = []"
proof (induction ss arbitrary: scores risks)
  case (Cons s ss)
  have "keep_score c (scores, risks) s \<noteq> ([], [])"
    using assms by (auto simp: keep_score_def consumeRisk_def put_risks_Nil Let_def split: option.splits)
  moreover obtain a b where "keep_score c (scores, risks) s = (a, b)" by fastforce
  ultimately show ?case using Cons.IH [of a b] by auto
qed simp

text \<open>A batch marked as the last is sent exactly once if any score was sunk, and never for a run without scores, however
  much data it had.\<close>

theorem last_batch_needs_a_score:
  assumes c: "fresh_collector c" and risks: "\<forall>q. map_get (bc_riskMRNs c) q \<noteq> Some []"
  shows "length (filter req_IsLastBatch (collector_run S mrn c evs)) = (if scores_of_events evs = [] then 0 else 1)"
proof -
  obtain sent d where e: "events S mrn c evs = (sent, d)" by fastforce
  have state: "bc_runScores d = [] \<and> bc_risksIdx d = [] \<and> bc_scores d = [] \<longleftrightarrow> scores_of_events evs = []"
    using e
  proof (induction evs arbitrary: sent d rule: rev_induct)
    case Nil
    then show ?case using c by (auto simp: fresh_collector_def)
  next
    case (snoc ev evs)
    obtain sent0 d0 where d0: "events S mrn c evs = (sent0, d0)" by fastforce
    note ih = snoc.IH [OF d0]
    have rk: "\<forall>q. map_get (bc_riskMRNs d0) q \<noteq> Some []" using risks events_state(1) [OF c d0] by simp
    show ?case
    proof (cases ev)
      case (EvScores ss)
      have "foldl (\<lambda>m s. map_put (sc_QrId s) s m) (bc_scores d0) ss = [] \<longleftrightarrow> bc_scores d0 = [] \<and> ss = []"
        by (induction ss rule: rev_induct) simp_all
      then show ?thesis using snoc.prems d0 EvScores ih by auto
    next
      case EvTick
      with snoc.prems d0 have d: "d = snd (drain d0)"
        by (cases "run_pass S mrn False d0") (auto simp flip: run_pass_tick(1) [of S mrn])
      have "bc_runScores d = [] \<and> bc_risksIdx d = []
          \<longleftrightarrow> foldl (keep_score d0) (bc_runScores d0, bc_risksIdx d0) (map snd (bc_scores d0)) = ([], [])"
        using keep_scores_fst [of d0 "bc_runScores d0" "bc_risksIdx d0" "map snd (bc_scores d0)"]
        by (simp add: d prod_eq_iff del: map_append)
      then show ?thesis unfolding keep_score_Nil [OF rk] using ih EvTick by (auto simp: d)
    qed (use snoc.prems d0 ih in auto)
  qed
  have rk: "\<forall>q. map_get (bc_riskMRNs d) q \<noteq> Some []" using risks events_state(1) [OF c e] by simp
  let ?d = "snd (drain d)"
  have fin: "bc_runScores ?d = [] \<and> bc_risksIdx ?d = [] \<longleftrightarrow> scores_of_events evs = []"
  proof -
    have "bc_runScores ?d = [] \<and> bc_risksIdx ?d = []
        \<longleftrightarrow> foldl (keep_score d) (bc_runScores d, bc_risksIdx d) (map snd (bc_scores d)) = ([], [])"
      using keep_scores_fst [of d "bc_runScores d" "bc_risksIdx d" "map snd (bc_scores d)"]
      by (simp add: prod_eq_iff del: map_append)
    then show ?thesis unfolding keep_score_Nil [OF rk] using state by simp
  qed
  have nolast: "filter req_IsLastBatch sent = []" using events_no_scores [of S mrn c evs] e by (auto simp: filter_empty_conv)
  have "length (filter req_IsLastBatch (collector_run S mrn c evs))
    = (if snd (updateRiskScores S (bc_policy c) (bc_runScores ?d) (listScoredRisks (bc_risksIdx ?d))) = []
          \<and> listScoredRisks (bc_risksIdx ?d) = [] then 0 else 1)"
    unfolding collector_run_eq [OF c e] filter_append nolast by (simp add: Sink_last Sink_not_last del: drain_simps)
  moreover have "snd (updateRiskScores S (bc_policy c) (bc_runScores ?d) rs) = [] \<longleftrightarrow> bc_runScores ?d = []" for rs
    using updateRiskScores_core [of S "bc_policy c" "bc_runScores ?d" rs] by (metis map_is_Nil_conv)
  moreover have "listScoredRisks m = [] \<longleftrightarrow> m = []" for m by (simp add: listScoredRisks_def)
  ultimately show ?thesis using fin by (simp del: drain_simps)
qed

subsection \<open>Detected risks\<close>

lemma put_risks_get:
  "map_get (foldl (\<lambda>risks r. map_put r (map_get risks r = Some True \<or> d) risks) m rs) x = Some True
     \<longleftrightarrow> map_get m x = Some True \<or> d \<and> x \<in> set rs"
  by (induction rs arbitrary: m) auto

lemma put_risks_True: "map_get (foldl (\<lambda>risks r. map_put r True risks) m rs) x = Some True \<longleftrightarrow> map_get m x = Some True \<or> x \<in> set rs"
  by (induction rs arbitrary: m) auto

lemma put_risks_ok: "map_ok m \<Longrightarrow> map_ok (foldl (\<lambda>risks r. map_put r (map_get risks r = Some True \<or> d) risks) m rs)"
  by (rule foldl_inv [where I = map_ok]) simp_all

definition detects :: "'v BufferedCollector \<Rightarrow> string \<Rightarrow> Score \<Rightarrow> bool" where
  "detects c r s \<longleftrightarrow> (\<exists>mrns. map_get (bc_riskMRNs c) (sc_QrId s) = Some mrns \<and> r \<in> set mrns \<and> sc_Value s = 100)"

lemma keep_scores_risks:
  "map_get (snd (foldl (keep_score c) (scores, risks) ss)) r = Some True \<longleftrightarrow> map_get risks r = Some True \<or> (\<exists>s \<in> set ss. detects c r s)"
proof (induction ss arbitrary: scores risks)
  case (Cons s ss)
  obtain a b where ab: "keep_score c (scores, risks) s = (a, b)" by fastforce
  have "map_get b r = Some True \<longleftrightarrow> map_get risks r = Some True \<or> detects c r s"
    using ab by (auto simp: keep_score_def consumeRisk_def detects_def put_risks_get put_risks_True Let_def split: option.splits prod.splits if_splits)
  with Cons.IH [of a b] ab show ?case by auto
qed simp

lemma keep_scores_ok: "map_ok risks \<Longrightarrow> map_ok (snd (foldl (keep_score c) (scores, risks) ss))"
proof (induction ss arbitrary: scores risks)
  case (Cons s ss)
  have "map_ok (snd (keep_score c (scores, risks) s))"
    using Cons.prems by (auto simp: keep_score_def consumeRisk_def put_risks_ok Let_def split: option.splits)
  then show ?case using Cons.IH by (cases "keep_score c (scores, risks) s") simp
qed simp

lemma detects_cong: "bc_riskMRNs c' = bc_riskMRNs c \<Longrightarrow> detects c' r s = detects c r s"
  by (simp add: detects_def)

lemma keyed_detects:
  assumes "keyed sc_QrId m"
  shows "(\<exists>s \<in> set (map snd m). detects c r s) \<longleftrightarrow> (\<exists>q s. map_get m q = Some s \<and> detects c r s)"
proof -
  have "map_get m q = Some s \<longleftrightarrow> (q, s) \<in> set m" for q s using assms by (simp add: keyed_def map_get_Some_iff)
  then show ?thesis by force
qed

text \<open>The risks taken by the goroutine: those of a score that was current at a tick.\<close>

definition current_at_tick :: "'v sink_env \<Rightarrow> string \<Rightarrow> 'v BufferedCollector \<Rightarrow> 'v sink_event list \<Rightarrow> string \<Rightarrow> Score \<Rightarrow> bool" where
  "current_at_tick S mrn c evs q s \<longleftrightarrow> (\<exists>us vs. evs = us @ EvTick # vs \<and> map_get (bc_scores (snd (events S mrn c us))) q = Some s)"

lemma current_at_tick_snoc:
  "current_at_tick S mrn c (evs @ [e]) q s \<longleftrightarrow> current_at_tick S mrn c evs q s
     \<or> e = EvTick \<and> map_get (bc_scores (snd (events S mrn c evs))) q = Some s"
proof -
  have "evs @ [e] = us @ EvTick # vs \<longleftrightarrow> (\<exists>vs'. vs = vs' @ [e] \<and> evs = us @ EvTick # vs') \<or> vs = [] \<and> evs = us \<and> e = EvTick" for us vs
    by (cases vs rule: rev_cases) auto
  then show ?thesis by (auto simp: current_at_tick_def)
qed

lemma events_risks:
  assumes "fresh_collector c" and "events S mrn c evs = (sent, d)"
  shows "map_ok (bc_risksIdx d)"
    and "map_get (bc_risksIdx d) r = Some True \<longleftrightarrow> (\<exists>q s. current_at_tick S mrn c evs q s \<and> detects c r s)"
proof -
  have "map_ok (bc_risksIdx d) \<and> (map_get (bc_risksIdx d) r = Some True \<longleftrightarrow> (\<exists>q s. current_at_tick S mrn c evs q s \<and> detects c r s))"
    using assms(2)
  proof (induction evs arbitrary: sent d rule: rev_induct)
    case Nil
    then show ?case using assms(1) by (auto simp: fresh_collector_def current_at_tick_def)
  next
    case (snoc e evs)
    obtain sent0 d0 where d0: "events S mrn c evs = (sent0, d0)" by fastforce
    note ih = snoc.IH [OF d0] and st = events_state [OF assms(1) d0]
    show ?case
    proof (cases e)
      case EvTick
      with snoc.prems d0 have d: "d = snd (drain d0)"
        by (cases "run_pass S mrn False d0") (auto simp flip: run_pass_tick(1) [of S mrn])
      have "detects d0 r s = detects c r s" for s by (rule detects_cong) (simp add: st)
      then have "map_get (bc_risksIdx d) r = Some True
          \<longleftrightarrow> map_get (bc_risksIdx d0) r = Some True \<or> (\<exists>q s. map_get (bc_scores d0) q = Some s \<and> detects c r s)"
        by (simp add: d keep_scores_risks keyed_detects [OF st(5), symmetric] del: set_map)
      moreover have "map_ok (bc_risksIdx d)" using ih by (simp add: d keep_scores_ok)
      ultimately show ?thesis using ih EvTick d0 by (auto simp: current_at_tick_snoc)
    qed (use snoc.prems d0 ih in \<open>auto simp: current_at_tick_snoc\<close>)
  qed
  then show "map_ok (bc_risksIdx d)"
    and "map_get (bc_risksIdx d) r = Some True \<longleftrightarrow> (\<exists>q s. current_at_tick S mrn c evs q s \<and> detects c r s)" by simp_all
qed

lemma events_no_risks: "\<forall>r \<in> set (fst (events S mrn c evs)). req_Risks r = []"
proof (induction evs rule: rev_induct)
  case (snoc e evs)
  obtain sent d where "events S mrn c evs = (sent, d)" by fastforce
  with snoc show ?case by (cases e) (auto simp: run_pass_tick Sink_def data_request_def split: if_splits)
qed simp

text \<open>A risk factor is reported as detected exactly if one of its checks had the value 100 at some tick of the timer or at
  the end: a provisional score that was corrected before the end counts if the timer fired in between.\<close>

theorem risk_detected_at_some_tick:
  assumes c: "fresh_collector c"
  shows "(\<exists>x \<in> set (concat (map req_Risks (collector_run S mrn c evs))). sr_Mrn x = r \<and> sr_IsDetected x)
    \<longleftrightarrow> (\<exists>q s. current_at_tick S mrn c (evs @ [EvTick]) q s \<and> detects c r s)"
proof -
  obtain sent d where e: "events S mrn c evs = (sent, d)" by fastforce
  let ?m = "bc_risksIdx (snd (drain d))"
  have none: "concat (map req_Risks sent) = []" using events_no_risks [of S mrn c evs] e by simp
  have data: "concat (map req_Risks (if bc_results d = [] then [] else Sink S mrn (map snd (bc_results d)) [] [] False)) = []"
    by (auto simp: Sink_def data_request_def)
  have "concat (map req_Risks (Sink S mrn [] ss rs True)) = rs" for ss rs by (simp add: Sink_def)
  then have "concat (map req_Risks (collector_run S mrn c evs)) = listScoredRisks ?m"
    unfolding collector_run_eq [OF c e] map_append concat_append none data by simp
  moreover have "events S mrn c (evs @ [EvTick]) = (sent @ fst (run_pass S mrn False d), snd (drain d))"
    by (simp add: e map_prod_def split: prod.split) (metis fst_conv snd_conv run_pass_tick(1))
  note risks = events_risks [OF c this]
  have "(\<exists>x \<in> set (listScoredRisks ?m). sr_Mrn x = r \<and> sr_IsDetected x) \<longleftrightarrow> (r, True) \<in> set ?m"
    by (force simp: listScoredRisks_def)
  moreover have "(r, True) \<in> set ?m \<longleftrightarrow> map_get ?m r = Some True" using risks(1) by (simp add: map_get_Some_iff)
  ultimately show ?thesis using risks(2) by simp
qed

subsection \<open>Risks of resources\<close>

text \<open>A query is adjusted by the risks of one of its resources only, the last that the iteration over the resources visits,
  however many of its resources have risk factors.\<close>

theorem resource_risks_of_last_resource:
  "map_get (index_resource_risks names resourceRisks) csum =
     (case filter (\<lambda>(name, risks). csum \<in> set (csums_of names name)) resourceRisks of
        [] \<Rightarrow> None
      | x # xs \<Rightarrow> Some (SortScoredRiskInfo (snd (last (x # xs)))))"
proof (induction resourceRisks rule: rev_induct)
  case (snoc y ys)
  obtain name risks where y: "y = (name, risks)" by fastforce
  have puts: "map_get (foldl (\<lambda>m csum. map_put csum v m) m cs) x = (if x \<in> set cs then Some v else map_get m x)"
    for m :: "(string, ScoredRiskInfo list) gomap" and cs x v
    by (induction cs arbitrary: m) auto
  have "map_get (index_resource_risks names (ys @ [y])) csum
      = (if csum \<in> set (csums_of names name) then Some (SortScoredRiskInfo risks)
         else map_get (index_resource_risks names ys) csum)"
    by (simp only: index_resource_risks_def y foldl_append foldl.simps Let_def prod.case puts)
  then show ?case using snoc by (simp add: y split: list.splits)
qed (simp add: index_resource_risks_def)

subsection \<open>The wiring of a resolved policy\<close>

definition refs_ok :: "(string, ReportingJob) gomap \<Rightarrow> bool" where
  "refs_ok js \<longleftrightarrow> (\<forall>(u, j) \<in> set js. fst ` set (pj_ChildJobs j) \<union> set (pj_Notify j) \<subseteq> fst ` set js)"

lemma validate_refs:
  "fst (foldl (\<lambda>(invalid, e) ref. if ref \<in> A then (invalid, e) else (True, f ref e)) s refs) \<longleftrightarrow> fst s \<or> \<not> set refs \<subseteq> A"
  by (induction refs arbitrary: s) (auto split: if_splits prod.splits)

lemma CollectorJob_Validate_iff: "CollectorJob_Validate c = None \<longleftrightarrow> refs_ok (cj_ReportingJobs c)"
proof -
  define bad where "bad = (\<lambda>j :: ReportingJob. \<not> fst ` set (pj_ChildJobs j) \<union> set (pj_Notify j) \<subseteq> fst ` set (cj_ReportingJobs c))"
  let ?start = "(False, \<lparr>InvalidSpecsByReportingJob = [], InvalidNotifiersByReportingJob = []\<rparr>)"
  have one: "fst (validate_job c s j) \<longleftrightarrow> fst s \<or> bad j" for s j
    unfolding validate_job_def validate_refs bad_def by (simp only: set_map Un_subset_iff de_Morgan_conj disj_assoc)
  have "fst (foldl (validate_job c) s js) \<longleftrightarrow> fst s \<or> (\<exists>j \<in> set js. bad j)" for s js
    by (induction js arbitrary: s) (simp_all add: one)
  from this [of ?start "map snd (cj_ReportingJobs c)"]
  have "fst (foldl (validate_job c) ?start (map snd (cj_ReportingJobs c))) \<longleftrightarrow> \<not> refs_ok (cj_ReportingJobs c)"
    unfolding refs_ok_def bad_def by (simp add: case_prod_beta)
  then show ?thesis by (cases "foldl (validate_job c) ?start (map snd (cj_ReportingJobs c))") (simp add: CollectorJob_Validate_def)
qed

lemma resolved_refs_ok:
  assumes "buildResolvedPolicy k X mrn p props impacts filters now = Inr (Inr rp)"
  shows "refs_ok (rp_jobs rp)"
proof -
  from resolved_linked [OF assms] obtain b V js byQrId where "graph_ok b" and "fresh_jobs (set V) js"
    and get: "\<forall>q. map_get byQrId q = map_get (jobs_of_nodes js) q"
    and l: "linked (job_pairs byQrId (rb_reportsFromEdges b)) (rp_jobs rp)"
    and keys: "map fst (rp_jobs rp) = map fst js" by blast
  have k: "fst ` set (rp_jobs rp) = fst ` set js" using keys by (metis list.set_map)
  show ?thesis unfolding refs_ok_def
  proof (rule ballI, unfold case_prod_beta, rule Un_least)
    fix x assume x: "x \<in> set (rp_jobs rp)"
    obtain u j where uj: "x = (u, j)" by fastforce
    with x have j: "map_get (rp_jobs rp) u = Some j" using l by (simp add: linked_def map_get_Some_iff)
    show "fst ` set (pj_ChildJobs (snd x)) \<subseteq> fst ` set (rp_jobs rp)" unfolding uj snd_conv
      using linkedD(3) [OF l j] job_pairs_jobs(1) [OF get] unfolding k by blast
    show "set (pj_Notify (snd x)) \<subseteq> fst ` set (rp_jobs rp)" unfolding uj snd_conv
      using linkedD(2) [OF l j] job_pairs_jobs(2) [OF get] unfolding k by force
  qed
qed

lemma children_known: "refs_ok js \<Longrightarrow> (u, j) \<in> set js \<Longrightarrow> k \<in> fst ` set (pj_ChildJobs j) \<Longrightarrow> \<exists>cjob. map_get js k = Some cjob"
  unfolding refs_ok_def by (metis (no_types, lifting) UnI1 case_prodD map_get_None_iff not_None_eq subsetD)

text \<open>The children of the risk factors, and those of the other jobs.\<close>

definition risk_child :: "CollectorJob \<Rightarrow> ReportingJob list \<Rightarrow> ReportingJob \<Rightarrow> bool" where
  "risk_child cj js x \<longleftrightarrow> (\<exists>j \<in> set js. pj_Type j = RJ_RISK_FACTOR \<and> (\<exists>k \<in> fst ` set (pj_ChildJobs j). map_get (cj_ReportingJobs cj) k = Some x))"

definition other_child :: "CollectorJob \<Rightarrow> ReportingJob list \<Rightarrow> ReportingJob \<Rightarrow> bool" where
  "other_child cj js x \<longleftrightarrow> (\<exists>j \<in> set js. pj_Type j \<noteq> RJ_RISK_FACTOR \<and> (\<exists>k \<in> fst ` set (pj_ChildJobs j). map_get (cj_ReportingJobs cj) k = Some x))"

definition has_risk_mrns :: "bool \<Rightarrow> CollectorJob \<Rightarrow> ReportingJob \<Rightarrow> bool" where
  "has_risk_mrns isNil cj x \<longleftrightarrow> \<not> isNil \<and> has_key (cj_RiskMrns cj) (pj_Uuid x)"

definition mrns_at :: "(string, string list) gomap \<Rightarrow> string \<Rightarrow> string set" where
  "mrns_at m q = (case map_get m q of None \<Rightarrow> {} | Some xs \<Rightarrow> set xs)"

definition children_of :: "CollectorJob \<Rightarrow> string list \<Rightarrow> ReportingJob set" where
  "children_of cj ks = (\<lambda>k. the (map_get (cj_ReportingJobs cj) k)) ` set ks"

lemma children_of_Cons: "map_get (cj_ReportingJobs cj) k = Some x \<Longrightarrow> children_of cj (k # ks) = insert x (children_of cj ks)"
  by (simp add: children_of_def)

lemma risk_children_ok:
  assumes "\<forall>k \<in> set ks. map_get (cj_ReportingJobs cj) k \<noteq> None" and "\<forall>x \<in> children_of cj ks. has_risk_mrns isNil cj x"
  shows "\<exists>m'. risk_children isNil cj ks m = Inr (Inr m') \<and> (\<forall>q r. r \<in> mrns_at m' q \<longleftrightarrow>
      r \<in> mrns_at m q \<or> (\<exists>x \<in> children_of cj ks. pj_QrId x = q \<and> r \<in> mrns_at (cj_RiskMrns cj) (pj_Uuid x)))"
  using assms
proof (induction ks arbitrary: m)
  case Nil
  then show ?case by (simp add: children_of_def)
next
  case (Cons k ks)
  from Cons.prems(1) obtain x where x: "map_get (cj_ReportingJobs cj) k = Some x" by auto
  note kids = children_of_Cons [OF x, of ks]
  from Cons.prems(2) kids obtain mrns where mrns: "\<not> isNil" "map_get (cj_RiskMrns cj) (pj_Uuid x) = Some mrns"
    by (metis has_risk_mrns_def insertI1 map_get_None_iff not_None_eq)
  let ?m = "map_put (pj_QrId x) ((case map_get m (pj_QrId x) of None \<Rightarrow> [] | Some xs \<Rightarrow> xs) @ mrns) m"
  have step: "risk_children isNil cj (k # ks) m = risk_children isNil cj ks ?m" by (simp add: mrns x)
  have at: "r \<in> mrns_at ?m q \<longleftrightarrow> r \<in> mrns_at m q \<or> (pj_QrId x = q \<and> r \<in> mrns_at (cj_RiskMrns cj) (pj_Uuid x))" for q r
    by (auto simp: mrns_at_def mrns(2) split: option.splits)
  from Cons.IH [of ?m] Cons.prems kids obtain m' where "risk_children isNil cj ks ?m = Inr (Inr m')"
    and "\<forall>q r. r \<in> mrns_at m' q \<longleftrightarrow> r \<in> mrns_at ?m q
      \<or> (\<exists>x \<in> children_of cj ks. pj_QrId x = q \<and> r \<in> mrns_at (cj_RiskMrns cj) (pj_Uuid x))" by auto
  then show ?case unfolding step kids at by (intro exI [of _ m']) auto
qed

lemma risk_children_error:
  assumes "\<forall>k \<in> set ks. map_get (cj_ReportingJobs cj) k \<noteq> None" and "\<not> (\<forall>x \<in> children_of cj ks. has_risk_mrns isNil cj x)"
  shows "\<exists>e. risk_children isNil cj ks m = Inr (Inl e)"
  using assms
proof (induction ks arbitrary: m)
  case (Cons k ks)
  from Cons.prems(1) obtain x where x: "map_get (cj_ReportingJobs cj) k = Some x" by auto
  show ?case
  proof (cases "has_risk_mrns isNil cj x")
    case False
    then show ?thesis using x by (auto simp: has_risk_mrns_def map_get_None_iff [symmetric] split: option.splits)
  next
    case True
    with Cons.prems children_of_Cons [OF x, of ks] have "\<not> (\<forall>x \<in> children_of cj ks. has_risk_mrns isNil cj x)" by auto
    with Cons.IH Cons.prems(1) x show ?thesis by (auto split: option.splits)
  qed
qed (simp add: children_of_def)

lemma keep_children_ok:
  assumes "\<forall>k \<in> set ks. map_get (cj_ReportingJobs cj) k \<noteq> None"
  shows "\<exists>keep. go_fold (\<lambda>keep k. go_bind (go_deref (map_get (cj_ReportingJobs cj) k)) (\<lambda>cjob.
             Inr (map_put (pj_QrId cjob) True keep))) keep0 ks = Inr keep
    \<and> (\<forall>q. map_get keep q = Some True \<longleftrightarrow> map_get keep0 q = Some True \<or> (\<exists>x \<in> children_of cj ks. pj_QrId x = q))"
  using assms
proof (induction ks arbitrary: keep0)
  case (Cons k ks)
  then obtain x where x: "map_get (cj_ReportingJobs cj) k = Some x" by auto
  from Cons.IH [of "map_put (pj_QrId x) True keep0"] Cons.prems x show ?case by (auto simp: children_of_Cons)
qed (simp add: children_of_def)

lemma child_kinds:
  assumes "\<forall>k \<in> fst ` set (pj_ChildJobs j). map_get (cj_ReportingJobs cj) k \<noteq> None"
  shows "risk_child cj (j # js) x \<longleftrightarrow>
      pj_Type j = RJ_RISK_FACTOR \<and> x \<in> children_of cj (map fst (pj_ChildJobs j)) \<or> risk_child cj js x"
    and "other_child cj (j # js) x \<longleftrightarrow>
      pj_Type j \<noteq> RJ_RISK_FACTOR \<and> x \<in> children_of cj (map fst (pj_ChildJobs j)) \<or> other_child cj js x"
proof -
  have "x \<in> children_of cj (map fst (pj_ChildJobs j)) \<longleftrightarrow> (\<exists>k \<in> fst ` set (pj_ChildJobs j). map_get (cj_ReportingJobs cj) k = Some x)"
    using assms unfolding children_of_def by force
  then show "risk_child cj (j # js) x \<longleftrightarrow>
      pj_Type j = RJ_RISK_FACTOR \<and> x \<in> children_of cj (map fst (pj_ChildJobs j)) \<or> risk_child cj js x"
    and "other_child cj (j # js) x \<longleftrightarrow>
      pj_Type j \<noteq> RJ_RISK_FACTOR \<and> x \<in> children_of cj (map fst (pj_ChildJobs j)) \<or> other_child cj js x"
    by (auto simp: risk_child_def other_child_def)
qed

text \<open>The indexes of the jobs: an error exactly if some child of a risk factor has no MRNs of risks.\<close>

lemma index_jobs_ok:
  assumes "\<forall>j \<in> set js. \<forall>k \<in> fst ` set (pj_ChildJobs j). map_get (cj_ReportingJobs cj) k \<noteq> None"
    and "\<forall>x. risk_child cj js x \<longrightarrow> has_risk_mrns isNil cj x"
  shows "\<exists>risks' keep'. index_jobs isNil cj js (risks, keep) = Inr (Inr (risks', keep'))
      \<and> (\<forall>q r. r \<in> mrns_at risks' q \<longleftrightarrow> r \<in> mrns_at risks q
          \<or> (\<exists>x. risk_child cj js x \<and> pj_QrId x = q \<and> r \<in> mrns_at (cj_RiskMrns cj) (pj_Uuid x)))
      \<and> (\<forall>q. map_get keep' q = Some True \<longleftrightarrow> map_get keep q = Some True \<or> (\<exists>x. other_child cj js x \<and> pj_QrId x = q))"
  using assms
proof (induction js arbitrary: risks keep)
  case Nil
  then show ?case by (simp add: risk_child_def other_child_def)
next
  case (Cons j js)
  let ?ks = "map fst (pj_ChildJobs j)"
  have known: "\<forall>k \<in> fst ` set (pj_ChildJobs j). map_get (cj_ReportingJobs cj) k \<noteq> None" using Cons.prems(1) by simp
  then have ks: "\<forall>k \<in> set ?ks. map_get (cj_ReportingJobs cj) k \<noteq> None" by simp
  note kinds = child_kinds [OF known, of js]
  have rest: "\<forall>j \<in> set js. \<forall>k \<in> fst ` set (pj_ChildJobs j). map_get (cj_ReportingJobs cj) k \<noteq> None"
    "\<forall>x. risk_child cj js x \<longrightarrow> has_risk_mrns isNil cj x" using Cons.prems kinds by simp_all
  show ?case
  proof (cases "pj_Type j = RJ_RISK_FACTOR")
    case True
    with Cons.prems(2) kinds have "\<forall>x \<in> children_of cj ?ks. has_risk_mrns isNil cj x" by simp
    from risk_children_ok [OF ks this, of risks] obtain m' where m': "risk_children isNil cj ?ks risks = Inr (Inr m')"
      and at: "\<And>q r. r \<in> mrns_at m' q \<longleftrightarrow> r \<in> mrns_at risks q
        \<or> (\<exists>x \<in> children_of cj ?ks. pj_QrId x = q \<and> r \<in> mrns_at (cj_RiskMrns cj) (pj_Uuid x))" by blast
    have step: "index_jobs isNil cj (j # js) (risks, keep) = index_jobs isNil cj js (m', keep)" using True m' by simp
    from Cons.IH [OF rest, of m' keep] show ?thesis unfolding step at kinds using True by (elim exE conjE) (intro exI conjI, assumption, auto)
  next
    case False
    from keep_children_ok [OF ks, of keep] obtain keep' where
      k: "go_fold (\<lambda>keep k. go_bind (go_deref (map_get (cj_ReportingJobs cj) k)) (\<lambda>cjob.
             Inr (map_put (pj_QrId cjob) True keep))) keep ?ks = Inr keep'"
      and at: "\<And>q. map_get keep' q = Some True \<longleftrightarrow> map_get keep q = Some True \<or> (\<exists>x \<in> children_of cj ?ks. pj_QrId x = q)" by blast
    have step: "index_jobs isNil cj (j # js) (risks, keep) = index_jobs isNil cj js (risks, keep')" using False k by simp
    from Cons.IH [OF rest, of risks keep'] show ?thesis unfolding step at kinds using False by (elim exE conjE) (intro exI conjI, assumption, auto)
  qed
qed

lemma index_jobs_error:
  assumes "\<forall>j \<in> set js. \<forall>k \<in> fst ` set (pj_ChildJobs j). map_get (cj_ReportingJobs cj) k \<noteq> None"
    and "\<not> (\<forall>x. risk_child cj js x \<longrightarrow> has_risk_mrns isNil cj x)"
  shows "\<exists>e. index_jobs isNil cj js (risks, keep) = Inr (Inl e)"
  using assms
proof (induction js arbitrary: risks keep)
  case Nil
  then show ?case by (simp add: risk_child_def)
next
  case (Cons j js)
  let ?ks = "map fst (pj_ChildJobs j)"
  have known: "\<forall>k \<in> fst ` set (pj_ChildJobs j). map_get (cj_ReportingJobs cj) k \<noteq> None" using Cons.prems(1) by simp
  then have ks: "\<forall>k \<in> set ?ks. map_get (cj_ReportingJobs cj) k \<noteq> None" by simp
  have rest: "\<forall>j \<in> set js. \<forall>k \<in> fst ` set (pj_ChildJobs j). map_get (cj_ReportingJobs cj) k \<noteq> None" using Cons.prems(1) by simp
  note ih = Cons.IH [OF rest] and kinds = child_kinds [OF known, of js]
  show ?case
  proof (cases "pj_Type j = RJ_RISK_FACTOR")
    case True
    show ?thesis
    proof (cases "\<forall>x \<in> children_of cj ?ks. has_risk_mrns isNil cj x")
      case all: True
      with Cons.prems(2) kinds have "\<not> (\<forall>x. risk_child cj js x \<longrightarrow> has_risk_mrns isNil cj x)" by blast
      with ih risk_children_ok [OF ks all, of risks] True show ?thesis by auto
    next
      case False
      from risk_children_error [OF ks this, of risks] True show ?thesis by auto
    qed
  next
    case False
    with Cons.prems(2) kinds have "\<not> (\<forall>x. risk_child cj js x \<longrightarrow> has_risk_mrns isNil cj x)" by blast
    with ih keep_children_ok [OF ks, of keep] False show ?thesis by auto
  qed
qed

lemma resolved_wired:
  assumes "buildResolvedPolicy k X mrn p props impacts filters now = Inr (Inr rp)"
  defines "cj \<equiv> rpo_CollectorJob rp"
  shows "CollectorJob_Validate cj = None \<and>
    (if \<forall>x. risk_child cj (map snd (cj_ReportingJobs cj)) x \<longrightarrow> \<not> isNil \<and> has_key (cj_RiskMrns cj) (pj_Uuid x)
     then \<exists>risks keep. WithResolvedPolicy isNil rp c = Inr (Inr (c\<lparr>bc_policy := rp, bc_riskMRNs := risks, bc_keepQrIds := keep\<rparr>))
       \<and> (\<forall>q r. r \<in> mrns_at risks q \<longleftrightarrow> (\<exists>x. risk_child cj (map snd (cj_ReportingJobs cj)) x \<and> pj_QrId x = q
            \<and> r \<in> mrns_at (cj_RiskMrns cj) (pj_Uuid x)))
       \<and> (\<forall>q. map_get keep q = Some True \<longleftrightarrow> (\<exists>x. other_child cj (map snd (cj_ReportingJobs cj)) x \<and> pj_QrId x = q))
     else \<exists>e. WithResolvedPolicy isNil rp c = Inr (Inl e))"
proof -
  note refs = resolved_refs_ok [OF assms(1)]
  have known: "\<forall>j \<in> set (map snd (cj_ReportingJobs cj)). \<forall>k \<in> fst ` set (pj_ChildJobs j). map_get (cj_ReportingJobs cj) k \<noteq> None"
    using children_known [OF refs] by (fastforce simp: rp_jobs_def cj_def)
  have empty: "r \<notin> mrns_at [] q" for r q by (simp add: mrns_at_def)
  have valid: "CollectorJob_Validate cj = None" using refs by (simp add: CollectorJob_Validate_iff rp_jobs_def cj_def)
  have W: "WithResolvedPolicy isNil rp c = go_bind (index_jobs isNil cj (map snd (cj_ReportingJobs cj)) ([], [])) (\<lambda>r.
       Inr (map_sum (\<lambda>e. e) (\<lambda>(riskMRNs, keepQrIds).
         c\<lparr>bc_policy := rp, bc_riskMRNs := riskMRNs, bc_keepQrIds := keepQrIds\<rparr>) r))"
    by (simp add: WithResolvedPolicy_def rp_jobs_def cj_def)
  show ?thesis
  proof (cases "\<forall>x. risk_child cj (map snd (cj_ReportingJobs cj)) x \<longrightarrow> has_risk_mrns isNil cj x")
    case True
    from index_jobs_ok [OF known True, of "[]" "[]"] obtain risks keep where
      i: "index_jobs isNil cj (map snd (cj_ReportingJobs cj)) ([], []) = Inr (Inr (risks, keep))"
      and at: "\<forall>q r. r \<in> mrns_at risks q \<longleftrightarrow> (\<exists>x. risk_child cj (map snd (cj_ReportingJobs cj)) x \<and> pj_QrId x = q
            \<and> r \<in> mrns_at (cj_RiskMrns cj) (pj_Uuid x))"
        "\<forall>q. map_get keep q = Some True \<longleftrightarrow> (\<exists>x. other_child cj (map snd (cj_ReportingJobs cj)) x \<and> pj_QrId x = q)"
      by (auto simp: empty)
    have "WithResolvedPolicy isNil rp c = Inr (Inr (c\<lparr>bc_policy := rp, bc_riskMRNs := risks, bc_keepQrIds := keep\<rparr>))"
      by (simp add: W i)
    then show ?thesis unfolding if_P [OF True [unfolded has_risk_mrns_def]] using at valid by blast
  next
    case False
    from index_jobs_error [OF known this, of "[]" "[]"] have "\<exists>e. WithResolvedPolicy isNil rp c = Inr (Inl e)" by (auto simp: W)
    then show ?thesis unfolding if_not_P [OF False [unfolded has_risk_mrns_def]] using valid by blast
  qed
qed

lemma latest_keyD: "latest key q xs = Some x \<Longrightarrow> key x = q"
  by (induction xs rule: rev_induct) (auto split: if_splits)

lemma wiring_returns:
  assumes "buildResolvedPolicy k X mrn p props impacts filters now = Inr (Inr rp)"
  shows "\<exists>r. WithResolvedPolicy isNil rp c = Inr r"
  using resolved_wired [OF assms, of isNil c] by (auto split: if_splits)


subsection \<open>Concrete cases\<close>

definition sample_sink :: "nat sink_env" where
  "sample_sink = \<lparr>se_env = test_env, se_Size = (\<lambda>d. 0), se_Chunk = map (\<lambda>x. [x]), se_TooLarge = (\<lambda>x. False),
     se_IsResource = (\<lambda>t. False), se_ResourceName = (\<lambda>t. t)\<rparr>"

lemma sample_chunks: "chunks_all sample_sink"
  by (simp add: chunks_all_def sample_sink_def test_env_def)

definition sample_collector :: "nat BufferedCollector" where
  "sample_collector = new_collector (empty_policy [] [] [])"

lemma sample_fresh: "fresh_collector sample_collector"
  by (simp add: sample_collector_def fresh_collector_def new_collector_def)

definition sample_score :: "string \<Rightarrow> u32 \<Rightarrow> Score" where
  "sample_score q v = zeroScore\<lparr>sc_QrId := q, sc_Value := v\<rparr>"

theorem collector_delivers_latest_scores_witness:
  "latest sc_QrId ''q'' (map score_core (concat (map req_Scores (collector_run sample_sink ''//a'' sample_collector
      [EvScores [sample_score ''q'' 100], EvTick, EvScores [sample_score ''q'' 0]]))))
    = Some (sample_score ''q'' 0)"
  using collector_delivers_latest_scores [OF sample_fresh, of "''q''" sample_sink "''//a''"
      "[EvScores [sample_score ''q'' 100], EvTick, EvScores [sample_score ''q'' 0]]"]
  by (simp add: kept_def sample_collector_def new_collector_def scores_of_events_def latest_def sample_score_def score_core_def zeroScore_def)


theorem last_batch_needs_a_score_witness:
  "length (filter req_IsLastBatch (collector_run sample_sink ''//a'' sample_collector [EvData [\<lparr>rr_CodeID = ''c'', rr_Data = None\<rparr>]])) = 0"
  using last_batch_needs_a_score [OF sample_fresh, of sample_sink "''//a''" "[EvData [\<lparr>rr_CodeID = ''c'', rr_Data = None\<rparr>]]"]
  by (simp add: scores_of_events_def sample_collector_def new_collector_def)

text \<open>A provisional score of 100 detects the risk if the timer fires before it is corrected.\<close>

theorem risk_detected_at_some_tick_witness:
  "(\<exists>x \<in> set (concat (map req_Risks (collector_run sample_sink ''//a'' (sample_collector\<lparr>bc_riskMRNs := [(''q'', [''//r''])]\<rparr>)
      [EvScores [sample_score ''q'' 100], EvTick, EvScores [sample_score ''q'' 0]]))). sr_Mrn x = ''//r'' \<and> sr_IsDetected x)
   \<and> \<not> (\<exists>x \<in> set (concat (map req_Risks (collector_run sample_sink ''//a'' (sample_collector\<lparr>bc_riskMRNs := [(''q'', [''//r''])]\<rparr>)
      [EvScores [sample_score ''q'' 100], EvScores [sample_score ''q'' 0]]))). sr_Mrn x = ''//r'' \<and> sr_IsDetected x)"
proof -
  let ?c = "sample_collector\<lparr>bc_riskMRNs := [(''q'', [''//r''])]\<rparr> :: nat BufferedCollector"
  let ?evs = "[EvScores [sample_score ''q'' 100], EvTick, EvScores [sample_score ''q'' 0]]"
  have c: "fresh_collector ?c" by (simp add: fresh_collector_def sample_collector_def new_collector_def)
  note s = sample_score_def sample_collector_def new_collector_def zeroScore_def
  have "current_at_tick sample_sink ''//a'' ?c (?evs @ [EvTick]) ''q'' (sample_score ''q'' 100)"
    unfolding current_at_tick_def
    by (intro exI [of _ "[EvScores [sample_score ''q'' 100]]"] exI [of _ "[EvScores [sample_score ''q'' 0], EvTick]"])
      (simp add: events_def s)
  moreover have "detects ?c ''//r'' (sample_score ''q'' 100)" by (simp add: detects_def s)
  ultimately have yes: "\<exists>q s. current_at_tick sample_sink ''//a'' ?c (?evs @ [EvTick]) q s \<and> detects ?c ''//r'' s" by blast
  have "\<not> (current_at_tick sample_sink ''//a'' ?c [EvScores [sample_score ''q'' 100], EvScores [sample_score ''q'' 0], EvTick] q s \<and> detects ?c ''//r'' s)" for q s
    using current_at_tick_snoc [of sample_sink "''//a''" ?c "[EvScores [sample_score ''q'' 100], EvScores [sample_score ''q'' 0]]" EvTick q s]
    by (auto simp: current_at_tick_def events_def s detects_def Cons_eq_append_conv split: if_splits)
  then have no: "\<not> (\<exists>q s. current_at_tick sample_sink ''//a'' ?c ([EvScores [sample_score ''q'' 100], EvScores [sample_score ''q'' 0]] @ [EvTick]) q s
      \<and> detects ?c ''//r'' s)" by simp
  show ?thesis unfolding risk_detected_at_some_tick [OF c] using yes no by blast
qed

definition risks_known :: "ResolvedPolicy \<Rightarrow> bool" where
  "risks_known rp \<longleftrightarrow> list_all (\<lambda>(u, j). pj_Type j = RJ_RISK_FACTOR \<longrightarrow> list_all (\<lambda>(k, i). case map_get (rp_jobs rp) k of None \<Rightarrow> True
     | Some x \<Rightarrow> has_key (cj_RiskMrns (rpo_CollectorJob rp)) (pj_Uuid x)) (pj_ChildJobs j)) (rp_jobs rp)"

lemma risks_known_iff:
  "risks_known rp \<longleftrightarrow> (\<forall>x. risk_child (rpo_CollectorJob rp) (map snd (cj_ReportingJobs (rpo_CollectorJob rp))) x
    \<longrightarrow> \<not> False \<and> has_key (cj_RiskMrns (rpo_CollectorJob rp)) (pj_Uuid x))"
  by (fastforce simp: risks_known_def risk_child_def list_all_iff rp_jobs_def split: option.splits)

lemma sample_risks:
  "case buildResolvedPolicy 5 sample_externals ''//p'' sample_bundle [] [] [] 0 of Inr (Inr rp) \<Rightarrow> risks_known rp | _ \<Rightarrow> False"
  by code_simp


text \<open>Two risk factors of one MRN with different checks: the policy is resolved, but no collector can be set up for it.\<close>

definition twin_risk_bundle :: Bundle where
  "twin_risk_bundle = sample_bundle\<lparr>bu_Policies := [(sample_policy [])
     \<lparr>po_RiskFactors := [sample_risk, sample_risk\<lparr>prf_Checks := [sample_query ''//rd'' ''eee'']\<rparr>]\<rparr>]\<rparr>"

lemma twin_risks:
  "case buildResolvedPolicy 5 sample_externals ''//p'' twin_risk_bundle [] [] [] 0 of Inr (Inr rp) \<Rightarrow> \<not> risks_known rp | _ \<Rightarrow> False"
  by code_simp

theorem twin_risks_not_wired:
  "\<exists>rp e. buildResolvedPolicy 5 sample_externals ''//p'' twin_risk_bundle [] [] [] 0 = Inr (Inr rp)
    \<and> WithResolvedPolicy False rp (new_collector rp :: nat BufferedCollector) = Inr (Inl e)"
proof -
  from twin_risks obtain rp where r: "buildResolvedPolicy 5 sample_externals ''//p'' twin_risk_bundle [] [] [] 0 = Inr (Inr rp)"
    and "\<not> risks_known rp" by (auto split: sum.splits)
  then have no: "\<not> (\<forall>x. risk_child (rpo_CollectorJob rp) (map snd (cj_ReportingJobs (rpo_CollectorJob rp))) x
    \<longrightarrow> \<not> False \<and> has_key (cj_RiskMrns (rpo_CollectorJob rp)) (pj_Uuid x))" by (simp only: risks_known_iff not_False_eq_True)
  show ?thesis using resolved_wired [OF r, of False "new_collector rp :: nat BufferedCollector", unfolded if_not_P [OF no]] r by blast
qed

end
