(* ===== verification/Graph_Exec_Results.thy ===== *)
theory Graph_Exec_Results
  imports Graph_Exec
begin

text \<open>
  What the executor guarantees on a graph whose wiring and priorities are right: no panic and
  termination for any batches of results, and a graph that is up to date at the end of every round.
  \<open>wired\<close> and \<open>prioritized\<close> are the conditions the builder has to establish.
\<close>

subsection \<open>Nodes: what they accept and what they send\<close>

text \<open>The part of a node that never changes: its kind, and for a job the keys of its two maps.\<close>

datatype node_shape =
    S_ExecutionQuery | S_Datapoint | S_ReportingQuery | S_Static
  | S_Job "NodeID list" "NodeID list" | S_Finisher | S_DatapointCollector | S_ScoreCollector

fun shape :: "'v nodeData \<Rightarrow> node_shape" where
  "shape (ExecutionQuery d) = S_ExecutionQuery"
| "shape (Datapoint d) = S_Datapoint"
| "shape (ReportingQuery d) = S_ReportingQuery"
| "shape (StaticReportingJob d) = S_Static"
| "shape (ReportingJob d) = S_Job (map fst (rj_childScores d)) (map fst (rj_datapoints d))"
| "shape (CollectionFinisher d) = S_Finisher"
| "shape (DatapointCollector d) = S_DatapointCollector"
| "shape (ScoreCollector d) = S_ScoreCollector"

fun sends_score :: "node_shape \<Rightarrow> bool" where
  "sends_score S_ReportingQuery = True"
| "sends_score S_Static = True"
| "sends_score (S_Job cs ds) = True"
| "sends_score _ = False"

text \<open>A job accepts the scores of its children and the results of its datapoints, all else anything.\<close>

fun edge_ok :: "NodeID \<Rightarrow> node_shape \<Rightarrow> node_shape \<Rightarrow> bool" where
  "edge_ok u su (S_Job cs ds) \<longleftrightarrow> (sends_score su \<longrightarrow> u \<in> set cs) \<and> (su = S_Datapoint \<longrightarrow> u \<in> set ds)"
| "edge_ok u su _ = True"

definition envelope_ok :: "node_shape \<Rightarrow> 'v envelope \<Rightarrow> bool" where
  "envelope_ok su ev \<longleftrightarrow>
     (\<forall>r. ev_res ev = Some r \<longrightarrow> su = S_Datapoint \<and> with_data r)
   \<and> (\<forall>s. ev_score ev = Some s \<longrightarrow> sends_score su \<and> sc_QrId s \<noteq> '''')"

fun node_ok :: "'v nodeData \<Rightarrow> bool" where
  "node_ok (Datapoint d) \<longleftrightarrow> (\<forall>r. dn_res d = Some r \<longrightarrow> with_data r)"
| "node_ok (ReportingQuery d) \<longleftrightarrow> rq_queryID d \<noteq> ''''
     \<and> (\<forall>x \<in> set (rq_results d). \<forall>r. dr_value (snd x) = Some r \<longrightarrow> with_data r)"
| "node_ok (StaticReportingJob d) \<longleftrightarrow> sc_QrId (sj_score d) \<noteq> ''''"
| "node_ok (ReportingJob d) \<longleftrightarrow> rj_queryID d \<noteq> ''''
     \<and> (rj_forwardScore d \<longrightarrow> length (rj_childScores d) \<le> 1) \<and> length (rj_childScores d) + 1 < 4294967296"
| "node_ok _ = True"

text \<open>The conversion of a result to the expected type gives a result with data.\<close>

definition env_ok :: "'v env \<Rightarrow> bool" where
  "env_ok E \<longleftrightarrow> (\<forall>r t. with_data r \<longrightarrow> with_data (env_CastResult E r t))"

lemma Datapoint_set_ok:
  assumes "env_ok E" and "with_data res"
  shows "\<exists>d'. Datapoint_set E res d = Inr d' \<and> node_ok (Datapoint d')"
proof -
  from assms(2) obtain rd where "rr_Data res = Some rd" by (auto simp: with_data_def)
  with assms show ?thesis by (auto simp: Datapoint_set_def env_ok_def Let_def split: option.splits)
qed

lemma initialize_ok:
  assumes "env_ok E" and "node_ok nd"
  shows "\<exists>nd'. node_initialize E nd = Inr nd' \<and> node_ok nd' \<and> shape nd' = shape nd"
proof (cases nd)
  case (Datapoint d)
  show ?thesis
  proof (cases "dn_res d")
    case (Some r)
    with Datapoint assms have "with_data r" by simp
    from Datapoint_set_ok [OF assms(1) this] obtain d' where "Datapoint_set E r d = Inr d'" "node_ok (Datapoint d')"
      by blast
    then show ?thesis
      by (intro exI [of _ "Datapoint d'"]) (simp add: Datapoint Datapoint_initialize_def Some)
  qed (simp add: Datapoint Datapoint_initialize_def)
qed (use assms in \<open>simp_all add: ReportingQuery_initialize_def ReportingJob_initialize_def\<close>)

lemma query_consume_ok:
  assumes "node_ok (ReportingQuery d)" and "envelope_ok su ev"
  shows "node_ok (ReportingQuery (ReportingQuery_consume u ev d))"
  using assms by (auto simp: ReportingQuery_consume_def envelope_ok_def split: option.splits dest!: set_map_put)

lemma job_consume_ok:
  assumes "node_ok (ReportingJob d)" and "envelope_ok su ev" and "edge_ok u su (shape (ReportingJob d :: 'v nodeData))"
  shows "\<exists>d'. ReportingJob_consume u (ev :: 'v envelope) d = Inr d' \<and> node_ok (ReportingJob d')
    \<and> shape (ReportingJob d') = shape (ReportingJob d)"
proof -
  have keys: "\<And>m. u \<in> set (map fst m) \<Longrightarrow> map_get m u \<noteq> None" by (simp add: map_of_eq_None_iff)
  have s: "\<exists>d1. (case ev_score ev of None \<Rightarrow> Inr d | Some s \<Rightarrow> consume_score u s d) = Inr d1
    \<and> node_ok (ReportingJob d1) \<and> shape (ReportingJob d1) = shape (ReportingJob d :: 'v nodeData)"
  proof (cases "ev_score ev")
    case (Some s)
    with assms(2,3) have "map_get (rj_childScores d) u \<noteq> None" by (intro keys) (simp add: envelope_ok_def)
    with Some assms(1) keys_map_put [OF this] length_map_put [OF this] show ?thesis
      by (auto simp: consume_score_def Let_def)
  qed (use assms in simp)
  then obtain d1 where d1: "(case ev_score ev of None \<Rightarrow> Inr d | Some s \<Rightarrow> consume_score u s d) = Inr d1"
    "node_ok (ReportingJob d1)" "shape (ReportingJob d1) = shape (ReportingJob d :: 'v nodeData)" by blast
  show ?thesis
  proof (cases "ev_res ev")
    case None
    with d1 show ?thesis by (simp add: ReportingJob_consume_def)
  next
    case (Some r)
    with assms(2,3) d1(3) have "map_get (rj_datapoints d1) u \<noteq> None" by (intro keys) (simp add: envelope_ok_def)
    with Some d1 keys_map_put [OF this] show ?thesis
      by (auto simp: ReportingJob_consume_def consume_datapoint_def)
  qed
qed

lemma consume_ok:
  assumes "env_ok E" and "node_ok nd" and "envelope_ok su ev" and "edge_ok u su (shape nd)"
  shows "\<exists>nd'. node_consume E u ev nd = Inr nd' \<and> node_ok nd' \<and> shape nd' = shape nd
    \<and> finisher_closed nd' = finisher_closed nd"
proof (cases nd)
  case (Datapoint d)
  have "\<exists>d'. Datapoint_consume E u ev d = Inr d' \<and> node_ok (Datapoint d')"
    using Datapoint_set_ok [OF assms(1)] assms(2,3) Datapoint
    by (auto simp: Datapoint_consume_def envelope_ok_def split: option.splits)
  with Datapoint show ?thesis by auto
next
  case (ReportingQuery d)
  with assms query_consume_ok show ?thesis by auto
next
  case (ReportingJob d)
  with assms job_consume_ok [of d su ev u] show ?thesis by auto
next
  case (CollectionFinisher d)
  then show ?thesis by (auto simp: CollectionFinisher_consume_def)
next
  case (ScoreCollector d)
  with assms show ?thesis by (auto simp: ScoreCollector_consume_def envelope_ok_def split: option.splits)
qed (use assms in \<open>simp_all add: StaticReportingJob_consume_def\<close>)

lemma score_loop_safe:
  assumes "\<forall>x \<in> set drs. \<forall>r. dr_value (snd x) = Some r \<longrightarrow> with_data r"
  shows "\<exists>acc'. score_loop E q drs acc = Inr acc'"
  using assms
proof (induction drs arbitrary: acc)
  case (Cons x drs)
  then show ?case by (cases x; cases "dr_value (snd x)") (auto simp: with_data_def)
qed simp

lemma sorted_results_subset: "set (sorted_results m) \<subseteq> set m"
proof
  fix x assume "x \<in> set (sorted_results m)"
  then obtain k where k: "k \<in> fst ` set m" "x = (k, the (map_get m k))" by (auto simp: sorted_results_def)
  then obtain v where "map_get m k = Some v" by (metis map_of_eq_None_iff not_Some_eq)
  with k show "x \<in> set m" by (simp add: map_of_SomeD)
qed

lemma query_recalculate_ok:
  assumes "node_ok (ReportingQuery d)"
  shows "\<exists>d' ev. ReportingQuery_recalculate E d = Inr (d', [], ev) \<and> node_ok (ReportingQuery d')
    \<and> (\<forall>e. ev = Some e \<longrightarrow> envelope_ok S_ReportingQuery e)"
proof (cases "rq_invalidated d")
  case True
  have "\<forall>x \<in> set (sorted_results (rq_results d)). \<forall>r. dr_value (snd x) = Some r \<longrightarrow> with_data r"
    using assms sorted_results_subset by fastforce
  from score_loop_safe [OF this, of E "rq_queryID d" zeroAcc] obtain acc where
    "score_loop E (rq_queryID d) (sorted_results (rq_results d)) zeroAcc = Inr acc" by blast
  moreover have "sc_QrId (score_of_acc E q acc) = q" for q acc
    by (simp add: score_of_acc_def query_score_def zeroScore_def Let_def)
  ultimately show ?thesis using assms True
    by (auto simp: ReportingQuery_recalculate_def ReportingQuery_score_def envelope_ok_def score_envelope_def)
qed (use assms in \<open>simp add: ReportingQuery_recalculate_def\<close>)

lemma job_recalculate_cases:
  assumes "ReportingJob_recalculate E d = Inr (d', effs, ev)"
  shows "d' = d \<and> (\<not> rj_invalidated d \<or> rj_completed d) \<or> d' = d\<lparr>rj_invalidated := False\<rparr> \<or> d' = d\<lparr>rj_invalidated := False, rj_completed := True\<rparr>"
proof (cases "\<not> rj_invalidated d \<or> rj_completed d")
  case True
  with assms show ?thesis by (auto simp: ReportingJob_recalculate_def split: if_splits)
next
  case False
  with assms obtain r where r: "ReportingJob_score E (d\<lparr>rj_invalidated := False\<rparr>) = Inr r"
    by (auto simp: ReportingJob_recalculate_def go_bind_Inr_iff Let_def split: if_splits)
  with False assms r show ?thesis
    by (cases r; cases "projr r")
      (auto simp: ReportingJob_recalculate_def Let_def split: if_splits)
qed

lemma job_recalculate_keeps:
  assumes "ReportingJob_recalculate E d = Inr (d', effs, ev)"
  shows "rj_queryID d' = rj_queryID d \<and> rj_forwardScore d' = rj_forwardScore d
   \<and> rj_childScores d' = rj_childScores d \<and> rj_datapoints d' = rj_datapoints d"
  using job_recalculate_cases [OF assms] by auto

lemma recalculate_ok:
  assumes "node_ok nd"
  shows "\<exists>nd' effs ev. node_recalculate E nd = Inr (nd', effs, ev) \<and> node_ok nd' \<and> shape nd' = shape nd
    \<and> (\<forall>e. ev = Some e \<longrightarrow> envelope_ok (shape nd) e)
    \<and> count_effects is_CloseDone effs = (if finisher_closed nd' \<and> \<not> finisher_closed nd then 1 else 0)
    \<and> (finisher_closed nd \<longrightarrow> finisher_closed nd')"
proof (cases nd)
  case (Datapoint d)
  with assms show ?thesis
    by (auto simp: lift_recalc_def Datapoint_recalculate_def envelope_ok_def)
next
  case (ReportingQuery d)
  with assms query_recalculate_ok [of d E] obtain d' ev where
    "ReportingQuery_recalculate E d = Inr (d', [], ev)" "node_ok (ReportingQuery d')"
    "\<forall>e. ev = Some e \<longrightarrow> envelope_ok S_ReportingQuery e" by auto
  with ReportingQuery show ?thesis
    by (intro exI [of _ "ReportingQuery d'"]) (simp add: lift_recalc_def)
next
  case (ReportingJob d)
  with assms job_recalculate_ok [of d E] obtain d' ev where
    r: "ReportingJob_recalculate E d = Inr (d', [], ev)"
      "\<forall>e. ev = Some e \<longrightarrow> (\<exists>s. e = score_envelope s \<and> sc_QrId s = rj_queryID d)" by auto
  with assms job_recalculate_keeps [OF r(1)] ReportingJob show ?thesis
    by (auto simp: lift_recalc_def envelope_ok_def score_envelope_def)
next
  case (CollectionFinisher d)
  then show ?thesis by (auto simp: lift_recalc_def CollectionFinisher_recalculate_def)
next
  case (ExecutionQuery d)
  then show ?thesis
    by (auto simp: lift_recalc_def ExecutionQuery_recalculate_def Let_def envelope_ok_def empty_envelope_def)
next
  case (StaticReportingJob d)
  with assms show ?thesis
    by (auto simp: lift_recalc_def StaticReportingJob_recalculate_def envelope_ok_def score_envelope_def)
next
  case (DatapointCollector d)
  then show ?thesis
    by (auto simp: lift_recalc_def DatapointCollector_recalculate_def count_effects_def filter_empty_conv)
next
  case (ScoreCollector d)
  then show ?thesis
    by (auto simp: lift_recalc_def ScoreCollector_recalculate_def count_effects_def filter_empty_conv)
qed

subsection \<open>The wiring of a graph\<close>

text \<open>
  What the builder has to provide: nodes under their own ids that are well formed, edges between nodes
  that accept each other, one finisher at most. \<open>wired\<close> speaks of the nodes at any time of a run.
\<close>

definition node_at :: "(NodeID, 'v Node) gomap \<Rightarrow> NodeID \<Rightarrow> 'v nodeData option" where
  "node_at ns n = map_option nd_data (map_get ns n)"

definition shape_at :: "(NodeID, 'v Node) gomap \<Rightarrow> NodeID \<Rightarrow> node_shape option" where
  "shape_at ns n = map_option shape (node_at ns n)"

definition wired :: "'v GraphExecutor \<Rightarrow> (NodeID, 'v Node) gomap \<Rightarrow> bool" where
  "wired ge ns \<longleftrightarrow>
     (\<forall>n x. map_get ns n = Some x \<longrightarrow> nd_id x = n \<and> node_ok (nd_data x))
   \<and> (\<forall>u su v. shape_at ns u = Some su \<longrightarrow> v \<in> set (edges_of ge u) \<longrightarrow>
        (\<exists>sv. shape_at ns v = Some sv \<and> edge_ok u su sv))
   \<and> (\<forall>u v. shape_at ns u = Some S_Finisher \<longrightarrow> shape_at ns v = Some S_Finisher \<longrightarrow> u = v)"

definition prioritized :: "'v GraphExecutor \<Rightarrow> bool" where
  "prioritized ge \<longleftrightarrow>
     (\<forall>u. node_at (ge_nodes ge) u \<noteq> None \<longrightarrow>
        (\<forall>v \<in> set (edges_of ge u). priority_of ge v < priority_of ge u))
   \<and> (\<forall>n. - 9223372036854775808 \<le> priority_of ge n \<and> priority_of ge n \<le> maxPriority ge)"

lemma shape_at_node: "shape_at ns = shape_at ms \<Longrightarrow> node_at ns n = None \<longleftrightarrow> node_at ms n = None"
  by (metis map_option_is_None shape_at_def)

text \<open>The invariant of a run.\<close>

definition run_inv :: "'v GraphExecutor \<Rightarrow> 'v exec \<Rightarrow> bool" where
  "run_inv ge st \<longleftrightarrow> wired ge (ex_nodes st) \<and> shape_at (ex_nodes st) = shape_at (ge_nodes ge)
     \<and> heap_ok (ex_queue st) (length (ex_queue st))
     \<and> (\<forall>it \<in> set (ex_queue st). node_at (ex_nodes st) (it_receiver it) \<noteq> None
          \<and> priority_of ge (it_receiver it) \<le> it_priority it)
     \<and> (ex_closed st \<longrightarrow> (\<forall>f d. node_at (ex_nodes st) f = Some d \<longrightarrow> shape d = S_Finisher \<longrightarrow> finisher_closed d))"

lemma node_at_put: "node_at (map_put v (x\<lparr>nd_data := d\<rparr>) ns) = (node_at ns)(v \<mapsto> d)"
  by (simp add: node_at_def fun_eq_iff update_conv)

lemma shape_at_put:
  assumes "map_get ns v = Some x" and "shape d = shape (nd_data x)"
  shows "shape_at (map_put v (x\<lparr>nd_data := d\<rparr>) ns) = shape_at ns"
  using assms by (auto simp: shape_at_def fun_eq_iff node_at_put) (simp add: node_at_def)

lemma wired_put:
  assumes "wired ge ns" and "map_get ns v = Some x" and "shape d = shape (nd_data x)" and "node_ok d"
  shows "wired ge (map_put v (x\<lparr>nd_data := d\<rparr>) ns)"
  unfolding wired_def shape_at_put [OF assms(2,3)]
  using assms(1,2,4) by (auto simp: wired_def update_conv split: if_splits)

lemma set_heap_Push:
  "heap_ok h (length h) \<Longrightarrow> set (heap_Push h x) = insert x (set h)"
  using heap_Push_ok [of h x] by (metis set_mset_add_mset_insert set_mset_mset)

lemma deliver_inv:
  assumes "env_ok E" and "run_inv ge st" and "envelope_ok su ev"
    and "shape_at (ex_nodes st) v = Some sv" and "edge_ok u su sv" and "priority_of ge v \<le> prio"
  shows "\<exists>st'. deliver E u sender prio v ev st = Inr st' \<and> run_inv ge st' \<and> ex_closed st' = ex_closed st"
proof -
  from assms(4) obtain x where x: "map_get (ex_nodes st) v = Some x" "sv = shape (nd_data x)"
    by (auto simp: shape_at_def node_at_def)
  have w: "wired ge (ex_nodes st)" and h: "heap_ok (ex_queue st) (length (ex_queue st))"
    using assms(2) by (simp_all add: run_inv_def)
  then have "node_ok (nd_data x)" using x(1) by (simp add: wired_def)
  from consume_ok [OF assms(1) this assms(3)] assms(5) x(2) obtain d where
    d: "node_consume E u ev (nd_data x) = Inr d" "node_ok d" "shape d = shape (nd_data x)"
      "finisher_closed d = finisher_closed (nd_data x)" by blast
  let ?it = "\<lparr>it_receiver = v, it_sender = sender, it_priority = prio\<rparr>"
  let ?st = "st\<lparr>ex_nodes := map_put v (x\<lparr>nd_data := d\<rparr>) (ex_nodes st), ex_queue := heap_Push (ex_queue st) ?it\<rparr>"
  have "deliver E u sender prio v ev st = Inr ?st" by (simp add: deliver_def x(1) d(1))
  moreover have "node_at (ex_nodes st) v = Some (nd_data x)" using x(1) by (simp add: node_at_def)
  then have "run_inv ge ?st"
    using assms(2,6) wired_put [OF w x(1) d(3,2)] shape_at_put [OF x(1) d(3)] heap_Push_ok [OF h, of ?it] d(3,4)
    by (auto simp: run_inv_def node_at_put set_heap_Push [OF h])
  ultimately show ?thesis by auto
qed

lemma perform_other: "eff \<noteq> CloseDone \<Longrightarrow> perform st eff = Inr (st\<lparr>ex_effects := ex_effects st @ [eff]\<rparr>)"
  by (simp add: perform_def)

lemma perform_close:
  "\<not> ex_closed st \<Longrightarrow> perform st CloseDone =
     Inr (st\<lparr>ex_closed := True, ex_effects := ex_effects st @ [CloseDone]\<rparr>)"
  by (simp add: perform_def)

lemma perform_all:
  assumes "count_effects is_CloseDone effs \<le> (if ex_closed st then 0 else 1)"
  shows "\<exists>es. go_fold perform st effs =
     Inr (st\<lparr>ex_effects := es, ex_closed := ex_closed st \<or> 0 < count_effects is_CloseDone effs\<rparr>)"
  using assms
proof (induction effs arbitrary: st)
  case (Cons e effs)
  show ?case
  proof (cases "e = CloseDone")
    case True
    with Cons.prems have c: "\<not> ex_closed st" "count_effects is_CloseDone effs = 0" by (simp_all split: if_splits)
    let ?st = "st\<lparr>ex_closed := True, ex_effects := ex_effects st @ [e]\<rparr>"
    from Cons.IH [of ?st] c(2) obtain es where
      "go_fold perform ?st effs = Inr (?st\<lparr>ex_effects := es, ex_closed := True\<rparr>)" by auto
    with c True show ?thesis by (intro exI [of _ es]) (simp add: perform_close)
  next
    case False
    then have e: "\<not> is_CloseDone e" by (simp add: is_CloseDone_def split: effect.split)
    let ?st = "st\<lparr>ex_effects := ex_effects st @ [e]\<rparr>"
    from Cons.IH [of ?st] Cons.prems e obtain es where
      "go_fold perform ?st effs = Inr (?st\<lparr>ex_effects := es, ex_closed := ex_closed st \<or> 0 < count_effects is_CloseDone effs\<rparr>)"
      by auto
    with False e show ?thesis by (intro exI [of _ es]) (simp add: perform_other)
  qed
next
  case Nil
  show ?case by (intro exI [of _ "ex_effects st"]) simp
qed

text \<open>An item is processed without a panic.\<close>

lemma process_item_ok:
  assumes "env_ok E" and "prioritized ge" and "run_inv ge st"
  shows "\<exists>st'. process_item E ge st = Inr st' \<and> run_inv ge st'"
proof (cases "heap_Pop (ex_queue st)")
  case None
  with assms show ?thesis by (simp add: process_item_def)
next
  case (Some p)
  then obtain it q where pop: "heap_Pop (ex_queue st) = Some (it, q)" by (cases p) auto
  note inv = assms(3) [unfolded run_inv_def]
  have h: "heap_ok (ex_queue st) (length (ex_queue st))" using inv by blast
  from heap_Pop_ok [OF h pop] have q: "heap_ok q (length q)" "mset (ex_queue st) = add_mset it (mset q)" by blast+
  then have qs: "set (ex_queue st) = insert it (set q)" by (metis set_mset_add_mset_insert set_mset_mset)
  let ?r = "it_receiver it"
  from inv qs have "node_at (ex_nodes st) ?r \<noteq> None" by blast
  then obtain n where n: "map_get (ex_nodes st) ?r = Some n" by (auto simp: node_at_def)
  have w: "wired ge (ex_nodes st)" using inv by blast
  then have ok: "node_ok (nd_data n)" and nid: "nd_id n = ?r" using n by (simp_all add: wired_def)
  from recalculate_ok [OF ok, of E] obtain d effs ev where
    rc: "node_recalculate E (nd_data n) = Inr (d, effs, ev)" "node_ok d" "shape d = shape (nd_data n)"
      "\<forall>e. ev = Some e \<longrightarrow> envelope_ok (shape (nd_data n)) e"
      "count_effects is_CloseDone effs = (if finisher_closed d \<and> \<not> finisher_closed (nd_data n) then 1 else 0)"
      "finisher_closed (nd_data n) \<longrightarrow> finisher_closed d" by blast
  let ?st1 = "st\<lparr>ex_queue := q, ex_nodes := map_put ?r (n\<lparr>nd_data := d\<rparr>) (ex_nodes st)\<rparr>"
  have nat: "node_at (ex_nodes st) ?r = Some (nd_data n)" using n by (simp add: node_at_def)
  have fin: "finisher_closed d \<Longrightarrow> shape d = S_Finisher" for d :: "'a nodeData" by (cases d) auto
  have cnt: "count_effects is_CloseDone effs \<le> (if ex_closed ?st1 then 0 else 1)"
    using rc(3,5) inv nat fin [of d] by auto
  from perform_all [OF this] obtain es where
    pf: "go_fold perform ?st1 effs = Inr (?st1\<lparr>ex_effects := es, ex_closed := ex_closed st \<or> 0 < count_effects is_CloseDone effs\<rparr>)"
    by auto
  let ?st2 = "?st1\<lparr>ex_effects := es, ex_closed := ex_closed st \<or> 0 < count_effects is_CloseDone effs\<rparr>"
  have sh: "shape_at (ex_nodes ?st2) = shape_at (ex_nodes st)" using shape_at_put [OF n rc(3)] by simp
  have "run_inv ge ?st2"
    unfolding run_inv_def
  proof (intro conjI impI allI ballI)
    show "wired ge (ex_nodes ?st2)" using wired_put [OF w n rc(3,2)] by simp
    show "shape_at (ex_nodes ?st2) = shape_at (ge_nodes ge)" using sh inv by simp
    show "heap_ok (ex_queue ?st2) (length (ex_queue ?st2))" using q by simp
  next
    fix i assume "i \<in> set (ex_queue ?st2)"
    then have "i \<in> set (ex_queue st)" using qs by simp
    with inv show "node_at (ex_nodes ?st2) (it_receiver i) \<noteq> None" and "priority_of ge (it_receiver i) \<le> it_priority i"
      by (auto simp: node_at_put)
  next
    fix f d' assume c: "ex_closed ?st2" and f: "node_at (ex_nodes ?st2) f = Some d'" "shape d' = S_Finisher"
    show "finisher_closed d'"
    proof (cases "f = ?r")
      case True
      with f have d': "d' = d" by (simp add: node_at_put)
      then have "shape (nd_data n) = S_Finisher" using f(2) rc(3) by simp
      with c inv nat rc(5,6) d' show ?thesis by (auto split: if_splits)
    next
      case False
      with f(1) have fo: "node_at (ex_nodes st) f = Some d'" by (simp add: node_at_put)
      show ?thesis
      proof (cases "ex_closed st")
        case True
        with inv fo f(2) show ?thesis by blast
      next
        case 2: False
        with c have "0 < count_effects is_CloseDone effs" by simp
        with rc(3,5) fin [of d] have "shape_at (ex_nodes st) ?r = Some S_Finisher"
          using nat by (auto simp: shape_at_def split: if_splits)
        moreover have "shape_at (ex_nodes st) f = Some S_Finisher" using fo f(2) by (simp add: shape_at_def)
        ultimately show ?thesis using w False unfolding wired_def by blast
      qed
    qed
  qed
  then have "\<exists>st'. go_fold (\<lambda>st v. deliver E (nd_id n) ?r (priority_of ge v) v e st) ?st2 (edges_of ge ?r) = Inr st' \<and> run_inv ge st'"
    if ev: "ev = Some e" for e
  proof (rule go_fold_inv [where I = "run_inv ge"])
    fix s v assume v: "v \<in> set (edges_of ge ?r)" and s: "run_inv ge s"
    have r: "shape_at (ge_nodes ge) ?r = Some (shape (nd_data n))" using inv nat by (metis option.simps(9) shape_at_def)
    from s have ws: "wired ge (ex_nodes s)" "shape_at (ex_nodes s) = shape_at (ge_nodes ge)" by (simp_all add: run_inv_def)
    with v r obtain sv where "shape_at (ex_nodes s) v = Some sv" "edge_ok ?r (shape (nd_data n)) sv"
      unfolding wired_def by metis
    from deliver_inv [OF assms(1) s _ this, of e "priority_of ge v" ?r] rc(4) ev nid
    show "\<exists>s'. deliver E (nd_id n) ?r (priority_of ge v) v e s = Inr s' \<and> run_inv ge s'" by auto
  qed
  with \<open>run_inv ge ?st2\<close> show ?thesis
    by (cases ev) (auto simp: process_item_def pop Let_def n rc(1) pf)
qed

subsection \<open>Rounds terminate\<close>

text \<open>The measure of a round: the multiset of the priorities in the queue, as natural numbers.\<close>

definition rank :: "int \<Rightarrow> nat" where
  "rank p = nat (p + 9223372036854775808)"

definition queue_ranks :: "'v exec \<Rightarrow> nat multiset" where
  "queue_ranks st = image_mset (\<lambda>it. rank (it_priority it)) (mset (ex_queue st))"

lemma rank_less: "p < p' \<Longrightarrow> - 9223372036854775808 \<le> p \<Longrightarrow> rank p < rank p'"
  by (simp add: rank_def)

lemma perform_queue: "go_fold perform st effs = Inr st' \<Longrightarrow> ex_queue st' = ex_queue st"
  by (induction effs arbitrary: st) (auto simp: go_bind_Inr_iff perform_def split: if_splits)

lemma deliver_ranks:
  assumes "deliver E u sender prio v ev st = Inr st'" and "heap_ok (ex_queue st) (length (ex_queue st))"
  shows "queue_ranks st' = add_mset (rank prio) (queue_ranks st) \<and> heap_ok (ex_queue st') (length (ex_queue st'))"
  using assms heap_Push_ok [OF assms(2)] by (auto simp: deliver_def go_bind_Inr_iff queue_ranks_def)

lemma deliver_all_ranks:
  assumes "go_fold (\<lambda>st v. deliver E u r (priority_of ge v) v e st) st vs = Inr st'"
    and "heap_ok (ex_queue st) (length (ex_queue st))"
  shows "queue_ranks st' = mset (map (\<lambda>v. rank (priority_of ge v)) vs) + queue_ranks st"
  using assms
proof (induction vs arbitrary: st)
  case (Cons v vs)
  then obtain s1 where s1: "deliver E u r (priority_of ge v) v e st = Inr s1"
    "go_fold (\<lambda>st v. deliver E u r (priority_of ge v) v e st) s1 vs = Inr st'"
    by (auto simp: go_bind_Inr_iff)
  from deliver_ranks [OF s1(1) Cons.prems(2)] Cons.IH [OF s1(2)] show ?case by simp
qed simp

lemma process_item_decreases:
  assumes "prioritized ge" and "run_inv ge st" and "ex_queue st \<noteq> []" and "process_item E ge st = Inr st'"
  shows "(queue_ranks st', queue_ranks st) \<in> mult {(x, y). x < y}"
proof -
  from assms(3) obtain it q where pop: "heap_Pop (ex_queue st) = Some (it, q)" by (auto simp: heap_Pop_def Let_def)
  have h: "heap_ok (ex_queue st) (length (ex_queue st))" using assms(2) by (simp add: run_inv_def)
  from heap_Pop_ok [OF h pop] have q: "heap_ok q (length q)" "mset (ex_queue st) = add_mset it (mset q)" by blast+
  let ?r = "it_receiver it"
  from q(2) have "it \<in> set (ex_queue st)" by (metis set_mset_mset union_single_eq_member)
  then have pr: "priority_of ge ?r \<le> it_priority it" using assms(2) by (auto simp: run_inv_def)
  from \<open>it \<in> set (ex_queue st)\<close> have node: "node_at (ge_nodes ge) ?r \<noteq> None"
    using assms(2) unfolding run_inv_def by (metis shape_at_node)
  from assms(4) pop obtain n d effs ev st1 where p: "map_get (ex_nodes st) ?r = Some n"
    "go_fold perform (st\<lparr>ex_queue := q, ex_nodes := map_put ?r (n\<lparr>nd_data := d\<rparr>) (ex_nodes st)\<rparr>) effs = Inr st1"
    "(case ev of None \<Rightarrow> Inr st1 | Some e \<Rightarrow>
        go_fold (\<lambda>st v. deliver E (nd_id n) ?r (priority_of ge v) v e st) st1 (edges_of ge ?r)) = Inr st'"
    by (cases "map_get (ex_nodes st) (it_receiver it)") (auto simp: process_item_def Let_def go_bind_Inr_iff)
  have q1: "ex_queue st1 = q" using perform_queue [OF p(2)] by simp
  have "\<exists>K. queue_ranks st' = queue_ranks st1 + K \<and> (\<forall>k \<in># K. k < rank (it_priority it))"
  proof (cases ev)
    case None
    with p(3) show ?thesis by (intro exI [of _ "{#}"]) simp
  next
    case (Some e)
    let ?K = "mset (map (\<lambda>v. rank (priority_of ge v)) (edges_of ge ?r))"
    have "queue_ranks st' = ?K + queue_ranks st1"
      using deliver_all_ranks [of E "nd_id n" ?r ge e st1 "edges_of ge ?r" st'] p(3) Some q q1 by simp
    moreover have "rank (priority_of ge v) < rank (it_priority it)" if "v \<in> set (edges_of ge ?r)" for v
      using assms(1) that pr node unfolding prioritized_def by (intro rank_less) (auto intro: less_le_trans)
    ultimately show ?thesis by (intro exI [of _ ?K]) auto
  qed
  then obtain K where K: "queue_ranks st' = queue_ranks st1 + K" "\<forall>k \<in># K. k < rank (it_priority it)" by blast
  have st: "queue_ranks st = queue_ranks st1 + {#rank (it_priority it)#}"
    using q(2) q1 by (simp add: queue_ranks_def)
  show ?thesis unfolding st K(1) by (rule one_step_implies_mult) (use K(2) in auto)
qed

text \<open>Enough fuel empties the queue, and more fuel changes nothing.\<close>

lemma process_queue_terminates:
  assumes "env_ok E" and "prioritized ge" and "run_inv ge st"
  shows "\<exists>n st'. process_queue E ge n st = Some (Inr st') \<and> run_inv ge st' \<and> ex_queue st' = []"
  using assms(3)
proof (induction "queue_ranks st" arbitrary: st rule: wf_induct_rule [OF wf_mult [OF wf_less]])
  case 1
  show ?case
  proof (cases "ex_queue st = []")
    case True
    then have "process_queue E ge (Suc 0) st = Some (Inr st)" by simp
    with True 1(2) show ?thesis by blast
  next
    case False
    from process_item_ok [OF assms(1,2) 1(2)] obtain s1 where
      s1: "process_item E ge st = Inr s1" "run_inv ge s1" by blast
    from 1(1) [OF process_item_decreases [OF assms(2) 1(2) False s1(1)] s1(2)] obtain n st' where
      "process_queue E ge n s1 = Some (Inr st')" "run_inv ge st'" "ex_queue st' = []" by blast
    with False s1(1) show ?thesis by (intro exI [of _ "Suc n"] exI [of _ st']) simp
  qed
qed

lemma process_queue_mono: "process_queue E ge n st = Some r \<Longrightarrow> n \<le> m \<Longrightarrow> process_queue E ge m st = Some r"
proof (induction n arbitrary: st m)
  case (Suc n)
  then obtain m' where m: "m = Suc m'" "n \<le> m'" by (cases m) auto
  with Suc show ?case by (auto split: sum.splits if_splits)
qed simp

lemma execute_loop_mono:
  "execute_loop E ge n d st bs = Some r \<Longrightarrow> n \<le> m \<Longrightarrow> execute_loop E ge m d st bs = Some r"
proof (induction bs arbitrary: d st)
  case Nil
  note eqs = execute_loop.simps [of E ge n d st "[]"] execute_loop.simps [of E ge m d st "[]"]
  from Nil.prems obtain o1 where p: "process_queue E ge n st = Some o1"
    by (auto simp: eqs(1) split: option.splits)
  with Nil.prems process_queue_mono [OF p Nil.prems(2)] show ?case by (cases o1) (auto simp: eqs split: if_splits)
next
  case (Cons b bs)
  note eqs = execute_loop.simps [of E ge n d st "b # bs"] execute_loop.simps [of E ge m d st "b # bs"]
  from Cons.prems obtain o1 where p: "process_queue E ge n st = Some o1"
    by (auto simp: eqs(1) split: option.splits)
  note pm = process_queue_mono [OF p Cons.prems(2)]
  show ?case using Cons.prems(1) unfolding eqs
    by (auto simp: p pm Cons.IH [OF _ Cons.prems(2)] split: sum.split_asm sum.split prod.split_asm message.split_asm if_splits)
qed

subsection \<open>The whole execution\<close>

text \<open>Results with data for datapoints of the graph are what the execution manager delivers.\<close>

definition results_ok :: "'v GraphExecutor \<Rightarrow> 'v RawResult list \<Rightarrow> bool" where
  "results_ok ge rs \<longleftrightarrow> (\<forall>r \<in> set rs. with_data r \<and> shape_at (ge_nodes ge) (rr_CodeID r) = Some S_Datapoint)"

fun message_results :: "'v message \<Rightarrow> 'v RawResult list" where
  "message_results (ResultMsg r) = [r]"
| "message_results _ = []"

definition batches_ok :: "'v GraphExecutor \<Rightarrow> 'v batch list \<Rightarrow> bool" where
  "batches_ok ge bs \<longleftrightarrow> (\<forall>(msg, drained) \<in> set bs. results_ok ge (message_results msg @ drained))"

lemma case_message_results: "(case msg of ResultMsg r \<Rightarrow> [r] | _ \<Rightarrow> []) = message_results msg"
  by (cases msg) auto

lemma receive_ok:
  assumes "env_ok E" and "prioritized ge" and "run_inv ge st" and "results_ok ge [r]"
  shows "\<exists>st'. receive E ge st r = Inr st' \<and> run_inv ge st'"
proof -
  have "shape_at (ex_nodes st) (rr_CodeID r) = Some S_Datapoint" "with_data r"
    using assms(3,4) by (auto simp: run_inv_def results_ok_def)
  moreover have "envelope_ok S_Datapoint \<lparr>ev_res = Some r, ev_score = None\<rparr>"
    using \<open>with_data r\<close> by (simp add: envelope_ok_def)
  ultimately show ?thesis
    using deliver_inv [OF assms(1,3), of S_Datapoint "\<lparr>ev_res = Some r, ev_score = None\<rparr>" "rr_CodeID r"
        S_Datapoint "''''" "maxPriority ge" "''''"] assms(2)
    by (auto simp: receive_def prioritized_def)
qed

lemma receives_ok:
  assumes "env_ok E" and "prioritized ge" and "run_inv ge st" and "results_ok ge rs"
  shows "\<exists>st'. go_fold (receive E ge) st rs = Inr st' \<and> run_inv ge st'"
  using assms(3,4) receive_ok [OF assms(1,2)]
  by (intro go_fold_inv [where I = "run_inv ge"]) (auto simp: results_ok_def)

lemma execute_loop_ok:
  assumes "env_ok E" and "prioritized ge" and "run_inv ge st" and "batches_ok ge bs"
  shows "\<exists>n out. execute_loop E ge n d st bs = Some (Inr out)"
  using assms(3,4)
proof (induction bs arbitrary: st d)
  case Nil
  from process_queue_terminates [OF assms(1,2) Nil(1)] obtain n st' where
    "process_queue E ge n st = Some (Inr st')" by blast
  then show ?case by (intro exI [of _ n]) (simp add: execute_loop.simps [of E ge n d st "[]"])
next
  case (Cons b bs)
  obtain msg drained where b: "b = (msg, drained)" by fastforce
  from process_queue_terminates [OF assms(1,2) Cons.prems(1)] obtain n s1 where
    s1: "process_queue E ge n st = Some (Inr s1)" "run_inv ge s1" by blast
  have "results_ok ge (message_results msg @ drained)" "batches_ok ge bs"
    using Cons.prems(2) b by (auto simp: batches_ok_def)
  with receives_ok [OF assms(1,2) s1(2)] obtain s2 where
    s2: "go_fold (receive E ge) s1 (message_results msg @ drained) = Inr s2" "run_inv ge s2" by blast
  from Cons.IH [OF s2(2) \<open>batches_ok ge bs\<close>, of "msg = DoneMsg"] obtain m out where
    m: "execute_loop E ge m (msg = DoneMsg) s2 bs = Some (Inr out)" by blast
  let ?k = "max n m"
  have "process_queue E ge ?k st = Some (Inr s1)" using process_queue_mono [OF s1(1)] by simp
  moreover have "execute_loop E ge ?k (msg = DoneMsg) s2 bs = Some (Inr out)"
    using execute_loop_mono [OF m] by simp
  ultimately show ?case using s2(1)
    by (intro exI [of _ ?k], subst execute_loop.simps) (cases msg; simp add: b case_message_results)
qed

lemma start_node_inv:
  assumes "env_ok E" and "prioritized ge" and "wired ge (ge_nodes ge)" and "x \<in> set (ge_nodes ge)"
    and "map_ok (ge_nodes ge)" and "run_inv ge st" and "\<not> ex_closed st"
    and "map_get (ex_nodes st) (fst x) = Some (snd x)"
  shows "\<exists>st'. start_node E ge st x = Inr st' \<and> run_inv ge st' \<and> \<not> ex_closed st'
    \<and> (\<forall>n. n \<noteq> fst x \<longrightarrow> map_get (ex_nodes st') n = map_get (ex_nodes st) n)
    \<and> set (ex_queue st) \<subseteq> set (ex_queue st')
    \<and> (\<not> ge_rescore ge \<longrightarrow> init_item ge (fst x) \<in> set (ex_queue st'))"
proof -
  obtain k n where x: "x = (k, n)" by fastforce
  have w: "wired ge (ex_nodes st)" and h: "heap_ok (ex_queue st) (length (ex_queue st))"
    using assms(6) by (simp_all add: run_inv_def)
  have k: "map_get (ex_nodes st) k = Some n" using assms(8) x by simp
  with w have "node_ok (nd_data n)" by (simp add: wired_def)
  from initialize_ok [OF assms(1) this] obtain d where
    d: "node_initialize E (nd_data n) = Inr d" "node_ok d" "shape d = shape (nd_data n)" by blast
  let ?s1 = "st\<lparr>ex_nodes := map_put k (n\<lparr>nd_data := d\<rparr>) (ex_nodes st)\<rparr>"
  let ?s2 = "?s1\<lparr>ex_queue := heap_Push (ex_queue st) (init_item ge k)\<rparr>"
  have nat: "node_at (ex_nodes st) k = Some (nd_data n)" using k by (simp add: node_at_def)
  have i1: "run_inv ge ?s1"
    using assms(6,7) wired_put [OF w k d(3,2)] shape_at_put [OF k d(3)]
    by (auto simp: run_inv_def node_at_put)
  have i2: "run_inv ge ?s2"
    using i1 heap_Push_ok [OF h, of "init_item ge k"] assms(2)
    by (auto simp: run_inv_def set_heap_Push [OF h] init_item_def node_at_put prioritized_def)
  show ?thesis
  proof (cases "ge_rescore ge \<and> \<not> is_Static d")
    case True
    with i1 assms(7) show ?thesis by (auto simp: start_node_def x d(1) Let_def update_conv)
  next
    case False
    with i2 assms(7) show ?thesis
      by (auto simp: start_node_def x d(1) Let_def update_conv set_heap_Push [OF h])
  qed
qed

lemma start_fold:
  assumes "env_ok E" and "prioritized ge" and "wired ge (ge_nodes ge)" and "map_ok (ge_nodes ge)"
    and "distinct (map fst xs)" and "set xs \<subseteq> set (ge_nodes ge)" and "run_inv ge st" and "\<not> ex_closed st"
    and "\<forall>x \<in> set xs. map_get (ex_nodes st) (fst x) = Some (snd x)"
  shows "\<exists>st'. go_fold (start_node E ge) st xs = Inr st' \<and> run_inv ge st'
    \<and> set (ex_queue st) \<subseteq> set (ex_queue st')
    \<and> (\<not> ge_rescore ge \<longrightarrow> (\<forall>x \<in> set xs. init_item ge (fst x) \<in> set (ex_queue st')))"
  using assms(5-)
proof (induction xs arbitrary: st)
  case (Cons x xs)
  have x: "x \<in> set (ge_nodes ge)" "map_get (ex_nodes st) (fst x) = Some (snd x)" using Cons.prems by auto
  from start_node_inv [OF assms(1-3) x(1) assms(4) Cons.prems(3,4) x(2)] obtain s1 where
    s1: "start_node E ge st x = Inr s1" "run_inv ge s1" "\<not> ex_closed s1"
      "\<forall>n. n \<noteq> fst x \<longrightarrow> map_get (ex_nodes s1) n = map_get (ex_nodes st) n"
      "set (ex_queue st) \<subseteq> set (ex_queue s1)"
      "\<not> ge_rescore ge \<longrightarrow> init_item ge (fst x) \<in> set (ex_queue s1)" by blast
  have "\<forall>y \<in> set xs. map_get (ex_nodes s1) (fst y) = Some (snd y)"
  proof
    fix y assume y: "y \<in> set xs"
    then have "fst y \<in> set (map fst xs)" by simp
    then have "fst y \<noteq> fst x" using Cons.prems(1) by (metis distinct.simps(2) list.simps(9))
    with s1(4) Cons.prems(5) y show "map_get (ex_nodes s1) (fst y) = Some (snd y)" by simp
  qed
  with Cons.IH [of s1] Cons.prems(1,2) s1 obtain s2 where
    "go_fold (start_node E ge) s1 xs = Inr s2" "run_inv ge s2" "set (ex_queue s1) \<subseteq> set (ex_queue s2)"
    "\<not> ge_rescore ge \<longrightarrow> (\<forall>x \<in> set xs. init_item ge (fst x) \<in> set (ex_queue s2))" by auto
  with s1 have "go_fold (start_node E ge) st (x # xs) = Inr s2 \<and> run_inv ge s2
    \<and> set (ex_queue st) \<subseteq> set (ex_queue s2)
    \<and> (\<not> ge_rescore ge \<longrightarrow> (\<forall>y \<in> set (x # xs). init_item ge (fst y) \<in> set (ex_queue s2)))" by auto
  then show ?case by blast
qed simp

lemma start_ok:
  assumes "env_ok E" and "prioritized ge" and "wired ge (ge_nodes ge)" and "map_ok (ge_nodes ge)"
  shows "\<exists>st. start E ge = Inr st \<and> run_inv ge st
    \<and> (\<not> ge_rescore ge \<longrightarrow> (\<forall>x \<in> set (ge_nodes ge). init_item ge (fst x) \<in> set (ex_queue st)))"
proof -
  let ?st = "\<lparr>ex_nodes = ge_nodes ge, ex_queue = [], ex_closed = False, ex_effects = []\<rparr>"
  have "run_inv ge ?st" using assms(3) by (simp add: run_inv_def)
  moreover have "\<forall>x \<in> set (ge_nodes ge). map_get (ex_nodes ?st) (fst x) = Some (snd x)"
    using assms(4) unfolding map_ok_def by (auto intro: map_of_is_SomeI)
  ultimately show ?thesis
    using start_fold [OF assms(1-4), of "ge_nodes ge" ?st] assms(4) unfolding start_def map_ok_def by simp
qed

lemma execute_ok:
  assumes "env_ok E" and "prioritized ge" and "wired ge (ge_nodes ge)" and "map_ok (ge_nodes ge)"
    and "batches_ok ge bs"
  shows "\<exists>n out. \<forall>m \<ge> n. Execute E ge m bs = Some (Inr out)"
proof -
  from start_ok [OF assms(1-4)] obtain st where st: "start E ge = Inr st" "run_inv ge st" by blast
  from execute_loop_ok [OF assms(1,2) st(2) assms(5), of False] obtain n out where
    loop: "execute_loop E ge n False st bs = Some (Inr out)" by blast
  have "Execute E ge m bs = Some (Inr out)" if "n \<le> m" for m
    using execute_loop_mono [OF loop that] st(1) by (simp add: Execute_def)
  then show ?thesis by blast
qed

text \<open>C4: a wired graph with decreasing priorities is executed without a panic and without
  looping, whatever batches of results for its datapoints arrive: enough fuel gives an outcome, and more
  fuel the same. No nil node is dereferenced, no job gets a score or a result it does not expect, the
  done channel is not closed twice, no calculator divides by zero.\<close>

theorem execution_terminates_without_panic:
  assumes "env_ok E" and "prioritized ge" and "wired ge (ge_nodes ge)" and "map_ok (ge_nodes ge)"
    and "batches_ok ge bs"
  shows "\<exists>n out. \<forall>m \<ge> n. Execute E ge m bs = Some (Inr out)"
  using assms by (rule execute_ok)

subsection \<open>A round ends up to date\<close>

text \<open>A node that has nothing to say: asking it changes nothing and yields nothing.\<close>

definition quiescent :: "'v env \<Rightarrow> 'v nodeData \<Rightarrow> bool" where
  "quiescent E nd \<longleftrightarrow> node_recalculate E nd = Inr (nd, [], None)"

lemma recalculate_quiescent:
  assumes "node_recalculate E nd = Inr (nd', effs, ev)"
  shows "quiescent E nd'"
proof (cases nd)
  case (ReportingQuery d)
  with assms obtain d' where d': "nd' = ReportingQuery d'" "ReportingQuery_recalculate E d = Inr (d', effs, ev)"
    by (auto simp: lift_recalc_def)
  then have "\<not> rq_invalidated d'"
    by (auto simp: ReportingQuery_recalculate_def go_bind_Inr_iff Let_def split: if_splits)
  with d'(1) show ?thesis by (simp add: quiescent_def lift_recalc_def ReportingQuery_recalculate_def)
next
  case (ReportingJob d)
  with assms obtain d' where d': "nd' = ReportingJob d'" "ReportingJob_recalculate E d = Inr (d', effs, ev)"
    by (auto simp: lift_recalc_def)
  have "rj_queryID d \<noteq> ''''" using d'(2) by (auto simp: ReportingJob_recalculate_def)
  moreover have "\<not> rj_invalidated d' \<or> rj_completed d'"
    using job_recalculate_cases [OF d'(2)] by auto
  ultimately show ?thesis using d'(1) job_recalculate_keeps [OF d'(2)]
    by (simp add: quiescent_def lift_recalc_def ReportingJob_recalculate_def)
qed (use assms in \<open>auto simp: quiescent_def lift_recalc_def ExecutionQuery_recalculate_def Datapoint_recalculate_def
      StaticReportingJob_recalculate_def CollectionFinisher_recalculate_def DatapointCollector_recalculate_def
      ScoreCollector_recalculate_def Let_def split: if_splits\<close>)

text \<open>Every node is quiescent or waits in the queue.\<close>

definition up_to_date :: "'v env \<Rightarrow> 'v exec \<Rightarrow> bool" where
  "up_to_date E st \<longleftrightarrow> (\<forall>n d. node_at (ex_nodes st) n = Some d \<longrightarrow>
     quiescent E d \<or> n \<in> it_receiver ` set (ex_queue st))"

lemma deliver_up_to_date:
  assumes "deliver E u sender prio v ev st = Inr st'" and "up_to_date E st" and "heap_ok (ex_queue st) (length (ex_queue st))"
  shows "up_to_date E st' \<and> heap_ok (ex_queue st') (length (ex_queue st'))"
proof -
  from assms(1) obtain x d where st': "st' = st\<lparr>ex_nodes := map_put v (x\<lparr>nd_data := d\<rparr>) (ex_nodes st),
      ex_queue := heap_Push (ex_queue st) \<lparr>it_receiver = v, it_sender = sender, it_priority = prio\<rparr>\<rparr>"
    by (auto simp: deliver_def go_bind_Inr_iff)
  have "set (ex_queue st') = insert \<lparr>it_receiver = v, it_sender = sender, it_priority = prio\<rparr> (set (ex_queue st))"
    using set_heap_Push [OF assms(3)] by (simp add: st')
  moreover have "node_at (ex_nodes st') = (node_at (ex_nodes st))(v \<mapsto> d)" by (simp add: st' node_at_put)
  ultimately have "up_to_date E st'" using assms(2) by (auto simp: up_to_date_def)
  with heap_Push_ok [OF assms(3)] show ?thesis by (simp add: st')
qed

lemma delivers_up_to_date:
  assumes "go_fold (\<lambda>st x. deliver E (f x) (g x) (p x) (v x) (ev x) st) st xs = Inr st'"
    and "up_to_date E st" and "heap_ok (ex_queue st) (length (ex_queue st))"
  shows "up_to_date E st' \<and> heap_ok (ex_queue st') (length (ex_queue st'))"
  using assms
proof (induction xs arbitrary: st)
  case (Cons x xs)
  from Cons.prems(1) obtain s1 where s1: "deliver E (f x) (g x) (p x) (v x) (ev x) st = Inr s1"
    "go_fold (\<lambda>st x. deliver E (f x) (g x) (p x) (v x) (ev x) st) s1 xs = Inr st'"
    by (auto simp: go_bind_Inr_iff)
  from Cons.IH [OF s1(2)] deliver_up_to_date [OF s1(1) Cons.prems(2,3)] show ?case by blast
qed simp

lemma perform_nodes: "go_fold perform st effs = Inr st' \<Longrightarrow> ex_nodes st' = ex_nodes st"
  by (induction effs arbitrary: st) (auto simp: go_bind_Inr_iff perform_def split: if_splits)

lemma process_item_up_to_date:
  assumes "process_item E ge st = Inr st'" and "up_to_date E st" and "heap_ok (ex_queue st) (length (ex_queue st))"
  shows "up_to_date E st' \<and> heap_ok (ex_queue st') (length (ex_queue st'))"
proof (cases "heap_Pop (ex_queue st)")
  case None
  with assms show ?thesis by (simp add: process_item_def)
next
  case (Some p)
  then obtain it q where pop: "heap_Pop (ex_queue st) = Some (it, q)" by (cases p) auto
  from heap_Pop_ok [OF assms(3) pop] have q: "heap_ok q (length q)" "mset (ex_queue st) = add_mset it (mset q)" by blast+
  then have qs: "set (ex_queue st) = insert it (set q)" by (metis set_mset_add_mset_insert set_mset_mset)
  let ?r = "it_receiver it"
  from assms(1) pop obtain n d effs ev st1 where p: "map_get (ex_nodes st) ?r = Some n"
    "node_recalculate E (nd_data n) = Inr (d, effs, ev)"
    "go_fold perform (st\<lparr>ex_queue := q, ex_nodes := map_put ?r (n\<lparr>nd_data := d\<rparr>) (ex_nodes st)\<rparr>) effs = Inr st1"
    "(case ev of None \<Rightarrow> Inr st1 | Some e \<Rightarrow>
        go_fold (\<lambda>st v. deliver E (nd_id n) ?r (priority_of ge v) v e st) st1 (edges_of ge ?r)) = Inr st'"
    by (cases "map_get (ex_nodes st) (it_receiver it)") (auto simp: process_item_def Let_def go_bind_Inr_iff)
  have "up_to_date E st1" and h1: "heap_ok (ex_queue st1) (length (ex_queue st1))"
    using perform_nodes [OF p(3)] perform_queue [OF p(3)] q(1) qs assms(2) recalculate_quiescent [OF p(2)]
    by (auto simp: up_to_date_def node_at_put)
  then show ?thesis using p(4) delivers_up_to_date [of E "\<lambda>_. nd_id n" "\<lambda>_. ?r" "priority_of ge" id _ st1 "edges_of ge ?r" st']
    by (cases ev) auto
qed

lemma process_queue_up_to_date:
  assumes "process_queue E ge n st = Some (Inr st')" and "up_to_date E st" and "heap_ok (ex_queue st) (length (ex_queue st))"
  shows "up_to_date E st' \<and> heap_ok (ex_queue st') (length (ex_queue st')) \<and> ex_queue st' = []"
  using assms
proof (induction n arbitrary: st)
  case (Suc n)
  show ?case
  proof (cases "ex_queue st = []")
    case False
    with Suc.prems(1) obtain s1 where "process_item E ge st = Inr s1" "process_queue E ge n s1 = Some (Inr st')"
      by (auto split: sum.splits)
    with Suc.IH [of s1] process_item_up_to_date [OF _ Suc.prems(2,3)] show ?thesis by blast
  qed (use Suc.prems in auto)
qed simp

fun outcome_exec :: "'v outcome \<Rightarrow> 'v exec" where
  "outcome_exec (Waiting st) = st"
| "outcome_exec (Finished st) = st"
| "outcome_exec (Failed st) = st"

lemma execute_loop_up_to_date:
  assumes "execute_loop E ge n d st bs = Some (Inr out)" and "up_to_date E st" and "heap_ok (ex_queue st) (length (ex_queue st))"
  shows "up_to_date E (outcome_exec out) \<and> ex_queue (outcome_exec out) = []"
  using assms
proof (induction bs arbitrary: d st)
  case Nil
  then obtain s1 where s1: "process_queue E ge n st = Some (Inr s1)"
    by (auto simp: execute_loop.simps [of E ge n d st "[]"] split: option.splits sum.splits)
  from process_queue_up_to_date [OF s1 Nil.prems(2,3)] Nil.prems(1) s1 show ?case
    by (auto simp: execute_loop.simps [of E ge n d st "[]"] split: if_splits)
next
  case (Cons b bs)
  obtain msg drained where b: "b = (msg, drained)" by fastforce
  from Cons.prems(1) obtain s1 where s1: "process_queue E ge n st = Some (Inr s1)"
    by (auto simp: execute_loop.simps [of E ge n d st "b # bs"] split: option.splits sum.splits)
  note u1 = process_queue_up_to_date [OF s1 Cons.prems(2,3)]
  have body: "(if ge_rescore ge \<or> d then Some (Inr (Finished s1))
      else case msg of ErrMsg \<Rightarrow> Some (Inr (Failed s1))
        | _ \<Rightarrow> (case go_fold (receive E ge) s1 (message_results msg @ drained) of
              Inl p \<Rightarrow> Some (Inl p) | Inr st \<Rightarrow> execute_loop E ge n (msg = DoneMsg) st bs)) = Some (Inr out)"
    using Cons.prems(1) unfolding execute_loop.simps [of E ge n d st "b # bs"]
    by (cases msg) (auto simp: s1 b split: if_splits)
  show ?case
  proof (cases "(ge_rescore ge \<or> d) \<or> msg = ErrMsg")
    case True
    with body u1 show ?thesis by (auto split: if_splits)
  next
    case False
    with body obtain s2 where s2: "go_fold (receive E ge) s1 (message_results msg @ drained) = Inr s2"
      "execute_loop E ge n (msg = DoneMsg) s2 bs = Some (Inr out)"
      by (cases msg) (auto split: sum.splits)
    have "up_to_date E s2 \<and> heap_ok (ex_queue s2) (length (ex_queue s2))"
      using s2(1) u1 delivers_up_to_date [of E "\<lambda>_. ''''" "\<lambda>_. ''''" "\<lambda>_. maxPriority ge" rr_CodeID
          "\<lambda>r. \<lparr>ev_res = Some r, ev_score = None\<rparr>" s1 "message_results msg @ drained" s2]
      by (simp add: receive_def [abs_def])
    with Cons.IH [OF s2(2)] show ?thesis by blast
  qed
qed


subsection \<open>Rescore mode\<close>

text \<open>A node no edge leads to stays as it is while it is not in the queue.\<close>

definition untouched :: "NodeID \<Rightarrow> 'v nodeData \<Rightarrow> 'v exec \<Rightarrow> bool" where
  "untouched k d st \<longleftrightarrow> node_at (ex_nodes st) k = Some d \<and> k \<notin> it_receiver ` set (ex_queue st)
     \<and> heap_ok (ex_queue st) (length (ex_queue st))"

lemma deliver_untouched:
  assumes "deliver E u sender prio v ev st = Inr st'" and "untouched k d st" and "v \<noteq> k"
  shows "untouched k d st'"
  using assms heap_Push_ok [of "ex_queue st"] set_heap_Push [of "ex_queue st"]
  by (auto simp: deliver_def go_bind_Inr_iff untouched_def node_at_put)

lemma delivers_untouched:
  assumes "go_fold (\<lambda>st v. deliver E u r (priority_of ge v) v e st) st vs = Inr st'"
    and "untouched k d st" and "k \<notin> set vs"
  shows "untouched k d st'"
  using assms
proof (induction vs arbitrary: st)
  case (Cons v vs)
  then obtain s1 where s1: "deliver E u r (priority_of ge v) v e st = Inr s1"
    "go_fold (\<lambda>st v. deliver E u r (priority_of ge v) v e st) s1 vs = Inr st'"
    by (auto simp: go_bind_Inr_iff)
  have v: "v \<noteq> k" "k \<notin> set vs" using Cons.prems(3) by auto
  show ?case by (rule Cons.IH [OF s1(2) deliver_untouched [OF s1(1) Cons.prems(2) v(1)] v(2)])
qed simp

lemma process_item_untouched:
  assumes "process_item E ge st = Inr st'" and "untouched k d st" and "\<forall>u. k \<notin> set (edges_of ge u)"
  shows "untouched k d st'"
proof (cases "heap_Pop (ex_queue st)")
  case None
  with assms show ?thesis by (simp add: process_item_def)
next
  case (Some p)
  then obtain it q where pop: "heap_Pop (ex_queue st) = Some (it, q)" by (cases p) auto
  have h: "heap_ok (ex_queue st) (length (ex_queue st))" using assms(2) by (simp add: untouched_def)
  from heap_Pop_ok [OF h pop] have q: "heap_ok q (length q)" "mset (ex_queue st) = add_mset it (mset q)" by blast+
  then have qs: "set (ex_queue st) = insert it (set q)" by (metis set_mset_add_mset_insert set_mset_mset)
  from assms(1) pop obtain n d' effs ev st1 where p:
    "go_fold perform (st\<lparr>ex_queue := q, ex_nodes := map_put (it_receiver it) (n\<lparr>nd_data := d'\<rparr>) (ex_nodes st)\<rparr>) effs = Inr st1"
    "(case ev of None \<Rightarrow> Inr st1 | Some e \<Rightarrow> go_fold (\<lambda>st v. deliver E (nd_id n) (it_receiver it) (priority_of ge v) v e st)
        st1 (edges_of ge (it_receiver it))) = Inr st'"
    by (cases "map_get (ex_nodes st) (it_receiver it)") (auto simp: process_item_def Let_def go_bind_Inr_iff)
  have "untouched k d st1"
    using perform_nodes [OF p(1)] perform_queue [OF p(1)] q(1) qs assms(2) by (auto simp: untouched_def node_at_put)
  then show ?thesis
  proof (cases ev)
    case (Some e)
    with p(2) have "go_fold (\<lambda>st v. deliver E (nd_id n) (it_receiver it) (priority_of ge v) v e st)
        st1 (edges_of ge (it_receiver it)) = Inr st'" by simp
    from delivers_untouched [OF this \<open>untouched k d st1\<close>] assms(3) show ?thesis by blast
  qed (use p(2) \<open>untouched k d st1\<close> in simp)
qed

lemma process_queue_untouched:
  assumes "process_queue E ge n st = Some (Inr st')" and "untouched k d st" and "\<forall>u. k \<notin> set (edges_of ge u)"
  shows "untouched k d st'"
  using assms(1,2)
proof (induction n arbitrary: st)
  case (Suc n)
  then show ?case using process_item_untouched [OF _ _ assms(3)] by (auto split: if_splits sum.splits)
qed simp

lemma start_fold_untouched:
  assumes "go_fold (start_node E ge) st xs = Inr st'" and "untouched k d st" and "k \<notin> fst ` set xs"
  shows "untouched k d st'"
  using assms
proof (induction xs arbitrary: st)
  case (Cons x xs)
  obtain j n where x: "x = (j, n)" by fastforce
  with Cons.prems obtain s1 where s1: "start_node E ge st (j, n) = Inr s1" "go_fold (start_node E ge) s1 xs = Inr st'"
    by (auto simp: go_bind_Inr_iff)
  have "untouched k d s1" using s1(1) Cons.prems(2,3) heap_Push_ok [of "ex_queue st"] set_heap_Push [of "ex_queue st"] x
    by (auto simp: start_node_def go_bind_Inr_iff untouched_def node_at_put Let_def init_item_def split: if_splits)
  from Cons.IH [OF s1(2) this] Cons.prems(3) show ?case by simp
qed simp

text \<open>In rescore mode a reporting job without a supplied score that no edge leads to is
  initialized and never recalculated: it sends no score, so a parent that counts it as a child waits
  for it forever.\<close>

theorem rescore_skips_childless_jobs:
  assumes "ge_rescore ge" and "map_ok (ge_nodes ge)" and "node_at (ge_nodes ge) k = Some (ReportingJob d)"
    and "\<forall>u. k \<notin> set (edges_of ge u)" and "Execute E ge n bs = Some (Inr out)"
  shows "node_at (ex_nodes (outcome_exec out)) k = Some (ReportingJob (ReportingJob_initialize d))
    \<and> (\<forall>it \<in> set (ex_queue (outcome_exec out)). it_receiver it \<noteq> k)"
proof -
  from assms(3) obtain x where x: "map_get (ge_nodes ge) k = Some x" "nd_data x = ReportingJob d"
    by (auto simp: node_at_def)
  then have "(k, x) \<in> set (ge_nodes ge)" by (simp add: map_of_SomeD)
  then obtain us vs where sp: "ge_nodes ge = us @ (k, x) # vs" by (meson split_list)
  with assms(2) have k: "k \<notin> fst ` set us" "k \<notin> fst ` set vs" by (auto simp: map_ok_def)
  let ?st = "\<lparr>ex_nodes = ge_nodes ge, ex_queue = [], ex_closed = False, ex_effects = []\<rparr>"
  have app: "go_fold f s (xs @ ys) = go_bind (go_fold f s xs) (\<lambda>s. go_fold f s ys)" for f s and xs ys :: "(NodeID \<times> 'a Node) list"
  proof (induction xs arbitrary: s)
    case (Cons z zs)
    then show ?case by (cases "f s z") auto
  qed simp
  from assms(5) obtain st where st: "start E ge = Inr st" "execute_loop E ge n False st bs = Some (Inr out)"
    by (auto simp: Execute_def split: sum.splits)
  from st(1) obtain s1 s2 where s: "go_fold (start_node E ge) ?st us = Inr s1"
    "start_node E ge s1 (k, x) = Inr s2" "go_fold (start_node E ge) s2 vs = Inr st"
    by (auto simp: start_def sp app go_bind_Inr_iff)
  have "untouched k (ReportingJob d) ?st" using assms(3) by (simp add: untouched_def)
  from start_fold_untouched [OF s(1) this k(1)] have "untouched k (ReportingJob d) s1" .
  then have "untouched k (ReportingJob (ReportingJob_initialize d)) s2"
    using s(2) assms(1) x(2) by (auto simp: start_node_def untouched_def node_at_put Let_def)
  from start_fold_untouched [OF s(3) this k(2)] have u: "untouched k (ReportingJob (ReportingJob_initialize d)) st" .
  from st(2) assms(1) obtain s3 where "process_queue E ge n st = Some (Inr s3)" "out = Finished s3"
    by (cases bs) (auto simp: execute_loop.simps [of E ge n False st] split: option.splits sum.splits)
  with process_queue_untouched [OF _ u assms(4)] show ?thesis by (auto simp: untouched_def)
qed

subsection \<open>A concrete graph\<close>

definition small_graph :: "bool \<Rightarrow> nat GraphExecutor" where
  "small_graph rescore = \<lparr>
     ge_nodes = [
       (''c'', \<lparr>nd_id = ''c'', nd_type = DatapointNodeType, nd_data = Datapoint test_datapoint\<rparr>),
       (''q'', \<lparr>nd_id = ''q'', nd_type = ReportingQueryNodeType, nd_data = ReportingQuery test_query\<rparr>),
       (''j'', \<lparr>nd_id = ''j'', nd_type = ReportingJobNodeType, nd_data = ReportingJob
          (test_job\<lparr>rj_childScores := [(''q'', \<lparr>rr_impact = None, rr_score = None\<rparr>)]\<rparr>)\<rparr>),
       (''s'', \<lparr>nd_id = ''s'', nd_type = ScoreCollectorNodeType, nd_data = ScoreCollector
          \<lparr>sco_collectors = [''out''], sco_unreported = [], sco_invalidated = False\<rparr>\<rparr>),
       (''f'', \<lparr>nd_id = ''f'', nd_type = CollectionFinisherNodeType, nd_data = CollectionFinisher
          \<lparr>cf_totalDatapoints = 1, cf_remainingDatapoints = [(''c'', ())], cf_invalidated = False\<rparr>\<rparr>)],
     ge_edges = (if rescore then [(''j'', [''s''])]
       else [(''c'', [''f'', ''j'', ''q'']), (''q'', [''j'']), (''j'', [''s''])]),
     ge_priorityMap = [(''c'', 4), (''q'', 3), (''j'', 2), (''s'', 1), (''f'', - 9223372036854775808)],
     ge_rescore = rescore\<rparr>"

lemma test_env_ok: "env_ok test_env"
  by (simp add: env_ok_def test_env_def)

lemma small_graph_prioritized: "prioritized (small_graph False)"
  by (auto simp: prioritized_def small_graph_def edges_of_def priority_of_def maxPriority_def split: if_splits)

lemma small_graph_map_ok: "map_ok (ge_nodes (small_graph b))"
  by (simp add: small_graph_def map_ok_def)

lemma small_graph_wired: "wired (small_graph False) (ge_nodes (small_graph False))"
  unfolding wired_def
  by (intro conjI allI impI)
    (auto simp: small_graph_def edges_of_def shape_at_def node_at_def test_datapoint_def test_query_def test_job_def split: if_splits)

lemma small_graph_batches: "batches_ok (small_graph False) [(ResultMsg (test_result ''c'' (Some 1) None), []), (DoneMsg, [])]"
  by (simp add: batches_ok_def results_ok_def with_data_def test_result_def small_graph_def shape_at_def node_at_def)

theorem execution_terminates_without_panic_witness:
  "\<exists>n out. \<forall>m \<ge> n. Execute test_env (small_graph False) m
     [(ResultMsg (test_result ''c'' (Some 1) None), []), (DoneMsg, [])] = Some (Inr out)"
  by (rule execution_terminates_without_panic [OF test_env_ok small_graph_prioritized small_graph_wired
        small_graph_map_ok small_graph_batches])

text \<open>The scores the run hands to the collectors.\<close>

definition sunk_scores :: "'v effect list \<Rightarrow> Score list" where
  "sunk_scores effs = concat (map (\<lambda>e. case e of SinkScore c ss \<Rightarrow> ss | _ \<Rightarrow> []) effs)"

fun finished_scores :: "'v outcome go option \<Rightarrow> (string \<times> u32) list option" where
  "finished_scores (Some (Inr (Finished st))) =
     Some (map (\<lambda>s. (sc_QrId s, sc_Value s)) (sunk_scores (ex_effects st)))"
| "finished_scores _ = None"

lemma small_graph_rescore:
  "finished_scores (Execute test_env (small_graph True) 30 []) = Some []"
  by code_simp


theorem rescore_skips_childless_jobs_witness:
  "\<exists>out d. Execute test_env (small_graph True) 30 [] = Some (Inr out)
    \<and> node_at (ex_nodes (outcome_exec out)) ''j'' = Some (ReportingJob d) \<and> rj_invalidated d"
proof -
  from small_graph_rescore obtain out where run: "Execute test_env (small_graph True) 30 [] = Some (Inr out)"
    by (cases "Execute test_env (small_graph True) 30 []" rule: finished_scores.cases) auto
  have n: "node_at (ge_nodes (small_graph True)) ''j'' =
      Some (ReportingJob (test_job\<lparr>rj_childScores := [(''q'', \<lparr>rr_impact = None, rr_score = None\<rparr>)]\<rparr>))"
    by (simp add: small_graph_def node_at_def)
  have e: "\<forall>u. ''j'' \<notin> set (edges_of (small_graph True) u)" by (simp add: small_graph_def edges_of_def)
  have r: "ge_rescore (small_graph True)" by (simp add: small_graph_def)
  from rescore_skips_childless_jobs [OF r small_graph_map_ok n e run] run show ?thesis
    by (auto simp: ReportingJob_initialize_def)
qed

end
