(* ===== verification/Build_Priorities.thy ===== *)
theory Build_Priorities
  imports Graph_Builder Graph_Exec_Results
begin

text \<open>
  The sorted edge lists and the priorities of a built graph. \<open>sort_Search_first\<close> is the contract of the
  binary search, \<open>insertSorted_ok\<close> that of the sorted insertion. \<open>prioritizeNodes_returns_iff\<close> says when
  the depth-first search returns (no cycle in reach), \<open>prioritizeNodes_ok\<close> what it then has assigned, and
  \<open>Build_prioritized\<close> that this is the order the executor's rounds need.
\<close>

subsection \<open>Sorted edge lists\<close>

text \<open>The binary search: on a predicate that stays true once it is, the first index where it holds.\<close>

lemma sort_Search_first:
  assumes "i \<le> j" and "\<And>a b. f a \<Longrightarrow> a \<le> b \<Longrightarrow> b < j \<Longrightarrow> f b" and "\<And>a. a < i \<Longrightarrow> \<not> f a"
  shows "sort_Search f i j \<le> j \<and> (\<forall>a < sort_Search f i j. \<not> f a)
    \<and> (sort_Search f i j < j \<longrightarrow> f (sort_Search f i j))"
  using assms
proof (induction "j - i" arbitrary: i j rule: less_induct)
  case (less i j)
  note upward = less.prems(2) and below = less.prems(3)
  show ?case
  proof (cases "i < j")
    case False
    then have "sort_Search f i j = i" by (subst sort_Search.simps) simp
    with False less.prems show ?thesis by simp
  next
    case True
    let ?h = "(i + j) div 2"
    have h: "i \<le> ?h" "?h < j" using True by auto
    have u: "sort_Search f i j = (if \<not> f ?h then sort_Search f (?h + 1) j else sort_Search f i ?h)"
      using True by (subst sort_Search.simps) (simp add: Let_def)
    show ?thesis
    proof (cases "f ?h")
      case False
      have "\<not> f a" if "a < ?h + 1" for a
      proof
        assume "f a"
        with upward [of a ?h] that h(2) False show False by simp
      qed
      with less.hyps [of j "?h + 1"] h upward False u show ?thesis by simp
    next
      case f: True
      have "sort_Search f i ?h \<le> ?h \<and> (\<forall>a < sort_Search f i ?h. \<not> f a)
        \<and> (sort_Search f i ?h < ?h \<longrightarrow> f (sort_Search f i ?h))"
        by (rule less.hyps) (use h below upward in auto)
      with u f h show ?thesis by (cases "sort_Search f i ?h = ?h") auto
    qed
  qed
qed

lemma SearchStrings_split:
  assumes "sorted_wrt (<) ss"
    and "i = SearchStrings ss s"
  shows "i \<le> length ss" and "\<forall>x \<in> set (take i ss). x < s" and "\<forall>x \<in> set (drop i ss). s \<le> x"
proof -
  have srt: "sorted ss" using assms(1) by (simp add: strict_sorted_iff)
  have "sort_Search (\<lambda>i. s \<le> ss ! i) 0 (length ss) \<le> length ss
    \<and> (\<forall>a < sort_Search (\<lambda>i. s \<le> ss ! i) 0 (length ss). \<not> s \<le> ss ! a)
    \<and> (sort_Search (\<lambda>i. s \<le> ss ! i) 0 (length ss) < length ss
        \<longrightarrow> s \<le> ss ! sort_Search (\<lambda>i. s \<le> ss ! i) 0 (length ss))"
  proof (rule sort_Search_first)
    fix a b assume "s \<le> ss ! a" "a \<le> b" "b < length ss"
    then show "s \<le> ss ! b" using sorted_nth_mono [OF srt, of a b] by simp
  qed simp_all
  then have i: "i \<le> length ss" "\<forall>a < i. ss ! a < s" "i < length ss \<longrightarrow> s \<le> ss ! i"
    unfolding assms(2) SearchStrings_def by (simp_all add: not_le)
  show "i \<le> length ss" by (rule i)
  show "\<forall>x \<in> set (take i ss). x < s" using i(1,2) by (auto simp: in_set_conv_nth)
  show "\<forall>x \<in> set (drop i ss). s \<le> x"
  proof
    fix x assume "x \<in> set (drop i ss)"
    then obtain k where "x = ss ! (i + k)" "i + k < length ss" by (auto simp: in_set_conv_nth)
    with i(3) sorted_nth_mono [OF srt, of i "i + k"] show "s \<le> x" by simp
  qed
qed

lemma insertSorted_ok:
  assumes "sorted_wrt (<) ss"
  shows "sorted_wrt (<) (insertSorted ss s) \<and> set (insertSorted ss s) = insert s (set ss)"
proof -
  let ?i = "SearchStrings ss s"
  note sp = SearchStrings_split [OF assms refl, of s]
  show ?thesis
  proof (cases "?i < length ss \<and> ss ! ?i = s")
    case True
    with assms nth_mem [of ?i ss] show ?thesis by (auto simp: insertSorted_def Let_def)
  next
    case False
    have d: "s \<notin> set (drop ?i ss)"
    proof
      assume "s \<in> set (drop ?i ss)"
      then obtain y ys where y: "drop ?i ss = y # ys" by (cases "drop ?i ss") auto
      have "sorted_wrt (<) (drop ?i ss)" using assms by (metis sorted_wrt_drop)
      with y \<open>s \<in> set (drop ?i ss)\<close> sp(3) have "y = s" by (auto simp: less_le_not_le)
      moreover have "?i < length ss" using y by (metis drop_eq_Nil list.distinct(1) not_le)
      moreover have "ss ! ?i = y" using y \<open>?i < length ss\<close> by (metis hd_drop_conv_nth list.sel(1))
      ultimately show False using False by simp
    qed
    have "sorted_wrt (<) (take ?i ss @ [s] @ drop ?i ss)"
      using assms sp(2,3) d sorted_wrt_append [of "(<)" "take ?i ss" "drop ?i ss"]
      by (auto simp: sorted_wrt_append less_le)
    moreover have "set (take ?i ss @ [s] @ drop ?i ss) = insert s (set ss)"
      using set_append [of "take ?i ss" "drop ?i ss"] by simp
    ultimately show ?thesis using False unfolding insertSorted_def Let_def if_not_P [OF False] by blast
  qed
qed

subsection \<open>The depth-first search for priorities\<close>

definition edge_rel :: "(NodeID \<Rightarrow> NodeID list) \<Rightarrow> (NodeID \<times> NodeID) set" where
  "edge_rel edges = {(u, v). v \<in> set (edges u)}"

text \<open>The nodes from which a cycle can be reached.\<close>

definition cyclic_from :: "(NodeID \<Rightarrow> NodeID list) \<Rightarrow> NodeID \<Rightarrow> bool" where
  "cyclic_from edges n \<longleftrightarrow> (\<exists>m. (n, m) \<in> (edge_rel edges)\<^sup>* \<and> (m, m) \<in> (edge_rel edges)\<^sup>+)"

lemma cyclic_from_child: "cyclic_from edges n \<longleftrightarrow> (\<exists>v \<in> set (edges n). cyclic_from edges v)"
proof
  assume "cyclic_from edges n"
  then obtain m where m: "(n, m) \<in> (edge_rel edges)\<^sup>*" "(m, m) \<in> (edge_rel edges)\<^sup>+" by (auto simp: cyclic_from_def)
  from m have "(n, m) \<in> (edge_rel edges)\<^sup>+" by (rule rtrancl_trancl_trancl)
  then obtain v where "(n, v) \<in> edge_rel edges" "(v, m) \<in> (edge_rel edges)\<^sup>*" by (meson tranclD)
  with m(2) show "\<exists>v \<in> set (edges n). cyclic_from edges v"
    by (auto simp: cyclic_from_def edge_rel_def)
next
  assume "\<exists>v \<in> set (edges n). cyclic_from edges v"
  then show "cyclic_from edges n"
    unfolding cyclic_from_def edge_rel_def by (blast intro: converse_rtrancl_into_rtrancl)
qed

lemma prioritizeNode_new:
  assumes "prioritizeNode (Suc k) edges pm n = Some (d, pm')" and "map_get pm n = None"
  shows "\<exists>c pm1. prioritizeChildren k edges pm (edges n) 0 = Some (c, pm1) \<and> d = c + 1 \<and> pm' = map_put n d pm1"
proof (cases "prioritizeChildren k edges pm (edges n) 0")
  case (Some p)
  then obtain c pm1 where "prioritizeChildren k edges pm (edges n) 0 = Some (c, pm1)" by (cases p) auto
  with assms show ?thesis by (auto simp: Let_def)
qed (use assms in simp)

text \<open>A search that returns has met no such node, whatever the depth.\<close>

lemma prioritizeChildren_acyclic:
  assumes "\<And>pm n d pm'. prioritizeNode k edges pm n = Some (d, pm') \<Longrightarrow> \<forall>x. has_key pm x \<longrightarrow> \<not> cyclic_from edges x
      \<Longrightarrow> \<not> cyclic_from edges n \<and> (\<forall>x. has_key pm' x \<longrightarrow> \<not> cyclic_from edges x)"
    and "prioritizeChildren k edges pm vs m = Some (m', pm')" and "\<forall>x. has_key pm x \<longrightarrow> \<not> cyclic_from edges x"
  shows "(\<forall>v \<in> set vs. \<not> cyclic_from edges v) \<and> (\<forall>x. has_key pm' x \<longrightarrow> \<not> cyclic_from edges x)"
  using assms(2,3)
proof (induction vs arbitrary: pm m)
  case (Cons v vs)
  from Cons.prems(1) obtain d pm1 where 1: "prioritizeNode k edges pm v = Some (d, pm1)"
    "prioritizeChildren k edges pm1 vs (if m < d then d else m) = Some (m', pm')"
    by (auto split: option.splits prod.splits)
  note r = assms(1) [OF 1(1) Cons.prems(2)]
  note v = r [THEN conjunct1] and pm1 = r [THEN conjunct2]
  from v Cons.IH [OF 1(2) pm1] show ?case by simp
qed simp

lemma prioritizeNode_acyclic:
  assumes "prioritizeNode k edges pm n = Some (d, pm')" and "\<forall>x. has_key pm x \<longrightarrow> \<not> cyclic_from edges x"
  shows "\<not> cyclic_from edges n \<and> (\<forall>x. has_key pm' x \<longrightarrow> \<not> cyclic_from edges x)"
  using assms
proof (induction k arbitrary: pm n d pm')
  case (Suc k)
  show ?case
  proof (cases "map_get pm n")
    case (Some p)
    then have "has_key pm n" by (rule has_key_get)
    with Some Suc.prems show ?thesis by auto
  next
    case None
    from prioritizeNode_new [OF Suc.prems(1) None] obtain c pm1 where
      c: "prioritizeChildren k edges pm (edges n) 0 = Some (c, pm1)" "d = c + 1" "pm' = map_put n d pm1" by blast
    have r: "(\<forall>v \<in> set (edges n). \<not> cyclic_from edges v) \<and> (\<forall>x. has_key pm1 x \<longrightarrow> \<not> cyclic_from edges x)"
      by (rule prioritizeChildren_acyclic [OF _ c(1) Suc.prems(2)]) (rule Suc.IH)
    from r [THEN conjunct1] have "\<not> cyclic_from edges n" by (simp add: cyclic_from_child [of edges n])
    with r c(3) show ?thesis by simp
  qed
qed simp

text \<open>Without a cycle the depth of the search is bounded by the nodes with out edges it can reach.\<close>

definition reachable_in :: "NodeID set \<Rightarrow> (NodeID \<Rightarrow> NodeID list) \<Rightarrow> NodeID \<Rightarrow> NodeID set" where
  "reachable_in K edges n = {m \<in> K. (n, m) \<in> (edge_rel edges)\<^sup>*}"

lemma reachable_child:
  assumes "finite K" and "\<And>u. edges u \<noteq> [] \<Longrightarrow> u \<in> K" and "\<not> cyclic_from edges n" and "v \<in> set (edges n)"
  shows "card (reachable_in K edges v) < card (reachable_in K edges n)"
proof (rule psubset_card_mono)
  show "finite (reachable_in K edges n)" using assms(1) by (simp add: reachable_in_def)
  have nv: "(n, v) \<in> edge_rel edges" using assms(4) by (simp add: edge_rel_def)
  have "n \<in> K" using assms(2) [of n] assms(4) by (cases "edges n") auto
  then have "n \<in> reachable_in K edges n" by (simp add: reachable_in_def)
  moreover have "n \<notin> reachable_in K edges v"
  proof
    assume "n \<in> reachable_in K edges v"
    then have "(v, n) \<in> (edge_rel edges)\<^sup>*" by (simp add: reachable_in_def)
    with nv have "(n, n) \<in> (edge_rel edges)\<^sup>+" by (rule rtrancl_into_trancl2)
    with assms(3) show False by (auto simp: cyclic_from_def)
  qed
  moreover have "reachable_in K edges v \<subseteq> reachable_in K edges n"
    using nv by (auto simp: reachable_in_def intro: converse_rtrancl_into_rtrancl)
  ultimately show "reachable_in K edges v \<subset> reachable_in K edges n" by blast
qed

lemma prioritizeChildren_total:
  assumes "\<And>pm v. v \<in> set vs \<Longrightarrow> prioritizeNode k edges pm v \<noteq> None"
  shows "prioritizeChildren k edges pm vs m \<noteq> None"
  using assms
proof (induction vs arbitrary: pm m)
  case (Cons v vs)
  from Cons.prems [of v pm] obtain d pm1 where "prioritizeNode k edges pm v = Some (d, pm1)" by auto
  with Cons show ?case by simp
qed simp

lemma prioritizeNode_total:
  assumes "finite K" and "\<And>u. edges u \<noteq> [] \<Longrightarrow> u \<in> K"
    and "\<not> cyclic_from edges n" and "card (reachable_in K edges n) < k"
  shows "prioritizeNode k edges pm n \<noteq> None"
  using assms(3,4)
proof (induction k arbitrary: pm n)
  case (Suc k)
  have "prioritizeChildren k edges pm (edges n) 0 \<noteq> None"
  proof (rule prioritizeChildren_total)
    fix pm v assume v: "v \<in> set (edges n)"
    then have "\<not> cyclic_from edges v" using Suc.prems(1) by (subst (asm) cyclic_from_child) blast
    moreover have "card (reachable_in K edges v) < k"
      using reachable_child [where edges = edges, OF assms(1,2) Suc.prems(1) v] Suc.prems(2) by simp
    ultimately show "prioritizeNode k edges pm v \<noteq> None" by (rule Suc.IH)
  qed
  then show ?case by (auto simp: Let_def split: option.splits)
qed simp

lemma edges_of_key: "edges_of ge u \<noteq> [] \<Longrightarrow> u \<in> fst ` set (ge_edges ge)"
  using has_key_get by (auto simp: edges_of_def split: option.splits)

lemma reachable_edges:
  "card (reachable_in (fst ` set (ge_edges ge)) (edges_of ge) n) < Suc (length (ge_edges ge))"
proof -
  have "card (reachable_in (fst ` set (ge_edges ge)) (edges_of ge) n) \<le> card (fst ` set (ge_edges ge))"
    by (intro card_mono) (auto simp: reachable_in_def)
  also have "\<dots> \<le> length (map fst (ge_edges ge))" using card_length [of "map fst (ge_edges ge)"] by simp
  finally show ?thesis by simp
qed

lemma prioritizeNodes_acyclic:
  assumes "prioritizeNodes k edges pm ns = Some pm'" and "\<forall>x. has_key pm x \<longrightarrow> \<not> cyclic_from edges x"
  shows "\<forall>n \<in> set ns. \<not> cyclic_from edges n"
  using assms
proof (induction ns arbitrary: pm)
  case (Cons n ns)
  then obtain d pm1 where 1: "prioritizeNode k edges pm n = Some (d, pm1)" "prioritizeNodes k edges pm1 ns = Some pm'"
    by (auto split: option.splits)
  from prioritizeNode_acyclic [OF 1(1) Cons.prems(2)] Cons.IH [OF 1(2)] show ?case by simp
qed simp

lemma prioritizeNodes_total:
  assumes "\<forall>n \<in> set ns. \<not> cyclic_from (edges_of ge) n"
  shows "prioritizeNodes (Suc (length (ge_edges ge))) (edges_of ge) pm ns \<noteq> None"
  using assms
proof (induction ns arbitrary: pm)
  case (Cons n ns)
  have "prioritizeNode (Suc (length (ge_edges ge))) (edges_of ge) pm n \<noteq> None"
    by (rule prioritizeNode_total [where K = "fst ` set (ge_edges ge)"])
      (use Cons.prems edges_of_key reachable_edges in auto)
  then obtain d pm1 where 1: "prioritizeNode (Suc (length (ge_edges ge))) (edges_of ge) pm n = Some (d, pm1)" by auto
  from Cons.IH [of pm1] Cons.prems 1 show ?case by (simp del: prioritizeNode.simps)
qed simp

text \<open>The depth allowed is enough exactly if some depth is, and that is if no cycle is in reach.\<close>

lemma prioritizeNodes_returns_iff:
  "prioritizeNodes (Suc (length (ge_edges ge))) (edges_of ge) [] ns = None \<longleftrightarrow>
     (\<exists>n \<in> set ns. cyclic_from (edges_of ge) n)"
  using prioritizeNodes_total [of ns ge "[]"] prioritizeNodes_acyclic [of _ "edges_of ge" "[]" ns] by fastforce

lemma prioritizeNodes_depth:
  "prioritizeNodes k (edges_of ge) [] ns \<noteq> None \<Longrightarrow>
     prioritizeNodes (Suc (length (ge_edges ge))) (edges_of ge) [] ns \<noteq> None"
  using prioritizeNodes_acyclic [of k "edges_of ge" "[]" ns] by (auto simp: prioritizeNodes_returns_iff)

text \<open>
  What the search has assigned at any time: priorities from 1 up to the number of nodes that have one,
  each greater than those of the children, which have theirs.
\<close>

definition priorities_ok :: "(NodeID \<Rightarrow> NodeID list) \<Rightarrow> (NodeID, int) gomap \<Rightarrow> bool" where
  "priorities_ok edges pm \<longleftrightarrow> map_ok pm \<and> (\<forall>n d. map_get pm n = Some d \<longrightarrow>
     1 \<le> d \<and> d \<le> int (length pm) \<and> \<not> cyclic_from edges n
     \<and> (\<forall>v \<in> set (edges n). \<exists>e. map_get pm v = Some e \<and> e < d))"

definition extends :: "(NodeID, int) gomap \<Rightarrow> (NodeID, int) gomap \<Rightarrow> bool" where
  "extends pm pm' \<longleftrightarrow> (\<forall>n d. map_get pm n = Some d \<longrightarrow> map_get pm' n = Some d)"

lemma extends_refl [simp]: "extends pm pm"
  by (simp add: extends_def)

lemma extends_trans: "extends pm pm' \<Longrightarrow> extends pm' pm'' \<Longrightarrow> extends pm pm''"
  by (simp add: extends_def)

text \<open>What one search from \<open>n\<close> with result \<open>d\<close> does to the map.\<close>

definition searched :: "(NodeID \<Rightarrow> NodeID list) \<Rightarrow> (NodeID, int) gomap \<Rightarrow> (NodeID, int) gomap \<Rightarrow> NodeID set \<Rightarrow> bool" where
  "searched edges pm pm' S \<longleftrightarrow> priorities_ok edges pm' \<and> extends pm pm'
     \<and> (\<forall>x. has_key pm' x \<longrightarrow> has_key pm x \<or> (\<exists>n \<in> S. (n, x) \<in> (edge_rel edges)\<^sup>*))"

lemma searched_refl: "priorities_ok edges pm \<Longrightarrow> searched edges pm pm S"
  by (simp add: searched_def)

lemma searched_trans: "searched edges pm pm' S \<Longrightarrow> searched edges pm' pm'' T \<Longrightarrow> searched edges pm pm'' (S \<union> T)"
  unfolding searched_def using extends_trans by blast

lemma priorities_ok_acyclic: "priorities_ok edges pm \<Longrightarrow> \<forall>x. has_key pm x \<longrightarrow> \<not> cyclic_from edges x"
  unfolding priorities_ok_def by (metis map_get_None_iff not_None_eq)

lemma prioritizeChildren_ok:
  assumes "\<And>pm n d pm'. prioritizeNode k edges pm n = Some (d, pm') \<Longrightarrow> priorities_ok edges pm
      \<Longrightarrow> searched edges pm pm' {n} \<and> map_get pm' n = Some d"
    and "prioritizeChildren k edges pm vs m = Some (c, pm')" and "priorities_ok edges pm" and "m \<le> int (length pm)"
  shows "searched edges pm pm' (set vs) \<and> m \<le> c \<and> c \<le> int (length pm')
    \<and> (\<forall>v \<in> set vs. \<exists>e. map_get pm' v = Some e \<and> e \<le> c)"
  using assms(2-4)
proof (induction vs arbitrary: pm m)
  case Nil
  then show ?case by (simp add: searched_refl)
next
  case (Cons v vs)
  from Cons.prems(1) obtain d pm1 where 1: "prioritizeNode k edges pm v = Some (d, pm1)"
    "prioritizeChildren k edges pm1 vs (if m < d then d else m) = Some (c, pm')"
    by (auto split: option.splits prod.splits)
  note s = assms(1) [OF 1(1) Cons.prems(2)]
  then have ok: "priorities_ok edges pm1" by (simp add: searched_def)
  have "fst ` set pm \<subseteq> fst ` set pm1"
    using s by (auto simp: searched_def extends_def) (metis map_get_None_iff imageI fst_conv option.exhaust)
  moreover have "distinct (map fst pm)" "distinct (map fst pm1)"
    using Cons.prems(2) ok by (simp_all add: priorities_ok_def map_ok_def)
  ultimately have "length pm \<le> length pm1"
    by (metis card_mono distinct_card finite_imageI length_map list.set_map List.finite_set)
  moreover have "d \<le> int (length pm1)" using s ok by (auto simp: priorities_ok_def)
  ultimately have "(if m < d then d else m) \<le> int (length pm1)" using Cons.prems(3) by simp
  note r = Cons.IH [OF 1(2) ok this]
  have "map_get pm' v = Some d" using s r by (simp add: searched_def extends_def)
  moreover have "d \<le> c" "m \<le> c" using r by (auto split: if_splits)
  moreover have "searched edges pm pm' ({v} \<union> set vs)" using s r searched_trans by blast
  ultimately show ?case using r by auto
qed

lemma search_step:
  assumes "searched edges pm pm1 (set (edges n))" and "0 \<le> c" and "c \<le> int (length pm1)"
    and "\<forall>v \<in> set (edges n). \<exists>e. map_get pm1 v = Some e \<and> e \<le> c"
    and "\<not> has_key pm1 n" and "\<not> cyclic_from edges n"
  shows "searched edges pm (map_put n (c + 1) pm1) {n}"
proof -
  have new: "map_get pm1 n = None" using assms(5) by (simp add: map_get_None_iff)
  have ok: "priorities_ok edges pm1" and ext: "extends pm pm1" using assms(1) by (simp_all add: searched_def)
  have "priorities_ok edges (map_put n (c + 1) pm1)"
    unfolding priorities_ok_def
  proof (intro conjI allI impI)
    show "map_ok (map_put n (c + 1) pm1)" using ok by (simp add: priorities_ok_def)
    fix x d assume x: "map_get (map_put n (c + 1) pm1) x = Some d"
    then show "1 \<le> d" "d \<le> int (length (map_put n (c + 1) pm1))" "\<not> cyclic_from edges x"
      using ok assms(2,3,6) by (fastforce simp: priorities_ok_def map_put_new [OF assms(5)] split: if_splits)+
    have n: "n \<notin> set (edges n)" using assms(4) new by auto
    show "\<forall>v \<in> set (edges x). \<exists>e. map_get (map_put n (c + 1) pm1) v = Some e \<and> e < d"
    proof
      fix v assume v: "v \<in> set (edges x)"
      show "\<exists>e. map_get (map_put n (c + 1) pm1) v = Some e \<and> e < d"
      proof (cases "x = n")
        case True
        with v n assms(4) x show ?thesis by fastforce
      next
        case False
        with x have "map_get pm1 x = Some d" by simp
        with ok v obtain e where "map_get pm1 v = Some e" "e < d" unfolding priorities_ok_def by blast
        with new show ?thesis by auto
      qed
    qed
  qed
  moreover have "extends pm (map_put n (c + 1) pm1)" using ext new by (auto simp: extends_def)
  moreover have "has_key pm x \<or> (n, x) \<in> (edge_rel edges)\<^sup>*" if "has_key (map_put n (c + 1) pm1) x" for x
  proof (cases "x = n")
    case False
    with that have "has_key pm1 x" by simp
    with assms(1) consider "has_key pm x" | v where "v \<in> set (edges n)" "(v, x) \<in> (edge_rel edges)\<^sup>*"
      unfolding searched_def by blast
    then show ?thesis
      by cases (auto simp: edge_rel_def intro: converse_rtrancl_into_rtrancl)
  qed simp
  ultimately show ?thesis by (simp add: searched_def)
qed

lemma prioritizeNode_ok:
  assumes "prioritizeNode k edges pm n = Some (d, pm')" and "priorities_ok edges pm"
  shows "searched edges pm pm' {n} \<and> map_get pm' n = Some d"
  using assms
proof (induction k arbitrary: pm n d pm')
  case (Suc k)
  show ?case
  proof (cases "map_get pm n")
    case (Some p)
    with Suc.prems show ?thesis by (auto simp: searched_refl)
  next
    case None
    from prioritizeNode_new [OF Suc.prems(1) None] obtain c pm1 where
      c: "prioritizeChildren k edges pm (edges n) 0 = Some (c, pm1)" "d = c + 1" "pm' = map_put n d pm1" by blast
    have r: "searched edges pm pm1 (set (edges n)) \<and> 0 \<le> c \<and> c \<le> int (length pm1)
        \<and> (\<forall>v \<in> set (edges n). \<exists>e. map_get pm1 v = Some e \<and> e \<le> c)"
      by (rule prioritizeChildren_ok [OF _ c(1) Suc.prems(2)]) (rule Suc.IH, assumption+, simp)
    have na: "\<not> cyclic_from edges n"
      using prioritizeNode_acyclic [OF Suc.prems(1)] priorities_ok_acyclic [OF Suc.prems(2)] by blast
    have "\<not> has_key pm1 n"
    proof
      assume "has_key pm1 n"
      moreover have "\<not> has_key pm n" using None by (simp add: map_get_None_iff)
      ultimately obtain v where "v \<in> set (edges n)" "(v, n) \<in> (edge_rel edges)\<^sup>*"
        using r unfolding searched_def by blast
      then have "(n, n) \<in> (edge_rel edges)\<^sup>+" by (auto simp: edge_rel_def intro: rtrancl_into_trancl2)
      with na show False by (auto simp: cyclic_from_def)
    qed
    with r na show ?thesis using search_step [of edges pm pm1 n c] c(2,3) by simp
  qed
qed simp

lemma prioritizeNodes_ok:
  assumes "prioritizeNodes k edges pm ns = Some pm'" and "priorities_ok edges pm"
  shows "searched edges pm pm' (set ns) \<and> (\<forall>n \<in> set ns. has_key pm' n)"
  using assms
proof (induction ns arbitrary: pm)
  case (Cons n ns)
  from Cons.prems(1) obtain d pm1 where 1: "prioritizeNode k edges pm n = Some (d, pm1)" "prioritizeNodes k edges pm1 ns = Some pm'"
    by (auto split: option.splits)
  note s = prioritizeNode_ok [OF 1(1) Cons.prems(2)]
  then have "priorities_ok edges pm1" by (simp add: searched_def)
  note r = Cons.IH [OF 1(2) this]
  have "searched edges pm pm' ({n} \<union> set ns)" using s r searched_trans by blast
  moreover have "has_key pm' n" using s r has_key_get [of pm' n d] by (simp add: searched_def extends_def)
  ultimately show ?case using r by auto
qed (simp add: searched_refl)

lemma Build_Some:
  assumes "Build parse older assetMrn b = Some ge"
  defines "g \<equiv> build_graph parse older assetMrn b"
  obtains pm where "searched (edges_of g) [] pm (fst ` set (ge_nodes g))" and "\<forall>n. has_key (ge_nodes g) n \<longrightarrow> has_key pm n"
    and "ge = g\<lparr>ge_priorityMap := if gb_rescoreScores b \<noteq> None then pm else map_put CollectionFinisherID min_int pm\<rparr>"
proof -
  from assms obtain pm where pm: "prioritizeNodes (Suc (length (ge_edges g))) (edges_of g) [] (map fst (ge_nodes g)) = Some pm"
    and ge: "ge = g\<lparr>ge_priorityMap := if gb_rescoreScores b \<noteq> None then pm else map_put CollectionFinisherID min_int pm\<rparr>"
    by (auto simp: Build_def Let_def split: option.splits)
  have "priorities_ok (edges_of g) []" by (simp add: priorities_ok_def)
  from prioritizeNodes_ok [OF pm this] show thesis by (intro that [OF _ _ ge]) auto
qed

text \<open>
  Where all edges of nodes lead to nodes and the finisher has no out edges and is a node, the priorities \<open>Build\<close> assigns
  fall along every edge and stay within the bounds of the queue's priorities.
\<close>

lemma priority_of_edge:
  assumes "searched (edges_of g) [] pm (fst ` set (ge_nodes g))" and "\<forall>n. has_key (ge_nodes g) n \<longrightarrow> has_key pm n"
    and "\<And>u v. has_key (ge_nodes g) u \<Longrightarrow> v \<in> set (edges_of g u) \<Longrightarrow> has_key (ge_nodes g) v"
    and "map_ok (ge_nodes g)"
  shows "has_key pm x \<longleftrightarrow> has_key (ge_nodes g) x" and "length pm = length (ge_nodes g)"
proof -
  have "has_key (ge_nodes g) x" if "(n, x) \<in> (edge_rel (edges_of g))\<^sup>*" "has_key (ge_nodes g) n" for n x
    using that by (induction rule: rtrancl_induct) (use assms(3) in \<open>auto simp: edge_rel_def\<close>)
  with assms(1) have k: "has_key (ge_nodes g) x" if "has_key pm x" for x
    using that unfolding searched_def by (metis has_key_get list.set(1) image_empty empty_iff)
  with assms(2) show "has_key pm x \<longleftrightarrow> has_key (ge_nodes g) x" by blast
  have "fst ` set pm = fst ` set (ge_nodes g)" using k assms(2) by blast
  moreover have "map_ok pm" using assms(1) by (simp add: searched_def priorities_ok_def)
  ultimately show "length pm = length (ge_nodes g)"
    using assms(4) by (metis distinct_card length_map list.set_map map_ok_def)
qed

lemma Build_prioritized:
  assumes "Build parse older assetMrn b = Some ge"
    and "\<And>u v. has_key (ge_nodes ge) u \<Longrightarrow> v \<in> set (edges_of ge u) \<Longrightarrow> has_key (ge_nodes ge) v"
    and "map_ok (ge_nodes ge)" and "edges_of ge CollectionFinisherID = []"
  shows "prioritized ge"
proof -
  let ?g = "build_graph parse older assetMrn b :: 'a GraphExecutor"
  from Build_Some [OF assms(1)] obtain pm where pm: "searched (edges_of ?g) [] pm (fst ` set (ge_nodes ?g))"
    "\<forall>n. has_key (ge_nodes ?g) n \<longrightarrow> has_key pm n"
    and ge: "ge = ?g\<lparr>ge_priorityMap := if gb_rescoreScores b \<noteq> None then pm else map_put CollectionFinisherID min_int pm\<rparr>"
    by blast
  have same: "ge_nodes ge = ge_nodes ?g" "edges_of ge = edges_of ?g" "maxPriority ge = maxPriority ?g"
    by (simp_all add: ge edges_of_def maxPriority_def fun_eq_iff)
  have len: "length pm = length (ge_nodes ?g)"
    by (rule priority_of_edge [OF pm]) (use assms(2,3) same in auto)
  have ok: "\<And>n d. map_get pm n = Some d \<Longrightarrow> 1 \<le> d \<and> d \<le> int (length pm)
      \<and> (\<forall>v \<in> set (edges_of ?g n). \<exists>e. map_get pm v = Some e \<and> e < d)"
    using pm(1) by (simp add: searched_def priorities_ok_def)
  have pr: "priority_of ge n = (if gb_rescoreScores b = None \<and> n = CollectionFinisherID then min_int
      else (case map_get pm n of None \<Rightarrow> 0 | Some d \<Rightarrow> d))" for n
    by (simp add: ge priority_of_def)
  have low: "min_int \<le> priority_of ge n \<and> priority_of ge n \<le> maxPriority ge" for n
    using ok [of n] len by (auto simp: pr min_int_def maxPriority_def same split: option.splits)
  have "priority_of ge v < priority_of ge u"
    if u: "node_at (ge_nodes ge) u \<noteq> None" and v: "v \<in> set (edges_of ge u)" for u v
  proof -
    from u have "has_key pm u" using pm(2) same by (auto simp: node_at_def has_key_get)
    then obtain d where d: "map_get pm u = Some d" by (metis map_get_None_iff not_None_eq)
    with ok [OF d] v same obtain e where e: "map_get pm v = Some e" "e < d" by auto
    have "1 \<le> e" using ok [OF e(1)] by simp
    moreover have "u \<noteq> CollectionFinisherID" using v assms(4) by auto
    ultimately show ?thesis using d e by (auto simp: pr min_int_def)
  qed
  with low show ?thesis by (simp add: prioritized_def min_int_def)
qed

end
