(* ===== verification/Build_Wiring.thy ===== *)
theory Build_Wiring
  imports Build_Priorities
begin

text \<open>
  The wiring of a built graph. One group of lemmas says which nodes and edges each operation of the
  builder adds. \<open>input_ok\<close> collects the conditions on queries and reporting jobs; \<open>query_inv\<close>, \<open>jobs_inv\<close>
  and \<open>built_inv\<close> are the invariants of the phases of \<open>Build\<close>, and \<open>Build_ok\<close> concludes that the graph
  is \<open>wired\<close> and \<open>prioritized\<close>, which is what the theorems on the executor assume.
\<close>

subsection \<open>What each operation adds\<close>

definition edge_in :: "'v GraphExecutor \<Rightarrow> NodeID \<Rightarrow> NodeID \<Rightarrow> bool" where
  "edge_in ge u v \<longleftrightarrow> v \<in> set (edges_of ge u)"

abbreviation sh :: "'v GraphExecutor \<Rightarrow> NodeID \<Rightarrow> node_shape option" where
  "sh ge \<equiv> shape_at (ge_nodes ge)"

text \<open>Every node is stored under its own id and is well formed.\<close>

definition nodes_ok :: "'v GraphExecutor \<Rightarrow> bool" where
  "nodes_ok ge \<longleftrightarrow> map_ok (ge_nodes ge) \<and>
     (\<forall>n x. map_get (ge_nodes ge) n = Some x \<longrightarrow> nd_id x = n \<and> node_ok (nd_data x))"

named_theorems build_simps \<open>what the operations of the builder do to nodes and edges\<close>

lemma set_insertSorted: "set (insertSorted ss s) = insert s (set ss)"
proof (cases "SearchStrings ss s < length ss \<and> ss ! SearchStrings ss s = s")
  case True
  then have "s \<in> set ss" by (metis nth_mem)
  with True show ?thesis by (auto simp: insertSorted_def Let_def)
next
  case False
  have "set (take i ss @ [s] @ drop i ss) = insert s (set ss)" for i
    using set_append [of "take i ss" "drop i ss"] by simp
  with False show ?thesis by (simp only: insertSorted_def Let_def if_False)
qed

lemma edges_of_addEdge: "edges_of (addEdge s t ge) u = (if u = s then insertSorted (edges_of ge s) t else edges_of ge u)"
  by (simp add: addEdge_def edges_of_def)

lemma addEdge_edge [build_simps]: "edge_in (addEdge s t ge) u v \<longleftrightarrow> edge_in ge u v \<or> (u = s \<and> v = t)"
  by (auto simp: edge_in_def edges_of_addEdge set_insertSorted)

lemma addEdge_nodes [build_simps]: "ge_nodes (addEdge s t ge) = ge_nodes ge"
  by (simp add: addEdge_def)

lemma nodes_ok_addEdge [build_simps]: "nodes_ok (addEdge s t ge) = nodes_ok ge"
  by (simp add: nodes_ok_def addEdge_nodes)

text \<open>A fold that adds one edge per element.\<close>

lemma fold_addEdge:
  assumes "\<And>ge x. F ge x = addEdge (f x) (h x) ge"
  shows "edge_in (foldl F ge xs) u v \<longleftrightarrow> edge_in ge u v \<or> (\<exists>x \<in> set xs. u = f x \<and> v = h x)"
    and "ge_nodes (foldl F ge xs) = ge_nodes ge"
proof -
  have "(\<forall>u v. edge_in (foldl F ge xs) u v \<longleftrightarrow> edge_in ge u v \<or> (\<exists>x \<in> set xs. u = f x \<and> v = h x))
    \<and> ge_nodes (foldl F ge xs) = ge_nodes ge"
    by (induction xs arbitrary: ge) (auto simp: assms build_simps)
  then show "edge_in (foldl F ge xs) u v \<longleftrightarrow> edge_in ge u v \<or> (\<exists>x \<in> set xs. u = f x \<and> v = h x)"
    and "ge_nodes (foldl F ge xs) = ge_nodes ge" by blast+
qed

lemma put_node_edge [build_simps]: "edge_in (put_node n t d ge) = edge_in ge"
  by (simp add: put_node_def edge_in_def edges_of_def fun_eq_iff)

lemma put_node_key [build_simps]: "has_key (ge_nodes (put_node n t d ge)) x \<longleftrightarrow> x = n \<or> has_key (ge_nodes ge) x"
  by (simp add: put_node_def)

lemma put_node_shape [build_simps]: "sh (put_node n t d ge) = (sh ge)(n \<mapsto> shape d)"
  by (simp add: put_node_def shape_at_def node_at_def fun_eq_iff)

lemma nodes_ok_put [build_simps]: "nodes_ok ge \<Longrightarrow> node_ok d \<Longrightarrow> nodes_ok (put_node n t d ge)"
  by (simp add: put_node_def nodes_ok_def)

lemma sh_None: "sh ge n = None \<longleftrightarrow> \<not> has_key (ge_nodes ge) n"
  by (simp add: shape_at_def node_at_def map_get_None_iff)

lemma sh_nodes: "ge_nodes ge = ge_nodes ge' \<Longrightarrow> sh ge = sh ge'"
  by simp

subsubsection \<open>Datapoints\<close>

lemma addDatapoint [build_simps]:
  "edge_in (addDatapointNode c t r ge) = edge_in ge"
  "sh (addDatapointNode c t r ge) = (if has_key (ge_nodes ge) c then sh ge else (sh ge)(c \<mapsto> S_Datapoint))"
  by (simp_all add: addDatapointNode_def build_simps)

lemma addDatapoint_ok [build_simps]:
  "nodes_ok ge \<Longrightarrow> (\<forall>x. r = Some x \<longrightarrow> with_data x) \<Longrightarrow> nodes_ok (addDatapointNode c t r ge)"
  by (simp add: addDatapointNode_def build_simps)

lemma addDatapoint_key [build_simps]:
  "has_key (ge_nodes (addDatapointNode c t r ge)) x \<longleftrightarrow> x = c \<or> has_key (ge_nodes ge) x"
  by (auto simp: addDatapointNode_def put_node_def)

lemma fold_datapoints:
  fixes ge :: "'v GraphExecutor"
  assumes F: "F = (\<lambda>ge c. addEdge nid c (addDatapointNode c (T c) None ge))"
  shows "edge_in (foldl F ge cs) u v \<longleftrightarrow> edge_in ge u v \<or> (u = nid \<and> v \<in> set cs)"
    and "sh (foldl F ge cs) n = (if n \<in> set cs \<and> \<not> has_key (ge_nodes ge) n then Some S_Datapoint else sh ge n)"
    and "nodes_ok ge \<Longrightarrow> nodes_ok (foldl F ge cs)"
proof -
  have F': "F ge c = addEdge nid c (addDatapointNode c (T c) None ge)" for ge c by (simp add: F)
  show "edge_in (foldl F ge cs) u v \<longleftrightarrow> edge_in ge u v \<or> (u = nid \<and> v \<in> set cs)"
    by (induction cs arbitrary: ge) (auto simp: build_simps F')
  show "sh (foldl F ge cs) n = (if n \<in> set cs \<and> \<not> has_key (ge_nodes ge) n then Some S_Datapoint else sh ge n)"
    by (induction cs arbitrary: ge) (auto simp: build_simps F')
  show "nodes_ok ge \<Longrightarrow> nodes_ok (foldl F ge cs)"
  proof (induction cs arbitrary: ge)
    case (Cons c cs)
    then have "nodes_ok (F ge c)" unfolding F' nodes_ok_addEdge by (intro addDatapoint_ok) simp_all
    with Cons.IH show ?case by simp
  qed simp
qed

subsubsection \<open>Queries\<close>

lemma addExecutionQuery:
  fixes ge :: "'v GraphExecutor"
  assumes g0: "g = addExecutionQueryNode queryID q T ge"
  shows "edge_in g u v \<longleftrightarrow> edge_in ge u v \<or> (u = execution_id queryID \<and> v \<in> set (CodepointChecksums (q_codeBundle q)))
      \<or> (u \<in> snd ` set (q_requiredProps q) \<and> v = execution_id queryID)"
    and "sh g n = (if n = execution_id queryID then Some S_ExecutionQuery
      else if n \<in> set (CodepointChecksums (q_codeBundle q)) \<and> \<not> has_key (ge_nodes ge) n then Some S_Datapoint else sh ge n)"
    and "nodes_ok ge \<Longrightarrow> nodes_ok g"
proof -
  let ?id = "execution_id queryID"
  let ?g1 = "foldl (\<lambda>ge c. addEdge ?id c (addDatapointNode c (map_get T c) None ge)) ge (CodepointChecksums (q_codeBundle q))"
  let ?F = "\<lambda>ge (name :: string, c). addEdge c ?id ge"
  let ?g2 = "foldl ?F ?g1 (q_requiredProps q)"
  note f = fold_addEdge [where F = ?F and f = snd and h = "\<lambda>_. ?id" and ge = ?g1 and xs = "q_requiredProps q"]
  have e: "edge_in ?g2 u v \<longleftrightarrow> edge_in ?g1 u v \<or> (\<exists>x \<in> set (q_requiredProps q). u = snd x \<and> v = ?id)"
    and n: "ge_nodes ?g2 = ge_nodes ?g1" using f by (auto split: prod.splits)
  have n2: "nodes_ok ?g2 = nodes_ok ?g1" using n by (simp add: nodes_ok_def)
  obtain d where g: "g = put_node ?id ExecutionQueryNodeType (ExecutionQuery d) ?g2"
    unfolding g0 addExecutionQueryNode_def Let_def by blast
  show "edge_in g u v \<longleftrightarrow> edge_in ge u v \<or> (u = ?id \<and> v \<in> set (CodepointChecksums (q_codeBundle q)))
      \<or> (u \<in> snd ` set (q_requiredProps q) \<and> v = ?id)"
    unfolding g build_simps e fold_datapoints(1) [OF refl] by auto
  show "sh g n = (if n = ?id then Some S_ExecutionQuery
      else if n \<in> set (CodepointChecksums (q_codeBundle q)) \<and> \<not> has_key (ge_nodes ge) n then Some S_Datapoint else sh ge n)"
    unfolding g build_simps n by (simp add: fold_datapoints(2) [OF refl])
  show "nodes_ok ge \<Longrightarrow> nodes_ok g"
    unfolding g by (intro nodes_ok_put) (simp_all add: n2 fold_datapoints(3) [OF refl])
qed

lemma addReportingQuery:
  fixes ge :: "'v GraphExecutor"
  assumes g0: "g = addReportingQueryNode queryID q ge"
  shows "edge_in g u v \<longleftrightarrow> edge_in ge u v \<or>
      (\<not> has_key (ge_nodes ge) queryID \<and> u \<in> set (EntrypointChecksums (q_codeBundle q)) \<and> v = queryID)"
    and "sh g n = (if n = queryID \<and> \<not> has_key (ge_nodes ge) queryID then Some S_ReportingQuery else sh ge n)"
    and "nodes_ok ge \<Longrightarrow> queryID \<noteq> '''' \<Longrightarrow> nodes_ok g"
proof -
  let ?cs = "EntrypointChecksums (q_codeBundle q)"
  let ?g1 = "foldl (\<lambda>ge c. addEdge c queryID ge) ge ?cs"
  let ?d = "\<lparr>rq_queryID = queryID,
     rq_results = foldl (\<lambda>m c. map_put c \<lparr>dr_checksum = c, dr_resolved = False, dr_value = None\<rparr> m) [] ?cs,
     rq_invalidated = False\<rparr>"
  note f = fold_addEdge [where F = "\<lambda>ge c. addEdge c queryID ge" and f = "\<lambda>c. c" and h = "\<lambda>_. queryID", OF refl]
  have n2: "nodes_ok ?g1 = nodes_ok ge" using f(2) [of ge ?cs] by (simp add: nodes_ok_def)
  have g: "g = (if has_key (ge_nodes ge) queryID then ge
      else put_node queryID ReportingQueryNodeType (ReportingQuery ?d) ?g1)"
    by (simp add: g0 addReportingQueryNode_def Let_def)
  have "\<forall>x \<in> set (rq_results ?d). dr_value (snd x) = None"
    unfolding ReportingQueryNodeData.select_convs by (rule foldl_inv) (auto dest: set_map_put)
  then have d: "queryID \<noteq> '''' \<Longrightarrow> node_ok (ReportingQuery ?d :: 'v nodeData)" by fastforce
  show "edge_in g u v \<longleftrightarrow> edge_in ge u v \<or> (\<not> has_key (ge_nodes ge) queryID \<and> u \<in> set ?cs \<and> v = queryID)"
    unfolding g by (auto simp: build_simps f(1))
  show "sh g n = (if n = queryID \<and> \<not> has_key (ge_nodes ge) queryID then Some S_ReportingQuery else sh ge n)"
    unfolding g by (simp add: build_simps f(2))
  show "nodes_ok ge \<Longrightarrow> queryID \<noteq> '''' \<Longrightarrow> nodes_ok g"
    unfolding g using d n2 by (auto intro!: nodes_ok_put simp del: node_ok.simps)
qed

subsubsection \<open>Reporting jobs\<close>

definition job_datapoints :: "ReportingJobSpec \<Rightarrow> (string, 'v RawResult option) gomap" where
  "job_datapoints rj = foldl (\<lambda>m (c, x). map_put c None m) [] (pj_Datapoints rj)"

lemma foldl_put_keys:
  "fst ` set (foldl (\<lambda>m x. map_put (f x) (h x) m) m xs) = fst ` set m \<union> f ` set xs"
  by (induction xs arbitrary: m) (auto simp: dom_update [unfolded dom_map_of_conv_image_fst])

lemma job_datapoints_keys: "fst ` set (job_datapoints rj) = fst ` set (pj_Datapoints rj)"
  using foldl_put_keys [of fst "\<lambda>_. None" "[]" "pj_Datapoints rj"]
  by (simp add: job_datapoints_def case_prod_unfold)

lemma job_children_keys:
  "fst ` set (job_children rj rq) = (if rq \<noteq> '''' then {rq} else {}) \<union> fst ` set (pj_ChildJobs rj)"
  using foldl_put_keys [of fst "\<lambda>x. \<lparr>rr_impact = snd x, rr_score = None\<rparr>"
      "if rq \<noteq> '''' then [(rq, \<lparr>rr_impact = None, rr_score = None\<rparr>)] else []" "pj_ChildJobs rj"]
  by (simp add: job_children_def case_prod_unfold)

definition job_shape :: "ReportingJobSpec \<Rightarrow> string \<Rightarrow> node_shape" where
  "job_shape rj rq = S_Job (map fst (job_children rj rq)) (map fst (job_datapoints rj :: (string, nat RawResult option) gomap))"

lemma job_datapoints_poly:
  "map fst (job_datapoints rj :: (string, 'v RawResult option) gomap) = map fst (job_datapoints rj :: (string, 'w RawResult option) gomap)"
proof -
  have "map fst (foldl (\<lambda>m (c, x). map_put c None m) (m :: (string, 'v RawResult option) gomap) xs)
      = map fst (foldl (\<lambda>m (c, x). map_put c None m) (m' :: (string, 'w RawResult option) gomap) xs)"
    if "map fst m = map fst m'" for m m' and xs :: "(string \<times> bool) list"
    using that
    by (induction xs arbitrary: m m') (auto simp: update_keys case_prod_unfold)
  then show ?thesis by (simp add: job_datapoints_def)
qed

text \<open>The conditions on a job whose node rolls up the scores of \<open>job_children rj rq\<close>.\<close>

definition job_ok :: "string \<Rightarrow> ReportingJobSpec \<Rightarrow> string \<Rightarrow> bool" where
  "job_ok assetMrn rj rq \<longleftrightarrow> pj_QrId rj \<noteq> '''' \<and> assetMrn \<noteq> ''''
     \<and> (forwards (pj_Type rj) \<longrightarrow> length (job_children rj rq) \<le> 1) \<and> length (job_children rj rq) + 1 < 4294967296"

lemma addReportingJob:
  fixes ge :: "'v GraphExecutor"
  assumes g0: "g = addReportingJobNode fe assetMrn nid rj rq ge" and new: "\<not> has_key (ge_nodes ge) nid"
  shows "edge_in g u v \<longleftrightarrow> edge_in ge u v \<or> (u \<in> fst ` set (pj_Datapoints rj) \<and> v = nid)
      \<or> (u = nid \<and> v \<in> set (pj_Notify rj)) \<or> (rq \<noteq> '''' \<and> u = rq \<and> v = nid)"
    and "sh g n = (if n = nid then Some (job_shape rj rq) else sh ge n)"
    and "nodes_ok ge \<Longrightarrow> job_ok assetMrn rj rq \<Longrightarrow> nodes_ok g"
proof -
  let ?q = "if pj_QrId rj = ''root'' then assetMrn else pj_QrId rj"
  let ?F = "\<lambda>ge (c, x :: bool). addEdge c nid ge"
  let ?g1 = "foldl ?F ge (pj_Datapoints rj)"
  let ?g2 = "foldl (\<lambda>ge e. addEdge nid e ge) ?g1 (pj_Notify rj)"
  let ?g3 = "if rq \<noteq> '''' then addEdge rq nid ?g2 else ?g2"
  let ?d = "\<lparr>rj_queryID = ?q, rj_scoringSystem = pj_ScoringSystem rj, rj_forwardScore = forwards (pj_Type rj),
     rj_rjType = pj_Type rj, rj_childScores = job_children rj rq, rj_datapoints = job_datapoints rj,
     rj_completed = False, rj_invalidated = False, rj_featureFlagFailErrors = fe\<rparr>"
  note f1 = fold_addEdge [where F = ?F and f = fst and h = "\<lambda>_. nid" and ge = ge and xs = "pj_Datapoints rj"]
  note f2 = fold_addEdge [where F = "\<lambda>ge e. addEdge nid e ge" and f = "\<lambda>_. nid" and h = "\<lambda>e. e" and ge = ?g1
    and xs = "pj_Notify rj", OF refl]
  have e1: "edge_in ?g1 u v \<longleftrightarrow> edge_in ge u v \<or> (\<exists>x \<in> set (pj_Datapoints rj). u = fst x \<and> v = nid)"
    and n1: "ge_nodes ?g1 = ge_nodes ge" using f1 by (auto split: prod.splits)
  have n3: "ge_nodes ?g3 = ge_nodes ge" using n1 f2(2) by (simp add: build_simps)
  have g: "g = put_node nid ReportingJobNodeType (ReportingJob ?d) ?g3"
    using new by (simp add: g0 addReportingJobNode_def Let_def job_datapoints_def)
  show "edge_in g u v \<longleftrightarrow> edge_in ge u v \<or> (u \<in> fst ` set (pj_Datapoints rj) \<and> v = nid)
      \<or> (u = nid \<and> v \<in> set (pj_Notify rj)) \<or> (rq \<noteq> '''' \<and> u = rq \<and> v = nid)"
    unfolding g put_node_edge using e1 f2(1) by (auto simp: addEdge_edge)
  have "shape (ReportingJob ?d :: 'v nodeData) = job_shape rj rq"
    by (simp add: job_shape_def) (rule job_datapoints_poly)
  then show "sh g n = (if n = nid then Some (job_shape rj rq) else sh ge n)"
    unfolding g put_node_shape n3 by simp
  show "nodes_ok g" if "nodes_ok ge" "job_ok assetMrn rj rq"
    unfolding g using that n3 by (intro nodes_ok_put) (auto simp: nodes_ok_def job_ok_def)
qed

lemma addStaticJob:
  fixes ge :: "'v GraphExecutor"
  assumes g0: "g = addStaticReportingJobNode nid rj queryID score ge" and new: "\<not> has_key (ge_nodes ge) nid"
  shows "edge_in g u v \<longleftrightarrow> edge_in ge u v \<or> (u = nid \<and> v \<in> set (pj_Notify rj))"
    and "sh g n = (if n = nid then Some S_Static else sh ge n)"
    and "nodes_ok ge \<Longrightarrow> queryID \<noteq> '''' \<Longrightarrow> nodes_ok g"
proof -
  let ?g1 = "foldl (\<lambda>ge e. addEdge nid e ge) ge (pj_Notify rj)"
  note f = fold_addEdge [where F = "\<lambda>ge e. addEdge nid e ge" and f = "\<lambda>_. nid" and h = "\<lambda>e. e", OF refl]
  have n: "ge_nodes ?g1 = ge_nodes ge" by (rule f(2))
  let ?d = "\<lparr>sj_score = score\<lparr>sc_QrId := queryID, sc_ScoreCompletion := 100, sc_DataCompletion := 100\<rparr>, sj_sent = False\<rparr>"
  have g: "g = put_node nid ReportingJobNodeType (StaticReportingJob ?d) ?g1"
    using new by (simp add: g0 addStaticReportingJobNode_def)
  show "edge_in g u v \<longleftrightarrow> edge_in ge u v \<or> (u = nid \<and> v \<in> set (pj_Notify rj))"
    unfolding g put_node_edge using f(1) by auto
  show "sh g n = (if n = nid then Some S_Static else sh ge n)"
    unfolding g put_node_shape n by simp
  show "nodes_ok g" if "nodes_ok ge" "queryID \<noteq> ''''"
    unfolding g using that n by (intro nodes_ok_put) (auto simp: nodes_ok_def)
qed

subsubsection \<open>Unrunnable queries and the finisher\<close>

lemma unrunnable:
  fixes ge :: "'v GraphExecutor"
  assumes g0: "g = handleUnrunnableQueries qs ge"
  shows "edge_in g u v \<longleftrightarrow> edge_in ge u v"
    and "sh g n = (if (\<exists>q \<in> set qs. n \<in> set (CodepointChecksums (q_codeBundle q))) \<and> \<not> has_key (ge_nodes ge) n
      then Some S_Datapoint else sh ge n)"
    and "nodes_ok ge \<Longrightarrow> nodes_ok g"
proof -
  define F where "F = (\<lambda>(q :: query) (ge :: 'v GraphExecutor) c. if has_key (ge_nodes ge) c then ge
      else addDatapointNode c None (Some (unrunnable_result (q_codeBundle q) c)) ge)"
  have ok: "\<forall>x. Some (unrunnable_result cb c :: 'v RawResult) = Some x \<longrightarrow> with_data x" for cb c
    by (simp add: unrunnable_result_def with_data_def)
  have e1: "edge_in (foldl (F q) ge cs) = edge_in ge" for q cs ge
    by (induction cs arbitrary: ge) (auto simp: F_def build_simps)
  have s1: "sh (foldl (F q) ge cs) n = (if n \<in> set cs \<and> \<not> has_key (ge_nodes ge) n then Some S_Datapoint else sh ge n)" for q cs ge n
    by (induction cs arbitrary: ge) (auto simp: F_def build_simps)
  have k1: "has_key (ge_nodes (foldl (F q) ge cs)) n \<longleftrightarrow> n \<in> set cs \<or> has_key (ge_nodes ge) n" for q cs ge n
    using s1 [of q ge cs n] sh_None [of ge n] sh_None [of "foldl (F q) ge cs" n] by (auto split: if_splits)
  have o1: "nodes_ok (foldl (F q) ge cs)" if "nodes_ok ge" for q cs ge
    by (rule foldl_inv) (use that ok in \<open>auto simp: F_def intro!: addDatapoint_ok\<close>)
  have g: "g = foldl (\<lambda>ge q. foldl (F q) ge (CodepointChecksums (q_codeBundle q))) ge qs"
    by (simp add: g0 handleUnrunnableQueries_def F_def)
  show "edge_in g u v \<longleftrightarrow> edge_in ge u v"
    unfolding g by (induction qs arbitrary: ge) (simp_all add: e1)
  show "sh g n = (if (\<exists>q \<in> set qs. n \<in> set (CodepointChecksums (q_codeBundle q))) \<and> \<not> has_key (ge_nodes ge) n
      then Some S_Datapoint else sh ge n)"
    unfolding g by (induction qs arbitrary: ge) (simp_all add: s1 k1)
  show "nodes_ok ge \<Longrightarrow> nodes_ok g"
    unfolding g by (rule foldl_inv) (simp_all add: o1)
qed

lemma createFinisher:
  fixes ge :: "'v GraphExecutor"
  assumes g0: "g = createFinisherNode ge"
  shows "edge_in g u v \<Longrightarrow> edge_in ge u v \<or> v = CollectionFinisherID \<and> has_key (ge_nodes ge) u"
    and "sh g n = (if n = CollectionFinisherID then Some S_Finisher else sh ge n)"
    and "nodes_ok ge \<Longrightarrow> nodes_ok g"
proof -
  let ?ds = "map fst (filter (\<lambda>(nid, n). nd_type n = DatapointNodeType) (ge_nodes ge))"
  let ?g1 = "foldl (\<lambda>ge d. addEdge d CollectionFinisherID ge) ge ?ds"
  note f = fold_addEdge [where F = "\<lambda>ge d. addEdge d CollectionFinisherID ge" and f = "\<lambda>d. d"
    and h = "\<lambda>_. CollectionFinisherID", OF refl]
  have n: "ge_nodes ?g1 = ge_nodes ge" by (rule f(2))
  obtain d where g: "g = put_node CollectionFinisherID CollectionFinisherNodeType (CollectionFinisher d) ?g1"
    unfolding g0 createFinisherNode_def Let_def by blast
  show "edge_in ge u v \<or> v = CollectionFinisherID \<and> has_key (ge_nodes ge) u" if "edge_in g u v"
    using that unfolding g put_node_edge f(1) by auto
  show "sh g n = (if n = CollectionFinisherID then Some S_Finisher else sh ge n)"
    unfolding g put_node_shape n by simp
  show "nodes_ok ge \<Longrightarrow> nodes_ok g"
    unfolding g using n by (intro nodes_ok_put) (simp_all add: nodes_ok_def)
qed

subsection \<open>The conditions on the input\<close>

definition build_queries :: "GraphBuilder \<Rightarrow> (string \<times> query) list" where
  "build_queries b = (if gb_rescoreScores b \<noteq> None then [] else query_map (gb_queries b))"

definition query_ids :: "GraphBuilder \<Rightarrow> NodeID list" where
  "query_ids b = map fst (build_queries b)"

definition execution_ids :: "GraphBuilder \<Rightarrow> NodeID list" where
  "execution_ids b = map execution_id (query_ids b)"

definition checksum_ids :: "GraphBuilder \<Rightarrow> NodeID list" where
  "checksum_ids b = concat (map (\<lambda>(qid, q). CodepointChecksums (q_codeBundle q)) (build_queries b))"

definition job_ids :: "GraphBuilder \<Rightarrow> NodeID list" where
  "job_ids b = map pj_Uuid (gb_reportingJobs b)"

definition special_ids :: "NodeID list" where
  "special_ids = [DatapointCollectorID, ScoreCollectorID, CollectionFinisherID]"

definition disjoint :: "NodeID list \<Rightarrow> NodeID list \<Rightarrow> bool" where
  "disjoint xs ys \<longleftrightarrow> list_all (\<lambda>x. x \<notin> set ys) xs"

text \<open>Query ids, checksums, job ids and the ids the builder makes do not collide, and no two jobs share an id.\<close>

definition ids_ok :: "GraphBuilder \<Rightarrow> bool" where
  "ids_ok b \<longleftrightarrow> disjoint (query_ids b) (execution_ids b) \<and> disjoint (query_ids b) (checksum_ids b)
     \<and> disjoint (query_ids b) (job_ids b) \<and> disjoint (execution_ids b) (checksum_ids b)
     \<and> disjoint (execution_ids b) (job_ids b) \<and> disjoint (checksum_ids b) (job_ids b)
     \<and> disjoint special_ids (query_ids b @ execution_ids b @ checksum_ids b @ job_ids b)
     \<and> distinct (job_ids b) \<and> '''' \<notin> set (query_ids b)"

text \<open>What the input names as the source of data is not a node of another kind.\<close>

definition sources_ok :: "GraphBuilder \<Rightarrow> bool" where
  "sources_ok b \<longleftrightarrow>
     list_all (\<lambda>(qid, q). list_all (\<lambda>(name, c). c \<noteq> CollectionFinisherID) (q_requiredProps q)) (build_queries b)
   \<and> list_all (\<lambda>rj. list_all (\<lambda>(c, x). c \<noteq> CollectionFinisherID \<and> c \<notin> set (query_ids b @ job_ids b)) (pj_Datapoints rj))
       (gb_reportingJobs b)
   \<and> CollectionFinisherID \<notin> set (gb_collectScoreQrIDs b @ gb_collectDatapointChecksums b)"

text \<open>Whom a job notifies is a job that has it as a child.\<close>

definition notify_ok :: "GraphBuilder \<Rightarrow> bool" where
  "notify_ok b \<longleftrightarrow> list_all (\<lambda>rj. list_all (\<lambda>e. list_ex (\<lambda>rj'. pj_Uuid rj' = e \<and> pj_Uuid rj \<in> fst ` set (pj_ChildJobs rj'))
     (gb_reportingJobs b)) (pj_Notify rj)) (gb_reportingJobs b)"

definition job_query :: "GraphBuilder \<Rightarrow> 'v query_pass \<Rightarrow> ReportingJobSpec \<Rightarrow> string" where
  "job_query b p rj = (if gb_rescoreScores b \<noteq> None then '''' else reporting_query_for p rj)"

definition jobs_ok :: "string \<Rightarrow> 'v query_pass \<Rightarrow> GraphBuilder \<Rightarrow> bool" where
  "jobs_ok assetMrn p b \<longleftrightarrow> list_all (\<lambda>rj. job_ok assetMrn rj (job_query b p rj)) (gb_reportingJobs b)"

definition input_ok :: "string \<Rightarrow> 'v query_pass \<Rightarrow> GraphBuilder \<Rightarrow> bool" where
  "input_ok assetMrn p b \<longleftrightarrow> ids_ok b \<and> sources_ok b \<and> notify_ok b \<and> jobs_ok assetMrn p b"

subsection \<open>The wiring of the built graph\<close>

fun allowed :: "GraphBuilder \<Rightarrow> node_shape \<Rightarrow> NodeID \<Rightarrow> bool" where
  "allowed b S_ExecutionQuery n \<longleftrightarrow> n \<in> set (execution_ids b)"
| "allowed b S_Datapoint n \<longleftrightarrow> n \<in> set (checksum_ids b)"
| "allowed b S_ReportingQuery n \<longleftrightarrow> n \<in> set (query_ids b)"
| "allowed b S_Static n \<longleftrightarrow> n \<in> set (job_ids b)"
| "allowed b (S_Job cs ds) n \<longleftrightarrow> n \<in> set (job_ids b)"
| "allowed b S_Finisher n \<longleftrightarrow> n = CollectionFinisherID"
| "allowed b S_DatapointCollector n \<longleftrightarrow> n = DatapointCollectorID"
| "allowed b S_ScoreCollector n \<longleftrightarrow> n = ScoreCollectorID"

definition base_inv :: "GraphBuilder \<Rightarrow> 'v GraphExecutor \<Rightarrow> bool" where
  "base_inv b g \<longleftrightarrow> nodes_ok g \<and> (\<forall>n s. sh g n = Some s \<longrightarrow> allowed b s n)
     \<and> sh g DatapointCollectorID = Some S_DatapointCollector \<and> sh g ScoreCollectorID = Some S_ScoreCollector"

text \<open>While queries are added: every edge leads to a node that is there and is not that of a job.\<close>

definition query_inv :: "GraphBuilder \<Rightarrow> 'v query_pass \<Rightarrow> bool" where
  "query_inv b p \<longleftrightarrow> base_inv b (qp_graph p) \<and> sh (qp_graph p) CollectionFinisherID = None
     \<and> (\<forall>u v. edge_in (qp_graph p) u v \<longrightarrow> u \<noteq> CollectionFinisherID \<and> sh (qp_graph p) v \<noteq> None \<and> v \<notin> set (job_ids b))
     \<and> (\<forall>x \<in> set (job_ids b). sh (qp_graph p) x = None)
     \<and> snd ` set (qp_forJob p) \<subseteq> set (query_ids b) \<and> snd ` set (qp_byCodeId p) \<subseteq> set (query_ids b)
     \<and> (\<forall>q \<in> set (qp_unrunnable p). set (CodepointChecksums (q_codeBundle q)) \<subseteq> set (checksum_ids b))"

lemma disjointD: "disjoint xs ys \<Longrightarrow> x \<in> set xs \<Longrightarrow> x \<in> set ys \<Longrightarrow> False"
  by (auto simp: disjoint_def list_all_iff)

lemma collector_ids: "DatapointCollectorID \<noteq> ScoreCollectorID" "DatapointCollectorID \<noteq> CollectionFinisherID"
  "ScoreCollectorID \<noteq> CollectionFinisherID"
  by (simp_all add: DatapointCollectorID_def ScoreCollectorID_def CollectionFinisherID_def)

lemma shape_at_Nil [simp]: "shape_at [] n = None"
  by (simp add: shape_at_def node_at_def)

lemma edge_in_none [simp]: "\<not> edge_in \<lparr>ge_nodes = ns, ge_edges = [], ge_priorityMap = pm, ge_rescore = r\<rparr> u v"
  by (simp add: edge_in_def edges_of_def)

lemma special_fresh:
  assumes "ids_ok b" and "x \<in> set (query_ids b @ execution_ids b @ checksum_ids b @ job_ids b)"
  shows "x \<noteq> DatapointCollectorID" and "x \<noteq> ScoreCollectorID" and "x \<noteq> CollectionFinisherID"
proof -
  have "disjoint special_ids (query_ids b @ execution_ids b @ checksum_ids b @ job_ids b)"
    using assms(1) by (simp add: ids_ok_def)
  from disjointD [OF this, of x] assms(2) show "x \<noteq> DatapointCollectorID" "x \<noteq> ScoreCollectorID" "x \<noteq> CollectionFinisherID"
    unfolding special_ids_def by auto
qed

lemma query_inv_start:
  assumes "ids_ok b"
  shows "query_inv b \<lparr>qp_graph = empty_graph b, qp_unrunnable = [], qp_forJob = [], qp_byCodeId = []\<rparr>"
proof -
  have "nodes_ok (empty_graph b :: 'v GraphExecutor)"
    unfolding empty_graph_def by (intro nodes_ok_put) (simp_all add: nodes_ok_def)
  then show ?thesis using special_fresh [OF assms] collector_ids
    by (auto simp: query_inv_def base_inv_def empty_graph_def put_node_edge put_node_shape)
qed

lemma entry_codepoint: "c \<in> set (EntrypointChecksums cb) \<Longrightarrow> c \<in> set (CodepointChecksums cb)"
  by (simp add: CodepointChecksums_def)

lemma foldl_put_values: "snd ` set (foldl (\<lambda>m x. map_put x v m) m xs) \<subseteq> insert v (snd ` set m)"
  by (rule foldl_inv) (auto dest!: set_map_put)

lemma map_put_values: "snd ` set (map_put k v m) \<subseteq> insert v (snd ` set m)"
  by (auto dest!: set_map_put)

text \<open>Adding the execution node of a query, then its reporting query.\<close>

lemma add_execution_inv:
  assumes ids: "ids_ok b" and src: "sources_ok b" and x: "(qid, q) \<in> set (build_queries b)"
    and p: "query_inv b p" and g: "g = addExecutionQueryNode qid q T (qp_graph p)"
  shows "query_inv b (p\<lparr>qp_graph := g\<rparr>)"
proof -
  have qid: "qid \<in> set (query_ids b)" using x by (force simp: query_ids_def)
  have eid: "execution_id qid \<in> set (execution_ids b)" using qid by (simp add: execution_ids_def)
  have cs: "c \<in> set (CodepointChecksums (q_codeBundle q)) \<Longrightarrow> c \<in> set (checksum_ids b)" for c
    using x by (force simp: checksum_ids_def)
  have pr: "c \<in> snd ` set (q_requiredProps q) \<Longrightarrow> c \<noteq> CollectionFinisherID" for c
    using src x by (fastforce simp: sources_ok_def list_all_iff)
  have nj: "y \<notin> set (job_ids b)" if "y \<in> set (execution_ids b) \<or> y \<in> set (checksum_ids b)" for y
    using that ids disjointD by (metis ids_ok_def)
  have ec: "y \<in> set (checksum_ids b) \<Longrightarrow> y \<notin> set (execution_ids b)" for y
    using ids disjointD by (metis ids_ok_def)
  note e = addExecutionQuery(1) [OF g] and s = addExecutionQuery(2) [OF g] and o = addExecutionQuery(3) [OF g]
  note sp = special_fresh [OF ids]
  from p have P: "nodes_ok (qp_graph p)" "\<And>n s. sh (qp_graph p) n = Some s \<Longrightarrow> allowed b s n"
    "sh (qp_graph p) DatapointCollectorID = Some S_DatapointCollector" "sh (qp_graph p) ScoreCollectorID = Some S_ScoreCollector"
    "sh (qp_graph p) CollectionFinisherID = None" "\<And>x. x \<in> set (job_ids b) \<Longrightarrow> sh (qp_graph p) x = None"
    "\<And>u v. edge_in (qp_graph p) u v \<Longrightarrow> u \<noteq> CollectionFinisherID \<and> sh (qp_graph p) v \<noteq> None \<and> v \<notin> set (job_ids b)"
    by (simp_all add: query_inv_def base_inv_def)
  have k: "sh g v \<noteq> None" if "sh (qp_graph p) v \<noteq> None" for v using that by (auto simp: s)
  have c: "sh g v \<noteq> None" if "v \<in> set (CodepointChecksums (q_codeBundle q))" for v
    using that sh_None [of "qp_graph p" v] by (auto simp: s)
  have keep: "sh g y = sh (qp_graph p) y" if "y \<in> set special_ids" for y
  proof -
    have "y \<noteq> execution_id qid" "y \<notin> set (CodepointChecksums (q_codeBundle q))"
      using that sp [of y] eid cs by (auto simp: special_ids_def)
    then show ?thesis by (simp add: s)
  qed
  have "allowed b t n" if "sh g n = Some t" for n t
    using that eid cs P(2) [of n t] by (auto simp: s split: if_splits)
  moreover have "sh g DatapointCollectorID = Some S_DatapointCollector" "sh g ScoreCollectorID = Some S_ScoreCollector"
    "sh g CollectionFinisherID = None"
    using P(3-5) keep [of DatapointCollectorID] keep [of ScoreCollectorID] keep [of CollectionFinisherID]
    by (simp_all add: special_ids_def)
  moreover have "sh g x = None" if "x \<in> set (job_ids b)" for x
    using that P(6) nj eid cs by (auto simp: s)
  moreover have "u \<noteq> CollectionFinisherID \<and> sh g v \<noteq> None \<and> v \<notin> set (job_ids b)" if "edge_in g u v" for u v
  proof -
    from that consider "edge_in (qp_graph p) u v" | "u = execution_id qid" "v \<in> set (CodepointChecksums (q_codeBundle q))"
      | "u \<in> snd ` set (q_requiredProps q)" "v = execution_id qid" unfolding e by blast
    then show ?thesis
    proof cases
      case 1
      with P(7) k show ?thesis by blast
    next
      case 2
      with c cs nj sp(3) [of u] eid show ?thesis by auto
    next
      case 3
      with pr nj eid show ?thesis by (auto simp: s)
    qed
  qed
  ultimately show ?thesis using p o by (simp add: query_inv_def base_inv_def)
qed

lemma add_reporting_inv:
  assumes ids: "ids_ok b" and x: "(qid, q) \<in> set (build_queries b)"
    and p: "query_inv b p" and g: "g = addReportingQueryNode qid q (qp_graph p)"
  shows "query_inv b (p\<lparr>qp_graph := g\<rparr>)"
proof -
  have qid: "qid \<in> set (query_ids b)" using x by (force simp: query_ids_def)
  have cs: "c \<in> set (EntrypointChecksums (q_codeBundle q)) \<Longrightarrow> c \<in> set (checksum_ids b)" for c
    using x entry_codepoint by (force simp: checksum_ids_def)
  have ne: "qid \<noteq> ''''" using ids qid by (auto simp: ids_ok_def)
  have nj: "qid \<notin> set (job_ids b)" using qid ids disjointD by (metis ids_ok_def)
  note e = addReportingQuery(1) [OF g] and s = addReportingQuery(2) [OF g] and o = addReportingQuery(3) [OF g _ ne]
  note sp = special_fresh [OF ids]
  from p have P: "nodes_ok (qp_graph p)" "\<And>n s. sh (qp_graph p) n = Some s \<Longrightarrow> allowed b s n"
    "\<And>u v. edge_in (qp_graph p) u v \<Longrightarrow> u \<noteq> CollectionFinisherID \<and> sh (qp_graph p) v \<noteq> None \<and> v \<notin> set (job_ids b)"
    by (simp_all add: query_inv_def base_inv_def)
  have "allowed b t n" if "sh g n = Some t" for n t
    using that qid P(2) [of n t] by (auto simp: s split: if_splits)
  moreover have "qid \<noteq> DatapointCollectorID" "qid \<noteq> ScoreCollectorID" "qid \<noteq> CollectionFinisherID" using sp [of qid] qid by auto
  moreover have "u \<noteq> CollectionFinisherID \<and> sh g v \<noteq> None \<and> v \<notin> set (job_ids b)" if "edge_in g u v" for u v
    using that P(3) [of u v] cs sp(3) [of u] nj by (auto simp: e s)
  ultimately show ?thesis using p o nj by (auto simp: query_inv_def base_inv_def s)
qed

lemma add_query_inv:
  assumes ids: "ids_ok b" and src: "sources_ok b" and x: "x \<in> set (build_queries b)" and p: "query_inv b p"
  shows "query_inv b (add_query canRun T p x)"
proof -
  obtain qid q where xq: "x = (qid, q)" by (cases x)
  have qid: "qid \<in> set (query_ids b)" using x xq by (force simp: query_ids_def)
  let ?g1 = "if canRun (q_codeBundle q) then addExecutionQueryNode qid q T (qp_graph p) else qp_graph p"
  have "query_inv b (p\<lparr>qp_graph := ?g1\<rparr>)"
    using add_execution_inv [OF ids src _ p refl, of qid q T] x xq p by simp
  from add_reporting_inv [OF ids x [unfolded xq] this refl]
  have g: "query_inv b (p\<lparr>qp_graph := addReportingQueryNode qid q ?g1\<rparr>)" by simp
  have c: "set (CodepointChecksums (q_codeBundle q)) \<subseteq> set (checksum_ids b)" using x xq by (force simp: checksum_ids_def)
  have f: "snd ` set (foldl (\<lambda>m notify. map_put notify qid m) (qp_forJob p) (q_notifies q)) \<subseteq> set (query_ids b)"
    using qid p by (intro subset_trans [OF foldl_put_values]) (simp add: query_inv_def)
  have i: "snd ` set (map_put (cb_Id (q_codeBundle q)) qid (qp_byCodeId p)) \<subseteq> set (query_ids b)"
    using qid p by (intro subset_trans [OF map_put_values]) (simp add: query_inv_def)
  have u: "\<forall>r \<in> set (qp_unrunnable p). set (CodepointChecksums (q_codeBundle r)) \<subseteq> set (checksum_ids b)"
    using p by (simp add: query_inv_def)
  have "add_query canRun T p x = p\<lparr>qp_graph := addReportingQueryNode qid q ?g1,
      qp_unrunnable := if canRun (q_codeBundle q) then qp_unrunnable p else qp_unrunnable p @ [q],
      qp_byCodeId := map_put (cb_Id (q_codeBundle q)) qid (qp_byCodeId p),
      qp_forJob := foldl (\<lambda>m notify. map_put notify qid m) (qp_forJob p) (q_notifies q)\<rparr>"
    by (simp add: add_query_def xq)
  with g c f i u show ?thesis by (simp add: query_inv_def)
qed

lemma build_pass_inv:
  assumes "ids_ok b" and "sources_ok b"
  shows "query_inv b (build_pass parse older b)"
  unfolding build_pass_def Let_def build_queries_def [symmetric]
  by (rule foldl_inv) (simp_all add: query_inv_start add_query_inv assms)

text \<open>
  While jobs are added: an edge to a job comes from one of its datapoints, or from a child score's
  query or job. The jobs added so far have the shape their specification asks for.
\<close>

definition job_source :: "GraphBuilder \<Rightarrow> 'v query_pass \<Rightarrow> ReportingJobSpec \<Rightarrow> NodeID \<Rightarrow> bool" where
  "job_source b p rj u \<longleftrightarrow> u \<in> fst ` set (pj_Datapoints rj)
     \<or> (u \<in> fst ` set (job_children rj (job_query b p rj)) \<and> u \<in> set (query_ids b @ job_ids b))"

definition job_node :: "GraphBuilder \<Rightarrow> 'v query_pass \<Rightarrow> ReportingJobSpec \<Rightarrow> node_shape \<Rightarrow> bool" where
  "job_node b p rj s \<longleftrightarrow> s = S_Static \<or> s = job_shape rj (job_query b p rj)"

definition jobs_inv :: "GraphBuilder \<Rightarrow> 'v query_pass \<Rightarrow> ReportingJobSpec list \<Rightarrow> 'v GraphExecutor \<Rightarrow> bool" where
  "jobs_inv b p added g \<longleftrightarrow> base_inv b g \<and> sh g CollectionFinisherID = None
     \<and> (\<forall>u v. edge_in g u v \<longrightarrow> u \<noteq> CollectionFinisherID \<and>
          (sh g v \<noteq> None \<and> v \<notin> set (job_ids b)
           \<or> (\<exists>rj \<in> set (gb_reportingJobs b). v = pj_Uuid rj \<and> job_source b p rj u)))
     \<and> (\<forall>rj \<in> set added. \<exists>s. sh g (pj_Uuid rj) = Some s \<and> job_node b p rj s)
     \<and> (\<forall>rj \<in> set (gb_reportingJobs b) - set added. sh g (pj_Uuid rj) = None)"

lemma jobs_inv_start: "query_inv b p \<Longrightarrow> jobs_inv b p [] (qp_graph p)"
  by (auto simp: jobs_inv_def query_inv_def job_ids_def)

lemma add_job_cases:
  obtains score where "add_job b assetMrn p ge rj = addStaticReportingJobNode (pj_Uuid rj) rj
      (if pj_QrId rj = ''root'' then assetMrn else pj_QrId rj) score ge"
  | "add_job b assetMrn p ge rj = addReportingJobNode (gb_featureFlagFailErrors b) assetMrn (pj_Uuid rj) rj (job_query b p rj) ge"
proof (cases "gb_rescoreScores b")
  case None
  with that show thesis by (simp add: add_job_def job_query_def)
next
  case (Some scores)
  with that show thesis
    by (cases "map_get scores (if pj_QrId rj = ''root'' then assetMrn else pj_QrId rj)")
      (simp_all add: add_job_def job_query_def)
qed

lemma uuid_inj:
  assumes "ids_ok b" and "rj \<in> set (gb_reportingJobs b)" and "rj' \<in> set (gb_reportingJobs b)" and "pj_Uuid rj = pj_Uuid rj'"
  shows "rj = rj'"
  using assms by (auto simp: ids_ok_def job_ids_def distinct_map inj_on_def)

lemma lookup_default: "snd ` set m \<subseteq> A \<Longrightarrow> (case map_get m k of Some q \<Rightarrow> q | None \<Rightarrow> '''') \<in> insert '''' A"
  by (auto split: option.splits dest!: map_of_SomeD)

lemma job_query_id:
  assumes "query_inv b p" and "job_query b p rj \<noteq> ''''"
  shows "job_query b p rj \<in> set (query_ids b)"
proof -
  have "snd ` set (qp_forJob p) \<subseteq> set (query_ids b)" "snd ` set (qp_byCodeId p) \<subseteq> set (query_ids b)"
    using assms(1) by (simp_all add: query_inv_def)
  from lookup_default [OF this(1), of "pj_Uuid rj"] lookup_default [OF this(2), of "pj_QrId rj"] assms(2)
  show ?thesis by (auto simp: job_query_def reporting_query_for_def Let_def split: if_splits)
qed

text \<open>What adding a job does, whichever kind of node it gets.\<close>

lemma add_job_effect:
  fixes p :: "'v query_pass"
  assumes in_ok: "input_ok assetMrn p b" and p: "query_inv b p" and rj: "rj \<in> set (gb_reportingJobs b)"
    and new: "sh ge (pj_Uuid rj) = None" and ok: "nodes_ok ge"
  shows "nodes_ok (add_job b assetMrn p ge rj)"
    and "\<exists>s. sh (add_job b assetMrn p ge rj) = (sh ge)(pj_Uuid rj \<mapsto> s) \<and> job_node b p rj s
      \<and> allowed b s (pj_Uuid rj)"
    and "edge_in (add_job b assetMrn p ge rj) u v \<Longrightarrow> edge_in ge u v \<or> (u = pj_Uuid rj \<and> v \<in> set (pj_Notify rj))
      \<or> (v = pj_Uuid rj \<and> job_source b p rj u \<and> u \<noteq> CollectionFinisherID)"
proof -
  have nk: "\<not> has_key (ge_nodes ge) (pj_Uuid rj)" using new sh_None by blast
  have jok: "job_ok assetMrn rj (job_query b p rj)" using in_ok rj by (auto simp: input_ok_def jobs_ok_def list_all_iff)
  have id: "pj_Uuid rj \<in> set (job_ids b)" using rj by (simp add: job_ids_def)
  have ids: "ids_ok b" using in_ok by (simp add: input_ok_def)
  have dp: "c \<noteq> CollectionFinisherID" if "c \<in> fst ` set (pj_Datapoints rj)" for c
    using in_ok rj that unfolding input_ok_def sources_ok_def list_all_iff by fastforce
  have rq: "job_query b p rj \<noteq> CollectionFinisherID \<and> job_query b p rj \<in> set (query_ids b)" if "job_query b p rj \<noteq> ''''"
    using job_query_id [OF p that] special_fresh(3) [OF ids, of "job_query b p rj"] by auto
  show "nodes_ok (add_job b assetMrn p ge rj)"
    by (rule add_job_cases [of b assetMrn p ge rj])
      (use addStaticJob(3) [OF _ nk ok] addReportingJob(3) [OF _ nk ok jok] jok in \<open>auto simp: job_ok_def\<close>)
  show "\<exists>s. sh (add_job b assetMrn p ge rj) = (sh ge)(pj_Uuid rj \<mapsto> s) \<and> job_node b p rj s \<and> allowed b s (pj_Uuid rj)"
  proof (rule add_job_cases [of b assetMrn p ge rj])
    fix score assume "add_job b assetMrn p ge rj = addStaticReportingJobNode (pj_Uuid rj) rj
      (if pj_QrId rj = ''root'' then assetMrn else pj_QrId rj) score ge"
    from addStaticJob(2) [OF this nk] id show ?thesis by (intro exI [of _ S_Static]) (auto simp: job_node_def)
  next
    assume "add_job b assetMrn p ge rj = addReportingJobNode (gb_featureFlagFailErrors b) assetMrn (pj_Uuid rj) rj (job_query b p rj) ge"
    from addReportingJob(2) [OF this nk] id show ?thesis
      by (intro exI [of _ "job_shape rj (job_query b p rj)"]) (auto simp: job_node_def job_shape_def)
  qed
  show "edge_in ge u v \<or> (u = pj_Uuid rj \<and> v \<in> set (pj_Notify rj))
      \<or> (v = pj_Uuid rj \<and> job_source b p rj u \<and> u \<noteq> CollectionFinisherID)" if e: "edge_in (add_job b assetMrn p ge rj) u v"
  proof (rule add_job_cases [of b assetMrn p ge rj])
    fix score assume "add_job b assetMrn p ge rj = addStaticReportingJobNode (pj_Uuid rj) rj
      (if pj_QrId rj = ''root'' then assetMrn else pj_QrId rj) score ge"
    from addStaticJob(1) [OF this nk] e show ?thesis by blast
  next
    assume "add_job b assetMrn p ge rj = addReportingJobNode (gb_featureFlagFailErrors b) assetMrn (pj_Uuid rj) rj (job_query b p rj) ge"
    from addReportingJob(1) [OF this nk] e dp rq show ?thesis by (auto simp: job_source_def job_children_keys)
  qed
qed

lemma add_job_inv:
  fixes p :: "'v query_pass"
  assumes in_ok: "input_ok assetMrn p b" and p: "query_inv b p"
    and rj: "rj \<in> set (gb_reportingJobs b)" "rj \<notin> set added" and added: "set added \<subseteq> set (gb_reportingJobs b)"
    and inv: "jobs_inv b p added ge"
  shows "jobs_inv b p (added @ [rj]) (add_job b assetMrn p ge rj)"
proof -
  have ids: "ids_ok b" using in_ok by (simp add: input_ok_def)
  have new: "sh ge (pj_Uuid rj) = None" and ok: "nodes_ok ge" using inv rj by (simp_all add: jobs_inv_def base_inv_def)
  note eff = add_job_effect [OF in_ok p rj(1) new ok]
  obtain s where s: "sh (add_job b assetMrn p ge rj) = (sh ge)(pj_Uuid rj \<mapsto> s)" "job_node b p rj s"
    "allowed b s (pj_Uuid rj)" using eff(2) by blast
  have id: "pj_Uuid rj \<in> set (job_ids b)" using rj by (simp add: job_ids_def)
  note sp = special_fresh [OF ids, of "pj_Uuid rj"]
  have "u \<noteq> CollectionFinisherID \<and> (((sh ge)(pj_Uuid rj \<mapsto> s)) v \<noteq> None \<and> v \<notin> set (job_ids b)
      \<or> (\<exists>rj \<in> set (gb_reportingJobs b). v = pj_Uuid rj \<and> job_source b p rj u))"
    if "edge_in (add_job b assetMrn p ge rj) u v" for u v
    using eff(3) [OF that]
  proof (elim disjE conjE)
    assume "edge_in ge u v"
    with inv show ?thesis unfolding jobs_inv_def by (metis fun_upd_apply option.distinct(1))
  next
    assume u: "u = pj_Uuid rj" "v \<in> set (pj_Notify rj)"
    then obtain rj' where "rj' \<in> set (gb_reportingJobs b)" "pj_Uuid rj' = v" "u \<in> fst ` set (pj_ChildJobs rj')"
      using in_ok rj(1) unfolding input_ok_def notify_ok_def list_all_iff list_ex_iff by blast
    then have "job_source b p rj' u" using u id by (simp add: job_source_def job_children_keys)
    moreover have "u \<noteq> CollectionFinisherID" using u id sp(3) by simp
    ultimately show ?thesis using \<open>rj' \<in> _\<close> \<open>pj_Uuid rj' = v\<close> by blast
  next
    assume "v = pj_Uuid rj" "job_source b p rj u" "u \<noteq> CollectionFinisherID"
    with rj(1) show ?thesis by auto
  qed
  moreover have "\<exists>t. ((sh ge)(pj_Uuid rj \<mapsto> s)) (pj_Uuid r) = Some t \<and> job_node b p r t" if "r \<in> set (added @ [rj])" for r
    using that inv s(2) uuid_inj [OF ids rj(1), of r] added rj(2) by (auto simp: jobs_inv_def)
  moreover have "((sh ge)(pj_Uuid rj \<mapsto> s)) (pj_Uuid r) = None" if "r \<in> set (gb_reportingJobs b) - set (added @ [rj])" for r
    using that inv uuid_inj [OF ids rj(1), of r] by (auto simp: jobs_inv_def)
  ultimately show ?thesis
    using inv eff(1) s(3) sp id by (auto simp: jobs_inv_def base_inv_def s(1))
qed

lemma add_jobs_inv:
  fixes p :: "'v query_pass"
  assumes "input_ok assetMrn p b" and "query_inv b p"
  shows "jobs_inv b p (gb_reportingJobs b) (foldl (add_job b assetMrn p) (qp_graph p) (gb_reportingJobs b))"
proof -
  have "distinct (map pj_Uuid (gb_reportingJobs b))" using assms(1) by (simp add: input_ok_def ids_ok_def job_ids_def)
  then have dist: "distinct (gb_reportingJobs b)" by (simp add: distinct_map)
  have "jobs_inv b p (added @ rest) (foldl (add_job b assetMrn p) g rest)"
    if "jobs_inv b p added g" "added @ rest = gb_reportingJobs b" for added rest g
    using that
  proof (induction rest arbitrary: added g)
    case (Cons rj rest)
    have "rj \<notin> set added" "rj \<in> set (gb_reportingJobs b)" "set added \<subseteq> set (gb_reportingJobs b)"
      using dist Cons.prems(2) [symmetric] by auto
    from add_job_inv [OF assms this(2,1,3) Cons.prems(1)] Cons.IH [of "added @ [rj]"] Cons.prems(2) show ?case by simp
  qed simp
  from this [of "[]"] jobs_inv_start [OF assms(2)] show ?thesis by simp
qed

text \<open>The edges to the collectors, the unrunnable queries and the finisher.\<close>

lemma collector_edge_inv:
  assumes "jobs_inv b p js g" and "t \<in> {ScoreCollectorID, DatapointCollectorID}" and "ids_ok b"
    and "\<And>x. x \<in> set xs \<Longrightarrow> x \<noteq> CollectionFinisherID"
  shows "jobs_inv b p js (foldl (\<lambda>ge s. addEdge s t ge) g xs)"
proof (rule foldl_inv, rule assms(1))
  fix g s assume s: "s \<in> set xs" and g: "jobs_inv b p js (g :: 'a GraphExecutor)"
  have "sh g t \<noteq> None" using g assms(2) by (auto simp: jobs_inv_def base_inv_def)
  moreover have "t \<notin> set (job_ids b)" using special_fresh [OF assms(3), of t] assms(2) by auto
  moreover have "base_inv b (addEdge s t g) = base_inv b g"
    by (simp add: base_inv_def nodes_ok_addEdge addEdge_nodes)
  ultimately show "jobs_inv b p js (addEdge s t g)"
    using g assms(4) [OF s] unfolding jobs_inv_def addEdge_edge addEdge_nodes by blast
qed

lemma unrunnable_inv:
  assumes inv: "jobs_inv b p (gb_reportingJobs b) g" and ids: "ids_ok b"
    and qs: "\<forall>q \<in> set qs. set (CodepointChecksums (q_codeBundle q)) \<subseteq> set (checksum_ids b)"
  shows "jobs_inv b p (gb_reportingJobs b) (handleUnrunnableQueries qs g)"
proof -
  let ?g = "handleUnrunnableQueries qs g"
  note e = unrunnable(1) [OF refl] and s = unrunnable(2) [OF refl] and o = unrunnable(3) [OF refl]
  have k: "sh ?g n = sh g n" if "sh g n \<noteq> None" for n
    using that sh_None [of g n] by (simp add: s)
  have f: "CollectionFinisherID \<notin> set (checksum_ids b)" using special_fresh(3) [OF ids] by auto
  have "allowed b t n" if "sh ?g n = Some t" for n t
    using that qs inv by (auto simp: s jobs_inv_def base_inv_def split: if_splits)
  then have base: "base_inv b ?g"
    using inv o k by (auto simp: jobs_inv_def base_inv_def)
  have "sh ?g CollectionFinisherID = None" using inv f qs by (auto simp: s jobs_inv_def)
  moreover have "\<exists>t. sh ?g (pj_Uuid rj) = Some t \<and> job_node b p rj t" if "rj \<in> set (gb_reportingJobs b)" for rj
    using inv that k by (fastforce simp: jobs_inv_def)
  moreover have "sh ?g v \<noteq> None" if "sh g v \<noteq> None" for v using k [OF that] that by simp
  ultimately show ?thesis using inv base unfolding jobs_inv_def e by blast
qed

text \<open>What the graph of a build that is over looks like; in rescore mode it has no finisher.\<close>

definition built_inv :: "GraphBuilder \<Rightarrow> 'v query_pass \<Rightarrow> 'v GraphExecutor \<Rightarrow> bool" where
  "built_inv b p g \<longleftrightarrow> nodes_ok g \<and> (\<forall>n s. sh g n = Some s \<longrightarrow> allowed b s n)
     \<and> (\<forall>u v. edge_in g u v \<longrightarrow> u \<noteq> CollectionFinisherID \<and>
          (sh g v \<noteq> None \<and> v \<notin> set (job_ids b)
           \<or> (\<exists>rj \<in> set (gb_reportingJobs b). v = pj_Uuid rj \<and> job_source b p rj u)))
     \<and> (\<forall>rj \<in> set (gb_reportingJobs b). \<exists>s. sh g (pj_Uuid rj) = Some s \<and> job_node b p rj s)"

lemma built_inv_jobs: "jobs_inv b p (gb_reportingJobs b) g \<Longrightarrow> built_inv b p g"
  unfolding built_inv_def jobs_inv_def base_inv_def by blast

lemma finisher_inv:
  assumes inv: "jobs_inv b p (gb_reportingJobs b) g" and ids: "ids_ok b"
  shows "built_inv b p (createFinisherNode g)"
proof -
  let ?g = "createFinisherNode g"
  note e = createFinisher(1) [OF refl, of g] and s = createFinisher(2) [OF refl, of g] and o = createFinisher(3) [OF refl, of g]
  have none: "sh g CollectionFinisherID = None" using inv by (simp add: jobs_inv_def)
  have nj: "CollectionFinisherID \<notin> set (job_ids b)" using special_fresh(3) [OF ids] by auto
  have "allowed b t n" if "sh ?g n = Some t" for n t
    using that inv by (auto simp: s jobs_inv_def base_inv_def split: if_splits)
  moreover have "u \<noteq> CollectionFinisherID \<and> (sh ?g v \<noteq> None \<and> v \<notin> set (job_ids b)
      \<or> (\<exists>rj \<in> set (gb_reportingJobs b). v = pj_Uuid rj \<and> job_source b p rj u))" if "edge_in ?g u v" for u v
    using e [OF that]
  proof
    assume "edge_in g u v"
    with inv show ?thesis unfolding jobs_inv_def s by fastforce
  next
    assume "v = CollectionFinisherID \<and> has_key (ge_nodes g) u"
    with none sh_None [of g u] nj show ?thesis by (auto simp: s)
  qed
  moreover have "\<exists>t. sh ?g (pj_Uuid rj) = Some t \<and> job_node b p rj t" if "rj \<in> set (gb_reportingJobs b)" for rj
    using inv that none by (fastforce simp: s jobs_inv_def)
  ultimately show ?thesis using inv o by (simp add: built_inv_def jobs_inv_def base_inv_def)
qed

lemma build_graph_inv:
  fixes parse :: "string \<Rightarrow> 'r option"
  assumes "input_ok assetMrn (build_pass parse older b :: 'v query_pass) b"
  shows "built_inv b (build_pass parse older b) (build_graph parse older assetMrn b :: 'v GraphExecutor)"
proof -
  let ?p = "build_pass parse older b :: 'v query_pass"
  have ids: "ids_ok b" and src: "sources_ok b" using assms by (simp_all add: input_ok_def)
  have p: "query_inv b ?p" by (rule build_pass_inv [OF ids src])
  let ?g1 = "foldl (add_job b assetMrn ?p) (qp_graph ?p) (gb_reportingJobs b)"
  let ?sc = "gb_collectScoreQrIDs b @ map pj_Uuid (gb_reportingJobs b)"
  let ?dc = "gb_collectDatapointChecksums b @ (if gb_rescoreScores b \<noteq> None then []
    else concat (map (\<lambda>rj. map fst (pj_Datapoints rj)) (gb_reportingJobs b)))"
  let ?g2 = "foldl (\<lambda>ge s. addEdge s ScoreCollectorID ge) ?g1 ?sc"
  let ?g3 = "foldl (\<lambda>ge d. addEdge d DatapointCollectorID ge) ?g2 ?dc"
  have "x \<noteq> CollectionFinisherID" if "x \<in> set ?sc" for x
    using that src special_fresh(3) [OF ids, of x] by (auto simp: sources_ok_def job_ids_def)
  with collector_edge_inv [OF add_jobs_inv [OF assms p] _ ids] have g2: "jobs_inv b ?p (gb_reportingJobs b) ?g2" by blast
  have "x \<noteq> CollectionFinisherID" if "x \<in> set ?dc" for x
  proof (cases "x \<in> set (gb_collectDatapointChecksums b)")
    case True
    with src show ?thesis by (auto simp: sources_ok_def)
  next
    case False
    with that obtain rj where "rj \<in> set (gb_reportingJobs b)" "x \<in> fst ` set (pj_Datapoints rj)" by (auto split: if_splits)
    with src show ?thesis unfolding sources_ok_def list_all_iff by fastforce
  qed
  with collector_edge_inv [OF g2 _ ids] have g3: "jobs_inv b ?p (gb_reportingJobs b) ?g3" by blast
  have "\<forall>q \<in> set (qp_unrunnable ?p). set (CodepointChecksums (q_codeBundle q)) \<subseteq> set (checksum_ids b)"
    using p by (simp add: query_inv_def)
  note fin = finisher_inv [OF unrunnable_inv [OF g3 ids this] ids]
  have eq: "build_graph parse older assetMrn b = (if gb_rescoreScores b \<noteq> None then ?g3
      else createFinisherNode (handleUnrunnableQueries (qp_unrunnable ?p) ?g3))"
    by (simp only: build_graph_def Let_def)
  show ?thesis
  proof (cases "gb_rescoreScores b \<noteq> None")
    case True
    show ?thesis unfolding trans [OF eq if_P [OF True]] by (rule built_inv_jobs [OF g3])
  next
    case False
    show ?thesis unfolding trans [OF eq if_not_P [OF False]] by (rule fin)
  qed
qed

lemma built_wired:
  assumes inv: "built_inv b p g" and ids: "ids_ok b" and src: "sources_ok b"
  shows "wired g (ge_nodes g)"
  unfolding wired_def
proof (intro conjI allI impI)
  fix n x assume "map_get (ge_nodes g) n = Some x"
  with inv show "nd_id x = n" "node_ok (nd_data x)" by (simp_all add: built_inv_def nodes_ok_def)
next
  fix u v assume "sh g u = Some S_Finisher" "sh g v = Some S_Finisher"
  with inv show "u = v" unfolding built_inv_def by (metis allowed.simps(6))
next
  fix u su v assume u: "sh g u = Some su" and "v \<in> set (edges_of g u)"
  then have e: "edge_in g u v" by (simp add: edge_in_def)
  have al: "allowed b s n" if "sh g n = Some s" for n s using inv that by (simp add: built_inv_def)
  show "\<exists>sv. sh g v = Some sv \<and> edge_ok u su sv"
  proof (cases "sh g v \<noteq> None \<and> v \<notin> set (job_ids b)")
    case True
    then obtain sv where "sh g v = Some sv" by auto
    with True al [OF this] show ?thesis by (cases sv) auto
  next
    case False
    with inv e obtain rj where rj: "rj \<in> set (gb_reportingJobs b)" "v = pj_Uuid rj" "job_source b p rj u"
      unfolding built_inv_def by blast
    with inv obtain sv where sv: "sh g v = Some sv" "job_node b p rj sv" unfolding built_inv_def by blast
    have dp: "u \<notin> set (query_ids b @ job_ids b)" if "u \<in> fst ` set (pj_Datapoints rj)"
      using that src rj(1) unfolding sources_ok_def list_all_iff by fastforce
    have "edge_ok u su (job_shape rj (job_query b p rj))"
      unfolding job_shape_def edge_ok.simps
    proof (intro conjI impI)
      assume "sends_score su"
      then have "u \<in> set (query_ids b @ job_ids b)" using al [OF u] by (cases su) auto
      with rj(3) dp show "u \<in> set (map fst (job_children rj (job_query b p rj)))" by (auto simp: job_source_def)
    next
      assume "su = S_Datapoint"
      then have "u \<in> set (checksum_ids b)" using al [OF u] by simp
      then have "u \<notin> set (query_ids b @ job_ids b)" using ids disjointD by (metis Un_iff ids_ok_def set_append)
      with rj(3) show "u \<in> set (map fst (job_datapoints rj :: (string, nat RawResult option) gomap))"
        by (simp add: job_source_def job_datapoints_keys)
    qed
    with sv show ?thesis by (auto simp: job_node_def)
  qed
qed

lemma Build_ok:
  assumes "input_ok assetMrn (build_pass parse older b :: 'v query_pass) b"
    and "Build parse older assetMrn b = Some (ge :: 'v GraphExecutor)"
  shows "wired ge (ge_nodes ge)" and "map_ok (ge_nodes ge)" and "prioritized ge"
proof -
  let ?g = "build_graph parse older assetMrn b :: 'v GraphExecutor"
  have inv: "built_inv b (build_pass parse older b) ?g" by (rule build_graph_inv [OF assms(1)])
  have ids: "ids_ok b" and src: "sources_ok b" using assms(1) by (simp_all add: input_ok_def)
  from Build_Some [OF assms(2)] obtain pm where
    ge: "ge = ?g\<lparr>ge_priorityMap := if gb_rescoreScores b \<noteq> None then pm else map_put CollectionFinisherID min_int pm\<rparr>" by blast
  have same: "ge_nodes ge = ge_nodes ?g" "edges_of ge = edges_of ?g" by (simp_all add: ge edges_of_def fun_eq_iff)
  have w: "wired ?g (ge_nodes ?g)" by (rule built_wired [OF inv ids src])
  then show "wired ge (ge_nodes ge)" by (simp add: wired_def same)
  show mo: "map_ok (ge_nodes ge)" using inv by (simp add: same built_inv_def nodes_ok_def)
  show "prioritized ge"
  proof (rule Build_prioritized [OF assms(2) _ mo])
    show "edges_of ge CollectionFinisherID = []"
      using inv unfolding same built_inv_def edge_in_def by (metis list.set_intros(1) neq_Nil_conv)
    fix u v assume uv: "has_key (ge_nodes ge) u" "v \<in> set (edges_of ge u)"
    then have "sh ?g u \<noteq> None" using sh_None [of ?g u] same by simp
    then obtain su where "sh ?g u = Some su" by auto
    with w uv(2) have "\<exists>sv. sh ?g v = Some sv \<and> edge_ok u su sv"
      unfolding wired_def same by blast
    then have "sh ?g v \<noteq> None" by auto
    then show "has_key (ge_nodes ge) v" using sh_None [of ?g v] same by simp
  qed
qed

subsection \<open>The properties of a build\<close>

text \<open>The edge lists of the graph are sorted sets: inserting an edge target keeps a strictly sorted
  list strictly sorted and adds exactly that target, so adding an edge twice changes nothing.\<close>

theorem insertSorted_refines_insert:
  assumes "sorted_wrt (<) ss"
  shows "sorted_wrt (<) (insertSorted ss s) \<and> set (insertSorted ss s) = insert s (set ss)
    \<and> insertSorted (insertSorted ss s) s = insertSorted ss s"
proof -
  note i = insertSorted_ok [OF assms, of s] and ii = insertSorted_ok [OF insertSorted_ok [OF assms, of s, THEN conjunct1], of s]
  have "insertSorted (insertSorted ss s) s = insertSorted ss s"
    by (rule strict_sorted_equal) (use i ii in auto)
  with i show ?thesis by blast
qed

theorem insertSorted_refines_insert_witness:
  "sorted_wrt (<) (insertSorted [''a'', ''c''] ''b'') \<and> set (insertSorted [''a'', ''c''] ''b'') = {''a'', ''b'', ''c''}"
proof -
  have "sorted_wrt (<) [''a'', ''c'']" by simp
  from insertSorted_refines_insert [OF this, of "''b''"] show ?thesis by auto
qed

text \<open>C2: the search for priorities, and with it the build, returns exactly when no node of the graph
  reaches a cycle; otherwise it recurses without end.\<close>

theorem Build_returns_iff_acyclic:
  "Build parse older assetMrn b = (None :: 'v GraphExecutor option) \<longleftrightarrow>
     (\<exists>n. has_key (ge_nodes (build_graph parse older assetMrn b :: 'v GraphExecutor)) n
        \<and> cyclic_from (edges_of (build_graph parse older assetMrn b :: 'v GraphExecutor)) n)"
proof -
  let ?g = "build_graph parse older assetMrn b :: 'v GraphExecutor"
  have "Build parse older assetMrn b = (None :: 'v GraphExecutor option) \<longleftrightarrow>
      prioritizeNodes (Suc (length (ge_edges ?g))) (edges_of ?g) [] (map fst (ge_nodes ?g)) = None"
    by (simp add: Build_def Let_def split: option.splits)
  then show ?thesis unfolding prioritizeNodes_returns_iff by auto
qed

lemma Build_total:
  assumes "\<nexists>n. has_key (ge_nodes (build_graph parse older assetMrn b :: 'v GraphExecutor)) n
        \<and> cyclic_from (edges_of (build_graph parse older assetMrn b :: 'v GraphExecutor)) n"
  shows "\<exists>ge. Build parse older assetMrn b = Some (ge :: 'v GraphExecutor)"
proof -
  let ?g = "build_graph parse older assetMrn b :: 'v GraphExecutor"
  have "prioritizeNodes (Suc (length (ge_edges ?g))) (edges_of ?g) [] (map fst (ge_nodes ?g)) \<noteq> None"
    by (rule prioritizeNodes_total) (use assms in auto)
  then show ?thesis by (auto simp: Build_def Let_def)
qed

text \<open>C3: on an input that satisfies the conditions, the priorities \<open>Build\<close> assigns fall along every edge
  out of a node and stay between the smallest integer and the priority of incoming messages.\<close>

theorem built_graph_prioritized:
  assumes "input_ok assetMrn (build_pass parse older b :: 'v query_pass) b"
    and "Build parse older assetMrn b = Some (ge :: 'v GraphExecutor)"
  shows "prioritized ge"
  using Build_ok(3) [OF assms] .

text \<open>C1: an input with consistent ids, jobs that are children of the jobs they notify and no cyclic
  dependencies is built, and the executor runs the result to its end for any messages on its
  datapoints: no nil pointer, no unknown child, no second close of the channel, no endless round.\<close>

theorem built_graph_runs:
  assumes "input_ok assetMrn (build_pass parse older b :: 'v query_pass) b"
    and "\<nexists>n. has_key (ge_nodes (build_graph parse older assetMrn b :: 'v GraphExecutor)) n
        \<and> cyclic_from (edges_of (build_graph parse older assetMrn b :: 'v GraphExecutor)) n"
    and "env_ok (E :: 'v env)"
  shows "\<exists>ge. Build parse older assetMrn b = Some ge \<and>
    (\<forall>bs. batches_ok ge bs \<longrightarrow> (\<exists>k out. \<forall>m \<ge> k. Execute E ge m bs = Some (Inr out)))"
proof -
  from Build_total [OF assms(2)] obtain ge where ge: "Build parse older assetMrn b = Some (ge :: 'v GraphExecutor)" by blast
  note ok = Build_ok [OF assms(1) ge]
  have "\<exists>k out. \<forall>m \<ge> k. Execute E ge m bs = Some (Inr out)" if "batches_ok ge bs" for bs
    by (rule execute_ok [OF assms(3) ok(3,1,2) that])
  with ge show ?thesis by blast
qed

subsection \<open>A concrete input\<close>

text \<open>A query with one entrypoint, the check that rolls it up and the job of the asset.\<close>

definition sample_builder :: GraphBuilder where
  "sample_builder = AddReportingJob
     \<lparr>pj_QrId = ''root'', pj_Uuid = ''u0'', pj_Notify = [], pj_ScoringSystem = AVERAGE, pj_Datapoints = [],
      pj_ChildJobs = [(''u1'', None)], pj_Type = RJ_POLICY\<rparr>
   (AddReportingJob
     \<lparr>pj_QrId = ''//check'', pj_Uuid = ''u1'', pj_Notify = [''u0''], pj_ScoringSystem = AVERAGE,
      pj_Datapoints = [(''c'', True)], pj_ChildJobs = [], pj_Type = RJ_CHECK\<rparr>
   (AddQuery \<lparr>cb_Id = ''q'', cb_MinMondooVersion = '''', cb_Checksums = [(1, ''c'')], cb_Entrypoints = [1],
      cb_Datapoints = []\<rparr> [] [] [''u1'']
   (AddScoreCollector ''out'' (NewBuilder ''unstable''))))"

abbreviation no_version :: "string \<Rightarrow> nat option" where "no_version \<equiv> \<lambda>_. None"

lemmas builder_ops = sample_builder_def NewBuilder_def AddQuery_def AddReportingJob_def AddScoreCollector_def

lemma sample_queries: "build_queries sample_builder = [(''q'', \<lparr>q_codeBundle =
     \<lparr>cb_Id = ''q'', cb_MinMondooVersion = '''', cb_Checksums = [(1, ''c'')], cb_Entrypoints = [1], cb_Datapoints = []\<rparr>,
   q_requiredProps = [], q_resolvedProperties = [], q_notifies = [''u1'']\<rparr>)]"
  by (simp add: build_queries_def query_map_def builder_ops)

lemma sample_ids: "query_ids sample_builder = [''q'']" "execution_ids sample_builder = [''execution_query/q'']"
  "checksum_ids sample_builder = [''c'']" "job_ids sample_builder = [''u1'', ''u0'']"
  by (simp_all add: query_ids_def execution_ids_def checksum_ids_def job_ids_def sample_queries execution_id_def
      CodepointChecksums_def EntrypointChecksums_def DatapointChecksums_def checksum_of_def)
    (simp_all add: builder_ops)

lemma sample_input_ok: "input_ok ''//asset'' (build_pass no_version (<) sample_builder :: nat query_pass) sample_builder"
proof -
  have "ids_ok sample_builder"
    by (simp add: ids_ok_def sample_ids disjoint_def special_ids_def DatapointCollectorID_def ScoreCollectorID_def CollectionFinisherID_def)
  moreover have "sources_ok sample_builder"
    by (simp add: sources_ok_def sample_ids sample_queries) (simp add: builder_ops CollectionFinisherID_def)
  moreover have "notify_ok sample_builder" by (simp add: notify_ok_def builder_ops)
  moreover have "jobs_ok ''//asset'' (build_pass no_version (<) sample_builder :: nat query_pass) sample_builder"
    by (simp add: jobs_ok_def job_ok_def job_query_def reporting_query_for_def build_pass_def add_query_def Let_def
        builder_ops query_map_def job_children_def forwards_def)
  ultimately show ?thesis by (simp add: input_ok_def)
qed

lemma sample_builds: "(case Build no_version (<) ''//asset'' sample_builder of None \<Rightarrow> False
   | Some ge \<Rightarrow> shape_at (ge_nodes (ge :: nat GraphExecutor)) ''c'' = Some S_Datapoint)"
  by code_simp

lemma sample_Build:
  obtains ge :: "nat GraphExecutor" where "Build no_version (<) ''//asset'' sample_builder = Some ge"
    and "shape_at (ge_nodes ge) ''c'' = Some S_Datapoint"
  using sample_builds that by (cases "Build no_version (<) ''//asset'' sample_builder :: nat GraphExecutor option") simp_all

lemma sample_acyclic:
  "\<nexists>n. has_key (ge_nodes (build_graph no_version (<) ''//asset'' sample_builder :: nat GraphExecutor)) n
     \<and> cyclic_from (edges_of (build_graph no_version (<) ''//asset'' sample_builder :: nat GraphExecutor)) n"
proof -
  let ?g = "build_graph no_version (<) ''//asset'' sample_builder :: nat GraphExecutor"
  obtain ge :: "nat GraphExecutor" where "Build no_version (<) ''//asset'' sample_builder = Some ge"
    by (rule sample_Build)
  then have "prioritizeNodes (Suc (length (ge_edges ?g))) (edges_of ?g) [] (map fst (ge_nodes ?g)) \<noteq> None"
    by (auto simp: Build_def Let_def split: option.splits)
  then show ?thesis unfolding prioritizeNodes_returns_iff by auto
qed

theorem built_graph_prioritized_witness:
  "\<exists>ge :: nat GraphExecutor. Build no_version (<) ''//asset'' sample_builder = Some ge \<and> prioritized ge"
proof -
  obtain ge :: "nat GraphExecutor" where ge: "Build no_version (<) ''//asset'' sample_builder = Some ge"
    by (rule sample_Build)
  from built_graph_prioritized [OF sample_input_ok this] ge show ?thesis by blast
qed

theorem built_graph_runs_witness:
  "\<exists>ge. Build no_version (<) ''//asset'' sample_builder = Some ge \<and>
    (\<exists>k out. \<forall>m \<ge> k. Execute test_env ge m [(ResultMsg (test_result ''c'' (Some 1) None), []), (DoneMsg, [])]
       = Some (Inr out))"
proof -
  from built_graph_runs [OF sample_input_ok sample_acyclic test_env_ok] obtain ge where
    ge: "Build no_version (<) ''//asset'' sample_builder = Some ge"
    and run: "\<And>bs. batches_ok ge bs \<Longrightarrow> \<exists>k out. \<forall>m \<ge> k. Execute test_env ge m bs = Some (Inr out)" by blast
  obtain ge' :: "nat GraphExecutor" where "Build no_version (<) ''//asset'' sample_builder = Some ge'"
    and c: "shape_at (ge_nodes ge') ''c'' = Some S_Datapoint" by (rule sample_Build)
  with ge have "shape_at (ge_nodes ge) ''c'' = Some S_Datapoint" by simp
  then have "batches_ok ge [(ResultMsg (test_result ''c'' (Some 1) None), []), (DoneMsg, [])]"
    by (simp add: batches_ok_def results_ok_def with_data_def test_result_def)
  from run [OF this] ge show ?thesis by blast
qed

end
