(* ===== verification/Resolver_Children.thy ===== *)
theory Resolver_Children
  imports Resolver_Queries
begin

text \<open>
  The children of the reporting jobs: a query has one, the variant or the code that was selected for the asset, and the
  code that is executed has none. The executor relies on it: a job that forwards the score of its child panics when it
  has two.
\<close>

subsection \<open>The edges of the graph\<close>

definition proper_edges :: "PolicyBundleMap \<Rightarrow> resolvedPolicyBuilder \<Rightarrow> bool" where
  "proper_edges M b \<longleftrightarrow> (\<forall>tgt. \<forall>e \<in> set (edges_to b tgt). proper_edge M b (ei_edge e) tgt)"

lemma proper_edge_steps [simp]:
  "proper_edge M (rb_addEdge s t i b) = proper_edge M b" "proper_edge M (rb_addNode n b) = proper_edge M b"
  "proper_edge M (rb_addProps X ps b) = proper_edge M b" "proper_edge M (b\<lparr>rb_riskDataQueryInfos := m\<rparr>) = proper_edge M b"
  by (intro ext proper_edge_config, simp)+

lemma edges_to_steps [simp]:
  "edges_to (rb_addNode n b) = edges_to b" "edges_to (rb_addProps X ps b) = edges_to b"
  "edges_to (b\<lparr>rb_riskDataQueryInfos := m\<rparr>) = edges_to b"
  by (intro ext, simp add: edges_to_def rb_addNode_def rb_addProps_def)+

lemma edges_to_addEdge:
  "e \<in> set (edges_to (rb_addEdge src tgt i b) x) \<Longrightarrow> e \<in> set (edges_to b x) \<or> x = tgt \<and> ei_edge e = src"
  by (auto simp: rb_addEdge_def edges_to_def split: if_splits)

interpretation edges: graph_steps "\<lambda>b. proper_edges M b \<and> rb_bundleMap b = M" M for M
  by unfold_locales (auto simp: proper_edges_def dest!: edges_to_addEdge)

interpretation no_edges_gather: gather_steps "\<lambda>b. rb_reportsFromEdges b = [] \<and> rb_bundleMap b = M" for M
  by unfold_locales auto

lemma proper_edges_empty: "rb_reportsFromEdges b = [] \<Longrightarrow> proper_edges M b"
  by (simp add: proper_edges_def edges_to_def)

lemma resolver_graph_edges:
  assumes "resolver_graph k X mrn b = Inr b'" and "rb_reportsFromEdges b = []"
  shows "proper_edges (rb_bundleMap b) b'"
proof -
  let ?M = "rb_bundleMap b"
  have "proper_edges ?M b' \<and> rb_bundleMap b' = ?M"
  proof (rule resolver_graph_keeps [OF assms(1), where I = "\<lambda>x. rb_reportsFromEdges x = [] \<and> rb_bundleMap x = ?M"
        and J = "\<lambda>x. proper_edges ?M x \<and> rb_bundleMap x = ?M"])
    show "proper_edges ?M (x\<lparr>rb_queryTypes := t\<rparr>) \<and> rb_bundleMap (x\<lparr>rb_queryTypes := t\<rparr>) = ?M"
      if "rb_reportsFromEdges x = [] \<and> rb_bundleMap x = ?M" for x t
      using that by (intro conjI proper_edges_empty) simp_all
  qed (rule edges.graph_steps_axioms no_edges_gather.gather_steps_axioms | simp add: assms(2))+
  then show ?thesis ..
qed

subsection \<open>One child\<close>

lemma child_of_mono:
  "child_of k b q = Some x \<Longrightarrow> k \<le> k' \<Longrightarrow> child_of k' b q = Some x"
  "variant_of k b vs = Some y \<Longrightarrow> k \<le> k' \<Longrightarrow> variant_of k' b vs = Some y"
proof (induction k b q and k b vs arbitrary: k' x and k' y rule: child_of_variant_of.induct)
  case (2 k b q)
  then obtain k'' where "k' = Suc k''" "k \<le> k''" by (cases k') auto
  with 2(1) [of x k''] 2(2) show ?case by (cases "canRun (action_of b (mq_Mrn q)) \<and> mq_Variants q \<noteq> []") (simp, simp split: if_splits)
next
  case (4 k b v vs)
  show ?case
  proof (cases "map_get (bm_Queries (rb_bundleMap b)) (or_Mrn v)")
    case (Some qo)
    with 4(4) obtain q r where q: "qo = Some q" "child_of k b q = Some r" by (auto split: option.splits)
    have r: "child_of k' b q = Some r" by (rule 4(2) [OF Some q(1) q(2) 4(5)])
    show ?thesis
    proof (cases r)
      case None
      with Some q 4(4) have "variant_of k b vs = Some y" by simp
      from 4(3) [OF Some q(1) _ None this 4(5)] q(2) Some r q(1) None show ?thesis by simp
    qed (use 4(4) Some q r in simp)
  next
    case None
    with 4(4) have "variant_of k b vs = Some y" by simp
    from 4(1) [OF None this 4(5)] None show ?thesis by simp
  qed
qed simp_all

lemma child_of_unique:
  assumes "child_of k b q = Some (Some (c, code))" and "child_of k' b q = Some (Some (c', code'))"
  shows "c = c'"
proof (cases "k \<le> k'")
  case True
  with child_of_mono(1) [OF assms(1), of k'] assms(2) show ?thesis by simp
next
  case False
  with child_of_mono(1) [OF assms(2), of k] assms(1) show ?thesis by simp
qed

text \<open>The nodes of the graph and what they stand for.\<close>

definition proper_nodes :: "PolicyBundleMap \<Rightarrow> resolvedPolicyBuilder \<Rightarrow> bool" where
  "proper_nodes M b \<longleftrightarrow> (\<forall>(nid, n) \<in> set (rb_nodes b). (\<exists>q. n = ExecQueryNode q) \<or> proper_node M n)"

interpretation nodes: graph_steps "\<lambda>b. proper_nodes M b \<and> rb_bundleMap b = M" M for M
  by unfold_locales (auto simp: proper_nodes_def dest!: set_map_put)

lemma resolver_graph_nodes:
  assumes "resolver_graph k X mrn b = Inr b'" and "rb_nodes b = []"
  shows "proper_nodes (rb_bundleMap b) b'"
proof -
  let ?M = "rb_bundleMap b"
  have "proper_nodes ?M b' \<and> rb_bundleMap b' = ?M"
    by (rule resolver_graph_keeps [OF assms(1), where I = "\<lambda>x. rb_nodes x = [] \<and> rb_bundleMap x = ?M"
        and J = "\<lambda>x. proper_nodes ?M x \<and> rb_bundleMap x = ?M"])
      (rule nodes.graph_steps_axioms empty_gather.gather_steps_axioms | simp add: assms(2) proper_nodes_def)+
  then show ?thesis ..
qed

text \<open>A bundle has one query per MRN.\<close>

lemma put_all_keyed:
  "map_ok m \<Longrightarrow> \<forall>(k', v') \<in> set m. P k' v' \<Longrightarrow> \<forall>x \<in> set xs. P (k x) (v x) \<Longrightarrow> map_ok (put_all k v xs m) \<and> (\<forall>(k', v') \<in> set (put_all k v xs m). P k' v')"
  unfolding put_all_def
proof (induction xs arbitrary: m)
  case (Cons x xs)
  have "\<forall>(k', v') \<in> set (map_put (k x) (v x) m). P k' v'" using Cons.prems by (auto dest!: set_map_put)
  with Cons.IH [OF _ this] Cons.prems show ?case by simp
qed simp

lemma bundle_queries_unique:
  assumes "q \<in> bundle_queries (ToMap props p)" and "q' \<in> bundle_queries (ToMap props p)" and "mq_Mrn q' = mq_Mrn q"
  shows "q' = q"
proof -
  let ?m = "put_all mq_Mrn Some (bu_Queries p) []"
  have "map_ok ?m \<and> (\<forall>(k', v') \<in> set ?m. v' \<noteq> None \<and> k' = mq_Mrn (the v'))"
    by (rule put_all_keyed) (simp_all add: map_ok_def)
  then have "map_ok ?m" and "\<And>k x. (k, Some x) \<in> set ?m \<Longrightarrow> k = mq_Mrn x" by fastforce+
  with assms show ?thesis
    by (auto simp: bundle_queries_def ToMap_def NewPolicyBundleMap_def) (metis map_get_Some_iff option.inject)
qed

lemma query_has_one_child:
  assumes p: "proper_edges M b" and g: "graph_ok b" and M: "M = ToMap props pb" and q: "q \<in> bundle_queries M"
    and a: "mq_Mrn q \<notin> group_mrns M"
  shows "length (edges_to b (mq_Mrn q)) \<le> 1"
proof -
  have one: "ei_edge e = ei_edge e'" if e: "e \<in> set (edges_to b (mq_Mrn q))" "e' \<in> set (edges_to b (mq_Mrn q))" for e e'
  proof -
    have "\<exists>k code. child_of k b q = Some (Some (ei_edge e, code))" if "e \<in> set (edges_to b (mq_Mrn q))" for e
    proof -
      from p that a obtain q' k code where "q' \<in> bundle_queries M" "mq_Mrn q = mq_Mrn q'" "child_of k b q' = Some (Some (ei_edge e, code))"
        unfolding proper_edges_def proper_edge_def by blast
      with bundle_queries_unique [of q props pb q'] q show ?thesis unfolding M by auto
    qed
    from this [OF e(1)] this [OF e(2)] child_of_unique show ?thesis by blast
  qed
  have d: "distinct (map ei_edge (edges_to b (mq_Mrn q)))" using g by (simp add: graph_ok_def)
  show ?thesis
  proof (cases "edges_to b (mq_Mrn q)")
    case (Cons e es)
    then have "es = []" using one [of e] d by (cases es) auto
    then show ?thesis using Cons by simp
  qed simp
qed

lemma code_has_no_child:
  assumes "proper_edges M b" and "c \<notin> group_mrns M" and "c \<notin> mq_Mrn ` bundle_queries M"
  shows "edges_to b c = []"
  using assms unfolding proper_edges_def proper_edge_def by (cases "edges_to b c") (simp, metis imageI list.set_intros(1))

subsection \<open>The kinds of the jobs\<close>

fun job_type :: "rpBuilderNode \<Rightarrow> ReportingJob_Type" where
  "job_type (PolicyNode p s r) = RJ_POLICY"
| "job_type (GenericQueryNode mrn t c) = query_job_type t"
| "job_type (ExecQueryNode q) = RJ_EXECUTION_QUERY"
| "job_type (FrameworkNode mrn) = RJ_FRAMEWORK"
| "job_type (ControlNode mrn) = RJ_CONTROL"
| "job_type (RiskFactorNode r m cs) = RJ_RISK_FACTOR"

definition typed_jobs :: "rpBuilderNode set \<Rightarrow> (string, ReportingJob) gomap \<Rightarrow> bool" where
  "typed_jobs ns js \<longleftrightarrow> (\<forall>(u, j) \<in> set js. \<exists>n \<in> ns. getId n = pj_QrId j \<and> pj_Type j = job_type n)"

lemma typed_jobs_mono: "typed_jobs A js \<Longrightarrow> A \<subseteq> B \<Longrightarrow> typed_jobs B js"
  unfolding typed_jobs_def by fast

lemma typed_on_job:
  assumes "typed_jobs ns js" and "\<And>j. pj_QrId (f j) = pj_QrId j" "\<And>j. pj_Type (f j) = pj_Type j"
  shows "typed_jobs ns (on_job u f js)"
proof (cases "map_get js u")
  case (Some j)
  with assms map_of_SomeD [OF Some] show ?thesis
    by (auto simp: typed_jobs_def on_job_def Some dest!: set_map_put)
qed (use assms in \<open>simp add: on_job_def\<close>)

lemma typed_report:
  assumes "typed_jobs ns (rp_jobs rp)" and "n \<in> ns" and "getId n = q" and "job_type n = t"
  shows "typed_jobs ns (rp_jobs (rp_addReportingJob q m u t a rp))"
  using assms by (auto simp: rp_addReportingJob_def typed_jobs_def new_job_def dest!: set_map_put)

lemma connectDatapoints_typed:
  "connectDatapointsToReportingJob dps u cj = Inr cj' \<Longrightarrow> typed_jobs ns (cj_ReportingJobs cj) \<Longrightarrow> typed_jobs ns (cj_ReportingJobs cj')"
proof (induction dps u cj rule: connectDatapointsToReportingJob.induct)
  case (2 dp dps uuid cj)
  have "typed_jobs ns (on_job uuid (\<lambda>j. j\<lparr>pj_Datapoints := map_put dp True (pj_Datapoints j)\<rparr>) (cj_ReportingJobs cj))"
    by (rule typed_on_job [OF 2(3)]) simp_all
  with 2(1,2) show ?case by (auto split: option.splits)
qed simp

lemma node_build_typed:
  assumes b: "node_build X d n rp = Inr rp'" and t: "typed_jobs ns (rp_jobs rp)" and n: "n \<in> ns"
  shows "typed_jobs ns (rp_jobs rp')"
proof (cases n)
  case (PolicyNode p s r)
  with assms show ?thesis
    by (auto simp: build_policy_def Let_def intro!: typed_report [OF t n] typed_on_job split: if_splits)
next
  case (ExecQueryNode q)
  with b have e: "build_exec X d q rp = Inr rp'" by simp
  from e obtain pt pc rp1 where cp: "compileProps X d (map (\<lambda>r. pp_Mrn (prop_at (bd_propsCache d) r)) (mq_Props q)) ([], [], rp) = Inr (pt, pc, rp1)"
    unfolding build_exec_def by (auto split: sum.splits)
  from e cp obtain eq dc cj where mq: "mquery2executionQuery X (Mquery_like X q) pt pc (rpo_CollectorJob rp1) = Inr (eq, dc, cj)"
    unfolding build_exec_def by (auto split: sum.splits)
  let ?u = "relativeChecksum X (bd_baseChecksum d) (mq_CodeId q)"
  let ?rp = "rp_addReportingJob (mq_CodeId q) False ?u RJ_EXECUTION_QUERY False (put_query (mq_CodeId q) eq (rp1\<lparr>rpo_CollectorJob := cj\<rparr>))"
  from e cp mq obtain cj' where c: "connectDatapointsToReportingJob (xq_Datapoints eq) ?u (rpo_CollectorJob ?rp) = Inr cj'"
    and rp': "rp' = ?rp\<lparr>rpo_CollectorJob := cj'\<rparr>"
    unfolding build_exec_def by (auto simp: Let_def)
  have "cj_ReportingJobs cj = rp_jobs rp"
    using mquery2executionQuery_jobs [OF mq] compileProps_jobs [OF cp] by (simp add: rp_jobs_def)
  then have "typed_jobs ns (rp_jobs ?rp)" using t n ExecQueryNode by (intro typed_report [where n = n]) simp_all
  then show ?thesis using connectDatapoints_typed [OF c] by (simp add: rp' rp_jobs_def)
next
  case (RiskFactorNode r m cs)
  have keep: "rp_jobs (foldl (\<lambda>rp c. on_collector (\<lambda>cj. cj\<lparr>cj_RiskMrns := g c cj\<rparr>) rp) rp0 xs) = rp_jobs rp0" for rp0 xs g
    by (induction xs arbitrary: rp0) (simp_all add: rp_jobs_def on_collector_def)
  have "typed_jobs ns (rp_jobs (rp_addReportingJob (rf_Mrn r) True u RJ_RISK_FACTOR True (on_collector (\<lambda>cj. cj\<lparr>cj_RiskFactors := h cj\<rparr>) rp)))" for u h
    using t n RiskFactorNode by (intro typed_report [where n = n]) (simp_all flip: rp_jobs_def)
  with b RiskFactorNode show ?thesis by (auto simp: build_risk_def Let_def keep)
next
  case (GenericQueryNode mrn ty c)
  with b t n typed_report [OF t n] show ?thesis
    by (auto simp: build_generic_def Let_def simp flip: rp_jobs_def split: if_splits)
qed (use b typed_report [OF t n] in auto)

lemma build_list_typed:
  "build_list (node_build X d) ns rp = Inr rp' \<Longrightarrow> typed_jobs A (rp_jobs rp) \<Longrightarrow> set ns \<subseteq> A \<Longrightarrow> typed_jobs A (rp_jobs rp')"
  by (induction ns arbitrary: rp) (auto split: sum.splits intro: node_build_typed)

text \<open>Connecting the jobs and naming the root keep what a job stands for.\<close>

definition same_kinds :: "(string, ReportingJob) gomap \<Rightarrow> (string, ReportingJob) gomap \<Rightarrow> bool" where
  "same_kinds js js' \<longleftrightarrow> (\<forall>u j. map_get js' u = Some j \<longrightarrow> (\<exists>j0. map_get js u = Some j0 \<and> pj_Type j = pj_Type j0))"

lemma same_kinds_trans: "same_kinds js js' \<Longrightarrow> same_kinds js' js'' \<Longrightarrow> same_kinds js js''"
  unfolding same_kinds_def by metis

lemma same_kinds_on_job: "(\<And>j. pj_Type (f j) = pj_Type j) \<Longrightarrow> same_kinds js (on_job u f js)"
  by (auto simp: same_kinds_def on_job_get)

lemma same_kinds_connect: "same_kinds js (connect_jobs byQrId edges js)"
proof -
  have refl: "same_kinds js js" for js by (simp add: same_kinds_def)
  have edge: "same_kinds js (connect_edge byQrId q js e)" for q js e
    by (auto simp: connect_edge_def connectReportingJobNotifies_def refl intro!: same_kinds_trans [OF same_kinds_on_job same_kinds_on_job] split: option.splits)
  have one: "same_kinds js (foldl (connect_edge byQrId q) js es)" for q js es
    by (induction es rule: rev_induct) (auto simp: refl intro: same_kinds_trans edge)
  show ?thesis unfolding connect_jobs_def
    by (induction edges rule: rev_induct) (auto simp: refl intro: same_kinds_trans one)
qed

lemma finish_policy_kinds:
  assumes "finish_policy X mrn b rp = Inr rp'"
  shows "same_kinds (rp_jobs rp) (rp_jobs rp')"
proof -
  from assms obtain bq u where rp': "rp' = on_jobs (map (\<lambda>(u, j). (u, RefreshChecksum X j))) (refreshChecksums X
       ((on_jobs (on_job u (\<lambda>j. j\<lparr>pj_QrId := ''root''\<rparr>)) (on_jobs (connect_jobs bq (rb_reportsFromEdges b))
          (add_risk_data (rb_riskDataQueryInfos b) rp)))\<lparr>rpo_ReportingJobUuid := u\<rparr>))"
    unfolding finish_policy_def Let_def by (auto split: sum.splits option.splits)
  have "same_kinds js (map (\<lambda>(u, j). (u, RefreshChecksum X j)) js)" for js
    by (auto simp: same_kinds_def map_of_map_val)
  from same_kinds_trans [OF same_kinds_trans [OF same_kinds_connect same_kinds_on_job] this] show ?thesis
    by (simp add: rp')
qed

subsection \<open>The children of the jobs\<close>

text \<open>
  What the graph takes for granted about names: no query has the MRN of a policy, a risk factor, a framework or a control,
  and no code id is an MRN of the bundle.
\<close>

definition names_apart :: "PolicyBundleMap \<Rightarrow> ResolvedPolicy \<Rightarrow> bool" where
  "names_apart M rp \<longleftrightarrow> mq_Mrn ` bundle_queries M \<inter> group_mrns M = {}
     \<and> query_keys rp \<inter> (group_mrns M \<union> mq_Mrn ` bundle_queries M) = {}"

lemma job_pair_edges:
  assumes g: "graph_ok b" and js: "fresh_jobs ids js" and bq: "\<forall>q. map_get bq q = map_get (jobs_of_nodes js) q"
    and j: "(u, j) \<in> set js"
  shows "{c. (c, u) \<in> set (job_pairs bq (rb_reportsFromEdges b))} \<subseteq> (\<lambda>e. the (map_get bq (ei_edge e))) ` set (edges_to b (pj_QrId j))"
proof
  fix c assume "c \<in> {c. (c, u) \<in> set (job_pairs bq (rb_reportsFromEdges b))}"
  then obtain q es and e :: edgeImpact where e: "(q, es) \<in> set (rb_reportsFromEdges b)" "e \<in> set es"
    and q: "map_get bq q = Some u" and c: "map_get bq (ei_edge e) = Some c"
    by (auto simp: job_pairs_def edge_pair_def split: option.splits)
  have "map fst (jobs_of_nodes js) = map (\<lambda>(u, j). pj_QrId j) js" by (simp add: jobs_of_nodes_def case_prod_beta comp_def)
  then have "map_ok (jobs_of_nodes js)" using js unfolding fresh_jobs_def map_ok_def by simp
  moreover have "(pj_QrId j, u) \<in> set (jobs_of_nodes js)" using j by (force simp: jobs_of_nodes_def)
  ultimately have "map_get (jobs_of_nodes js) (pj_QrId j) = Some u" by (simp add: map_get_Some_iff)
  then have "q = pj_QrId j" using jobs_of_nodes_inj [OF js] q bq by metis
  moreover have "map_get (rb_reportsFromEdges b) q = Some es" using g e(1) by (simp add: graph_ok_def map_get_Some_iff)
  then have "edges_to b q = es" by (simp add: edges_to_def)
  ultimately show "c \<in> (\<lambda>e. the (map_get bq (ei_edge e))) ` set (edges_to b (pj_QrId j))"
    using e(2) c by (auto intro!: rev_image_eqI)
qed

lemma resolved_children:
  assumes r: "buildResolvedPolicy k X mrn p props impacts filters now = Inr (Inr rp)" and apart: "names_apart (ToMap props p) rp"
    and j: "map_get (rp_jobs rp) u = Some j" and fwd: "forwards (pj_Type j)"
  shows "card (fst ` set (pj_ChildJobs j)) \<le> 1 \<and> (pj_Type j = RJ_EXECUTION_QUERY \<longrightarrow> pj_ChildJobs j = [])"
proof -
  let ?M = "ToMap props p"
  from buildResolvedPolicy_steps [OF r] obtain cb :: compiled and b d V rp0 fs es fsum where
    b: "resolver_graph k X mrn (initial_builder mrn ?M props impacts filters now (disabledQuery (cb_Id cb))) = Inr b"
    and w: "build_walk k X d b (non_prunables b) (empty_policy fs es fsum) = Inr (Inr (V, rp0))"
    and f: "finish_policy X mrn b rp0 = Inr rp" by blast
  have ok: "graph_ok b" by (rule resolver_graph_ok [OF b graph_ok_initial])
  have edges: "proper_edges ?M b" and nodes: "proper_nodes ?M b"
    using resolver_graph_edges [OF b] resolver_graph_nodes [OF b] by (simp_all add: initial_builder_def)
  note walk = build_walk_fresh [OF ok non_prunables_nodes w rp_jobs_empty]
  let ?ns = "map (the \<circ> map_get (rb_nodes b)) (rev V)"
  have typed: "typed_jobs (set ?ns) (rp_jobs rp0)" by (rule build_list_typed [OF walk(3)]) (simp_all add: typed_jobs_def)
  from finish_policy_jobs [OF f walk(4)] obtain bq where bq: "\<forall>q. map_get bq q = map_get (jobs_of_nodes (rp_jobs rp0)) q"
    and l: "linked (job_pairs bq (rb_reportsFromEdges b)) (rp_jobs rp)" by blast
  from finish_policy_kinds [OF f] j obtain j0 where j0: "map_get (rp_jobs rp0) u = Some j0" "pj_Type j = pj_Type j0"
    unfolding same_kinds_def by blast
  note in_js = map_of_SomeD [OF j0(1)]
  from typed in_js obtain n where n: "n \<in> set ?ns" "getId n = pj_QrId j0" "pj_Type j0 = job_type n"
    unfolding typed_jobs_def by blast
  obtain nid where nid: "(nid, n) \<in> set (rb_nodes b)"
  proof -
    from n(1) obtain x where x: "x \<in> set V" "n = the (map_get (rb_nodes b) x)" by auto
    have "map_get (rb_nodes b) x \<noteq> None"
      using x(1) unfolding walk(2) mem_Collect_eq
      by cases (auto simp: node_ids_def non_prunables_def map_get_None_iff)
    then have "map_get (rb_nodes b) x = Some n" using x(2) by auto
    then show thesis by (rule that [OF map_of_SomeD])
  qed
  have kids: "fst ` set (pj_ChildJobs j) \<subseteq> (\<lambda>e. the (map_get bq (ei_edge e))) ` set (edges_to b (getId n))"
    unfolding n(2) using job_pair_edges [OF ok walk(4) bq in_js] linkedD(3) [OF l j] by blast
  have card: "card (fst ` set (pj_ChildJobs j)) \<le> length (edges_to b (getId n))"
    using card_mono [OF _ kids] card_image_le [of "set (edges_to b (getId n))" "\<lambda>e. the (map_get bq (ei_edge e))"]
      card_length [of "edges_to b (getId n)"] by simp
  show ?thesis
  proof (cases n)
    case (GenericQueryNode qm t c)
    with nodes nid obtain q where q: "q \<in> bundle_queries ?M" "qm = mq_Mrn q" by (fastforce simp: proper_nodes_def)
    have "length (edges_to b (mq_Mrn q)) \<le> 1"
      by (rule query_has_one_child [OF edges ok refl q(1)]) (use apart q in \<open>auto simp: names_apart_def\<close>)
    moreover have "pj_Type j \<noteq> RJ_EXECUTION_QUERY" using n(3) j0(2) GenericQueryNode by (cases t) simp_all
    ultimately show ?thesis using card q(2) GenericQueryNode by simp
  next
    case (ExecQueryNode q)
    have "mq_CodeId q \<in> query_keys rp"
      using build_walk_keys(1) [OF ok w rp_jobs_empty] nid finish_policy_keys [OF f] by (simp add: ExecQueryNode query_keys_def empty_policy_def)
    then have "edges_to b (mq_CodeId q) = []"
      by (intro code_has_no_child [OF edges]) (use apart in \<open>auto simp: names_apart_def\<close>)
    with kids ExecQueryNode show ?thesis by simp
  qed (use fwd n(3) j0(2) in \<open>simp_all add: forwards_def\<close>)
qed

end
