(* ===== verification/Policy_Execution.thy ===== *)
theory Policy_Execution
  imports Collector_Results Build_Wiring Resolver_Children
begin

text \<open>
  The executions of the policy engine (\<open>policy/executor/graph.go\<close>): a graph is built from a resolved policy, from the
  filter queries of a set of policies or from one query, it is run, and its scores and data go to collectors. A query that
  runs is answered by batches of results, as in \<open>Graph_Exec\<close>; the compiler is a parameter. A call ends, blocks on the next
  batch, runs out of fuel (\<open>None\<close>) or panics.
\<close>

subsection \<open>The graph of a resolved policy\<close>

definition reporting_notifies :: "ResolvedPolicy \<Rightarrow> ExecutionQuery \<Rightarrow> string list" where
  "reporting_notifies rp eq = (case map_get (cj_ReportingQueries (rpo_CollectorJob rp)) (cb_Id (xq_Code eq)) of
     None \<Rightarrow> [] | Some items \<Rightarrow> items)"

definition builderFromResolvedPolicy :: "string \<Rightarrow> ResolvedPolicy \<Rightarrow> GraphBuilder" where
  "builderFromResolvedPolicy coreVersion rp =
     (let b = foldl (\<lambda>b (_, eq). AddQuery (CodeBundle.truncate (xq_Code eq)) (xq_Properties eq) [] (reporting_notifies rp eq) b)
            (NewBuilder coreVersion) (xj_Queries (rpo_ExecutionJob rp));
          b = foldl (\<lambda>b (_, rj). AddReportingJob (ReportingJobSpec.truncate rj) b) b (rp_jobs rp)
      in foldl (\<lambda>b (c, dqi). AddDatapointType c (dq_Type dqi) b) b (cj_Datapoints (rpo_CollectorJob rp)))"

subsection \<open>Running a graph\<close>

datatype 'a returned = Blocks | Returns 'a

definition run_graph ::
  "'v env \<Rightarrow> nat \<Rightarrow> 'v batch list \<Rightarrow> (bool \<Rightarrow> 'v effect list \<Rightarrow> 'a) \<Rightarrow> 'v GraphExecutor option \<Rightarrow> 'a returned go option" where
  "run_graph E fuel batches f built = (case built of None \<Rightarrow> None
     | Some ge \<Rightarrow> map_option (map_sum (\<lambda>p. p) (\<lambda>out. case out of
           Waiting st \<Rightarrow> Blocks
         | Finished st \<Rightarrow> Returns (f True (ex_effects st))
         | Failed st \<Rightarrow> Returns (f False (ex_effects st)))) (Execute E ge fuel batches))"

text \<open>A function collector, fed with the calls it gets.\<close>

definition feed :: "('v, 's) FuncCollector \<Rightarrow> string \<Rightarrow> 's \<Rightarrow> 'v effect \<Rightarrow> 's" where
  "feed c name s eff = (case eff of
     effect.SinkData n results \<Rightarrow> if n = name then FuncCollector_SinkData c results s else s
   | effect.SinkScore n scores \<Rightarrow> if n = name then FuncCollector_SinkScore c scores s else s
   | _ \<Rightarrow> s)"

subsection \<open>Rescoring\<close>

definition RescoreResolvedPolicy ::
  "'v env \<Rightarrow> (string \<Rightarrow> 'r option) \<Rightarrow> ('r \<Rightarrow> 'r \<Rightarrow> bool) \<Rightarrow> string \<Rightarrow> string \<Rightarrow> ResolvedPolicy \<Rightarrow> (string, Score) gomap option
     \<Rightarrow> (Score list \<Rightarrow> 's \<Rightarrow> 's) \<Rightarrow> 's \<Rightarrow> nat \<Rightarrow> 'v batch list \<Rightarrow> (bool \<times> 's) returned go option" where
  "RescoreResolvedPolicy E parse older coreVersion assetMrn rp scores collect s fuel batches =
     (let b = WithRescore scores (AddScoreCollector ''collector'' (builderFromResolvedPolicy coreVersion rp)) in
      run_graph E fuel batches (\<lambda>ok effs. (ok, foldl (feed \<lparr>SinkDataFunc = None, SinkScoreFunc = Some collect\<rparr> ''collector'') s effs))
        (Build parse older assetMrn b))"

subsection \<open>Filter queries\<close>

type_synonym filterScoreTracker = "(string, Score) gomap"

definition tracker_record :: "Score \<Rightarrow> filterScoreTracker \<Rightarrow> filterScoreTracker" where
  "tracker_record s t = map_put (sc_QrId s) s t"

definition tracker_passing :: "filterScoreTracker \<Rightarrow> string list" where
  "tracker_passing t = map fst (filter (\<lambda>(qid, s). sc_ScoreCompletion s = 100 \<and> sc_Value s = 100) t)"

definition add_filter ::
  "(string \<Rightarrow> string + CodeBundle) \<Rightarrow> GraphBuilder \<times> (string, 'm FilterQuery_scheme) gomap \<Rightarrow> 'm FilterQuery_scheme
     \<Rightarrow> GraphBuilder \<times> (string, 'm FilterQuery_scheme) gomap" where
  "add_filter compile = (\<lambda>(b, queryMap) m. case compile (mq_Mql m) of
     Inl e \<Rightarrow> (b, queryMap)
   | Inr codeBundle \<Rightarrow> (CollectScore (cb_Id codeBundle) (AddQuery codeBundle [] [] [] b), map_put (cb_Id codeBundle) m queryMap))"

definition filter_builder ::
  "(string \<Rightarrow> string + CodeBundle) \<Rightarrow> string \<Rightarrow> 'm FilterQuery_scheme list \<Rightarrow> GraphBuilder \<times> (string, 'm FilterQuery_scheme) gomap" where
  "filter_builder compile coreVersion queries = foldl (add_filter compile) (NewBuilder coreVersion, []) queries"

definition filter_collector :: "('v, filterScoreTracker) FuncCollector" where
  "filter_collector = \<lparr>SinkDataFunc = None, SinkScoreFunc = Some (\<lambda>scores t. foldl (\<lambda>t s. tracker_record s t) t scores)\<rparr>"

definition passing_queries :: "(string, 'm FilterQuery_scheme) gomap \<Rightarrow> filterScoreTracker \<Rightarrow> 'm FilterQuery_scheme list" where
  "passing_queries queryMap tracker = map snd (filter (\<lambda>(qid, q). qid \<in> set (tracker_passing tracker)) queryMap)"

definition ExecuteFilterQueries ::
  "'v env \<Rightarrow> (string \<Rightarrow> 'r option) \<Rightarrow> ('r \<Rightarrow> 'r \<Rightarrow> bool) \<Rightarrow> string \<Rightarrow> (string \<Rightarrow> string + CodeBundle) \<Rightarrow> 'm FilterQuery_scheme list
     \<Rightarrow> nat \<Rightarrow> 'v batch list \<Rightarrow> 'm FilterQuery_scheme list option returned go option" where
  "ExecuteFilterQueries E parse older coreVersion compile queries fuel batches =
     (let (b, queryMap) = filter_builder compile coreVersion queries in
      run_graph E fuel batches
        (\<lambda>ok effs. if ok then Some (passing_queries queryMap (foldl (feed filter_collector ''filters'') [] effs)) else None)
        (Build parse older '''' (AddScoreCollector ''filters'' b)))"

subsection \<open>One query\<close>

definition query_collector :: "string \<Rightarrow> ('v, Score \<times> (string, 'v RawResult) gomap) FuncCollector" where
  "query_collector qrID = \<lparr>
     SinkDataFunc = Some (\<lambda>results (score, m). (score, foldl (\<lambda>m d. map_put (rr_CodeID d) d m) m results)),
     SinkScoreFunc = Some (\<lambda>scores (score, m). (foldl (\<lambda>score s. if sc_QrId s = qrID then s else score) score scores, m))\<rparr>"

definition query_builder :: "string \<Rightarrow> CodeBundle \<Rightarrow> (string, Primitive) gomap \<Rightarrow> GraphBuilder" where
  "query_builder coreVersion codeBundle props =
     CollectScore (cb_Id codeBundle) (foldl (\<lambda>b c. CollectDatapoint c b) (AddQuery codeBundle [] props [] (NewBuilder coreVersion))
       (CodepointChecksums codeBundle))"

definition ExecuteQuery ::
  "'v env \<Rightarrow> (string \<Rightarrow> 'r option) \<Rightarrow> ('r \<Rightarrow> 'r \<Rightarrow> bool) \<Rightarrow> string \<Rightarrow> CodeBundle \<Rightarrow> (string, Primitive) gomap \<Rightarrow> nat \<Rightarrow> 'v batch list
     \<Rightarrow> (Score \<times> (string, 'v RawResult) gomap) option returned go option" where
  "ExecuteQuery E parse older coreVersion codeBundle props fuel batches =
     (let b = AddScoreCollector ''query'' (AddDatapointCollector ''query'' (query_builder coreVersion codeBundle props)) in
      run_graph E fuel batches
        (\<lambda>ok effs. if ok then Some (foldl (feed (query_collector (cb_Id codeBundle)) ''query'')
           (zeroScore\<lparr>sc_QrId := cb_Id codeBundle\<rparr>, []) effs) else None)
        (Build parse older '''' b))"

subsection \<open>A resolved policy\<close>

text \<open>
  The buffered collector runs beside the graph: its timer ticks between any two calls. The schedule is the number of ticks
  before each call.
\<close>

fun sink_of :: "string \<Rightarrow> 'v effect \<Rightarrow> 'v sink_event option" where
  "sink_of name (effect.SinkData n results) = (if n = name then Some (EvData results) else None)"
| "sink_of name (effect.SinkScore n scores) = (if n = name then Some (EvScores scores) else None)"
| "sink_of name _ = None"

fun interleave :: "nat list \<Rightarrow> 'v sink_event list \<Rightarrow> 'v sink_event list" where
  "interleave [] es = es"
| "interleave (n # ns) [] = replicate n EvTick @ interleave ns []"
| "interleave (n # ns) (e # es) = replicate n EvTick @ e # interleave ns es"

definition counter :: "('v, countingCollector) FuncCollector" where
  "counter = \<lparr>SinkDataFunc = Some (\<lambda>results. counting_SinkData (map Some results)),
     SinkScoreFunc = Some (\<lambda>scores. counting_SinkScore (map Some scores))\<rparr>"

record policy_run =
  pr_ok :: bool
  pr_requests :: "StoreResultsReq list"
  pr_counts :: "KindCounts option"

definition policy_builder :: "string \<Rightarrow> bool \<Rightarrow> bool \<Rightarrow> ResolvedPolicy \<Rightarrow> GraphBuilder" where
  "policy_builder coreVersion stats errorsAsFailures rp =
     (let b = AddScoreCollector ''buffered'' (AddDatapointCollector ''buffered'' (builderFromResolvedPolicy coreVersion rp));
          b = (if stats then AddDatapointCollector ''counter'' (AddScoreCollector ''counter'' b) else b)
      in if errorsAsFailures then WithFeatureFlagFailErrors b else b)"

text \<open>A collector without the resolved policy acts as one with an empty one: \<open>EnumerateQueryResources\<close> of nil is nil.\<close>

definition policy_collector :: "bool \<Rightarrow> ResolvedPolicy \<Rightarrow> 'v BufferedCollector go" where
  "policy_collector noRiskMrns rp =
     go_bind (WithResolvedPolicy noRiskMrns rp (new_collector (empty_policy [] [] [])))
       (\<lambda>r. Inr (case r of Inl err \<Rightarrow> new_collector (empty_policy [] [] []) | Inr c \<Rightarrow> c))"

definition ExecuteResolvedPolicy ::
  "'v sink_env \<Rightarrow> (string \<Rightarrow> 'r option) \<Rightarrow> ('r \<Rightarrow> 'r \<Rightarrow> bool) \<Rightarrow> string \<Rightarrow> string \<Rightarrow> bool \<Rightarrow> ResolvedPolicy \<Rightarrow> bool \<Rightarrow> bool
     \<Rightarrow> nat list \<Rightarrow> nat \<Rightarrow> 'v batch list \<Rightarrow> policy_run returned go option" where
  "ExecuteResolvedPolicy S parse older coreVersion assetMrn noRiskMrns rp stats errorsAsFailures ticks fuel batches =
     (case policy_collector noRiskMrns rp of
        Inl p \<Rightarrow> Some (Inl p)
      | Inr c \<Rightarrow> run_graph (se_env S) fuel batches (\<lambda>ok effs.
            \<lparr>pr_ok = ok,
             pr_requests = collector_run S assetMrn c (interleave ticks (List.map_filter (sink_of ''buffered'') effs)),
             pr_counts = (if stats then Some (counting_recordTo (foldl (feed counter ''counter'') (newCountingCollector (Some rp)) effs)) else None)\<rparr>)
          (Build parse older assetMrn (policy_builder coreVersion stats errorsAsFailures rp)))"

end
