(* ===== verification/Policy_Execution_Results.thy ===== *)
theory Policy_Execution_Results
  imports Policy_Execution
begin

text \<open>
  From a policy to the end of its execution: the graph of a resolved policy satisfies the conditions under which the
  executor runs it; the filters that match are decided by their last scores; and what a scan stores does not depend on
  the timer of its collector.
\<close>

subsection \<open>The builder of a resolved policy\<close>

lemma foldl_builder:
  assumes "\<And>x b. f b x = b\<lparr>gb_queries := gb_queries b @ [g x]\<rparr>"
  shows "foldl f b xs = b\<lparr>gb_queries := gb_queries b @ map g xs\<rparr>"
  by (induction xs arbitrary: b) (simp_all add: assms)

lemma foldl_jobs:
  assumes "\<And>x b. f b x = b\<lparr>gb_reportingJobs := gb_reportingJobs b @ [g x]\<rparr>"
  shows "foldl f b xs = b\<lparr>gb_reportingJobs := gb_reportingJobs b @ map g xs\<rparr>"
  by (induction xs arbitrary: b) (simp_all add: assms)

lemma foldl_types:
  "\<exists>m. foldl (\<lambda>b (c, dqi). AddDatapointType c (dq_Type dqi) b) b xs = b\<lparr>gb_datapointType := m\<rparr>"
proof (induction xs arbitrary: b)
  case (Cons x xs)
  from Cons.IH [of "AddDatapointType (fst x) (dq_Type (snd x)) b"] show ?case
    by (auto simp: AddDatapointType_def case_prod_beta)
next
  case Nil
  have "foldl (\<lambda>b (c, dqi). AddDatapointType c (dq_Type dqi) b) b [] = b\<lparr>gb_datapointType := gb_datapointType b\<rparr>" by simp
  then show ?case by blast
qed

definition policy_query :: "ResolvedPolicy \<Rightarrow> ExecutionQuery \<Rightarrow> query" where
  "policy_query rp eq = \<lparr>q_codeBundle = CodeBundle.truncate (xq_Code eq), q_requiredProps = xq_Properties eq,
     q_resolvedProperties = [], q_notifies = reporting_notifies rp eq\<rparr>"

lemma builder_fields:
  assumes "b = policy_builder v stats fe rp"
  shows "gb_queries b = map (policy_query rp \<circ> snd) (xj_Queries (rpo_ExecutionJob rp))"
    and "gb_reportingJobs b = map (ReportingJobSpec.truncate \<circ> snd) (rp_jobs rp)"
    and "gb_rescoreScores b = None"
proof -
  let ?q = "foldl (\<lambda>b (_, eq). AddQuery (CodeBundle.truncate (xq_Code eq)) (xq_Properties eq) [] (reporting_notifies rp eq) b)
    (NewBuilder v) (xj_Queries (rpo_ExecutionJob rp))"
  let ?j = "foldl (\<lambda>b (_, rj). AddReportingJob (ReportingJobSpec.truncate rj) b) ?q (rp_jobs rp)"
  have q: "?q = (NewBuilder v)\<lparr>gb_queries := map (policy_query rp \<circ> snd) (xj_Queries (rpo_ExecutionJob rp))\<rparr>"
  proof -
    have "?q = (NewBuilder v)\<lparr>gb_queries := gb_queries (NewBuilder v) @ map (policy_query rp \<circ> snd) (xj_Queries (rpo_ExecutionJob rp))\<rparr>"
      by (rule foldl_builder) (auto simp: AddQuery_def policy_query_def)
    then show ?thesis by (simp only: NewBuilder_def GraphBuilder.select_convs append_Nil)
  qed
  have j: "?j = ?q\<lparr>gb_reportingJobs := map (ReportingJobSpec.truncate \<circ> snd) (rp_jobs rp)\<rparr>"
  proof -
    have "?j = ?q\<lparr>gb_reportingJobs := gb_reportingJobs ?q @ map (ReportingJobSpec.truncate \<circ> snd) (rp_jobs rp)\<rparr>"
      by (rule foldl_jobs) (auto simp: AddReportingJob_def)
    moreover have "gb_reportingJobs ?q = []" unfolding q by (simp add: NewBuilder_def)
    ultimately show ?thesis by (simp only: append_Nil)
  qed
  obtain m where m: "builderFromResolvedPolicy v rp = ?j\<lparr>gb_datapointType := m\<rparr>"
    using foldl_types [of ?j "cj_Datapoints (rpo_CollectorJob rp)"] by (auto simp: builderFromResolvedPolicy_def Let_def)
  have "builderFromResolvedPolicy v rp = (NewBuilder v)\<lparr>gb_queries := map (policy_query rp \<circ> snd) (xj_Queries (rpo_ExecutionJob rp)),
      gb_reportingJobs := map (ReportingJobSpec.truncate \<circ> snd) (rp_jobs rp), gb_datapointType := m\<rparr>"
    unfolding m j unfolding q by simp
  then show "gb_queries b = map (policy_query rp \<circ> snd) (xj_Queries (rpo_ExecutionJob rp))"
    and "gb_reportingJobs b = map (ReportingJobSpec.truncate \<circ> snd) (rp_jobs rp)" and "gb_rescoreScores b = None"
    by (simp_all add: assms policy_builder_def Let_def AddScoreCollector_def AddDatapointCollector_def
        WithFeatureFlagFailErrors_def NewBuilder_def)
qed

lemma truncate_job [simp]:
  "pj_Uuid (ReportingJobSpec.truncate j) = pj_Uuid j" "pj_Notify (ReportingJobSpec.truncate j) = pj_Notify j"
  "pj_ChildJobs (ReportingJobSpec.truncate j) = pj_ChildJobs j" "pj_Type (ReportingJobSpec.truncate j) = pj_Type j"
  "pj_QrId (ReportingJobSpec.truncate j) = pj_QrId j"
  by (simp_all add: ReportingJobSpec.truncate_def)

lemma truncate_code [simp]: "cb_Id (CodeBundle.truncate c) = cb_Id c"
  by (simp add: CodeBundle.truncate_def)

subsection \<open>The queries that notify a job\<close>

lemma query_map_entries:
  "(qid, q) \<in> set (query_map qs) \<Longrightarrow> q \<in> set qs \<and> qid = cb_Id (q_codeBundle q)"
proof -
  have "\<forall>(qid, q) \<in> set (foldl (\<lambda>m q. map_put (cb_Id (q_codeBundle q)) q m) m xs). q \<in> set qs \<and> qid = cb_Id (q_codeBundle q)"
    if "\<forall>(qid, q) \<in> set m. q \<in> set qs \<and> qid = cb_Id (q_codeBundle q)" and "set xs \<subseteq> set qs" for m xs
    using that
  proof (induction xs arbitrary: m)
    case (Cons x xs)
    have "\<forall>(qid, q) \<in> set (map_put (cb_Id (q_codeBundle x)) x m). q \<in> set qs \<and> qid = cb_Id (q_codeBundle q)"
      using Cons.prems by (auto dest!: set_map_put)
    from Cons.IH [OF this] Cons.prems(2) show ?case by simp
  qed simp
  from this [of "[]" qs] show "(qid, q) \<in> set (query_map qs) \<Longrightarrow> q \<in> set qs \<and> qid = cb_Id (q_codeBundle q)"
    by (auto simp: query_map_def)
qed

lemma foldl_put_has_key: "has_key (foldl (\<lambda>m x. map_put x v m) m xs) k \<longleftrightarrow> has_key m k \<or> k \<in> set xs"
  by (induction xs arbitrary: m) auto

lemma pass_sources:
  fixes parse :: "string \<Rightarrow> 'r option" and older b
  defines "p \<equiv> build_pass parse older b :: 'v query_pass"
  shows "has_key (qp_forJob p) u \<Longrightarrow> \<exists>q \<in> set (gb_queries b). u \<in> set (q_notifies q)"
    and "has_key (qp_byCodeId p) c \<Longrightarrow> \<exists>q \<in> set (gb_queries b). cb_Id (q_codeBundle q) = c"
proof -
  let ?ok = "\<lambda>p :: 'v query_pass. (\<forall>u. has_key (qp_forJob p) u \<longrightarrow> (\<exists>q \<in> set (gb_queries b). u \<in> set (q_notifies q)))
    \<and> (\<forall>c. has_key (qp_byCodeId p) c \<longrightarrow> (\<exists>q \<in> set (gb_queries b). cb_Id (q_codeBundle q) = c))"
  have "?ok p" unfolding p_def build_pass_def Let_def
  proof (rule foldl_inv [where I = ?ok])
    fix s :: "'v query_pass" and x assume x: "x \<in> set (if gb_rescoreScores b \<noteq> None then [] else query_map (gb_queries b))" and s: "?ok s"
    obtain qid q where xq: "x = (qid, q)" by fastforce
    with x have q: "q \<in> set (gb_queries b)" "qid = cb_Id (q_codeBundle q)" using query_map_entries by (auto split: if_splits)
    show "?ok (add_query can (gb_datapointType b) s x)" for can
      using s q by (auto simp: add_query_def xq Let_def foldl_put_has_key)
  qed simp
  then show "has_key (qp_forJob p) u \<Longrightarrow> \<exists>q \<in> set (gb_queries b). u \<in> set (q_notifies q)"
    and "has_key (qp_byCodeId p) c \<Longrightarrow> \<exists>q \<in> set (gb_queries b). cb_Id (q_codeBundle q) = c" by blast+
qed

text \<open>
  What the identifiers of a resolved policy promise besides \<open>names_apart\<close>: no query of the execution job notifies the job
  of a check, whose id is a hash of its MRN, and no check has a code id for its MRN; and the number of children of a job fits
  the counters.
\<close>

definition is_query_job :: "ReportingJob_Type \<Rightarrow> bool" where
  "is_query_job t \<longleftrightarrow> t = RJ_CHECK \<or> t = RJ_DATA_QUERY \<or> t = RJ_CHECK_AND_DATA_QUERY"

definition checks_apart :: "ResolvedPolicy \<Rightarrow> bool" where
  "checks_apart rp \<longleftrightarrow> list_all (\<lambda>(u, j). is_query_job (pj_Type j) \<longrightarrow> list_all (\<lambda>(c, eq).
     u \<notin> set (reporting_notifies rp eq) \<and> cb_Id (xq_Code eq) \<noteq> pj_QrId j) (xj_Queries (rpo_ExecutionJob rp))) (rp_jobs rp)"

definition jobs_fit :: "string \<Rightarrow> ResolvedPolicy \<Rightarrow> bool" where
  "jobs_fit assetMrn rp \<longleftrightarrow> assetMrn \<noteq> '''' \<and> list_all (\<lambda>(u, j). pj_QrId j \<noteq> '''' \<and> length (pj_ChildJobs j) + 2 < 4294967296) (rp_jobs rp)"

lemma check_has_no_query:
  assumes apart: "checks_apart rp" and j: "(u, j) \<in> set (rp_jobs rp)" and u: "pj_Uuid j = u" and t: "is_query_job (pj_Type j)"
    and b: "b = policy_builder v stats fe rp"
  shows "reporting_query_for (build_pass parse older b :: 'v query_pass) (ReportingJobSpec.truncate j) = ''''"
proof -
  let ?p = "build_pass parse older b :: 'v query_pass"
  have no: "u \<notin> set (q_notifies q) \<and> cb_Id (q_codeBundle q) \<noteq> pj_QrId j" if "q \<in> set (gb_queries b)" for q
    using that apart j t unfolding builder_fields(1) [OF b] by (fastforce simp: checks_apart_def list_all_iff policy_query_def)
  have "\<not> has_key (qp_forJob ?p) u" using pass_sources(1) no by blast
  moreover have "\<not> has_key (qp_byCodeId ?p) (pj_QrId j)" using pass_sources(2) no by blast
  ultimately have "map_get (qp_forJob ?p) u = None" "map_get (qp_byCodeId ?p) (pj_QrId j) = None"
    by (simp_all add: map_get_None_iff)
  then show ?thesis by (simp add: reporting_query_for_def u Let_def)
qed

lemma length_job_children: "length (job_children rj rq) = card (fst ` set (job_children rj rq))"
proof -
  have "map_ok (foldl (\<lambda>m (child, ss). map_put child \<lparr>rr_impact = ss, rr_score = None\<rparr> m) m xs)" if "map_ok m" for m :: "(NodeID, reportingJobResult) gomap" and xs
    using that by (induction xs arbitrary: m) auto
  then have "distinct (map fst (job_children rj rq))" by (simp add: job_children_def map_ok_def)
  then have "card (set (map fst (job_children rj rq))) = length (map fst (job_children rj rq))" by (rule distinct_card)
  then show ?thesis by simp
qed

lemma length_job_children_le: "length (job_children rj rq) \<le> length (pj_ChildJobs rj) + 1"
proof -
  have "card (fst ` set (job_children rj rq)) \<le> card (insert rq (fst ` set (pj_ChildJobs rj)))"
    by (rule card_mono) (auto simp: job_children_keys)
  also have "\<dots> \<le> Suc (card (fst ` set (pj_ChildJobs rj)))" by (simp add: card_insert_if)
  also have "\<dots> \<le> Suc (length (pj_ChildJobs rj))" using card_length [of "map fst (pj_ChildJobs rj)"] by simp
  finally show ?thesis by (simp add: length_job_children)
qed

subsection \<open>From resolution to execution\<close>

lemma policy_notify_ok:
  assumes r: "buildResolvedPolicy k X mrn p props impacts filters now = Inr (Inr rp)" and b: "b = policy_builder v stats fe rp"
  shows "notify_ok b"
  unfolding notify_ok_def builder_fields(2) [OF b] list_all_iff list_ex_iff
proof (intro ballI)
  note sync = resolved_sync [OF r]
  fix rj e assume rj: "rj \<in> set (map (ReportingJobSpec.truncate \<circ> snd) (rp_jobs rp))" and e: "e \<in> set (pj_Notify rj)"
  then obtain u j where j: "(u, j) \<in> set (rp_jobs rp)" "rj = ReportingJobSpec.truncate j" by auto
  with sync have get: "map_get (rp_jobs rp) u = Some j" by (simp add: map_get_Some_iff)
  with sync e j obtain q where q: "map_get (rp_jobs rp) e = Some q" "has_key (pj_ChildJobs q) u" by force
  have "ReportingJobSpec.truncate q \<in> set (map (ReportingJobSpec.truncate \<circ> snd) (rp_jobs rp))"
    using map_of_SomeD [OF q(1)] by force
  moreover have "pj_Uuid q = e" "pj_Uuid j = u" using sync q(1) get by blast+
  ultimately show "\<exists>rj' \<in> set (map (ReportingJobSpec.truncate \<circ> snd) (rp_jobs rp)). pj_Uuid rj' = e \<and> pj_Uuid rj \<in> fst ` set (pj_ChildJobs rj')"
    using q(2) by (intro bexI [of _ "ReportingJobSpec.truncate q"]) (simp_all add: j(2))
qed

lemma policy_jobs_ok:
  assumes r: "buildResolvedPolicy k X mrn p props impacts filters now = Inr (Inr rp)" and b: "b = policy_builder v stats fe rp"
    and names: "names_apart (ToMap props p) rp" and apart: "checks_apart rp" and fit: "jobs_fit assetMrn rp"
  shows "jobs_ok assetMrn (build_pass parse older b :: 'v query_pass) b"
  unfolding jobs_ok_def builder_fields(2) [OF b] list_all_iff
proof
  let ?p = "build_pass parse older b :: 'v query_pass"
  fix rj assume "rj \<in> set (map (ReportingJobSpec.truncate \<circ> snd) (rp_jobs rp))"
  then obtain u j where j: "(u, j) \<in> set (rp_jobs rp)" "rj = ReportingJobSpec.truncate j" by auto
  have get: "map_get (rp_jobs rp) u = Some j" and uuid: "pj_Uuid j = u" using resolved_sync [OF r] j by (simp_all add: map_get_Some_iff)
  have f: "pj_QrId j \<noteq> ''''" "assetMrn \<noteq> ''''" "length (pj_ChildJobs j) + 2 < 4294967296"
    using fit j(1) by (auto simp: jobs_fit_def list_all_iff)
  have q: "job_query b ?p rj = reporting_query_for ?p rj" by (simp add: job_query_def builder_fields(3) [OF b])
  have "length (job_children rj (reporting_query_for ?p rj)) \<le> 1" if fwd: "forwards (pj_Type j)"
  proof -
    have kids: "card (fst ` set (pj_ChildJobs j)) \<le> 1 \<and> (pj_Type j = RJ_EXECUTION_QUERY \<longrightarrow> pj_ChildJobs j = [])"
      by (rule resolved_children [OF r names get fwd])
    show ?thesis
    proof (cases "pj_Type j = RJ_EXECUTION_QUERY")
      case True
      with kids have "pj_ChildJobs rj = []" by (simp add: j(2))
      then show ?thesis unfolding length_job_children job_children_keys by simp
    next
      case False
      with fwd have "is_query_job (pj_Type j)" by (auto simp: forwards_def is_query_job_def)
      from check_has_no_query [OF apart j(1) uuid this b, of parse older, where ?'v = 'v] kids show ?thesis
        unfolding length_job_children job_children_keys by (simp add: j(2))
    qed
  qed
  moreover have "length (job_children rj (reporting_query_for ?p rj)) + 1 < 4294967296"
    using length_job_children_le [of rj "reporting_query_for ?p rj"] f(3) by (simp add: j(2))
  ultimately show "job_ok assetMrn rj (job_query b ?p rj)" unfolding q job_ok_def using f by (simp add: j(2))
qed

lemma policy_runs:
  assumes r: "buildResolvedPolicy k X mrn p props impacts filters now = Inr (Inr rp)"
    and names: "names_apart (ToMap props p) rp" "checks_apart rp" "jobs_fit assetMrn rp"
    and ids: "ids_ok (policy_builder v stats fe rp)" "sources_ok (policy_builder v stats fe rp)"
    and acyclic: "\<nexists>n. has_key (ge_nodes (build_graph parse older assetMrn (policy_builder v stats fe rp) :: 'v GraphExecutor)) n
        \<and> cyclic_from (edges_of (build_graph parse older assetMrn (policy_builder v stats fe rp) :: 'v GraphExecutor)) n"
    and E: "env_ok (E :: 'v env)"
  shows "\<exists>ge. Build parse older assetMrn (policy_builder v stats fe rp) = Some ge \<and>
    (\<forall>bs. batches_ok ge bs \<longrightarrow> (\<exists>n out. \<forall>m \<ge> n. Execute E ge m bs = Some (Inr out)))"
proof -
  let ?b = "policy_builder v stats fe rp"
  have ok: "input_ok assetMrn (build_pass parse older ?b :: 'v query_pass) ?b"
    using ids policy_notify_ok [OF r refl] policy_jobs_ok [OF r refl names] by (simp add: input_ok_def)
  from Build_total [OF acyclic] obtain ge where ge: "Build parse older assetMrn ?b = Some (ge :: 'v GraphExecutor)" by blast
  note built = Build_ok [OF ok ge]
  have "\<exists>n out. \<forall>m \<ge> n. Execute E ge m bs = Some (Inr out)" if "batches_ok ge bs" for bs
    by (rule execute_ok [OF E built(3,1,2) that])
  with ge show ?thesis by blast
qed

subsection \<open>The end of a run\<close>

lemma built_acyclic:
  assumes "Build parse older mrn b = Some (ge :: 'v GraphExecutor)"
  shows "\<nexists>n. has_key (ge_nodes (build_graph parse older mrn b :: 'v GraphExecutor)) n
     \<and> cyclic_from (edges_of (build_graph parse older mrn b :: 'v GraphExecutor)) n"
proof -
  let ?g = "build_graph parse older mrn b :: 'v GraphExecutor"
  have "prioritizeNodes (Suc (length (ge_edges ?g))) (edges_of ?g) [] (map fst (ge_nodes ?g)) \<noteq> None"
    using assms by (auto simp: Build_def Let_def split: option.splits)
  then show ?thesis unfolding prioritizeNodes_returns_iff by auto
qed

lemma fold_rescore:
  assumes "\<And>g x. ge_rescore (f g x) = ge_rescore g"
  shows "ge_rescore (foldl f g xs) = ge_rescore g"
  by (induction xs arbitrary: g) (simp_all add: assms)

lemma keeps_rescore [simp]:
  "ge_rescore (put_node n t d g) = ge_rescore g" "ge_rescore (addEdge u v g) = ge_rescore g"
  by (simp_all add: put_node_def addEdge_def)

lemma nodes_keep_rescore [simp]:
  "ge_rescore (addDatapointNode c et r g) = ge_rescore g"
  "ge_rescore (addExecutionQueryNode qid q ty g) = ge_rescore g"
  "ge_rescore (addReportingQueryNode qid q g) = ge_rescore g"
  "ge_rescore (addReportingJobNode ff mrn nid rj rq g) = ge_rescore g"
  "ge_rescore (addStaticReportingJobNode nid rj qrid sc g) = ge_rescore g"
proof -
  show dp: "ge_rescore (addDatapointNode c et r g) = ge_rescore g" for c et r and g :: "'a GraphExecutor"
    by (simp add: addDatapointNode_def)
  show "ge_rescore (addExecutionQueryNode qid q ty g) = ge_rescore g"
    by (simp add: addExecutionQueryNode_def Let_def fold_rescore dp case_prod_beta)
  show "ge_rescore (addReportingQueryNode qid q g) = ge_rescore g"
    by (simp add: addReportingQueryNode_def Let_def fold_rescore)
  show "ge_rescore (addReportingJobNode ff mrn nid rj rq g) = ge_rescore g"
    by (simp add: addReportingJobNode_def Let_def fold_rescore case_prod_beta)
  show "ge_rescore (addStaticReportingJobNode nid rj qrid sc g) = ge_rescore g"
    by (simp add: addStaticReportingJobNode_def Let_def fold_rescore)
qed

lemma built_rescore:
  assumes "Build parse older mrn b = Some (ge :: 'v GraphExecutor)"
  shows "ge_rescore ge \<longleftrightarrow> gb_rescoreScores b \<noteq> None"
proof -
  have query: "ge_rescore (qp_graph (add_query can ty p x)) = ge_rescore (qp_graph p)" for can ty x and p :: "'v query_pass"
    by (simp add: add_query_def Let_def case_prod_beta)
  have "ge_rescore (qp_graph (foldl (add_query can ty) p xs)) = ge_rescore (qp_graph p)" for can ty xs and p :: "'v query_pass"
    by (induction xs arbitrary: p) (simp_all add: query)
  then have pass: "ge_rescore (qp_graph (build_pass parse older b :: 'v query_pass)) \<longleftrightarrow> gb_rescoreScores b \<noteq> None"
    by (simp add: build_pass_def Let_def empty_graph_def)
  have job: "ge_rescore (add_job b mrn p g rj) = ge_rescore g" for p rj and g :: "'v GraphExecutor"
    by (simp add: add_job_def Let_def split: option.split)
  have unrunnable: "ge_rescore (handleUnrunnableQueries qs g) = ge_rescore g" for qs and g :: "'v GraphExecutor"
    unfolding handleUnrunnableQueries_def by (intro fold_rescore) simp
  have fin: "ge_rescore (createFinisherNode g) = ge_rescore g" for g :: "'v GraphExecutor"
    by (simp add: createFinisherNode_def Let_def fold_rescore)
  have "ge_rescore (build_graph parse older mrn b :: 'v GraphExecutor) \<longleftrightarrow> gb_rescoreScores b \<noteq> None"
    unfolding build_graph_def Let_def using pass by (simp add: fin unrunnable fold_rescore job)
  then show ?thesis using assms by (auto simp: Build_def Let_def split: option.splits)
qed

text \<open>Whether the graph is done or has failed is decided by the first message that says so.\<close>

definition first_end :: "'v batch list \<Rightarrow> 'v message option" where
  "first_end bs = List.find (\<lambda>msg. msg = DoneMsg \<or> msg = ErrMsg) (map fst bs)"

lemma loop_outcome:
  assumes "\<not> ge_rescore ge" and "execute_loop E ge n False st bs = Some (Inr out)"
  shows "out = (if first_end bs = None then Waiting (outcome_exec out)
    else if first_end bs = Some DoneMsg then Finished (outcome_exec out) else Failed (outcome_exec out))"
  using assms(2)
proof (induction bs arbitrary: st)
  case Nil
  then show ?case using assms(1)
    by (subst (asm) execute_loop.simps) (auto simp: first_end_def split: option.splits sum.splits)
next
  case (Cons x bs)
  obtain msg drained where x: "x = (msg, drained)" by fastforce
  from Cons.prems obtain s1 where p: "process_queue E ge n st = Some (Inr s1)"
    by (subst (asm) execute_loop.simps) (auto split: option.splits sum.splits)
  show ?case
  proof (cases "msg = ErrMsg")
    case True
    with Cons.prems p assms(1) show ?thesis
      by (subst (asm) execute_loop.simps) (auto simp: x first_end_def)
  next
    case False
    with Cons.prems p assms(1) obtain s2 where loop: "execute_loop E ge n (msg = DoneMsg) s2 bs = Some (Inr out)"
      by (subst (asm) execute_loop.simps) (auto simp: x split: sum.splits message.splits)
    show ?thesis
    proof (cases "msg = DoneMsg")
      case True
      with loop show ?thesis
        by (subst (asm) execute_loop.simps) (auto simp: x first_end_def split: option.splits sum.splits)
    next
      case no: False
      with loop False have "out = (if first_end bs = None then Waiting (outcome_exec out)
        else if first_end bs = Some DoneMsg then Finished (outcome_exec out) else Failed (outcome_exec out))"
        using Cons.IH [of s2] by simp
      moreover have "first_end (x # bs) = first_end bs" using no False by (simp add: first_end_def x)
      ultimately show ?thesis by (simp only:)
    qed
  qed
qed

lemma policy_run_ends:
  fixes S :: "'v sink_env"
  assumes r: "buildResolvedPolicy k X mrn p props impacts filters now = Inr (Inr rp)"
    and names: "names_apart (ToMap props p) rp" "checks_apart rp" "jobs_fit assetMrn rp"
    and ids: "ids_ok (policy_builder v stats fe rp)" "sources_ok (policy_builder v stats fe rp)"
    and E: "env_ok (se_env S)"
    and ge: "Build parse older assetMrn (policy_builder v stats fe rp) = Some (ge :: 'v GraphExecutor)"
    and bs: "batches_ok ge bs"
  shows "\<exists>n out. (\<forall>m \<ge> n. ExecuteResolvedPolicy S parse older v assetMrn isNil rp stats fe ticks m bs = Some (Inr out))
    \<and> (case first_end bs of None \<Rightarrow> out = Blocks | Some msg \<Rightarrow> \<exists>run. out = Returns run \<and> (pr_ok run \<longleftrightarrow> msg = DoneMsg))"
proof -
  obtain n exec where run: "\<forall>m \<ge> n. Execute (se_env S) ge m bs = Some (Inr exec)"
    using policy_runs [OF r names ids built_acyclic [OF ge] E] ge bs by auto
  obtain w where "WithResolvedPolicy isNil rp (new_collector (empty_policy [] [] []) :: 'v BufferedCollector) = Inr w"
    using wiring_returns [OF r] by blast
  then obtain c :: "'v BufferedCollector" where c: "policy_collector isNil rp = Inr c"
    by (simp add: policy_collector_def go_bind_def)
  let ?f = "\<lambda>ok effs. \<lparr>pr_ok = ok, pr_requests = collector_run S assetMrn c (interleave ticks (List.map_filter (sink_of ''buffered'') effs)),
     pr_counts = (if stats then Some (counting_recordTo (foldl (feed counter ''counter'') (newCountingCollector (Some rp)) effs)) else None)\<rparr>"
  have whole: "ExecuteResolvedPolicy S parse older v assetMrn isNil rp stats fe ticks m bs = run_graph (se_env S) m bs ?f (Some ge)" for m
    by (simp add: ExecuteResolvedPolicy_def c ge)
  have "\<not> ge_rescore ge" using built_rescore [OF ge] builder_fields(3) [OF refl] by simp
  moreover have "\<exists>st. execute_loop (se_env S) ge n False st bs = Some (Inr exec)"
    using spec [OF run, of n] by (auto simp: Execute_def split: sum.splits)
  ultimately have exec: "exec = (if first_end bs = None then Waiting (outcome_exec exec)
    else if first_end bs = Some DoneMsg then Finished (outcome_exec exec) else Failed (outcome_exec exec))"
    using loop_outcome by blast
  have end_msg: "first_end bs = Some msg \<Longrightarrow> msg = DoneMsg \<or> msg = ErrMsg" for msg
    by (auto simp: first_end_def find_Some_iff)
  show ?thesis
  proof (cases "first_end bs")
    case None
    with exec obtain st where "exec = Waiting st" by auto
    with run have "\<forall>m \<ge> n. ExecuteResolvedPolicy S parse older v assetMrn isNil rp stats fe ticks m bs = Some (Inr Blocks)"
      by (simp add: ExecuteResolvedPolicy_def c ge run_graph_def)
    then show ?thesis unfolding None by auto
  next
    case (Some msg)
    with exec end_msg have "exec = (if msg = DoneMsg then Finished (outcome_exec exec) else Failed (outcome_exec exec))" by auto
    then obtain st where "exec = (if msg = DoneMsg then Finished st else Failed st)" by blast
    with run have "\<forall>m \<ge> n. ExecuteResolvedPolicy S parse older v assetMrn isNil rp stats fe ticks m bs
        = Some (Inr (Returns (?f (msg = DoneMsg) (ex_effects st))))"
      unfolding whole by (simp add: run_graph_def)
    moreover have "pr_ok (?f (msg = DoneMsg) (ex_effects st)) \<longleftrightarrow> msg = DoneMsg" by simp
    ultimately show ?thesis unfolding Some option.case by blast
  qed
qed


subsection \<open>What a scan stores\<close>

text \<open>What reaches a collector.\<close>

definition scores_to :: "string \<Rightarrow> 'v effect list \<Rightarrow> Score list" where
  "scores_to name effs = concat (map (\<lambda>e. case e of effect.SinkScore n ss \<Rightarrow> if n = name then ss else [] | _ \<Rightarrow> []) effs)"

definition results_to :: "string \<Rightarrow> 'v effect list \<Rightarrow> 'v RawResult list" where
  "results_to name effs = concat (map (\<lambda>e. case e of effect.SinkData n rs \<Rightarrow> if n = name then rs else [] | _ \<Rightarrow> []) effs)"

lemma collected:
  "scores_of_events (List.map_filter (sink_of name) effs) = scores_to name effs"
  "data_of_events (List.map_filter (sink_of name) effs) = results_to name effs"
proof (induction effs)
  case (Cons e effs)
  case 1
  then show ?case using Cons(1) by (cases e) (auto simp: scores_of_events_def scores_to_def map_filter_simps)
  case 2
  then show ?case using Cons(2) by (cases e) (auto simp: data_of_events_def results_to_def map_filter_simps)
qed (simp_all add: scores_of_events_def data_of_events_def scores_to_def results_to_def map_filter_simps)

lemma interleaved: "scores_of_events (interleave ticks es) = scores_of_events es"
  "data_of_events (interleave ticks es) = data_of_events es"
  by (induction ticks es rule: interleave.induct) (simp_all add: scores_of_events_def data_of_events_def map_replicate_const)

lemma WithResolvedPolicy_fresh: "WithResolvedPolicy isNil rp c0 = Inr (Inr c) \<Longrightarrow> fresh_collector c0 \<Longrightarrow> fresh_collector c"
  by (auto simp: WithResolvedPolicy_def go_bind_Inr_iff fresh_collector_def map_sum_eq_Inr)

lemma policy_collector_fresh:
  assumes "policy_collector isNil rp = Inr c"
  shows "fresh_collector c"
proof -
  let ?c0 = "new_collector (empty_policy [] [] []) :: 'a BufferedCollector"
  have c0: "fresh_collector ?c0" by (simp add: fresh_collector_def new_collector_def)
  from assms obtain r where r: "WithResolvedPolicy isNil rp ?c0 = Inr r" and c: "c = (case r of Inl err \<Rightarrow> ?c0 | Inr c \<Rightarrow> c)"
    by (auto simp: policy_collector_def go_bind_Inr_iff)
  show ?thesis
  proof (cases r)
    case (Inr c')
    with r c WithResolvedPolicy_fresh [OF _ c0] show ?thesis by simp
  qed (use c c0 in simp)
qed

lemma run_graph_returns:
  assumes "run_graph E fuel bs f built = Some (Inr (Returns out))"
  obtains ge st ok where "built = Some ge" and "Execute E ge fuel bs = Some (Inr (if ok then Finished st else Failed st))"
    and "out = f ok (ex_effects st)"
proof -
  from assms obtain ge res where ge: "built = Some ge" and ex: "Execute E ge fuel bs = Some (Inr res)"
    and out: "(case res of Waiting st \<Rightarrow> Blocks | Finished st \<Rightarrow> Returns (f True (ex_effects st)) | Failed st \<Rightarrow> Returns (f False (ex_effects st))) = Returns out"
    by (auto simp: run_graph_def map_sum_eq_Inr split: option.splits)
  from ge ex out that [of ge True] that [of ge False] show thesis by (cases res) auto
qed


subsection \<open>Filters\<close>

lemma feed_filter: "foldl (feed filter_collector name) t effs = foldl (\<lambda>t s. tracker_record s t) t (scores_to name effs)"
proof (induction effs arbitrary: t)
  case (Cons e effs)
  have "feed filter_collector name t e = foldl (\<lambda>t s. tracker_record s t) t (scores_to name [e])"
    by (cases e) (simp_all add: feed_def filter_collector_def FuncCollector_SinkData_def FuncCollector_SinkScore_def scores_to_def)
  then have "foldl (feed filter_collector name) t (e # effs)
      = foldl (\<lambda>t s. tracker_record s t) (foldl (\<lambda>t s. tracker_record s t) t (scores_to name [e])) (scores_to name effs)"
    by (simp add: Cons.IH)
  then show ?case by (simp add: scores_to_def flip: foldl_append)
qed (simp add: scores_to_def)

text \<open>C14: a filter query matches the asset exactly if the last score that the graph emitted for its code has the value 100
  and is complete; provisional scores that were corrected have no part in it.\<close>

theorem filters_decided_by_last_score:
  assumes "ExecuteFilterQueries E parse older v compile queries fuel bs = Some (Inr (Returns (Some matching)))"
  shows "\<exists>ge st b queryMap. filter_builder compile v queries = (b, queryMap)
    \<and> Build parse older '''' (AddScoreCollector ''filters'' b) = Some ge \<and> Execute E ge fuel bs = Some (Inr (Finished st))
    \<and> (\<forall>q. q \<in> set matching \<longleftrightarrow> (\<exists>c s. (c, q) \<in> set queryMap
        \<and> latest sc_QrId c (scores_to ''filters'' (ex_effects st)) = Some s \<and> sc_ScoreCompletion s = 100 \<and> sc_Value s = 100))"
proof -
  obtain b queryMap where fb: "filter_builder compile v queries = (b, queryMap)" by fastforce
  let ?built = "Build parse older '''' (AddScoreCollector ''filters'' b)"
  from assms fb obtain ge st ok where ge: "?built = Some ge" and ex: "Execute E ge fuel bs = Some (Inr (if ok then Finished st else Failed st))"
    and m: "Some matching = (if ok then Some (passing_queries queryMap (foldl (feed filter_collector ''filters'') [] (ex_effects st))) else None)"
    unfolding ExecuteFilterQueries_def by (auto elim!: run_graph_returns)
  then have ok: "ok" by (cases ok) simp_all
  let ?ss = "scores_to ''filters'' (ex_effects st)"
  let ?t = "foldl (\<lambda>t s. map_put (sc_QrId s) s t) [] ?ss"
  have k: "keyed sc_QrId ?t" by (rule keyed_puts) simp
  have pass: "c \<in> set (tracker_passing ?t) \<longleftrightarrow> (\<exists>s. latest sc_QrId c ?ss = Some s \<and> sc_ScoreCompletion s = 100 \<and> sc_Value s = 100)" for c
  proof -
    have "c \<in> set (tracker_passing ?t) \<longleftrightarrow> (\<exists>s. (c, s) \<in> set ?t \<and> sc_ScoreCompletion s = 100 \<and> sc_Value s = 100)"
      by (force simp: tracker_passing_def)
    also have "\<dots> \<longleftrightarrow> (\<exists>s. map_get ?t c = Some s \<and> sc_ScoreCompletion s = 100 \<and> sc_Value s = 100)"
      using k by (simp add: keyed_def map_get_Some_iff)
    finally show ?thesis using get_puts [of sc_QrId "[]" ?ss c] by (simp split: option.splits)
  qed
  have "matching = passing_queries queryMap ?t" using m ok by (simp add: feed_filter tracker_record_def)
  then have "q \<in> set matching \<longleftrightarrow> (\<exists>c. (c, q) \<in> set queryMap \<and> c \<in> set (tracker_passing ?t))" for q
    by (force simp: passing_queries_def)
  with fb ge ex ok pass show ?thesis by (intro exI [of _ ge] exI [of _ st] exI [of _ b] exI [of _ queryMap]) simp
qed

subsection \<open>Counts\<close>

lemma erroredChecks_fold:
  "map_ok (cc_erroredChecks c) \<Longrightarrow>
    cc_pk (counting_SinkScore (map Some ss) c) = cc_pk c \<and> cc_erroredData (counting_SinkScore (map Some ss) c) = cc_erroredData c
    \<and> map_ok (cc_erroredChecks (counting_SinkScore (map Some ss) c))
    \<and> (has_key (cc_erroredChecks (counting_SinkScore (map Some ss) c)) q \<longleftrightarrow>
        (if IsCheckQrId (cc_pk c) q then (case latest sc_QrId q ss of None \<Rightarrow> has_key (cc_erroredChecks c) q
           | Some s \<Rightarrow> sc_Type s = ScoreType_Error) else has_key (cc_erroredChecks c) q))"
proof (induction ss rule: rev_induct)
  case (snoc s ss)
  then show ?case by (auto simp: counting_SinkScore_def map_ok_del split: option.splits)
qed (simp add: counting_SinkScore_def)

subsection \<open>Concrete runs\<close>

definition sample_graph_ok :: "ResolvedPolicy \<Rightarrow> bool" where
  "sample_graph_ok rp \<longleftrightarrow> (let b = policy_builder ''unstable'' True False rp in
     checks_apart rp \<and> list_all (\<lambda>(u, j). pj_QrId j \<noteq> '''' \<and> length (pj_ChildJobs j) < 9) (rp_jobs rp) \<and> ids_ok b \<and> sources_ok b
     \<and> map fst (xj_Queries (rpo_ExecutionJob rp)) = [''c'', ''dd'']
     \<and> (case (Build no_version (<) ''//asset'' b :: nat GraphExecutor option) of None \<Rightarrow> False
        | Some ge \<Rightarrow> shape_at (ge_nodes ge) ''dpc'' = Some S_Datapoint))"

lemma sample_graph:
  "case buildResolvedPolicy 5 sample_externals ''//p'' sample_bundle [] [] [] 0 of Inr (Inr rp) \<Rightarrow> sample_graph_ok rp | _ \<Rightarrow> False"
  by code_simp

definition sample_answers :: "nat batch list" where
  "sample_answers = [(ResultMsg (test_result ''dpc'' (Some 1) None), [])] @ [(DoneMsg, [])]"

lemma sample_runs:
  obtains rp and ge :: "nat GraphExecutor" where "buildResolvedPolicy 5 sample_externals ''//p'' sample_bundle [] [] [] 0 = Inr (Inr rp)"
    and "names_apart (ToMap [] sample_bundle) rp" and "checks_apart rp" and "jobs_fit ''//asset'' rp"
    and "ids_ok (policy_builder ''unstable'' True False rp)" and "sources_ok (policy_builder ''unstable'' True False rp)"
    and "Build no_version (<) ''//asset'' (policy_builder ''unstable'' True False rp) = Some ge" and "batches_ok ge sample_answers"
proof -
  obtain rp where r: "buildResolvedPolicy 5 sample_externals ''//p'' sample_bundle [] [] [] 0 = Inr (Inr rp)" by (rule sample_resolved)
  with sample_graph have ok: "sample_graph_ok rp" by simp
  let ?b = "policy_builder ''unstable'' True False rp"
  obtain ge :: "nat GraphExecutor" where ge: "Build no_version (<) ''//asset'' ?b = Some ge" "shape_at (ge_nodes ge) ''dpc'' = Some S_Datapoint"
    using ok by (auto simp: sample_graph_ok_def Let_def split: option.splits)
  have "names_apart (ToMap [] sample_bundle) rp"
  proof -
    have "query_keys rp = {''c'', ''dd''}" using ok by (simp add: sample_graph_ok_def Let_def query_keys_def flip: set_map)
    then show ?thesis by (auto simp: names_apart_def bundle_queries_def group_mrns_def bundle_policies_def bundle_risks_def ToMap_def
        put_all_def sample_bundle_def sample_policy_def sample_group_def sample_query_def sample_risk_def NewPolicyBundleMap_def)
  qed
  moreover have "checks_apart rp" "ids_ok ?b" "sources_ok ?b" using ok by (simp_all add: sample_graph_ok_def Let_def)
  moreover have "jobs_fit ''//asset'' rp"
    using ok by (auto simp: sample_graph_ok_def Let_def jobs_fit_def list_all_iff)
  moreover have "batches_ok ge sample_answers"
    using ge(2) by (simp add: batches_ok_def results_ok_def with_data_def test_result_def sample_answers_def)
  ultimately show thesis using that r ge(1) by blast
qed

lemma sample_env: "env_ok (se_env sample_sink)"
  using test_env_ok by (simp add: sample_sink_def)



definition sample_filters :: "FilterQuery list" where
  "sample_filters = [FilterQuery.truncate (sample_query ''//f'' ''c'')]"

definition sample_filter_code :: "string \<Rightarrow> string + CodeBundle" where
  "sample_filter_code mql = Inr (CodeBundle.truncate (sample_code mql))"

lemma sample_filter_graph: "(case filter_builder sample_filter_code ''unstable'' sample_filters of (b, qm) \<Rightarrow>
    let b = AddScoreCollector ''filters'' b in
    ids_ok b \<and> sources_ok b \<and> gb_reportingJobs b = [] \<and> (case (Build no_version (<) '''' b :: nat GraphExecutor option) of None \<Rightarrow> False
        | Some ge \<Rightarrow> shape_at (ge_nodes ge) ''dpc'' = Some S_Datapoint))"
  by code_simp

theorem filters_decided_by_last_score_witness:
  "\<exists>fuel matching b queryMap. ExecuteFilterQueries test_env no_version (<) ''unstable'' sample_filter_code sample_filters fuel sample_answers
      = Some (Inr (Returns matching)) \<and> filter_builder sample_filter_code ''unstable'' sample_filters = (b, queryMap)
    \<and> (\<forall>ms. matching = Some ms \<longrightarrow> (\<forall>q \<in> set ms. \<exists>c. (c, q) \<in> set queryMap))"
proof -
  obtain b queryMap where fb: "filter_builder sample_filter_code ''unstable'' sample_filters = (b, queryMap)" by fastforce
  let ?b = "AddScoreCollector ''filters'' b"
  from sample_filter_graph fb obtain ge :: "nat GraphExecutor" where ids: "ids_ok ?b" "sources_ok ?b" and jobs: "gb_reportingJobs ?b = []"
    and ge: "Build no_version (<) '''' ?b = Some ge" "shape_at (ge_nodes ge) ''dpc'' = Some S_Datapoint"
    by (auto simp: Let_def split: option.splits)
  have inp: "input_ok '''' (build_pass no_version (<) ?b :: nat query_pass) ?b"
    using ids jobs by (simp add: input_ok_def notify_ok_def jobs_ok_def)
  note built = Build_ok [OF inp ge(1)]
  have bs: "batches_ok ge sample_answers"
    using ge(2) by (simp add: batches_ok_def results_ok_def with_data_def test_result_def sample_answers_def)
  from execute_ok [OF test_env_ok built(3,1,2) bs] obtain n exec where run: "Execute test_env ge n sample_answers = Some (Inr exec)" by blast
  have "gb_rescoreScores ?b = None" using fb
    by (auto simp: filter_builder_def sample_filters_def add_filter_def sample_filter_code_def CollectScore_def AddQuery_def
        NewBuilder_def AddScoreCollector_def)
  with built_rescore [OF ge(1)] have "\<not> ge_rescore ge" by simp
  moreover have "\<exists>st. execute_loop test_env ge n False st sample_answers = Some (Inr exec)"
    using run by (auto simp: Execute_def split: sum.splits)
  moreover have "first_end sample_answers = Some DoneMsg" by (simp add: first_end_def sample_answers_def)
  ultimately have exec: "exec = Finished (outcome_exec exec)" using loop_outcome by fastforce
  have "\<exists>m. ExecuteFilterQueries test_env no_version (<) ''unstable'' sample_filter_code sample_filters n sample_answers = Some (Inr (Returns m))"
    using run by (subst (asm) exec) (simp add: ExecuteFilterQueries_def fb ge(1) run_graph_def)
  then obtain m where m: "ExecuteFilterQueries test_env no_version (<) ''unstable'' sample_filter_code sample_filters n sample_answers = Some (Inr (Returns m))"
    by blast
  have "\<exists>c. (c, q) \<in> set queryMap" if "m = Some ms" "q \<in> set ms" for ms q
    using filters_decided_by_last_score [OF m [unfolded that(1)]] fb that(2) by auto
  with m fb show ?thesis by blast
qed

end
