(* ===== verification/Bundle_Queries.thy ===== *)
theory Bundle_Queries
  imports Policy_Types
begin

text \<open>
  The bundles of policies (\<open>policy/bundle.go\<close>): combining and filtering them, and the order in which their queries are
  compiled. A query with variants comes after its variants, unless they form a cycle, which is an error. \<open>FilterQueryMRNs\<close>
  is in \<open>policy/explorer_mquery.go\<close>. A list of queries may hold nil; an MRN that is missing where the code needs it is a panic.
\<close>

subsection \<open>Combining and filtering bundles\<close>

definition bundle_Merge :: "Bundle \<Rightarrow> Bundle \<Rightarrow> Bundle" where
  "bundle_Merge a b = \<lparr>bu_OwnerMrn = (if bu_OwnerMrn b \<noteq> '''' then bu_OwnerMrn b else bu_OwnerMrn a),
     bu_Policies = bu_Policies a @ bu_Policies b, bu_Frameworks = bu_Frameworks a @ bu_Frameworks b,
     bu_Queries = bu_Queries a @ bu_Queries b, bu_Props = bu_Props a @ bu_Props b\<rparr>"

definition FilterPolicies :: "externals \<Rightarrow> string list \<Rightarrow> Bundle \<Rightarrow> Bundle" where
  "FilterPolicies X IDs p =
     (if IDs = [] then p
      else p\<lparr>bu_Policies := filter (\<lambda>cur.
        if po_Mrn cur \<noteq> '''' then po_Mrn cur \<in> set IDs \<or> (case ex_GetResource X (po_Mrn cur) ''policies'' of None \<Rightarrow> '''' | Some uid \<Rightarrow> uid) \<in> set IDs
        else po_Uid cur \<in> set IDs) (bu_Policies p)\<rparr>)"

definition Clean :: "Bundle \<Rightarrow> Bundle" where
  "Clean p = p\<lparr>bu_Policies := map (\<lambda>policy. case po_ComputedFilters policy of
     None \<Rightarrow> policy\<lparr>po_ComputedFilters := Some \<lparr>fi_Items = []\<rparr>\<rparr> | Some f \<Rightarrow> policy) (bu_Policies p)\<rparr>"

text \<open>One of the three loops of \<open>AddBundle\<close>: what is added has an MRN that is not there yet.\<close>

fun add_unique :: "('a \<Rightarrow> string) \<Rightarrow> string \<Rightarrow> 'a list \<Rightarrow> 'a list \<Rightarrow> string option \<times> 'a list" where
  "add_unique mrn what [] xs = (None, xs)"
| "add_unique mrn what (c # cs) xs =
     (if mrn c = '''' then (Some (''source policy bundle that is added has missing '' @ what @ '' MRNs''), xs)
      else if list_ex (\<lambda>x. mrn x = mrn c) xs then (Some (''cannot combine policy bundles, duplicate '' @ what @ '': '' @ mrn c), xs)
      else add_unique mrn what cs (xs @ [c]))"

definition AddBundle :: "Property list \<Rightarrow> Bundle \<Rightarrow> Bundle \<Rightarrow> string option \<times> Bundle" where
  "AddBundle props other p =
     (if bu_OwnerMrn p \<noteq> '''' \<and> bu_OwnerMrn p \<noteq> bu_OwnerMrn other
      then (Some ''when combining policy bundles the owner MRNs must be identical'', p)
      else let p = p\<lparr>bu_OwnerMrn := bu_OwnerMrn other\<rparr> in
       (case add_unique po_Mrn ''policy'' (bu_Policies other) (bu_Policies p) of
         (Some e, ps) \<Rightarrow> (Some e, p\<lparr>bu_Policies := ps\<rparr>)
       | (None, ps) \<Rightarrow> let p = p\<lparr>bu_Policies := ps\<rparr> in
         (case add_unique mq_Mrn ''query'' (bu_Queries other) (bu_Queries p) of
           (Some e, qs) \<Rightarrow> (Some e, p\<lparr>bu_Queries := qs\<rparr>)
         | (None, qs) \<Rightarrow> let p = p\<lparr>bu_Queries := qs\<rparr> in
           (case add_unique (\<lambda>r. pp_Mrn (props ! r)) ''property'' (bu_Props other) (bu_Props p) of
             (e, rs) \<Rightarrow> (e, p\<lparr>bu_Props := rs\<rparr>)))))"

subsection \<open>Removing queries\<close>

text \<open>The removed MRNs grow when a query loses its last variant.\<close>

fun filter_queries :: "(string, unit) gomap \<Rightarrow> Mquery list \<Rightarrow> Mquery list \<times> (string, unit) gomap" where
  "filter_queries filterMrns [] = ([], filterMrns)"
| "filter_queries filterMrns (cur # qs) =
     (if has_key filterMrns (mq_Mrn cur) then filter_queries filterMrns qs
      else if mq_Variants cur = [] then map_prod ((#) cur) (\<lambda>f. f) (filter_queries filterMrns qs)
      else let variants = filter (\<lambda>cvar. \<not> has_key filterMrns (or_Mrn cvar)) (mq_Variants cur) in
        if variants = [] then filter_queries (map_put (mq_Mrn cur) () filterMrns) qs
        else map_prod ((#) (cur\<lparr>mq_Variants := variants\<rparr>)) (\<lambda>f. f) (filter_queries filterMrns qs))"

definition FilterQueryMRNs :: "(string, unit) gomap \<Rightarrow> Mquery list \<Rightarrow> Mquery list \<times> (string, unit) gomap" where
  "FilterQueryMRNs filterMrns queries = (if filterMrns = [] then (queries, filterMrns) else filter_queries filterMrns queries)"

text \<open>Properties of a merged copy that the query does not have yet; properties are known by their MRN.\<close>

fun missing_props :: "Property list \<Rightarrow> (string, unit) gomap \<Rightarrow> property_ref list \<Rightarrow> property_ref list" where
  "missing_props S existing [] = []"
| "missing_props S existing (p # ps) =
     (if has_key existing (pp_Mrn (S ! p)) then missing_props S existing ps
      else p # missing_props S (map_put (pp_Mrn (S ! p)) () existing) ps)"

definition addMissingProps :: "Property list \<Rightarrow> Mquery \<Rightarrow> property_ref list \<Rightarrow> Mquery" where
  "addMissingProps S query props =
     (if props = [] then query
      else query\<lparr>mq_Props := mq_Props query @ missing_props S (foldl (\<lambda>m p. map_put (pp_Mrn (S ! p)) () m) [] (mq_Props query)) props\<rparr>)"

subsection \<open>Cycles of variants\<close>

definition index_queries :: "string \<Rightarrow> Mquery option list \<Rightarrow> (string, Mquery) gomap go" where
  "index_queries what queries = go_fold (\<lambda>m q. case q of None \<Rightarrow> Inr m
     | Some q \<Rightarrow> if mq_Mrn q = '''' then Inl (Bug (''expected query MRN to be set for '' @ what)) else Inr (map_put (mq_Mrn q) q m)) [] queries"

datatype nodeVisitStatus = NEW | ACTIVE | VISITED

type_synonym statusMap = "(string, nodeVisitStatus) gomap"

definition status_of :: "statusMap \<Rightarrow> string \<Rightarrow> nodeVisitStatus" where
  "status_of st mrn = (case map_get st mrn of None \<Rightarrow> NEW | Some s \<Rightarrow> s)"

fun detectVariantCyclesDFS :: "nat \<Rightarrow> string \<Rightarrow> statusMap \<Rightarrow> (string, Mquery) gomap \<Rightarrow> (string + statusMap) go"
and detect_variants :: "nat \<Rightarrow> ObjectRef list \<Rightarrow> statusMap \<Rightarrow> (string, Mquery) gomap \<Rightarrow> (string + statusMap) go" where
  "detectVariantCyclesDFS 0 mrn st queries = Inl StackOverflow"
| "detectVariantCyclesDFS (Suc k) mrn st queries = (case map_get queries mrn of
     None \<Rightarrow> Inr (Inr st)
   | Some q \<Rightarrow> (case status_of st mrn of
       VISITED \<Rightarrow> Inr (Inr st)
     | ACTIVE \<Rightarrow> Inr (Inl (''variant cycle detected in '' @ mrn))
     | NEW \<Rightarrow> go_bind (detect_variants k (mq_Variants q) (map_put (mq_Mrn q) ACTIVE st) queries) (\<lambda>r.
         Inr (map_sum (\<lambda>e. e) (map_put (mq_Mrn q) VISITED) r))))"
| "detect_variants k [] st queries = Inr (Inr st)"
| "detect_variants k (variant # vs) st queries =
     (if or_Mrn variant = '''' then Inl (Bug ''expected variant MRN to be set for variant cycle detection'')
      else case map_get queries (or_Mrn variant) of
        None \<Rightarrow> detect_variants k vs st queries
      | Some v \<Rightarrow> go_bind (detectVariantCyclesDFS k (mq_Mrn v) st queries) (\<lambda>r. case r of
          Inl e \<Rightarrow> Inr (Inl e) | Inr st \<Rightarrow> detect_variants k vs st queries))"

fun detect_all :: "nat \<Rightarrow> Mquery list \<Rightarrow> statusMap \<Rightarrow> (string, Mquery) gomap \<Rightarrow> string option go" where
  "detect_all k [] st queries = Inr None"
| "detect_all k (q # qs) st queries = go_bind (detectVariantCyclesDFS k (mq_Mrn q) st queries) (\<lambda>r. case r of
     Inl e \<Rightarrow> Inr (Some e) | Inr st \<Rightarrow> detect_all k qs st queries)"

definition detectVariantCycles :: "nat \<Rightarrow> (string, Mquery) gomap \<Rightarrow> string option go" where
  "detectVariantCycles k queries = detect_all k (map snd queries) [] queries"

definition ensureNoCyclesInVariants :: "nat \<Rightarrow> Mquery option list \<Rightarrow> string option go" where
  "ensureNoCyclesInVariants k queries = go_bind (index_queries ''variant cycle detection'' queries) (detectVariantCycles k)"

subsection \<open>The order of compilation\<close>

fun topologicalSortQueriesDFS ::
  "nat \<Rightarrow> string \<Rightarrow> (string, Mquery) gomap \<Rightarrow> (string, unit) gomap \<times> Mquery list \<Rightarrow> ((string, unit) gomap \<times> Mquery list) go"
and sort_variants ::
  "nat \<Rightarrow> ObjectRef list \<Rightarrow> (string, Mquery) gomap \<Rightarrow> (string, unit) gomap \<times> Mquery list \<Rightarrow> ((string, unit) gomap \<times> Mquery list) go" where
  "topologicalSortQueriesDFS 0 queryMrn queriesMap s = Inl StackOverflow"
| "topologicalSortQueriesDFS (Suc k) queryMrn queriesMap (visited, out) =
     (if has_key visited queryMrn then Inr (visited, out)
      else case map_get queriesMap queryMrn of
        None \<Rightarrow> Inr (map_put queryMrn () visited, out)
      | Some q \<Rightarrow> go_bind (sort_variants k (mq_Variants q) queriesMap (map_put queryMrn () visited, out)) (\<lambda>(visited, out).
          Inr (visited, out @ [q])))"
| "sort_variants k [] queriesMap s = Inr s"
| "sort_variants k (variant # vs) queriesMap s =
     (if or_Mrn variant = '''' then Inl (Bug ''expected variant MRN to be set for topological sort'')
      else go_bind (topologicalSortQueriesDFS k (or_Mrn variant) queriesMap s) (sort_variants k vs queriesMap))"

fun sort_queries ::
  "nat \<Rightarrow> Mquery option list \<Rightarrow> (string, Mquery) gomap \<Rightarrow> (string, unit) gomap \<times> Mquery list \<Rightarrow> ((string, unit) gomap \<times> Mquery list) go" where
  "sort_queries k [] queriesMap s = Inr s"
| "sort_queries k (None # qs) queriesMap s = sort_queries k qs queriesMap s"
| "sort_queries k (Some q # qs) queriesMap s =
     go_bind (topologicalSortQueriesDFS k (mq_Mrn q) queriesMap s) (sort_queries k qs queriesMap)"

definition topologicalSortQueries :: "nat \<Rightarrow> Mquery option list \<Rightarrow> Mquery list go" where
  "topologicalSortQueries k queries = go_bind (index_queries ''topological sort'' queries) (\<lambda>queriesMap.
     go_bind (sort_queries k queries queriesMap ([], [])) (\<lambda>(visited, out). Inr out))"

end
