(* ===== verification/Depth_First.thy ===== *)
theory Depth_First
  imports Query_Results
begin

text \<open>
  The depth-first searches of the policy package share one shape: a node that has been seen is skipped; a new one is marked,
  its successors are visited and then it is put behind them. \<open>dfs\<close> is that shape, over nodes named by strings; the
  components show that their searches are instances of it. The first argument is the depth the stack may grow to.
\<close>

type_synonym dfs_state = "(string, unit) gomap \<times> string list"

fun dfs :: "nat \<Rightarrow> (string \<Rightarrow> string list) \<Rightarrow> string \<Rightarrow> dfs_state \<Rightarrow> dfs_state go"
and dfs_all :: "nat \<Rightarrow> (string \<Rightarrow> string list) \<Rightarrow> string list \<Rightarrow> dfs_state \<Rightarrow> dfs_state go" where
  "dfs 0 S n s = Inl StackOverflow"
| "dfs (Suc k) S n (seen, out) =
     (if has_key seen n then Inr (seen, out)
      else go_bind (dfs_all k S (S n) (map_put n () seen, out)) (\<lambda>(seen, out). Inr (seen, out @ [n])))"
| "dfs_all k S [] s = Inr s"
| "dfs_all k S (n # ns) s = go_bind (dfs k S n s) (dfs_all k S ns)"

text \<open>Every node has its successors ahead of it, in the list or in what precedes it.\<close>

fun succs_first :: "(string \<Rightarrow> string list) \<Rightarrow> string set \<Rightarrow> string list \<Rightarrow> bool" where
  "succs_first S D [] \<longleftrightarrow> True"
| "succs_first S D (n # ns) \<longleftrightarrow> set (S n) \<subseteq> D \<and> succs_first S (insert n D) ns"

lemma succs_first_append: "succs_first S D (ms @ ns) \<longleftrightarrow> succs_first S D ms \<and> succs_first S (D \<union> set ms) ns"
  by (induction ms arbitrary: D) simp_all

definition dfs_closed :: "(string \<Rightarrow> string list) \<Rightarrow> string set \<Rightarrow> bool" where
  "dfs_closed S N \<longleftrightarrow> finite N \<and> (\<forall>n \<in> N. set (S n) \<subseteq> N)"

definition ranked_succs :: "(string \<Rightarrow> nat) \<Rightarrow> (string \<Rightarrow> string list) \<Rightarrow> string set \<Rightarrow> bool" where
  "ranked_succs f S N \<longleftrightarrow> (\<forall>n \<in> N. \<forall>m \<in> set (S n). f m < f n)"

text \<open>Marked nodes of a higher rank do not help a search.\<close>

lemma succs_first_drop:
  assumes "ranked_succs f S N" and "succs_first S (insert m D) ns" and "\<forall>n \<in> set ns. n \<in> N \<and> f n \<le> f m"
  shows "succs_first S D ns"
  using assms(2,3)
proof (induction ns arbitrary: D)
  case (Cons n ns)
  have "m \<notin> set (S n)" using assms(1) Cons.prems(2) by (fastforce simp: ranked_succs_def)
  with Cons.prems Cons.IH [of "insert n D"] show ?case by (auto simp: insert_commute)
qed simp

definition left :: "string set \<Rightarrow> (string, unit) gomap \<Rightarrow> nat" where
  "left N seen = card (N - fst ` set seen)"

lemma left_put: "finite N \<Longrightarrow> n \<in> N \<Longrightarrow> \<not> has_key seen n \<Longrightarrow> left N (map_put n () seen) < left N seen"
  unfolding left_def keys_put by (rule psubset_card_mono) auto

text \<open>What a search adds: nodes that were not seen, each of them once, closed under successors.\<close>

definition dfs_adds :: "(string \<Rightarrow> string list) \<Rightarrow> string set \<Rightarrow> string set \<Rightarrow> string list \<Rightarrow> string set \<Rightarrow> bool" where
  "dfs_adds S N D new D' \<longleftrightarrow> D' = D \<union> set new \<and> D \<inter> set new = {} \<and> distinct new
     \<and> set new \<subseteq> N \<and> (\<forall>n \<in> set new. set (S n) \<subseteq> D')"

lemma dfs_adds_trans: "dfs_adds S N D new D' \<Longrightarrow> dfs_adds S N D' new' D'' \<Longrightarrow> dfs_adds S N D (new @ new') D''"
  unfolding dfs_adds_def by auto

lemma dfs_adds_node:
  "dfs_adds S N (insert n D) new D' \<Longrightarrow> n \<in> N \<Longrightarrow> n \<notin> D \<Longrightarrow> set (S n) \<subseteq> D' \<Longrightarrow> dfs_adds S N D (new @ [n]) D'"
  unfolding dfs_adds_def by auto

lemma left_adds: "finite N \<Longrightarrow> dfs_adds S N (fst ` set seen) new (fst ` set seen') \<Longrightarrow> left N seen' \<le> left N seen"
  unfolding left_def dfs_adds_def by (intro card_mono) auto

definition dfs_node_ok :: "(string \<Rightarrow> string list) \<Rightarrow> string set \<Rightarrow> nat \<Rightarrow> bool" where
  "dfs_node_ok S N k \<longleftrightarrow> (\<forall>n seen out. n \<in> N \<longrightarrow> left N seen < k \<longrightarrow>
     (\<exists>new seen'. dfs k S n (seen, out) = Inr (seen', out @ new) \<and> dfs_adds S N (fst ` set seen) new (fst ` set seen') \<and> has_key seen' n
        \<and> (\<forall>f. ranked_succs f S N \<longrightarrow> (\<forall>m \<in> set new. f m \<le> f n) \<and> succs_first S (fst ` set seen) new)))"

definition dfs_list_ok :: "(string \<Rightarrow> string list) \<Rightarrow> string set \<Rightarrow> nat \<Rightarrow> string list \<Rightarrow> bool" where
  "dfs_list_ok S N k ns \<longleftrightarrow> (\<forall>seen out. set ns \<subseteq> N \<longrightarrow> left N seen < k \<longrightarrow>
     (\<exists>new seen'. dfs_all k S ns (seen, out) = Inr (seen', out @ new) \<and> dfs_adds S N (fst ` set seen) new (fst ` set seen') \<and> set ns \<subseteq> fst ` set seen'
        \<and> (\<forall>f. ranked_succs f S N \<longrightarrow> (\<forall>m \<in> set new. \<exists>n \<in> set ns. f m \<le> f n) \<and> succs_first S (fst ` set seen) new)))"

lemma dfs_list_step:
  assumes N: "finite N" and k: "dfs_node_ok S N k"
  shows "dfs_list_ok S N k ns"
proof (induction ns)
  case Nil
  show ?case by (simp add: dfs_list_ok_def dfs_adds_def)
next
  case (Cons n ns)
  show ?case unfolding dfs_list_ok_def
  proof (intro allI impI)
    fix seen out assume ns: "set (n # ns) \<subseteq> N" and l: "left N seen < k"
    from k [unfolded dfs_node_ok_def, rule_format, OF _ l, of n out] ns obtain new1 seen1 where
      1: "dfs k S n (seen, out) = Inr (seen1, out @ new1)" "dfs_adds S N (fst ` set seen) new1 (fst ` set seen1)" "has_key seen1 n"
        "\<And>f. ranked_succs f S N \<Longrightarrow> (\<forall>m \<in> set new1. f m \<le> f n) \<and> succs_first S (fst ` set seen) new1" by auto
    have "left N seen1 < k" using left_adds [OF N 1(2)] l by simp
    from Cons.IH [unfolded dfs_list_ok_def, rule_format, OF _ this, of "out @ new1"] ns obtain new2 seen2 where
      2: "dfs_all k S ns (seen1, out @ new1) = Inr (seen2, (out @ new1) @ new2)" "dfs_adds S N (fst ` set seen1) new2 (fst ` set seen2)" "set ns \<subseteq> fst ` set seen2"
        "\<And>f. ranked_succs f S N \<Longrightarrow> (\<forall>m \<in> set new2. \<exists>n \<in> set ns. f m \<le> f n) \<and> succs_first S (fst ` set seen1) new2" by auto
    have run: "dfs_all k S (n # ns) (seen, out) = Inr (seen2, out @ new1 @ new2)" using 1(1) 2(1) by simp
    have adds: "dfs_adds S N (fst ` set seen) (new1 @ new2) (fst ` set seen2)" by (rule dfs_adds_trans [OF 1(2) 2(2)])
    have keys: "fst ` set seen1 = fst ` set seen \<union> set new1" using 1(2) by (simp add: dfs_adds_def)
    have all: "set (n # ns) \<subseteq> fst ` set seen2" using 1(3) 2(2,3) by (auto simp: dfs_adds_def)
    have order: "(\<forall>m \<in> set (new1 @ new2). \<exists>x \<in> set (n # ns). f m \<le> f x) \<and> succs_first S (fst ` set seen) (new1 @ new2)"
      if f: "ranked_succs f S N" for f
      using 1(4) [OF f] 2(4) [OF f] unfolding keys by (auto simp: succs_first_append)
    show "\<exists>new seen'. dfs_all k S (n # ns) (seen, out) = Inr (seen', out @ new) \<and> dfs_adds S N (fst ` set seen) new (fst ` set seen') \<and> set (n # ns) \<subseteq> fst ` set seen'
        \<and> (\<forall>f. ranked_succs f S N \<longrightarrow> (\<forall>m \<in> set new. \<exists>x \<in> set (n # ns). f m \<le> f x) \<and> succs_first S (fst ` set seen) new)"
      by (rule exI [of _ "new1 @ new2"], rule exI [of _ seen2], rule conjI [OF run conjI [OF adds conjI [OF all allI [OF impI [OF order]]]]])
  qed
qed

lemma dfs_node_step:
  assumes N: "dfs_closed S N" and k: "\<And>ns. dfs_list_ok S N k ns"
  shows "dfs_node_ok S N (Suc k)"
  unfolding dfs_node_ok_def
proof (intro allI impI)
  fix n seen out assume n: "n \<in> N" and l: "left N seen < Suc k"
  show "\<exists>new seen'. dfs (Suc k) S n (seen, out) = Inr (seen', out @ new) \<and> dfs_adds S N (fst ` set seen) new (fst ` set seen') \<and> has_key seen' n
        \<and> (\<forall>f. ranked_succs f S N \<longrightarrow> (\<forall>m \<in> set new. f m \<le> f n) \<and> succs_first S (fst ` set seen) new)"
  proof (cases "has_key seen n")
    case True
    then show ?thesis by (intro exI [of _ "[]"] exI [of _ seen]) (simp add: dfs_adds_def)
  next
    case False
    let ?seen = "map_put n () seen"
    have fin: "finite N" and S: "set (S n) \<subseteq> N" using N n by (auto simp: dfs_closed_def)
    have "left N ?seen < k" using left_put [OF fin n False] l by simp
    from k [of "S n", unfolded dfs_list_ok_def, rule_format, OF S this, of out] obtain new seen' where
      r: "dfs_all k S (S n) (?seen, out) = Inr (seen', out @ new)" "dfs_adds S N (fst ` set ?seen) new (fst ` set seen')" "set (S n) \<subseteq> fst ` set seen'"
        "\<And>f. ranked_succs f S N \<Longrightarrow> (\<forall>m \<in> set new. \<exists>x \<in> set (S n). f m \<le> f x) \<and> succs_first S (fst ` set ?seen) new" by blast
    have run: "dfs (Suc k) S n (seen, out) = Inr (seen', out @ new @ [n])" using False r(1) by simp
    have keys: "fst ` set ?seen = insert n (fst ` set seen)" by (rule keys_put)
    have adds: "dfs_adds S N (fst ` set seen) (new @ [n]) (fst ` set seen')"
      using dfs_adds_node [OF r(2) [unfolded keys] n False r(3)] .
    have D': "fst ` set seen' = insert n (fst ` set seen) \<union> set new" using r(2) by (simp only: dfs_adds_def keys)
    have key: "has_key seen' n" using adds by (simp add: dfs_adds_def)
    have order: "(\<forall>m \<in> set (new @ [n]). f m \<le> f n) \<and> succs_first S (fst ` set seen) (new @ [n])" if f: "ranked_succs f S N" for f
    proof -
      have lt: "f m < f n" if "m \<in> set new" for m
      proof -
        from r(4) [OF f] that obtain x where "x \<in> set (S n)" "f m \<le> f x" by blast
        moreover have "f x < f n" using f n \<open>x \<in> set (S n)\<close> by (simp add: ranked_succs_def)
        ultimately show ?thesis by simp
      qed
      have "succs_first S (fst ` set seen) new"
        by (rule succs_first_drop [OF f, of n]) (use r(2,4) f lt in \<open>auto simp: keys dfs_adds_def less_imp_le\<close>)
      moreover have "x \<in> fst ` set seen \<union> set new" if "x \<in> set (S n)" for x
      proof -
        have "x \<noteq> n" using f n that by (auto simp: ranked_succs_def)
        moreover have "x \<in> insert n (fst ` set seen) \<union> set new" using subsetD [OF r(3) that] unfolding D' .
        ultimately show ?thesis by (simp only: insert_iff Un_iff) simp
      qed
      ultimately show ?thesis using lt by (auto simp: succs_first_append less_imp_le)
    qed
    show ?thesis
      by (rule exI [of _ "new @ [n]"], rule exI [of _ seen'], rule conjI [OF run conjI [OF adds conjI [OF key allI [OF impI [OF order]]]]])
  qed
qed

lemma dfs_nodes: "dfs_closed S N \<Longrightarrow> dfs_node_ok S N k"
proof (induction k)
  case (Suc k)
  have "finite N" using Suc.prems by (simp add: dfs_closed_def)
  with Suc dfs_node_step dfs_list_step show ?case by blast
qed (simp add: dfs_node_ok_def)

text \<open>The search from every node of a list, with a stack deeper than the number of nodes.\<close>

theorem dfs_from_list:
  assumes "dfs_closed S N" and "set ns \<subseteq> N" and "card N < k"
  obtains out seen where "dfs_all k S ns ([], []) = Inr (seen, out)" and "distinct out" and "set out \<subseteq> N" and "set ns \<subseteq> set out"
    and "\<And>n. n \<in> set out \<Longrightarrow> set (S n) \<subseteq> set out" and "\<And>f. ranked_succs f S N \<Longrightarrow> succs_first S {} out"
proof -
  have fin: "finite N" using assms(1) by (simp add: dfs_closed_def)
  have "left N [] < k" using assms(3) by (simp add: left_def)
  from dfs_list_step [OF fin dfs_nodes [OF assms(1)], of k ns, unfolded dfs_list_ok_def, rule_format, OF assms(2) this, of "[]"]
  obtain out seen where r: "dfs_all k S ns ([], []) = Inr (seen, out)" and a: "dfs_adds S N (fst ` set []) out (fst ` set seen)" and n: "set ns \<subseteq> fst ` set seen"
    and o: "\<And>f. ranked_succs f S N \<Longrightarrow> succs_first S {} out" by auto
  have "fst ` set seen = set out" using a by (simp add: dfs_adds_def)
  with that [OF r] a n o show thesis by (auto simp: dfs_adds_def)
qed

end
