(* ===== verification/Bundle_Map.thy ===== *)
theory Bundle_Map
  imports Resolver_Build
begin

text \<open>
  Bundle maps (\<open>policy/bundle_map.go\<close>): selecting policies, the list form, the order by dependencies, validation against a
  library and the maps of queries and controls.

  The check of MRNs and of semantic versions, the compilation of filters and the library are not in the repository, or reach
  a service: they are the fields of \<open>bundle_env\<close>. A library answers whether it has a query or a policy, or an error. What
  it has is entered in the map as a nil pointer, so the maps of queries and of policies may hold nil.
\<close>

subsection \<open>Selecting policies\<close>

fun strings_Join :: "string list \<Rightarrow> string \<Rightarrow> string" where
  "strings_Join [] sep = ''''"
| "strings_Join [x] sep = x"
| "strings_Join (x # y # xs) sep = x @ sep @ strings_Join (y # xs) sep"

definition SelectPolicies :: "string list \<Rightarrow> PolicyBundleMap \<Rightarrow> string + PolicyBundleMap" where
  "SelectPolicies names b =
     (if names = [] then Inr b
      else
        let missing = filter (\<lambda>name. \<not> has_key (bm_Policies b) name) names;
            filters = foldl (\<lambda>m name. if has_key (bm_Policies b) name then map_put name () m else m) [] names
        in if missing \<noteq> [] then Inl (''failed to find the following policies: '' @ strings_Join missing '', '')
           else Inr (b\<lparr>bm_Policies := filter (\<lambda>(name, p). has_key filters name) (bm_Policies b)\<rparr>))"

subsection \<open>The list form\<close>

text \<open>A bundle whose lists may hold nil pointers; the code that reads it dereferences them.\<close>

record BundleList =
  bl_OwnerMrn :: string
  bl_Policies :: "Policy option list"
  bl_Frameworks :: "Framework list"
  bl_Queries :: "Mquery option list"
  bl_Props :: "property_ref list"

definition sorted_values :: "(string, 'v) gomap \<Rightarrow> 'v list" where
  "sorted_values m = map (\<lambda>k. the (map_get m k)) (sorted_keys m)"

definition ToList :: "PolicyBundleMap \<Rightarrow> BundleList" where
  "ToList p = \<lparr>bl_OwnerMrn = bm_OwnerMrn p, bl_Policies = sorted_values (bm_Policies p),
     bl_Frameworks = sorted_values (bm_Frameworks p), bl_Queries = sorted_values (bm_Queries p),
     bl_Props = sorted_values (bm_Props p)\<rparr>"

fun go_derefs :: "'a option list \<Rightarrow> 'a list go" where
  "go_derefs [] = Inr []"
| "go_derefs (x # xs) = go_bind (go_deref x) (\<lambda>y. go_bind (go_derefs xs) (\<lambda>ys. Inr (y # ys)))"

definition read_bundle :: "BundleList \<Rightarrow> Bundle go" where
  "read_bundle b = go_bind (go_derefs (bl_Policies b)) (\<lambda>ps. go_bind (go_derefs (bl_Queries b)) (\<lambda>qs.
     Inr \<lparr>bu_OwnerMrn = bl_OwnerMrn b, bu_Policies = ps, bu_Frameworks = bl_Frameworks b, bu_Queries = qs, bu_Props = bl_Props b\<rparr>))"

subsection \<open>The order by dependencies\<close>

type_synonym sorted_policies = "Policy list \<times> (string, unit) gomap"

fun sortPolicies :: "nat \<Rightarrow> PolicyBundleMap \<Rightarrow> Policy option \<Rightarrow> (string, unit) gomap \<Rightarrow> (string + sorted_policies) go"
and sortDependencies :: "nat \<Rightarrow> PolicyBundleMap \<Rightarrow> PolicyRef list \<Rightarrow> (string, unit) gomap \<Rightarrow> (string + sorted_policies) go" where
  "sortPolicies 0 bundle p indexer = Inl StackOverflow"
| "sortPolicies (Suc k) bundle None indexer = Inl NilDereference"
| "sortPolicies (Suc k) bundle (Some p) indexer =
     go_bind (sortDependencies k bundle (concat (map pg_Policies (po_Groups p))) (map_put (po_Mrn p) () indexer)) (\<lambda>r.
       Inr (map_sum (\<lambda>e. e) (\<lambda>(res, indexer). (res @ [p], indexer)) r))"
| "sortDependencies k bundle [] indexer = Inr (Inr ([], indexer))"
| "sortDependencies k bundle (ref # refs) indexer =
     (if pf_Mrn ref = '''' then Inr (Inl ''failed to sort policies: dependency MRN is empty'')
      else if has_key indexer (pf_Mrn ref) then sortDependencies k bundle refs indexer
      else case map_get (bm_Policies bundle) (pf_Mrn ref) of
        None \<Rightarrow> sortDependencies k bundle refs indexer
      | Some dep \<Rightarrow> go_bind (sortPolicies k bundle dep indexer) (\<lambda>r. case r of
            Inl e \<Rightarrow> Inr (Inl e)
          | Inr (depRes, indexer) \<Rightarrow> go_bind (sortDependencies k bundle refs indexer) (\<lambda>r.
              Inr (map_sum (\<lambda>e. e) (\<lambda>(res, indexer). (depRes @ res, indexer)) r))))"

fun sort_all :: "nat \<Rightarrow> PolicyBundleMap \<Rightarrow> Policy option list \<Rightarrow> sorted_policies \<Rightarrow> (string + sorted_policies) go" where
  "sort_all k bundle [] s = Inr (Inr s)"
| "sort_all k bundle (p # ps) (res, indexer) =
     go_bind (go_deref p) (\<lambda>policy.
       if has_key indexer (po_Mrn policy) then sort_all k bundle ps (res, indexer)
       else go_bind (sortPolicies k bundle p indexer) (\<lambda>r. case r of
           Inl e \<Rightarrow> Inr (Inl e)
         | Inr (depRes, indexer) \<Rightarrow> sort_all k bundle ps (res @ depRes, indexer)))"

definition PoliciesSortedByDependency :: "nat \<Rightarrow> PolicyBundleMap \<Rightarrow> (string + Policy list) go" where
  "PoliciesSortedByDependency k p =
     go_bind (sort_all k p (map snd (bm_Policies p)) ([], [])) (\<lambda>r. Inr (map_sum (\<lambda>e. e) fst r))"

subsection \<open>Validation\<close>

type_synonym existence = "string \<Rightarrow> bool \<times> string option"

record bundle_env =
  be_IsValid :: "string \<Rightarrow> bool"
  be_IsSemver :: "string \<Rightarrow> bool"
  be_RefreshAsFilter :: "string \<Rightarrow> FilterQuery \<Rightarrow> string + FilterQuery"
  be_Library :: "(existence \<times> existence) option"

definition queryExists :: "bundle_env \<Rightarrow> string \<Rightarrow> PolicyBundleMap \<Rightarrow> (string + bool) \<times> PolicyBundleMap" where
  "queryExists B mrn p =
     (if has_key (bm_Queries p) mrn then (Inr True, p)
      else case be_Library B of
        Some (QueryExists, PolicyExists) \<Rightarrow>
          let (x, err) = QueryExists mrn in
          ((case err of None \<Rightarrow> Inr x | Some e \<Rightarrow> Inl e), if x then p\<lparr>bm_Queries := map_put mrn None (bm_Queries p)\<rparr> else p)
      | None \<Rightarrow> (Inr False, p))"

definition policyExists :: "bundle_env \<Rightarrow> string \<Rightarrow> PolicyBundleMap \<Rightarrow> (string + bool) \<times> PolicyBundleMap" where
  "policyExists B mrn p =
     (if has_key (bm_Policies p) mrn then (Inr True, p)
      else case be_Library B of
        Some (QueryExists, PolicyExists) \<Rightarrow>
          let (x, err) = PolicyExists mrn in
          ((case err of None \<Rightarrow> Inr x | Some e \<Rightarrow> Inl e), if x then p\<lparr>bm_Policies := map_put mrn None (bm_Policies p)\<rparr> else p)
      | None \<Rightarrow> (Inr False, p))"

text \<open>A check that the map goes through with an early return: the error, if any, and the map.\<close>

fun check_all :: "('a \<Rightarrow> PolicyBundleMap \<Rightarrow> string option \<times> PolicyBundleMap) \<Rightarrow> 'a list \<Rightarrow> PolicyBundleMap \<Rightarrow> string option \<times> PolicyBundleMap" where
  "check_all f [] p = (None, p)"
| "check_all f (x # xs) p = (case f x p of (Some e, p) \<Rightarrow> (Some e, p) | (None, p) \<Rightarrow> check_all f xs p)"

definition validate_query :: "bundle_env \<Rightarrow> string \<Rightarrow> Mquery \<Rightarrow> PolicyBundleMap \<Rightarrow> string option \<times> PolicyBundleMap" where
  "validate_query B kind q p = (case queryExists B (mq_Mrn q) p of
     (Inl e, p) \<Rightarrow> (Some e, p)
   | (Inr exist, p) \<Rightarrow> (if mq_Action q = Action_MODIFY \<and> \<not> exist
        then Some (kind @ '' does not exist, but policy is trying to modify it: '' @ mq_Mrn q) else None, p))"

definition validate_ref :: "bundle_env \<Rightarrow> PolicyRef \<Rightarrow> PolicyBundleMap \<Rightarrow> string option \<times> PolicyBundleMap" where
  "validate_ref B r p = (case policyExists B (pf_Mrn r) p of
     (Inl e, p) \<Rightarrow> (Some e, p)
   | (Inr exist, p) \<Rightarrow> (if \<not> exist
        then Some (''policy does not exist, but policy is trying to modify it: '' @ pf_Mrn r) else None, p))"

text \<open>The filters of a group are compiled in place; a filter that fails stops the loop with those before it refreshed.\<close>

fun refresh_items ::
  "(FilterQuery \<Rightarrow> string + FilterQuery) \<Rightarrow> (string, FilterQuery) gomap \<Rightarrow> string option \<times> (string, FilterQuery) gomap" where
  "refresh_items f [] = (None, [])"
| "refresh_items f ((k, q) # qs) = (case f q of
     Inl e \<Rightarrow> (Some e, (k, q) # qs)
   | Inr q \<Rightarrow> map_prod (\<lambda>e. e) (\<lambda>qs. (k, q) # qs) (refresh_items f qs))"

definition refresh_group :: "bundle_env \<Rightarrow> string \<Rightarrow> PolicyGroup \<Rightarrow> string option \<times> PolicyGroup" where
  "refresh_group B policyMrn grp = (case pg_Filters grp of
     None \<Rightarrow> (None, grp)
   | Some f \<Rightarrow> (let (e, items) = refresh_items (be_RefreshAsFilter B policyMrn) (fi_Items f)
       in (e, grp\<lparr>pg_Filters := Some (f\<lparr>fi_Items := items\<rparr>)\<rparr>)))"

definition validateGroup ::
  "bundle_env \<Rightarrow> PolicyGroup option \<Rightarrow> string \<Rightarrow> PolicyBundleMap \<Rightarrow> string option \<times> PolicyGroup option \<times> PolicyBundleMap" where
  "validateGroup B grp policyMrn p = (case grp of
     None \<Rightarrow> (Some ''spec cannot be nil'', None, p)
   | Some grp \<Rightarrow> (case refresh_group B policyMrn grp of
       (Some e, grp) \<Rightarrow> (Some e, Some grp, p)
     | (None, grp) \<Rightarrow> (case check_all (validate_query B ''check'') (pg_Checks grp) p of
         (Some e, p) \<Rightarrow> (Some e, Some grp, p)
       | (None, p) \<Rightarrow> (case check_all (validate_query B ''query'') (pg_Queries grp) p of
           (Some e, p) \<Rightarrow> (Some e, Some grp, p)
         | (None, p) \<Rightarrow> (let (e, p) = check_all (validate_ref B) (pg_Policies grp) p in (e, Some grp, p))))))"

fun validate_groups ::
  "bundle_env \<Rightarrow> PolicyGroup list \<Rightarrow> string \<Rightarrow> PolicyBundleMap \<Rightarrow> string option \<times> PolicyGroup list \<times> PolicyBundleMap" where
  "validate_groups B [] policyMrn p = (None, [], p)"
| "validate_groups B (g # gs) policyMrn p = (case validateGroup B (Some g) policyMrn p of
     (Some e, g', p) \<Rightarrow> (Some e, (case g' of None \<Rightarrow> g | Some g' \<Rightarrow> g') # gs, p)
   | (None, g', p) \<Rightarrow> (let (e, gs, p) = validate_groups B gs policyMrn p in (e, (case g' of None \<Rightarrow> g | Some g' \<Rightarrow> g') # gs, p)))"

definition ValidatePolicy :: "bundle_env \<Rightarrow> Policy \<Rightarrow> PolicyBundleMap \<Rightarrow> string option \<times> Policy \<times> PolicyBundleMap" where
  "ValidatePolicy B policy p =
     (if \<not> be_IsValid B (po_Mrn policy) then (Some (''policy MRN is not valid: '' @ po_Mrn policy), policy, p)
      else case validate_groups B (po_Groups policy) (po_Mrn policy) p of
        (Some e, gs, p) \<Rightarrow> (Some e, policy\<lparr>po_Groups := gs\<rparr>, p)
      | (None, gs, p) \<Rightarrow>
          (if po_Version policy \<noteq> '''' \<and> \<not> be_IsSemver B (po_Version policy)
           then Some (''policy '' @ [CHR 0x27] @ po_Mrn policy @ [CHR 0x27] @ '' version '' @ [CHR 0x27] @ po_Version policy
             @ [CHR 0x27] @ '' is not a valid semver version'') else None, policy\<lparr>po_Groups := gs\<rparr>, p))"

subsection \<open>Maps of queries and controls\<close>

definition QueryMap :: "PolicyBundleMap \<Rightarrow> (string, Mquery) gomap go" where
  "QueryMap bundle = go_fold (\<lambda>res (_, v). go_bind (go_deref v) (\<lambda>v.
     Inr (map_put (if mq_CodeId v \<noteq> '''' then mq_CodeId v else mq_Mrn v) v res))) [] (bm_Queries bundle)"

definition ControlsMap :: "PolicyBundleMap \<Rightarrow> (string, Control) gomap" where
  "ControlsMap bundle = foldl (\<lambda>res (_, framework). foldl (\<lambda>res grp.
     foldl (\<lambda>res ctl. map_put (ct_Mrn ctl) ctl res) res (fg_Controls grp)) res (fw_Groups framework)) [] (bm_Frameworks bundle)"

definition bundle_Add :: "Policy \<Rightarrow> (string, Mquery option) gomap \<Rightarrow> PolicyBundleMap \<Rightarrow> PolicyBundleMap" where
  "bundle_Add policy queries bundle =
     (let pid = (if po_Mrn policy \<noteq> '''' then po_Mrn policy else po_Uid policy)
      in bundle\<lparr>bm_Policies := map_put pid (Some policy) (bm_Policies bundle),
               bm_Queries := foldl (\<lambda>m (k, v). map_put k v m) (bm_Queries bundle) queries\<rparr>)"

end
