(* ===== verification/Bundle_Map_Results.thy ===== *)
theory Bundle_Map_Results
  imports Bundle_Map Policy_Execution_Results
begin

text \<open>
  What a bundle map promises: its list form rebuilds it; its policies can be listed with every dependency ahead of the
  policies that use it; and a check against a library leaves nil entries behind.
\<close>

subsection \<open>Lists and maps\<close>

text \<open>A map in the order of its keys, which is the order of its list form.\<close>

definition in_order :: "(string, 'v) gomap \<Rightarrow> (string, 'v) gomap" where
  "in_order m = map (\<lambda>k. (k, the (map_get m k))) (sorted_keys m)"

lemma in_order_values: "map snd (in_order m) = sorted_values m" "map fst (in_order m) = sorted_keys m"
  by (simp_all add: in_order_def sorted_values_def comp_def)

lemma in_order_get [simp]: "map_get (in_order m) k = map_get m k"
proof -
  have "map_get (in_order m) k = (if k \<in> set (sorted_keys m) then Some (the (map_get m k)) else None)"
    by (simp add: in_order_def map_of_map_restrict restrict_map_def)
  then show ?thesis using map_get_None_iff [of m k] by (cases "map_get m k") (auto simp: sorted_keys_def dest: has_key_get)
qed

lemma in_order_keyed:
  assumes "keyed f m"
  shows "keyed f (in_order m)"
proof -
  have "map_ok (in_order m)" using assms by (simp add: map_ok_def keyed_def in_order_values sorted_keys_def)
  moreover have "f x = k" if "(k, x) \<in> set (in_order m)" for k x
  proof -
    have "map_get m k = Some x" using that \<open>map_ok (in_order m)\<close> by (simp flip: map_get_Some_iff)
    then show ?thesis using assms by (auto simp: keyed_def map_get_Some_iff)
  qed
  ultimately show ?thesis by (auto simp: keyed_def)
qed

lemma put_all_get: "map_get (put_all f v xs m) k = (case latest f k xs of None \<Rightarrow> map_get m k | Some x \<Rightarrow> Some (v x))"
  unfolding put_all_def by (induction xs rule: rev_induct) (auto split: option.splits)

lemma put_all_values:
  assumes "keyed f m"
  shows "map_get (put_all f v (sorted_values m) []) k = map_option v (map_get m k)"
  using latest_keyed [OF in_order_keyed [OF assms], of k] by (simp add: put_all_get in_order_values split: option.splits)

lemma keyed_put_all: "keyed f (put_all f (\<lambda>x. x) xs [])"
  unfolding put_all_def by (rule keyed_puts) simp

text \<open>A map without nil pointers is a map of values.\<close>

definition some_values :: "('k, 'v) gomap \<Rightarrow> ('k, 'v option) gomap" where
  "some_values m = map (map_prod (\<lambda>k. k) Some) m"

lemma some_values_get [simp]: "map_get (some_values m) k = map_option Some (map_get m k)"
  by (induction m) (auto simp: some_values_def)

lemma some_values_update: "some_values (map_put k v m) = map_put k (Some v) (some_values m)"
  by (induction m) (auto simp: some_values_def)

lemma some_values_put_all: "put_all f Some xs [] = some_values (put_all f (\<lambda>x. x) xs [])"
  unfolding put_all_def by (induction xs rule: rev_induct) (simp_all add: some_values_update, simp add: some_values_def)

lemma sorted_values_some: "sorted_values (some_values m) = map Some (sorted_values m)"
proof -
  have "map fst (some_values m) = map fst m" by (simp add: some_values_def)
  then have keys: "sorted_keys (some_values m) = sorted_keys m" by (simp add: sorted_keys_def)
  have "the (map_option Some (map_get m k)) = Some (the (map_get m k))" if "k \<in> set (sorted_keys m)" for k
    using that by (cases "map_get m k") (auto simp: sorted_keys_def map_get_None_iff)
  then show ?thesis by (simp add: sorted_values_def keys)
qed

lemma go_derefs_Some [simp]: "go_derefs (map Some xs) = Inr xs"
  by (induction xs) simp_all

subsection \<open>The round trip\<close>

text \<open>A bundle that becomes a map, then a list and then a map again.\<close>

lemma put_all_again:
  "map_get (put_all f v (sorted_values (put_all f (\<lambda>x. x) xs [])) []) k = map_option v (map_get (put_all f (\<lambda>x. x) xs []) k)"
  by (rule put_all_values) (rule keyed_put_all)

lemma same_list:
  assumes "\<And>k. map_get m' k = map_get m k" and "map_ok m" and "map_ok m'"
  shows "sorted_values m' = sorted_values m"
proof -
  have "fst ` set m' = fst ` set m" using assms(1) by (metis map_get_None_iff subsetI subset_antisym)
  then have "mset (map fst m') = mset (map fst m)"
    using assms(2,3) by (metis map_ok_def set_map set_eq_iff_mset_eq_distinct)
  then have "sorted_keys m' = sorted_keys m" by (metis sorted_keys_def properties_for_sort mset_sort sorted_sort)
  with assms(1) show ?thesis by (simp add: sorted_values_def)
qed

definition listed :: "Property list \<Rightarrow> Bundle \<Rightarrow> Bundle" where
  "listed props b = \<lparr>bu_OwnerMrn = bu_OwnerMrn b, bu_Policies = sorted_values (put_all po_Mrn (\<lambda>p. p) (bu_Policies b) []),
     bu_Frameworks = sorted_values (put_all fw_Mrn (\<lambda>f. f) (bu_Frameworks b) []),
     bu_Queries = sorted_values (put_all mq_Mrn (\<lambda>q. q) (bu_Queries b) []),
     bu_Props = sorted_values (put_all (\<lambda>r. pp_Mrn (props ! r)) (\<lambda>r. r) (bu_Props b) [])\<rparr>"

lemma read_ToList: "read_bundle (ToList (ToMap props b)) = Inr (listed props b)"
  by (simp add: read_bundle_def ToList_def ToMap_def NewPolicyBundleMap_def listed_def some_values_put_all sorted_values_some go_bind_def)


subsection \<open>The order by dependencies\<close>

definition policy_refs :: "Policy \<Rightarrow> PolicyRef list" where
  "policy_refs p = concat (map pg_Policies (po_Groups p))"

text \<open>The dependencies of every policy that the map has are ahead of it.\<close>

fun deps_first :: "PolicyBundleMap \<Rightarrow> string list \<Rightarrow> Policy list \<Rightarrow> bool" where
  "deps_first M D [] \<longleftrightarrow> True"
| "deps_first M D (p # ps) \<longleftrightarrow>
     list_all (\<lambda>r. has_key (bm_Policies M) (pf_Mrn r) \<longrightarrow> pf_Mrn r \<in> set D) (policy_refs p) \<and> deps_first M (po_Mrn p # D) ps"

lemma deps_first_cong: "set D = set D' \<Longrightarrow> deps_first M D ps = deps_first M D' ps"
proof (induction ps arbitrary: D D')
  case (Cons p ps)
  from Cons.IH [of "po_Mrn p # D" "po_Mrn p # D'"] Cons.prems show ?case by simp
qed simp

lemma deps_first_append: "deps_first M D (ps @ qs) \<longleftrightarrow> deps_first M D ps \<and> deps_first M (map po_Mrn ps @ D) qs"
proof (induction ps arbitrary: D)
  case (Cons p ps)
  have "deps_first M (map po_Mrn ps @ po_Mrn p # D) qs = deps_first M (po_Mrn p # map po_Mrn ps @ D) qs"
    by (rule deps_first_cong) auto
  with Cons show ?case by simp
qed simp

text \<open>A map whose policies are there, under their MRN, and name what they depend on.\<close>

definition proper_policies :: "PolicyBundleMap \<Rightarrow> bool" where
  "proper_policies M \<longleftrightarrow> map_ok (bm_Policies M) \<and> list_all (\<lambda>(mrn, p). case p of None \<Rightarrow> False
     | Some p \<Rightarrow> po_Mrn p = mrn \<and> list_all (\<lambda>r. pf_Mrn r \<noteq> '''') (policy_refs p)) (bm_Policies M)"

lemma proper_policiesD:
  assumes "proper_policies M" and "map_get (bm_Policies M) mrn = Some o'"
  shows "\<exists>p. o' = Some p \<and> po_Mrn p = mrn \<and> (\<forall>r \<in> set (policy_refs p). pf_Mrn r \<noteq> '''')"
  using assms by (force simp: proper_policies_def list_all_iff map_get_Some_iff split: option.splits)

definition policy_in :: "PolicyBundleMap \<Rightarrow> Policy \<Rightarrow> bool" where
  "policy_in M p \<longleftrightarrow> map_get (bm_Policies M) (po_Mrn p) = Some (Some p)"

text \<open>No policy depends on itself, directly or through others: dependencies go down a rank.\<close>

definition ranked_policies :: "(string \<Rightarrow> nat) \<Rightarrow> PolicyBundleMap \<Rightarrow> bool" where
  "ranked_policies f M \<longleftrightarrow> list_all (\<lambda>(mrn, p). case p of None \<Rightarrow> True
     | Some p \<Rightarrow> list_all (\<lambda>r. has_key (bm_Policies M) (pf_Mrn r) \<longrightarrow> f (pf_Mrn r) < f mrn) (policy_refs p)) (bm_Policies M)"

lemma ranked_policiesD:
  assumes "ranked_policies f M" and "policy_in M p" and "r \<in> set (policy_refs p)" and "has_key (bm_Policies M) (pf_Mrn r)"
  shows "f (pf_Mrn r) < f (po_Mrn p)"
proof -
  have "(po_Mrn p, Some p) \<in> set (bm_Policies M)" using assms(2) by (simp add: policy_in_def map_of_SomeD)
  from bspec [OF assms(1) [unfolded ranked_policies_def list_all_iff] this] assms(3,4) show ?thesis by (simp add: list_all_iff)
qed

text \<open>A visited policy is not an obstacle to those of a lower rank.\<close>

lemma deps_first_drop:
  assumes "ranked_policies f M" and "deps_first M (D @ m # D') ps" and "\<forall>q \<in> set ps. policy_in M q \<and> f (po_Mrn q) \<le> f m"
  shows "deps_first M (D @ D') ps"
  using assms(2,3)
proof (induction ps arbitrary: D)
  case (Cons q ps)
  have "pf_Mrn r \<noteq> m" if "r \<in> set (policy_refs q)" "has_key (bm_Policies M) (pf_Mrn r)" for r
    using ranked_policiesD [OF assms(1) _ that] Cons.prems(2) by auto
  with Cons.prems(1) have "list_all (\<lambda>r. has_key (bm_Policies M) (pf_Mrn r) \<longrightarrow> pf_Mrn r \<in> set (D @ D')) (policy_refs q)"
    by (auto simp: list_all_iff)
  moreover have "deps_first M (po_Mrn q # D @ D') ps" using Cons.IH [of "po_Mrn q # D"] Cons.prems by simp
  ultimately show ?case by simp
qed simp

text \<open>What a visit does, from the policies seen so far.\<close>

definition unseen :: "PolicyBundleMap \<Rightarrow> (string, unit) gomap \<Rightarrow> nat" where
  "unseen M idx = card (fst ` set (bm_Policies M) - fst ` set idx)"

definition visited :: "PolicyBundleMap \<Rightarrow> (string, unit) gomap \<Rightarrow> Policy list \<Rightarrow> (string, unit) gomap \<Rightarrow> bool" where
  "visited M idx res idx' \<longleftrightarrow> fst ` set idx' = fst ` set idx \<union> po_Mrn ` set res \<and> fst ` set idx \<inter> po_Mrn ` set res = {}
     \<and> distinct (map po_Mrn res) \<and> (\<forall>p \<in> set res. policy_in M p)"

lemma visited_trans:
  "visited M idx res idx' \<Longrightarrow> visited M idx' res' idx'' \<Longrightarrow> visited M idx (res @ res') idx''"
  by (auto simp: visited_def)

lemma unseen_le: "fst ` set idx \<subseteq> fst ` set idx' \<Longrightarrow> unseen M idx' \<le> unseen M idx"
  unfolding unseen_def by (rule card_mono) auto

lemma visited_unseen: "visited M idx res idx' \<Longrightarrow> unseen M idx' \<le> unseen M idx"
  by (rule unseen_le) (auto simp: visited_def)

lemma unseen_put: "has_key (bm_Policies M) m \<Longrightarrow> \<not> has_key idx m \<Longrightarrow> unseen M (map_put m () idx) < unseen M idx"
  unfolding unseen_def keys_put by (rule psubset_card_mono) auto

definition sorts_ok :: "PolicyBundleMap \<Rightarrow> nat \<Rightarrow> bool" where
  "sorts_ok M k \<longleftrightarrow> (\<forall>p idx. policy_in M p \<longrightarrow> \<not> has_key idx (po_Mrn p) \<longrightarrow> unseen M idx \<le> k \<longrightarrow>
     (\<exists>res idx'. sortPolicies k M (Some p) idx = Inr (Inr (res @ [p], idx')) \<and> visited M idx (res @ [p]) idx'
        \<and> (\<forall>f. ranked_policies f M \<longrightarrow> (\<forall>q \<in> set res. f (po_Mrn q) < f (po_Mrn p)) \<and> deps_first M (map fst idx) (res @ [p]))))"

definition refs_below :: "PolicyBundleMap \<Rightarrow> (string \<Rightarrow> nat) \<Rightarrow> PolicyRef list \<Rightarrow> nat \<Rightarrow> bool" where
  "refs_below M f refs b \<longleftrightarrow> (\<forall>r \<in> set refs. has_key (bm_Policies M) (pf_Mrn r) \<longrightarrow> f (pf_Mrn r) < b)"

definition deps_ok :: "PolicyBundleMap \<Rightarrow> nat \<Rightarrow> PolicyRef list \<Rightarrow> bool" where
  "deps_ok M k refs \<longleftrightarrow> (\<forall>idx. (\<forall>r \<in> set refs. pf_Mrn r \<noteq> '''') \<longrightarrow> unseen M idx \<le> k \<longrightarrow>
     (\<exists>res idx'. sortDependencies k M refs idx = Inr (Inr (res, idx')) \<and> visited M idx res idx'
        \<and> (\<forall>r \<in> set refs. has_key (bm_Policies M) (pf_Mrn r) \<longrightarrow> has_key idx' (pf_Mrn r))
        \<and> (\<forall>f b. ranked_policies f M \<longrightarrow> refs_below M f refs b
              \<longrightarrow> (\<forall>q \<in> set res. f (po_Mrn q) < b) \<and> deps_first M (map fst idx) res)))"

lemma visited_keys: "visited M idx res idx' \<Longrightarrow> set (map fst idx') = set (map po_Mrn res @ map fst idx)"
  by (auto simp: visited_def)

lemma deps_step:
  assumes M: "proper_policies M" and S: "sorts_ok M k"
  shows "deps_ok M k refs"
proof (induction refs)
  case Nil
  have "visited M idx [] idx" for idx by (simp add: visited_def)
  then show ?case by (simp add: deps_ok_def)
next
  case (Cons r refs)
  show ?case unfolding deps_ok_def
  proof (intro allI impI)
    fix idx assume named: "\<forall>r \<in> set (r # refs). pf_Mrn r \<noteq> ''''" and k: "unseen M idx \<le> k"
    show "\<exists>res idx'. sortDependencies k M (r # refs) idx = Inr (Inr (res, idx')) \<and> visited M idx res idx'
        \<and> (\<forall>r \<in> set (r # refs). has_key (bm_Policies M) (pf_Mrn r) \<longrightarrow> has_key idx' (pf_Mrn r))
        \<and> (\<forall>f b. ranked_policies f M \<longrightarrow> refs_below M f (r # refs) b
              \<longrightarrow> (\<forall>q \<in> set res. f (po_Mrn q) < b) \<and> deps_first M (map fst idx) res)"
    proof (cases "has_key idx (pf_Mrn r) \<or> \<not> has_key (bm_Policies M) (pf_Mrn r)")
      case True
      then have skip: "sortDependencies k M (r # refs) idx = sortDependencies k M refs idx"
        using named by (auto simp: map_get_None_iff [THEN iffD2])
      from Cons.IH named k obtain res idx' where *: "sortDependencies k M refs idx = Inr (Inr (res, idx'))" "visited M idx res idx'"
        "\<forall>r \<in> set refs. has_key (bm_Policies M) (pf_Mrn r) \<longrightarrow> has_key idx' (pf_Mrn r)"
        "\<forall>f b. ranked_policies f M \<longrightarrow> refs_below M f refs b
              \<longrightarrow> (\<forall>q \<in> set res. f (po_Mrn q) < b) \<and> deps_first M (map fst idx) res" by (fastforce simp: deps_ok_def)
      have key: "has_key (bm_Policies M) (pf_Mrn r) \<longrightarrow> has_key idx' (pf_Mrn r)" using True *(2) by (auto simp: visited_def)
      have below: "refs_below M f (r # refs) b \<Longrightarrow> refs_below M f refs b" for f b by (simp add: refs_below_def)
      have order: "\<forall>f b. ranked_policies f M \<longrightarrow> refs_below M f (r # refs) b
          \<longrightarrow> (\<forall>q \<in> set res. f (po_Mrn q) < b) \<and> deps_first M (map fst idx) res" using *(4) below by blast
      have keys: "\<forall>r \<in> set (r # refs). has_key (bm_Policies M) (pf_Mrn r) \<longrightarrow> has_key idx' (pf_Mrn r)"
        using key *(3) by (simp only: list.set ball_simps)
      have sorted: "sortDependencies k M (r # refs) idx = Inr (Inr (res, idx'))" using skip *(1) by (rule trans)
      show ?thesis
        by (rule exI [of _ res], rule exI [of _ idx'], rule conjI [OF sorted conjI [OF *(2) conjI [OF keys order]]])
    next
      case False
      then have "map_get (bm_Policies M) (pf_Mrn r) \<noteq> None" by (simp only: map_get_None_iff) simp
      then obtain dep where "map_get (bm_Policies M) (pf_Mrn r) = Some dep" by blast
      with proper_policiesD [OF M] obtain p where p: "map_get (bm_Policies M) (pf_Mrn r) = Some (Some p)" "po_Mrn p = pf_Mrn r" by blast
      then have pin: "policy_in M p" by (simp add: policy_in_def)
      have "\<not> has_key idx (po_Mrn p)" using False p(2) by simp
      from S [unfolded sorts_ok_def, rule_format, OF pin this k] obtain res1 idx1 where 1: "sortPolicies k M (Some p) idx = Inr (Inr (res1 @ [p], idx1))"
        "visited M idx (res1 @ [p]) idx1"
        "\<forall>f. ranked_policies f M \<longrightarrow> (\<forall>q \<in> set res1. f (po_Mrn q) < f (po_Mrn p)) \<and> deps_first M (map fst idx) (res1 @ [p])"
        by blast
      have "unseen M idx1 \<le> k" using le_trans [OF visited_unseen [OF 1(2)] k] .
      with Cons.IH named obtain res idx' where 2: "sortDependencies k M refs idx1 = Inr (Inr (res, idx'))" "visited M idx1 res idx'"
        "\<forall>r \<in> set refs. has_key (bm_Policies M) (pf_Mrn r) \<longrightarrow> has_key idx' (pf_Mrn r)"
        "\<forall>f b. ranked_policies f M \<longrightarrow> refs_below M f refs b
              \<longrightarrow> (\<forall>q \<in> set res. f (po_Mrn q) < b) \<and> deps_first M (map fst idx1) res" by (fastforce simp: deps_ok_def)
      have "sortDependencies k M (r # refs) idx = Inr (Inr ((res1 @ [p]) @ res, idx'))"
        using False named p(1) 1(1) 2(1) by (simp add: go_bind_def)
      moreover have "visited M idx ((res1 @ [p]) @ res) idx'" using 1(2) 2(2) by (rule visited_trans)
      moreover have "has_key idx' (pf_Mrn r)" using 1(2) 2(2) p(2) by (auto simp: visited_def)
      moreover have "(\<forall>q \<in> set ((res1 @ [p]) @ res). f (po_Mrn q) < b) \<and> deps_first M (map fst idx) ((res1 @ [p]) @ res)"
        if f: "ranked_policies f M" and b: "refs_below M f (r # refs) b" for f b
      proof -
        have below: "f (po_Mrn p) < b" "refs_below M f refs b" using b False p(2) by (auto simp: refs_below_def)
        have "deps_first M (map po_Mrn (res1 @ [p]) @ map fst idx) res"
          using 2(4) f below(2) deps_first_cong [OF visited_keys [OF 1(2)]] by blast
        then have "deps_first M (map fst idx) ((res1 @ [p]) @ res)"
          using 1(3) f unfolding deps_first_append [of M "map fst idx" "res1 @ [p]" res] by blast
        moreover have "\<forall>q \<in> set ((res1 @ [p]) @ res). f (po_Mrn q) < b" using 1(3) 2(4) f below by fastforce
        ultimately show ?thesis by blast
      qed
      ultimately show ?thesis using 2(3) by (intro exI [of _ "(res1 @ [p]) @ res"] exI [of _ idx']) simp
    qed
  qed
qed

lemma sorts_step:
  assumes M: "proper_policies M" and D: "\<And>refs. deps_ok M k refs"
  shows "sorts_ok M (Suc k)"
  unfolding sorts_ok_def
proof (intro allI impI)
  fix p idx assume p: "policy_in M p" and new: "\<not> has_key idx (po_Mrn p)" and k: "unseen M idx \<le> Suc k"
  let ?idx = "map_put (po_Mrn p) () idx"
  have "has_key (bm_Policies M) (po_Mrn p)" using p by (auto simp: policy_in_def dest: has_key_get)
  with new k unseen_put [of "po_Mrn p" M idx] have "unseen M ?idx \<le> k" by simp
  moreover have "\<forall>r \<in> set (policy_refs p). pf_Mrn r \<noteq> ''''" using p proper_policiesD [OF M] by (force simp: policy_in_def)
  ultimately obtain res idx' where *: "sortDependencies k M (policy_refs p) ?idx = Inr (Inr (res, idx'))" "visited M ?idx res idx'"
        "\<forall>r \<in> set (policy_refs p). has_key (bm_Policies M) (pf_Mrn r) \<longrightarrow> has_key idx' (pf_Mrn r)"
        "\<forall>f b. ranked_policies f M \<longrightarrow> refs_below M f (policy_refs p) b
              \<longrightarrow> (\<forall>q \<in> set res. f (po_Mrn q) < b) \<and> deps_first M (map fst ?idx) res"
    using D [of "policy_refs p"] unfolding deps_ok_def by blast
  have "sortPolicies (Suc k) M (Some p) idx = Inr (Inr (res @ [p], idx'))"
    using *(1) by (simp add: go_bind_def policy_refs_def)
  moreover have "visited M idx (res @ [p]) idx'"
    using *(2) new p unfolding visited_def keys_put by (simp only: map_append set_append image_Un) auto
  moreover have "(\<forall>q \<in> set res. f (po_Mrn q) < f (po_Mrn p)) \<and> deps_first M (map fst idx) (res @ [p])"
    if f: "ranked_policies f M" for f
  proof -
    have "refs_below M f (policy_refs p) (f (po_Mrn p))" using ranked_policiesD [OF f p] by (simp add: refs_below_def)
    with *(4) f have lt: "\<forall>q \<in> set res. f (po_Mrn q) < f (po_Mrn p)" and d: "deps_first M (map fst ?idx) res" by blast+
    have "deps_first M (map fst idx @ []) res"
      by (rule deps_first_drop [OF f, of _ "po_Mrn p"]) (use d lt *(2) new in \<open>auto simp: map_put_new visited_def less_imp_le\<close>)
    moreover have "pf_Mrn r \<in> set (map po_Mrn res @ map fst idx)"
      if "r \<in> set (policy_refs p)" "has_key (bm_Policies M) (pf_Mrn r)" for r
      using that *(2,3) ranked_policiesD [OF f p that] by (auto simp: visited_def)
    ultimately show ?thesis using lt by (simp add: deps_first_append list_all_iff)
  qed
  ultimately show "\<exists>res idx'. sortPolicies (Suc k) M (Some p) idx = Inr (Inr (res @ [p], idx')) \<and> visited M idx (res @ [p]) idx'
        \<and> (\<forall>f. ranked_policies f M \<longrightarrow> (\<forall>q \<in> set res. f (po_Mrn q) < f (po_Mrn p)) \<and> deps_first M (map fst idx) (res @ [p]))"
    by blast
qed

lemma sorts: "proper_policies M \<Longrightarrow> sorts_ok M k"
proof (induction k)
  case 0
  have "0 < unseen M idx" if "policy_in M p" "\<not> has_key idx (po_Mrn p)" for p idx
    using unseen_put [OF has_key_get [OF that(1) [unfolded policy_in_def]] that(2)] by simp
  then show ?case by (auto simp: sorts_ok_def)
next
  case (Suc k)
  with sorts_step deps_step show ?case by blast
qed

text \<open>All policies, from those listed so far.\<close>

lemma sort_all_visits:
  assumes M: "proper_policies M"
  shows "\<forall>p \<in> set ps. \<exists>q. p = Some q \<and> policy_in M q \<Longrightarrow> unseen M idx \<le> k \<Longrightarrow>
    \<exists>res' idx'. sort_all k M ps (res, idx) = Inr (Inr (res @ res', idx')) \<and> visited M idx res' idx'
      \<and> (\<forall>q. Some q \<in> set ps \<longrightarrow> has_key idx' (po_Mrn q))
      \<and> ((\<exists>f. ranked_policies f M) \<longrightarrow> deps_first M (map fst idx) res')"
proof (induction ps arbitrary: res idx)
  case Nil
  then show ?case by (simp add: visited_def)
next
  case (Cons p ps)
  then obtain q where q: "p = Some q" "policy_in M q" by auto
  show ?case
  proof (cases "has_key idx (po_Mrn q)")
    case True
    with Cons.IH [of idx res] Cons.prems obtain res' idx' where 1: "sort_all k M ps (res, idx) = Inr (Inr (res @ res', idx'))"
      "visited M idx res' idx'" "\<forall>q. Some q \<in> set ps \<longrightarrow> has_key idx' (po_Mrn q)"
      "(\<exists>f. ranked_policies f M) \<longrightarrow> deps_first M (map fst idx) res'" by (meson list.set_intros(2))
    moreover have "has_key idx' (po_Mrn q)" using True 1(2) by (auto simp: visited_def)
    ultimately show ?thesis using True q by (intro exI [of _ res'] exI [of _ idx']) (auto simp: go_bind_def)
  next
    case False
    from sorts [OF M, of k, unfolded sorts_ok_def, rule_format, OF q(2) this Cons.prems(2)] obtain res1 idx1 where 1: "sortPolicies k M (Some q) idx = Inr (Inr (res1 @ [q], idx1))"
      "visited M idx (res1 @ [q]) idx1" "\<forall>f. ranked_policies f M \<longrightarrow> deps_first M (map fst idx) (res1 @ [q])"
      by blast
    have "unseen M idx1 \<le> k" using le_trans [OF visited_unseen [OF 1(2)] Cons.prems(2)] .
    with Cons.IH [of idx1 "res @ res1 @ [q]"] Cons.prems(1) obtain res' idx' where
      2: "sort_all k M ps (res @ res1 @ [q], idx1) = Inr (Inr ((res @ res1 @ [q]) @ res', idx'))"
      "visited M idx1 res' idx'" "\<forall>q. Some q \<in> set ps \<longrightarrow> has_key idx' (po_Mrn q)"
      "(\<exists>f. ranked_policies f M) \<longrightarrow> deps_first M (map fst idx1) res'" by (meson list.set_intros(2))
    have "sort_all k M (p # ps) (res, idx) = Inr (Inr (res @ (res1 @ [q]) @ res', idx'))"
      using q False 1(1) 2(1) by (simp add: go_bind_def)
    moreover have "visited M idx ((res1 @ [q]) @ res') idx'" using 1(2) 2(2) by (rule visited_trans)
    moreover have "has_key idx' (po_Mrn q)" using 1(2) 2(2) by (auto simp: visited_def)
    moreover have "deps_first M (map fst idx) ((res1 @ [q]) @ res')" if "\<exists>f. ranked_policies f M"
      using that 1(3) 2(4) deps_first_cong [OF visited_keys [OF 1(2)]] unfolding deps_first_append [of M _ "res1 @ [q]"] by blast
    ultimately show ?thesis using 2(3) q by (intro exI [of _ "(res1 @ [q]) @ res'"] exI [of _ idx']) auto
  qed
qed

text \<open>C32: with a stack that is as deep as the map has policies, the policies of a map without nil entries are listed, each
  of them once, whatever they depend on; and if no policy depends on itself through others, every policy comes after the
  policies of the map that it depends on.\<close>

theorem policies_sorted_by_dependency:
  assumes "proper_policies M" and "length (bm_Policies M) \<le> k"
  shows "\<exists>res. PoliciesSortedByDependency k M = Inr (Inr res) \<and> distinct (map po_Mrn res)
    \<and> (\<forall>p. p \<in> set res \<longleftrightarrow> map_get (bm_Policies M) (po_Mrn p) = Some (Some p))
    \<and> ((\<exists>f. ranked_policies f M) \<longrightarrow> deps_first M [] res)"
proof -
  have ok: "map_ok (bm_Policies M)" using assms(1) by (simp add: proper_policies_def)
  have all: "\<forall>p \<in> set (map snd (bm_Policies M)). \<exists>q. p = Some q \<and> policy_in M q"
    using assms(1) ok by (force simp: proper_policies_def policy_in_def list_all_iff map_get_Some_iff split: option.splits)
  have "unseen M [] \<le> card (set (map fst (bm_Policies M)))" by (simp add: unseen_def)
  also have "\<dots> \<le> k" using assms(2) card_length [of "map fst (bm_Policies M)"] by simp
  finally obtain res idx where r: "sort_all k M (map snd (bm_Policies M)) ([], []) = Inr (Inr (res, idx))" "visited M [] res idx"
    "\<forall>q. Some q \<in> set (map snd (bm_Policies M)) \<longrightarrow> has_key idx (po_Mrn q)"
    "(\<exists>f. ranked_policies f M) \<longrightarrow> deps_first M [] res"
    using sort_all_visits [OF assms(1) all, of "[]" k "[]"] by auto
  have "p \<in> set res \<longleftrightarrow> map_get (bm_Policies M) (po_Mrn p) = Some (Some p)" for p
  proof
    assume g: "map_get (bm_Policies M) (po_Mrn p) = Some (Some p)"
    then have "Some p \<in> set (map snd (bm_Policies M))" by (force dest: map_of_SomeD)
    with r(3) have "has_key idx (po_Mrn p)" by blast
    with r(2) obtain q where "q \<in> set res" "po_Mrn q = po_Mrn p" by (auto simp: visited_def)
    moreover from this r(2) have "policy_in M q" by (simp add: visited_def)
    ultimately show "p \<in> set res" using g unfolding policy_in_def by (metis option.inject)
  qed (use r(2) in \<open>simp add: visited_def policy_in_def\<close>)
  with r show ?thesis by (auto simp: PoliciesSortedByDependency_def go_bind_def visited_def)
qed

text \<open>Two policies, one of which has the other for a part.\<close>

definition dependent_policy :: "string \<Rightarrow> string list \<Rightarrow> Policy" where
  "dependent_policy mrn deps = (sample_policy [(sample_group CHAPTER [] [])\<lparr>pg_Policies := map (\<lambda>d. \<lparr>pf_Mrn = d, pf_Action = Action_ACTIVATE,
     pf_Impact = None, pf_ScoringSystem = WORST\<rparr>) deps\<rparr>])\<lparr>po_Mrn := mrn\<rparr>"

definition dependent_bundle :: PolicyBundleMap where
  "dependent_bundle = (NewPolicyBundleMap '''')\<lparr>bm_Policies := [(''//a'', Some (dependent_policy ''//a'' [''//b'', ''//c''])),
     (''//b'', Some (dependent_policy ''//b'' []))]\<rparr>"

theorem policies_sorted_by_dependency_witness:
  "\<exists>res. PoliciesSortedByDependency 2 dependent_bundle = Inr (Inr res) \<and> distinct (map po_Mrn res) \<and> deps_first dependent_bundle [] res"
proof -
  note defs = dependent_bundle_def dependent_policy_def sample_policy_def sample_group_def NewPolicyBundleMap_def
  have "proper_policies dependent_bundle" by (simp add: defs proper_policies_def policy_refs_def map_ok_def)
  moreover have "length (bm_Policies dependent_bundle) \<le> 2" by (simp add: defs)
  moreover have "ranked_policies (\<lambda>m. if m = ''//a'' then 1 else 0) dependent_bundle"
    by (simp add: defs ranked_policies_def policy_refs_def)
  ultimately show ?thesis using policies_sorted_by_dependency by blast
qed

subsection \<open>The library\<close>

text \<open>What a library has is entered as nil: a map that has validated a policy with a query of the library cannot be read.\<close>

lemma library_query_is_nil:
  assumes "\<not> has_key (bm_Queries M) mrn" and "be_Library B = Some (Q, P)" and "Q mrn = (True, None)"
  shows "fst (queryExists B mrn M) = Inr True" and "\<exists>p. QueryMap (snd (queryExists B mrn M)) = Inl p"
proof -
  show "fst (queryExists B mrn M) = Inr True" using assms by (simp add: queryExists_def)
  have fails: "\<exists>p. go_fold f acc (m @ [(mrn, None)]) = Inl p"
    if "\<And>acc. \<exists>p. f acc (mrn, None) = Inl p" for f :: "'s \<Rightarrow> string \<times> Mquery option \<Rightarrow> 's go" and acc m
  proof (induction m arbitrary: acc)
    case Nil
    with that [of acc] show ?case by (auto simp: go_bind_def)
  next
    case (Cons x m)
    then show ?case by (cases "f acc x") (simp_all add: go_bind_def)
  qed
  have "bm_Queries (snd (queryExists B mrn M)) = bm_Queries M @ [(mrn, None)]"
    using assms by (simp add: queryExists_def map_put_new)
  then show "\<exists>p. QueryMap (snd (queryExists B mrn M)) = Inl p"
    unfolding QueryMap_def by (auto intro!: fails simp: go_bind_def)
qed

end
