(* ===== verification/Bundle_Queries_Results.thy ===== *)
theory Bundle_Queries_Results
  imports Bundle_Queries Depth_First Bundle_Map_Results
begin

text \<open>
  What combining, filtering and ordering bundles promise: a combined bundle has the map of both; the queries are compiled
  behind their variants; and a cycle of variants is found whenever there is one.
\<close>

subsection \<open>The index of queries\<close>

definition query_list :: "Mquery option list \<Rightarrow> Mquery list" where
  "query_list qs = List.map_filter (\<lambda>x. x) qs"

lemma query_list_simps [simp]:
  "query_list [] = []" "query_list (None # qs) = query_list qs" "query_list (Some q # qs) = q # query_list qs"
  by (simp_all add: query_list_def map_filter_simps)

lemma query_list_set [simp]: "q \<in> set (query_list qs) \<longleftrightarrow> Some q \<in> set qs"
proof (induction qs)
  case (Cons x qs)
  then show ?case by (cases x) auto
qed simp

definition named_query :: "Mquery \<Rightarrow> bool" where
  "named_query q \<longleftrightarrow> mq_Mrn q \<noteq> '''' \<and> list_all (\<lambda>v. or_Mrn v \<noteq> '''') (mq_Variants q)"

definition index_of :: "Mquery option list \<Rightarrow> (string, Mquery) gomap" where
  "index_of qs = foldl (\<lambda>m q. map_put (mq_Mrn q) q m) [] (query_list qs)"

lemma index_queries_named:
  assumes "list_all named_query (query_list qs)"
  shows "index_queries what qs = Inr (index_of qs)"
proof -
  have "go_fold (\<lambda>m q. case q of None \<Rightarrow> Inr m
     | Some q \<Rightarrow> if mq_Mrn q = '''' then Inl (Bug (''expected query MRN to be set for '' @ what)) else Inr (map_put (mq_Mrn q) q m)) m qs
     = Inr (foldl (\<lambda>m q. map_put (mq_Mrn q) q m) m (query_list qs))" for m
    using assms
  proof (induction qs arbitrary: m)
    case (Cons q qs)
    then show ?case by (cases q) (simp_all add: named_query_def)
  qed simp
  then show ?thesis by (simp add: index_queries_def index_of_def)
qed

lemma index_get: "map_get (index_of qs) n = latest mq_Mrn n (query_list qs)"
  using get_puts [of mq_Mrn "[]" "query_list qs" n] by (simp add: index_of_def split: option.splits)

lemma index_keyed: "keyed mq_Mrn (index_of qs)"
  unfolding index_of_def by (rule keyed_puts) simp

lemma latest_in: "latest f n xs = Some x \<Longrightarrow> x \<in> set xs \<and> f x = n"
  by (induction xs rule: rev_induct) (auto split: if_splits)

lemma latest_None: "latest f n xs = None \<longleftrightarrow> (\<forall>x \<in> set xs. f x \<noteq> n)"
  by (induction xs rule: rev_induct) auto

lemma index_length: "length (index_of qs) \<le> length (query_list qs)"
proof -
  have "length (map_put k v m) \<le> Suc (length m)" for k and v :: Mquery and m :: "(string, Mquery) gomap"
    by (induction m) auto
  then have "length (foldl (\<lambda>m q. map_put (mq_Mrn q) q m) m xs) \<le> length m + length xs" for m and xs :: "Mquery list"
  proof (induction xs arbitrary: m)
    case (Cons x xs)
    from Cons.IH [of "map_put (mq_Mrn x) x m"] Cons.prems [of "mq_Mrn x" x m] Cons.prems show ?case by fastforce
  qed simp
  from this [of "[]"] show ?thesis by (simp add: index_of_def)
qed

subsection \<open>Cycles\<close>

definition variants_of :: "(string, Mquery) gomap \<Rightarrow> string \<Rightarrow> string list" where
  "variants_of m n = (case map_get m n of None \<Rightarrow> [] | Some q \<Rightarrow> map or_Mrn (mq_Variants q))"

definition variant_rel :: "(string, Mquery) gomap \<Rightarrow> (string \<times> string) set" where
  "variant_rel m = {(n, v). v \<in> set (variants_of m n)}"

lemma variant_rel_iff: "(n, v) \<in> variant_rel m \<longleftrightarrow> (\<exists>q. map_get m n = Some q \<and> v \<in> or_Mrn ` set (mq_Variants q))"
  by (cases "map_get m n") (simp_all add: variant_rel_def variants_of_def)

definition named_map :: "(string, Mquery) gomap \<Rightarrow> bool" where
  "named_map m \<longleftrightarrow> keyed mq_Mrn m \<and> (\<forall>(n, q) \<in> set m. named_query q)"

lemma named_mapD: "named_map m \<Longrightarrow> map_get m n = Some q \<Longrightarrow> mq_Mrn q = n \<and> (\<forall>v \<in> set (mq_Variants q). or_Mrn v \<noteq> '''')"
  by (auto simp: named_map_def keyed_def named_query_def list_all_iff dest!: map_of_SomeD)

definition active :: "statusMap \<Rightarrow> string set" where
  "active st = {n. map_get st n = Some ACTIVE}"

definition visited_in :: "statusMap \<Rightarrow> string set" where
  "visited_in st = {n. map_get st n = Some VISITED}"

lemma status_put:
  "active (map_put n ACTIVE st) = insert n (active st)" "visited_in (map_put n ACTIVE st) = visited_in st - {n}"
  "active (map_put n VISITED st) = active st - {n}" "visited_in (map_put n VISITED st) = insert n (visited_in st)"
  by (auto simp: active_def visited_in_def)

text \<open>What is visited leads only to what is visited or missing, and is on no cycle.\<close>

definition settled :: "(string, Mquery) gomap \<Rightarrow> statusMap \<Rightarrow> bool" where
  "settled m st \<longleftrightarrow> (\<forall>n \<in> visited_in st. (n, n) \<notin> (variant_rel m)\<^sup>+
     \<and> (\<forall>v. (n, v) \<in> variant_rel m \<longrightarrow> map_get m v \<noteq> None \<longrightarrow> v \<in> visited_in st))"

lemma settled_reaches:
  assumes "settled m st" and "(n, v) \<in> (variant_rel m)\<^sup>*" and "n \<in> visited_in st" and "map_get m v \<noteq> None"
  shows "v \<in> visited_in st"
proof -
  from assms(2) have "v \<in> visited_in st \<or> map_get m v = None"
  proof (induction rule: rtrancl_induct)
    case (step x y)
    from step(2) have "map_get m x \<noteq> None" by (auto simp: variant_rel_iff)
    with step assms(1) show ?case by (auto simp: settled_def)
  qed (use assms(3) in simp)
  then show ?thesis
  proof
    assume "map_get m v = None"
    with assms(4) show ?thesis by (rule notE)
  qed
qed

definition fresh_nodes :: "(string, Mquery) gomap \<Rightarrow> statusMap \<Rightarrow> nat" where
  "fresh_nodes m st = card (fst ` set m - (active st \<union> visited_in st))"

definition detect_post :: "(string, Mquery) gomap \<Rightarrow> statusMap \<Rightarrow> string set \<Rightarrow> string + statusMap \<Rightarrow> bool" where
  "detect_post m st ns r \<longleftrightarrow> (case r of Inl e \<Rightarrow> \<not> acyclic (variant_rel m)
     | Inr st' \<Rightarrow> settled m st' \<and> active st' = active st \<and> visited_in st \<subseteq> visited_in st'
         \<and> {n \<in> ns. map_get m n \<noteq> None} \<subseteq> visited_in st')"

definition detect_node_ok :: "(string, Mquery) gomap \<Rightarrow> nat \<Rightarrow> bool" where
  "detect_node_ok m k \<longleftrightarrow> (\<forall>n st. settled m st \<longrightarrow> fresh_nodes m st < k \<longrightarrow> map_get m n \<noteq> None
     \<longrightarrow> (\<forall>a \<in> active st. (a, n) \<in> (variant_rel m)\<^sup>+)
     \<longrightarrow> (\<exists>r. detectVariantCyclesDFS k n st m = Inr r \<and> detect_post m st {n} r))"

definition detect_list_ok :: "(string, Mquery) gomap \<Rightarrow> nat \<Rightarrow> ObjectRef list \<Rightarrow> bool" where
  "detect_list_ok m k vs \<longleftrightarrow> (\<forall>st. settled m st \<longrightarrow> fresh_nodes m st < k \<longrightarrow> (\<forall>v \<in> set vs. or_Mrn v \<noteq> '''')
     \<longrightarrow> (\<forall>v \<in> set vs. \<forall>a \<in> active st. (a, or_Mrn v) \<in> (variant_rel m)\<^sup>+)
     \<longrightarrow> (\<exists>r. detect_variants k vs st m = Inr r \<and> detect_post m st (or_Mrn ` set vs) r))"

lemma fresh_le: "active st' = active st \<Longrightarrow> visited_in st \<subseteq> visited_in st' \<Longrightarrow> fresh_nodes m st' \<le> fresh_nodes m st"
  unfolding fresh_nodes_def by (rule card_mono) auto

lemma detect_list_step:
  assumes m: "named_map m" and k: "detect_node_ok m k"
  shows "detect_list_ok m k vs"
proof (induction vs)
  case Nil
  show ?case by (simp add: detect_list_ok_def detect_post_def)
next
  case (Cons v vs)
  show ?case unfolding detect_list_ok_def
  proof (intro allI impI)
    fix st assume st: "settled m st" and f: "fresh_nodes m st < k" and named: "\<forall>v \<in> set (v # vs). or_Mrn v \<noteq> ''''"
      and a: "\<forall>v \<in> set (v # vs). \<forall>a \<in> active st. (a, or_Mrn v) \<in> (variant_rel m)\<^sup>+"
    show "\<exists>r. detect_variants k (v # vs) st m = Inr r \<and> detect_post m st (or_Mrn ` set (v # vs)) r"
    proof (cases "map_get m (or_Mrn v)")
      case None
      from Cons.IH [unfolded detect_list_ok_def, rule_format, OF st f] named a obtain r where
        "detect_variants k vs st m = Inr r" "detect_post m st (or_Mrn ` set vs) r" by auto
      with None named show ?thesis by (intro exI [of _ r]) (auto simp: detect_post_def split: sum.splits)
    next
      case (Some q)
      then have q: "mq_Mrn q = or_Mrn v" using named_mapD [OF m] by blast
      from k [unfolded detect_node_ok_def, rule_format, OF st f, of "or_Mrn v"] Some a obtain r where
        r: "detectVariantCyclesDFS k (or_Mrn v) st m = Inr r" "detect_post m st {or_Mrn v} r" by auto
      show ?thesis
      proof (cases r)
        case (Inl e)
        with r named Some q show ?thesis by (auto simp: detect_post_def)
      next
        case (Inr st1)
        with r(2) have 1: "settled m st1" "active st1 = active st" "visited_in st \<subseteq> visited_in st1" "or_Mrn v \<in> visited_in st1"
          using Some by (auto simp: detect_post_def)
        have "fresh_nodes m st1 < k" using fresh_le [OF 1(2,3), of m] f by simp
        from Cons.IH [unfolded detect_list_ok_def, rule_format, OF 1(1) this] named a 1(2) obtain r2 where
          "detect_variants k vs st1 m = Inr r2" "detect_post m st1 (or_Mrn ` set vs) r2" by auto
        with r(1) Inr named Some q 1 show ?thesis
          by (intro exI [of _ r2]) (auto simp: detect_post_def split: sum.splits)
      qed
    qed
  qed
qed

lemma detect_node_step:
  assumes m: "named_map m" and k: "\<And>vs. detect_list_ok m k vs"
  shows "detect_node_ok m (Suc k)"
  unfolding detect_node_ok_def
proof (intro allI impI)
  let ?E = "variant_rel m"
  fix n st assume st: "settled m st" and f: "fresh_nodes m st < Suc k" and n: "map_get m n \<noteq> None"
    and a: "\<forall>a \<in> active st. (a, n) \<in> ?E\<^sup>+"
  from n obtain q where q: "map_get m n = Some q" by blast
  with named_mapD [OF m] have qn: "mq_Mrn q = n" and named: "\<forall>v \<in> set (mq_Variants q). or_Mrn v \<noteq> ''''" by blast+
  show "\<exists>r. detectVariantCyclesDFS (Suc k) n st m = Inr r \<and> detect_post m st {n} r"
  proof (cases "status_of st n")
    case VISITED
    then have "n \<in> visited_in st" by (auto simp: status_of_def visited_in_def split: option.splits)
    with VISITED q st show ?thesis by (auto simp: detect_post_def)
  next
    case ACTIVE
    then have "n \<in> active st" by (auto simp: status_of_def active_def split: option.splits)
    with a have "\<not> acyclic ?E" by (auto simp: acyclic_def)
    with ACTIVE q show ?thesis by (simp add: detect_post_def)
  next
    case NEW
    then have new: "n \<notin> active st" "n \<notin> visited_in st" by (auto simp: status_of_def active_def visited_in_def)
    let ?st = "map_put n ACTIVE st"
    have act: "active ?st = insert n (active st)" "visited_in ?st = visited_in st" using new by (simp_all add: status_put)
    have 1: "settled m ?st" using st by (simp add: settled_def act)
    have "fresh_nodes m ?st < fresh_nodes m st" unfolding fresh_nodes_def act
      by (rule psubset_card_mono) (use new has_key_get [OF q] in auto)
    with f have 2: "fresh_nodes m ?st < k" by simp
    have edge: "(n, or_Mrn v) \<in> ?E" if "v \<in> set (mq_Variants q)" for v using that q by (simp add: variant_rel_def variants_of_def)
    have 3: "\<forall>v \<in> set (mq_Variants q). \<forall>x \<in> active ?st. (x, or_Mrn v) \<in> ?E\<^sup>+"
      using a edge act by (auto intro: trancl_into_trancl)
    from k [of "mq_Variants q", unfolded detect_list_ok_def, rule_format, OF 1 2] named 3 obtain r where
      r: "detect_variants k (mq_Variants q) ?st m = Inr r" "detect_post m ?st (or_Mrn ` set (mq_Variants q)) r" by blast
    show ?thesis
    proof (cases r)
      case (Inl e)
      with r q NEW qn show ?thesis by (auto simp: detect_post_def)
    next
      case (Inr st2)
      with r(2) have 4: "settled m st2" "active st2 = insert n (active st)" "visited_in st \<subseteq> visited_in st2"
        and seen: "\<And>v. (n, v) \<in> ?E \<Longrightarrow> map_get m v \<noteq> None \<Longrightarrow> v \<in> visited_in st2"
        using q by (auto simp: detect_post_def act variant_rel_def variants_of_def)
      have "n \<in> active st2" using 4(2) by simp
      then have notin: "n \<notin> visited_in st2" by (simp add: active_def visited_in_def)
      have "(n, n) \<notin> ?E\<^sup>+"
      proof
        assume "(n, n) \<in> ?E\<^sup>+"
        then obtain s where s: "(n, s) \<in> ?E" "(s, n) \<in> ?E\<^sup>*" by (auto dest: tranclD)
        have "map_get m s \<noteq> None"
        proof (cases "s = n")
          case False
          with s(2) obtain t where "(s, t) \<in> ?E" by (auto elim: converse_rtranclE)
          then show ?thesis by (auto simp: variant_rel_iff)
        qed (simp add: q)
        then have "s \<in> visited_in st2" using seen s(1) by blast
        from settled_reaches [OF 4(1) s(2) this] q notin show False by simp
      qed
      with 4 seen have "settled m (map_put n VISITED st2)" by (auto simp: settled_def status_put)
      moreover have "active (map_put n VISITED st2) = active st" using 4(2) new by (auto simp: status_put)
      moreover have "visited_in st \<subseteq> visited_in (map_put n VISITED st2)" using 4(3) by (auto simp: status_put)
      ultimately show ?thesis using r(1) Inr q NEW qn
        by (intro exI [of _ "Inr (map_put n VISITED st2)"]) (auto simp: detect_post_def status_put)
    qed
  qed
qed

lemma detect_nodes: "named_map m \<Longrightarrow> detect_node_ok m k"
proof (induction k)
  case (Suc k)
  with detect_node_step detect_list_step show ?case by blast
qed (simp add: detect_node_ok_def)

lemma detect_all_ok:
  assumes m: "named_map m" and l: "length m < k"
  shows "settled m st \<Longrightarrow> active st = {} \<Longrightarrow> set qs \<subseteq> snd ` set m \<Longrightarrow>
    \<exists>e. detect_all k qs st m = Inr e \<and> (case e of Some e \<Rightarrow> \<not> acyclic (variant_rel m)
      | None \<Rightarrow> \<exists>st'. settled m st' \<and> visited_in st \<subseteq> visited_in st' \<and> mq_Mrn ` set qs \<subseteq> visited_in st')"
proof (induction qs arbitrary: st)
  case Nil
  then show ?case by auto
next
  case (Cons q qs)
  then obtain n where n: "(n, q) \<in> set m" by auto
  with m have q: "map_get m (mq_Mrn q) = Some q" by (auto simp: named_map_def keyed_def map_get_Some_iff)
  have "fresh_nodes m st \<le> card (set (map fst m))" unfolding fresh_nodes_def by (rule card_mono) auto
  with l card_length [of "map fst m"] have "fresh_nodes m st < k" by simp
  from detect_nodes [OF m, of k, unfolded detect_node_ok_def, rule_format, OF Cons.prems(1) this, of "mq_Mrn q"] q Cons.prems(2)
  obtain r where r: "detectVariantCyclesDFS k (mq_Mrn q) st m = Inr r" "detect_post m st {mq_Mrn q} r" by auto
  show ?case
  proof (cases r)
    case (Inl e)
    with r show ?thesis by (simp add: detect_post_def)
  next
    case (Inr st1)
    with r(2) q have 1: "settled m st1" "active st1 = active st" "visited_in st \<subseteq> visited_in st1" "mq_Mrn q \<in> visited_in st1"
      by (auto simp: detect_post_def)
    from Cons.IH [of st1] 1 Cons.prems obtain e where e: "detect_all k qs st1 m = Inr e"
      "case e of Some e \<Rightarrow> \<not> acyclic (variant_rel m)
        | None \<Rightarrow> \<exists>st'. settled m st' \<and> visited_in st1 \<subseteq> visited_in st' \<and> mq_Mrn ` set qs \<subseteq> visited_in st'" by auto
    have "case e of Some e \<Rightarrow> \<not> acyclic (variant_rel m)
        | None \<Rightarrow> \<exists>st'. settled m st' \<and> visited_in st \<subseteq> visited_in st' \<and> mq_Mrn ` set (q # qs) \<subseteq> visited_in st'"
      using e(2) 1 by (cases e) auto
    with r(1) Inr e(1) show ?thesis by auto
  qed
qed

lemma cycles_detected:
  assumes m: "named_map m" and l: "length m < k"
  shows "\<exists>e. detectVariantCycles k m = Inr e \<and> (e = None \<longleftrightarrow> acyclic (variant_rel m))"
proof -
  have "settled m []" "active [] = {}" by (simp_all add: settled_def active_def visited_in_def)
  from detect_all_ok [OF m l this, of "map snd m"] obtain e where e: "detect_all k (map snd m) [] m = Inr e"
    "case e of Some e \<Rightarrow> \<not> acyclic (variant_rel m)
      | None \<Rightarrow> \<exists>st'. settled m st' \<and> visited_in [] \<subseteq> visited_in st' \<and> mq_Mrn ` set (map snd m) \<subseteq> visited_in st'" by auto
  have "acyclic (variant_rel m)" if "e = None"
  proof -
    from e(2) that obtain st where st: "settled m st" "mq_Mrn ` set (map snd m) \<subseteq> visited_in st" by auto
    have "(n, n) \<notin> (variant_rel m)\<^sup>+" for n
    proof
      assume cyc: "(n, n) \<in> (variant_rel m)\<^sup>+"
      then obtain v where "(n, v) \<in> variant_rel m" by (auto dest: tranclD)
      then obtain q where q: "map_get m n = Some q" by (auto simp: variant_rel_iff)
      with named_mapD [OF m] st(2) have "n \<in> visited_in st" by (force dest: map_of_SomeD)
      with st(1) cyc show False by (simp add: settled_def)
    qed
    then show ?thesis by (simp add: acyclic_def)
  qed
  with e show ?thesis by (cases e) (auto simp: detectVariantCycles_def)
qed

text \<open>C36: for queries that have their MRNs, with a stack deeper than their number, the check for cycles of variants returns, and
  it returns an error exactly if a query reaches itself through variants; the last query of an MRN counts.\<close>

theorem variant_cycles_detected:
  assumes "list_all named_query (query_list qs)" and "length (query_list qs) < k"
  shows "\<exists>e. ensureNoCyclesInVariants k qs = Inr e \<and> (e = None \<longleftrightarrow>
    acyclic {(n, v). \<exists>q. latest mq_Mrn n (query_list qs) = Some q \<and> v \<in> or_Mrn ` set (mq_Variants q)})"
proof -
  have "named_query q" if "(n, q) \<in> set (index_of qs)" for n q
  proof -
    have "map_get (index_of qs) n = Some q" using that index_keyed [of qs] by (simp add: keyed_def map_get_Some_iff)
    with assms(1) show ?thesis by (auto simp: index_get list_all_iff dest!: latest_in)
  qed
  then have m: "named_map (index_of qs)" by (auto simp: named_map_def index_keyed)
  have rel: "variant_rel (index_of qs) = {(n, v). \<exists>q. latest mq_Mrn n (query_list qs) = Some q \<and> v \<in> or_Mrn ` set (mq_Variants q)}"
    by (auto simp: variant_rel_iff index_get)
  have "length (index_of qs) < k" using assms(2) index_length [of qs] by simp
  from cycles_detected [OF m this] show ?thesis
    unfolding rel by (simp add: ensureNoCyclesInVariants_def index_queries_named [OF assms(1)])
qed

definition variant_query :: "string \<Rightarrow> string list \<Rightarrow> Mquery" where
  "variant_query mrn vs = \<lparr>mq_Query = '''', mq_Mql = '''', mq_CodeId = '''', mq_Checksum = '''', mq_Mrn = mrn, mq_Title = '''',
     mq_Desc = '''', mq_Impact = None, mq_Filters = None, mq_Props = [], mq_Variants = map (\<lambda>v. \<lparr>or_Mrn = v, or_Uid = ''''\<rparr>) vs,
     mq_Action = Action_UNSPECIFIED\<rparr>"

theorem variant_cycles_detected_witness:
  "\<exists>e. ensureNoCyclesInVariants 3 [Some (variant_query ''a'' [''b'']), None, Some (variant_query ''b'' [])] = Inr e \<and> e = None"
proof -
  let ?qs = "[Some (variant_query ''a'' [''b'']), None, Some (variant_query ''b'' [])]"
  have "list_all named_query (query_list ?qs)" by (simp add: named_query_def variant_query_def)
  moreover have "length (query_list ?qs) < 3" by simp
  ultimately obtain e where e: "ensureNoCyclesInVariants 3 ?qs = Inr e"
    "e = None \<longleftrightarrow> acyclic {(n, v). \<exists>q. latest mq_Mrn n (query_list ?qs) = Some q \<and> v \<in> or_Mrn ` set (mq_Variants q)}"
    using variant_cycles_detected by blast
  have "{(n, v). \<exists>q. latest mq_Mrn n (query_list ?qs) = Some q \<and> v \<in> or_Mrn ` set (mq_Variants q)} \<subseteq> {(''a'', ''b'')}"
    by (auto simp: latest_def variant_query_def split: if_splits)
  moreover have "acyclic {(''a'', ''b'')}" by (auto simp: acyclic_def trancl_insert)
  ultimately have "acyclic {(n, v). \<exists>q. latest mq_Mrn n (query_list ?qs) = Some q \<and> v \<in> or_Mrn ` set (mq_Variants q)}"
    by (rule acyclic_subset [rotated])
  with e show ?thesis by blast
qed

subsection \<open>The order of the queries\<close>

abbreviation picked :: "(string, Mquery) gomap \<Rightarrow> string list \<Rightarrow> Mquery list" where
  "picked m out \<equiv> List.map_filter (map_get m) out"

lemma picked_append: "picked m (xs @ ys) = picked m xs @ picked m ys"
  by (simp add: map_filter_def)

lemma picked_set: "q \<in> set (picked m ns) \<longleftrightarrow> (\<exists>n \<in> set ns. map_get m n = Some q)"
proof (induction ns)
  case (Cons n ns)
  then show ?case by (cases "map_get m n") (auto simp: map_filter_simps)
qed (simp add: map_filter_simps)

text \<open>The sort is the depth-first search over the variants, of whose list it keeps what the map has.\<close>

lemma sort_is_dfs:
  assumes m: "named_map m"
  shows "topologicalSortQueriesDFS k n m (seen, picked m out) = map_sum (\<lambda>p. p) (map_prod (\<lambda>s. s) (picked m)) (dfs k (variants_of m) n (seen, out))"
    and "(\<forall>v \<in> set vs. or_Mrn v \<noteq> '''') \<longrightarrow> sort_variants k vs m (seen, picked m out)
      = map_sum (\<lambda>p. p) (map_prod (\<lambda>s. s) (picked m)) (dfs_all k (variants_of m) (map or_Mrn vs) (seen, out))"
proof (induction k arbitrary: n seen out vs)
  case 0
  have l: "(\<forall>v \<in> set vs. or_Mrn v \<noteq> '''') \<longrightarrow> sort_variants 0 vs m (seen, picked m out)
      = map_sum (\<lambda>p. p) (map_prod (\<lambda>s. s) (picked m)) (dfs_all 0 (variants_of m) (map or_Mrn vs) (seen, out))" for vs seen out
    by (cases vs) simp_all
  { case 1 show ?case by simp next case 2 show ?case by (rule l) }
next
  case (Suc k)
  have node: "topologicalSortQueriesDFS (Suc k) n m (seen, picked m out)
      = map_sum (\<lambda>p. p) (map_prod (\<lambda>s. s) (picked m)) (dfs (Suc k) (variants_of m) n (seen, out))" for n seen out
  proof (cases "map_get m n")
    case None
    then show ?thesis by (simp add: variants_of_def picked_append map_filter_simps)
  next
    case (Some q)
    then have named: "\<forall>v \<in> set (mq_Variants q). or_Mrn v \<noteq> ''''" using named_mapD [OF m] by blast
    show ?thesis
    proof (cases "has_key seen n")
      case False
      let ?d = "dfs_all k (variants_of m) (map or_Mrn (mq_Variants q)) (map_put n () seen, out)"
      have "sort_variants k (mq_Variants q) m (map_put n () seen, picked m out) = map_sum (\<lambda>p. p) (map_prod (\<lambda>s. s) (picked m)) ?d"
        using Suc.IH(2) named by blast
      moreover have "variants_of m n = map or_Mrn (mq_Variants q)" using Some by (simp add: variants_of_def)
      ultimately show ?thesis using Some False
        by (cases ?d) (auto simp: picked_append map_filter_simps)
    qed simp
  qed
  have list: "(\<forall>v \<in> set vs. or_Mrn v \<noteq> '''') \<longrightarrow> sort_variants (Suc k) vs m (seen, picked m out)
      = map_sum (\<lambda>p. p) (map_prod (\<lambda>s. s) (picked m)) (dfs_all (Suc k) (variants_of m) (map or_Mrn vs) (seen, out))" for vs seen out
  proof (induction vs arbitrary: seen out)
    case (Cons v vs)
    show ?case
    proof (cases "dfs (Suc k) (variants_of m) (or_Mrn v) (seen, out)")
      case (Inl e)
      with node [of "or_Mrn v" seen out] show ?thesis by (simp del: dfs.simps(2) topologicalSortQueriesDFS.simps(2))
    next
      case (Inr s)
      with node [of "or_Mrn v" seen out] Cons.IH [of "fst s" "snd s"] show ?thesis
        by (cases s) (simp del: dfs.simps(2) topologicalSortQueriesDFS.simps(2))
    qed
  qed simp
  { case 1 show ?case by (rule node) next case 2 show ?case by (rule list) }
qed

lemma sort_queries_is_dfs:
  assumes m: "named_map m"
  shows "sort_queries k qs m (seen, picked m out)
    = map_sum (\<lambda>p. p) (map_prod (\<lambda>s. s) (picked m)) (dfs_all k (variants_of m) (map mq_Mrn (query_list qs)) (seen, out))"
proof (induction qs arbitrary: seen out)
  case (Cons q qs)
  show ?case
  proof (cases q)
    case (Some q')
    show ?thesis
    proof (cases "dfs k (variants_of m) (mq_Mrn q') (seen, out)")
      case (Inl e)
      with sort_is_dfs(1) [OF m, of k "mq_Mrn q'" seen out] Some show ?thesis by simp
    next
      case (Inr s)
      with sort_is_dfs(1) [OF m, of k "mq_Mrn q'" seen out] Some Cons.IH [of "fst s" "snd s"] show ?thesis by (cases s) simp
    qed
  qed (use Cons in simp)
qed simp

text \<open>An acyclic relation on finitely many nodes has a rank.\<close>

lemma acyclic_ranked:
  assumes "acyclic (variant_rel m)" and N: "finite N" and c: "\<And>n. n \<in> N \<Longrightarrow> set (variants_of m n) \<subseteq> N"
  shows "\<exists>f. ranked_succs f (variants_of m) N"
proof -
  let ?E = "variant_rel m"
  let ?f = "\<lambda>n. card {x \<in> N. (n, x) \<in> ?E\<^sup>+}"
  have "?f v < ?f n" if "n \<in> N" "v \<in> set (variants_of m n)" for n v
  proof (rule psubset_card_mono)
    have e: "(n, v) \<in> ?E" using that by (simp add: variant_rel_def)
    have has: "v \<in> {x \<in> N. (n, x) \<in> ?E\<^sup>+}" using c [OF that(1)] that(2) e by auto
    have lacks: "v \<notin> {x \<in> N. (v, x) \<in> ?E\<^sup>+}" using assms(1) by (simp add: acyclic_def)
    have sub: "{x \<in> N. (v, x) \<in> ?E\<^sup>+} \<subseteq> {x \<in> N. (n, x) \<in> ?E\<^sup>+}" using e by (auto intro: trancl_into_trancl2)
    show "{x \<in> N. (v, x) \<in> ?E\<^sup>+} \<subset> {x \<in> N. (n, x) \<in> ?E\<^sup>+}"
    proof (rule psubsetI [OF sub], rule notI)
      assume eq: "{x \<in> N. (v, x) \<in> ?E\<^sup>+} = {x \<in> N. (n, x) \<in> ?E\<^sup>+}"
      show False by (rule notE [OF lacks]) (unfold eq, rule has)
    qed
  qed (use N in simp)
  then have "ranked_succs ?f (variants_of m) N" unfolding ranked_succs_def by blast
  then show ?thesis by (rule exI [of "\<lambda>f. ranked_succs f (variants_of m) N"])
qed

definition all_names :: "Mquery option list \<Rightarrow> string list" where
  "all_names qs = concat (map (\<lambda>q. mq_Mrn q # map or_Mrn (mq_Variants q)) (query_list qs))"

lemma index_named: 
  assumes "list_all named_query (query_list qs)"
  shows "named_map (index_of qs)"
proof -
  have "named_query q" if "(n, q) \<in> set (index_of qs)" for n q
  proof -
    have "map_get (index_of qs) n = Some q" using that index_keyed [of qs] by (simp add: keyed_def map_get_Some_iff)
    with assms show ?thesis by (auto simp: index_get list_all_iff dest!: latest_in)
  qed
  then show ?thesis by (auto simp: named_map_def index_keyed)
qed

text \<open>C37: for queries that have their MRNs, with a stack deeper than the number of names, the sort returns the queries, the last of
  every MRN and each once; and if the check for cycles has let them pass, every query comes after the variants it is made of.\<close>

theorem queries_sorted_behind_variants:
  assumes "list_all named_query (query_list qs)" and "length (all_names qs) < k"
  shows "\<exists>res. topologicalSortQueries k qs = Inr res \<and> distinct (map mq_Mrn res)
    \<and> (\<forall>q. q \<in> set res \<longleftrightarrow> latest mq_Mrn (mq_Mrn q) (query_list qs) = Some q)
    \<and> (ensureNoCyclesInVariants k qs = Inr None \<longrightarrow> (\<forall>us q vs. res = us @ q # vs \<longrightarrow>
         (\<forall>v \<in> set (mq_Variants q). \<forall>p. latest mq_Mrn (or_Mrn v) (query_list qs) = Some p \<longrightarrow> p \<in> set us)))"
proof -
  let ?m = "index_of qs"
  let ?N = "set (all_names qs)"
  note m = index_named [OF assms(1)]
  have sub: "set (variants_of ?m n) \<subseteq> ?N" for n
  proof (cases "map_get ?m n")
    case (Some q)
    then have "Some q \<in> set qs" by (auto simp: index_get dest: latest_in)
    with Some show ?thesis by (auto simp: variants_of_def all_names_def)
  qed (simp add: variants_of_def)
  have closed: "dfs_closed (variants_of ?m) ?N" using sub by (simp add: dfs_closed_def)
  have names: "set (map mq_Mrn (query_list qs)) \<subseteq> ?N" by (auto simp: all_names_def)
  have few: "card ?N < k" using assms(2) card_length [of "all_names qs"] by simp
  obtain out seen where run: "dfs_all k (variants_of ?m) (map mq_Mrn (query_list qs)) ([], []) = Inr (seen, out)"
    and out: "distinct out" "set out \<subseteq> ?N" "set (map mq_Mrn (query_list qs)) \<subseteq> set out"
    and ord: "\<And>f. ranked_succs f (variants_of ?m) ?N \<Longrightarrow> succs_first (variants_of ?m) {} out"
    by (rule dfs_from_list [OF closed names few]) simp
  let ?res = "picked ?m out"
  have sort: "topologicalSortQueries k qs = Inr ?res"
    using sort_queries_is_dfs [OF m, of k qs "[]" "[]"] run
    by (simp add: topologicalSortQueries_def index_queries_named [OF assms(1)] map_filter_simps)
  have mem: "q \<in> set (picked ?m ns) \<longleftrightarrow> mq_Mrn q \<in> set ns \<and> map_get ?m (mq_Mrn q) = Some q" for q ns
    unfolding picked_set using named_mapD [OF m] by blast
  have "distinct (map mq_Mrn (picked ?m ns))" if "distinct ns" for ns
    using that
  proof (induction ns)
    case (Cons n ns)
    show ?case
    proof (cases "map_get ?m n")
      case (Some q)
      then have "mq_Mrn q \<notin> mq_Mrn ` set (picked ?m ns)" using Cons.prems named_mapD [OF m Some] mem [of _ ns] by auto
      with Some Cons show ?thesis by (simp add: map_filter_simps)
    qed (use Cons in \<open>simp add: map_filter_simps\<close>)
  qed (simp add: map_filter_simps)
  then have dist: "distinct (map mq_Mrn ?res)" using out(1) by simp
  have all: "q \<in> set ?res \<longleftrightarrow> latest mq_Mrn (mq_Mrn q) (query_list qs) = Some q" for q
    unfolding mem index_get using out(3) by (auto dest: latest_in)
  have before: "p \<in> set us" if ok: "ensureNoCyclesInVariants k qs = Inr None" and res: "?res = us @ q # vs"
    and v: "v \<in> set (mq_Variants q)" and p: "latest mq_Mrn (or_Mrn v) (query_list qs) = Some p" for us q vs v p
  proof -
    have few': "length ?m < k"
    proof -
      have "length xs \<le> length (concat (map (\<lambda>q. mq_Mrn q # map or_Mrn (mq_Variants q)) xs))" for xs by (induction xs) auto
      then have "length (query_list qs) \<le> length (all_names qs)" unfolding all_names_def .
      then show ?thesis using assms(2) index_length [of qs] by simp
    qed
    from cycles_detected [OF m this] ok have "acyclic (variant_rel ?m)"
      by (simp add: ensureNoCyclesInVariants_def index_queries_named [OF assms(1)])
    then obtain f where "ranked_succs f (variants_of ?m) ?N" using acyclic_ranked sub by blast
    then have o: "succs_first (variants_of ?m) {} out" by (rule ord)
    have split: "\<exists>xs ys. ns = xs @ mq_Mrn q # ys \<and> picked ?m xs = us" if "picked ?m ns = us @ q # vs" for ns
      using that
    proof (induction ns arbitrary: us)
      case (Cons n ns)
      show ?case
      proof (cases "map_get ?m n")
        case None
        with Cons.prems have "picked ?m ns = us @ q # vs" by (simp add: map_filter_simps)
        from Cons.IH [OF this] obtain xs ys where "ns = xs @ mq_Mrn q # ys" "picked ?m xs = us" by blast
        with None show ?thesis by (intro exI [of _ "n # xs"] exI [of _ ys]) (simp add: map_filter_simps)
      next
        case (Some q')
        show ?thesis
        proof (cases us)
          case Nil
          with Some Cons.prems named_mapD [OF m Some] show ?thesis
            by (intro exI [of _ "[]"] exI [of _ ns]) (simp add: map_filter_simps)
        next
          case (Cons u us')
          with Some Cons.prems have "q' = u" "picked ?m ns = us' @ q # vs" by (simp_all add: map_filter_simps)
          from Cons.IH [OF this(2)] obtain xs ys where "ns = xs @ mq_Mrn q # ys" "picked ?m xs = us'" by blast
          with Some Cons \<open>q' = u\<close> show ?thesis by (intro exI [of _ "n # xs"] exI [of _ ys]) (simp add: map_filter_simps)
        qed
      qed
    qed (simp add: map_filter_simps)
    from split [OF res] obtain xs ys where xs: "out = xs @ mq_Mrn q # ys" "picked ?m xs = us" by blast
    have "q \<in> set ?res" using res by simp
    then have "map_get ?m (mq_Mrn q) = Some q" by (simp add: mem)
    then have "or_Mrn v \<in> set xs" using o v xs(1) by (auto simp: succs_first_append variants_of_def)
    moreover have "mq_Mrn p = or_Mrn v" using p by (auto dest: latest_in)
    ultimately show ?thesis using p mem [of p xs] unfolding xs(2) [symmetric] by (simp add: index_get)
  qed
  show ?thesis using sort dist all before by blast
qed

theorem queries_sorted_behind_variants_witness:
  "\<exists>res. topologicalSortQueries 4 [Some (variant_query ''a'' [''b'']), None, Some (variant_query ''b'' [])] = Inr res
    \<and> distinct (map mq_Mrn res) \<and> variant_query ''a'' [''b''] \<in> set res"
proof -
  let ?qs = "[Some (variant_query ''a'' [''b'']), None, Some (variant_query ''b'' [])]"
  have "list_all named_query (query_list ?qs)" by (simp add: named_query_def variant_query_def)
  moreover have "length (all_names ?qs) < 4" by (simp add: all_names_def variant_query_def)
  ultimately obtain res where res: "topologicalSortQueries 4 ?qs = Inr res" "distinct (map mq_Mrn res)"
    "\<And>q. q \<in> set res \<longleftrightarrow> latest mq_Mrn (mq_Mrn q) (query_list ?qs) = Some q"
    using queries_sorted_behind_variants [of ?qs 4] by blast
  have "variant_query ''a'' [''b''] \<in> set res" unfolding res(3) by (simp add: latest_def variant_query_def)
  with res(1,2) show ?thesis by blast
qed

subsection \<open>Combining bundles\<close>

lemma add_unique_None:
  "add_unique f what cs xs = (None, ys) \<Longrightarrow> ys = xs @ cs \<and> f ` set xs \<inter> f ` set cs = {} \<and> distinct (map f cs) \<and> '''' \<notin> f ` set cs"
proof (induction cs arbitrary: xs)
  case (Cons c cs)
  then have c: "f c \<noteq> ''''" "f c \<notin> f ` set xs" and r: "add_unique f what cs (xs @ [c]) = (None, ys)"
    by (auto simp: list_ex_iff split: if_splits)
  from Cons.IH [OF r] c show ?case by auto
qed simp



subsection \<open>Removing queries\<close>

text \<open>What is kept was not to be removed, and draws on nothing that was to be removed.\<close>

lemma filtered_queries_clean:
  assumes "q \<in> set (fst (FilterQueryMRNs F qs))"
  shows "mq_Mrn q \<notin> fst ` set F" and "F \<noteq> [] \<Longrightarrow> \<forall>v \<in> set (mq_Variants q). or_Mrn v \<notin> fst ` set F"
proof -
  have clean: "\<forall>q \<in> set (fst (filter_queries G qs)). mq_Mrn q \<notin> fst ` set F \<and> (\<forall>v \<in> set (mq_Variants q). or_Mrn v \<notin> fst ` set F)"
    if "fst ` set F \<subseteq> fst ` set G" for G
    using that
  proof (induction G qs rule: filter_queries.induct)
    case (2 G q qs)
    have "fst ` set F \<subseteq> fst ` set (map_put (mq_Mrn q) () G)" using "2.prems" by (auto simp only: keys_put)
    with 2 show ?case by (auto simp: Let_def)
  qed simp
  from assms show "mq_Mrn q \<notin> fst ` set F" using clean [of F] by (cases "F = []") (auto simp: FilterQueryMRNs_def)
  from assms show "F \<noteq> [] \<Longrightarrow> \<forall>v \<in> set (mq_Variants q). or_Mrn v \<notin> fst ` set F" using clean [of F] by (auto simp: FilterQueryMRNs_def)
qed

text \<open>
  But a query that loses its last variant is removed only from what follows: the result depends on the order of the list, and a
  query ahead of it keeps a variant that is gone.
\<close>

lemma filter_depends_on_order:
  "map mq_Mrn (fst (FilterQueryMRNs [(''c'', ())] [variant_query ''b'' [''c''], variant_query ''a'' [''b'']])) = []"
  "map mq_Mrn (fst (FilterQueryMRNs [(''c'', ())] [variant_query ''a'' [''b''], variant_query ''b'' [''c'']])) = [''a'']"
  by (simp_all add: FilterQueryMRNs_def variant_query_def)

end
