(* ===== verification/Frameworks.thy ===== *)
theory Frameworks
  imports Depth_First Resolver_Build
begin

text \<open>
  The report graph of compliance frameworks (\<open>policy/framework.go\<close>): which checks, queries, policies and controls report into
  which controls and frameworks, in both directions, and the order in which sources come before their targets.
\<close>

subsection \<open>The graph\<close>

datatype ResolvedFrameworkNodeType =
    NodeTypeFramework | NodeTypeControl | NodeTypePolicy | NodeTypeCheck | NodeTypeQuery

record ResolvedFrameworkNode =
  rn_Mrn :: string
  rn_Type :: ResolvedFrameworkNodeType

type_synonym ResolvedFrameworkReferenceSet = "(string, unit) gomap"

definition ReferenceSet_Add :: "string \<Rightarrow> ResolvedFrameworkReferenceSet \<Rightarrow> ResolvedFrameworkReferenceSet" where
  "ReferenceSet_Add mrn r = map_put mrn () r"

record ResolvedFramework =
  rw_Mrn :: string
  rw_GraphContentChecksum :: string
  rw_ReportTargets :: "(string, ResolvedFrameworkReferenceSet) gomap"
  rw_ReportSources :: "(string, ResolvedFrameworkReferenceSet) gomap"
  rw_Nodes :: "(string, ResolvedFrameworkNode) gomap"

text \<open>A set that is not there yet is made before it is extended.\<close>

definition reference_set :: "(string, ResolvedFrameworkReferenceSet) gomap \<Rightarrow> string \<Rightarrow> ResolvedFrameworkReferenceSet" where
  "reference_set m k = (case map_get m k of None \<Rightarrow> [] | Some s \<Rightarrow> s)"

definition addReportLink :: "ResolvedFramework \<Rightarrow> ResolvedFrameworkNode \<times> ResolvedFrameworkNode \<Rightarrow> ResolvedFramework" where
  "addReportLink r = (\<lambda>(parent, child). r\<lparr>
     rw_Nodes := map_put (rn_Mrn child) child (map_put (rn_Mrn parent) parent (rw_Nodes r)),
     rw_ReportTargets := map_put (rn_Mrn child)
       (ReferenceSet_Add (rn_Mrn parent) (reference_set (rw_ReportTargets r) (rn_Mrn child))) (rw_ReportTargets r),
     rw_ReportSources := map_put (rn_Mrn parent)
       (ReferenceSet_Add (rn_Mrn child) (reference_set (rw_ReportSources r) (rn_Mrn parent))) (rw_ReportSources r)\<rparr>)"

definition ResolvedFramework_addControl :: "ResolvedFramework \<Rightarrow> ControlMap \<Rightarrow> ResolvedFramework" where
  "ResolvedFramework_addControl r control =
     (let link = (\<lambda>t r mrn. addReportLink r (\<lparr>rn_Mrn = cm_Mrn control, rn_Type = NodeTypeControl\<rparr>, \<lparr>rn_Mrn = mrn, rn_Type = t\<rparr>));
          r = foldl (link NodeTypeCheck) r (cm_Checks control);
          r = foldl (link NodeTypePolicy) r (cm_Policies control);
          r = foldl (link NodeTypeControl) r (cm_Controls control)
      in foldl (link NodeTypeQuery) r (cm_Queries control))"

definition resolve_map :: "Framework \<Rightarrow> ResolvedFramework \<Rightarrow> FrameworkMap \<Rightarrow> ResolvedFramework" where
  "resolve_map fw r fmap = foldl (\<lambda>r ctl. ResolvedFramework_addControl (addReportLink r
     (\<lparr>rn_Mrn = fw_Mrn fw, rn_Type = NodeTypeFramework\<rparr>, \<lparr>rn_Mrn = cm_Mrn ctl, rn_Type = NodeTypeControl\<rparr>)) ctl) r (fm_Controls fmap)"

definition resolve_one :: "ResolvedFramework \<Rightarrow> Framework \<Rightarrow> ResolvedFramework" where
  "resolve_one r fw = foldl (\<lambda>r dep. addReportLink r
      (\<lparr>rn_Mrn = fw_Mrn fw, rn_Type = NodeTypeFramework\<rparr>, \<lparr>rn_Mrn = dep, rn_Type = NodeTypeFramework\<rparr>))
     (foldl (resolve_map fw) r (fw_FrameworkMaps fw)) (fw_Dependencies fw)"

definition ResolveFramework :: "string \<Rightarrow> (string, Framework) gomap \<Rightarrow> ResolvedFramework" where
  "ResolveFramework mrn frameworks = foldl (\<lambda>r (_, framework). resolve_one r framework)
     \<lparr>rw_Mrn = mrn, rw_GraphContentChecksum = '''', rw_ReportTargets = [], rw_ReportSources = [], rw_Nodes = []\<rparr> frameworks"

subsection \<open>The order\<close>

definition targets_of :: "ResolvedFramework \<Rightarrow> string \<Rightarrow> string list" where
  "targets_of r n = map fst (reference_set (rw_ReportTargets r) n)"

definition sources_of :: "ResolvedFramework \<Rightarrow> string \<Rightarrow> string list" where
  "sources_of r n = map fst (reference_set (rw_ReportSources r) n)"

fun visit :: "nat \<Rightarrow> ResolvedFramework \<Rightarrow> string \<Rightarrow> (string, unit) gomap \<times> string list \<Rightarrow> ((string, unit) gomap \<times> string list) go"
and visit_children :: "nat \<Rightarrow> ResolvedFramework \<Rightarrow> string list \<Rightarrow> (string, unit) gomap \<times> string list \<Rightarrow> ((string, unit) gomap \<times> string list) go" where
  "visit 0 r node s = Inl StackOverflow"
| "visit (Suc k) r node (visited, out) =
     (if has_key visited node then Inr (visited, out)
      else go_bind (visit_children k r (targets_of r node) (map_put node () visited, out)) (\<lambda>(visited, out).
        Inr (visited, out @ [node])))"
| "visit_children k r [] s = Inr s"
| "visit_children k r (child # children) s = go_bind (visit k r child s) (visit_children k r children)"

definition TopologicalSort :: "nat \<Rightarrow> ResolvedFramework \<Rightarrow> string list go" where
  "TopologicalSort k r = go_bind (visit_children k r (sorted_keys (rw_Nodes r)) ([], [])) (\<lambda>(visited, out). Inr (rev out))"

subsection \<open>The links of a framework\<close>

text \<open>What the graph is made of: pairs of a parent and a child, in the order they are entered.\<close>

definition control_links :: "ControlMap \<Rightarrow> (ResolvedFrameworkNode \<times> ResolvedFrameworkNode) list" where
  "control_links c = concat (map (\<lambda>(t, ms). map (\<lambda>m. (\<lparr>rn_Mrn = cm_Mrn c, rn_Type = NodeTypeControl\<rparr>, \<lparr>rn_Mrn = m, rn_Type = t\<rparr>)) ms)
     [(NodeTypeCheck, cm_Checks c), (NodeTypePolicy, cm_Policies c), (NodeTypeControl, cm_Controls c), (NodeTypeQuery, cm_Queries c)])"

definition framework_links :: "Framework \<Rightarrow> (ResolvedFrameworkNode \<times> ResolvedFrameworkNode) list" where
  "framework_links fw =
     (let node = \<lparr>rn_Mrn = fw_Mrn fw, rn_Type = NodeTypeFramework\<rparr> in
      concat (map (\<lambda>m. concat (map (\<lambda>c. (node, \<lparr>rn_Mrn = cm_Mrn c, rn_Type = NodeTypeControl\<rparr>) # control_links c) (fm_Controls m)))
        (fw_FrameworkMaps fw))
      @ map (\<lambda>d. (node, \<lparr>rn_Mrn = d, rn_Type = NodeTypeFramework\<rparr>)) (fw_Dependencies fw))"

definition report_links :: "(string, Framework) gomap \<Rightarrow> (ResolvedFrameworkNode \<times> ResolvedFrameworkNode) list" where
  "report_links fs = concat (map (framework_links \<circ> snd) fs)"

lemma foldl_concat_map: "foldl f s (concat (map g xs)) = foldl (\<lambda>s x. foldl f s (g x)) s xs"
  by (induction xs arbitrary: s) simp_all

lemma foldl_map_fun: "foldl f s (map g xs) = foldl (\<lambda>s x. f s (g x)) s xs"
  by (induction xs arbitrary: s) simp_all

lemma addControl_links: "ResolvedFramework_addControl r c = foldl addReportLink r (control_links c)"
  by (simp add: ResolvedFramework_addControl_def control_links_def Let_def foldl_map_fun)

lemma resolve_one_links: "resolve_one r fw = foldl addReportLink r (framework_links fw)"
  by (simp add: resolve_one_def resolve_map_def [abs_def] framework_links_def Let_def addControl_links foldl_map_fun foldl_concat_map)

lemma resolve_links: "ResolveFramework mrn fs = foldl addReportLink
    \<lparr>rw_Mrn = mrn, rw_GraphContentChecksum = '''', rw_ReportTargets = [], rw_ReportSources = [], rw_Nodes = []\<rparr> (report_links fs)"
  unfolding ResolveFramework_def report_links_def foldl_concat_map by (simp add: resolve_one_links case_prod_unfold comp_def)

lemma reference_set_put: "reference_set (map_put k s m) k' = (if k' = k then s else reference_set m k')"
  by (simp add: reference_set_def)

lemma link_adds:
  "set (targets_of (addReportLink r (p, x)) c) = (if c = rn_Mrn x then insert (rn_Mrn p) (set (targets_of r c)) else set (targets_of r c))"
  "set (sources_of (addReportLink r (p, x)) q) = (if q = rn_Mrn p then insert (rn_Mrn x) (set (sources_of r q)) else set (sources_of r q))"
  "fst ` set (rw_Nodes (addReportLink r (p, x))) = insert (rn_Mrn x) (insert (rn_Mrn p) (fst ` set (rw_Nodes r)))"
  "map_ok (rw_Nodes r) \<Longrightarrow> map_ok (rw_Nodes (addReportLink r (p, x)))"
  by (simp_all add: addReportLink_def targets_of_def sources_of_def reference_set_put ReferenceSet_Add_def keys_put)

lemma links_of_fold:
  "a \<in> set (targets_of (foldl addReportLink r ls) c) \<longleftrightarrow> a \<in> set (targets_of r c) \<or> (\<exists>p x. (p, x) \<in> set ls \<and> rn_Mrn p = a \<and> rn_Mrn x = c)"
  "a \<in> set (sources_of (foldl addReportLink r ls) c) \<longleftrightarrow> a \<in> set (sources_of r c) \<or> (\<exists>p x. (p, x) \<in> set ls \<and> rn_Mrn p = c \<and> rn_Mrn x = a)"
proof (induction ls arbitrary: r)
  case (Cons l ls)
  obtain p x where l: "l = (p, x)" by fastforce
  case 1
  show ?case unfolding foldl.simps Cons.IH l link_adds(1) by (cases "c = rn_Mrn x"; simp; blast)
  case 2
  show ?case unfolding foldl.simps Cons.IH l link_adds(2) by (cases "c = rn_Mrn p"; simp; blast)
qed simp_all

lemma nodes_of_fold:
  "fst ` set (rw_Nodes (foldl addReportLink r ls)) = fst ` set (rw_Nodes r) \<union> {n. \<exists>p x. (p, x) \<in> set ls \<and> (rn_Mrn p = n \<or> rn_Mrn x = n)}"
proof (induction ls arbitrary: r)
  case (Cons l ls)
  obtain p x where l: "l = (p, x)" by fastforce
  obtain N where N: "N = fst ` set (rw_Nodes r)" by simp
  show ?case unfolding foldl.simps Cons.IH l link_adds(3) N [symmetric] by auto
qed simp

lemma links_of:
  assumes "r = ResolveFramework mrn fs"
  shows "a \<in> set (targets_of r c) \<longleftrightarrow> (\<exists>p x. (p, x) \<in> set (report_links fs) \<and> rn_Mrn p = a \<and> rn_Mrn x = c)"
    and "a \<in> set (sources_of r c) \<longleftrightarrow> (\<exists>p x. (p, x) \<in> set (report_links fs) \<and> rn_Mrn p = c \<and> rn_Mrn x = a)"
    and "fst ` set (rw_Nodes r) = {n. \<exists>p x. (p, x) \<in> set (report_links fs) \<and> (rn_Mrn p = n \<or> rn_Mrn x = n)}"
  unfolding assms resolve_links links_of_fold nodes_of_fold by (simp_all add: targets_of_def sources_of_def reference_set_def)

text \<open>C34: the report graph has exactly the links that the frameworks name: what a control, a policy, a check or a query
  reports into and what it draws from are the two directions of the same links, and both ends of a link are nodes.\<close>

theorem report_graph_two_ways:
  "(a \<in> set (targets_of (ResolveFramework mrn fs) b) \<longleftrightarrow> b \<in> set (sources_of (ResolveFramework mrn fs) a))
   \<and> (a \<in> set (targets_of (ResolveFramework mrn fs) b) \<longleftrightarrow> (\<exists>p c. (p, c) \<in> set (report_links fs) \<and> rn_Mrn p = a \<and> rn_Mrn c = b))
   \<and> (n \<in> fst ` set (rw_Nodes (ResolveFramework mrn fs)) \<longleftrightarrow>
      (\<exists>m. m \<in> set (targets_of (ResolveFramework mrn fs) n) \<or> m \<in> set (sources_of (ResolveFramework mrn fs) n)))"
proof -
  note l = links_of [OF refl]
  have "n \<in> fst ` set (rw_Nodes (ResolveFramework mrn fs)) \<longleftrightarrow>
      (\<exists>m. m \<in> set (targets_of (ResolveFramework mrn fs) n) \<or> m \<in> set (sources_of (ResolveFramework mrn fs) n))"
    unfolding l(1,2) links_of(3) [OF refl] by blast
  then show ?thesis using l(1,2) by simp
qed

subsection \<open>The order of the report graph\<close>

lemma visit_is_dfs:
  "visit k r n s = dfs k (targets_of r) n s" "visit_children k r ns s = dfs_all k (targets_of r) ns s"
  by (induction k r n s and k r ns s rule: visit_visit_children.induct) (auto simp: fun_eq_iff intro!: arg_cong2 [where f = go_bind])

text \<open>C35: with a stack deeper than the number of nodes, the report graph of any frameworks is listed, every node of it once; if
  no node reports into itself through others, every node is ahead of all that it reports into.\<close>

theorem report_graph_sorted:
  assumes "r = ResolveFramework mrn fs" and "length (rw_Nodes r) < k"
  shows "\<exists>out. TopologicalSort k r = Inr out \<and> distinct out \<and> set out = fst ` set (rw_Nodes r)
    \<and> ((\<exists>f. ranked_succs f (targets_of r) (fst ` set (rw_Nodes r))) \<longrightarrow>
         (\<forall>us n vs. out = us @ n # vs \<longrightarrow> set (targets_of r n) \<subseteq> set vs))"
proof -
  let ?N = "fst ` set (rw_Nodes r)"
  have "set (targets_of r n) \<subseteq> ?N" for n
    unfolding subset_iff links_of(1) [OF assms(1)] links_of(3) [OF assms(1)] by blast
  then have closed: "dfs_closed (targets_of r) ?N" by (simp add: dfs_closed_def)
  have keys: "set (sorted_keys (rw_Nodes r)) = ?N" by (simp add: sorted_keys_def)
  have few: "card ?N < k" using assms(2) card_length [of "map fst (rw_Nodes r)"] by simp
  obtain out seen where run: "dfs_all k (targets_of r) (sorted_keys (rw_Nodes r)) ([], []) = Inr (seen, out)"
    and out: "distinct out" "set out \<subseteq> ?N" "?N \<subseteq> set out" and ord: "\<And>f. ranked_succs f (targets_of r) ?N \<Longrightarrow> succs_first (targets_of r) {} out"
    by (rule dfs_from_list [OF closed eq_refl [OF keys] few]) (simp only: keys)
  have "\<forall>us n vs. rev out = us @ n # vs \<longrightarrow> set (targets_of r n) \<subseteq> set vs" if ranked: "\<exists>f. ranked_succs f (targets_of r) ?N"
  proof (intro allI impI)
    fix us n vs assume e: "rev out = us @ n # vs"
    have "rev (rev out) = rev (us @ n # vs)" by (rule arg_cong [OF e])
    then have "out = rev vs @ n # rev us" by (simp only: rev_rev_ident rev_append rev.simps append_assoc append.simps)
    with ranked ord show "set (targets_of r n) \<subseteq> set vs" by (fastforce simp: succs_first_append)
  qed
  with run out show ?thesis by (intro exI [of _ "rev out"]) (simp add: TopologicalSort_def visit_is_dfs)
qed

text \<open>A check that reports into a control of a framework.\<close>

definition small_framework :: Framework where
  "small_framework = \<lparr>fw_Mrn = ''//f'', fw_Groups = [], fw_Dependencies = [], fw_GraphExecutionChecksum = '''',
     fw_FrameworkMaps = [\<lparr>fm_FrameworkOwner = None, fm_Controls = [\<lparr>cm_Mrn = ''//c'', cm_Checks = [''//q''], cm_Policies = [],
       cm_Controls = [], cm_Queries = []\<rparr>]\<rparr>]\<rparr>"

theorem report_graph_sorted_witness:
  "\<exists>out. TopologicalSort 4 (ResolveFramework ''//f'' [(''//f'', small_framework)]) = Inr out
    \<and> (\<forall>us n vs. out = us @ n # vs \<longrightarrow> set (targets_of (ResolveFramework ''//f'' [(''//f'', small_framework)]) n) \<subseteq> set vs)"
proof -
  let ?r = "ResolveFramework ''//f'' [(''//f'', small_framework)]"
  have r: "?r = \<lparr>rw_Mrn = ''//f'', rw_GraphContentChecksum = '''', rw_ReportTargets = [(''//c'', [(''//f'', ())]), (''//q'', [(''//c'', ())])],
     rw_ReportSources = [(''//f'', [(''//c'', ())]), (''//c'', [(''//q'', ())])],
     rw_Nodes = [(''//f'', \<lparr>rn_Mrn = ''//f'', rn_Type = NodeTypeFramework\<rparr>), (''//c'', \<lparr>rn_Mrn = ''//c'', rn_Type = NodeTypeControl\<rparr>),
       (''//q'', \<lparr>rn_Mrn = ''//q'', rn_Type = NodeTypeCheck\<rparr>)]\<rparr>"
    by code_simp
  have "length (rw_Nodes ?r) < 4" by (simp add: r)
  moreover have "ranked_succs (\<lambda>n. if n = ''//f'' then 0 else if n = ''//c'' then 1 else 2) (targets_of ?r) (fst ` set (rw_Nodes ?r))"
    by (simp add: r ranked_succs_def targets_of_def reference_set_def)
  ultimately show ?thesis using report_graph_sorted [OF refl] by blast
qed

end
