(* ===== verification/Reports.thy ===== *)
theory Reports
  imports Policy_Types
begin

text \<open>
  The statistics of a report (\<open>policy/report.go\<close>): how many scores of which rating there are, and the worst of a collection.
  Counts are 32-bit words. The nested distributions of \<open>Stats\<close> are never nil in \<open>ComputeStats\<close>, which allocates them.
\<close>

record ScoreDistribution =
  sd_Total :: u32
  sd_A :: u32
  sd_B :: u32
  sd_C :: u32
  sd_D :: u32
  sd_F :: u32
  sd_Error :: u32
  sd_Unrated :: u32

definition emptyDistribution :: ScoreDistribution where
  "emptyDistribution = \<lparr>sd_Total = 0, sd_A = 0, sd_B = 0, sd_C = 0, sd_D = 0, sd_F = 0, sd_Error = 0, sd_Unrated = 0\<rparr>"

definition AddRatingCount :: "ScoreRating \<Rightarrow> u32 \<Rightarrow> ScoreDistribution \<Rightarrow> ScoreDistribution" where
  "AddRatingCount scoreRating cnt sd =
     (let sd = sd\<lparr>sd_Total := sd_Total sd + cnt\<rparr> in
      if scoreRating \<in> {SR_aPlus, SR_a, SR_aMinus} then sd\<lparr>sd_A := sd_A sd + cnt\<rparr>
      else if scoreRating \<in> {SR_bPlus, SR_b, SR_bMinus} then sd\<lparr>sd_B := sd_B sd + cnt\<rparr>
      else if scoreRating \<in> {SR_cPlus, SR_c, SR_cMinus} then sd\<lparr>sd_C := sd_C sd + cnt\<rparr>
      else if scoreRating \<in> {SR_dPlus, SR_d, SR_dMinus} then sd\<lparr>sd_D := sd_D sd + cnt\<rparr>
      else if scoreRating = SR_failed then sd\<lparr>sd_F := sd_F sd + cnt\<rparr>
      else if scoreRating = SR_error then sd\<lparr>sd_Error := sd_Error sd + cnt\<rparr>
      else if scoreRating = SR_unrated then sd\<lparr>sd_Unrated := sd_Unrated sd + cnt\<rparr>
      else sd)"

definition AddRating :: "ScoreRating \<Rightarrow> ScoreDistribution \<Rightarrow> ScoreDistribution" where
  "AddRating scoreRating = AddRatingCount scoreRating 1"

definition Distribution_AddCount :: "Score option \<Rightarrow> u32 \<Rightarrow> ScoreDistribution \<Rightarrow> ScoreDistribution" where
  "Distribution_AddCount score cnt = AddRatingCount (Rating score) cnt"

definition Distribution_Add :: "Score option \<Rightarrow> ScoreDistribution \<Rightarrow> ScoreDistribution" where
  "Distribution_Add score = Distribution_AddCount score 1"

definition RemoveRating :: "ScoreRating \<Rightarrow> ScoreDistribution \<Rightarrow> ScoreDistribution" where
  "RemoveRating scoreRating sd =
     (let sd = sd\<lparr>sd_Total := sd_Total sd - 1\<rparr> in
      if scoreRating \<in> {SR_aPlus, SR_a, SR_aMinus} then sd\<lparr>sd_A := sd_A sd - 1\<rparr>
      else if scoreRating \<in> {SR_bPlus, SR_b, SR_bMinus} then sd\<lparr>sd_B := sd_B sd - 1\<rparr>
      else if scoreRating \<in> {SR_cPlus, SR_c, SR_cMinus} then sd\<lparr>sd_C := sd_C sd - 1\<rparr>
      else if scoreRating \<in> {SR_dPlus, SR_d, SR_dMinus} then sd\<lparr>sd_D := sd_D sd - 1\<rparr>
      else if scoreRating = SR_failed then sd\<lparr>sd_F := sd_F sd - 1\<rparr>
      else if scoreRating = SR_error then sd\<lparr>sd_Error := sd_Error sd - 1\<rparr>
      else if scoreRating = SR_unrated then sd\<lparr>sd_Unrated := sd_Unrated sd - 1\<rparr>
      else sd)"

definition Distribution_Remove :: "Score option \<Rightarrow> ScoreDistribution \<Rightarrow> ScoreDistribution" where
  "Distribution_Remove score = RemoveRating (Rating score)"

text \<open>The getters of a nil message return zero.\<close>

definition AddScoreDistribution :: "ScoreDistribution option \<Rightarrow> ScoreDistribution option \<Rightarrow> ScoreDistribution" where
  "AddScoreDistribution x y =
     (let x = (case x of None \<Rightarrow> emptyDistribution | Some x \<Rightarrow> x); y = (case y of None \<Rightarrow> emptyDistribution | Some y \<Rightarrow> y) in
      \<lparr>sd_Total = sd_Total x + sd_Total y, sd_A = sd_A x + sd_A y, sd_B = sd_B x + sd_B y, sd_C = sd_C x + sd_C y,
       sd_D = sd_D x + sd_D y, sd_F = sd_F x + sd_F y, sd_Error = sd_Error x + sd_Error y, sd_Unrated = sd_Unrated x + sd_Unrated y\<rparr>)"

record ReportStats =
  st_Total :: u32
  st_Unknown :: u32
  st_Skipped :: u32
  st_Worst :: u32
  st_Failed :: ScoreDistribution
  st_Passed :: ScoreDistribution
  st_Errors :: ScoreDistribution

definition Stats_AddCount :: "Score \<Rightarrow> u32 \<Rightarrow> ReportStats \<Rightarrow> ReportStats" where
  "Stats_AddCount score cnt s =
     (let s = s\<lparr>st_Total := st_Total s + cnt\<rparr> in
      if sc_Type score = ScoreType_Unknown then s\<lparr>st_Unknown := st_Unknown s + cnt\<rparr>
      else if sc_Type score = ScoreType_Result then
        (if sc_Value score < 100 then
           (let s = s\<lparr>st_Failed := Distribution_AddCount (Some score) cnt (st_Failed s)\<rparr> in
            if sc_Value score < st_Worst s then s\<lparr>st_Worst := sc_Value score\<rparr> else s)
         else s\<lparr>st_Passed := Distribution_AddCount (Some score) cnt (st_Passed s)\<rparr>)
      else if sc_Type score = ScoreType_Error then s\<lparr>st_Errors := Distribution_AddCount (Some score) cnt (st_Errors s)\<rparr>
      else if sc_Type score = ScoreType_Skip then s\<lparr>st_Skipped := st_Skipped s + cnt\<rparr>
      else if sc_Type score = ScoreType_Unscored then s\<lparr>st_Unknown := st_Unknown s + cnt\<rparr>
      else s)"

definition Stats_Add :: "Score \<Rightarrow> ReportStats \<Rightarrow> ReportStats" where
  "Stats_Add score = Stats_AddCount score 1"

definition ComputeStats :: "ResolvedPolicy \<Rightarrow> (string, Score) gomap \<Rightarrow> ReportStats" where
  "ComputeStats resolved scores = foldl (\<lambda>res (i, score).
       if has_key (cj_ReportingQueries (rpo_CollectorJob resolved)) i then Stats_Add score res else res)
     \<lparr>st_Total = 0, st_Unknown = 0, st_Skipped = 0, st_Worst = 0, st_Failed = emptyDistribution, st_Passed = emptyDistribution,
      st_Errors = emptyDistribution\<rparr> scores"

text \<open>A report of a collection and its score may both be nil.\<close>

definition GetWorstScore :: "(string, Score option option) gomap \<Rightarrow> u32" where
  "GetWorstScore reports = foldl (\<lambda>worstScore (_, r). case r of Some (Some s) \<Rightarrow>
     if sc_Value s < worstScore then sc_Value s else worstScore | _ \<Rightarrow> worstScore) 100 reports"

subsection \<open>Counting\<close>

lemma distribution_eqI:
  "sd_Total x = sd_Total y \<Longrightarrow> sd_A x = sd_A y \<Longrightarrow> sd_B x = sd_B y \<Longrightarrow> sd_C x = sd_C y \<Longrightarrow> sd_D x = sd_D y \<Longrightarrow> sd_F x = sd_F y
    \<Longrightarrow> sd_Error x = sd_Error y \<Longrightarrow> sd_Unrated x = sd_Unrated y \<Longrightarrow> x = (y :: ScoreDistribution)"
  by simp

definition distribution_of :: "Score option list \<Rightarrow> ScoreDistribution" where
  "distribution_of ss = foldl (\<lambda>sd s. Distribution_Add s sd) emptyDistribution ss"

definition rated :: "ScoreRating set \<Rightarrow> Score option list \<Rightarrow> u32" where
  "rated R ss = of_nat (length (filter (\<lambda>s. Rating s \<in> R) ss))"

lemma rated_simps: "rated R [] = 0" "rated R (ss @ [s]) = rated R ss + (if Rating s \<in> R then 1 else 0)"
  by (simp_all add: rated_def)

lemma distribution_fields:
  "distribution_of ss = \<lparr>sd_Total = of_nat (length ss), sd_A = rated {SR_aPlus, SR_a, SR_aMinus} ss,
     sd_B = rated {SR_bPlus, SR_b, SR_bMinus} ss, sd_C = rated {SR_cPlus, SR_c, SR_cMinus} ss,
     sd_D = rated {SR_dPlus, SR_d, SR_dMinus} ss, sd_F = rated {SR_failed} ss, sd_Error = rated {SR_error} ss,
     sd_Unrated = rated {SR_unrated} ss\<rparr>"
proof (induction ss rule: rev_induct)
  case (snoc s ss)
  have "distribution_of (ss @ [s]) = Distribution_Add s (distribution_of ss)" by (simp add: distribution_of_def)
  then show ?case unfolding snoc
    by (cases "Rating s") (simp_all add: Distribution_Add_def Distribution_AddCount_def AddRatingCount_def rated_simps add.commute)
qed (simp add: distribution_of_def emptyDistribution_def rated_simps)

text \<open>Taking a rating out undoes putting it in, and the other way round; and a distribution of all scores is the sum of the
  distributions of any two parts.\<close>

theorem distribution_adds_and_removes:
  "RemoveRating r (AddRating r sd) = sd \<and> AddRating r (RemoveRating r sd) = sd
   \<and> AddScoreDistribution (Some (distribution_of xs)) (Some (distribution_of ys)) = distribution_of (xs @ ys)"
proof -
  have "RemoveRating r (AddRating r sd) = sd \<and> AddRating r (RemoveRating r sd) = sd"
    by (cases r) (simp_all add: RemoveRating_def AddRating_def AddRatingCount_def)
  moreover have "rated R xs + rated R ys = rated R (xs @ ys)" for R by (simp add: rated_def)
  ultimately show ?thesis by (simp add: distribution_fields AddScoreDistribution_def)
qed

definition of_type :: "u32 \<Rightarrow> Score list \<Rightarrow> Score list" where
  "of_type t ss = filter (\<lambda>s. sc_Type s = t) ss"

definition stats_of :: "Score list \<Rightarrow> ReportStats" where
  "stats_of ss =
     \<lparr>st_Total = of_nat (length ss), st_Unknown = of_nat (length (of_type ScoreType_Unknown ss) + length (of_type ScoreType_Unscored ss)),
      st_Skipped = of_nat (length (of_type ScoreType_Skip ss)), st_Worst = 0,
      st_Failed = distribution_of (map Some (filter (\<lambda>s. sc_Value s < 100) (of_type ScoreType_Result ss))),
      st_Passed = distribution_of (map Some (filter (\<lambda>s. \<not> sc_Value s < 100) (of_type ScoreType_Result ss))),
      st_Errors = distribution_of (map Some (of_type ScoreType_Error ss))\<rparr>"

lemma distribution_snoc: "distribution_of (ss @ [s]) = Distribution_AddCount s 1 (distribution_of ss)"
  by (simp add: distribution_of_def Distribution_Add_def)

lemma of_type_snoc: "of_type t (ss @ [s]) = (if sc_Type s = t then of_type t ss @ [s] else of_type t ss)"
  by (simp add: of_type_def)

lemma score_types_distinct:
  "ScoreType_Result \<noteq> ScoreType_Unknown" "ScoreType_Error \<noteq> ScoreType_Unknown" "ScoreType_Skip \<noteq> ScoreType_Unknown"
  "ScoreType_Unscored \<noteq> ScoreType_Unknown" "ScoreType_Error \<noteq> ScoreType_Result" "ScoreType_Skip \<noteq> ScoreType_Result"
  "ScoreType_Unscored \<noteq> ScoreType_Result" "ScoreType_Skip \<noteq> ScoreType_Error" "ScoreType_Unscored \<noteq> ScoreType_Error"
  "ScoreType_Unscored \<noteq> ScoreType_Skip"
  by simp_all

lemma stats_snoc: "stats_of (ss @ [s]) = Stats_Add s (stats_of ss)"
proof -
  consider "sc_Type s = ScoreType_Unknown" | "sc_Type s = ScoreType_Result" | "sc_Type s = ScoreType_Error"
    | "sc_Type s = ScoreType_Skip" | "sc_Type s = ScoreType_Unscored"
    | "sc_Type s \<notin> {ScoreType_Unknown, ScoreType_Result, ScoreType_Error, ScoreType_Skip, ScoreType_Unscored}"
    by blast
  then show ?thesis
    by cases (simp_all add: stats_of_def Stats_Add_def Stats_AddCount_def of_type_snoc distribution_snoc Let_def
        score_types_distinct score_types_distinct [symmetric])
qed

lemma stats_fold: "foldl (\<lambda>res s. Stats_Add s res) (stats_of ss) ss' = stats_of (ss @ ss')"
proof (induction ss' arbitrary: ss)
  case (Cons s ss')
  show ?case using Cons.IH [of "ss @ [s]"] by (simp add: stats_snoc)
qed simp

lemma fold_reporting:
  "foldl (\<lambda>res (i, score). if P i then f score res else res) z m = foldl (\<lambda>res s. f s res) z (map snd (filter (\<lambda>(i, s). P i) m))"
  by (induction m arbitrary: z) auto


end
