(* ===== verification/Migrations.thy ===== *)
theory Migrations
  imports Prelude
begin

text \<open>
  The migrations of a bundle (\<open>policy/bundle_migrations.go\<close>) and the lint rules that check them
  (\<open>internal/bundle/lint_rules_bundle_migrations.go\<close>). A migration consumes the UID of its source and produces the UID of its
  target. Of a source and a target only the UID matters. Errors are values, their texts are left out.
\<close>

subsection \<open>Migrations\<close>

datatype Migration_Action = MIGRATION_UNSPECIFIED | CREATE | REMOVE | MIGRATION_MODIFY | unknown_action int

record Migration =
  mi_Source :: "string option"
  mi_Target :: "string option"
  mi_Action :: Migration_Action

record MigrationStage =
  ms_Title :: string
  ms_QueryMigrations :: "Migration list"

record MigrationPolicyRef =
  mp_Uid :: string
  mp_Version :: string

record MigrationConditions =
  mc_SourcePolicy :: "MigrationPolicyRef option"
  mc_TargetPolicy :: "MigrationPolicyRef option"

record MigrationGroup =
  mg_Title :: string
  mg_Conditions :: "MigrationConditions option"
  mg_Stages :: "MigrationStage list"

record StageSummary =
  ss_Index :: nat
  ss_Title :: string
  ss_Consumes :: "(string, Migration) gomap"
  ss_Produces :: "(string, Migration) gomap"
  ss_Renames :: "(string, string) gomap"
  ss_Deletes :: "(string, bool) gomap"
  ss_Creates :: "(string, bool) gomap"

text \<open>The errors: UIDs first, then the title of the stage or the group.\<close>

datatype migration_error =
    ConsumedTwice string string | ProducedTwice string string | ConsumedAndProduced string string
  | MissingSource Migration_Action | MissingSourceUid Migration_Action
  | MissingTarget Migration_Action | MissingTargetUid Migration_Action
  | UnknownAction Migration_Action
  | ProducedInVain string string
  | NoConditions string | NoSourcePolicy string | NoSourceUid string | NoSourceVersion string
  | NoTargetPolicy string | NoTargetVersion string

definition uid_of :: "string option \<Rightarrow> string" where
  "uid_of x = (case x of None \<Rightarrow> '''' | Some uid \<Rightarrow> uid)"

definition consume :: "string \<Rightarrow> Migration \<Rightarrow> StageSummary \<times> migration_error list \<Rightarrow> StageSummary \<times> migration_error list" where
  "consume src m = (\<lambda>(s, errs).
     (s\<lparr>ss_Consumes := map_put src m (ss_Consumes s)\<rparr>,
      if has_key (ss_Consumes s) src then errs @ [ConsumedTwice src (ss_Title s)] else errs))"

definition produce :: "string \<Rightarrow> Migration \<Rightarrow> StageSummary \<times> migration_error list \<Rightarrow> StageSummary \<times> migration_error list" where
  "produce dst m = (\<lambda>(s, errs).
     (s\<lparr>ss_Produces := map_put dst m (ss_Produces s)\<rparr>,
      if has_key (ss_Produces s) dst then errs @ [ProducedTwice dst (ss_Title s)] else errs))"

definition summarize :: "StageSummary \<times> migration_error list \<Rightarrow> Migration \<Rightarrow> StageSummary \<times> migration_error list" where
  "summarize r m =
     (let src = uid_of (mi_Source m); dst = uid_of (mi_Target m) in
      case mi_Action m of
        MIGRATION_MODIFY \<Rightarrow> map_prod (\<lambda>s. s\<lparr>ss_Renames := map_put src dst (ss_Renames s)\<rparr>) (\<lambda>e. e) (produce dst m (consume src m r))
      | REMOVE \<Rightarrow> map_prod (\<lambda>s. s\<lparr>ss_Deletes := map_put src True (ss_Deletes s)\<rparr>) (\<lambda>e. e) (consume src m r)
      | CREATE \<Rightarrow> map_prod (\<lambda>s. s\<lparr>ss_Creates := map_put dst True (ss_Creates s)\<rparr>) (\<lambda>e. e) (produce dst m r)
      | _ \<Rightarrow> r)"

definition SummarizeStage :: "MigrationStage \<Rightarrow> nat \<Rightarrow> StageSummary \<times> migration_error list" where
  "SummarizeStage stage index = foldl summarize
     (\<lparr>ss_Index = index, ss_Title = ms_Title stage, ss_Consumes = [], ss_Produces = [], ss_Renames = [], ss_Deletes = [], ss_Creates = []\<rparr>, [])
     (ms_QueryMigrations stage)"

definition LintStageConsumeProduce :: "StageSummary \<Rightarrow> migration_error list" where
  "LintStageConsumeProduce s =
     map (\<lambda>(uid, m). ConsumedAndProduced uid (ss_Title s)) (filter (\<lambda>(uid, m). has_key (ss_Produces s) uid) (ss_Consumes s))"

definition Validate :: "Migration \<Rightarrow> migration_error list" where
  "Validate m = (case mi_Action m of
     REMOVE \<Rightarrow> (case mi_Source m of None \<Rightarrow> [MissingSource REMOVE] | Some uid \<Rightarrow> if uid = '''' then [MissingSourceUid REMOVE] else [])
   | MIGRATION_MODIFY \<Rightarrow> (case (mi_Source m, mi_Target m) of
       (Some src, Some dst) \<Rightarrow> if src = '''' \<or> dst = '''' then [MissingSourceUid MIGRATION_MODIFY] else []
     | _ \<Rightarrow> [MissingSource MIGRATION_MODIFY])
   | CREATE \<Rightarrow> (case mi_Target m of None \<Rightarrow> [MissingTarget CREATE] | Some uid \<Rightarrow> if uid = '''' then [MissingTargetUid CREATE] else [])
   | a \<Rightarrow> [UnknownAction a])"

text \<open>The stages are walked from the last to the first; the UIDs that later stages consume are collected anew for each. (What they
  produce is collected as well, but not looked at.)\<close>

definition later_consumes :: "StageSummary list \<Rightarrow> nat \<Rightarrow> (string, bool) gomap" where
  "later_consumes stages i = foldl (\<lambda>m (uid, x). map_put uid True m) [] (concat (map ss_Consumes (drop (Suc i) stages)))"

definition LintCrossMigrationStage :: "StageSummary list \<Rightarrow> (string, bool) gomap \<Rightarrow> migration_error list" where
  "LintCrossMigrationStage stages final = concat (map (\<lambda>i.
       map (\<lambda>(uid, m). ProducedInVain uid (ss_Title (stages ! i)))
         (filter (\<lambda>(uid, m). map_get final uid \<noteq> Some True \<and> map_get (later_consumes stages i) uid \<noteq> Some True) (ss_Produces (stages ! i))))
     (rev [0..<length stages]))"

definition LintMigrationGroupConditions :: "MigrationGroup \<Rightarrow> migration_error list" where
  "LintMigrationGroupConditions g = (case mg_Conditions g of
     None \<Rightarrow> [NoConditions (mg_Title g)]
   | Some c \<Rightarrow>
       (case mc_SourcePolicy c of None \<Rightarrow> [NoSourcePolicy (mg_Title g)]
        | Some p \<Rightarrow> (if mp_Uid p = '''' then [NoSourceUid (mg_Title g)] else []) @ (if mp_Version p = '''' then [NoSourceVersion (mg_Title g)] else []))
       @ (case mc_TargetPolicy c of None \<Rightarrow> [NoTargetPolicy (mg_Title g)]
        | Some p \<Rightarrow> if mp_Version p = '''' then [NoTargetVersion (mg_Title g)] else []))"

subsection \<open>The lint rules\<close>

text \<open>Bundles as they are read from a file, with the places of their parts. An entry has its rule, its error and its place; they all
  have the level of an error.\<close>

record FileContext =
  fc_Line :: int
  fc_Column :: int

record YacMigration = Migration +
  ym_FileContext :: FileContext

record YacMigrationStage =
  ys_Title :: string
  ys_QueryMigrations :: "YacMigration list"
  ys_FileContext :: FileContext

record YacMigrationGroup =
  yg_Title :: string
  yg_Conditions :: "MigrationConditions option"
  yg_Stages :: "YacMigrationStage list"
  yg_FileContext :: FileContext

record YacBundle =
  yb_Queries :: "string list"
  yb_Policies :: "MigrationPolicyRef list"
  yb_MigrationGroups :: "YacMigrationGroup list"

datatype lint_entry = Entry string migration_error FileContext

definition yacMigration2ProtoMigration :: "YacMigration \<Rightarrow> Migration" where
  "yacMigration2ProtoMigration m = \<lparr>mi_Source = mi_Source m, mi_Target = mi_Target m, mi_Action = mi_Action m\<rparr>"

definition yacStage2ProtoStage :: "YacMigrationStage \<Rightarrow> MigrationStage" where
  "yacStage2ProtoStage s = \<lparr>ms_Title = ys_Title s, ms_QueryMigrations = map yacMigration2ProtoMigration (ys_QueryMigrations s)\<rparr>"

definition yacGroup2ProtoGroup :: "YacMigrationGroup \<Rightarrow> MigrationGroup" where
  "yacGroup2ProtoGroup g = \<lparr>mg_Title = yg_Title g, mg_Conditions = yg_Conditions g, mg_Stages = map yacStage2ProtoStage (yg_Stages g)\<rparr>"

definition runRuleBundleMigrationsConfigurationValidation :: "YacBundle \<Rightarrow> lint_entry list" where
  "runRuleBundleMigrationsConfigurationValidation b = concat (map (\<lambda>g. concat (map (\<lambda>s. concat (map (\<lambda>m.
       map (\<lambda>e. Entry ''bundle-migrations-configuration-validation'' e (ym_FileContext m)) (Validate (yacMigration2ProtoMigration m)))
     (ys_QueryMigrations s))) (yg_Stages g))) (yb_MigrationGroups b))"

definition stage_errors :: "MigrationStage \<Rightarrow> nat \<Rightarrow> migration_error list" where
  "stage_errors stage i = (let (summary, errs) = SummarizeStage stage i in errs @ LintStageConsumeProduce summary)"

definition runRuleBundleMigrationsValidateStages :: "YacBundle \<Rightarrow> lint_entry list" where
  "runRuleBundleMigrationsValidateStages b = concat (map (\<lambda>g. concat (map (\<lambda>(i, s).
       map (\<lambda>e. Entry ''bundle-migrations-validate-stages'' e (ys_FileContext s)) (stage_errors (yacStage2ProtoStage s) i))
     (enumerate 0 (yg_Stages g)))) (yb_MigrationGroups b))"

definition targets_bundle :: "YacBundle \<Rightarrow> YacMigrationGroup \<Rightarrow> bool" where
  "targets_bundle b g = (case yg_Conditions g of None \<Rightarrow> False | Some c \<Rightarrow> (case mc_TargetPolicy c of None \<Rightarrow> False
     | Some t \<Rightarrow> list_ex (\<lambda>p. mp_Uid p = mp_Uid t \<and> mp_Version p = mp_Version t) (yb_Policies b)))"

definition cross_stages :: "YacBundle \<Rightarrow> StageSummary list" where
  "cross_stages b = concat (map (\<lambda>g. map (\<lambda>(i, s). fst (SummarizeStage (yacStage2ProtoStage s) i)) (enumerate 0 (yg_Stages g)))
     (filter (targets_bundle b) (yb_MigrationGroups b)))"

definition runRuleBundleMigrationsValidateCrossStageProduce :: "YacBundle \<Rightarrow> lint_entry list" where
  "runRuleBundleMigrationsValidateCrossStageProduce b =
     map (\<lambda>e. Entry ''bundle-migrations-validate-cross-stage-produce'' e \<lparr>fc_Line = 1, fc_Column = 1\<rparr>)
       (LintCrossMigrationStage (cross_stages b) (foldl (\<lambda>m q. map_put q True m) [] (yb_Queries b)))"

definition runRuleBundleMigrationsValidateGroupConditions :: "YacBundle \<Rightarrow> lint_entry list" where
  "runRuleBundleMigrationsValidateGroupConditions b = concat (map (\<lambda>g.
       map (\<lambda>e. Entry ''bundle-migrations-validate-group-conditions'' e (yg_FileContext g)) (LintMigrationGroupConditions (yacGroup2ProtoGroup g)))
     (yb_MigrationGroups b))"

subsection \<open>What the rules accept\<close>

definition consumed :: "Migration list \<Rightarrow> string list" where
  "consumed ms = map (uid_of \<circ> mi_Source) (filter (\<lambda>m. mi_Action m \<in> {MIGRATION_MODIFY, REMOVE}) ms)"

definition produced :: "Migration list \<Rightarrow> string list" where
  "produced ms = map (uid_of \<circ> mi_Target) (filter (\<lambda>m. mi_Action m \<in> {MIGRATION_MODIFY, CREATE}) ms)"

lemma summary_of_migrations:
  assumes "foldl summarize (s, errs) ms = (s', errs')"
    and "fst ` set (ss_Consumes s) = set cs" and "fst ` set (ss_Produces s) = set ps"
    and "errs = [] \<longleftrightarrow> distinct cs \<and> distinct ps"
  shows "fst ` set (ss_Consumes s') = set (cs @ consumed ms) \<and> fst ` set (ss_Produces s') = set (ps @ produced ms)
    \<and> (errs' = [] \<longleftrightarrow> distinct (cs @ consumed ms) \<and> distinct (ps @ produced ms))"
  using assms
proof (induction ms arbitrary: s errs cs ps)
  case Nil
  then show ?case by (simp add: consumed_def produced_def)
next
  case (Cons m ms)
  obtain s1 errs1 where m: "summarize (s, errs) m = (s1, errs1)" by fastforce
  have rest: "foldl summarize (s1, errs1) ms = (s', errs')" using Cons.prems(1) by (simp add: m)
  let ?c = "consumed [m]" and ?p = "produced [m]"
  have s1: "s1 = fst (summarize (s, errs) m)" "errs1 = snd (summarize (s, errs) m)" by (simp_all add: m)
  note keys = Cons.prems(2,3)
  have "fst ` set (ss_Consumes s1) = set (cs @ ?c) \<and> fst ` set (ss_Produces s1) = set (ps @ ?p)
      \<and> (errs1 = [] \<longleftrightarrow> distinct (cs @ ?c) \<and> distinct (ps @ ?p))"
    unfolding s1 using Cons.prems(4)
    by (cases "mi_Action m") (simp_all add: summarize_def Let_def consume_def produce_def consumed_def produced_def keys_put keys conj_commute)
  then have 1: "fst ` set (ss_Consumes s1) = set (cs @ ?c)" and 2: "fst ` set (ss_Produces s1) = set (ps @ ?p)"
    and 3: "errs1 = [] \<longleftrightarrow> distinct (cs @ ?c) \<and> distinct (ps @ ?p)" by blast+
  have "consumed (m # ms) = ?c @ consumed ms" "produced (m # ms) = ?p @ produced ms"
    by (simp_all add: consumed_def produced_def)
  with Cons.IH [OF rest 1 2 3] show ?case by (simp only: append_assoc)
qed

lemma summary_of_stage:
  "fst ` set (ss_Consumes (fst (SummarizeStage stage i))) = set (consumed (ms_QueryMigrations stage))"
  "fst ` set (ss_Produces (fst (SummarizeStage stage i))) = set (produced (ms_QueryMigrations stage))"
  "snd (SummarizeStage stage i) = [] \<longleftrightarrow> distinct (consumed (ms_QueryMigrations stage)) \<and> distinct (produced (ms_QueryMigrations stage))"
proof -
  obtain s errs where e: "SummarizeStage stage i = (s, errs)" by fastforce
  from summary_of_migrations [OF e [unfolded SummarizeStage_def], of "[]" "[]"]
  have "fst ` set (ss_Consumes s) = set (consumed (ms_QueryMigrations stage)) \<and> fst ` set (ss_Produces s) = set (produced (ms_QueryMigrations stage))
    \<and> (errs = [] \<longleftrightarrow> distinct (consumed (ms_QueryMigrations stage)) \<and> distinct (produced (ms_QueryMigrations stage)))"
    by (simp add: consumed_def)
  then show "fst ` set (ss_Consumes (fst (SummarizeStage stage i))) = set (consumed (ms_QueryMigrations stage))"
    "fst ` set (ss_Produces (fst (SummarizeStage stage i))) = set (produced (ms_QueryMigrations stage))"
    "snd (SummarizeStage stage i) = [] \<longleftrightarrow> distinct (consumed (ms_QueryMigrations stage)) \<and> distinct (produced (ms_QueryMigrations stage))"
    by (simp_all add: e)
qed

lemma stage_errors_none:
  "stage_errors stage i = [] \<longleftrightarrow> distinct (consumed (ms_QueryMigrations stage)) \<and> distinct (produced (ms_QueryMigrations stage))
     \<and> set (consumed (ms_QueryMigrations stage)) \<inter> set (produced (ms_QueryMigrations stage)) = {}"
proof -
  have "LintStageConsumeProduce s = [] \<longleftrightarrow> fst ` set (ss_Consumes s) \<inter> fst ` set (ss_Produces s) = {}" for s
    unfolding LintStageConsumeProduce_def by (simp add: filter_empty_conv case_prod_beta) blast
  then show ?thesis by (simp add: stage_errors_def case_prod_beta summary_of_stage)
qed

lemma put_all_true: "map_get (foldl (\<lambda>m (uid, x). map_put uid True m) m xs) u = (if u \<in> fst ` set xs then Some True else map_get m u)"
  by (induction xs arbitrary: m) auto

lemma later_consumes_of:
  "map_get (later_consumes stages i) u = Some True \<longleftrightarrow> (\<exists>s \<in> set (drop (Suc i) stages). has_key (ss_Consumes s) u)"
  by (auto simp: later_consumes_def put_all_true image_iff)

lemma later_stage: "(\<exists>s \<in> set (drop (Suc i) xs). P s) \<longleftrightarrow> (\<exists>j. i < j \<and> j < length xs \<and> P (xs ! j))"
proof
  assume "\<exists>s \<in> set (drop (Suc i) xs). P s"
  then obtain n where "n < length (drop (Suc i) xs)" "P (drop (Suc i) xs ! n)" by (auto simp: in_set_conv_nth)
  then show "\<exists>j. i < j \<and> j < length xs \<and> P (xs ! j)" by (intro exI [of _ "Suc (i + n)"]) (simp add: less_diff_conv add.commute)
next
  assume "\<exists>j. i < j \<and> j < length xs \<and> P (xs ! j)"
  then obtain j where j: "i < j" "j < length xs" "P (xs ! j)" by blast
  then have "drop (Suc i) xs ! (j - Suc i) = xs ! j" "j - Suc i < length (drop (Suc i) xs)" by simp_all
  with j(3) show "\<exists>s \<in> set (drop (Suc i) xs). P s" by (metis nth_mem)
qed

lemma filter_none: "filter (\<lambda>(u, m). P u) xs = [] \<longleftrightarrow> (\<forall>u. has_key xs u \<longrightarrow> \<not> P u)"
  by (induction xs) auto

lemma concat_none: "concat (map f (rev [0..<n])) = [] \<longleftrightarrow> (\<forall>i < n. f i = [])"
  by auto

lemma cross_errors_none:
  "LintCrossMigrationStage stages final = [] \<longleftrightarrow> (\<forall>i < length stages. \<forall>u. has_key (ss_Produces (stages ! i)) u \<longrightarrow>
     map_get final u = Some True \<or> (\<exists>j. i < j \<and> j < length stages \<and> has_key (ss_Consumes (stages ! j)) u))"
proof -
  have inner: "filter (\<lambda>(u, m). \<not> Q u \<and> \<not> R u) xs = [] \<longleftrightarrow> (\<forall>u. has_key xs u \<longrightarrow> Q u \<or> R u)"
    for Q R :: "string \<Rightarrow> bool" and xs :: "(string, Migration) gomap"
    unfolding filter_none by blast
  have "LintCrossMigrationStage stages final = [] \<longleftrightarrow> (\<forall>i < length stages. \<forall>u. has_key (ss_Produces (stages ! i)) u \<longrightarrow>
     map_get final u = Some True \<or> map_get (later_consumes stages i) u = Some True)"
    unfolding LintCrossMigrationStage_def concat_none map_is_Nil_conv inner by (rule refl)
  then show ?thesis by (simp only: later_consumes_of later_stage)
qed

definition stage_migrations :: "YacMigrationStage \<Rightarrow> Migration list" where
  "stage_migrations s = map yacMigration2ProtoMigration (ys_QueryMigrations s)"

text \<open>The stages of all groups whose target is a policy of the bundle, one after the other.\<close>

definition bundle_stages :: "YacBundle \<Rightarrow> Migration list list" where
  "bundle_stages b = concat (map (\<lambda>g. map stage_migrations (yg_Stages g)) (filter (targets_bundle b) (yb_MigrationGroups b)))"

lemma group_keys:
  "map (\<lambda>x. fst ` set (ss_Consumes (case x of (i, s) \<Rightarrow> fst (SummarizeStage (yacStage2ProtoStage s) i)))) (enumerate n ss)
     = map (\<lambda>s. set (consumed (stage_migrations s))) ss"
  "map (\<lambda>x. fst ` set (ss_Produces (case x of (i, s) \<Rightarrow> fst (SummarizeStage (yacStage2ProtoStage s) i)))) (enumerate n ss)
     = map (\<lambda>s. set (produced (stage_migrations s))) ss"
  by (induction ss arbitrary: n) (simp_all add: summary_of_stage yacStage2ProtoStage_def stage_migrations_def)

lemma cross_stages_keys:
  "map (\<lambda>s. fst ` set (ss_Consumes s)) (cross_stages b) = map (\<lambda>ms. set (consumed ms)) (bundle_stages b)"
  "map (\<lambda>s. fst ` set (ss_Produces s)) (cross_stages b) = map (\<lambda>ms. set (produced ms)) (bundle_stages b)"
  unfolding cross_stages_def bundle_stages_def map_concat map_map comp_def group_keys by (rule refl)+

lemma final_queries: "map_get (foldl (\<lambda>m q. map_put q True m) m qs) u = (if u \<in> set qs then Some True else map_get m u)"
  by (induction qs arbitrary: m) auto

lemma stage_entries_none:
  "runRuleBundleMigrationsValidateStages b = [] \<longleftrightarrow> (\<forall>g \<in> set (yb_MigrationGroups b). \<forall>s \<in> set (yg_Stages g).
     stage_errors (yacStage2ProtoStage s) 0 = [])"
proof -
  have "concat (map (\<lambda>(i, s). map (f s) (stage_errors (yacStage2ProtoStage s) i)) (enumerate n ss)) = ([] :: lint_entry list)
      \<longleftrightarrow> (\<forall>s \<in> set ss. stage_errors (yacStage2ProtoStage s) 0 = [])" for f n ss
    by (induction ss arbitrary: n) (simp_all add: stage_errors_none)
  then show ?thesis by (simp add: runRuleBundleMigrationsValidateStages_def)
qed

text \<open>What the first rule asks of a migration and the last of a group.\<close>

definition well_defined :: "Migration \<Rightarrow> bool" where
  "well_defined m \<longleftrightarrow> (mi_Action m = CREATE \<and> uid_of (mi_Target m) \<noteq> '''')
     \<or> (mi_Action m = REMOVE \<and> uid_of (mi_Source m) \<noteq> '''')
     \<or> (mi_Action m = MIGRATION_MODIFY \<and> uid_of (mi_Source m) \<noteq> '''' \<and> uid_of (mi_Target m) \<noteq> '''')"

definition conditions_given :: "MigrationConditions option \<Rightarrow> bool" where
  "conditions_given co \<longleftrightarrow> (\<exists>src dst. co = Some \<lparr>mc_SourcePolicy = Some src, mc_TargetPolicy = Some dst\<rparr>
     \<and> mp_Uid src \<noteq> '''' \<and> mp_Version src \<noteq> '''' \<and> mp_Version dst \<noteq> '''')"

lemma validate_none: "Validate m = [] \<longleftrightarrow> well_defined m"
  by (cases "mi_Action m"; cases "mi_Source m"; cases "mi_Target m") (simp_all add: Validate_def well_defined_def uid_of_def)

lemma conditions_none: "LintMigrationGroupConditions g = [] \<longleftrightarrow> conditions_given (mg_Conditions g)"
proof (cases "mg_Conditions g")
  case (Some c)
  obtain src dst where c: "c = \<lparr>mc_SourcePolicy = src, mc_TargetPolicy = dst\<rparr>" by (metis MigrationConditions.surjective old.unit.exhaust)
  show ?thesis by (cases src; cases dst) (simp_all add: LintMigrationGroupConditions_def conditions_given_def Some c)
qed (simp add: LintMigrationGroupConditions_def conditions_given_def)

lemma stages_rule_none:
  "runRuleBundleMigrationsValidateStages b = [] \<longleftrightarrow> (\<forall>g \<in> set (yb_MigrationGroups b). \<forall>s \<in> set (yg_Stages g).
      distinct (consumed (stage_migrations s)) \<and> distinct (produced (stage_migrations s))
      \<and> set (consumed (stage_migrations s)) \<inter> set (produced (stage_migrations s)) = {})"
  unfolding stage_entries_none stage_errors_none by (simp add: yacStage2ProtoStage_def stage_migrations_def)

lemma cross_rule_none:
  "runRuleBundleMigrationsValidateCrossStageProduce b = [] \<longleftrightarrow>
      (\<forall>i < length (bundle_stages b). \<forall>u \<in> set (produced (bundle_stages b ! i)). u \<in> set (yb_Queries b)
        \<or> (\<exists>j. i < j \<and> j < length (bundle_stages b) \<and> u \<in> set (consumed (bundle_stages b ! j))))"
proof -
  have len: "length (cross_stages b) = length (bundle_stages b)" using arg_cong [OF cross_stages_keys(1) [of b], of length] by simp
  have c: "fst ` set (ss_Consumes (cross_stages b ! i)) = set (consumed (bundle_stages b ! i))" if "i < length (bundle_stages b)" for i
    using arg_cong [OF cross_stages_keys(1) [of b], of "\<lambda>xs. xs ! i"] that by (simp add: len)
  have p: "fst ` set (ss_Produces (cross_stages b ! i)) = set (produced (bundle_stages b ! i))" if "i < length (bundle_stages b)" for i
    using arg_cong [OF cross_stages_keys(2) [of b], of "\<lambda>xs. xs ! i"] that by (simp add: len)
  show ?thesis
    unfolding runRuleBundleMigrationsValidateCrossStageProduce_def map_is_Nil_conv cross_errors_none final_queries len Ball_def
    by (simp add: p c cong: conj_cong imp_cong) blast
qed


text \<open>A check is renamed twice, in two stages.\<close>

definition renaming_bundle :: YacBundle where
  "renaming_bundle =
     (let at = \<lparr>fc_Line = 1, fc_Column = 1\<rparr>;
          rename = (\<lambda>src dst. \<lparr>ys_Title = ''rename'', ys_QueryMigrations = [\<lparr>mi_Source = Some src, mi_Target = Some dst,
            mi_Action = MIGRATION_MODIFY, ym_FileContext = at\<rparr>], ys_FileContext = at\<rparr>)
      in \<lparr>yb_Queries = [''new''], yb_Policies = [\<lparr>mp_Uid = ''p'', mp_Version = ''2''\<rparr>],
        yb_MigrationGroups = [\<lparr>yg_Title = ''g'', yg_Conditions = Some \<lparr>mc_SourcePolicy = Some \<lparr>mp_Uid = ''p'', mp_Version = ''1''\<rparr>,
          mc_TargetPolicy = Some \<lparr>mp_Uid = ''p'', mp_Version = ''2''\<rparr>\<rparr>, yg_Stages = [rename ''old'' ''mid'', rename ''mid'' ''new''],
          yg_FileContext = at\<rparr>]\<rparr>)"


end
