(* ===== verification/Policy_Cache.thy ===== *)
theory Policy_Cache
  imports Policy_Types
begin

text \<open>
  The cache of resolved policies (\<open>internal/datalakes/inmemory/resolved_policy_cache.go\<close>): entries expire after an hour, and
  the ones that were not used for the longest time make room for new ones. Times are nanoseconds. The clock is a parameter, its
  \<open>n\<close>-th reading is \<open>clock n\<close> and the cache counts the readings; the encoded size of a policy is a parameter as well. Sizes are
  64-bit integers that wrap. Every operation runs under the lock of the cache; a negative limit is a panic, here \<open>None\<close>.
\<close>

subsection \<open>The cache\<close>

definition i64 :: "int \<Rightarrow> int" where
  "i64 x = (x + 9223372036854775808) mod 18446744073709551616 - 9223372036854775808"

definition ResolvedPolicyCacheTTL :: int where
  "ResolvedPolicyCacheTTL = 3600 * 1000000000"

record cachedResolvedPolicy =
  ce_createdOn :: int
  ce_lastAccessedOn :: int
  ce_resolvedPolicy :: ResolvedPolicy
  ce_size :: int

record ResolvedPolicyCache =
  pc_data :: "(string, cachedResolvedPolicy) gomap"
  pc_totalSize :: int
  pc_sizeLimit :: int
  pc_readings :: nat

definition NewResolvedPolicyCache :: "int \<Rightarrow> ResolvedPolicyCache option" where
  "NewResolvedPolicyCache sizeLimit =
     (if sizeLimit < 0 then None else Some \<lparr>pc_data = [], pc_totalSize = 0, pc_sizeLimit = sizeLimit, pc_readings = 0\<rparr>)"

definition now :: "(nat \<Rightarrow> int) \<Rightarrow> ResolvedPolicyCache \<Rightarrow> int \<times> ResolvedPolicyCache" where
  "now clock c = (clock (pc_readings c), c\<lparr>pc_readings := Suc (pc_readings c)\<rparr>)"

definition remove_entry :: "string \<Rightarrow> cachedResolvedPolicy \<Rightarrow> ResolvedPolicyCache \<Rightarrow> ResolvedPolicyCache" where
  "remove_entry key v c = c\<lparr>pc_data := map_del key (pc_data c), pc_totalSize := i64 (pc_totalSize c - ce_size v)\<rparr>"

definition Cache_Get :: "(nat \<Rightarrow> int) \<Rightarrow> string \<Rightarrow> ResolvedPolicyCache \<Rightarrow> ResolvedPolicy option \<times> ResolvedPolicyCache" where
  "Cache_Get clock key c = (case map_get (pc_data c) key of
     None \<Rightarrow> (None, c)
   | Some res \<Rightarrow> let (t, c) = now clock c in
       if t - ce_createdOn res > ResolvedPolicyCacheTTL then (None, remove_entry key res c)
       else let (t, c) = now clock c in
         (Some (ce_resolvedPolicy res), c\<lparr>pc_data := map_put key (res\<lparr>ce_lastAccessedOn := t\<rparr>) (pc_data c)\<rparr>))"

definition hasSpace :: "int \<Rightarrow> ResolvedPolicyCache \<Rightarrow> bool" where
  "hasSpace sz c \<longleftrightarrow> pc_sizeLimit c > 0 \<and> i64 (pc_totalSize c + sz) > pc_sizeLimit c"

text \<open>One entry that the search for the oldest one meets, and the search, which starts a minute ahead of now.\<close>

definition scan_entry :: "(nat \<Rightarrow> int) \<Rightarrow> ResolvedPolicyCache \<times> int \<times> (string \<times> cachedResolvedPolicy) option
    \<Rightarrow> string \<times> cachedResolvedPolicy \<Rightarrow> ResolvedPolicyCache \<times> int \<times> (string \<times> cachedResolvedPolicy) option" where
  "scan_entry clock = (\<lambda>(c, oldestTimestamp, oldest) (k, v).
     let (t, c) = now clock c in
     if t - ce_createdOn v > ResolvedPolicyCacheTTL then (remove_entry k v c, oldestTimestamp, oldest)
     else if ce_lastAccessedOn v < oldestTimestamp then (c, ce_lastAccessedOn v, Some (k, v))
     else (c, oldestTimestamp, oldest))"

definition scan :: "(nat \<Rightarrow> int) \<Rightarrow> ResolvedPolicyCache \<Rightarrow> ResolvedPolicyCache \<times> (string \<times> cachedResolvedPolicy) option" where
  "scan clock c =
     (let (t, c) = now clock c;
          (c, oldestTimestamp, oldest) = foldl (scan_entry clock) (c, t + 60 * 1000000000, None) (pc_data c)
      in (c, oldest))"

subsection \<open>The search shrinks the cache\<close>

lemma length_map_del_le: "length (map_del k m) \<le> length m"
  by (simp add: AList.delete_eq)

lemma length_map_del_less: "has_key m k \<Longrightarrow> length (map_del k m) < length m"
  by (auto simp: AList.delete_eq intro!: length_filter_less)

lemma remove_entry_fields [simp]:
  "pc_data (remove_entry k v c) = map_del k (pc_data c)" "pc_sizeLimit (remove_entry k v c) = pc_sizeLimit c"
  "pc_readings (remove_entry k v c) = pc_readings c" "pc_totalSize (remove_entry k v c) = i64 (pc_totalSize c - ce_size v)"
  by (simp_all add: remove_entry_def)

definition scan_shrinks :: "(string, cachedResolvedPolicy) gomap \<Rightarrow> ResolvedPolicyCache \<times> int \<times> (string \<times> cachedResolvedPolicy) option \<Rightarrow> bool" where
  "scan_shrinks m s \<longleftrightarrow> (pc_data (fst s) = m \<or> length (pc_data (fst s)) < length m) \<and> (\<forall>k v. snd (snd s) = Some (k, v) \<longrightarrow> has_key m k)"

lemma scan_entry_shrinks:
  assumes "scan_shrinks m s" and "(k, v) \<in> set m"
  shows "scan_shrinks m (scan_entry clock s (k, v))"
proof -
  obtain c ts old where s: "s = (c, ts, old)" by (cases s) auto
  have key: "has_key m k" using assms(2) by force
  have "length (map_del k (pc_data c)) < length m"
    using assms(1) length_map_del_less [OF key] length_map_del_le [of k "pc_data c"] by (auto simp: scan_shrinks_def s)
  then show ?thesis using assms(1) key by (simp add: scan_entry_def now_def s Let_def scan_shrinks_def)
qed

lemma scan_of_data:
  assumes "scan clock c = (c', oldest)"
  shows "scan_shrinks (pc_data c) (c', 0, oldest)"
proof -
  let ?s = "foldl (scan_entry clock) (c\<lparr>pc_readings := Suc (pc_readings c)\<rparr>, clock (pc_readings c) + 60 * 1000000000, None) (pc_data c)"
  have "scan_shrinks (pc_data c) ?s"
  proof (rule foldl_inv)
    fix s x assume "x \<in> set (pc_data c)" "scan_shrinks (pc_data c) s"
    then show "scan_shrinks (pc_data c) (scan_entry clock s x)" using scan_entry_shrinks [of "pc_data c" s "fst x" "snd x"] by simp
  qed (simp add: scan_shrinks_def)
  moreover obtain c2 ts old where "?s = (c2, ts, old)" by (cases ?s) auto
  ultimately show ?thesis using assms by (simp add: scan_def now_def scan_shrinks_def)
qed

lemma scan_then_delete_shrinks:
  assumes "scan clock c = (c', Some (k, v))"
  shows "length (map_del k (pc_data c')) < length (pc_data c)"
  using scan_of_data [OF assms] length_map_del_less [of k "pc_data c"] length_map_del_le [of k "pc_data c'"]
  by (auto simp: scan_shrinks_def)

subsection \<open>Making room\<close>

function make_room :: "(nat \<Rightarrow> int) \<Rightarrow> int \<Rightarrow> ResolvedPolicyCache \<Rightarrow> ResolvedPolicyCache" where
  "make_room clock sz c =
     (if \<not> hasSpace sz c then c
      else case scan clock c of
        (c', None) \<Rightarrow> c'
      | (c', Some (oldestKey, oldestEntry)) \<Rightarrow>
          if \<not> hasSpace sz c' then c'
          else if oldestKey = '''' then c'
          else make_room clock sz (remove_entry oldestKey oldestEntry c'))"
  by pat_completeness auto
termination
  by (relation "measure (\<lambda>(clock, sz, c). length (pc_data c))") (auto dest: scan_then_delete_shrinks [OF sym])

declare make_room.simps [simp del]

definition freeSpace :: "(nat \<Rightarrow> int) \<Rightarrow> int \<Rightarrow> ResolvedPolicyCache \<Rightarrow> ResolvedPolicyCache" where
  "freeSpace clock sz c = (if pc_data c = [] then c else make_room clock sz c)"

definition Cache_Set :: "(nat \<Rightarrow> int) \<Rightarrow> (ResolvedPolicy \<Rightarrow> int) \<Rightarrow> string \<Rightarrow> ResolvedPolicy \<Rightarrow> ResolvedPolicyCache \<Rightarrow> bool \<times> ResolvedPolicyCache" where
  "Cache_Set clock protoSize key resolvedPolicy c =
     (let (created, c) = now clock c; (accessed, c) = now clock c;
          entry = \<lparr>ce_createdOn = created, ce_lastAccessedOn = accessed, ce_resolvedPolicy = resolvedPolicy, ce_size = protoSize resolvedPolicy\<rparr>;
          c = freeSpace clock (ce_size entry) c
      in if hasSpace (ce_size entry) c then (False, c)
         else let total = (case map_get (pc_data c) key of None \<Rightarrow> pc_totalSize c | Some existing \<Rightarrow> i64 (pc_totalSize c - ce_size existing))
           in (True, c\<lparr>pc_data := map_put key entry (pc_data c), pc_totalSize := i64 (total + ce_size entry)\<rparr>))"

subsection \<open>Its sizes\<close>

definition sizes :: "(string, cachedResolvedPolicy) gomap \<Rightarrow> int" where
  "sizes m = (\<Sum>x\<leftarrow>m. ce_size (snd x))"

definition cache_ok :: "ResolvedPolicyCache \<Rightarrow> bool" where
  "cache_ok c \<longleftrightarrow> map_ok (pc_data c) \<and> pc_totalSize c = i64 (sizes (pc_data c))"

lemma i64_i64: "i64 (i64 x + y) = i64 (x + y)" "i64 (i64 x - y) = i64 (x - y)"
proof -
  have "i64 (i64 x + y) = i64 (x + y)" for x y by (simp add: i64_def algebra_simps mod_simps)
  from this [of x y] this [of x "- y"] show "i64 (i64 x + y) = i64 (x + y)" "i64 (i64 x - y) = i64 (x - y)" by simp_all
qed

lemma i64_small: "0 \<le> x \<Longrightarrow> x < 9223372036854775808 \<Longrightarrow> i64 x = x"
  by (simp add: i64_def)

lemma sizes_del: "map_ok m \<Longrightarrow> map_get m k = Some v \<Longrightarrow> sizes (map_del k m) = sizes m - ce_size v"
proof (induction m)
  case (Cons x m)
  show ?case
  proof (cases "fst x = k")
    case True
    then have "\<not> has_key m k" using Cons.prems(1) by (auto simp: map_ok_def)
    then have "map_del k m = m" by (simp add: delete_idem)
    then show ?thesis using True Cons.prems(2) by (cases x) (simp add: sizes_def)
  next
    case False
    then show ?thesis using Cons by (cases x) (simp add: sizes_def map_ok_def)
  qed
qed simp

lemma sizes_put: "map_ok m \<Longrightarrow> sizes (map_put k v m) = (case map_get m k of None \<Rightarrow> sizes m | Some old \<Rightarrow> sizes m - ce_size old) + ce_size v"
proof (induction m)
  case (Cons x m)
  then show ?case by (cases x) (auto simp: sizes_def map_ok_def split: option.splits)
qed (simp add: sizes_def)

lemma sizes_nonneg: "list_all (\<lambda>x. 0 \<le> ce_size (snd x)) m \<Longrightarrow> 0 \<le> sizes m"
  by (induction m) (auto simp: sizes_def)

lemma remove_entry_ok:
  assumes "cache_ok c" and "map_get (pc_data c) k = Some v"
  shows "cache_ok (remove_entry k v c)"
  using assms by (simp add: cache_ok_def sizes_del i64_i64)

text \<open>What the search and the making of room keep: they only remove entries.\<close>

definition only_removes :: "ResolvedPolicyCache \<Rightarrow> ResolvedPolicyCache \<Rightarrow> bool" where
  "only_removes c c' \<longleftrightarrow> cache_ok c' \<and> set (pc_data c') \<subseteq> set (pc_data c) \<and> pc_sizeLimit c' = pc_sizeLimit c \<and> pc_readings c \<le> pc_readings c'"

lemma only_removes_refl: "cache_ok c \<Longrightarrow> only_removes c c"
  by (simp add: only_removes_def)

lemma only_removes_trans: "only_removes c c' \<Longrightarrow> only_removes c' c'' \<Longrightarrow> only_removes c c''"
  by (auto simp: only_removes_def)

lemma remove_entry_removes:
  assumes "cache_ok c" and "map_get (pc_data c) k = Some v"
  shows "only_removes c (remove_entry k v c)"
  using remove_entry_ok [OF assms] by (auto simp: only_removes_def AList.delete_eq)

lemma reading_ok [simp]: "cache_ok (c\<lparr>pc_readings := n\<rparr>) = cache_ok c"
  by (simp add: cache_ok_def)

definition scan_ok :: "ResolvedPolicyCache \<Rightarrow> (string \<times> cachedResolvedPolicy) list \<Rightarrow> ResolvedPolicyCache \<times> int \<times> (string \<times> cachedResolvedPolicy) option \<Rightarrow> bool" where
  "scan_ok c rest s \<longleftrightarrow> only_removes c (fst s) \<and> set rest \<subseteq> set (pc_data (fst s)) \<and> set_option (snd (snd s)) \<subseteq> set (pc_data (fst s))
     \<and> fst ` set_option (snd (snd s)) \<inter> fst ` set rest = {}"

lemma keeps_others: "A \<subseteq> set m \<Longrightarrow> k \<notin> fst ` A \<Longrightarrow> A \<subseteq> set (map_del k m)"
  by (force simp: AList.delete_eq)

lemma scan_entry_ok:
  assumes "scan_ok c (x # rest) s" and "distinct (map fst (x # rest))"
  shows "scan_ok c rest (scan_entry clock s x)"
proof -
  obtain c1 ts old where s: "s = (c1, ts, old)" by (cases s) auto
  obtain k v where x: "x = (k, v)" by fastforce
  have c1: "only_removes c c1" "(k, v) \<in> set (pc_data c1)" "set rest \<subseteq> set (pc_data c1)" "set_option old \<subseteq> set (pc_data c1)"
    "fst ` set_option old \<inter> fst ` set (x # rest) = {}" using assms(1) by (auto simp: scan_ok_def s x)
  have ok: "cache_ok c1" and map: "map_ok (pc_data c1)" using c1(1) by (auto simp: only_removes_def cache_ok_def)
  let ?c = "c1\<lparr>pc_readings := Suc (pc_readings c1)\<rparr>"
  have r: "only_removes c ?c" using c1(1) by (auto simp: only_removes_def)
  have "map_get (pc_data ?c) k = Some v" using map c1(2) by (simp add: map_get_Some_iff)
  from remove_entry_removes [OF _ this] ok have "only_removes c (remove_entry k v ?c)" by (auto intro: only_removes_trans [OF r])
  moreover have "set rest \<subseteq> set (map_del k (pc_data c1))" "set_option old \<subseteq> set (map_del k (pc_data c1))"
    by (rule keeps_others [OF c1(3)], use assms(2) x in simp, rule keeps_others [OF c1(4)], use c1(5) x in simp)
  ultimately have gone: "scan_ok c rest (remove_entry k v ?c, ts, old)" using c1(5) by (auto simp: scan_ok_def)
  have keep: "scan_ok c rest (?c, ts, old)" using r c1(3-5) by (auto simp: scan_ok_def)
  have new: "scan_ok c rest (?c, ce_lastAccessedOn v, Some (k, v))" using r c1(2,3) assms(2) by (auto simp: scan_ok_def x)
  show ?thesis unfolding s x scan_entry_def now_def Let_def prod.case using gone keep new by (simp split: if_split)
qed

definition scan_start :: "(nat \<Rightarrow> int) \<Rightarrow> ResolvedPolicyCache \<Rightarrow> ResolvedPolicyCache \<times> int \<times> (string \<times> cachedResolvedPolicy) option" where
  "scan_start clock c = (c\<lparr>pc_readings := Suc (pc_readings c)\<rparr>, clock (pc_readings c) + 60 * 1000000000, None)"

lemma scan_unfold: "scan clock c = (let (c', ts, old) = foldl (scan_entry clock) (scan_start clock c) (pc_data c) in (c', old))"
  by (simp add: scan_def now_def scan_start_def)

lemma scan_ok_result:
  assumes "cache_ok c" and "scan clock c = (c', oldest)"
  shows "only_removes c c' \<and> (\<forall>k v. oldest = Some (k, v) \<longrightarrow> map_get (pc_data c') k = Some v)"
proof -
  have "scan_ok c [] (foldl (scan_entry clock) s xs)" if "scan_ok c xs s" "distinct (map fst xs)" for xs s
    using that
  proof (induction xs arbitrary: s)
    case (Cons x xs)
    have "scan_ok c xs (scan_entry clock s x)" by (rule scan_entry_ok [OF Cons.prems])
    with Cons.IH Cons.prems(2) show ?case by simp
  qed simp
  moreover have "scan_ok c (pc_data c) (scan_start clock c)"
    using assms(1) by (simp add: scan_ok_def only_removes_def scan_start_def)
  moreover have "distinct (map fst (pc_data c))" using assms(1) by (simp add: cache_ok_def map_ok_def)
  ultimately have s: "scan_ok c [] (foldl (scan_entry clock) (scan_start clock c) (pc_data c))" by blast
  obtain c2 ts old where e: "foldl (scan_entry clock) (scan_start clock c) (pc_data c) = (c2, ts, old)"
    using prod_cases3 by blast
  have "c' = c2" "oldest = old" using assms(2) by (simp_all add: scan_unfold e)
  with s show ?thesis unfolding e by (auto simp: scan_ok_def only_removes_def cache_ok_def map_get_Some_iff)
qed

lemma make_room_removes: "cache_ok c \<Longrightarrow> only_removes c (make_room clock sz c)"
proof (induction clock sz c rule: make_room.induct)
  case (1 clock sz c)
  obtain c' oldest where s: "scan clock c = (c', oldest)" by fastforce
  note r = scan_ok_result [OF 1(2) s]
  show ?case
  proof (cases "hasSpace sz c \<and> hasSpace sz c' \<and> (\<exists>k v. oldest = Some (k, v) \<and> k \<noteq> '''')")
    case True
    then obtain k v where k: "oldest = Some (k, v)" "k \<noteq> ''''" "hasSpace sz c" "hasSpace sz c'" by blast
    have "cache_ok c'" "map_get (pc_data c') k = Some v" using r k(1) by (auto simp: only_removes_def)
    note d = remove_entry_removes [OF this]
    have "only_removes (remove_entry k v c') (make_room clock sz (remove_entry k v c'))"
      using 1(1) [OF _ s [symmetric]] k d by (auto simp: only_removes_def)
    with d r have "only_removes c (make_room clock sz (remove_entry k v c'))" by (blast intro: only_removes_trans)
    then show ?thesis using k by (simp add: make_room.simps [of clock sz c] s)
  next
    case False
    then show ?thesis using r only_removes_refl [OF 1(2)] by (auto simp: make_room.simps [of clock sz c] s split: option.splits)
  qed
qed

lemma freeSpace_removes: "cache_ok c \<Longrightarrow> only_removes c (freeSpace clock sz c)"
  by (simp add: freeSpace_def make_room_removes only_removes_refl)

subsection \<open>Room for what fits\<close>

text \<open>Entries with a key that were not used in the future of the clock.\<close>

definition timely :: "(nat \<Rightarrow> int) \<Rightarrow> ResolvedPolicyCache \<Rightarrow> bool" where
  "timely clock c \<longleftrightarrow> (\<forall>(k, e) \<in> set (pc_data c). k \<noteq> '''' \<and> (\<forall>n \<ge> pc_readings c. ce_lastAccessedOn e \<le> clock n))"

lemma timely_removed:
  assumes "only_removes c c'" and "timely clock c"
  shows "timely clock c'"
proof -
  have "k \<noteq> '''' \<and> (\<forall>n \<ge> pc_readings c'. ce_lastAccessedOn e \<le> clock n)" if "(k, e) \<in> set (pc_data c')" for k e
  proof -
    have "(k, e) \<in> set (pc_data c)" and le: "pc_readings c \<le> pc_readings c'" using assms(1) that by (auto simp: only_removes_def)
    with assms(2) have "k \<noteq> '''' \<and> (\<forall>n \<ge> pc_readings c. ce_lastAccessedOn e \<le> clock n)" by (auto simp: timely_def)
    with le show ?thesis by (meson order_trans)
  qed
  then show ?thesis by (auto simp: timely_def)
qed

lemma scan_of_none:
  assumes "scan_ok c (x # rest) s" and "distinct (map fst (x # rest))" and "ce_lastAccessedOn (snd x) < T"
    and "snd (snd s) = None \<longrightarrow> fst (snd s) = T \<and> set (pc_data (fst s)) \<subseteq> set (x # rest)"
  shows "snd (snd (scan_entry clock s x)) = None \<longrightarrow>
    fst (snd (scan_entry clock s x)) = T \<and> set (pc_data (fst (scan_entry clock s x))) \<subseteq> set rest"
proof -
  obtain c1 ts old where s: "s = (c1, ts, old)" by (cases s) auto
  obtain k v where x: "x = (k, v)" by fastforce
  have "set (map_del k (pc_data c1)) \<subseteq> set rest" if "set (pc_data c1) \<subseteq> set (x # rest)"
    using that by (auto simp: AList.delete_eq x)
  then show ?thesis using assms(3,4) by (auto simp: scan_entry_def now_def Let_def s x)
qed

lemma scan_finds:
  assumes "cache_ok c" and "timely clock c" and "scan clock c = (c', None)"
  shows "pc_data c' = []"
proof -
  define T where "T = clock (pc_readings c) + 60 * 1000000000"
  have fold: "snd (snd (foldl (scan_entry clock) s xs)) = None \<longrightarrow> set (pc_data (fst (foldl (scan_entry clock) s xs))) \<subseteq> {}"
    if "scan_ok c xs s" "distinct (map fst xs)" "list_all (\<lambda>x. ce_lastAccessedOn (snd x) < T) xs"
      "snd (snd s) = None \<longrightarrow> fst (snd s) = T \<and> set (pc_data (fst s)) \<subseteq> set xs" for xs s
    using that
  proof (induction xs arbitrary: s)
    case (Cons x xs)
    have T: "ce_lastAccessedOn (snd x) < T" using Cons.prems(3) by simp
    have "distinct (map fst xs)" "list_all (\<lambda>x. ce_lastAccessedOn (snd x) < T) xs" using Cons.prems(2,3) by simp_all
    from Cons.IH [OF scan_entry_ok [OF Cons.prems(1,2)] this scan_of_none [OF Cons.prems(1,2) T Cons.prems(4)]]
    show ?case by simp
  qed simp
  have ok: "scan_ok c (pc_data c) (scan_start clock c)" "distinct (map fst (pc_data c))"
    using assms(1) by (simp_all add: scan_ok_def only_removes_def scan_start_def cache_ok_def map_ok_def)
  have early: "list_all (\<lambda>x. ce_lastAccessedOn (snd x) < T) (pc_data c)"
    using assms(2) by (fastforce simp: timely_def T_def list_all_iff)
  obtain c2 ts old where e: "foldl (scan_entry clock) (scan_start clock c) (pc_data c) = (c2, ts, old)"
    using prod_cases3 by blast
  have "old = None" "c' = c2" using assms(3) by (simp_all add: scan_unfold e)
  moreover have "snd (snd (scan_start clock c)) = None \<longrightarrow> fst (snd (scan_start clock c)) = T \<and> set (pc_data (fst (scan_start clock c))) \<subseteq> set (pc_data c)"
    by (simp add: scan_start_def T_def)
  note fold [OF ok early this, unfolded e]
  ultimately show ?thesis by simp
qed

lemma make_room_enough:
  "cache_ok c \<Longrightarrow> timely clock c \<Longrightarrow> hasSpace sz (make_room clock sz c) \<Longrightarrow> pc_data (make_room clock sz c) = []"
proof (induction clock sz c rule: make_room.induct)
  case (1 clock sz c)
  obtain c' oldest where s: "scan clock c = (c', oldest)" by fastforce
  note r = scan_ok_result [OF 1(2) s]
  have t: "timely clock c'" using timely_removed 1(3) r by blast
  show ?case
  proof (cases oldest)
    case None
    then have "pc_data c' = []" using scan_finds [OF 1(2,3)] s by simp
    then show ?thesis using 1(4) None by (simp add: make_room.simps [of clock sz c] s split: if_splits)
  next
    case (Some kv)
    obtain k v where kv: "kv = (k, v)" by fastforce
    have get: "cache_ok c'" "map_get (pc_data c') k = Some v" using r Some kv by (auto simp: only_removes_def)
    have "(k, v) \<in> set (pc_data c')" using get(2) by (rule map_of_SomeD)
    then have k: "k \<noteq> ''''" using t by (auto simp: timely_def)
    note d = remove_entry_removes [OF get]
    have ok: "cache_ok (remove_entry k v c')" "timely clock (remove_entry k v c')"
      using d timely_removed [OF d t] by (simp_all add: only_removes_def)
    show ?thesis
    proof (cases "hasSpace sz c \<and> hasSpace sz c'")
      case True
      then have "make_room clock sz c = make_room clock sz (remove_entry k v c')"
        using k by (simp add: make_room.simps [of clock sz c] s Some kv)
      with 1(1) [OF _ s [symmetric] Some kv [symmetric]] True k ok 1(4) show ?thesis by simp
    next
      case False
      then show ?thesis using 1(4) by (auto simp: make_room.simps [of clock sz c] s Some kv)
    qed
  qed
qed

subsection \<open>Runs of the cache\<close>

text \<open>A run, together with the last policy that was accepted under each key.\<close>

datatype cache_op = GetOp string | SetOp string ResolvedPolicy

definition cache_step :: "(nat \<Rightarrow> int) \<Rightarrow> (ResolvedPolicy \<Rightarrow> int) \<Rightarrow> ResolvedPolicyCache \<times> (string \<Rightarrow> ResolvedPolicy option) \<Rightarrow> cache_op
    \<Rightarrow> ResolvedPolicyCache \<times> (string \<Rightarrow> ResolvedPolicy option)" where
  "cache_step clock protoSize = (\<lambda>(c, m) x. case x of
     GetOp k \<Rightarrow> (snd (Cache_Get clock k c), m)
   | SetOp k p \<Rightarrow> let (stored, c) = Cache_Set clock protoSize k p c in (c, if stored then m(k \<mapsto> p) else m))"

definition sizes_small :: "(ResolvedPolicy \<Rightarrow> int) \<Rightarrow> bool" where
  "sizes_small protoSize \<longleftrightarrow> (\<forall>p. 0 \<le> protoSize p \<and> protoSize p < 4611686018427387904)"

definition cache_inv :: "ResolvedPolicyCache \<times> (string \<Rightarrow> ResolvedPolicy option) \<Rightarrow> bool" where
  "cache_inv = (\<lambda>(c, m). cache_ok c \<and> pc_sizeLimit c < 4611686018427387904
     \<and> (0 < pc_sizeLimit c \<longrightarrow> sizes (pc_data c) \<le> pc_sizeLimit c)
     \<and> (\<forall>(k, e) \<in> set (pc_data c). m k = Some (ce_resolvedPolicy e) \<and> 0 \<le> ce_size e \<and> ce_size e < 4611686018427387904))"

lemma cache_inv_nonneg: "cache_inv (c, m) \<Longrightarrow> 0 \<le> sizes (pc_data c)"
  by (intro sizes_nonneg) (fastforce simp: list_all_iff cache_inv_def)

lemma cache_invI:
  assumes "map_ok (pc_data c)" and "pc_totalSize c = i64 (sizes (pc_data c))" and "pc_sizeLimit c < 4611686018427387904"
    and "0 < pc_sizeLimit c \<Longrightarrow> sizes (pc_data c) \<le> pc_sizeLimit c"
    and "\<forall>(k, e) \<in> set (pc_data c). m k = Some (ce_resolvedPolicy e) \<and> 0 \<le> ce_size e \<and> ce_size e < 4611686018427387904"
  shows "cache_inv (c, m)"
  unfolding cache_inv_def cache_ok_def prod.case using assms by blast

lemma sizes_of_set: "map_ok m \<Longrightarrow> sizes m = (\<Sum>x\<in>set m. ce_size (snd x))"
  by (simp add: sizes_def map_ok_def distinct_map sum_list_distinct_conv_sum_set)

lemma sizes_mono:
  assumes "map_ok m" and "map_ok m'" and "set m' \<subseteq> set m" and "\<forall>x \<in> set m. 0 \<le> ce_size (snd x)"
  shows "sizes m' \<le> sizes m"
  unfolding sizes_of_set [OF assms(1)] sizes_of_set [OF assms(2)] using assms(3,4) by (intro sum_mono2) auto

lemma cache_inv_removed:
  assumes "cache_inv (c, m)" and "only_removes c c'"
  shows "cache_inv (c', m)"
proof -
  have i: "cache_ok c" "pc_sizeLimit c < 4611686018427387904" "0 < pc_sizeLimit c \<longrightarrow> sizes (pc_data c) \<le> pc_sizeLimit c"
    and e: "\<forall>(k, e) \<in> set (pc_data c). m k = Some (ce_resolvedPolicy e) \<and> 0 \<le> ce_size e \<and> ce_size e < 4611686018427387904"
    using assms(1) by (simp_all add: cache_inv_def)
  have o: "cache_ok c'" "set (pc_data c') \<subseteq> set (pc_data c)" "pc_sizeLimit c' = pc_sizeLimit c" using assms(2) by (simp_all add: only_removes_def)
  have "sizes (pc_data c') \<le> sizes (pc_data c)"
    by (rule sizes_mono) (use i(1) o e in \<open>auto simp: cache_ok_def\<close>)
  then show ?thesis using i o e by (auto simp: cache_inv_def)
qed

lemma Cache_Get_inv:
  assumes "cache_inv (c, m)"
  shows "cache_inv (snd (Cache_Get clock k c), m) \<and> (\<forall>p. fst (Cache_Get clock k c) = Some p \<longrightarrow> m k = Some p)"
proof (cases "map_get (pc_data c) k")
  case None
  then show ?thesis using assms by (simp add: Cache_Get_def)
next
  case (Some res)
  have ok: "cache_ok c" using assms by (simp add: cache_inv_def)
  then have map: "map_ok (pc_data c)" by (simp add: cache_ok_def)
  have mem: "(k, res) \<in> set (pc_data c)" using Some by (rule map_of_SomeD)
  let ?c1 = "c\<lparr>pc_readings := Suc (pc_readings c)\<rparr>"
  have c1: "cache_inv (?c1, m)" using assms by (simp add: cache_inv_def)
  have gone: "cache_inv (remove_entry k res ?c1, m)"
    by (rule cache_inv_removed [OF c1 remove_entry_removes]) (use ok Some in simp_all)
  define new where "new t = map_put k (res\<lparr>ce_lastAccessedOn := t\<rparr>) (pc_data c)" for t
  have "sizes (new t) = sizes (pc_data c)" for t using map Some by (simp add: new_def sizes_put)
  moreover have "map_ok (new t)" for t using map by (simp add: new_def)
  moreover have "m k' = Some (ce_resolvedPolicy e) \<and> 0 \<le> ce_size e \<and> ce_size e < 4611686018427387904" if "(k', e) \<in> set (new t)" for k' e t
    using set_map_put [OF that [unfolded new_def]] mem assms by (fastforce simp: cache_inv_def)
  ultimately have kept: "cache_inv (c\<lparr>pc_readings := n, pc_data := new t\<rparr>, m)" for n t
    using assms by (auto simp: cache_inv_def cache_ok_def)
  have "m k = Some (ce_resolvedPolicy res)" using assms mem by (auto simp: cache_inv_def)
  then show ?thesis using gone kept [unfolded new_def] by (simp add: Cache_Get_def now_def Some Let_def)
qed

lemma Cache_Set_cases:
  obtains c2 entry where "only_removes (c\<lparr>pc_readings := Suc (Suc (pc_readings c))\<rparr>) c2 \<or> \<not> cache_ok c"
    and "entry = \<lparr>ce_createdOn = clock (pc_readings c), ce_lastAccessedOn = clock (Suc (pc_readings c)), ce_resolvedPolicy = p, ce_size = psize p\<rparr>"
    and "c2 = freeSpace clock (psize p) (c\<lparr>pc_readings := Suc (Suc (pc_readings c))\<rparr>)"
    and "Cache_Set clock psize k p c = (if hasSpace (psize p) c2 then (False, c2)
      else (True, c2\<lparr>pc_data := map_put k entry (pc_data c2),
        pc_totalSize := i64 ((case map_get (pc_data c2) k of None \<Rightarrow> pc_totalSize c2 | Some e \<Rightarrow> i64 (pc_totalSize c2 - ce_size e)) + psize p)\<rparr>))"
proof
  show "only_removes (c\<lparr>pc_readings := Suc (Suc (pc_readings c))\<rparr>) (freeSpace clock (psize p) (c\<lparr>pc_readings := Suc (Suc (pc_readings c))\<rparr>)) \<or> \<not> cache_ok c"
    using freeSpace_removes [of "c\<lparr>pc_readings := Suc (Suc (pc_readings c))\<rparr>"] by auto
qed (simp_all add: Cache_Set_def now_def Let_def cong: if_cong option.case_cong)

lemma Cache_Set_inv:
  assumes "cache_inv (c, m)" and "sizes_small psize"
  shows "cache_inv (snd (Cache_Set clock psize k p c), if fst (Cache_Set clock psize k p c) then m(k \<mapsto> p) else m)"
proof -
  obtain c2 entry where c2: "only_removes (c\<lparr>pc_readings := Suc (Suc (pc_readings c))\<rparr>) c2 \<or> \<not> cache_ok c"
    and entry: "entry = \<lparr>ce_createdOn = clock (pc_readings c), ce_lastAccessedOn = clock (Suc (pc_readings c)), ce_resolvedPolicy = p, ce_size = psize p\<rparr>"
    and set: "Cache_Set clock psize k p c = (if hasSpace (psize p) c2 then (False, c2)
      else (True, c2\<lparr>pc_data := map_put k entry (pc_data c2),
        pc_totalSize := i64 ((case map_get (pc_data c2) k of None \<Rightarrow> pc_totalSize c2 | Some e \<Rightarrow> i64 (pc_totalSize c2 - ce_size e)) + psize p)\<rparr>))"
    by (rule Cache_Set_cases)
  have "cache_inv (c\<lparr>pc_readings := Suc (Suc (pc_readings c))\<rparr>, m)" "cache_ok c" using assms(1) by (simp_all add: cache_inv_def)
  with c2 have inv: "cache_inv (c2, m)" using cache_inv_removed by blast
  have map: "map_ok (pc_data c2)" and total: "pc_totalSize c2 = i64 (sizes (pc_data c2))" and lim: "pc_sizeLimit c2 < 4611686018427387904"
    and le: "0 < pc_sizeLimit c2 \<longrightarrow> sizes (pc_data c2) \<le> pc_sizeLimit c2"
    and e: "\<forall>(k, e) \<in> set (pc_data c2). m k = Some (ce_resolvedPolicy e) \<and> 0 \<le> ce_size e \<and> ce_size e < 4611686018427387904"
    using inv by (simp_all add: cache_inv_def cache_ok_def)
  have small: "0 \<le> psize p" "psize p < 4611686018427387904" using assms(2) by (simp_all add: sizes_small_def)
  let ?data = "map_put k entry (pc_data c2)"
  let ?old = "case map_get (pc_data c2) k of None \<Rightarrow> 0 | Some e \<Rightarrow> ce_size e"
  have sz: "sizes ?data = sizes (pc_data c2) - ?old + psize p" using map by (simp add: sizes_put entry split: option.split)
  have old: "0 \<le> ?old" using e by (auto dest: map_of_SomeD split: option.split)
  have nonneg: "0 \<le> sizes (pc_data c2)" using e by (intro sizes_nonneg) (auto simp: list_all_iff)
  have tot: "i64 ((case map_get (pc_data c2) k of None \<Rightarrow> pc_totalSize c2 | Some e \<Rightarrow> i64 (pc_totalSize c2 - ce_size e)) + psize p) = i64 (sizes ?data)"
    unfolding sz total by (simp add: i64_i64 split: option.split)
  have fits: "sizes ?data \<le> pc_sizeLimit c2" if "0 < pc_sizeLimit c2" "\<not> hasSpace (psize p) c2"
  proof -
    have "i64 (sizes (pc_data c2) + psize p) = sizes (pc_data c2) + psize p" using that(1) le lim nonneg small by (intro i64_small) auto
    then show ?thesis using that old by (simp add: hasSpace_def total i64_i64 sz)
  qed
  have elems: "(m(k \<mapsto> p)) k' = Some (ce_resolvedPolicy e') \<and> 0 \<le> ce_size e' \<and> ce_size e' < 4611686018427387904"
    if "(k', e') \<in> set ?data" for k' e'
  proof (cases "k' = k")
    case True
    have "map_get ?data k' = Some e'" by (rule iffD2 [OF map_get_Some_iff that]) (use map in simp)
    then show ?thesis using True small by (auto simp: entry)
  next
    case False
    then have "(k', e') \<in> set (pc_data c2)" using set_map_put [OF that] by simp
    then show ?thesis using e False by auto
  qed
  show ?thesis
  proof (cases "hasSpace (psize p) c2")
    case True
    then show ?thesis using inv by (simp add: set)
  next
    case False
    have ok: "map_ok ?data" using map by simp
    have "\<forall>(k', e') \<in> set ?data. (m(k \<mapsto> p)) k' = Some (ce_resolvedPolicy e') \<and> 0 \<le> ce_size e' \<and> ce_size e' < 4611686018427387904"
      using elems by blast
    then have "cache_inv (c2\<lparr>pc_data := ?data, pc_totalSize := i64 (sizes ?data)\<rparr>, m(k \<mapsto> p))"
      by (intro cache_invI) (simp_all add: ok lim fits [OF _ False])
    then show ?thesis unfolding set tot by (simp only: False if_False fst_conv snd_conv if_True)
  qed
qed

lemma cache_step_inv:
  assumes "cache_inv s" and "sizes_small psize"
  shows "cache_inv (cache_step clock psize s x)"
proof -
  obtain c m where s: "s = (c, m)" by fastforce
  show ?thesis
  proof (cases x)
    case (GetOp k)
    then show ?thesis using Cache_Get_inv [OF assms(1) [unfolded s]] by (simp add: cache_step_def s)
  next
    case (SetOp k p)
    obtain stored c' where e: "Cache_Set clock psize k p c = (stored, c')" by fastforce
    show ?thesis using Cache_Set_inv [OF assms(1) [unfolded s] assms(2), of clock k p] unfolding e fst_conv snd_conv
      by (simp only: cache_step_def s SetOp prod.case cache_op.case Let_def e)
  qed
qed

definition cache_run :: "(nat \<Rightarrow> int) \<Rightarrow> (ResolvedPolicy \<Rightarrow> int) \<Rightarrow> ResolvedPolicyCache \<Rightarrow> cache_op list
    \<Rightarrow> ResolvedPolicyCache \<times> (string \<Rightarrow> ResolvedPolicy option)" where
  "cache_run clock protoSize c ops = foldl (cache_step clock protoSize) (c, Map.empty) ops"

lemma Cache_Get_readings: "pc_sizeLimit (snd (Cache_Get clock k c)) = pc_sizeLimit c \<and> pc_readings c \<le> pc_readings (snd (Cache_Get clock k c))"
  by (auto simp: Cache_Get_def now_def Let_def split: option.split)

lemma Cache_Set_readings:
  assumes "cache_ok c"
  shows "pc_sizeLimit (snd (Cache_Set clock psize k p c)) = pc_sizeLimit c \<and> pc_readings c \<le> pc_readings (snd (Cache_Set clock psize k p c))"
proof -
  from Cache_Set_cases [of c clock p psize k] obtain c2 where c2: "only_removes (c\<lparr>pc_readings := Suc (Suc (pc_readings c))\<rparr>) c2"
    "\<exists>d t. snd (Cache_Set clock psize k p c) = c2\<lparr>pc_data := d, pc_totalSize := t\<rparr> \<or> snd (Cache_Set clock psize k p c) = c2"
    using assms by (metis snd_conv)
  then show ?thesis by (auto simp: only_removes_def)
qed

lemma cache_run_inv:
  assumes "NewResolvedPolicyCache L = Some c0" and "L < 4611686018427387904" and "sizes_small psize"
  shows "cache_inv (cache_run clock psize c0 ops) \<and> pc_sizeLimit (fst (cache_run clock psize c0 ops)) = L"
proof -
  have c0: "c0 = \<lparr>pc_data = [], pc_totalSize = 0, pc_sizeLimit = L, pc_readings = 0\<rparr>"
    using assms(1) by (simp add: NewResolvedPolicyCache_def split: if_splits)
  have "cache_inv (c0, Map.empty)" using assms(1,2) by (simp add: c0 cache_inv_def cache_ok_def sizes_def i64_def)
  moreover have "pc_sizeLimit (fst (cache_step clock psize s x)) = pc_sizeLimit (fst s)" if "cache_inv s" for s x
  proof -
    obtain c m where sm: "s = (c, m)" by fastforce
    have ok: "cache_ok c" using that by (simp add: sm cache_inv_def)
    show ?thesis
    proof (cases x)
      case (GetOp k)
      show ?thesis unfolding sm GetOp by (simp add: cache_step_def Cache_Get_readings)
    next
      case (SetOp k p)
      show ?thesis unfolding sm SetOp using Cache_Set_readings [OF ok, of clock psize k p] by (simp add: cache_step_def Let_def case_prod_unfold)
    qed
  qed
  ultimately show ?thesis unfolding cache_run_def
    by (intro foldl_inv [where I = "\<lambda>s. cache_inv s \<and> pc_sizeLimit (fst s) = L"]) (simp_all add: c0 cache_step_inv [OF _ assms(3)])
qed

text \<open>C21: whatever is looked up and stored, a cache with a limit never holds more than the limit, its total is the sum of the
  sizes of its entries, and what a look-up returns is the last policy that was accepted under the key.\<close>

theorem policy_cache_within_limit:
  assumes "NewResolvedPolicyCache L = Some c0" and "L < 4611686018427387904" and "sizes_small psize"
    and "cache_run clock psize c0 ops = (c, m)"
  shows "(0 < L \<longrightarrow> pc_totalSize c = sizes (pc_data c) \<and> sizes (pc_data c) \<le> L) \<and> map_ok (pc_data c)
    \<and> (\<forall>k p. fst (Cache_Get clock k c) = Some p \<longrightarrow> m k = Some p)"
proof -
  have inv: "cache_inv (c, m)" "pc_sizeLimit c = L" using cache_run_inv [OF assms(1-3), of clock ops] unfolding assms(4) by simp_all
  have "0 \<le> sizes (pc_data c)" using inv(1) by (rule cache_inv_nonneg)
  then have "pc_totalSize c = sizes (pc_data c) \<and> sizes (pc_data c) \<le> L" if "0 < L"
    using that inv assms(2) by (simp add: cache_inv_def cache_ok_def i64_small)
  moreover have "map_ok (pc_data c)" using inv(1) by (simp add: cache_inv_def cache_ok_def)
  moreover note Cache_Get_inv [OF inv(1), of clock]
  ultimately show ?thesis by blast
qed

text \<open>With a clock that does not run backwards, and keys that are not empty, there is always room for what fits.\<close>

lemma timely_readings: "timely clock c \<Longrightarrow> pc_readings c \<le> n \<Longrightarrow> timely clock (c\<lparr>pc_readings := n\<rparr>)"
  unfolding timely_def by fastforce

lemma timely_put:
  assumes "timely clock c" and "k \<noteq> ''''" and "mono clock" and "ce_lastAccessedOn e = clock i" and "i \<le> pc_readings c"
  shows "timely clock (c\<lparr>pc_data := map_put k e (pc_data c), pc_totalSize := t\<rparr>)"
  unfolding timely_def using assms by (auto dest!: set_map_put simp: timely_def monoD)

lemma Cache_Get_timely:
  assumes "timely clock c" and "cache_ok c" and "mono clock" and "k \<noteq> ''''"
  shows "timely clock (snd (Cache_Get clock k c))"
proof (cases "map_get (pc_data c) k")
  case (Some res)
  let ?c1 = "c\<lparr>pc_readings := Suc (pc_readings c)\<rparr>" and ?c2 = "c\<lparr>pc_readings := Suc (Suc (pc_readings c))\<rparr>"
  have "timely clock (remove_entry k res ?c1)"
    by (rule timely_removed [OF remove_entry_removes timely_readings]) (use assms Some in simp_all)
  moreover have "timely clock (?c2\<lparr>pc_data := map_put k (res\<lparr>ce_lastAccessedOn := clock (Suc (pc_readings c))\<rparr>) (pc_data ?c2), pc_totalSize := pc_totalSize c\<rparr>)"
    by (rule timely_put [OF timely_readings [OF assms(1)] assms(4,3), where i = "Suc (pc_readings c)"]) simp_all
  ultimately show ?thesis by (simp add: Cache_Get_def now_def Some Let_def)
qed (use assms in \<open>simp add: Cache_Get_def\<close>)

lemma Cache_Set_accepts:
  assumes "timely clock c" and "cache_inv (c, m)" and "mono clock" and "k \<noteq> ''''" and "sizes_small psize"
  shows "timely clock (snd (Cache_Set clock psize k p c)) \<and> (fst (Cache_Set clock psize k p c) \<longleftrightarrow> pc_sizeLimit c = 0 \<or> pc_sizeLimit c < 0 \<or> psize p \<le> pc_sizeLimit c)
    \<and> (fst (Cache_Set clock psize k p c) \<longrightarrow> (\<exists>e. map_get (pc_data (snd (Cache_Set clock psize k p c))) k = Some e \<and> ce_resolvedPolicy e = p
        \<and> ce_createdOn e = clock (pc_readings c)))"
proof -
  let ?c1 = "c\<lparr>pc_readings := Suc (Suc (pc_readings c))\<rparr>"
  have ok: "cache_ok c" using assms(2) by (simp add: cache_inv_def)
  obtain c2 entry where c2: "only_removes ?c1 c2 \<or> \<not> cache_ok c"
    and entry: "entry = \<lparr>ce_createdOn = clock (pc_readings c), ce_lastAccessedOn = clock (Suc (pc_readings c)), ce_resolvedPolicy = p, ce_size = psize p\<rparr>"
    and room: "c2 = freeSpace clock (psize p) ?c1"
    and set: "Cache_Set clock psize k p c = (if hasSpace (psize p) c2 then (False, c2)
      else (True, c2\<lparr>pc_data := map_put k entry (pc_data c2),
        pc_totalSize := i64 ((case map_get (pc_data c2) k of None \<Rightarrow> pc_totalSize c2 | Some e \<Rightarrow> i64 (pc_totalSize c2 - ce_size e)) + psize p)\<rparr>))"
    by (rule Cache_Set_cases)
  have o: "only_removes ?c1 c2" using c2 ok by simp
  have t1: "timely clock ?c1" using assms(1) by (rule timely_readings) simp
  then have t2: "timely clock c2" using o timely_removed by blast
  have i2: "cache_inv (c2, m)" by (rule cache_inv_removed [OF _ o]) (use assms(2) in \<open>simp add: cache_inv_def\<close>)
  have lim: "pc_sizeLimit c2 = pc_sizeLimit c" "pc_sizeLimit c < 4611686018427387904" and r: "Suc (pc_readings c) \<le> pc_readings c2"
    using o i2 by (auto simp: only_removes_def cache_inv_def)
  have total: "pc_totalSize c2 = i64 (sizes (pc_data c2))" and nonneg: "0 \<le> sizes (pc_data c2)"
    and le: "0 < pc_sizeLimit c2 \<longrightarrow> sizes (pc_data c2) \<le> pc_sizeLimit c2"
    using i2 cache_inv_nonneg [OF i2] by (simp_all add: cache_inv_def cache_ok_def)
  have small: "0 \<le> psize p" "psize p < 4611686018427387904" using assms(5) by (simp_all add: sizes_small_def)
  have space: "hasSpace (psize p) c2 \<longleftrightarrow> 0 < pc_sizeLimit c \<and> pc_sizeLimit c < sizes (pc_data c2) + psize p"
  proof (cases "0 < pc_sizeLimit c")
    case True
    then have "i64 (sizes (pc_data c2) + psize p) = sizes (pc_data c2) + psize p" using le lim nonneg small by (intro i64_small) auto
    then show ?thesis using True by (simp add: hasSpace_def total i64_i64 lim)
  qed (simp add: hasSpace_def lim)
  have "pc_data c2 = []" if "hasSpace (psize p) c2"
    using that make_room_enough [of ?c1 clock "psize p"] ok t1 unfolding room freeSpace_def by (auto split: if_splits)
  then have acc: "\<not> hasSpace (psize p) c2 \<longleftrightarrow> pc_sizeLimit c = 0 \<or> pc_sizeLimit c < 0 \<or> psize p \<le> pc_sizeLimit c"
    using space nonneg by (auto simp: sizes_def)
  have "timely clock (c2\<lparr>pc_data := map_put k entry (pc_data c2), pc_totalSize := t\<rparr>)" for t
    by (rule timely_put [OF t2 assms(4,3) _ r]) (simp add: entry)
  then show ?thesis unfolding set using t2 acc by (cases "hasSpace (psize p) c2") (simp_all add: entry, linarith?)
qed

definition op_keyed :: "cache_op \<Rightarrow> bool" where
  "op_keyed x \<longleftrightarrow> (case x of GetOp k \<Rightarrow> k \<noteq> '''' | SetOp k p \<Rightarrow> k \<noteq> '''')"

lemma cache_run_timely:
  assumes "NewResolvedPolicyCache L = Some c0" and "L < 4611686018427387904" and "sizes_small psize" and "mono clock" and "list_all op_keyed ops"
  shows "timely clock (fst (cache_run clock psize c0 ops))"
  using assms(5)
proof (induction ops rule: rev_induct)
  case Nil
  then show ?case using assms(1) by (auto simp: cache_run_def NewResolvedPolicyCache_def timely_def split: if_splits)
next
  case (snoc x ops)
  obtain c m where e: "cache_run clock psize c0 ops = (c, m)" by fastforce
  have t: "timely clock c" using snoc e by simp
  have inv: "cache_inv (c, m)" using cache_run_inv [OF assms(1-3), of clock ops] by (simp add: e)
  then have ok: "cache_ok c" by (simp add: cache_inv_def)
  have run: "cache_run clock psize c0 (ops @ [x]) = cache_step clock psize (c, m) x" using e by (simp add: cache_run_def)
  show ?case
  proof (cases x)
    case (GetOp k)
    then show ?thesis using snoc.prems Cache_Get_timely [OF t ok assms(4)] unfolding run by (simp add: cache_step_def op_keyed_def)
  next
    case (SetOp k p)
    then have "k \<noteq> ''''" using snoc.prems by (simp add: op_keyed_def)
    from Cache_Set_accepts [OF t inv assms(4) this assms(3), of p] show ?thesis
      unfolding run by (simp add: cache_step_def SetOp Let_def case_prod_unfold)
  qed
qed

text \<open>Looking up keys, the own one too, keeps an entry that is not expired.\<close>

definition look_ups :: "(nat \<Rightarrow> int) \<Rightarrow> string list \<Rightarrow> ResolvedPolicyCache \<Rightarrow> ResolvedPolicyCache" where
  "look_ups clock ks c = foldl (\<lambda>c k. snd (Cache_Get clock k c)) c ks"

definition entry_since :: "string \<Rightarrow> ResolvedPolicy \<Rightarrow> int \<Rightarrow> ResolvedPolicyCache \<Rightarrow> bool" where
  "entry_since k p t c \<longleftrightarrow> (\<exists>e. map_get (pc_data c) k = Some e \<and> ce_resolvedPolicy e = p \<and> ce_createdOn e = t)"

lemma look_up_keeps:
  assumes "entry_since k p t c" and "clock (pc_readings c) - t \<le> ResolvedPolicyCacheTTL"
  shows "entry_since k p t (snd (Cache_Get clock k' c)) \<and> fst (Cache_Get clock k c) = Some p"
proof
  show "fst (Cache_Get clock k c) = Some p" using assms by (auto simp: entry_since_def Cache_Get_def now_def)
  show "entry_since k p t (snd (Cache_Get clock k' c))"
  proof (cases "k' = k")
    case True
    then show ?thesis using assms by (auto simp: entry_since_def Cache_Get_def now_def)
  next
    case False
    then show ?thesis using assms(1) by (auto simp: entry_since_def Cache_Get_def now_def Let_def split: option.split)
  qed
qed

text \<open>An entry that is not there any more was expired when it was removed.\<close>

lemma look_up_since:
  assumes "entry_since k p t c \<or> (map_get (pc_data c) k = None \<and> clock (pc_readings c) - t > ResolvedPolicyCacheTTL)" and "mono clock"
  shows "entry_since k p t (snd (Cache_Get clock k' c))
    \<or> (map_get (pc_data (snd (Cache_Get clock k' c))) k = None \<and> clock (pc_readings (snd (Cache_Get clock k' c))) - t > ResolvedPolicyCacheTTL)"
proof -
  have le: "clock (pc_readings c) \<le> clock (pc_readings (snd (Cache_Get clock k' c)))"
    using Cache_Get_readings [of clock k' c] assms(2) by (auto intro: monoD)
  show ?thesis
  proof (cases "clock (pc_readings c) - t \<le> ResolvedPolicyCacheTTL")
    case True
    then show ?thesis using assms(1) look_up_keeps [of k p t c clock k'] by auto
  next
    case False
    have "map_get (pc_data (snd (Cache_Get clock k' c))) k = None \<or> entry_since k p t (snd (Cache_Get clock k' c))"
    proof (cases "k' = k")
      case True
      then show ?thesis using assms(1) False by (auto simp: entry_since_def Cache_Get_def now_def delete_conv)
    next
      case other: False
      then show ?thesis using assms(1) by (auto simp: entry_since_def Cache_Get_def now_def Let_def split: option.split)
    qed
    then show ?thesis using False le by auto
  qed
qed

lemma look_ups_find:
  assumes "entry_since k p t c" and "mono clock"
  shows "fst (Cache_Get clock k (look_ups clock ks c))
    = (if clock (pc_readings (look_ups clock ks c)) - t \<le> ResolvedPolicyCacheTTL then Some p else None)"
proof -
  let ?ok = "\<lambda>c. entry_since k p t c \<or> (map_get (pc_data c) k = None \<and> clock (pc_readings c) - t > ResolvedPolicyCacheTTL)"
  have "?ok (look_ups clock ks c)" unfolding look_ups_def
    by (rule foldl_inv [where I = ?ok]) (use assms(1) look_up_since [OF _ assms(2)] in blast)+
  then show ?thesis by (auto simp: entry_since_def Cache_Get_def now_def)
qed


text \<open>A cache for two policies: the one that was not used last makes room for the third.\<close>

definition cached_policy :: "string \<Rightarrow> ResolvedPolicy" where
  "cached_policy csum = \<lparr>rpo_ExecutionJob = \<lparr>xj_Checksum = '''', xj_Queries = []\<rparr>,
     rpo_CollectorJob = \<lparr>cj_Checksum = '''', cj_ReportingJobs = [], cj_ReportingQueries = [], cj_Datapoints = [], cj_RiskMrns = [],
       cj_RiskFactors = [], cj_RiskDataQueries = []\<rparr>,
     rpo_Filters = [], rpo_GraphExecutionChecksum = csum, rpo_FiltersChecksum = '''', rpo_ReportingJobUuid = ''''\<rparr>"

definition three_policies :: "cache_op list" where
  "three_policies = [SetOp ''a'' (cached_policy ''1''), SetOp ''b'' (cached_policy ''2''), GetOp ''a'', SetOp ''c'' (cached_policy ''3'')]"

definition cache_for_two :: ResolvedPolicyCache where
  "cache_for_two = \<lparr>pc_data = [], pc_totalSize = 0, pc_sizeLimit = 7, pc_readings = 0\<rparr>"

lemma cache_for_two_premises:
  "NewResolvedPolicyCache 7 = Some cache_for_two" "(7 :: int) < 4611686018427387904" "sizes_small (\<lambda>p. 3)" "mono int" "list_all op_keyed three_policies"
  by (simp_all add: NewResolvedPolicyCache_def cache_for_two_def sizes_small_def monoI three_policies_def op_keyed_def)

theorem policy_cache_within_limit_witness:
  "case cache_run int (\<lambda>p. 3) cache_for_two three_policies of (c, m) \<Rightarrow>
     map fst (pc_data c) = [''a'', ''c''] \<and> pc_totalSize c = sizes (pc_data c) \<and> sizes (pc_data c) \<le> 7"
proof -
  obtain c m where e: "cache_run int (\<lambda>p. 3) cache_for_two three_policies = (c, m)" by fastforce
  have "map fst (pc_data (fst (cache_run int (\<lambda>p. 3) cache_for_two three_policies))) = [''a'', ''c'']" by code_simp
  with policy_cache_within_limit [OF cache_for_two_premises(1-3) e] show ?thesis by (simp add: e)
qed


end
