(* ===== verification/Data_Lake.thy ===== *)
theory Data_Lake
  imports Policy_Cache Collector
begin

text \<open>
  The data lake of a local scan (\<open>internal/datalakes/inmemory/policyresolver.go\<close>, \<open>inmemory.go\<close>, \<open>assets.go\<close>, \<open>kiss.go\<close>): the
  resolved policies of assets, their scores, data and risks, and the reports made of them. Everything is in one key-value store
  whose values have no common type: a value that is not of the type its reader asserts is a panic. The store never refuses a
  value, so the errors for that case are left out; the other errors are values, their texts are left out. The writer of the data lake is the one of the store.
  The clock in seconds, the clock and the encoded size for the cache of resolved policies and the values of the query engine are
  the fs of \<open>lake_env\<close>.
\<close>

subsection \<open>What is stored\<close>

record StoredScore = Score +
  ls_ValueModifiedTime :: int
  ls_FailureTime :: int

record wrapAsset =
  wa_mrn :: string
  wa_resolvedPolicyVersion :: string
  wa_ResolvedPolicy :: "ResolvedPolicy option"

record LakePolicy = Policy +
  lp_OwnerMrn :: string
  lp_LocalContentChecksum :: string
  lp_LocalExecutionChecksum :: string
  lp_GraphContentChecksum :: string

record wrapPolicy =
  wp_Policy :: LakePolicy
  wp_invalidated :: bool
  wp_parents :: "(string, unit) gomap"
  wp_children :: "(string, unit) gomap"

record LakeFramework = Framework +
  lf_GraphContentChecksum :: string

record wrapFramework =
  wf_Framework :: LakeFramework
  wf_invalidated :: bool
  wf_parents :: "(string, unit) gomap"
  wf_children :: "(string, unit) gomap"

record LakeFrameworkMap = FrameworkMap +
  lm_Mrn :: string

record wrapBundle =
  wb_Bundle :: Bundle
  wb_graphContentChecksum :: string
  wb_policyChecksum :: string
  wb_frameworkChecksum :: string
  wb_invalidated :: bool

datatype cache_value =
    CQuery Mquery | CProperty Property | CPolicy wrapPolicy | CBundle wrapBundle | CPolicyList "(string, unit) gomap"
  | CScore StoredScore | CData Result | CAsset wrapAsset | CRiskFactor RiskFactor | CAssetRisks "(string, ScoredRiskFactor) gomap"
  | CFramework wrapFramework | CFrameworkMaps "(string, LakeFrameworkMap) gomap"

type_synonym kissDb = "(string, cache_value) gomap"

definition kissDb_Get :: "string \<Rightarrow> kissDb \<Rightarrow> cache_value option" where
  "kissDb_Get key d = map_get d key"

definition kissDb_Set :: "string \<Rightarrow> cache_value \<Rightarrow> kissDb \<Rightarrow> kissDb" where
  "kissDb_Set key v d = map_put key v d"

definition kissDb_Del :: "string \<Rightarrow> kissDb \<Rightarrow> kissDb" where
  "kissDb_Del key d = map_del key d"

text \<open>The keys: a prefix that ends in a NUL for every kind of value.\<close>

definition dbIDQuery :: "string \<Rightarrow> string" where [simp]: "dbIDQuery mrn = CHR ''q'' # CHR 0x00 # mrn"
definition dbIDProp :: "string \<Rightarrow> string" where [simp]: "dbIDProp mrn = CHR ''q'' # CHR ''p'' # CHR 0x00 # mrn"
definition dbIDPolicy :: "string \<Rightarrow> string" where [simp]: "dbIDPolicy mrn = CHR ''p'' # CHR 0x00 # mrn"
definition dbIDBundle :: "string \<Rightarrow> string" where [simp]: "dbIDBundle mrn = CHR ''b'' # CHR 0x00 # mrn"
definition dbIDListPolicies :: string where [simp]: "dbIDListPolicies = [CHR ''p'', CHR ''l'', CHR 0x00]"
definition dbIDScore :: "string \<Rightarrow> string \<Rightarrow> string" where [simp]: "dbIDScore assetMrn qrID = CHR ''s'' # CHR 0x00 # assetMrn @ CHR 0x00 # qrID"
definition dbIDData :: "string \<Rightarrow> string \<Rightarrow> string" where [simp]: "dbIDData assetMrn csum = CHR ''d'' # CHR 0x00 # assetMrn @ CHR 0x00 # csum"
definition dbIDAsset :: "string \<Rightarrow> string" where [simp]: "dbIDAsset mrn = CHR ''a'' # CHR 0x00 # mrn"
definition dbIDResolvedPolicy :: "string \<Rightarrow> string \<Rightarrow> string" where
  [simp]: "dbIDResolvedPolicy graph filters = CHR ''r'' # CHR ''p'' # CHR 0x00 # graph @ CHR 0x00 # filters"
definition dbIDRiskFactor :: "string \<Rightarrow> string" where [simp]: "dbIDRiskFactor mrn = CHR ''r'' # CHR ''f'' # CHR 0x00 # mrn"
definition dbIDAssetRisk :: "string \<Rightarrow> string" where [simp]: "dbIDAssetRisk mrn = CHR ''a'' # CHR ''r'' # CHR 0x00 # mrn"
definition dbIDFramework :: "string \<Rightarrow> string" where [simp]: "dbIDFramework mrn = CHR ''f'' # CHR 0x00 # mrn"
definition dbIDFrameworkMap :: "string \<Rightarrow> string" where [simp]: "dbIDFrameworkMap mrn = CHR ''f'' # CHR ''m'' # CHR 0x00 # mrn"

subsection \<open>Operations that fail, panic and change the lake\<close>

datatype lake_error =
    NoScore | NoData | NoAsset string | NoResolvedPolicy string | NoRiskMetadata string | NoCollectorJob string
  | UnknownDatapoint string | TypesDontMatch "(string \<times> string \<times> string) list"
  | NoQuery string | NoPolicy string | NoChildPolicy string | NoFramework string | HasParents string nat | PolicyCacheFull string

record lake_env =
  le_now :: "nat \<Rightarrow> int"
  le_cacheClock :: "nat \<Rightarrow> int"
  le_protoSize :: "ResolvedPolicy \<Rightarrow> int"
  le_NilPrimitive :: Primitive
  le_IsNil :: "Primitive \<Rightarrow> bool"
  le_Unset :: string

record Db =
  db_cache :: kissDb
  db_resolvedPolicyCache :: ResolvedPolicyCache
  db_readings :: nat

type_synonym 'a lake = "Db \<Rightarrow> ((lake_error + 'a) \<times> Db) go"

definition lk_return :: "'a \<Rightarrow> 'a lake" where
  "lk_return x db = Inr (Inr x, db)"

definition lk_fail :: "lake_error \<Rightarrow> 'a lake" where
  "lk_fail e db = Inr (Inl e, db)"

definition lk_panic :: "panic \<Rightarrow> 'a lake" where
  "lk_panic p db = Inl p"

definition lk_bind :: "'a lake \<Rightarrow> ('a \<Rightarrow> 'b lake) \<Rightarrow> 'b lake" where
  "lk_bind m f db = go_bind (m db) (\<lambda>(r, db). case r of Inl e \<Rightarrow> Inr (Inl e, db) | Inr x \<Rightarrow> f x db)"

text \<open>A call whose error the caller looks at.\<close>

definition lk_try :: "'a lake \<Rightarrow> (lake_error + 'a) lake" where
  "lk_try m db = go_bind (m db) (\<lambda>(r, db). Inr (Inr r, db))"

fun lk_fold :: "('s \<Rightarrow> 'a \<Rightarrow> 's lake) \<Rightarrow> 's \<Rightarrow> 'a list \<Rightarrow> 's lake" where
  "lk_fold f s [] = lk_return s"
| "lk_fold f s (x # xs) = lk_bind (f s x) (\<lambda>s. lk_fold f s xs)"

definition lk_get :: "string \<Rightarrow> cache_value option lake" where
  "lk_get key db = Inr (Inr (kissDb_Get key (db_cache db)), db)"

definition lk_set :: "string \<Rightarrow> cache_value \<Rightarrow> unit lake" where
  "lk_set key v db = Inr (Inr (), db\<lparr>db_cache := kissDb_Set key v (db_cache db)\<rparr>)"

definition lk_now :: "lake_env \<Rightarrow> int lake" where
  "lk_now E db = Inr (Inr (le_now E (db_readings db)), db\<lparr>db_readings := Suc (db_readings db)\<rparr>)"

definition wrong_type :: panic where
  "wrong_type = Bug ''interface conversion''"

subsection \<open>The writer\<close>

definition WriteScore :: "string \<Rightarrow> StoredScore \<Rightarrow> unit lake" where
  "WriteScore assetMrn score = lk_set (dbIDScore assetMrn (sc_QrId score)) (CScore score)"

definition GetScore :: "string \<Rightarrow> string \<Rightarrow> StoredScore lake" where
  "GetScore assetMrn scoreID = lk_bind (lk_get (dbIDScore assetMrn scoreID)) (\<lambda>x. case x of
     None \<Rightarrow> lk_fail NoScore | Some (CScore s) \<Rightarrow> lk_return s | Some _ \<Rightarrow> lk_panic wrong_type)"

definition WriteData :: "string \<Rightarrow> Result \<Rightarrow> unit lake" where
  "WriteData assetMrn value = lk_set (dbIDData assetMrn (re_CodeID value)) (CData value)"

definition GetDatum :: "string \<Rightarrow> string \<Rightarrow> Result lake" where
  "GetDatum assetMrn qrId = lk_bind (lk_get (dbIDData assetMrn qrId)) (\<lambda>x. case x of
     None \<Rightarrow> lk_fail NoData | Some (CData r) \<Rightarrow> lk_return r | Some _ \<Rightarrow> lk_panic wrong_type)"

definition asset_risks :: "string \<Rightarrow> (string, ScoredRiskFactor) gomap lake" where
  "asset_risks assetMrn = lk_bind (lk_get (dbIDAssetRisk assetMrn)) (\<lambda>x. case x of
     None \<Rightarrow> lk_return [] | Some (CAssetRisks m) \<Rightarrow> lk_return m | Some _ \<Rightarrow> lk_panic wrong_type)"

definition WriteRisk :: "string \<Rightarrow> ScoredRiskFactor \<Rightarrow> unit lake" where
  "WriteRisk assetMrn risk = lk_bind (asset_risks assetMrn) (\<lambda>existingRisks.
     lk_set (dbIDAssetRisk assetMrn) (CAssetRisks (map_put (sr_Mrn risk) risk existingRisks)))"

definition GetRisk :: "string \<Rightarrow> string \<Rightarrow> ScoredRiskFactor option lake" where
  "GetRisk assetMrn riskMrn = lk_bind (asset_risks assetMrn) (\<lambda>existingRisks. lk_return (map_get existingRisks riskMrn))"

definition StreamRisks :: "string \<Rightarrow> ('s \<Rightarrow> ScoredRiskFactor \<Rightarrow> 's lake) \<Rightarrow> 's \<Rightarrow> 's lake" where
  "StreamRisks assetMrn f s = lk_bind (asset_risks assetMrn) (\<lambda>existingRisks. lk_fold f s (map snd existingRisks))"

subsection \<open>Scores\<close>

definition GetScores :: "string \<Rightarrow> string list \<Rightarrow> (string, StoredScore) gomap lake" where
  "GetScores assetMrn qrIDs = lk_fold (\<lambda>res qrID. lk_bind (GetScore assetMrn qrID) (\<lambda>score. lk_return (map_put qrID score res))) [] qrIDs"

definition same_score :: "StoredScore \<Rightarrow> Score \<Rightarrow> bool" where
  "same_score org score \<longleftrightarrow> sc_Value org = sc_Value score \<and> sc_Type org = sc_Type score \<and> sc_DataCompletion org = sc_DataCompletion score
     \<and> sc_DataTotal org = sc_DataTotal score \<and> sc_ScoreCompletion org = sc_ScoreCompletion score \<and> sc_Weight org = sc_Weight score"

text \<open>The time the value was modified and the time of the failure.\<close>

definition score_times :: "StoredScore option \<Rightarrow> Score \<Rightarrow> int \<Rightarrow> int \<times> int" where
  "score_times prev score t = (case prev of
     None \<Rightarrow> (t, if sc_Value score = 100 \<or> sc_ScoreCompletion score < 100 then 0 else t)
   | Some org \<Rightarrow>
       if sc_ScoreCompletion org = 0 \<and> sc_Type score = ScoreType_Result
       then (t, if sc_Value score = 100 \<or> sc_ScoreCompletion score < 100 then 0 else t)
       else if (sc_Value org \<noteq> sc_Value score \<or> sc_ScoreCompletion org = 0) \<and> sc_Type score = ScoreType_Result
       then (t, if sc_Value org = 100 then t else ls_FailureTime org)
       else (ls_ValueModifiedTime org, ls_FailureTime org))"

definition stored_score :: "Score \<Rightarrow> int \<times> int \<Rightarrow> StoredScore" where
  "stored_score s = (\<lambda>(m, f). Score.extend s \<lparr>ls_ValueModifiedTime = m, ls_FailureTime = f\<rparr>)"

definition updateScore :: "string \<Rightarrow> Score \<Rightarrow> int \<Rightarrow> bool lake" where
  "updateScore assetMrn score t = lk_bind (lk_try (GetScore assetMrn (sc_QrId score))) (\<lambda>r.
     let prev = (case r of Inl e \<Rightarrow> None | Inr org \<Rightarrow> Some org) in
     if (case prev of None \<Rightarrow> False | Some org \<Rightarrow> same_score org score) then lk_return False
     else lk_bind (WriteScore assetMrn (stored_score score (score_times prev score t))) (\<lambda>_. lk_return True))"

definition UpdateScores :: "lake_env \<Rightarrow> string \<Rightarrow> Score list \<Rightarrow> (string, unit) gomap lake" where
  "UpdateScores E assetMrn scores = lk_bind (lk_now E) (\<lambda>t. lk_fold (\<lambda>updated score.
     lk_bind (updateScore assetMrn score t) (\<lambda>changed. lk_return (if changed then map_put (sc_QrId score) () updated else updated))) [] scores)"

definition initEmptyScore :: "lake_env \<Rightarrow> string \<Rightarrow> string \<Rightarrow> unit lake" where
  "initEmptyScore E assetMrn qrid = lk_bind (lk_now E) (\<lambda>t.
     lk_bind (updateScore assetMrn (zeroScore\<lparr>sc_QrId := qrid\<rparr>) t) (\<lambda>_. lk_return ()))"

subsection \<open>Resolved policies\<close>

definition ensureAssetObject :: "string \<Rightarrow> (wrapAsset \<times> bool) lake" where
  "ensureAssetObject mrn = lk_bind (lk_get (dbIDAsset mrn)) (\<lambda>x. case x of
     Some (CAsset a) \<Rightarrow> lk_return (a, False)
   | Some _ \<Rightarrow> lk_panic wrong_type
   | None \<Rightarrow> let assetw = \<lparr>wa_mrn = mrn, wa_resolvedPolicyVersion = '''', wa_ResolvedPolicy = None\<rparr> in
       lk_bind (lk_set (dbIDAsset mrn) (CAsset assetw)) (\<lambda>_. lk_return (assetw, True)))"

definition find_asset :: "string \<Rightarrow> wrapAsset lake" where
  "find_asset assetMrn = lk_bind (lk_get (dbIDAsset assetMrn)) (\<lambda>x. case x of
     None \<Rightarrow> lk_fail (NoAsset assetMrn) | Some (CAsset a) \<Rightarrow> lk_return a | Some _ \<Rightarrow> lk_panic wrong_type)"

definition GetResolvedPolicy :: "string \<Rightarrow> ResolvedPolicy lake" where
  "GetResolvedPolicy assetMrn = lk_bind (find_asset assetMrn) (\<lambda>assetw. case wa_ResolvedPolicy assetw of
     None \<Rightarrow> lk_fail (NoResolvedPolicy assetMrn) | Some rp \<Rightarrow> lk_return rp)"

definition GetCollectorJob :: "string \<Rightarrow> CollectorJob lake" where
  "GetCollectorJob assetMrn = lk_bind (find_asset assetMrn) (\<lambda>assetw. case wa_ResolvedPolicy assetw of
     None \<Rightarrow> lk_fail (NoResolvedPolicy assetMrn) | Some rp \<Rightarrow> lk_return (rpo_CollectorJob rp))"

definition initDataValue :: "lake_env \<Rightarrow> string \<Rightarrow> string \<Rightarrow> unit lake" where
  "initDataValue E assetMrn csum = WriteData assetMrn \<lparr>re_CodeID = csum, re_Error = '''', re_Data = Some (le_NilPrimitive E)\<rparr>"

text \<open>The ids of the scores of a resolved policy, in the order of its jobs; the root has that of the asset.\<close>

definition score_qrid :: "string \<Rightarrow> ReportingJob \<Rightarrow> string" where
  "score_qrid assetMrn job = (if pj_QrId job = ''root'' then assetMrn else pj_QrId job)"

definition scored_jobs :: "ResolvedPolicy \<Rightarrow> ReportingJob list" where
  "scored_jobs rp = filter (\<lambda>job. pj_Type job \<noteq> RJ_RISK_FACTOR) (map snd (cj_ReportingJobs (rpo_CollectorJob rp)))"

definition SetAssetResolvedPolicy :: "lake_env \<Rightarrow> string \<Rightarrow> ResolvedPolicy \<Rightarrow> string \<Rightarrow> unit lake" where
  "SetAssetResolvedPolicy E assetMrn resolvedPolicy version = lk_bind (find_asset assetMrn) (\<lambda>assetw.
     if (case wa_ResolvedPolicy assetw of None \<Rightarrow> False
         | Some rp \<Rightarrow> rpo_GraphExecutionChecksum rp = rpo_GraphExecutionChecksum resolvedPolicy \<and> wa_resolvedPolicyVersion assetw = version)
     then lk_return ()
     else let assetw = assetw\<lparr>wa_ResolvedPolicy := Some resolvedPolicy, wa_resolvedPolicyVersion := version\<rparr> in
       lk_bind (lk_fold (\<lambda>_ (csum, info). initDataValue E assetMrn csum) () (cj_Datapoints (rpo_CollectorJob resolvedPolicy))) (\<lambda>_.
       lk_bind (lk_fold (\<lambda>_ job. initEmptyScore E assetMrn (score_qrid assetMrn job)) () (scored_jobs resolvedPolicy)) (\<lambda>_.
       lk_set (dbIDAsset assetMrn) (CAsset assetw))))"

definition getRiskFactor :: "string \<Rightarrow> RiskFactor lake" where
  "getRiskFactor mrn = lk_bind (lk_get (dbIDRiskFactor mrn)) (\<lambda>x. case x of
     None \<Rightarrow> lk_fail (NoRiskMetadata mrn) | Some (CRiskFactor rf) \<Rightarrow> lk_return rf | Some _ \<Rightarrow> lk_panic wrong_type)"

definition SetRiskFactor :: "RiskFactor \<Rightarrow> unit lake" where
  "SetRiskFactor riskFactor = lk_set (dbIDRiskFactor (rf_Mrn riskFactor)) (CRiskFactor riskFactor)"

text \<open>\<open>SetResolvedPolicy\<close>: a risk factor that is known already is kept. A policy that was resolved upstream is no longer
  invalidated, with the checksum it had there.\<close>

definition keep_risk_factor :: "string \<times> RiskFactor \<Rightarrow> unit lake" where
  "keep_risk_factor = (\<lambda>(mrn, rf). lk_bind (lk_try (getRiskFactor mrn)) (\<lambda>r. case r of
     Inr _ \<Rightarrow> lk_return () | Inl _ \<Rightarrow> SetRiskFactor (rf\<lparr>rf_Mrn := mrn\<rparr>)))"

definition store_resolved :: "lake_env \<Rightarrow> string \<Rightarrow> ResolvedPolicy \<Rightarrow> unit lake" where
  "store_resolved E mrn rp db =
     (let (ok, cache) = Cache_Set (le_cacheClock E) (le_protoSize E)
        (dbIDResolvedPolicy (rpo_GraphExecutionChecksum rp) (rpo_FiltersChecksum rp)) rp (db_resolvedPolicyCache db);
          db = db\<lparr>db_resolvedPolicyCache := cache\<rparr>
      in if ok then Inr (Inr (), db) else Inr (Inl (PolicyCacheFull mrn), db))"

definition SetResolvedPolicy :: "lake_env \<Rightarrow> string \<Rightarrow> ResolvedPolicy \<Rightarrow> bool \<Rightarrow> unit lake" where
  "SetResolvedPolicy E mrn resolvedPolicy cached = lk_bind (store_resolved E mrn resolvedPolicy) (\<lambda>_.
     lk_bind (lk_fold (\<lambda>_. keep_risk_factor) () (cj_RiskFactors (rpo_CollectorJob resolvedPolicy))) (\<lambda>_.
     if \<not> cached then lk_return ()
     else lk_bind (lk_get (dbIDPolicy mrn)) (\<lambda>x. case x of
         None \<Rightarrow> lk_fail (NoPolicy mrn)
       | Some (CPolicy p) \<Rightarrow> lk_set (dbIDPolicy mrn) (CPolicy (p\<lparr>wp_Policy := (wp_Policy p)\<lparr>po_GraphExecutionChecksum := rpo_GraphExecutionChecksum resolvedPolicy\<rparr>,
           wp_invalidated := False\<rparr>))
       | Some _ \<Rightarrow> lk_panic wrong_type)))"

subsection \<open>Data and risks\<close>

definition GetData :: "string \<Rightarrow> string list \<Rightarrow> (string, Result) gomap lake" where
  "GetData assetMrn fs = lk_fold (\<lambda>res csum. lk_bind (GetDatum assetMrn csum) (\<lambda>x. lk_return (map_put csum x res))) [] fs"

definition type_mismatch :: "lake_env \<Rightarrow> DataQueryInfo \<Rightarrow> Result \<Rightarrow> bool" where
  "type_mismatch E info val = (case re_Data val of None \<Rightarrow> False
     | Some p \<Rightarrow> \<not> le_IsNil E p \<and> pr_Type p \<noteq> '''' \<and> pr_Type p \<noteq> dq_Type info \<and> dq_Type info \<noteq> le_Unset E)"

text \<open>Data of the wrong type is not stored and makes the whole update an error at the end; data no job asks for ends it at once.\<close>

definition UpdateData :: "lake_env \<Rightarrow> string \<Rightarrow> (string, Result) gomap \<Rightarrow> (string, string) gomap lake" where
  "UpdateData E assetMrn data = lk_bind (lk_try (GetCollectorJob assetMrn)) (\<lambda>r. case r of
     Inl _ \<Rightarrow> lk_fail (NoCollectorJob assetMrn)
   | Inr collectorJob \<Rightarrow> lk_bind (lk_fold (\<lambda>(res, errList) (dpChecksum, val). case map_get (cj_Datapoints collectorJob) dpChecksum of
         None \<Rightarrow> lk_fail (UnknownDatapoint dpChecksum)
       | Some info \<Rightarrow>
           if type_mismatch E info val
           then lk_return (res, errList @ [(dpChecksum, dq_Type info, case re_Data val of None \<Rightarrow> '''' | Some p \<Rightarrow> pr_Type p)])
           else lk_bind (WriteData assetMrn val) (\<lambda>_. lk_return (map_put dpChecksum (dq_Type info) res, errList))) ([], []) data)
       (\<lambda>(res, errList). if errList \<noteq> [] then lk_fail (TypesDontMatch errList) else lk_return res))"

definition UpdateRisks :: "string \<Rightarrow> ScoredRiskFactor list \<Rightarrow> (string, unit) gomap lake" where
  "UpdateRisks assetMrn data = lk_fold (\<lambda>updates scoredRisk.
     lk_bind (GetRisk assetMrn (sr_Mrn scoredRisk)) (\<lambda>existingRisk.
     lk_bind (WriteRisk assetMrn scoredRisk) (\<lambda>_.
     lk_return (if (case existingRisk of None \<Rightarrow> True | Some e \<Rightarrow> sr_IsDetected e \<noteq> sr_IsDetected scoredRisk)
       then map_put (sr_Mrn scoredRisk) () updates else updates)))) [] data"

definition GetScoredRisks :: "string \<Rightarrow> ScoredRiskFactor list lake" where
  "GetScoredRisks assetMrn = StreamRisks assetMrn (\<lambda>res risk. lk_bind (getRiskFactor (sr_Mrn risk)) (\<lambda>riskInfo.
     lk_return (res @ [\<lparr>sr_Mrn = sr_Mrn risk,
       sr_Risk = (if sr_IsDetected risk then mag_Value (rf_Magnitude riskInfo) else - mag_Value (rf_Magnitude riskInfo)),
       sr_IsToxic = mag_IsToxic (rf_Magnitude riskInfo), sr_IsDetected = sr_IsDetected risk\<rparr>]))) []"

text \<open>The results of a batch (\<open>LocalServices.StoreResults\<close> of \<open>policy/resolver.go\<close>) without an upstream and without resources.\<close>

definition StoreResults :: "lake_env \<Rightarrow> StoreResultsReq \<Rightarrow> unit lake" where
  "StoreResults E req = lk_bind (UpdateScores E (req_AssetMrn req) (req_Scores req)) (\<lambda>_.
     lk_bind (UpdateData E (req_AssetMrn req) (req_Data req)) (\<lambda>_.
     lk_bind (UpdateRisks (req_AssetMrn req) (req_Risks req)) (\<lambda>_. lk_return ())))"

subsection \<open>Reports\<close>

record Report =
  rt_EntityMrn :: string
  rt_ScoringMrn :: string
  rt_Score :: "StoredScore option"
  rt_Scores :: "(string, StoredScore) gomap"
  rt_Data :: "(string, Result) gomap"
  rt_Risks :: "ScoredRiskFactor list option"
  rt_RiskData :: "(string, (string, Result) gomap) gomap"
  rt_ResolvedPolicyVersion :: string

text \<open>The data that is shown along with a risk; what cannot be found is left out.\<close>

definition risk_data :: "string \<Rightarrow> CollectorJob \<Rightarrow> (string, (string, Result) gomap) gomap \<Rightarrow> ScoredRiskFactor
    \<Rightarrow> (string, (string, Result) gomap) gomap lake" where
  "risk_data assetMrn cj m risk = (case map_get (cj_RiskDataQueries cj) (sr_Mrn risk) of
     None \<Rightarrow> lk_return m
   | Some info \<Rightarrow> lk_bind (lk_fold (\<lambda>d (queryMrn, csum). lk_bind (lk_try (GetDatum assetMrn csum)) (\<lambda>r. case r of
         Inl _ \<Rightarrow> lk_return d | Inr x \<Rightarrow> lk_return (map_put queryMrn x d))) [] info)
       (\<lambda>d. lk_return (if d \<noteq> [] then map_put (sr_Mrn risk) d m else m)))"

definition included_scores :: "string \<Rightarrow> ResolvedPolicy \<Rightarrow> string list" where
  "included_scores assetMrn rp = map fst (foldl (\<lambda>m job. map_put (score_qrid assetMrn job) () m) [] (scored_jobs rp))"

definition GetReport :: "string \<Rightarrow> string \<Rightarrow> Report lake" where
  "GetReport assetMrn qrID =
     (let emptyReport = \<lparr>rt_EntityMrn = assetMrn, rt_ScoringMrn = qrID, rt_Score = None, rt_Scores = [], rt_Data = [], rt_Risks = None,
        rt_RiskData = [], rt_ResolvedPolicyVersion = ''''\<rparr> in
      lk_bind (lk_try (GetScore assetMrn qrID)) (\<lambda>r. case r of
        Inl _ \<Rightarrow> lk_return emptyReport
      | Inr score \<Rightarrow> lk_bind (find_asset assetMrn) (\<lambda>assetw. case wa_ResolvedPolicy assetw of
          None \<Rightarrow> lk_panic NilDereference
        | Some rp \<Rightarrow>
            lk_bind (GetScores assetMrn (included_scores assetMrn rp)) (\<lambda>scores.
            lk_bind (GetData assetMrn (map fst (cj_Datapoints (rpo_CollectorJob rp)))) (\<lambda>data.
            lk_bind (GetScoredRisks assetMrn) (\<lambda>risks.
            lk_bind (lk_fold (risk_data assetMrn (rpo_CollectorJob rp)) [] risks) (\<lambda>riskData.
            lk_return (emptyReport\<lparr>rt_Score := Some score, rt_Scores := scores, rt_Data := data, rt_Risks := Some risks,
              rt_RiskData := riskData, rt_ResolvedPolicyVersion := wa_resolvedPolicyVersion assetw\<rparr>))))))))"

end
