(* ===== verification/Policy_Hub.thy ===== *)
theory Policy_Hub
  imports Data_Lake
begin

text \<open>
  The policies, queries, properties and frameworks of the data lake (\<open>internal/datalakes/inmemory/policyhub.go\<close>): storing a policy
  tells its children who their parent is and invalidates the policy, its bundle and all its ancestors; a policy is deleted
  only if it has no parents. The invalidation recurses along the parents without a check for cycles: its first argument is
  the depth the call stack may grow to. Values are immutable here, so a clone is the value itself. What recomputes checksums
  (\<open>GetValidatedPolicy\<close>, \<open>GetValidatedBundle\<close>) is left out, as it calls the compiler.
\<close>

subsection \<open>Queries and properties\<close>

definition QueryExists :: "string \<Rightarrow> bool lake" where
  "QueryExists mrn = lk_bind (lk_get (dbIDQuery mrn)) (\<lambda>x. lk_return (x \<noteq> None))"

definition GetQuery :: "string \<Rightarrow> Mquery lake" where
  "GetQuery mrn = lk_bind (lk_get (dbIDQuery mrn)) (\<lambda>x. case x of
     None \<Rightarrow> lk_fail (NoQuery mrn) | Some (CQuery q) \<Rightarrow> lk_return q | Some _ \<Rightarrow> lk_panic wrong_type)"

definition SetQuery :: "string \<Rightarrow> Mquery \<Rightarrow> unit lake" where
  "SetQuery mrn mquery = lk_set (dbIDQuery mrn) (CQuery mquery)"

definition GetProperty :: "string \<Rightarrow> Property lake" where
  "GetProperty mrn = lk_bind (lk_get (dbIDProp mrn)) (\<lambda>x. case x of
     None \<Rightarrow> lk_fail (NoQuery mrn) | Some (CProperty p) \<Rightarrow> lk_return p | Some _ \<Rightarrow> lk_panic wrong_type)"

definition SetProperty :: "string \<Rightarrow> Property \<Rightarrow> unit lake" where
  "SetProperty mrn p = lk_set (dbIDProp mrn) (CProperty p)"

subsection \<open>Reading policies\<close>

definition PolicyExists :: "string \<Rightarrow> bool lake" where
  "PolicyExists mrn = lk_bind (lk_get (dbIDPolicy mrn)) (\<lambda>x. lk_return (x \<noteq> None))"

text \<open>The stored policy with its relations, if there is one.\<close>

definition find_policy :: "string \<Rightarrow> wrapPolicy option lake" where
  "find_policy mrn = lk_bind (lk_get (dbIDPolicy mrn)) (\<lambda>x. case x of
     None \<Rightarrow> lk_return None | Some (CPolicy w) \<Rightarrow> lk_return (Some w) | Some _ \<Rightarrow> lk_panic wrong_type)"

definition GetRawPolicy :: "string \<Rightarrow> LakePolicy lake" where
  "GetRawPolicy mrn = lk_bind (find_policy mrn) (\<lambda>x. case x of
     None \<Rightarrow> lk_fail (NoPolicy mrn) | Some w \<Rightarrow> lk_return (wp_Policy w))"

definition GetPolicyFilters :: "string \<Rightarrow> FilterQuery list lake" where
  "GetPolicyFilters mrn = lk_bind (GetRawPolicy mrn) (\<lambda>r.
     lk_return (case po_ComputedFilters r of None \<Rightarrow> [] | Some f \<Rightarrow> map snd (fi_Items f)))"

definition listPolicies :: "(string, unit) gomap lake" where
  "listPolicies = lk_bind (lk_get dbIDListPolicies) (\<lambda>x. case x of
     Some (CPolicyList l) \<Rightarrow> lk_return l
   | Some _ \<Rightarrow> lk_panic wrong_type
   | None \<Rightarrow> lk_bind (lk_set dbIDListPolicies (CPolicyList [])) (\<lambda>_. lk_return []))"

definition ListPolicies :: "string \<Rightarrow> LakePolicy list lake" where
  "ListPolicies ownerMrn = lk_bind listPolicies (\<lambda>mrns. lk_fold (\<lambda>res k. lk_bind (GetRawPolicy k) (\<lambda>policyObj.
     lk_return (if lp_OwnerMrn policyObj \<noteq> ownerMrn then res else res @ [policyObj]))) [] (map fst mrns))"

subsection \<open>Invalidation\<close>

definition invalidate_bundle :: "string \<Rightarrow> unit lake" where
  "invalidate_bundle mrn = lk_bind (lk_get (dbIDBundle mrn)) (\<lambda>x. case x of
     None \<Rightarrow> lk_return ()
   | Some (CBundle b) \<Rightarrow> if wb_invalidated b then lk_return () else lk_set (dbIDBundle mrn) (CBundle (b\<lparr>wb_invalidated := True\<rparr>))
   | Some _ \<Rightarrow> lk_panic wrong_type)"

definition invalidate_policy :: "wrapPolicy \<Rightarrow> unit lake" where
  "invalidate_policy w = (if wp_invalidated w then lk_return ()
     else lk_set (dbIDPolicy (po_Mrn (wp_Policy w))) (CPolicy (w\<lparr>wp_invalidated := True\<rparr>)))"

fun invalidatePolicyAndBundleAncestors :: "nat \<Rightarrow> wrapPolicy \<Rightarrow> unit lake" where
  "invalidatePolicyAndBundleAncestors 0 w = lk_panic StackOverflow"
| "invalidatePolicyAndBundleAncestors (Suc k) w = (let mrn = po_Mrn (wp_Policy w) in
     lk_bind (invalidate_policy w) (\<lambda>_. lk_bind (invalidate_bundle mrn) (\<lambda>_.
     lk_fold (\<lambda>_ parentMrn. lk_bind (find_policy parentMrn) (\<lambda>x. case x of
         None \<Rightarrow> lk_fail (NoPolicy mrn)
       | Some p \<Rightarrow> invalidatePolicyAndBundleAncestors k p)) () (map fst (wp_parents w)))))"

definition find_framework :: "string \<Rightarrow> wrapFramework option lake" where
  "find_framework mrn = lk_bind (lk_get (dbIDFramework mrn)) (\<lambda>x. case x of
     None \<Rightarrow> lk_return None | Some (CFramework w) \<Rightarrow> lk_return (Some w) | Some _ \<Rightarrow> lk_panic wrong_type)"

definition invalidate_framework :: "wrapFramework \<Rightarrow> unit lake" where
  "invalidate_framework w = (if wf_invalidated w then lk_return ()
     else lk_set (dbIDFramework (fw_Mrn (wf_Framework w))) (CFramework (w\<lparr>wf_invalidated := True\<rparr>)))"

fun invalidateFrameworkAndBundleAncestors :: "nat \<Rightarrow> wrapFramework \<Rightarrow> unit lake" where
  "invalidateFrameworkAndBundleAncestors 0 w = lk_panic StackOverflow"
| "invalidateFrameworkAndBundleAncestors (Suc k) w = (let mrn = fw_Mrn (wf_Framework w) in
     lk_bind (invalidate_framework w) (\<lambda>_. lk_bind (invalidate_bundle mrn) (\<lambda>_.
     lk_fold (\<lambda>_ parentMrn. lk_bind (find_framework parentMrn) (\<lambda>x. case x of
         None \<Rightarrow> lk_fail (NoFramework mrn)
       | Some p \<Rightarrow> invalidateFrameworkAndBundleAncestors k p)) () (map fst (wf_parents w)))))"

definition checkAndInvalidatePolicyBundle :: "nat \<Rightarrow> string \<Rightarrow> wrapPolicy option \<Rightarrow> wrapFramework option \<Rightarrow> unit lake" where
  "checkAndInvalidatePolicyBundle k mrn policyw frameworkw = lk_bind (lk_get (dbIDBundle mrn)) (\<lambda>x.
     if (case x of None \<Rightarrow> False | Some (CBundle _) \<Rightarrow> False | Some _ \<Rightarrow> True) then lk_panic wrong_type
     else
       let fresh = (\<lambda>current csum. case x of Some (CBundle b) \<Rightarrow> current b = csum | _ \<Rightarrow> False) in
       lk_bind (case policyw of
           Some w \<Rightarrow> if fresh wb_policyChecksum (lp_GraphContentChecksum (wp_Policy w)) then lk_return () else invalidatePolicyAndBundleAncestors k w
         | None \<Rightarrow> lk_return ()) (\<lambda>_.
       case frameworkw of
           Some w \<Rightarrow> if fresh wb_frameworkChecksum (lf_GraphContentChecksum (wf_Framework w)) then lk_return () else invalidateFrameworkAndBundleAncestors k w
         | None \<Rightarrow> lk_return ()))"

subsection \<open>Storing and deleting policies\<close>

definition DependentPolicyMrns :: "'a Policy_scheme \<Rightarrow> (string, unit) gomap" where
  "DependentPolicyMrns p = foldl (\<lambda>mrns g. foldl (\<lambda>mrns r. map_put (pf_Mrn r) () mrns) mrns (pg_Policies g)) [] (po_Groups p)"

definition computed_filters :: "Mquery list \<Rightarrow> Filters" where
  "computed_filters filters = \<lparr>fi_Items = foldl (\<lambda>m f. map_put (mq_CodeId f) (FilterQuery.truncate f) m) [] filters\<rparr>"

definition add_parent :: "string \<Rightarrow> string \<Rightarrow> unit lake" where
  "add_parent mrn childMrn = lk_bind (find_policy childMrn) (\<lambda>y. case y of
     None \<Rightarrow> lk_fail (NoChildPolicy childMrn)
   | Some child \<Rightarrow> lk_set (dbIDPolicy childMrn) (CPolicy (child\<lparr>wp_parents := map_put mrn () (wp_parents child)\<rparr>)))"

text \<open>The new entry shares the map of parents with the existing one, so that it is read behind the loop over the children, which
  can change it if the policy is a child of its own.\<close>

definition shared_parents :: "bool \<Rightarrow> string \<Rightarrow> (string, unit) gomap lake" where
  "shared_parents exists mrn = (if exists then lk_bind (find_policy mrn) (\<lambda>x. case x of
       None \<Rightarrow> lk_return [] | Some w \<Rightarrow> lk_return (wp_parents w))
     else lk_return [])"

definition store_policy :: "nat \<Rightarrow> bool \<Rightarrow> LakePolicy \<Rightarrow> Mquery list \<Rightarrow> unit lake" where
  "store_policy k exists policyObj filters =
     (let mrn = po_Mrn policyObj; policyObj = policyObj\<lparr>po_ComputedFilters := Some (computed_filters filters)\<rparr>;
          children = DependentPolicyMrns policyObj in
      lk_bind (lk_fold (\<lambda>_ f. SetQuery (mq_Mrn f) f) () filters) (\<lambda>_.
      lk_bind (lk_fold (\<lambda>_. add_parent mrn) () (map fst children)) (\<lambda>_.
      lk_bind (shared_parents exists mrn) (\<lambda>parents.
      let obj = \<lparr>wp_Policy = policyObj, wp_invalidated = False, wp_parents = parents, wp_children = children\<rparr> in
      lk_bind (lk_set (dbIDPolicy mrn) (CPolicy obj)) (\<lambda>_.
      lk_bind listPolicies (\<lambda>l.
      lk_bind (lk_set dbIDListPolicies (CPolicyList (map_put mrn () l))) (\<lambda>_.
      checkAndInvalidatePolicyBundle k mrn (Some obj) None)))))))"

definition setPolicy :: "nat \<Rightarrow> LakePolicy \<Rightarrow> Mquery list \<Rightarrow> unit lake" where
  "setPolicy k policyObj filters = lk_bind (find_policy (po_Mrn policyObj)) (\<lambda>x. case x of
       Some existing \<Rightarrow>
         if lp_LocalContentChecksum (wp_Policy existing) = lp_LocalContentChecksum policyObj
           \<and> lp_LocalExecutionChecksum (wp_Policy existing) = lp_LocalExecutionChecksum policyObj
         then if lp_GraphContentChecksum (wp_Policy existing) \<noteq> lp_GraphContentChecksum policyObj
             \<or> po_GraphExecutionChecksum (wp_Policy existing) \<noteq> po_GraphExecutionChecksum policyObj
           then checkAndInvalidatePolicyBundle k (po_Mrn (wp_Policy existing)) (Some existing) None
           else lk_return ()
         else store_policy k True policyObj filters
     | None \<Rightarrow> store_policy k False policyObj filters)"

text \<open>Deleting: the errors of the steps are collected and dropped, so that they do not end it. The second loop is
  never entered, as the policy has no parents.\<close>

definition drop_parent :: "string \<Rightarrow> string \<Rightarrow> unit lake" where
  "drop_parent mrn childMrn = lk_bind (find_policy childMrn) (\<lambda>y. case y of
     None \<Rightarrow> lk_return ()
   | Some child \<Rightarrow> lk_set (dbIDPolicy childMrn) (CPolicy (child\<lparr>wp_parents := map_del mrn (wp_parents child)\<rparr>)))"

definition drop_child :: "string \<Rightarrow> string \<Rightarrow> unit lake" where
  "drop_child mrn parentMrn = lk_bind (find_policy parentMrn) (\<lambda>y. case y of
     None \<Rightarrow> lk_return ()
   | Some p \<Rightarrow> lk_set (dbIDPolicy parentMrn) (CPolicy (p\<lparr>wp_children := map_del mrn (wp_children p)\<rparr>)))"

definition lk_del :: "string \<Rightarrow> unit lake" where
  "lk_del key db = Inr (Inr (), db\<lparr>db_cache := kissDb_Del key (db_cache db)\<rparr>)"

definition DeletePolicy :: "string \<Rightarrow> unit lake" where
  "DeletePolicy mrn = lk_bind (find_policy mrn) (\<lambda>x. case x of
     None \<Rightarrow> lk_return ()
   | Some wpolicy \<Rightarrow>
       if wp_parents wpolicy \<noteq> [] then lk_fail (HasParents mrn (length (wp_parents wpolicy)))
       else lk_bind listPolicies (\<lambda>l.
         lk_bind (lk_set dbIDListPolicies (CPolicyList (map_del mrn l))) (\<lambda>_.
         lk_bind (lk_fold (\<lambda>_. drop_parent mrn) () (map fst (wp_children wpolicy))) (\<lambda>_.
         lk_bind (lk_fold (\<lambda>_. drop_child mrn) () (map fst (wp_parents wpolicy))) (\<lambda>_.
         lk_del (dbIDPolicy mrn))))))"

subsection \<open>Frameworks\<close>

definition setFramework :: "LakeFramework \<Rightarrow> unit lake" where
  "setFramework framework = lk_set (dbIDFramework (fw_Mrn framework))
     (CFramework \<lparr>wf_Framework = framework, wf_invalidated = False, wf_parents = [], wf_children = []\<rparr>)"

definition stored_maps :: "string \<Rightarrow> (string, LakeFrameworkMap) gomap lake" where
  "stored_maps mrn = lk_bind (lk_get (dbIDFrameworkMap mrn)) (\<lambda>x. case x of
     None \<Rightarrow> lk_return [] | Some (CFrameworkMaps m) \<Rightarrow> lk_return m | Some _ \<Rightarrow> lk_panic wrong_type)"

definition SetFrameworkMaps :: "string \<Rightarrow> LakeFrameworkMap list \<Rightarrow> unit lake" where
  "SetFrameworkMaps ownerFramework maps = lk_bind (stored_maps ownerFramework) (\<lambda>storedMaps.
     lk_set (dbIDFrameworkMap ownerFramework) (CFrameworkMaps (foldl (\<lambda>m x. map_put (lm_Mrn x) x m) storedMaps maps)))"

definition FrameworkExists :: "string \<Rightarrow> bool lake" where
  "FrameworkExists mrn = lk_bind (lk_get (dbIDFramework mrn)) (\<lambda>x. lk_return (x \<noteq> None))"

definition GetFramework :: "string \<Rightarrow> LakeFramework lake" where
  "GetFramework mrn = lk_bind (find_framework mrn) (\<lambda>x. case x of
     None \<Rightarrow> lk_fail (NoFramework mrn) | Some w \<Rightarrow> lk_return (wf_Framework w))"

definition GetFrameworkMaps :: "string \<Rightarrow> LakeFrameworkMap list lake" where
  "GetFrameworkMaps frameworkMrn = lk_bind (stored_maps frameworkMrn) (\<lambda>m. lk_return (map snd m))"

end
