(* ===== verification/Data_Lake_Results.thy ===== *)
theory Data_Lake_Results
  imports Data_Lake
begin

text \<open>
  What the data lake promises: no value is read as one of another type, the scores and the data of a resolved policy are there
  from the moment it is set for an asset, and scores that are stored are the ones that are read.
\<close>

subsection \<open>Operations on a well-typed lake\<close>

primrec value_prefix :: "cache_value \<Rightarrow> string" where
  "value_prefix (CQuery x) = [CHR ''q'', CHR 0x00]"
| "value_prefix (CProperty x) = [CHR ''q'', CHR ''p'', CHR 0x00]"
| "value_prefix (CPolicy x) = [CHR ''p'', CHR 0x00]"
| "value_prefix (CBundle x) = [CHR ''b'', CHR 0x00]"
| "value_prefix (CPolicyList x) = [CHR ''p'', CHR ''l'', CHR 0x00]"
| "value_prefix (CScore x) = [CHR ''s'', CHR 0x00]"
| "value_prefix (CData x) = [CHR ''d'', CHR 0x00]"
| "value_prefix (CAsset x) = [CHR ''a'', CHR 0x00]"
| "value_prefix (CRiskFactor x) = [CHR ''r'', CHR ''f'', CHR 0x00]"
| "value_prefix (CAssetRisks x) = [CHR ''a'', CHR ''r'', CHR 0x00]"
| "value_prefix (CFramework x) = [CHR ''f'', CHR 0x00]"
| "value_prefix (CFrameworkMaps x) = [CHR ''f'', CHR ''m'', CHR 0x00]"

definition right_key :: "string \<Rightarrow> cache_value \<Rightarrow> bool" where
  "right_key k v \<longleftrightarrow> take (length (value_prefix v)) k = value_prefix v"

definition typed :: "Db \<Rightarrow> bool" where
  "typed db \<longleftrightarrow> (\<forall>k v. map_get (db_cache db) k = Some v \<longrightarrow> right_key k v)"

text \<open>A later state of the lake: nothing is gone, and the assets are what they were.\<close>

definition grows :: "Db \<Rightarrow> Db \<Rightarrow> bool" where
  "grows db db' \<longleftrightarrow> fst ` set (db_cache db) \<subseteq> fst ` set (db_cache db')
     \<and> (\<forall>a. map_get (db_cache db') (dbIDAsset a) = map_get (db_cache db) (dbIDAsset a))"

lemma grows_refl [simp]: "grows db db"
  by (simp add: grows_def)

lemma grows_trans: "grows db db' \<Longrightarrow> grows db' db'' \<Longrightarrow> grows db db''"
  unfolding grows_def by (elim conjE, intro conjI allI, erule (1) subset_trans, simp)

definition safe :: "'a lake \<Rightarrow> ('a \<Rightarrow> bool) \<Rightarrow> bool" where
  "safe m A \<longleftrightarrow> (\<forall>db. typed db \<longrightarrow> (\<exists>r db'. m db = Inr (r, db') \<and> typed db' \<and> grows db db' \<and> (\<forall>x. r = Inr x \<longrightarrow> A x)))"

lemma safeE:
  assumes "safe m A" and "typed db"
  obtains r db' where "m db = Inr (r, db')" and "typed db'" and "grows db db'" and "\<And>x. r = Inr x \<Longrightarrow> A x"
  using assms unfolding safe_def by blast

lemma safeI:
  assumes "\<And>db. typed db \<Longrightarrow> \<exists>r db'. m db = Inr (r, db') \<and> typed db' \<and> grows db db' \<and> (\<forall>x. r = Inr x \<longrightarrow> A x)"
  shows "safe m A"
  using assms by (simp add: safe_def)

lemma safe_return: "A x \<Longrightarrow> safe (lk_return x) A"
  by (simp add: safe_def lk_return_def)

lemma safe_fail: "safe (lk_fail e) A"
  by (simp add: safe_def lk_fail_def)

lemma safe_bind:
  assumes "safe m A" and "\<And>x. A x \<Longrightarrow> safe (f x) B"
  shows "safe (lk_bind m f) B"
proof (rule safeI)
  fix db assume t: "typed db"
  obtain r db1 where m: "m db = Inr (r, db1)" "typed db1" "grows db db1" "\<And>x. r = Inr x \<Longrightarrow> A x"
    by (rule safeE [OF assms(1) t]) blast
  show "\<exists>r db'. lk_bind m f db = Inr (r, db') \<and> typed db' \<and> grows db db' \<and> (\<forall>x. r = Inr x \<longrightarrow> B x)"
  proof (cases r)
    case (Inl e)
    then show ?thesis using m(1-3) by (simp add: lk_bind_def)
  next
    case (Inr x)
    obtain r2 db2 where "f x db1 = Inr (r2, db2)" "typed db2" "grows db1 db2" "\<And>y. r2 = Inr y \<Longrightarrow> B y"
      by (rule safeE [OF assms(2) [OF m(4) [OF Inr]] m(2)]) blast
    then show ?thesis using m(1) Inr grows_trans [OF m(3)] by (simp add: lk_bind_def)
  qed
qed

lemma safe_try:
  assumes "safe m A"
  shows "safe (lk_try m) (\<lambda>r. \<forall>x. r = Inr x \<longrightarrow> A x)"
proof (rule safeI)
  fix db assume t: "typed db"
  obtain r db1 where "m db = Inr (r, db1)" "typed db1" "grows db db1" "\<And>x. r = Inr x \<Longrightarrow> A x"
    by (rule safeE [OF assms t]) blast
  then show "\<exists>r db'. lk_try m db = Inr (r, db') \<and> typed db' \<and> grows db db' \<and> (\<forall>x. r = Inr x \<longrightarrow> (\<forall>y. x = Inr y \<longrightarrow> A y))"
    by (simp add: lk_try_def)
qed

lemma safe_weaken: "safe m A \<Longrightarrow> (\<And>x. A x \<Longrightarrow> B x) \<Longrightarrow> safe m B"
  by (rule safeI, erule safeE, assumption) blast

lemma safe_fold:
  assumes "\<And>s x. A s \<Longrightarrow> x \<in> set xs \<Longrightarrow> safe (f s x) A" and "A s"
  shows "safe (lk_fold f s xs) A"
  using assms
proof (induction xs arbitrary: s)
  case Nil
  then show ?case by (simp add: safe_return)
next
  case (Cons x xs)
  show ?case unfolding lk_fold.simps
    by (rule safe_bind [where A = A]) (use Cons in auto)
qed

lemma safe_now: "safe (lk_now E) (\<lambda>_. True)"
  by (simp add: safe_def lk_now_def typed_def grows_def)

lemma safe_set:
  assumes "right_key k v" and "\<And>a. k \<noteq> dbIDAsset a"
  shows "safe (lk_set k v) (\<lambda>_. True)"
  unfolding safe_def lk_set_def typed_def grows_def kissDb_Set_def
  using assms by (auto simp: keys_put)

lemma safe_get: "safe (lk_get k) (\<lambda>x. \<forall>v. x = Some v \<longrightarrow> right_key k v)"
  by (simp add: safe_def lk_get_def kissDb_Get_def typed_def)

text \<open>Reading a key of one kind, by the kind of the value.\<close>

lemma safe_read:
  assumes "safe (f None) B" and "\<And>v. right_key k v \<Longrightarrow> safe (f (Some v)) B"
  shows "safe (lk_bind (lk_get k) f) B"
proof (rule safe_bind [OF safe_get])
  fix x assume "\<forall>v. x = Some v \<longrightarrow> right_key k v"
  then show "safe (f x) B" using assms by (cases x) auto
qed

lemmas safe_simple = safe_return safe_fail safe_now

lemma GetScore_safe: "safe (GetScore a q) (\<lambda>_. True)"
  unfolding GetScore_def by (rule safe_read) (auto simp: safe_simple right_key_def split: cache_value.split)

lemma GetDatum_safe: "safe (GetDatum a q) (\<lambda>_. True)"
  unfolding GetDatum_def by (rule safe_read) (auto simp: safe_simple right_key_def split: cache_value.split)

lemma asset_risks_safe: "safe (asset_risks a) (\<lambda>_. True)"
  unfolding asset_risks_def by (rule safe_read) (auto simp: safe_simple right_key_def split: cache_value.split)

lemma getRiskFactor_safe: "safe (getRiskFactor a) (\<lambda>_. True)"
  unfolding getRiskFactor_def by (rule safe_read) (auto simp: safe_simple right_key_def split: cache_value.split)

lemma find_asset_safe: "safe (find_asset a) (\<lambda>_. True)"
  unfolding find_asset_def by (rule safe_read) (auto simp: safe_simple right_key_def split: cache_value.split)

lemma WriteScore_safe: "safe (WriteScore a s) (\<lambda>_. True)"
  unfolding WriteScore_def by (rule safe_set) (simp_all add: right_key_def)

lemma WriteData_safe: "safe (WriteData a s) (\<lambda>_. True)"
  unfolding WriteData_def by (rule safe_set) (simp_all add: right_key_def)

lemma WriteRisk_safe: "safe (WriteRisk a s) (\<lambda>_. True)"
  unfolding WriteRisk_def by (rule safe_bind [OF asset_risks_safe], rule safe_set) (simp_all add: right_key_def)

lemma updateScore_safe: "safe (updateScore a s t) (\<lambda>_. True)"
  unfolding updateScore_def Let_def
  by (rule safe_bind [OF safe_try [OF GetScore_safe]]) (auto intro!: safe_simple safe_bind [OF WriteScore_safe])

lemma UpdateScores_safe: "safe (UpdateScores E a ss) (\<lambda>_. True)"
  unfolding UpdateScores_def
  by (rule safe_bind [OF safe_now], rule safe_fold) (auto intro!: safe_simple safe_bind [OF updateScore_safe])

lemma initEmptyScore_safe: "safe (initEmptyScore E a q) (\<lambda>_. True)"
  unfolding initEmptyScore_def
  by (rule safe_bind [OF safe_now], rule safe_bind [OF updateScore_safe]) (rule safe_return, simp)

lemma GetCollectorJob_safe: "safe (GetCollectorJob a) (\<lambda>_. True)"
  unfolding GetCollectorJob_def by (rule safe_bind [OF find_asset_safe]) (auto intro: safe_simple split: option.split)

lemma UpdateData_safe: "safe (UpdateData E a data) (\<lambda>_. True)"
proof -
  show ?thesis unfolding UpdateData_def
  proof (rule safe_bind [OF safe_try [OF GetCollectorJob_safe]], goal_cases)
    case (1 r)
    show ?case
      by (cases r) (auto intro!: safe_simple safe_bind [OF safe_fold [where A = "\<lambda>_. True"]] safe_bind [OF WriteData_safe] split: option.split)
  qed
qed

lemma UpdateRisks_safe: "safe (UpdateRisks a risks) (\<lambda>_. True)"
  unfolding UpdateRisks_def GetRisk_def
  by (rule safe_fold) (auto intro!: safe_simple safe_bind [OF WriteRisk_safe] safe_bind [OF safe_bind [OF asset_risks_safe]])

lemma StoreResults_safe: "safe (StoreResults E req) (\<lambda>_. True)"
  unfolding StoreResults_def
  by (intro safe_bind [OF UpdateScores_safe] safe_bind [OF UpdateData_safe] safe_bind [OF UpdateRisks_safe] safe_return TrueI)

lemma keep_risk_factor_safe: "safe (keep_risk_factor x) (\<lambda>_. True)"
  unfolding keep_risk_factor_def case_prod_unfold SetRiskFactor_def
  by (rule safe_bind [OF safe_try [OF getRiskFactor_safe]]) (auto intro!: safe_simple safe_set split: sum.split simp: right_key_def)

lemma store_resolved_safe: "safe (store_resolved E mrn rp) (\<lambda>_. True)"
  by (simp add: safe_def store_resolved_def Let_def case_prod_unfold typed_def grows_def)

lemma SetResolvedPolicy_safe: "safe (SetResolvedPolicy E mrn rp cached) (\<lambda>_. True)"
  unfolding SetResolvedPolicy_def
  by (rule safe_bind [OF store_resolved_safe], rule safe_bind [OF safe_fold [where A = "\<lambda>_. True"]])
    (auto intro!: safe_simple keep_risk_factor_safe safe_read safe_set simp: right_key_def split: cache_value.split)

lemma GetScores_safe: "safe (GetScores a qs) (\<lambda>_. True)"
  unfolding GetScores_def by (rule safe_fold) (auto intro!: safe_simple safe_bind [OF GetScore_safe])

lemma GetScoredRisks_safe: "safe (GetScoredRisks a) (\<lambda>_. True)"
  unfolding GetScoredRisks_def StreamRisks_def
  by (rule safe_bind [OF asset_risks_safe], rule safe_fold) (auto intro!: safe_simple safe_bind [OF getRiskFactor_safe])

subsection \<open>The scores and data of a resolved policy are there\<close>

definition needed :: "string \<Rightarrow> ResolvedPolicy \<Rightarrow> string set" where
  "needed a rp = (\<lambda>j. dbIDScore a (score_qrid a j)) ` set (scored_jobs rp) \<union> dbIDData a ` fst ` set (cj_Datapoints (rpo_CollectorJob rp))"

definition ready :: "Db \<Rightarrow> bool" where
  "ready db \<longleftrightarrow> (\<forall>a w rp. map_get (db_cache db) (dbIDAsset a) = Some (CAsset w) \<and> wa_ResolvedPolicy w = Some rp \<longrightarrow>
     needed a rp \<subseteq> fst ` set (db_cache db))"

lemma ready_grows:
  assumes "ready db" and "grows db db'"
  shows "ready db'"
  using assms unfolding ready_def grows_def by (metis order_trans)

lemma safe_adds:
  assumes "\<And>x. x \<in> set xs \<Longrightarrow> safe (f x) (\<lambda>_. True)"
    and "\<And>x db u db'. x \<in> set xs \<Longrightarrow> typed db \<Longrightarrow> f x db = Inr (Inr u, db') \<Longrightarrow> has_key (db_cache db') (g x)"
    and "typed db" and "lk_fold (\<lambda>_. f) u xs db = Inr (Inr u', db')"
  shows "g ` set xs \<subseteq> fst ` set (db_cache db')"
  using assms
proof (induction xs arbitrary: u db)
  case (Cons x xs)
  obtain r db1 where x: "f x db = Inr (r, db1)" "typed db1" by (rule safeE [OF Cons.prems(1) [of x] Cons.prems(3)]) simp_all
  then obtain v where r: "r = Inr v" and rest: "lk_fold (\<lambda>_. f) v xs db1 = Inr (Inr u', db')"
    using Cons.prems(4) by (cases r) (simp_all add: lk_bind_def)
  have "has_key (db_cache db1) (g x)" by (rule Cons.prems(2) [OF _ Cons.prems(3)]) (use x(1) r in simp_all)
  moreover have "safe (lk_fold (\<lambda>_. f) v xs) (\<lambda>_. True)" by (rule safe_fold) (simp_all add: Cons.prems(1))
  then obtain r2 db2 where "lk_fold (\<lambda>_. f) v xs db1 = Inr (r2, db2)" "grows db1 db2" using x(2) by (rule safeE) blast
  then have "grows db1 db'" using rest by simp
  ultimately have "has_key (db_cache db') (g x)" unfolding grows_def by blast
  moreover have "g ` set xs \<subseteq> fst ` set (db_cache db')" by (rule Cons.IH [OF _ _ x(2) rest]) (use Cons.prems in auto)
  ultimately show ?case by simp
qed simp

lemma initDataValue_adds: "initDataValue E a csum db = Inr (Inr u, db') \<Longrightarrow> has_key (db_cache db') (dbIDData a csum)"
  by (auto simp: initDataValue_def WriteData_def lk_set_def kissDb_Set_def keys_put)

lemma GetScore_iff: "GetScore a q db = Inr (Inr s, db') \<longleftrightarrow> map_get (db_cache db) (dbIDScore a q) = Some (CScore s) \<and> db' = db"
  by (auto simp: GetScore_def lk_bind_def lk_get_def kissDb_Get_def lk_return_def lk_fail_def lk_panic_def split: option.split cache_value.split)

lemma GetScore_typed:
  assumes "typed db"
  shows "GetScore a q db = Inr (case map_get (db_cache db) (dbIDScore a q) of Some (CScore s) \<Rightarrow> Inr s | _ \<Rightarrow> Inl NoScore, db)"
proof (cases "map_get (db_cache db) (dbIDScore a q)")
  case (Some v)
  then have "right_key (dbIDScore a q) v" using assms by (simp add: typed_def)
  then show ?thesis using Some
    by (cases v) (simp_all add: right_key_def GetScore_def lk_bind_def lk_get_def kissDb_Get_def lk_return_def)
qed (simp add: GetScore_def lk_bind_def lk_get_def kissDb_Get_def lk_fail_def)

definition stored_under :: "Db \<Rightarrow> string \<Rightarrow> string \<Rightarrow> StoredScore option" where
  "stored_under db a q = (case map_get (db_cache db) (dbIDScore a q) of Some (CScore s) \<Rightarrow> Some s | _ \<Rightarrow> None)"

lemma updateScore_eq:
  assumes "typed db"
  shows "updateScore a score t db =
    (if (case stored_under db a (sc_QrId score) of None \<Rightarrow> False | Some org \<Rightarrow> same_score org score) then Inr (Inr False, db)
     else Inr (Inr True, db\<lparr>db_cache := map_put (dbIDScore a (sc_QrId score))
       (CScore (stored_score score (score_times (stored_under db a (sc_QrId score)) score t))) (db_cache db)\<rparr>))"
  using GetScore_typed [OF assms, of a "sc_QrId score"]
  by (auto simp: updateScore_def lk_bind_def lk_try_def lk_return_def stored_under_def WriteScore_def lk_set_def kissDb_Set_def Let_def
      stored_score_def Score.defs case_prod_unfold split: option.split cache_value.split)

lemma initEmptyScore_adds:
  assumes "typed db" and "initEmptyScore E a q db = Inr (Inr u, db')"
  shows "has_key (db_cache db') (dbIDScore a q)"
proof -
  let ?db = "db\<lparr>db_readings := Suc (db_readings db)\<rparr>"
  have "typed ?db" using assms(1) by (simp add: typed_def)
  from assms(2) [unfolded initEmptyScore_def lk_bind_def lk_now_def lk_return_def, simplified updateScore_eq [OF this] go_bind_simps prod.case sum.case]
  show ?thesis
    by (auto simp: stored_under_def keys_put updateScore_eq [OF \<open>typed ?db\<close>] split: if_splits option.splits cache_value.splits dest!: has_key_get)
qed

definition good :: "'a lake \<Rightarrow> bool" where
  "good m \<longleftrightarrow> (\<forall>db. typed db \<and> ready db \<longrightarrow> (\<exists>r db'. m db = Inr (r, db') \<and> typed db' \<and> ready db'))"

lemma safe_good: "safe m A \<Longrightarrow> good m"
  unfolding good_def safe_def using ready_grows by blast

lemma set_asset_good:
  assumes "typed db" and "ready db" and "\<And>rp. wa_ResolvedPolicy w = Some rp \<Longrightarrow> needed a rp \<subseteq> fst ` set (db_cache db)"
  shows "\<exists>r db'. lk_set (dbIDAsset a) (CAsset w) db = Inr (r, db') \<and> typed db' \<and> ready db'"
proof -
  let ?db = "db\<lparr>db_cache := map_put (dbIDAsset a) (CAsset w) (db_cache db)\<rparr>"
  have "typed ?db" using assms(1) by (simp add: typed_def right_key_def)
  moreover have "needed a' rp \<subseteq> fst ` set (db_cache ?db)"
    if "map_get (db_cache ?db) (dbIDAsset a') = Some (CAsset w')" "wa_ResolvedPolicy w' = Some rp" for a' w' rp
  proof -
    have "needed a' rp \<subseteq> fst ` set (db_cache db)"
      using that assms(2,3) by (cases "a' = a") (simp_all add: ready_def)
    then show ?thesis by (auto simp: keys_put)
  qed
  then have "ready ?db" unfolding ready_def by blast
  ultimately show ?thesis by (simp add: lk_set_def kissDb_Set_def)
qed

lemma ensureAssetObject_good: "good (ensureAssetObject a)"
  unfolding good_def
proof (intro allI impI, elim conjE)
  fix db assume db: "typed db" "ready db"
  show "\<exists>r db'. ensureAssetObject a db = Inr (r, db') \<and> typed db' \<and> ready db'"
  proof (cases "map_get (db_cache db) (dbIDAsset a)")
    case None
    let ?w = "\<lparr>wa_mrn = a, wa_resolvedPolicyVersion = '''', wa_ResolvedPolicy = None\<rparr>"
    obtain r db' where "lk_set (dbIDAsset a) (CAsset ?w) db = Inr (r, db')" "typed db'" "ready db'"
      using set_asset_good [OF db, of ?w a] by auto
    then show ?thesis using None
      by (cases r) (simp_all add: ensureAssetObject_def lk_bind_def lk_get_def kissDb_Get_def lk_return_def Let_def)
  next
    case (Some v)
    then have "right_key (dbIDAsset a) v" using db(1) by (simp add: typed_def)
    then show ?thesis using Some db
      by (cases v) (simp_all add: right_key_def ensureAssetObject_def lk_bind_def lk_get_def kissDb_Get_def lk_return_def)
  qed
qed

lemma find_asset_typed:
  assumes "typed db"
  shows "find_asset a db = Inr (case map_get (db_cache db) (dbIDAsset a) of Some (CAsset w) \<Rightarrow> Inr w | _ \<Rightarrow> Inl (NoAsset a), db)"
proof (cases "map_get (db_cache db) (dbIDAsset a)")
  case (Some v)
  then have "right_key (dbIDAsset a) v" using assms by (simp add: typed_def)
  then show ?thesis using Some
    by (cases v) (simp_all add: right_key_def find_asset_def lk_bind_def lk_get_def kissDb_Get_def lk_return_def)
qed (simp add: find_asset_def lk_bind_def lk_get_def kissDb_Get_def lk_fail_def)

lemma lk_bind_Inr: "lk_bind m f db = (case m db of Inl p \<Rightarrow> Inl p | Inr (Inl e, db1) \<Rightarrow> Inr (Inl e, db1) | Inr (Inr x, db1) \<Rightarrow> f x db1)"
  by (auto simp: lk_bind_def go_bind_def split: sum.split)

lemma init_all:
  fixes ds :: "(string, DataQueryInfo) gomap"
  assumes db: "typed db" "ready db"
  shows "\<exists>r db'. lk_bind (lk_fold (\<lambda>_ (csum, info). initDataValue E a csum) () ds) (\<lambda>_.
       lk_fold (\<lambda>_ job. initEmptyScore E a (score_qrid a job)) () js) db = Inr (r, db') \<and> typed db' \<and> ready db'
     \<and> (\<forall>u. r = Inr u \<longrightarrow> dbIDData a ` fst ` set ds \<subseteq> fst ` set (db_cache db')
         \<and> (\<lambda>j. dbIDScore a (score_qrid a j)) ` set js \<subseteq> fst ` set (db_cache db'))"
proof -
  let ?d = "lk_fold (\<lambda>_ (csum, info). initDataValue E a csum) () ds"
  let ?s = "lk_fold (\<lambda>_ job. initEmptyScore E a (score_qrid a job)) () js"
  have sd: "safe (case x of (csum, info) \<Rightarrow> initDataValue E a csum) (\<lambda>_. True)" for x :: "string \<times> DataQueryInfo"
    unfolding initDataValue_def case_prod_unfold by (rule WriteData_safe)
  have "safe ?d (\<lambda>_. True)" by (rule safe_fold) (rule sd, rule TrueI)
  then obtain r1 db1 where d: "?d db = Inr (r1, db1)" "typed db1" "grows db db1" using db(1) by (rule safeE) blast
  have ready1: "ready db1" by (rule ready_grows [OF db(2) d(3)])
  have "safe ?s (\<lambda>_. True)" by (rule safe_fold) (simp_all add: initEmptyScore_safe)
  then obtain r2 db2 where s: "?s db1 = Inr (r2, db2)" "typed db2" "grows db1 db2" using d(2) by (rule safeE) blast
  have ready2: "ready db2" by (rule ready_grows [OF ready1 s(3)])
  show ?thesis
  proof (cases r1)
    case (Inl e)
    then show ?thesis using d ready1 by (simp add: lk_bind_Inr)
  next
    case (Inr u1)
    have "(\<lambda>x. dbIDData a (fst x)) ` set ds \<subseteq> fst ` set (db_cache db1)"
      by (rule safe_adds [OF sd _ db(1), where u' = u1]) (use d(1) Inr initDataValue_adds in auto)
    then have data: "dbIDData a ` fst ` set ds \<subseteq> fst ` set (db_cache db2)" using s(3) unfolding grows_def by (simp only: image_image) (meson order_trans)
    have "(\<lambda>j. dbIDScore a (score_qrid a j)) ` set js \<subseteq> fst ` set (db_cache db2)" if "r2 = Inr u2" for u2
      by (rule safe_adds [OF initEmptyScore_safe _ d(2), where u' = u2]) (use s(1) that initEmptyScore_adds in auto)
    with data s ready2 d(1) Inr show ?thesis by (simp add: lk_bind_Inr)
  qed
qed

lemma SetAssetResolvedPolicy_good: "good (SetAssetResolvedPolicy E a rp v)"
  unfolding good_def
proof (intro allI impI, elim conjE)
  fix db assume db: "typed db" "ready db"
  show "\<exists>r db'. SetAssetResolvedPolicy E a rp v db = Inr (r, db') \<and> typed db' \<and> ready db'"
  proof (cases "map_get (db_cache db) (dbIDAsset a)")
    case None
    then show ?thesis using db find_asset_typed [OF db(1), of a] by (simp add: SetAssetResolvedPolicy_def lk_bind_Inr)
  next
    case (Some x)
    then have "right_key (dbIDAsset a) x" using db(1) by (simp add: typed_def)
    then obtain w where w: "x = CAsset w" by (cases x) (simp_all add: right_key_def)
    have find: "find_asset a db = Inr (Inr w, db)" using find_asset_typed [OF db(1), of a] Some w by simp
    let ?same = "case wa_ResolvedPolicy w of None \<Rightarrow> False
         | Some rp' \<Rightarrow> rpo_GraphExecutionChecksum rp' = rpo_GraphExecutionChecksum rp \<and> wa_resolvedPolicyVersion w = v"
    let ?init = "lk_bind (lk_fold (\<lambda>_ (csum, info). initDataValue E a csum) () (cj_Datapoints (rpo_CollectorJob rp))) (\<lambda>_.
       lk_fold (\<lambda>_ job. initEmptyScore E a (score_qrid a job)) () (scored_jobs rp))"
    let ?w = "w\<lparr>wa_ResolvedPolicy := Some rp, wa_resolvedPolicyVersion := v\<rparr>"
    have step: "SetAssetResolvedPolicy E a rp v db = (if ?same then Inr (Inr (), db) else lk_bind ?init (\<lambda>_. lk_set (dbIDAsset a) (CAsset ?w)) db)"
      by (auto simp: SetAssetResolvedPolicy_def lk_bind_Inr [of "find_asset a"] find Let_def lk_return_def)
        (auto simp: lk_bind_Inr split: sum.split prod.split)
    obtain r1 db1 where i: "?init db = Inr (r1, db1)" "typed db1" "ready db1"
      "\<And>u. r1 = Inr u \<Longrightarrow> dbIDData a ` fst ` set (cj_Datapoints (rpo_CollectorJob rp)) \<subseteq> fst ` set (db_cache db1)
         \<and> (\<lambda>j. dbIDScore a (score_qrid a j)) ` set (scored_jobs rp) \<subseteq> fst ` set (db_cache db1)"
      using init_all [OF db] by blast
    show ?thesis
    proof (cases r1)
      case (Inl e)
      then show ?thesis using db i by (simp add: step lk_bind_Inr [of ?init])
    next
      case (Inr u)
      have "needed a rp \<subseteq> fst ` set (db_cache db1)" using i(4) [OF Inr] by (auto simp: needed_def)
      then have "\<exists>r db'. lk_set (dbIDAsset a) (CAsset ?w) db1 = Inr (r, db') \<and> typed db' \<and> ready db'"
        by (intro set_asset_good [OF i(2,3)]) simp
      then show ?thesis using db i(1) Inr by (simp add: step lk_bind_Inr [of ?init])
    qed
  qed
qed

subsection \<open>Runs of the lake\<close>

lemma stored_under_Some: "stored_under db a q = Some s \<longleftrightarrow> map_get (db_cache db) (dbIDScore a q) = Some (CScore s)"
  by (auto simp: stored_under_def split: option.split cache_value.split)

lemma GetScore_stored: "typed db \<Longrightarrow> GetScore a q db = Inr (case stored_under db a q of Some s \<Rightarrow> Inr s | None \<Rightarrow> Inl NoScore, db)"
  by (simp add: GetScore_typed stored_under_def split: option.split cache_value.split)

lemma has_key_value:
  assumes "has_key m k"
  shows "\<exists>v. map_get m k = Some v"
proof (cases "map_get m k")
  case None
  then show ?thesis using assms unfolding map_get_None_iff by (rule notE)
qed simp

lemma present_score:
  assumes "typed db" and "has_key (db_cache db) (dbIDScore a q)"
  shows "\<exists>s. stored_under db a q = Some s"
proof -
  obtain v where v: "map_get (db_cache db) (dbIDScore a q) = Some v" using has_key_value [OF assms(2)] by blast
  then have "right_key (dbIDScore a q) v" using assms(1) by (simp add: typed_def)
  then show ?thesis using v by (cases v) (simp_all add: right_key_def stored_under_def)
qed

text \<open>All operations of the lake that its clients call, reading and writing.\<close>

datatype lake_op =
    EnsureAsset string | ResolvedPolicyOp string ResolvedPolicy bool | AssetPolicyOp string ResolvedPolicy string | ResultsOp StoreResultsReq
  | ScoresOp string "Score list" | DataOp string "(string, Result) gomap" | RisksOp string "ScoredRiskFactor list"
  | WriteScoreOp string StoredScore | WriteDataOp string Result | WriteRiskOp string ScoredRiskFactor
  | GetScoreOp string string | GetScoresOp string "string list" | GetDataOp string "string list" | GetRiskOp string string
  | ScoredRisksOp string | AssetPolicyGet string | CollectorJobGet string | ReportOp string string

text \<open>The caller gets the result or the error of an operation; the lake goes on.\<close>

definition run_op :: "'a lake \<Rightarrow> Db \<Rightarrow> Db go" where
  "run_op m db = go_bind (m db) (\<lambda>(r, db). Inr db)"

fun lake_step :: "lake_env \<Rightarrow> lake_op \<Rightarrow> Db \<Rightarrow> Db go" where
  "lake_step E (EnsureAsset a) = run_op (ensureAssetObject a)"
| "lake_step E (ResolvedPolicyOp mrn rp cached) = run_op (SetResolvedPolicy E mrn rp cached)"
| "lake_step E (AssetPolicyOp a rp v) = run_op (SetAssetResolvedPolicy E a rp v)"
| "lake_step E (ResultsOp req) = run_op (StoreResults E req)"
| "lake_step E (ScoresOp a scores) = run_op (UpdateScores E a scores)"
| "lake_step E (DataOp a data) = run_op (UpdateData E a data)"
| "lake_step E (RisksOp a risks) = run_op (UpdateRisks a risks)"
| "lake_step E (WriteScoreOp a s) = run_op (WriteScore a s)"
| "lake_step E (WriteDataOp a x) = run_op (WriteData a x)"
| "lake_step E (WriteRiskOp a r) = run_op (WriteRisk a r)"
| "lake_step E (GetScoreOp a q) = run_op (GetScore a q)"
| "lake_step E (GetScoresOp a qs) = run_op (GetScores a qs)"
| "lake_step E (GetDataOp a cs) = run_op (GetData a cs)"
| "lake_step E (GetRiskOp a m) = run_op (GetRisk a m)"
| "lake_step E (ScoredRisksOp a) = run_op (GetScoredRisks a)"
| "lake_step E (AssetPolicyGet a) = run_op (GetResolvedPolicy a)"
| "lake_step E (CollectorJobGet a) = run_op (GetCollectorJob a)"
| "lake_step E (ReportOp a q) = run_op (GetReport a q)"

fun lake_run :: "lake_env \<Rightarrow> lake_op list \<Rightarrow> Db \<Rightarrow> Db go" where
  "lake_run E [] db = Inr db"
| "lake_run E (x # xs) db = go_bind (lake_step E x db) (lake_run E xs)"

definition empty_lake :: Db where
  "empty_lake = \<lparr>db_cache = [], db_resolvedPolicyCache = \<lparr>pc_data = [], pc_totalSize = 0, pc_sizeLimit = 0, pc_readings = 0\<rparr>, db_readings = 0\<rparr>"

lemma run_op_good:
  assumes "good m" and "typed db" and "ready db"
  shows "\<exists>db'. run_op m db = Inr db' \<and> typed db' \<and> ready db'"
proof -
  obtain r db' where "m db = Inr (r, db')" "typed db'" "ready db'" using assms unfolding good_def by blast
  then show ?thesis by (simp add: run_op_def)
qed

lemmas run_op_safe = run_op_good [OF safe_good]

lemma GetRisk_safe: "safe (GetRisk a m) (\<lambda>_. True)"
  unfolding GetRisk_def by (rule safe_bind [OF asset_risks_safe]) (simp add: safe_return)

lemma GetData_safe: "safe (GetData a cs) (\<lambda>_. True)"
  unfolding GetData_def by (rule safe_fold) (auto intro!: safe_simple safe_bind [OF GetDatum_safe])

lemma GetResolvedPolicy_safe: "safe (GetResolvedPolicy a) (\<lambda>_. True)"
  unfolding GetResolvedPolicy_def by (rule safe_bind [OF find_asset_safe]) (auto intro: safe_simple split: option.split)

lemma risk_data_safe: "safe (risk_data a cj m risk) (\<lambda>_. True)"
proof -
  have datum: "safe (lk_bind (lk_try (GetDatum a csum)) (\<lambda>r. case r of Inl _ \<Rightarrow> lk_return d | Inr x \<Rightarrow> lk_return (map_put queryMrn x d))) (\<lambda>_. True)"
    for csum d queryMrn
    by (rule safe_bind [OF safe_try [OF GetDatum_safe]]) (auto intro: safe_simple split: sum.split)
  show ?thesis unfolding risk_data_def
    by (auto intro!: safe_simple safe_bind [OF safe_fold [where A = "\<lambda>_. True"]] datum split: option.split)
qed

lemmas lake_ops_good = ensureAssetObject_good SetAssetResolvedPolicy_good safe_good [OF SetResolvedPolicy_safe] safe_good [OF StoreResults_safe]
  safe_good [OF UpdateScores_safe] safe_good [OF UpdateData_safe] safe_good [OF UpdateRisks_safe] safe_good [OF WriteScore_safe]
  safe_good [OF WriteData_safe] safe_good [OF WriteRisk_safe] safe_good [OF GetScore_safe] safe_good [OF GetScores_safe]
  safe_good [OF GetData_safe] safe_good [OF GetRisk_safe] safe_good [OF GetScoredRisks_safe] safe_good [OF GetResolvedPolicy_safe]
  safe_good [OF GetCollectorJob_safe]

text \<open>The operation that can panic: a report on a score of an asset that is known, but has no resolved policy.\<close>

definition report_panics :: "string \<Rightarrow> string \<Rightarrow> Db \<Rightarrow> bool" where
  "report_panics a q db \<longleftrightarrow> has_key (db_cache db) (dbIDScore a q)
     \<and> (\<exists>w. map_get (db_cache db) (dbIDAsset a) = Some (CAsset w) \<and> wa_ResolvedPolicy w = None)"

lemma GetReport_step:
  assumes db: "typed db" "ready db"
  shows "if report_panics a q db then run_op (GetReport a q) db = Inl NilDereference
    else \<exists>db'. run_op (GetReport a q) db = Inr db' \<and> typed db' \<and> ready db'"
proof (cases "stored_under db a q")
  case None
  then have "\<not> report_panics a q db" using present_score [OF db(1), of a q] unfolding report_panics_def by (metis option.distinct(1))
  then show ?thesis using db None
    by (simp add: run_op_def GetReport_def Let_def lk_bind_def lk_try_def GetScore_stored [OF db(1)] lk_return_def)
next
  case (Some s)
  then have key: "has_key (db_cache db) (dbIDScore a q)" unfolding stored_under_Some by (metis map_get_None_iff option.distinct(1))
  note start = run_op_def GetReport_def Let_def lk_bind_Inr [of "lk_try (GetScore a q)"] lk_bind_Inr [of "find_asset a"]
    lk_try_def GetScore_stored [OF db(1)] Some find_asset_typed [OF db(1)]
  show ?thesis
  proof (cases "\<exists>w. map_get (db_cache db) (dbIDAsset a) = Some (CAsset w)")
    case False
    then have no: "\<not> report_panics a q db" by (auto simp: report_panics_def)
    have "find_asset a db = Inr (Inl (NoAsset a), db)" unfolding find_asset_typed [OF db(1)] using False
      by (auto split: option.split cache_value.split)
    then show ?thesis using no db
      by (simp add: run_op_def GetReport_def Let_def lk_bind_Inr [of "lk_try (GetScore a q)"] lk_bind_Inr [of "find_asset a"]
        lk_try_def GetScore_stored [OF db(1)] Some)
  next
    case True
    then obtain w where w: "map_get (db_cache db) (dbIDAsset a) = Some (CAsset w)" by blast
    show ?thesis
    proof (cases "wa_ResolvedPolicy w")
      case None
      then have "report_panics a q db" using key w unfolding report_panics_def by blast
      then show ?thesis using w None by (simp add: start lk_panic_def go_bind_def)
    next
      case rp: (Some rp)
      have no: "\<not> report_panics a q db" using w rp by (simp add: report_panics_def)
      let ?rest = "lk_bind (GetScores a (included_scores a rp)) (\<lambda>scores.
            lk_bind (GetData a (map fst (cj_Datapoints (rpo_CollectorJob rp)))) (\<lambda>data.
            lk_bind (GetScoredRisks a) (\<lambda>risks.
            lk_bind (lk_fold (risk_data a (rpo_CollectorJob rp)) [] risks) (\<lambda>riskData.
            lk_return (\<lparr>rt_EntityMrn = a, rt_ScoringMrn = q, rt_Score = Some s, rt_Scores = scores, rt_Data = data, rt_Risks = Some risks,
              rt_RiskData = riskData, rt_ResolvedPolicyVersion = wa_resolvedPolicyVersion w\<rparr>)))))"
      have "safe ?rest (\<lambda>_. True)"
        by (intro safe_bind [OF GetScores_safe] safe_bind [OF GetData_safe] safe_bind [OF GetScoredRisks_safe]
            safe_bind [OF safe_fold [where A = "\<lambda>_. True"]] risk_data_safe safe_return TrueI)
      from run_op_safe [OF this db] have "\<exists>db'. run_op ?rest db = Inr db' \<and> typed db' \<and> ready db'" .
      moreover have "run_op (GetReport a q) db = run_op ?rest db" using w rp by (simp add: start)
      ultimately show ?thesis using no by (simp only: if_False)
    qed
  qed
qed

lemma lake_step_good:
  assumes db: "typed db" "ready db" and x: "\<And>a q. x = ReportOp a q \<Longrightarrow> \<not> report_panics a q db"
  shows "\<exists>db'. lake_step E x db = Inr db' \<and> typed db' \<and> ready db'"
proof (cases x)
  case (ReportOp a q)
  then show ?thesis using GetReport_step [OF db, of a q] x by simp
qed (simp_all add: run_op_good [OF _ db] lake_ops_good)

lemma lake_run_good: "typed db \<Longrightarrow> ready db \<Longrightarrow> lake_run E ops db = Inr db' \<Longrightarrow> typed db' \<and> ready db'"
proof (induction ops arbitrary: db)
  case (Cons x ops)
  from Cons.prems(3) obtain db1 where db1: "lake_step E x db = Inr db1" "lake_run E ops db1 = Inr db'"
    by (auto simp: go_bind_def split: sum.splits)
  have "\<not> report_panics a q db" if "x = ReportOp a q" for a q
    using db1(1) that GetReport_step [OF Cons.prems(1,2), of a q] by auto
  then have "\<exists>db'. lake_step E x db = Inr db' \<and> typed db' \<and> ready db'" by (rule lake_step_good [OF Cons.prems(1,2)])
  with db1(1) have "typed db1" "ready db1" by auto
  with Cons.IH db1(2) show ?case by blast
qed simp

lemma empty_lake_good: "typed empty_lake" "ready empty_lake"
  by (simp_all add: empty_lake_def typed_def ready_def)

lemma lake_run_panics:
  assumes "typed db" and "ready db"
  shows "lake_run E ops db = Inl p \<longleftrightarrow> p = NilDereference \<and> (\<exists>ops1 a q ops2 db1. ops = ops1 @ ReportOp a q # ops2
    \<and> lake_run E ops1 db = Inr db1 \<and> report_panics a q db1)"
  using assms
proof (induction ops arbitrary: db)
  case (Cons x ops)
  show ?case
  proof (cases "\<exists>a q. x = ReportOp a q \<and> report_panics a q db")
    case True
    then obtain a q where x: "x = ReportOp a q" "report_panics a q db" by blast
    then have "lake_run E (x # ops) db = Inl NilDereference" using GetReport_step [OF Cons.prems, of a q] by simp
    moreover have "\<exists>ops1 a q ops2 db1. x # ops = ops1 @ ReportOp a q # ops2 \<and> lake_run E ops1 db = Inr db1 \<and> report_panics a q db1"
      using x by (intro exI [of _ "[]"] exI [of _ a] exI [of _ q] exI [of _ ops] exI [of _ db]) simp
    ultimately show ?thesis by auto
  next
    case False
    then obtain db1 where db1: "lake_step E x db = Inr db1" "typed db1" "ready db1" using lake_step_good [OF Cons.prems, of x E] by blast
    have "(\<exists>ops1 a q ops2 db2. x # ops = ops1 @ ReportOp a q # ops2 \<and> lake_run E ops1 db = Inr db2 \<and> report_panics a q db2)
      \<longleftrightarrow> (\<exists>ops1 a q ops2 db2. ops = ops1 @ ReportOp a q # ops2 \<and> lake_run E ops1 db1 = Inr db2 \<and> report_panics a q db2)"
    proof
      assume "\<exists>ops1 a q ops2 db2. x # ops = ops1 @ ReportOp a q # ops2 \<and> lake_run E ops1 db = Inr db2 \<and> report_panics a q db2"
      then obtain ops1 a q ops2 db2 where o: "x # ops = ops1 @ ReportOp a q # ops2" "lake_run E ops1 db = Inr db2" "report_panics a q db2" by blast
      show "\<exists>ops1 a q ops2 db2. ops = ops1 @ ReportOp a q # ops2 \<and> lake_run E ops1 db1 = Inr db2 \<and> report_panics a q db2"
      proof (cases ops1)
        case Nil
        then show ?thesis using o False by auto
      next
        case (Cons y ys)
        then show ?thesis using o db1(1) by auto
      qed
    next
      assume "\<exists>ops1 a q ops2 db2. ops = ops1 @ ReportOp a q # ops2 \<and> lake_run E ops1 db1 = Inr db2 \<and> report_panics a q db2"
      then obtain ops1 a q ops2 db2 where "ops = ops1 @ ReportOp a q # ops2" "lake_run E ops1 db1 = Inr db2" "report_panics a q db2" by blast
      then show "\<exists>ops1 a q ops2 db2. x # ops = ops1 @ ReportOp a q # ops2 \<and> lake_run E ops1 db = Inr db2 \<and> report_panics a q db2"
        using db1(1) by (intro exI [of _ "x # ops1"] exI [of _ a] exI [of _ q] exI [of _ ops2] exI [of _ db2]) simp
    qed
    then show ?thesis using Cons.IH [OF db1(2,3)] db1(1) by simp
  qed
qed simp


subsection \<open>Reports are complete\<close>

lemma lk_fold_pure:
  assumes "\<And>s x. x \<in> set xs \<Longrightarrow> f s x db = Inr (Inr (g s x), db)"
  shows "lk_fold f s xs db = Inr (Inr (foldl g s xs), db)"
  using assms by (induction xs arbitrary: s) (simp_all add: lk_return_def lk_bind_Inr)

lemma lk_fold_reads:
  assumes "\<And>s x. \<exists>r. f s x db = Inr (r, db) \<and> (\<forall>e. r = Inl e \<longrightarrow> P e)"
  shows "\<exists>r. lk_fold f s xs db = Inr (r, db) \<and> (\<forall>e. r = Inl e \<longrightarrow> P e)"
proof (induction xs arbitrary: s)
  case (Cons x xs)
  obtain r where "f s x db = Inr (r, db)" "\<And>e. r = Inl e \<Longrightarrow> P e" using assms by blast
  then show ?case using Cons.IH by (cases r) (auto simp: lk_bind_Inr)
qed (simp add: lk_return_def)

definition datum_under :: "Db \<Rightarrow> string \<Rightarrow> string \<Rightarrow> Result option" where
  "datum_under db a c = (case map_get (db_cache db) (dbIDData a c) of Some (CData x) \<Rightarrow> Some x | _ \<Rightarrow> None)"

lemma GetDatum_stored:
  assumes "typed db"
  shows "GetDatum a q db = Inr (case datum_under db a q of Some s \<Rightarrow> Inr s | None \<Rightarrow> Inl NoData, db)"
proof (cases "map_get (db_cache db) (dbIDData a q)")
  case (Some v)
  then have "right_key (dbIDData a q) v" using assms by (simp add: typed_def)
  then show ?thesis using Some
    by (cases v) (simp_all add: right_key_def GetDatum_def datum_under_def lk_bind_def lk_get_def kissDb_Get_def lk_return_def)
qed (simp add: GetDatum_def datum_under_def lk_bind_def lk_get_def kissDb_Get_def lk_fail_def)

lemma present_datum:
  assumes "typed db" and "has_key (db_cache db) (dbIDData a q)"
  shows "\<exists>s. datum_under db a q = Some s"
proof -
  obtain v where v: "map_get (db_cache db) (dbIDData a q) = Some v" using has_key_value [OF assms(2)] by blast
  then have "right_key (dbIDData a q) v" using assms(1) by (simp add: typed_def)
  then show ?thesis using v by (cases v) (simp_all add: right_key_def datum_under_def)
qed

lemma GetScores_stored:
  assumes "typed db" and "\<And>q. q \<in> set qs \<Longrightarrow> \<exists>s. stored_under db a q = Some s"
  shows "GetScores a qs db = Inr (Inr (foldl (\<lambda>m q. map_put q (the (stored_under db a q)) m) [] qs), db)"
  unfolding GetScores_def
proof (rule lk_fold_pure)
  fix m q assume "q \<in> set qs"
  then obtain s where "stored_under db a q = Some s" using assms(2) by blast
  then show "lk_bind (GetScore a q) (\<lambda>score. lk_return (map_put q score m)) db = Inr (Inr (map_put q (the (stored_under db a q)) m), db)"
    by (simp add: lk_bind_Inr GetScore_stored [OF assms(1)] lk_return_def)
qed

lemma GetData_stored:
  assumes "typed db" and "\<And>q. q \<in> set qs \<Longrightarrow> \<exists>s. datum_under db a q = Some s"
  shows "GetData a qs db = Inr (Inr (foldl (\<lambda>m q. map_put q (the (datum_under db a q)) m) [] qs), db)"
  unfolding GetData_def
proof (rule lk_fold_pure)
  fix m q assume "q \<in> set qs"
  then obtain s where "datum_under db a q = Some s" using assms(2) by blast
  then show "lk_bind (GetDatum a q) (\<lambda>x. lk_return (map_put q x m)) db = Inr (Inr (map_put q (the (datum_under db a q)) m), db)"
    by (simp add: lk_bind_Inr GetDatum_stored [OF assms(1)] lk_return_def)
qed

lemma keys_put_all: "fst ` set (foldl (\<lambda>m q. map_put q (f q) m) m qs) = set qs \<union> fst ` set m"
  by (induction qs arbitrary: m) (simp_all add: keys_put)

lemma get_put_all: "map_get (foldl (\<lambda>m q. map_put q (f q) m) m qs) k = (if k \<in> set qs then Some (f k) else map_get m k)"
  by (induction qs arbitrary: m) auto

lemma included_scores_set: "set (included_scores a rp) = score_qrid a ` set (scored_jobs rp)"
proof -
  have "fst ` set (foldl (\<lambda>m job. map_put (f job) () m) m js) = f ` set js \<union> fst ` set m" for f :: "ReportingJob \<Rightarrow> string" and m js
    by (induction js arbitrary: m) (simp_all add: keys_put)
  then show ?thesis by (simp add: included_scores_def)
qed

definition risks_under :: "Db \<Rightarrow> string \<Rightarrow> ScoredRiskFactor list" where
  "risks_under db a = (case map_get (db_cache db) (dbIDAssetRisk a) of Some (CAssetRisks m) \<Rightarrow> map snd m | _ \<Rightarrow> [])"

definition metadata_under :: "Db \<Rightarrow> string \<Rightarrow> RiskFactor option" where
  "metadata_under db m = (case map_get (db_cache db) (dbIDRiskFactor m) of Some (CRiskFactor rf) \<Rightarrow> Some rf | _ \<Rightarrow> None)"

text \<open>The risk that is reported for a stored one, with its metadata: the magnitude of a risk that was not detected is negative.\<close>

definition graded_risk :: "RiskFactor \<Rightarrow> ScoredRiskFactor \<Rightarrow> ScoredRiskFactor" where
  "graded_risk rf risk = risk\<lparr>sr_Risk := if sr_IsDetected risk then mag_Value (rf_Magnitude rf) else - mag_Value (rf_Magnitude rf),
     sr_IsToxic := mag_IsToxic (rf_Magnitude rf)\<rparr>"

lemma asset_risks_reads:
  assumes "typed db"
  shows "\<exists>m. asset_risks a db = Inr (Inr m, db) \<and> map snd m = risks_under db a"
proof (cases "map_get (db_cache db) (dbIDAssetRisk a)")
  case (Some v)
  then have "right_key (dbIDAssetRisk a) v" using assms by (simp add: typed_def)
  then show ?thesis using Some
    by (cases v) (simp_all add: right_key_def asset_risks_def risks_under_def lk_bind_def lk_get_def kissDb_Get_def lk_return_def)
qed (simp add: asset_risks_def risks_under_def lk_bind_def lk_get_def kissDb_Get_def lk_return_def)

lemma metadata_reads:
  assumes "typed db"
  shows "getRiskFactor m db = Inr (case metadata_under db m of None \<Rightarrow> Inl (NoRiskMetadata m) | Some rf \<Rightarrow> Inr rf, db)"
proof (cases "map_get (db_cache db) (dbIDRiskFactor m)")
  case (Some v)
  then have "right_key (dbIDRiskFactor m) v" using assms by (simp add: typed_def)
  then show ?thesis using Some
    by (cases v) (simp_all add: right_key_def getRiskFactor_def metadata_under_def lk_bind_def lk_get_def kissDb_Get_def lk_return_def)
qed (simp add: getRiskFactor_def metadata_under_def lk_bind_def lk_get_def kissDb_Get_def lk_fail_def)

lemma getRiskFactor_reads: "typed db \<Longrightarrow> \<exists>r. getRiskFactor m db = Inr (r, db) \<and> (\<forall>e. r = Inl e \<longrightarrow> e = NoRiskMetadata m)"
  by (simp add: metadata_reads split: option.split)

lemma GetScoredRisks_reads:
  assumes "typed db"
  shows "GetScoredRisks a db = Inr (case List.find (\<lambda>risk. metadata_under db (sr_Mrn risk) = None) (risks_under db a) of
      Some risk \<Rightarrow> Inl (NoRiskMetadata (sr_Mrn risk))
    | None \<Rightarrow> Inr (map (\<lambda>risk. graded_risk (the (metadata_under db (sr_Mrn risk))) risk) (risks_under db a)), db)"
proof -
  obtain m where m: "asset_risks a db = Inr (Inr m, db)" "map snd m = risks_under db a" using asset_risks_reads [OF assms] by blast
  let ?f = "\<lambda>res risk. lk_bind (getRiskFactor (sr_Mrn risk)) (\<lambda>riskInfo.
     lk_return (res @ [\<lparr>sr_Mrn = sr_Mrn risk,
       sr_Risk = (if sr_IsDetected risk then mag_Value (rf_Magnitude riskInfo) else - mag_Value (rf_Magnitude riskInfo)),
       sr_IsToxic = mag_IsToxic (rf_Magnitude riskInfo), sr_IsDetected = sr_IsDetected risk\<rparr>]))"
  have step: "?f res risk db = Inr (case metadata_under db (sr_Mrn risk) of None \<Rightarrow> Inl (NoRiskMetadata (sr_Mrn risk))
      | Some rf \<Rightarrow> Inr (res @ [graded_risk rf risk]), db)" for res risk
    by (cases risk) (simp add: lk_bind_Inr metadata_reads [OF assms] lk_return_def graded_risk_def split: option.split)
  have "lk_fold ?f res risks db = Inr (case List.find (\<lambda>risk. metadata_under db (sr_Mrn risk) = None) risks of
      Some risk \<Rightarrow> Inl (NoRiskMetadata (sr_Mrn risk))
    | None \<Rightarrow> Inr (res @ map (\<lambda>risk. graded_risk (the (metadata_under db (sr_Mrn risk))) risk) risks), db)" for res risks
  proof (induction risks arbitrary: res)
    case (Cons risk risks)
    show ?case unfolding lk_fold.simps lk_bind_Inr [of "?f res risk"] step
      using Cons.IH by (cases "metadata_under db (sr_Mrn risk)") (simp_all split: option.split)
  qed (simp add: lk_return_def)
  then show ?thesis by (simp add: GetScoredRisks_def StreamRisks_def lk_bind_Inr [of "asset_risks a"] m split: option.split)
qed

lemma risk_data_reads:
  assumes "typed db"
  shows "\<exists>m'. risk_data a cj m risk db = Inr (Inr m', db)"
proof (cases "map_get (cj_RiskDataQueries cj) (sr_Mrn risk)")
  case (Some info)
  let ?f = "\<lambda>d (queryMrn, csum). lk_bind (lk_try (GetDatum a csum)) (\<lambda>r. case r of
         Inl _ \<Rightarrow> lk_return d | Inr x \<Rightarrow> lk_return (map_put queryMrn x d))"
  have "?f d x db = Inr (Inr (case x of (queryMrn, csum) \<Rightarrow> case datum_under db a csum of None \<Rightarrow> d | Some v \<Rightarrow> map_put queryMrn v d), db)" for d x
    by (cases x) (simp add: lk_bind_Inr lk_try_def GetDatum_stored [OF assms] lk_return_def split: option.split)
  from lk_fold_pure [of info ?f, OF this] show ?thesis by (simp add: risk_data_def Some lk_bind_Inr lk_return_def)
qed (simp add: risk_data_def lk_return_def)

lemma ready_asset:
  assumes "typed db" and "ready db" and "GetResolvedPolicy a db = Inr (Inr rp, db)"
  shows "\<exists>w. find_asset a db = Inr (Inr w, db) \<and> wa_ResolvedPolicy w = Some rp \<and> needed a rp \<subseteq> fst ` set (db_cache db)"
proof (cases "map_get (db_cache db) (dbIDAsset a)")
  case None
  then show ?thesis using assms(3) find_asset_typed [OF assms(1), of a] by (simp add: GetResolvedPolicy_def lk_bind_Inr)
next
  case (Some v)
  then have "right_key (dbIDAsset a) v" using assms(1) by (simp add: typed_def)
  then obtain w where w: "v = CAsset w" by (cases v) (simp_all add: right_key_def)
  then have find: "find_asset a db = Inr (Inr w, db)" using Some find_asset_typed [OF assms(1), of a] by simp
  then have rp: "wa_ResolvedPolicy w = Some rp"
    using assms(3) by (simp add: GetResolvedPolicy_def lk_bind_Inr lk_return_def lk_fail_def split: option.splits)
  then have "needed a rp \<subseteq> fst ` set (db_cache db)" using assms(2) Some w unfolding ready_def by blast
  with find rp show ?thesis by blast
qed

lemma report_of_ready_lake:
  assumes db: "typed db" "ready db" and rp: "GetResolvedPolicy a db = Inr (Inr rp, db)" and q: "q \<in> score_qrid a ` set (scored_jobs rp)"
  shows "\<exists>r. GetReport a q db = Inr (r, db) \<and> (case r of
      Inl e \<Rightarrow> \<exists>risk \<in> set (risks_under db a). metadata_under db (sr_Mrn risk) = None \<and> e = NoRiskMetadata (sr_Mrn risk)
    | Inr rep \<Rightarrow> rt_EntityMrn rep = a \<and> rt_ScoringMrn rep = q \<and> rt_Score rep = stored_under db a q
        \<and> fst ` set (rt_Scores rep) = score_qrid a ` set (scored_jobs rp)
        \<and> (\<forall>k. map_get (rt_Scores rep) k = (if k \<in> score_qrid a ` set (scored_jobs rp) then stored_under db a k else None))
        \<and> fst ` set (rt_Data rep) = fst ` set (cj_Datapoints (rpo_CollectorJob rp))
        \<and> (\<forall>k. map_get (rt_Data rep) k = (if k \<in> fst ` set (cj_Datapoints (rpo_CollectorJob rp)) then datum_under db a k else None))
        \<and> list_all (\<lambda>risk. metadata_under db (sr_Mrn risk) \<noteq> None) (risks_under db a)
        \<and> rt_Risks rep = Some (map (\<lambda>risk. graded_risk (the (metadata_under db (sr_Mrn risk))) risk) (risks_under db a)))"
proof -
  obtain w where w: "find_asset a db = Inr (Inr w, db)" "wa_ResolvedPolicy w = Some rp" and n: "needed a rp \<subseteq> fst ` set (db_cache db)"
    using ready_asset [OF db rp] by blast
  let ?points = "map fst (cj_Datapoints (rpo_CollectorJob rp))"
  have score: "\<exists>s. stored_under db a k = Some s" if "k \<in> score_qrid a ` set (scored_jobs rp)" for k
  proof (rule present_score [OF db(1)])
    have "dbIDScore a k \<in> needed a rp" unfolding needed_def using that by blast
    then show "has_key (db_cache db) (dbIDScore a k)" using n by blast
  qed
  have datum: "\<exists>s. datum_under db a k = Some s" if "k \<in> set ?points" for k
  proof (rule present_datum [OF db(1)])
    have "dbIDData a k \<in> needed a rp" unfolding needed_def using that by (simp only: set_map UnI2 imageI)
    then show "has_key (db_cache db) (dbIDData a k)" using n by blast
  qed
  obtain s where s: "stored_under db a q = Some s" using score [OF q] by blast
  let ?scores = "foldl (\<lambda>m q. map_put q (the (stored_under db a q)) m) [] (included_scores a rp)"
  let ?data = "foldl (\<lambda>m q. map_put q (the (datum_under db a q)) m) [] ?points"
  have scores: "GetScores a (included_scores a rp) db = Inr (Inr ?scores, db)"
    by (rule GetScores_stored [OF db(1)]) (simp add: included_scores_set score)
  have data: "GetData a ?points db = Inr (Inr ?data, db)"
    by (rule GetData_stored [OF db(1)]) (rule datum)
  have keys: "fst ` set ?scores = score_qrid a ` set (scored_jobs rp)" "fst ` set ?data = fst ` set (cj_Datapoints (rpo_CollectorJob rp))"
    by (simp_all only: keys_put_all included_scores_set) simp_all
  have vals: "\<forall>k. map_get ?scores k = (if k \<in> score_qrid a ` set (scored_jobs rp) then stored_under db a k else None)"
    "\<forall>k. map_get ?data k = (if k \<in> fst ` set (cj_Datapoints (rpo_CollectorJob rp)) then datum_under db a k else None)"
    using score datum by (fastforce simp: get_put_all included_scores_set)+
  note up_to_risks = GetReport_def Let_def lk_bind_Inr [of "lk_try (GetScore a q)"] lk_bind_Inr [of "find_asset a"]
    lk_bind_Inr [of "GetScores a (included_scores a rp)"] lk_bind_Inr [of "GetData a ?points"]
    lk_bind_Inr [of "GetScoredRisks a"] lk_try_def GetScore_stored [OF db(1)] s w scores data GetScoredRisks_reads [OF db(1)]
  show ?thesis
  proof (cases "List.find (\<lambda>risk. metadata_under db (sr_Mrn risk) = None) (risks_under db a)")
    case (Some risk)
    then have "risk \<in> set (risks_under db a)" "metadata_under db (sr_Mrn risk) = None"
      by (auto simp: find_Some_iff)
    moreover have "GetReport a q db = Inr (Inl (NoRiskMetadata (sr_Mrn risk)), db)" by (simp add: up_to_risks Some)
    ultimately show ?thesis by auto
  next
    case None
    then have known: "list_all (\<lambda>risk. metadata_under db (sr_Mrn risk) \<noteq> None) (risks_under db a)"
      by (simp add: find_None_iff list_all_iff)
    let ?risks = "map (\<lambda>risk. graded_risk (the (metadata_under db (sr_Mrn risk))) risk) (risks_under db a)"
    have "\<exists>r. lk_fold (risk_data a (rpo_CollectorJob rp)) [] ?risks db = Inr (r, db) \<and> (\<forall>e. r = Inl e \<longrightarrow> False)"
      by (rule lk_fold_reads) (use risk_data_reads [OF db(1)] in blast)
    then obtain rd where rd: "lk_fold (risk_data a (rpo_CollectorJob rp)) [] ?risks db = Inr (Inr rd, db)" by (metis old.sum.exhaust)
    let ?rep = "\<lparr>rt_EntityMrn = a, rt_ScoringMrn = q, rt_Score = Some s, rt_Scores = ?scores, rt_Data = ?data, rt_Risks = Some ?risks,
      rt_RiskData = rd, rt_ResolvedPolicyVersion = wa_resolvedPolicyVersion w\<rparr>"
    have "GetReport a q db = Inr (Inr ?rep, db)"
      by (simp add: up_to_risks None lk_bind_Inr [of "lk_fold (risk_data a (rpo_CollectorJob rp)) [] ?risks"] rd lk_return_def)
    with keys vals known show ?thesis by (intro exI [of _ "Inr ?rep"]) (simp add: s)
  qed
qed

text \<open>C16: after any run of the lake, the report on an asset with a resolved policy that is asked for the score of one of its jobs has
  exactly the scores of the jobs that are not risks and exactly the data of the codepoints, each the one that is stored, and all
  stored risks, with their metadata. It is an error only if there is no metadata for a stored risk, and names that risk.\<close>

theorem report_is_complete:
  assumes "lake_run E ops empty_lake = Inr db" and "GetResolvedPolicy a db = Inr (Inr rp, db)" and "q \<in> score_qrid a ` set (scored_jobs rp)"
  shows "\<exists>r. GetReport a q db = Inr (r, db) \<and> (case r of
      Inl e \<Rightarrow> \<exists>risk \<in> set (risks_under db a). metadata_under db (sr_Mrn risk) = None \<and> e = NoRiskMetadata (sr_Mrn risk)
    | Inr rep \<Rightarrow> rt_EntityMrn rep = a \<and> rt_ScoringMrn rep = q \<and> rt_Score rep = stored_under db a q
        \<and> fst ` set (rt_Scores rep) = score_qrid a ` set (scored_jobs rp)
        \<and> (\<forall>k. map_get (rt_Scores rep) k = (if k \<in> score_qrid a ` set (scored_jobs rp) then stored_under db a k else None))
        \<and> fst ` set (rt_Data rep) = fst ` set (cj_Datapoints (rpo_CollectorJob rp))
        \<and> (\<forall>k. map_get (rt_Data rep) k = (if k \<in> fst ` set (cj_Datapoints (rpo_CollectorJob rp)) then datum_under db a k else None))
        \<and> list_all (\<lambda>risk. metadata_under db (sr_Mrn risk) \<noteq> None) (risks_under db a)
        \<and> rt_Risks rep = Some (map (\<lambda>risk. graded_risk (the (metadata_under db (sr_Mrn risk))) risk) (risks_under db a)))"
proof -
  have "typed db" "ready db" using lake_run_good [OF empty_lake_good assms(1)] by simp_all
  then show ?thesis using assms(2,3) by (rule report_of_ready_lake)
qed

subsection \<open>Scores that are stored are read\<close>

lemma filter_distinct_key: "distinct (map f xs) \<Longrightarrow> x \<in> set xs \<Longrightarrow> filter (\<lambda>y. f y = f x) xs = [x]"
proof (induction xs)
  case (Cons y ys)
  show ?case
  proof (cases "x = y")
    case True
    have "f y \<notin> f ` set ys" using Cons.prems(1) by simp
    then have "filter (\<lambda>z. f z = f x) ys = []" using True unfolding filter_empty_conv by (metis imageI)
    then show ?thesis using True by simp
  next
    case False
    then show ?thesis using Cons by auto
  qed
qed simp

definition new_score :: "StoredScore option \<Rightarrow> Score \<Rightarrow> int \<Rightarrow> StoredScore" where
  "new_score prev score t = (case prev of None \<Rightarrow> stored_score score (score_times prev score t)
     | Some org \<Rightarrow> if same_score org score then org else stored_score score (score_times prev score t))"

definition score_changes :: "StoredScore option \<Rightarrow> Score \<Rightarrow> bool" where
  "score_changes prev score = (case prev of None \<Rightarrow> True | Some org \<Rightarrow> \<not> same_score org score)"

lemma stored_score_fields:
  "Score.truncate (stored_score score ts) = score" "ls_ValueModifiedTime (stored_score score ts) = fst ts"
  "ls_FailureTime (stored_score score ts) = snd ts" "same_score (stored_score score ts) score"
  by (cases score, cases ts, simp add: stored_score_def Score.defs same_score_def)+

lemma same_new_score: "same_score (new_score prev score t) score"
  by (simp add: new_score_def stored_score_fields split: option.split)

lemma updateScore_stores:
  assumes "typed db"
  shows "\<exists>db'. updateScore a score t db = Inr (Inr (score_changes (stored_under db a (sc_QrId score)) score), db') \<and> typed db'
    \<and> (\<forall>q. stored_under db' a q = (if q = sc_QrId score then Some (new_score (stored_under db a q) score t) else stored_under db a q))"
proof (cases "score_changes (stored_under db a (sc_QrId score)) score")
  case False
  then show ?thesis using assms
    by (intro exI [of _ db]) (auto simp: updateScore_eq [OF assms] score_changes_def new_score_def split: option.splits)
next
  case True
  let ?s = "stored_score score (score_times (stored_under db a (sc_QrId score)) score t)"
  let ?db = "db\<lparr>db_cache := map_put (dbIDScore a (sc_QrId score)) (CScore ?s) (db_cache db)\<rparr>"
  have "typed ?db" using assms by (simp add: typed_def right_key_def)
  moreover have "updateScore a score t db = Inr (Inr True, ?db)" unfolding updateScore_eq [OF assms]
    using True by (simp add: score_changes_def split: option.splits)
  moreover have "stored_under ?db a q = (if q = sc_QrId score then Some (new_score (stored_under db a q) score t) else stored_under db a q)" for q
    using True by (auto simp: stored_under_def score_changes_def new_score_def split: option.splits cache_value.splits)
  ultimately show ?thesis using True by auto
qed

definition update_each :: "string \<Rightarrow> int \<Rightarrow> (string, unit) gomap \<Rightarrow> Score \<Rightarrow> (string, unit) gomap lake" where
  "update_each a t updated score = lk_bind (updateScore a score t) (\<lambda>changed. lk_return (if changed then map_put (sc_QrId score) () updated else updated))"

lemma UpdateScores_each: "UpdateScores E a scores db = lk_fold (update_each a (le_now E (db_readings db))) [] scores (db\<lparr>db_readings := Suc (db_readings db)\<rparr>)"
  by (simp add: UpdateScores_def lk_bind_Inr lk_now_def update_each_def [abs_def])

lemma update_all_stores:
  assumes "typed db" and "distinct (map sc_QrId scores)"
  shows "\<exists>u db'. lk_fold (update_each a t) m scores db = Inr (Inr u, db') \<and> typed db'
    \<and> fst ` set u = fst ` set m \<union> sc_QrId ` {s \<in> set scores. score_changes (stored_under db a (sc_QrId s)) s}
    \<and> (\<forall>s \<in> set scores. stored_under db' a (sc_QrId s) = Some (new_score (stored_under db a (sc_QrId s)) s t))
    \<and> (\<forall>q. q \<notin> sc_QrId ` set scores \<longrightarrow> stored_under db' a q = stored_under db a q)"
  using assms
proof (induction scores arbitrary: m db)
  case (Cons score scores)
  let ?q = "sc_QrId score" and ?c = "score_changes (stored_under db a (sc_QrId score)) score"
  let ?m = "if ?c then map_put ?q () m else m"
  obtain db1 where 1: "updateScore a score t db = Inr (Inr ?c, db1)" "typed db1"
    and q1: "\<And>q. stored_under db1 a q = (if q = ?q then Some (new_score (stored_under db a q) score t) else stored_under db a q)"
    using updateScore_stores [OF Cons.prems(1)] by blast
  have dist: "distinct (map sc_QrId scores)" "?q \<notin> sc_QrId ` set scores" using Cons.prems(2) by simp_all
  then have other: "stored_under db1 a (sc_QrId s) = stored_under db a (sc_QrId s)" if "s \<in> set scores" for s
  proof -
    have "sc_QrId s \<noteq> ?q" using dist(2) that by (metis imageI)
    then show ?thesis using q1 by simp
  qed
  obtain u db2 where 2: "lk_fold (update_each a t) ?m scores db1 = Inr (Inr u, db2)" "typed db2"
    and keys: "fst ` set u = fst ` set ?m \<union> sc_QrId ` {s \<in> set scores. score_changes (stored_under db1 a (sc_QrId s)) s}"
    and new: "\<forall>s \<in> set scores. stored_under db2 a (sc_QrId s) = Some (new_score (stored_under db1 a (sc_QrId s)) s t)"
    and rest: "\<And>q. q \<notin> sc_QrId ` set scores \<Longrightarrow> stored_under db2 a q = stored_under db1 a q"
    using Cons.IH [OF 1(2) dist(1), of ?m] by blast
  have run: "lk_fold (update_each a t) m (score # scores) db = Inr (Inr u, db2)"
    using 1(1) 2(1) by (simp add: update_each_def [of a t m] lk_bind_Inr lk_return_def)
  have "{s \<in> set (score # scores). score_changes (stored_under db a (sc_QrId s)) s}
    = (if ?c then {score} else {}) \<union> {s \<in> set scores. score_changes (stored_under db1 a (sc_QrId s)) s}"
    using other by auto
  then have "fst ` set u = fst ` set m \<union> sc_QrId ` {s \<in> set (score # scores). score_changes (stored_under db a (sc_QrId s)) s}"
    unfolding keys by (auto simp: keys_put)
  moreover have "\<forall>s \<in> set (score # scores). stored_under db2 a (sc_QrId s) = Some (new_score (stored_under db a (sc_QrId s)) s t)"
    using new other rest [OF dist(2)] q1 by auto
  moreover have "\<forall>q. q \<notin> sc_QrId ` set (score # scores) \<longrightarrow> stored_under db2 a q = stored_under db a q"
    using rest q1 by auto
  ultimately show ?case using run 2(2) by blast
qed (simp add: lk_return_def)

lemma UpdateScores_stores:
  assumes "typed db" and "distinct (map sc_QrId scores)"
  shows "\<exists>u db'. UpdateScores E a scores db = Inr (Inr u, db') \<and> typed db'
    \<and> fst ` set u = sc_QrId ` {s \<in> set scores. score_changes (stored_under db a (sc_QrId s)) s}
    \<and> (\<forall>s \<in> set scores. stored_under db' a (sc_QrId s) = Some (new_score (stored_under db a (sc_QrId s)) s (le_now E (db_readings db))))
    \<and> (\<forall>q. q \<notin> sc_QrId ` set scores \<longrightarrow> stored_under db' a q = stored_under db a q)"
proof -
  have "typed (db\<lparr>db_readings := Suc (db_readings db)\<rparr>)" "stored_under (db\<lparr>db_readings := Suc (db_readings db)\<rparr>) a q = stored_under db a q" for q
    using assms by (simp_all add: typed_def stored_under_def)
  note again = this
  show ?thesis using update_all_stores [OF again(1) assms(2), of a "le_now E (db_readings db)" "[]"] unfolding UpdateScores_each again(2) by simp
qed

lemma UpdateScores_again:
  assumes "typed db" and "distinct (map sc_QrId scores)"
    and "\<And>s. s \<in> set scores \<Longrightarrow> \<exists>org. stored_under db a (sc_QrId s) = Some org \<and> same_score org s"
  shows "UpdateScores E a scores db = Inr (Inr [], db\<lparr>db_readings := Suc (db_readings db)\<rparr>)"
proof -
  let ?db = "db\<lparr>db_readings := Suc (db_readings db)\<rparr>"
  have db: "typed ?db" "stored_under ?db a q = stored_under db a q" for q
    using assms(1) by (simp_all add: typed_def stored_under_def)
  have "update_each a t m s ?db = Inr (Inr m, ?db)" if "s \<in> set scores" for m s t
    using assms(3) [OF that] by (auto simp: update_each_def lk_bind_Inr updateScore_eq [OF db(1)] db(2) lk_return_def)
  then have "lk_fold (update_each a t) [] scores ?db = Inr (Inr (foldl (\<lambda>m s. m) [] scores), ?db)" for t by (rule lk_fold_pure)
  moreover have "foldl (\<lambda>m s. m) m scores = m" for m :: "(string, unit) gomap" by (induction scores) auto
  ultimately show ?thesis by (simp add: UpdateScores_each)
qed


subsection \<open>A concrete lake\<close>

definition lake_sample_env :: lake_env where
  "lake_sample_env = \<lparr>le_now = int, le_cacheClock = int, le_protoSize = (\<lambda>_. 1), le_NilPrimitive = \<lparr>pr_Type = ''nil'', pr_Value = ''''\<rparr>,
     le_IsNil = (\<lambda>p. pr_Type p = ''nil''), le_Unset = ''unset''\<rparr>"

text \<open>An asset with a root job and a check, which needs one codepoint.\<close>

definition asset_policy :: ResolvedPolicy where
  "asset_policy = \<lparr>rpo_ExecutionJob = \<lparr>xj_Checksum = '''', xj_Queries = []\<rparr>,
     rpo_CollectorJob = \<lparr>cj_Checksum = '''', cj_ReportingJobs =
       [(''u0'', \<lparr>pj_QrId = ''root'', pj_Uuid = ''u0'', pj_Notify = [], pj_ScoringSystem = AVERAGE, pj_Datapoints = [],
          pj_ChildJobs = [(''u1'', None)], pj_Type = RJ_POLICY, pj_Checksum = '''', pj_Mrns = []\<rparr>),
        (''u1'', \<lparr>pj_QrId = ''//q'', pj_Uuid = ''u1'', pj_Notify = [''u0''], pj_ScoringSystem = AVERAGE, pj_Datapoints = [(''c'', True)],
          pj_ChildJobs = [], pj_Type = RJ_CHECK, pj_Checksum = '''', pj_Mrns = []\<rparr>)],
       cj_ReportingQueries = [], cj_Datapoints = [(''c'', \<lparr>dq_Type = ''bool'', dq_Notify = [''u1'']\<rparr>)], cj_RiskMrns = [],
       cj_RiskFactors = [], cj_RiskDataQueries = []\<rparr>,
     rpo_Filters = [], rpo_GraphExecutionChecksum = ''g'', rpo_FiltersChecksum = ''f'', rpo_ReportingJobUuid = ''u0''\<rparr>"

definition asset_ops :: "lake_op list" where
  "asset_ops = [EnsureAsset ''//a'', ResolvedPolicyOp ''//a'' asset_policy False, AssetPolicyOp ''//a'' asset_policy ''v2'',
     ResultsOp \<lparr>req_AssetMrn = ''//a'', req_Data = [(''c'', \<lparr>re_CodeID = ''c'', re_Error = '''', re_Data = Some \<lparr>pr_Type = ''bool'', pr_Value = ''true''\<rparr>\<rparr>)],
       req_Scores = [zeroScore\<lparr>sc_QrId := ''//q'', sc_Type := ScoreType_Result, sc_Value := 100, sc_ScoreCompletion := 100\<rparr>], req_Risks = [],
       req_IsPreprocessed = True, req_IsLastBatch = True\<rparr>]"

lemma asset_run:
  obtains db where "lake_run lake_sample_env asset_ops empty_lake = Inr db" and "GetResolvedPolicy ''//a'' db = Inr (Inr asset_policy, db)"
proof -
  have rp: "map_sum (\<lambda>p. p) fst (go_bind (lake_run lake_sample_env asset_ops empty_lake) (GetResolvedPolicy ''//a'')) = Inr (Inr asset_policy)" by code_simp
  then obtain db where db: "lake_run lake_sample_env asset_ops empty_lake = Inr db" by (auto simp: go_bind_def split: sum.splits)
  obtain db1 where db1: "GetResolvedPolicy ''//a'' db = Inr (Inr asset_policy, db1)" using rp by (auto simp: db)
  moreover have "db1 = db" using db1
    by (auto simp: GetResolvedPolicy_def find_asset_def lk_bind_Inr lk_get_def lk_return_def lk_fail_def lk_panic_def
        split: option.splits cache_value.splits)
  ultimately show thesis using that db by simp
qed

theorem report_is_complete_witness:
  "\<exists>db rep. lake_run lake_sample_env asset_ops empty_lake = Inr db \<and> GetReport ''//a'' ''//a'' db = Inr (Inr rep, db)
    \<and> fst ` set (rt_Scores rep) = {''//a'', ''//q''} \<and> fst ` set (rt_Data rep) = {''c''}
    \<and> map_get (rt_Data rep) ''c'' = datum_under db ''//a'' ''c''"
proof -
  obtain db where db: "lake_run lake_sample_env asset_ops empty_lake = Inr db"
    and get: "GetResolvedPolicy ''//a'' db = Inr (Inr asset_policy, db)" by (rule asset_run)
  have jobs: "score_qrid ''//a'' ` set (scored_jobs asset_policy) = {''//a'', ''//q''}"
    "fst ` set (cj_Datapoints (rpo_CollectorJob asset_policy)) = {''c''}" by code_simp+
  have "go_bind (lake_run lake_sample_env asset_ops empty_lake) (\<lambda>db. Inr (risks_under db ''//a'')) = Inr []" by code_simp
  then have risks: "risks_under db ''//a'' = []" by (simp add: db)
  have "''//a'' \<in> score_qrid ''//a'' ` set (scored_jobs asset_policy)" unfolding jobs by simp
  from report_is_complete [OF db get this, unfolded risks jobs] obtain r where r: "GetReport ''//a'' ''//a'' db = Inr (r, db)"
    and c: "case r of Inl e \<Rightarrow> False
       | Inr rep \<Rightarrow> fst ` set (rt_Scores rep) = {''//a'', ''//q''} \<and> fst ` set (rt_Data rep) = {''c''}
          \<and> map_get (rt_Data rep) ''c'' = datum_under db ''//a'' ''c''"
    by (elim exE conjE) (rule that, assumption, simp split: sum.splits)
  from c obtain rep where "r = Inr rep" by (cases r) simp_all
  with db r c show ?thesis by auto
qed


end
