(* ===== verification/Policy_Hub_Results.thy ===== *)
theory Policy_Hub_Results
  imports Policy_Hub Data_Lake_Results
begin

text \<open>
  What the policies of the data lake promise if their dependencies have no cycle: the list of policies is that of the stored ones,
  every child is stored and knows its parent, and a policy that is stored is invalidated together with all its ancestors.
  \<open>hub\<close> is the invariant; in it \<open>R\<close> ranks a policy below the ones that depend on it, so that the recursion of the invalidation is at
  most as deep as there are ranks above.
\<close>

subsection \<open>What is stored\<close>

definition mrns :: "(string, unit) gomap \<Rightarrow> string set" where
  "mrns m = fst ` set m"

lemma mrns_simps [simp]: "mrns [] = {}" "mrns (map_put k () m) = insert k (mrns m)" "mrns (map_del k m) = mrns m - {k}"
  by (auto simp: mrns_def keys_put AList.delete_eq)

definition pol :: "Db \<Rightarrow> string \<Rightarrow> wrapPolicy option" where
  "pol db m = (case map_get (db_cache db) (dbIDPolicy m) of Some (CPolicy w) \<Rightarrow> Some w | _ \<Rightarrow> None)"

definition listed_policies :: "Db \<Rightarrow> string set" where
  "listed_policies db = (case map_get (db_cache db) dbIDListPolicies of Some (CPolicyList l) \<Rightarrow> mrns l | _ \<Rightarrow> {})"

definition knows :: "Db \<Rightarrow> string \<Rightarrow> string \<Rightarrow> bool" where
  "knows db m c \<longleftrightarrow> (\<exists>w. pol db c = Some w \<and> m \<in> mrns (wp_parents w))"

definition hub :: "(string \<Rightarrow> nat) \<Rightarrow> nat \<Rightarrow> string set \<Rightarrow> string set \<Rightarrow> string set \<Rightarrow> Db \<Rightarrow> bool" where
  "hub R k D L X db \<longleftrightarrow> typed db \<and> {m. pol db m \<noteq> None} = D \<and> listed_policies db = L
     \<and> (\<forall>m w. pol db m = Some w \<longrightarrow> po_Mrn (wp_Policy w) = m \<and> R m < k \<and> (\<forall>p \<in> mrns (wp_parents w). R m < R p)
          \<and> (m \<notin> X \<longrightarrow> (\<forall>c \<in> mrns (wp_children w). knows db m c)))"

lemma hubI:
  assumes "typed db" and "{m. pol db m \<noteq> None} = D" and "listed_policies db = L"
    and "\<And>m w. pol db m = Some w \<Longrightarrow> po_Mrn (wp_Policy w) = m \<and> R m < k \<and> (\<forall>p \<in> mrns (wp_parents w). R m < R p)
          \<and> (m \<notin> X \<longrightarrow> (\<forall>c \<in> mrns (wp_children w). knows db m c))"
  shows "hub R k D L X db"
  using assms unfolding hub_def by (intro conjI allI impI) blast+

definition put :: "string \<Rightarrow> cache_value \<Rightarrow> Db \<Rightarrow> Db" where
  "put key v db = db\<lparr>db_cache := map_put key v (db_cache db)\<rparr>"

lemma lk_set_put: "lk_set key v db = Inr (Inr (), put key v db)"
  by (simp add: lk_set_def kissDb_Set_def put_def)

lemma typed_put: "typed db \<Longrightarrow> right_key key v \<Longrightarrow> typed (put key v db)"
  by (simp add: typed_def put_def)

lemma typed_get: "typed db \<Longrightarrow> map_get (db_cache db) key = Some v \<Longrightarrow> right_key key v"
  by (simp add: typed_def)

text \<open>A policy is stored.\<close>

definition put_policy :: "string \<Rightarrow> wrapPolicy \<Rightarrow> Db \<Rightarrow> Db" where
  "put_policy m w = put (dbIDPolicy m) (CPolicy w)"

lemma lk_set_policy: "lk_set (dbIDPolicy m) (CPolicy w) db = Inr (Inr (), put_policy m w db)"
  unfolding lk_set_put put_policy_def ..

lemma pol_put: "pol (put_policy m w db) x = (if x = m then Some w else pol db x)"
  by (simp add: pol_def put_def put_policy_def)

lemma listed_put_policy: "listed_policies (put_policy m v db) = listed_policies db"
  by (simp add: listed_policies_def put_def put_policy_def)

lemma typed_put_policy: "typed db \<Longrightarrow> typed (put_policy m w db)"
  by (simp add: put_policy_def typed_put right_key_def)

text \<open>Keys that are neither those of policies nor that of the list.\<close>

definition foreign :: "string \<Rightarrow> bool" where
  "foreign key \<longleftrightarrow> key \<noteq> dbIDListPolicies \<and> (\<forall>m. key \<noteq> dbIDPolicy m)"

lemma foreign_keys [simp]:
  "foreign (dbIDQuery x)" "foreign (dbIDProp x)" "foreign (dbIDBundle x)" "foreign (dbIDRiskFactor x)" "foreign (dbIDFramework x)"
  "foreign (dbIDFrameworkMap x)"
  by (simp_all add: foreign_def)

lemma pol_foreign: "foreign key \<Longrightarrow> pol (put key v db) = pol db"
  by (auto simp: foreign_def pol_def put_def fun_eq_iff)

lemma listed_foreign: "foreign key \<Longrightarrow> listed_policies (put key v db) = listed_policies db"
  by (auto simp: foreign_def listed_policies_def put_def)

lemma hub_foreign: "hub R k D L X db \<Longrightarrow> foreign key \<Longrightarrow> right_key key v \<Longrightarrow> hub R k D L X (put key v db)"
  by (simp add: hub_def pol_foreign listed_foreign typed_put knows_def)

lemma hub_typed: "hub R k D L X db \<Longrightarrow> typed db"
  by (simp add: hub_def)

lemma find_policy_eq: "typed db \<Longrightarrow> find_policy m db = Inr (Inr (pol db m), db)"
  by (cases "map_get (db_cache db) (dbIDPolicy m)")
    (auto simp: find_policy_def lk_bind_Inr lk_get_def kissDb_Get_def lk_return_def pol_def right_key_def dest: typed_get split: cache_value.split)

lemma hub_put:
  assumes "hub R k D L X db" and "po_Mrn (wp_Policy w) = m" and "R m < k" and "\<And>p. p \<in> mrns (wp_parents w) \<Longrightarrow> R m < R p"
    and "\<And>w0 q. pol db m = Some w0 \<Longrightarrow> q \<in> mrns (wp_parents w0) \<Longrightarrow> q \<in> mrns (wp_parents w) \<or> q \<in> X"
    and "\<And>c. m \<notin> X \<Longrightarrow> c \<in> mrns (wp_children w) \<Longrightarrow> knows db m c"
  shows "hub R k (insert m D) L X (put_policy m w db)"
proof -
  let ?db = "put_policy m w db"
  have kn: "knows ?db q c" if "knows db q c" "q \<notin> X" for q c
  proof -
    obtain w' where "pol db c = Some w'" "q \<in> mrns (wp_parents w')" using \<open>knows db q c\<close> unfolding knows_def by blast
    then show ?thesis using assms(5) [of w' q] \<open>q \<notin> X\<close> by (cases "c = m") (simp_all add: knows_def pol_put)
  qed
  have "typed ?db" using assms(1) by (simp add: hub_typed typed_put_policy)
  moreover have "{m'. pol ?db m' \<noteq> None} = insert m D" using assms(1) by (auto simp: hub_def pol_put)
  moreover have "listed_policies ?db = L" using assms(1) by (simp add: hub_def listed_put_policy)
  moreover have "po_Mrn (wp_Policy w') = q \<and> R q < k \<and> (\<forall>p \<in> mrns (wp_parents w'). R q < R p)
      \<and> (q \<notin> X \<longrightarrow> (\<forall>c \<in> mrns (wp_children w'). knows ?db q c))" if "pol ?db q = Some w'" for q w'
  proof (cases "q = m")
    case True
    then show ?thesis using that assms(2-4,6) kn by (simp add: pol_put)
  next
    case False
    then have "pol db q = Some w'" using that by (simp add: pol_put)
    then show ?thesis using assms(1) kn unfolding hub_def by blast
  qed
  ultimately show ?thesis unfolding hub_def by blast
qed

subsection \<open>Invalidation\<close>

definition marks :: "Db \<Rightarrow> Db \<Rightarrow> bool" where
  "marks db db' \<longleftrightarrow> listed_policies db' = listed_policies db \<and> (\<forall>m. pol db' m = pol db m \<or> (\<exists>w. pol db m = Some w \<and> pol db' m = Some (w\<lparr>wp_invalidated := True\<rparr>)))"

definition par :: "Db \<Rightarrow> string \<Rightarrow> string set" where
  "par db m = (case pol db m of None \<Rightarrow> {} | Some w \<Rightarrow> mrns (wp_parents w))"

definition marked :: "Db \<Rightarrow> string \<Rightarrow> bool" where
  "marked db m \<longleftrightarrow> (\<exists>w. pol db m = Some w \<and> wp_invalidated w)"

lemma marks_refl [simp]: "marks db db"
  by (simp add: marks_def)

lemma marks_pol: "marks db db' \<Longrightarrow> pol db m = Some w \<Longrightarrow> pol db' m = Some w \<or> pol db' m = Some (w\<lparr>wp_invalidated := True\<rparr>)"
  unfolding marks_def by (metis option.inject)

lemma marks_pol_None: "marks db db' \<Longrightarrow> pol db m = None \<Longrightarrow> pol db' m = None"
  unfolding marks_def by (metis option.distinct(1))

lemma marks_trans: "marks db db' \<Longrightarrow> marks db' db'' \<Longrightarrow> marks db db''"
proof -
  assume m: "marks db db'" "marks db' db''"
  have "pol db'' x = pol db x \<or> (\<exists>w. pol db x = Some w \<and> pol db'' x = Some (w\<lparr>wp_invalidated := True\<rparr>))" for x
  proof (cases "pol db x")
    case None
    then show ?thesis using marks_pol_None [OF m(2) marks_pol_None [OF m(1)]] by simp
  next
    case (Some w)
    from marks_pol [OF m(1) this] show ?thesis
    proof
      assume "pol db' x = Some w"
      from marks_pol [OF m(2) this] show ?thesis using Some by auto
    next
      assume "pol db' x = Some (w\<lparr>wp_invalidated := True\<rparr>)"
      from marks_pol [OF m(2) this] show ?thesis using Some by auto
    qed
  qed
  then show ?thesis using m unfolding marks_def by simp
qed

lemma marks_par: "marks db db' \<Longrightarrow> par db' m = par db m"
  using marks_pol [of db db' m] marks_pol_None [of db db' m] by (cases "pol db m") (auto simp: par_def)

lemma marks_marked: "marks db db' \<Longrightarrow> marked db m \<Longrightarrow> marked db' m"
  unfolding marked_def using marks_pol by fastforce

lemma marks_knows: "marks db db' \<Longrightarrow> knows db m c \<Longrightarrow> knows db' m c"
  unfolding knows_def using marks_pol by fastforce

lemma marks_hub:
  assumes "hub R k D L X db" and "marks db db'" and "typed db'"
  shows "hub R k D L X db'"
proof -
  have "pol db' m = None \<longleftrightarrow> pol db m = None" for m
    using marks_pol [OF assms(2)] marks_pol_None [OF assms(2)] by (metis option.distinct(1) option.exhaust)
  moreover have "listed_policies db' = listed_policies db" using assms(2) by (simp add: marks_def)
  moreover have "po_Mrn (wp_Policy w') = m \<and> R m < k \<and> (\<forall>p \<in> mrns (wp_parents w'). R m < R p)
      \<and> (m \<notin> X \<longrightarrow> (\<forall>c \<in> mrns (wp_children w'). knows db' m c))" if w': "pol db' m = Some w'" for m w'
  proof -
    obtain w where w: "pol db m = Some w" "w' = w \<or> w' = w\<lparr>wp_invalidated := True\<rparr>"
      using w' assms(2) unfolding marks_def by (metis option.inject)
    then have "po_Mrn (wp_Policy w) = m \<and> R m < k \<and> (\<forall>p \<in> mrns (wp_parents w). R m < R p)
      \<and> (m \<notin> X \<longrightarrow> (\<forall>c \<in> mrns (wp_children w). knows db m c))" using assms(1) unfolding hub_def by blast
    then show ?thesis using w(2) marks_knows [OF assms(2)] by (elim disjE) simp_all
  qed
  ultimately show ?thesis using assms(1,3) unfolding hub_def by simp
qed

lemma invalidate_policy_marks:
  assumes "typed db" and "pol db (po_Mrn (wp_Policy w)) = Some w"
  shows "\<exists>db'. invalidate_policy w db = Inr (Inr (), db') \<and> typed db' \<and> marks db db' \<and> marked db' (po_Mrn (wp_Policy w))"
proof (cases "wp_invalidated w")
  case True
  then show ?thesis using assms by (auto simp: invalidate_policy_def lk_return_def marked_def)
next
  case False
  let ?w = "w\<lparr>wp_invalidated := True\<rparr>"
  let ?db = "put_policy (po_Mrn (wp_Policy w)) ?w db"
  have "invalidate_policy w db = Inr (Inr (), ?db)" using False unfolding invalidate_policy_def by (simp only: if_False lk_set_policy)
  moreover have "typed ?db" using assms(1) by (rule typed_put_policy)
  moreover have "marks db ?db" using assms(2) by (simp add: marks_def listed_put_policy pol_put)
  moreover have "marked ?db (po_Mrn (wp_Policy w))" by (simp add: marked_def pol_put)
  ultimately show ?thesis by blast
qed

lemma invalidate_bundle_marks:
  assumes "typed db"
  shows "\<exists>db'. invalidate_bundle m db = Inr (Inr (), db') \<and> typed db' \<and> marks db db'"
proof (cases "map_get (db_cache db) (dbIDBundle m)")
  case None
  then show ?thesis using assms by (simp add: invalidate_bundle_def lk_bind_Inr lk_get_def kissDb_Get_def lk_return_def)
next
  case (Some v)
  then obtain b where v: "v = CBundle b" using typed_get [OF assms Some] by (cases v) (simp_all add: right_key_def)
  let ?db = "put (dbIDBundle m) (CBundle (b\<lparr>wb_invalidated := True\<rparr>)) db"
  have "typed ?db" using assms by (rule typed_put) (simp add: right_key_def)
  moreover have "marks db ?db" unfolding marks_def using pol_foreign [OF foreign_keys(3)] listed_foreign [OF foreign_keys(3)] by simp
  moreover have "invalidate_bundle m db = Inr (Inr (), if wb_invalidated b then db else ?db)"
    using Some v by (simp add: invalidate_bundle_def lk_bind_Inr lk_get_def kissDb_Get_def lk_return_def lk_set_put)
  ultimately show ?thesis using assms by (cases "wb_invalidated b") auto
qed


text \<open>The ancestors of a policy, itself included.\<close>

definition ancestors :: "Db \<Rightarrow> string \<Rightarrow> string set" where
  "ancestors db m = {q. (m, q) \<in> {(a, b). b \<in> par db a}\<^sup>*}"

lemma ancestors_cases: "q \<in> ancestors db m \<Longrightarrow> q = m \<or> (\<exists>p \<in> par db m. q \<in> ancestors db p)"
  unfolding ancestors_def mem_Collect_eq by (erule converse_rtranclE) auto

lemma marks_ancestors: "marks db db' \<Longrightarrow> ancestors db' m = ancestors db m"
  by (simp add: ancestors_def marks_par)

text \<open>The loop over the parents, if each of them is invalidated with its ancestors.\<close>

lemma invalidate_parents:
  assumes each: "\<And>p w db. hub R k D L X db \<Longrightarrow> p \<in> set ps \<Longrightarrow> pol db p = Some w
      \<Longrightarrow> \<exists>r db'. f w db = Inr (r, db') \<and> typed db' \<and> marks db db' \<and> (\<forall>u. r = Inr u \<longrightarrow> (\<forall>q \<in> ancestors db p. marked db' q))"
    and "hub R k D L X db"
  shows "\<exists>r db'. lk_fold (\<lambda>_ p. lk_bind (find_policy p) (\<lambda>x. case x of None \<Rightarrow> lk_fail e | Some w \<Rightarrow> f w)) u ps db = Inr (r, db')
    \<and> typed db' \<and> marks db db' \<and> (\<forall>u. r = Inr u \<longrightarrow> (\<forall>p \<in> set ps. \<forall>q \<in> ancestors db p. marked db' q))"
  using assms
proof (induction ps arbitrary: u db)
  case Nil
  then show ?case by (simp add: lk_return_def hub_typed)
next
  case (Cons p ps)
  have t: "typed db" using Cons.prems(2) by (rule hub_typed)
  show ?case
  proof (cases "pol db p")
    case None
    then show ?thesis using t by (simp add: lk_bind_Inr find_policy_eq lk_fail_def)
  next
    case (Some w)
    obtain r1 db1 where 1: "f w db = Inr (r1, db1)" "typed db1" "marks db db1" "\<And>u. r1 = Inr u \<Longrightarrow> \<forall>q \<in> ancestors db p. marked db1 q"
      using Cons.prems(1) [OF Cons.prems(2) _ Some] by auto
    show ?thesis
    proof (cases r1)
      case (Inl e1)
      then show ?thesis using Some 1 t by (simp add: lk_bind_Inr find_policy_eq)
    next
      case (Inr u1)
      have "\<exists>r db'. f w' db0 = Inr (r, db') \<and> typed db' \<and> marks db0 db' \<and> (\<forall>u. r = Inr u \<longrightarrow> (\<forall>q \<in> ancestors db0 p'. marked db' q))"
        if "hub R k D L X db0" "p' \<in> set ps" "pol db0 p' = Some w'" for p' w' db0
        by (rule Cons.prems(1) [OF that(1) _ that(3)]) (simp add: that(2))
      note rest = Cons.IH [OF this marks_hub [OF Cons.prems(2) 1(3,2)], of u1]
      obtain r db' where 2: "lk_fold (\<lambda>_ p. lk_bind (find_policy p) (\<lambda>x. case x of None \<Rightarrow> lk_fail e | Some w \<Rightarrow> f w)) u1 ps db1 = Inr (r, db')"
        "typed db'" "marks db1 db'" "\<And>u. r = Inr u \<Longrightarrow> \<forall>p \<in> set ps. \<forall>q \<in> ancestors db1 p. marked db' q"
        using rest by blast
      have "lk_fold (\<lambda>_ p. lk_bind (find_policy p) (\<lambda>x. case x of None \<Rightarrow> lk_fail e | Some w \<Rightarrow> f w)) u (p # ps) db = Inr (r, db')"
        using Some 1(1) Inr 2(1) t by (simp add: lk_bind_Inr find_policy_eq)
      moreover have "marked db' q" if "r = Inr u2" "p' \<in> set (p # ps)" "q \<in> ancestors db p'" for u2 p' q
      proof (cases "p' = p")
        case True
        then have "marked db1 q" using 1(4) [OF Inr] that(3) by blast
        then show ?thesis by (rule marks_marked [OF 2(3)])
      next
        case False
        then show ?thesis using 2(4) [OF that(1)] that(2,3) marks_ancestors [OF 1(3)] by auto
      qed
      ultimately show ?thesis using 2(2) marks_trans [OF 1(3) 2(3)] by blast
    qed
  qed
qed

lemma invalidate_ancestors:
  assumes "hub R k D L X db" and "pol db m = Some w" and "k \<le> n + R m"
  shows "\<exists>r db'. invalidatePolicyAndBundleAncestors n w db = Inr (r, db') \<and> typed db' \<and> marks db db'
    \<and> (\<forall>u. r = Inr u \<longrightarrow> (\<forall>q \<in> ancestors db m. marked db' q))"
  using assms
proof (induction n arbitrary: m w db)
  case 0
  then have "R m < k" unfolding hub_def by blast
  with 0(3) show ?case by simp
next
  case (Suc n)
  have w: "po_Mrn (wp_Policy w) = m" "\<And>p. p \<in> mrns (wp_parents w) \<Longrightarrow> R m < R p"
    using Suc.prems(1,2) unfolding hub_def by blast+
  obtain db1 where 1: "invalidate_policy w db = Inr (Inr (), db1)" "typed db1" "marks db db1" "marked db1 m"
    using invalidate_policy_marks [OF hub_typed [OF Suc.prems(1)], of w] Suc.prems(2) w(1) by auto
  obtain db2 where 2: "invalidate_bundle m db1 = Inr (Inr (), db2)" "typed db2" "marks db1 db2"
    using invalidate_bundle_marks [OF 1(2)] by blast
  have m2: "marks db db2" by (rule marks_trans [OF 1(3) 2(3)])
  have hub2: "hub R k D L X db2" by (rule marks_hub [OF Suc.prems(1) m2 2(2)])
  have ps: "set (map fst (wp_parents w)) = par db m" using Suc.prems(2) by (simp add: par_def mrns_def)
  have each: "\<exists>r db'. invalidatePolicyAndBundleAncestors n w' db0 = Inr (r, db') \<and> typed db' \<and> marks db0 db'
      \<and> (\<forall>u. r = Inr u \<longrightarrow> (\<forall>q \<in> ancestors db0 p. marked db' q))"
    if "hub R k D L X db0" "p \<in> set (map fst (wp_parents w))" "pol db0 p = Some w'" for p w' db0
  proof (rule Suc.IH [OF that(1,3)])
    have "R m < R p" using w(2) that(2) by (simp add: mrns_def)
    then show "k \<le> n + R p" using Suc.prems(3) by simp
  qed
  obtain r db' where 3: "lk_fold (\<lambda>_ p. lk_bind (find_policy p) (\<lambda>x. case x of None \<Rightarrow> lk_fail (NoPolicy m)
        | Some p \<Rightarrow> invalidatePolicyAndBundleAncestors n p)) () (map fst (wp_parents w)) db2 = Inr (r, db')"
    "typed db'" "marks db2 db'" "\<And>u. r = Inr u \<Longrightarrow> \<forall>p \<in> par db m. \<forall>q \<in> ancestors db2 p. marked db' q"
    using invalidate_parents [of R k D L X "map fst (wp_parents w)" "invalidatePolicyAndBundleAncestors n", OF each hub2, of "NoPolicy m" "()"]
    unfolding ps by blast
  have "invalidatePolicyAndBundleAncestors (Suc n) w db = Inr (r, db')"
    using 1(1) 2(1) 3(1) by (simp add: lk_bind_Inr Let_def w(1))
  moreover have "marked db' q" if "r = Inr u" "q \<in> ancestors db m" for u q
    using ancestors_cases [OF that(2)]
  proof
    assume "q = m"
    then show ?thesis using marks_marked [OF marks_trans [OF 2(3) 3(3)] 1(4)] by simp
  next
    assume "\<exists>p \<in> par db m. q \<in> ancestors db p"
    then show ?thesis using 3(4) [OF that(1)] marks_ancestors [OF m2] by auto
  qed
  ultimately show ?case using 3(2) marks_trans [OF m2 3(3)] by blast
qed


text \<open>No bundle of the policy has its checksum.\<close>

definition bundle_fresh :: "Db \<Rightarrow> string \<Rightarrow> string \<Rightarrow> bool" where
  "bundle_fresh db m csum \<longleftrightarrow> (case map_get (db_cache db) (dbIDBundle m) of Some (CBundle b) \<Rightarrow> wb_policyChecksum b = csum | _ \<Rightarrow> False)"

lemma check_and_invalidate:
  assumes "hub R k D L X db" and "pol db m = Some w" and "k \<le> n"
  shows "\<exists>r db'. checkAndInvalidatePolicyBundle n m (Some w) None db = Inr (r, db') \<and> typed db' \<and> marks db db'
    \<and> (\<forall>u. r = Inr u \<and> \<not> bundle_fresh db m (lp_GraphContentChecksum (wp_Policy w)) \<longrightarrow> (\<forall>q \<in> ancestors db m. marked db' q))"
proof -
  have t: "typed db" using assms(1) by (rule hub_typed)
  let ?fresh = "bundle_fresh db m (lp_GraphContentChecksum (wp_Policy w))"
  obtain r db' where i: "invalidatePolicyAndBundleAncestors n w db = Inr (r, db')" "typed db'" "marks db db'"
    "\<And>u. r = Inr u \<Longrightarrow> \<forall>q \<in> ancestors db m. marked db' q"
    using invalidate_ancestors [OF assms(1,2), of n] assms(3) by auto
  have "checkAndInvalidatePolicyBundle n m (Some w) None db = (if ?fresh then Inr (Inr (), db) else Inr (r, db'))"
  proof (cases "map_get (db_cache db) (dbIDBundle m)")
    case None
    then show ?thesis using i(1)
      by (cases r) (simp_all add: checkAndInvalidatePolicyBundle_def bundle_fresh_def lk_bind_Inr lk_get_def kissDb_Get_def lk_return_def Let_def)
  next
    case (Some v)
    then obtain b where "v = CBundle b" using typed_get [OF t Some] by (cases v) (simp_all add: right_key_def)
    then show ?thesis using Some i(1)
      by (cases r) (simp_all add: checkAndInvalidatePolicyBundle_def bundle_fresh_def lk_bind_Inr lk_get_def kissDb_Get_def lk_return_def Let_def)
  qed
  then show ?thesis using i t by (cases ?fresh) auto
qed

subsection \<open>Storing\<close>

lemma set_queries:
  assumes "hub R k D L X db"
  shows "\<exists>db'. lk_fold (\<lambda>_ f. SetQuery (mq_Mrn f) f) u fs db = Inr (Inr (), db') \<and> hub R k D L X db' \<and> pol db' = pol db
    \<and> (\<forall>m csum. bundle_fresh db' m csum = bundle_fresh db m csum)"
  using assms
proof (induction fs arbitrary: u db)
  case Nil
  then show ?case by (simp add: lk_return_def)
next
  case (Cons f fs)
  let ?db = "put (dbIDQuery (mq_Mrn f)) (CQuery f) db"
  have set: "SetQuery (mq_Mrn f) f db = Inr (Inr (), ?db)" unfolding SetQuery_def by (rule lk_set_put)
  have "hub R k D L X ?db" by (rule hub_foreign [OF Cons.prems foreign_keys(1)]) (simp add: right_key_def)
  from Cons.IH [OF this, of "()"] obtain db' where db': "lk_fold (\<lambda>_ f. SetQuery (mq_Mrn f) f) () fs ?db = Inr (Inr (), db')"
    "hub R k D L X db'" "pol db' = pol ?db" "\<forall>m csum. bundle_fresh db' m csum = bundle_fresh ?db m csum" by blast
  have "pol ?db = pol db" by (rule pol_foreign [OF foreign_keys(1)])
  moreover have "bundle_fresh ?db m csum = bundle_fresh db m csum" for m csum by (simp add: bundle_fresh_def put_def)
  ultimately show ?case using db' by (simp add: lk_bind_Inr set)
qed

lemma bundle_fresh_put_policy [simp]: "bundle_fresh (put_policy m w db) = bundle_fresh db"
  by (simp add: fun_eq_iff bundle_fresh_def put_policy_def put_def)

lemma add_parents:
  assumes "hub R k D L X db" and "\<And>c. c \<in> set cs \<Longrightarrow> R c < R m"
  shows "\<exists>r db'. lk_fold (\<lambda>_. add_parent m) u cs db = Inr (r, db') \<and> hub R k D L X db' \<and> bundle_fresh db' = bundle_fresh db
    \<and> (\<forall>c. knows db m c \<longrightarrow> knows db' m c) \<and> (\<forall>u. r = Inr u \<longrightarrow> (\<forall>c \<in> set cs. knows db' m c))"
  using assms
proof (induction cs arbitrary: u db)
  case Nil
  then show ?case by (simp add: lk_return_def)
next
  case (Cons c cs)
  have t: "typed db" using Cons.prems(1) by (rule hub_typed)
  show ?case
  proof (cases "pol db c")
    case None
    then show ?thesis using Cons.prems(1) t by (simp add: lk_bind_Inr add_parent_def find_policy_eq lk_fail_def)
  next
    case (Some w)
    let ?w = "w\<lparr>wp_parents := map_put m () (wp_parents w)\<rparr>" and ?db = "put_policy c (w\<lparr>wp_parents := map_put m () (wp_parents w)\<rparr>) db"
    have set: "add_parent m c db = Inr (Inr (), ?db)" using Some t
      by (simp only: add_parent_def lk_bind_Inr find_policy_eq prod.case sum.case option.case lk_set_policy)
    have w: "po_Mrn (wp_Policy w) = c" "R c < k" "\<And>p. p \<in> mrns (wp_parents w) \<Longrightarrow> R c < R p"
      "\<And>c'. c \<notin> X \<Longrightarrow> c' \<in> mrns (wp_children w) \<Longrightarrow> knows db c c'" "c \<in> D"
      using Cons.prems(1) Some unfolding hub_def by blast+
    have "hub R k (insert c D) L X ?db"
      by (rule hub_put [OF Cons.prems(1)]) (use w Some Cons.prems(2) in auto)
    then have h: "hub R k D L X ?db" using w(5) by (simp add: insert_absorb)
    have kn: "knows db m c' \<Longrightarrow> knows ?db m c'" "knows ?db m c" for c'
      by (simp_all add: knows_def pol_put)
    obtain r db' where r: "lk_fold (\<lambda>_. add_parent m) () cs ?db = Inr (r, db')" "hub R k D L X db'" "bundle_fresh db' = bundle_fresh ?db"
      "\<And>c. knows ?db m c \<Longrightarrow> knows db' m c" "\<And>u. r = Inr u \<Longrightarrow> \<forall>c \<in> set cs. knows db' m c"
      using Cons.IH [OF h, of "()"] Cons.prems(2) by auto
    have "lk_fold (\<lambda>_. add_parent m) u (c # cs) db = Inr (r, db')" using set r(1) by (simp add: lk_bind_Inr)
    then show ?thesis using r kn by auto
  qed
qed

lemma listPolicies_eq:
  assumes "hub R k D L X db"
  shows "\<exists>l db'. listPolicies db = Inr (Inr l, db') \<and> mrns l = L \<and> hub R k D L X db' \<and> pol db' = pol db \<and> bundle_fresh db' = bundle_fresh db"
proof (cases "map_get (db_cache db) dbIDListPolicies")
  case None
  let ?db = "put dbIDListPolicies (CPolicyList []) db"
  have eq: "listPolicies db = Inr (Inr [], ?db)"
    using None by (simp add: listPolicies_def lk_bind_Inr lk_get_def kissDb_Get_def lk_return_def lk_set_put)
  have p: "pol ?db = pol db" "bundle_fresh ?db = bundle_fresh db"
    by (simp_all add: pol_def put_def fun_eq_iff bundle_fresh_def)
  have l: "listed_policies ?db = listed_policies db" "listed_policies db = {}" using None by (simp_all add: listed_policies_def put_def)
  have "typed ?db" using assms by (simp add: hub_typed typed_put right_key_def)
  then have "hub R k D L X ?db" using assms p(1) l(1) by (simp add: hub_def knows_def)
  moreover have "L = {}" using assms l(2) by (simp add: hub_def)
  ultimately show ?thesis using eq p by auto
next
  case (Some v)
  then obtain l where v: "v = CPolicyList l" using typed_get [OF hub_typed [OF assms] Some] by (cases v) (simp_all add: right_key_def)
  then have "listed_policies db = mrns l" using Some by (simp add: listed_policies_def)
  then have "mrns l = L" using assms by (simp add: hub_def)
  moreover have "listPolicies db = Inr (Inr l, db)"
    using Some v by (simp add: listPolicies_def lk_bind_Inr lk_get_def kissDb_Get_def lk_return_def)
  ultimately show ?thesis using assms by blast
qed

lemma set_list:
  assumes "hub R k D L X db"
  shows "hub R k D (mrns l) X (put dbIDListPolicies (CPolicyList l) db)" and "pol (put dbIDListPolicies (CPolicyList l) db) = pol db"
    and "bundle_fresh (put dbIDListPolicies (CPolicyList l) db) = bundle_fresh db"
proof -
  let ?db = "put dbIDListPolicies (CPolicyList l) db"
  show p: "pol ?db = pol db" and "bundle_fresh ?db = bundle_fresh db"
    by (simp_all add: pol_def put_def fun_eq_iff bundle_fresh_def)
  have "typed ?db" using assms by (simp add: hub_typed typed_put right_key_def)
  moreover have "listed_policies ?db = mrns l" by (simp add: listed_policies_def put_def)
  ultimately show "hub R k D (mrns l) X ?db" using assms p by (simp add: hub_def knows_def)
qed


definition depends_below :: "(string \<Rightarrow> nat) \<Rightarrow> nat \<Rightarrow> LakePolicy \<Rightarrow> bool" where
  "depends_below R k p \<longleftrightarrow> R (po_Mrn p) < k \<and> (\<forall>c \<in> mrns (DependentPolicyMrns p). R c < R (po_Mrn p))"

definition with_filters :: "LakePolicy \<Rightarrow> Mquery list \<Rightarrow> LakePolicy" where
  "with_filters p fs = p\<lparr>po_ComputedFilters := Some (computed_filters fs)\<rparr>"

lemma with_filters_simps [simp]:
  "po_Mrn (with_filters p fs) = po_Mrn p" "DependentPolicyMrns (with_filters p fs) = DependentPolicyMrns p"
  "lp_GraphContentChecksum (with_filters p fs) = lp_GraphContentChecksum p"
  by (simp_all add: with_filters_def DependentPolicyMrns_def)

text \<open>A policy is stored as it was given, with the children it depends on, and what has to be invalidated is.\<close>

definition stored_as :: "Db \<Rightarrow> LakePolicy \<Rightarrow> Mquery list \<Rightarrow> bool" where
  "stored_as db p fs \<longleftrightarrow> (\<exists>w. pol db (po_Mrn p) = Some w \<and> wp_Policy w = with_filters p fs \<and> wp_children w = DependentPolicyMrns p)"

lemma store_policy_hub:
  assumes "hub R k D D {} db" and "depends_below R k p" and "k \<le> n" and "there \<longleftrightarrow> po_Mrn p \<in> D"
  shows "\<exists>r db' D'. store_policy n there p fs db = Inr (r, db') \<and> hub R k D' D' {} db'
    \<and> (\<forall>u. r = Inr u \<longrightarrow> stored_as db' p fs
        \<and> (\<not> bundle_fresh db (po_Mrn p) (lp_GraphContentChecksum p) \<longrightarrow> (\<forall>q \<in> ancestors db' (po_Mrn p). marked db' q)))"
proof -
  let ?m = "po_Mrn p" and ?cs = "DependentPolicyMrns p"
  obtain db1 where 1: "lk_fold (\<lambda>_ f. SetQuery (mq_Mrn f) f) () fs db = Inr (Inr (), db1)" "hub R k D D {} db1"
    "bundle_fresh db1 = bundle_fresh db"
    using set_queries [OF assms(1), of "()" fs] by (auto simp: fun_eq_iff)
  have below: "R c < R ?m" if "c \<in> set (map fst ?cs)" for c
    using assms(2) that unfolding depends_below_def mrns_def set_map by blast
  obtain r2 db2 where 2: "lk_fold (\<lambda>_. add_parent ?m) () (map fst ?cs) db1 = Inr (r2, db2)" "hub R k D D {} db2"
    "bundle_fresh db2 = bundle_fresh db1" "\<And>u. r2 = Inr u \<Longrightarrow> \<forall>c \<in> set (map fst ?cs). knows db2 ?m c"
    using add_parents [OF 1(2) below, where u = "()"] by blast
  note unfolded = store_policy_def Let_def with_filters_def [symmetric] with_filters_simps
  show ?thesis
  proof (cases r2)
    case (Inl e)
    then have "store_policy n there p fs db = Inr (Inl e, db2)" unfolding unfolded by (simp add: lk_bind_Inr 1(1) 2(1))
    then show ?thesis using 2(2) by blast
  next
    case (Inr u2)
    have t2: "typed db2" using 2(2) by (rule hub_typed)
    obtain ps where ps: "shared_parents there ?m db2 = Inr (Inr ps, db2)" "\<And>q. q \<in> mrns ps \<Longrightarrow> R ?m < R q"
      "\<And>w0. pol db2 ?m = Some w0 \<Longrightarrow> ps = wp_parents w0"
    proof (cases "pol db2 ?m")
      case None
      then have "shared_parents there ?m db2 = Inr (Inr [], db2)" using t2
        by (simp add: shared_parents_def lk_bind_Inr find_policy_eq lk_return_def)
      then show ?thesis by (rule that) (simp_all add: None)
    next
      case (Some w)
      have "?m \<in> D" using 2(2) Some unfolding hub_def by blast
      then have there using assms(4) by simp
      then have "shared_parents there ?m db2 = Inr (Inr (wp_parents w), db2)" using t2 Some
        by (simp add: shared_parents_def lk_bind_Inr find_policy_eq lk_return_def)
      moreover have "\<forall>q \<in> mrns (wp_parents w). R ?m < R q" using 2(2) Some unfolding hub_def by blast
      ultimately show ?thesis by (intro that [of "wp_parents w"]) (simp_all add: Some)
    qed
    let ?obj = "\<lparr>wp_Policy = with_filters p fs, wp_invalidated = False, wp_parents = ps, wp_children = ?cs\<rparr>"
    let ?db3 = "put_policy ?m ?obj db2"
    have h3: "hub R k (insert ?m D) D {} ?db3"
    proof (rule hub_put [OF 2(2)])
      show "R ?m < k" using assms(2) by (simp add: depends_below_def)
      show "knows db2 ?m c" if "c \<in> mrns (wp_children ?obj)" for c
        using 2(4) [OF Inr] that unfolding mrns_def set_map by simp blast
      show "R ?m < R q" if "q \<in> mrns (wp_parents ?obj)" for q using ps(2) that by simp
      show "q \<in> mrns (wp_parents ?obj) \<or> q \<in> {}" if "pol db2 ?m = Some w0" "q \<in> mrns (wp_parents w0)" for w0 q
        using ps(3) [OF that(1)] that(2) by simp
    qed simp
    obtain l db4 where 4: "listPolicies ?db3 = Inr (Inr l, db4)" "mrns l = D" "hub R k (insert ?m D) D {} db4" "pol db4 = pol ?db3"
      "bundle_fresh db4 = bundle_fresh ?db3" using listPolicies_eq [OF h3] by blast
    let ?db5 = "put dbIDListPolicies (CPolicyList (map_put ?m () l)) db4"
    have h5: "hub R k (insert ?m D) (insert ?m D) {} ?db5" using set_list(1) [OF 4(3), of "map_put ?m () l"] 4(2) by simp
    have p5: "pol ?db5 = pol ?db3" "bundle_fresh ?db5 = bundle_fresh db"
      using set_list(2,3) [OF 4(3)] 4(4,5) 2(3) 1(3) by simp_all
    then have obj: "pol ?db5 ?m = Some ?obj" by (simp add: pol_put)
    obtain r db' where 6: "checkAndInvalidatePolicyBundle n ?m (Some ?obj) None ?db5 = Inr (r, db')" "typed db'" "marks ?db5 db'"
      "\<And>u. r = Inr u \<Longrightarrow> \<not> bundle_fresh db ?m (lp_GraphContentChecksum p) \<Longrightarrow> \<forall>q \<in> ancestors ?db5 ?m. marked db' q"
      using check_and_invalidate [OF h5 obj assms(3)] p5(2) by auto
    have "store_policy n there p fs db = Inr (r, db')"
      unfolding unfolded by (simp only: lk_bind_Inr 1(1) 2(1) Inr ps(1) lk_set_put put_policy_def [symmetric] 4(1) 6(1) prod.case sum.case)
    moreover have "hub R k (insert ?m D) (insert ?m D) {} db'" by (rule marks_hub [OF h5 6(3,2)])
    moreover have "stored_as db' p fs" unfolding stored_as_def using marks_pol [OF 6(3) obj] by auto
    ultimately show ?thesis using 6(4) marks_ancestors [OF 6(3)] by auto
  qed
qed

lemma setPolicy_hub:
  assumes "hub R k D D {} db" and "depends_below R k p" and "k \<le> n"
  shows "\<exists>r db' D'. setPolicy n p fs db = Inr (r, db') \<and> hub R k D' D' {} db'
    \<and> (\<forall>u. r = Inr u \<longrightarrow> (\<forall>w. pol db (po_Mrn p) = Some w \<longrightarrow> lp_LocalContentChecksum (wp_Policy w) \<noteq> lp_LocalContentChecksum p
          \<or> lp_LocalExecutionChecksum (wp_Policy w) \<noteq> lp_LocalExecutionChecksum p) \<longrightarrow> stored_as db' p fs
        \<and> (\<not> bundle_fresh db (po_Mrn p) (lp_GraphContentChecksum p) \<longrightarrow> (\<forall>q \<in> ancestors db' (po_Mrn p). marked db' q)))"
proof -
  let ?m = "po_Mrn p"
  have t: "typed db" using assms(1) by (rule hub_typed)
  have there: "pol db ?m \<noteq> None \<longleftrightarrow> ?m \<in> D" using assms(1) unfolding hub_def by blast
  show ?thesis
  proof (cases "pol db ?m")
    case None
    then have "False \<longleftrightarrow> ?m \<in> D" using there by simp
    moreover have "setPolicy n p fs db = store_policy n False p fs db" using None t by (simp add: setPolicy_def lk_bind_Inr find_policy_eq)
    ultimately show ?thesis using store_policy_hub [OF assms, of False fs] by fastforce
  next
    case (Some w)
    let ?same = "lp_LocalContentChecksum (wp_Policy w) = lp_LocalContentChecksum p \<and> lp_LocalExecutionChecksum (wp_Policy w) = lp_LocalExecutionChecksum p"
    show ?thesis
    proof (cases ?same)
      case False
      have "True \<longleftrightarrow> ?m \<in> D" using there Some by simp
      moreover have "setPolicy n p fs db = store_policy n True p fs db" using Some t False by (auto simp: setPolicy_def lk_bind_Inr find_policy_eq)
      ultimately show ?thesis using store_policy_hub [OF assms, of True fs] by fastforce
    next
      case True
      have "po_Mrn (wp_Policy w) = ?m" using assms(1) Some unfolding hub_def by blast
      moreover obtain r db' where c: "checkAndInvalidatePolicyBundle n ?m (Some w) None db = Inr (r, db')" "typed db'" "marks db db'"
        using check_and_invalidate [OF assms(1) Some assms(3)] by blast
      ultimately have "\<exists>r db'. setPolicy n p fs db = Inr (r, db') \<and> typed db' \<and> marks db db'"
        using True Some t by (cases "lp_GraphContentChecksum (wp_Policy w) \<noteq> lp_GraphContentChecksum p
          \<or> po_GraphExecutionChecksum (wp_Policy w) \<noteq> po_GraphExecutionChecksum p")
          (auto simp: setPolicy_def lk_bind_Inr find_policy_eq lk_return_def)
      then obtain r db' where r: "setPolicy n p fs db = Inr (r, db')" "hub R k D D {} db'" using marks_hub [OF assms(1)] by blast
      then show ?thesis using True Some by auto
    qed
  qed
qed


subsection \<open>Deleting\<close>

lemma drop_parents:
  assumes "hub R k D L {m} db" and "pol db m = Some w" and "wp_parents w = []"
  shows "\<exists>db'. lk_fold (\<lambda>_. drop_parent m) u cs db = Inr (Inr (), db') \<and> hub R k D L {m} db' \<and> (\<exists>w. pol db' m = Some w \<and> wp_parents w = [])
    \<and> (\<forall>q. q \<noteq> m \<longrightarrow> map_option wp_Policy (pol db' q) = map_option wp_Policy (pol db q))"
  using assms
proof (induction cs arbitrary: u db w)
  case Nil
  then show ?case by (simp add: lk_return_def)
next
  case (Cons c cs)
  have t: "typed db" using Cons.prems(1) by (rule hub_typed)
  show ?case
  proof (cases "pol db c")
    case None
    then have "drop_parent m c db = Inr (Inr (), db)" using t by (simp add: drop_parent_def lk_bind_Inr find_policy_eq lk_return_def)
    then show ?thesis using Cons.IH [OF Cons.prems, of "()"] by (simp add: lk_bind_Inr)
  next
    case (Some wc)
    let ?w = "wc\<lparr>wp_parents := map_del m (wp_parents wc)\<rparr>"
    let ?db = "put_policy c ?w db"
    have set: "drop_parent m c db = Inr (Inr (), ?db)" using Some t
      by (simp only: drop_parent_def lk_bind_Inr find_policy_eq prod.case sum.case option.case lk_set_policy)
    have w: "po_Mrn (wp_Policy wc) = c" "R c < k" "\<And>p. p \<in> mrns (wp_parents wc) \<Longrightarrow> R c < R p"
      "\<And>c'. c \<notin> {m} \<Longrightarrow> c' \<in> mrns (wp_children wc) \<Longrightarrow> knows db c c'" "c \<in> D"
      using Cons.prems(1) Some unfolding hub_def by blast+
    have "hub R k (insert c D) L {m} ?db"
      by (rule hub_put [OF Cons.prems(1)]) (use w Some in auto)
    then have h: "hub R k D L {m} ?db" using w(5) by (simp add: insert_absorb)
    obtain w2 where "pol ?db m = Some w2" "wp_parents w2 = []"
      using Cons.prems(2,3) Some by (cases "c = m") (auto simp: pol_put)
    from Cons.IH [OF h this, of "()"] obtain db' where db': "lk_fold (\<lambda>_. drop_parent m) () cs ?db = Inr (Inr (), db')" "hub R k D L {m} db'"
      "\<exists>w. pol db' m = Some w \<and> wp_parents w = []" "\<forall>q. q \<noteq> m \<longrightarrow> map_option wp_Policy (pol db' q) = map_option wp_Policy (pol ?db q)"
      by blast
    have "map_option wp_Policy (pol ?db q) = map_option wp_Policy (pol db q)" for q using Some by (simp add: pol_put)
    moreover have "lk_fold (\<lambda>_. drop_parent m) u (c # cs) db = Inr (Inr (), db')" using set db'(1) by (simp add: lk_bind_Inr)
    ultimately show ?thesis using db'(2-4) by auto
  qed
qed

lemma delete_hub:
  assumes "hub R k D D {} db"
  shows "\<exists>r db' D'. DeletePolicy m db = Inr (r, db') \<and> hub R k D' D' {} db'
    \<and> (if par db m = {} then r = Inr () \<and> D' = D - {m} \<and> (\<forall>q. q \<noteq> m \<longrightarrow> map_option wp_Policy (pol db' q) = map_option wp_Policy (pol db q))
       else r = Inl (HasParents m (case pol db m of None \<Rightarrow> 0 | Some w \<Rightarrow> length (wp_parents w))) \<and> db' = db)"
proof -
  have t: "typed db" using assms by (rule hub_typed)
  show ?thesis
  proof (cases "pol db m")
    case None
    then have "m \<notin> D" using assms unfolding hub_def by blast
    moreover have "DeletePolicy m db = Inr (Inr (), db)" using None t by (simp add: DeletePolicy_def lk_bind_Inr find_policy_eq lk_return_def)
    ultimately show ?thesis using None assms by (auto simp: par_def)
  next
    case (Some w)
    show ?thesis
    proof (cases "wp_parents w = []")
      case False
      then have "par db m \<noteq> {}" using Some by (simp add: par_def mrns_def)
      moreover have "DeletePolicy m db = Inr (Inl (HasParents m (length (wp_parents w))), db)"
        using Some False t by (simp add: DeletePolicy_def lk_bind_Inr find_policy_eq lk_fail_def)
      ultimately show ?thesis using Some assms by auto
    next
      case True
      obtain l db1 where 1: "listPolicies db = Inr (Inr l, db1)" "mrns l = D" "hub R k D D {} db1" "pol db1 = pol db"
        using listPolicies_eq [OF assms] by blast
      let ?db2 = "put dbIDListPolicies (CPolicyList (map_del m l)) db1"
      have h2: "hub R k D (D - {m}) {} ?db2" using set_list(1) [OF 1(3), of "map_del m l"] 1(2) by simp
      have p2: "pol ?db2 = pol db" using set_list(2) [OF 1(3)] 1(4) by simp
      have h2m: "hub R k D (D - {m}) {m} ?db2" using h2 unfolding hub_def by blast
      obtain db3 where 3: "lk_fold (\<lambda>_. drop_parent m) () (map fst (wp_children w)) ?db2 = Inr (Inr (), db3)" "hub R k D (D - {m}) {m} db3"
        "\<exists>w. pol db3 m = Some w \<and> wp_parents w = []" "\<forall>q. q \<noteq> m \<longrightarrow> map_option wp_Policy (pol db3 q) = map_option wp_Policy (pol ?db2 q)"
        using drop_parents [OF h2m _ True, of "()" "map fst (wp_children w)"] Some p2 by auto
      let ?db4 = "db3\<lparr>db_cache := map_del (dbIDPolicy m) (db_cache db3)\<rparr>"
      have p4: "pol ?db4 q = (if q = m then None else pol db3 q)" for q by (simp add: pol_def delete_conv)
      have "typed ?db4" using hub_typed [OF 3(2)] by (simp add: typed_def delete_conv)
      moreover have "{q. pol ?db4 q \<noteq> None} = D - {m}" using 3(2) unfolding hub_def p4 by auto
      moreover have "listed_policies ?db4 = D - {m}" using 3(2) by (simp add: hub_def listed_policies_def delete_conv)
      moreover have "po_Mrn (wp_Policy w') = q \<and> R q < k \<and> (\<forall>p \<in> mrns (wp_parents w'). R q < R p)
          \<and> (q \<notin> {} \<longrightarrow> (\<forall>c \<in> mrns (wp_children w'). knows ?db4 q c))" if "pol ?db4 q = Some w'" for q w'
      proof -
        have q: "q \<noteq> m" "pol db3 q = Some w'" using that unfolding p4 by (simp_all split: if_splits)
        have "knows ?db4 q c" if "knows db3 q c" for c
          using that 3(3) unfolding knows_def p4 by (cases "c = m") auto
        moreover have "po_Mrn (wp_Policy w') = q \<and> R q < k \<and> (\<forall>p \<in> mrns (wp_parents w'). R q < R p)
          \<and> (\<forall>c \<in> mrns (wp_children w'). knows db3 q c)" using 3(2) q unfolding hub_def by blast
        ultimately show ?thesis by blast
      qed
      ultimately have "hub R k (D - {m}) (D - {m}) {} ?db4" by (rule hubI)
      moreover have "DeletePolicy m db = Inr (Inr (), ?db4)"
        using Some t True 1(1) 3(1) by (simp add: DeletePolicy_def lk_bind_Inr find_policy_eq lk_set_put lk_return_def lk_del_def kissDb_Del_def)
      moreover have "map_option wp_Policy (pol ?db4 q) = map_option wp_Policy (pol db q)" if "q \<noteq> m" for q
        using 3(4) that unfolding p4 p2 by simp
      moreover have "par db m = {}" using Some True by (simp add: par_def)
      ultimately show ?thesis by auto
    qed
  qed
qed


subsection \<open>Other operations\<close>

lemma hub_same_cache:
  assumes "hub R k D L X db" and "db_cache db' = db_cache db"
  shows "hub R k D L X db'"
proof -
  have "pol db' = pol db" "listed_policies db' = listed_policies db" "typed db' = typed db"
    using assms(2) by (simp_all add: pol_def listed_policies_def typed_def fun_eq_iff)
  then show ?thesis using assms(1) by (simp add: hub_def knows_def)
qed

lemma keep_risk_factors_hub:
  assumes "hub R k D L X db"
  shows "\<exists>db'. lk_fold (\<lambda>_. keep_risk_factor) u rfs db = Inr (Inr (), db') \<and> hub R k D L X db'"
  using assms
proof (induction rfs arbitrary: u db)
  case Nil
  then show ?case by (simp add: lk_return_def)
next
  case (Cons x rfs)
  obtain m rf where x: "x = (m, rf)" by (cases x)
  obtain r where r: "getRiskFactor m db = Inr (r, db)" using getRiskFactor_reads [OF hub_typed [OF Cons.prems]] by blast
  let ?db = "put (dbIDRiskFactor m) (CRiskFactor (rf\<lparr>rf_Mrn := m\<rparr>)) db"
  have "hub R k D L X ?db" by (rule hub_foreign [OF Cons.prems foreign_keys(4)]) (simp add: right_key_def)
  moreover have "keep_risk_factor x db = Inr (Inr (), case r of Inl _ \<Rightarrow> ?db | Inr _ \<Rightarrow> db)"
    using r by (cases r) (simp_all add: x keep_risk_factor_def lk_bind_Inr lk_try_def SetRiskFactor_def lk_set_put lk_return_def)
  ultimately obtain db1 where "keep_risk_factor x db = Inr (Inr (), db1)" "hub R k D L X db1" using Cons.prems by (cases r) auto
  then show ?case using Cons.IH [of db1 "()"] by (simp add: lk_bind_Inr)
qed

lemma store_resolved_cache: "\<exists>r db'. store_resolved E m rp db = Inr (r, db') \<and> db_cache db' = db_cache db"
  by (simp add: store_resolved_def Let_def case_prod_unfold)

lemma SetResolvedPolicy_hub:
  assumes "hub R k D D {} db"
  shows "\<exists>r db'. SetResolvedPolicy E m rp cached db = Inr (r, db') \<and> hub R k D D {} db'"
proof -
  obtain r1 db1 where 1: "store_resolved E m rp db = Inr (r1, db1)" "db_cache db1 = db_cache db"
    using store_resolved_cache by blast
  have h1: "hub R k D D {} db1" by (rule hub_same_cache [OF assms 1(2)])
  show ?thesis
  proof (cases r1)
    case (Inl e)
    then show ?thesis using 1(1) h1 by (simp add: SetResolvedPolicy_def lk_bind_Inr)
  next
    case (Inr u)
    obtain db2 where 2: "lk_fold (\<lambda>_. keep_risk_factor) () (cj_RiskFactors (rpo_CollectorJob rp)) db1 = Inr (Inr (), db2)" "hub R k D D {} db2"
      using keep_risk_factors_hub [OF h1] by blast
    note step = SetResolvedPolicy_def lk_bind_Inr 1(1) Inr 2(1)
    show ?thesis
    proof (cases cached)
      case False
      then show ?thesis using 2(2) by (simp add: step lk_return_def)
    next
      case True
      show ?thesis
      proof (cases "map_get (db_cache db2) (dbIDPolicy m)")
        case None
        then show ?thesis using True 2(2) by (simp add: step lk_get_def kissDb_Get_def lk_fail_def)
      next
        case (Some v)
        then obtain w where v: "v = CPolicy w" using typed_get [OF hub_typed [OF 2(2)] Some] by (cases v) (simp_all add: right_key_def)
        let ?w = "w\<lparr>wp_Policy := (wp_Policy w)\<lparr>po_GraphExecutionChecksum := rpo_GraphExecutionChecksum rp\<rparr>, wp_invalidated := False\<rparr>"
        have pol: "pol db2 m = Some w" using Some v by (simp add: pol_def)
        have w: "po_Mrn (wp_Policy w) = m" "R m < k" "\<And>p. p \<in> mrns (wp_parents w) \<Longrightarrow> R m < R p"
          "\<And>c. c \<in> mrns (wp_children w) \<Longrightarrow> knows db2 m c" "m \<in> D"
          using 2(2) pol unfolding hub_def by blast+
        have "hub R k (insert m D) D {} (put_policy m ?w db2)" by (rule hub_put [OF 2(2)]) (use w pol in auto)
        then have "hub R k D D {} (put_policy m ?w db2)" using w(5) by (simp add: insert_absorb)
        moreover have "SetResolvedPolicy E m rp cached db = Inr (Inr (), put_policy m ?w db2)"
          using True Some v by (simp add: step lk_get_def kissDb_Get_def lk_set_put put_policy_def)
        ultimately show ?thesis by blast
      qed
    qed
  qed
qed

lemma list_policies:
  assumes "hub R k D D {} db"
  shows "\<exists>db' ps. ListPolicies owner db = Inr (Inr ps, db') \<and> hub R k D D {} db' \<and> pol db' = pol db
    \<and> set ps = {wp_Policy w |m w. pol db m = Some w \<and> lp_OwnerMrn (wp_Policy w) = owner}"
proof -
  obtain l db1 where 1: "listPolicies db = Inr (Inr l, db1)" "mrns l = D" "hub R k D D {} db1" "pol db1 = pol db"
    using listPolicies_eq [OF assms] by blast
  have t: "typed db1" using 1(3) by (rule hub_typed)
  let ?f = "\<lambda>res k. lk_bind (GetRawPolicy k) (\<lambda>p. lk_return (if lp_OwnerMrn p \<noteq> owner then res else res @ [p]))"
  have reads: "\<exists>ps. lk_fold ?f res ks db1 = Inr (Inr ps, db1)
      \<and> set ps = set res \<union> {wp_Policy w |m w. m \<in> set ks \<and> pol db1 m = Some w \<and> lp_OwnerMrn (wp_Policy w) = owner}"
    if "\<And>k. k \<in> set ks \<Longrightarrow> pol db1 k \<noteq> None" for ks res
    using that
  proof (induction ks arbitrary: res)
    case Nil
    then show ?case by (simp add: lk_return_def)
  next
    case (Cons x ks)
    obtain w where w: "pol db1 x = Some w" using Cons.prems [of x] by auto
    let ?res = "if lp_OwnerMrn (wp_Policy w) \<noteq> owner then res else res @ [wp_Policy w]"
    obtain ps where ps: "lk_fold ?f ?res ks db1 = Inr (Inr ps, db1)"
      "set ps = set ?res \<union> {wp_Policy w |m w. m \<in> set ks \<and> pol db1 m = Some w \<and> lp_OwnerMrn (wp_Policy w) = owner}"
      using Cons.IH [of ?res] Cons.prems by auto
    have "?f res x db1 = Inr (Inr ?res, db1)" using w by (simp add: GetRawPolicy_def lk_bind_Inr find_policy_eq [OF t] lk_return_def)
    then have "lk_fold ?f res (x # ks) db1 = Inr (Inr ps, db1)" using ps(1) by (simp only: lk_fold.simps lk_bind_Inr prod.case sum.case)
    moreover have "set ps = set res \<union> {wp_Policy w |m w. m \<in> set (x # ks) \<and> pol db1 m = Some w \<and> lp_OwnerMrn (wp_Policy w) = owner}"
      unfolding ps(2) using w by auto
    ultimately show ?case by blast
  qed
  have keys: "k \<in> set (map fst l) \<longleftrightarrow> pol db1 k \<noteq> None" for k
  proof -
    have "k \<in> set (map fst l) \<longleftrightarrow> k \<in> D" using 1(2) unfolding mrns_def set_map by blast
    moreover have "k \<in> D \<longleftrightarrow> pol db1 k \<noteq> None" using 1(3) unfolding hub_def by blast
    ultimately show ?thesis by blast
  qed
  obtain ps where ps: "lk_fold ?f [] (map fst l) db1 = Inr (Inr ps, db1)"
    "set ps = set [] \<union> {wp_Policy w |m w. m \<in> set (map fst l) \<and> pol db1 m = Some w \<and> lp_OwnerMrn (wp_Policy w) = owner}"
    using reads [of "map fst l" "[]"] keys by blast
  have "ListPolicies owner db = Inr (Inr ps, db1)" using 1(1) ps(1) by (simp add: ListPolicies_def lk_bind_Inr)
  moreover have "set ps = {wp_Policy w |m w. pol db m = Some w \<and> lp_OwnerMrn (wp_Policy w) = owner}"
    unfolding ps(2) keys 1(4) by auto
  ultimately show ?thesis using 1(3,4) by blast
qed


subsection \<open>Runs\<close>

text \<open>\<open>CacheBundle\<close> is what \<open>GetValidatedBundle\<close> does with the bundle it has computed. The caller gets the error of an operation; the
  lake goes on.\<close>

datatype hub_op =
    StorePolicy LakePolicy "Mquery list" | RemovePolicy string | PolicyResolved string ResolvedPolicy bool | ListOwned string
  | StoreQuery string Mquery | StoreProperty string Property | StoreFramework LakeFramework | StoreMaps string "LakeFrameworkMap list"
  | CacheBundle string wrapBundle

definition forget :: "'a lake \<Rightarrow> unit lake" where
  "forget m = lk_bind m (\<lambda>_. lk_return ())"

definition hub_step :: "lake_env \<Rightarrow> nat \<Rightarrow> hub_op \<Rightarrow> unit lake" where
  "hub_step E k x = (case x of
     StorePolicy p fs \<Rightarrow> setPolicy k p fs
   | RemovePolicy m \<Rightarrow> DeletePolicy m
   | PolicyResolved m rp cached \<Rightarrow> SetResolvedPolicy E m rp cached
   | ListOwned owner \<Rightarrow> forget (ListPolicies owner)
   | StoreQuery m q \<Rightarrow> SetQuery m q
   | StoreProperty m p \<Rightarrow> SetProperty m p
   | StoreFramework f \<Rightarrow> setFramework f
   | StoreMaps m ms \<Rightarrow> SetFrameworkMaps m ms
   | CacheBundle m b \<Rightarrow> lk_set (dbIDBundle m) (CBundle b))"

fun hub_run :: "lake_env \<Rightarrow> nat \<Rightarrow> hub_op list \<Rightarrow> Db \<Rightarrow> Db go" where
  "hub_run E k [] db = Inr db"
| "hub_run E k (x # xs) db = go_bind (hub_step E k x db) (\<lambda>(r, db). hub_run E k xs db)"

text \<open>Every policy that is stored is ranked above the policies it depends on.\<close>

definition ranked_op :: "(string \<Rightarrow> nat) \<Rightarrow> nat \<Rightarrow> hub_op \<Rightarrow> bool" where
  "ranked_op R k x \<longleftrightarrow> (case x of StorePolicy p fs \<Rightarrow> depends_below R k p | _ \<Rightarrow> True)"

lemma foreign_set:
  assumes "hub R k D L X db" and "foreign key" and "right_key key v"
  shows "\<exists>r db'. lk_set key v db = Inr (r, db') \<and> hub R k D L X db'"
  using hub_foreign [OF assms] by (simp add: lk_set_put)

lemma SetFrameworkMaps_hub:
  assumes "hub R k D L X db"
  shows "\<exists>r db'. SetFrameworkMaps m ms db = Inr (r, db') \<and> hub R k D L X db'"
proof -
  obtain sm where "stored_maps m db = Inr (Inr sm, db)"
  proof (cases "map_get (db_cache db) (dbIDFrameworkMap m)")
    case None
    then show ?thesis using that [of "[]"] by (simp add: stored_maps_def lk_bind_Inr lk_get_def kissDb_Get_def lk_return_def)
  next
    case (Some v)
    then show ?thesis using typed_get [OF hub_typed [OF assms] Some] that
      by (cases v) (simp_all add: right_key_def stored_maps_def lk_bind_Inr lk_get_def kissDb_Get_def lk_return_def)
  qed
  then have "SetFrameworkMaps m ms db = lk_set (dbIDFrameworkMap m) (CFrameworkMaps (foldl (\<lambda>m x. map_put (lm_Mrn x) x m) sm ms)) db"
    by (simp add: SetFrameworkMaps_def lk_bind_Inr)
  then show ?thesis using foreign_set [OF assms foreign_keys(6)] by (simp add: right_key_def)
qed

lemma hub_step_ok:
  assumes "hub R k D D {} db" and "ranked_op R k x"
  shows "\<exists>r db' D'. hub_step E k x db = Inr (r, db') \<and> hub R k D' D' {} db'"
proof (cases x)
  case (StorePolicy p fs)
  then show ?thesis using setPolicy_hub [OF assms(1), of p k fs] assms(2) by (auto simp: hub_step_def ranked_op_def)
next
  case (RemovePolicy m)
  then show ?thesis using delete_hub [OF assms(1), of m] by (auto simp: hub_step_def)
next
  case (PolicyResolved m rp cached)
  then show ?thesis using SetResolvedPolicy_hub [OF assms(1), of E m rp cached] by (auto simp: hub_step_def)
next
  case (ListOwned owner)
  obtain ps db' where "ListPolicies owner db = Inr (Inr ps, db')" "hub R k D D {} db'" using list_policies [OF assms(1)] by blast
  then show ?thesis using ListOwned by (auto simp: hub_step_def forget_def lk_bind_Inr lk_return_def)
next
  case (StoreQuery m q)
  then show ?thesis using foreign_set [OF assms(1) foreign_keys(1), of m "CQuery q"] by (auto simp: hub_step_def SetQuery_def right_key_def)
next
  case (StoreProperty m p)
  then show ?thesis using foreign_set [OF assms(1) foreign_keys(2), of m "CProperty p"] by (auto simp: hub_step_def SetProperty_def right_key_def)
next
  case (StoreFramework f)
  then show ?thesis using foreign_set [OF assms(1) foreign_keys(5), of "fw_Mrn f"
      "CFramework \<lparr>wf_Framework = f, wf_invalidated = False, wf_parents = [], wf_children = []\<rparr>"]
    by (auto simp: hub_step_def setFramework_def right_key_def)
next
  case (StoreMaps m ms)
  then show ?thesis using SetFrameworkMaps_hub [OF assms(1), of m ms] by (auto simp: hub_step_def)
next
  case (CacheBundle m b)
  then show ?thesis using foreign_set [OF assms(1) foreign_keys(3), of m "CBundle b"] by (auto simp: hub_step_def right_key_def)
qed

lemma hub_run_ok:
  assumes "hub R k D D {} db" and "list_all (ranked_op R k) ops"
  shows "\<exists>db' D'. hub_run E k ops db = Inr db' \<and> hub R k D' D' {} db'"
  using assms
proof (induction ops arbitrary: db D)
  case (Cons x ops)
  obtain r db1 D1 where 1: "hub_step E k x db = Inr (r, db1)" "hub R k D1 D1 {} db1"
    using hub_step_ok [OF Cons.prems(1), of x E] Cons.prems(2) by auto
  then show ?case using Cons.IH [OF 1(2)] Cons.prems(2) by simp
qed auto

lemma empty_lake_hub: "hub R k {} {} {} empty_lake"
  by (simp add: hub_def empty_lake_good pol_def listed_policies_def empty_lake_def typed_def)

lemma run_from_empty:
  assumes "list_all (ranked_op R k) ops"
  shows "\<exists>db D. hub_run E k ops empty_lake = Inr db \<and> hub R k D D {} db"
  by (rule hub_run_ok [OF empty_lake_hub assms])

text \<open>C18: whatever is stored, deleted, resolved and listed, in whatever order, the hub does not panic if no policy depends on itself
  through others and the stack holds as many calls as there are ranks; every policy that a stored policy depends on is stored
  and has it among its parents; and \<open>ListPolicies\<close> gives the stored policies of an owner.\<close>

theorem policies_listed_and_linked:
  assumes "list_all (ranked_op R k) ops"
  shows "\<exists>db. hub_run E k ops empty_lake = Inr db
    \<and> (\<forall>m w. pol db m = Some w \<longrightarrow> (\<forall>c \<in> mrns (wp_children w). knows db m c))
    \<and> (\<forall>owner. \<exists>ps db'. ListPolicies owner db = Inr (Inr ps, db')
        \<and> set ps = {wp_Policy w |m w. pol db m = Some w \<and> lp_OwnerMrn (wp_Policy w) = owner})"
proof -
  obtain db D where db: "hub_run E k ops empty_lake = Inr db" "hub R k D D {} db" using run_from_empty [OF assms] by blast
  show ?thesis
  proof (rule exI [of _ db], intro conjI allI impI)
    show "hub_run E k ops empty_lake = Inr db" by (rule db(1))
    show "\<forall>c \<in> mrns (wp_children w). knows db m c" if "pol db m = Some w" for m w using db(2) that unfolding hub_def by blast
    show "\<exists>ps db'. ListPolicies owner db = Inr (Inr ps, db')
        \<and> set ps = {wp_Policy w |m w. pol db m = Some w \<and> lp_OwnerMrn (wp_Policy w) = owner}" for owner
      using list_policies [OF db(2), of owner] by blast
  qed
qed


text \<open>C20: a policy is deleted exactly if it has no parents. Then it is gone and the others are what they were; otherwise nothing
  is changed.\<close>

theorem deleted_if_no_parents:
  assumes "list_all (ranked_op R k) ops" and "hub_run E k ops empty_lake = Inr db"
  shows "\<exists>r db'. DeletePolicy m db = Inr (r, db')
    \<and> (if par db m = {} then r = Inr () \<and> pol db' m = None \<and> (\<forall>q. q \<noteq> m \<longrightarrow> map_option wp_Policy (pol db' q) = map_option wp_Policy (pol db q))
       else (\<exists>n. r = Inl (HasParents m n)) \<and> db' = db)"
proof -
  obtain D where "hub R k D D {} db" using run_from_empty [OF assms(1), of E] assms(2) by auto
  from delete_hub [OF this, of m] obtain r db' D' where d: "DeletePolicy m db = Inr (r, db')" "hub R k D' D' {} db'"
    "if par db m = {} then r = Inr () \<and> D' = D - {m} \<and> (\<forall>q. q \<noteq> m \<longrightarrow> map_option wp_Policy (pol db' q) = map_option wp_Policy (pol db q))
     else r = Inl (HasParents m (case pol db m of None \<Rightarrow> 0 | Some w \<Rightarrow> length (wp_parents w))) \<and> db' = db" by blast
  have "pol db' m = None" if "D' = D - {m}" using d(2) that unfolding hub_def by blast
  then show ?thesis using d(1,3) by (cases "par db m = {}") auto
qed


subsection \<open>A concrete hub\<close>

text \<open>A policy \<open>//b\<close> that depends on \<open>//a\<close>, and a new version of \<open>//a\<close>.\<close>

definition plain_policy :: "string \<Rightarrow> string \<Rightarrow> string list \<Rightarrow> LakePolicy" where
  "plain_policy mrn csum deps = \<lparr>po_Mrn = mrn, po_Uid = '''', po_Version = '''', po_Groups = [\<lparr>
     pg_Policies = map (\<lambda>d. \<lparr>pf_Mrn = d, pf_Action = Action_UNSPECIFIED, pf_Impact = None, pf_ScoringSystem = SCORING_UNSPECIFIED\<rparr>) deps,
     pg_Checks = [], pg_Queries = [], pg_Type = UNCATEGORIZED, pg_Filters = None, pg_EndDate = 0, pg_Valid = None,
     pg_ReviewStatus = NOT_REVIEWED\<rparr>],
     po_ScoringSystem = SCORING_UNSPECIFIED, po_Props = [], po_RiskFactors = [], po_GraphExecutionChecksum = csum, po_ComputedFilters = None,
     lp_OwnerMrn = ''//o'', lp_LocalContentChecksum = csum, lp_LocalExecutionChecksum = csum, lp_GraphContentChecksum = csum\<rparr>"


definition two_policies :: "hub_op list" where
  "two_policies = [StorePolicy (plain_policy ''//a'' ''1'' []) [], StorePolicy (plain_policy ''//b'' ''1'' [''//a'']) []]"

definition rank_ab :: "string \<Rightarrow> nat" where
  "rank_ab m = (if m = ''//a'' then 0 else 1)"

lemma two_policies_ranked: "list_all (ranked_op rank_ab 2) two_policies"
  by code_simp

theorem policies_listed_and_linked_witness:
  "\<exists>db ps db'. hub_run lake_sample_env 2 two_policies empty_lake = Inr db \<and> knows db ''//b'' ''//a''
    \<and> ListPolicies ''//o'' db = Inr (Inr ps, db') \<and> (\<exists>p \<in> set ps. po_Mrn p = ''//b'')"
proof -
  obtain db where db: "hub_run lake_sample_env 2 two_policies empty_lake = Inr db"
    and links: "\<And>m w c. pol db m = Some w \<Longrightarrow> c \<in> mrns (wp_children w) \<Longrightarrow> knows db m c"
    and lists: "\<And>owner. \<exists>ps db'. ListPolicies owner db = Inr (Inr ps, db')
        \<and> set ps = {wp_Policy w |m w. pol db m = Some w \<and> lp_OwnerMrn (wp_Policy w) = owner}"
    using policies_listed_and_linked [OF two_policies_ranked, of lake_sample_env] by blast
  have "go_bind (hub_run lake_sample_env 2 two_policies empty_lake)
      (\<lambda>db. Inr (map_option (\<lambda>w. (wp_Policy w, mrns (wp_children w))) (pol db ''//b'')))
    = Inr (Some (with_filters (plain_policy ''//b'' ''1'' [''//a'']) [], {''//a''}))" by code_simp
  then obtain w where w: "pol db ''//b'' = Some w" "wp_Policy w = with_filters (plain_policy ''//b'' ''1'' [''//a'']) []" "mrns (wp_children w) = {''//a''}"
    unfolding db by auto
  then have owner: "lp_OwnerMrn (wp_Policy w) = ''//o''" "po_Mrn (wp_Policy w) = ''//b''" by (simp_all add: with_filters_def plain_policy_def)
  obtain ps db' where ps: "ListPolicies ''//o'' db = Inr (Inr ps, db')"
    "set ps = {wp_Policy w |m w. pol db m = Some w \<and> lp_OwnerMrn (wp_Policy w) = ''//o''}" using lists by blast
  have "wp_Policy w \<in> set ps" unfolding ps(2) using w(1) owner(1) by blast
  moreover have "knows db ''//b'' ''//a''" using links [OF w(1)] w(3) by simp
  ultimately show ?thesis using db ps(1) owner(2) by blast
qed


theorem deleted_if_no_parents_witness:
  "\<exists>db db' n. hub_run lake_sample_env 2 two_policies empty_lake = Inr db
    \<and> DeletePolicy ''//a'' db = Inr (Inl (HasParents ''//a'' n), db) \<and> DeletePolicy ''//b'' db = Inr (Inr (), db') \<and> pol db' ''//b'' = None"
proof -
  have "go_bind (hub_run lake_sample_env 2 two_policies empty_lake) (\<lambda>db. Inr (par db ''//a'' = {}, par db ''//b'' = {})) = Inr (False, True)"
    by code_simp
  then obtain db where db: "hub_run lake_sample_env 2 two_policies empty_lake = Inr db" "par db ''//a'' \<noteq> {}" "par db ''//b'' = {}"
    by (auto simp: go_bind_Inr_iff)
  note d = deleted_if_no_parents [OF two_policies_ranked db(1)]
  show ?thesis using d [of "''//a''"] d [of "''//b''"] db by auto
qed

text \<open>A policy that no longer depends on another is still among its parents, so that the other cannot be deleted.\<close>

theorem stale_parent_blocks_deletion:
  "case hub_run lake_sample_env 2 (two_policies @ [StorePolicy (plain_policy ''//b'' ''2'' []) []]) empty_lake of Inl _ \<Rightarrow> False
   | Inr db \<Rightarrow> map_option (\<lambda>w. mrns (wp_children w)) (pol db ''//b'') = Some {} \<and> par db ''//a'' = {''//b''}
      \<and> map_sum id fst (DeletePolicy ''//a'' db) = Inr (Inl (HasParents ''//a'' 1))"
  by code_simp

end
