(* ===== verification/Spec2Isabelle.thy ===== *)
theory Spec2Isabelle
  imports Calculator_Results Risk_Factors Query_Executor_Results Policy_Execution_Results Bundle_Queries_Results Frameworks Reports Migrations Policy_Hub_Results
begin

text \<open>
  A verification development for cnspec, the policy engine (Go). All paths are under \<open>src/\<close>.

  \<^bold>\<open>The program.\<close> A \<^emph>\<open>bundle\<close> holds policies, frameworks and queries (\<open>policy/bundle.go\<close>). For an asset, policy resolution
  (\<open>policy/resolved_policy_builder.go\<close>) follows the policies that apply to it, drops the queries whose filters do not match, and
  leaves a \<^emph>\<open>resolved policy\<close>: the queries to execute, and the reporting jobs that say which score is made of which others. The
  graph builder (\<open>policy/executor/internal/builder.go\<close>) turns it into an execution graph: nodes for queries, their datapoints,
  their scores and the reporting jobs. The execution manager runs queries on the query engine and sends their results to the
  executor (\<open>graph.go\<close>), which recalculates the nodes they reach in the order of a priority queue; jobs roll up the scores of
  their children with a score calculator. Collectors buffer the scores and data and send them to the data lake
  (\<open>internal/datalakes/inmemory\<close>), from which a report on the asset is read.

  \<^bold>\<open>Foundations.\<close>
  \<^item> \<open>Prelude\<close>: machine integers, Go maps as association lists in their iteration order (a statement for every permutation says
    that the order does not matter), the collections of simplification rules.
  \<^item> \<open>Go_Float\<close>: \<open>float32\<close> and \<open>float64\<close> as rationals with rounding. \<open>Ordering\<close>: comparison functions, stable sorting and the
    merge of sorted slices; locale \<open>go_cmp\<close>. \<open>Depth_First\<close>: the depth-first search that frameworks and bundles share.

  \<^bold>\<open>Scores.\<close>
  \<^item> \<open>Score_Types\<close> (\<open>policy/score.go\<close>, \<open>rating.go\<close>, \<open>explorer_impact.go\<close>): scores, ratings, impacts, scoring systems.
  \<^item> \<open>Score_Calculators\<close> (\<open>policy/score_calculator.go\<close>): the five calculators, in \<open>uint32\<close>. \<open>Calculator_Results\<close>: no panic, and a
    result that does not depend on the order of the scores.
  \<^item> \<open>Risk_Factors\<close> (\<open>policy/risk_factor.go\<close>, \<open>score_stats.go\<close>): the adjustment of risk scores and its bounds, the sorted merge.
  \<^item> \<open>Reports\<close> (\<open>policy/report.go\<close>): the statistics of a report count every score once.

  \<^bold>\<open>Bundles.\<close>
  \<^item> \<open>Bundle_Map\<close>, \<open>Bundle_Map_Results\<close> (\<open>policy/bundle_map.go\<close>): the maps of a bundle, and the order of policies by dependency.
  \<^item> \<open>Bundle_Queries\<close>, \<open>Bundle_Queries_Results\<close> (\<open>policy/bundle.go\<close>): combining and filtering bundles, cycles of variants, the
    order of compilation.
  \<^item> \<open>Frameworks\<close> (\<open>policy/framework.go\<close>): the report graph of frameworks and its order.
  \<^item> \<open>Migrations\<close> (\<open>policy/bundle_migrations.go\<close>, \<open>internal/bundle/lint_rules_bundle_migrations.go\<close>): what the lint of migrations
    accepts.

  \<^bold>\<open>Policy resolution\<close> (\<open>policy/resolved_policy_builder.go\<close>, \<open>resolver.go\<close>, \<open>mquery.go\<close>, \<open>reportingjob.go\<close>,
  \<open>explorer_filters.go\<close>, \<open>explorer_property.go\<close>).
  \<^item> \<open>Policy_Types\<close>: the messages of \<open>policy/cnspec_policy.proto\<close>. Impacts and properties, which the code shares by pointer, are
    references into a store.
  \<^item> \<open>Resolver_Graph\<close>: the passes over the bundle that make the graph; \<open>Resolver_Build\<close>: the walk, the resolved policy and
    \<open>buildResolvedPolicy\<close>.
  \<^item> \<open>Resolver_Walk\<close>, \<open>Resolver_Steps\<close> (locales \<open>graph_steps\<close> and \<open>gather_steps\<close>: the four changes the construction makes, with the
    induction over all of it done once), \<open>Resolver_Jobs\<close>, \<open>Resolver_Results\<close>, \<open>Resolver_Queries\<close>, \<open>Resolver_Children\<close>,
    \<open>Resolver_Returns\<close>: jobs and their notifications are in step, what is executed may run, a job of a query has one child, and
    resolution returns. \<open>Resolver_Sample\<close>: concrete bundles.

  \<^bold>\<open>Execution\<close> (\<open>policy/executor\<close>).
  \<^item> \<open>Query_Results\<close>, \<open>Graph_Nodes\<close>, \<open>Graph_Jobs\<close> (\<open>internal/nodes.go\<close>): the eight kinds of nodes with \<open>initialize\<close>, \<open>consume\<close> and
    \<open>recalculate\<close>; locale \<open>result_slot\<close> is the rule by which a consumer keeps the better result. \<open>Node_Results\<close>: what they keep.
  \<^item> \<open>Priority_Queue\<close> (\<open>internal/queue.go\<close>), \<open>Graph_Exec\<close> (\<open>internal/graph.go\<close>): rounds and the main loop. \<open>Graph_Exec_Results\<close>:
    on a graph that is \<open>wired\<close> and \<open>prioritized\<close>, no panic, termination, and every round ends up to date.
  \<^item> \<open>Graph_Builder\<close> (\<open>internal/builder.go\<close>), \<open>Build_Priorities\<close>, \<open>Build_Wiring\<close>: the builder establishes these conditions.
  \<^item> \<open>Wait_Group\<close> (\<open>internal/waitgroup.go\<close>; locale \<open>work_tracker\<close>), \<open>Execution_Manager\<close> (\<open>internal/execution_manager.go\<close>),
    \<open>Query_Executor\<close>, \<open>Query_Executor_Results\<close> (\<open>executor.go\<close>): running queries, and waiting for their results.
  \<^item> \<open>Collector\<close>, \<open>Collector_Results\<close> (\<open>internal/collector.go\<close>, \<open>counting_collector.go\<close>, \<open>policy/resolved_policy.go\<close>,
    \<open>policy/collectorjob.go\<close>, \<open>policy/scanstats/kinds.go\<close>): a state machine over events; the latest results are delivered.
  \<^item> \<open>Policy_Execution\<close>, \<open>Policy_Execution_Results\<close> (\<open>graph.go\<close>): from a resolved policy to the end of its execution.

  \<^bold>\<open>The data lake\<close> (\<open>internal/datalakes/inmemory\<close>).
  \<^item> \<open>Policy_Cache\<close> (\<open>resolved_policy_cache.go\<close>): the cache stays within its limit and forgets what was not used for longest.
  \<^item> \<open>Data_Lake\<close>, \<open>Data_Lake_Results\<close> (\<open>policyresolver.go\<close>, \<open>inmemory.go\<close>, \<open>assets.go\<close>, \<open>kiss.go\<close>): no value is read as one of
    another type, reports are complete, and scores that are stored are read.
  \<^item> \<open>Policy_Hub\<close>, \<open>Policy_Hub_Results\<close> (\<open>policyhub.go\<close>): storing, listing and deleting policies, and the invalidation of all
    ancestors of one that changed; children are stored and know their parents.

  \<^bold>\<open>Conventions.\<close> A panic is the left of \<open>panic + 'a\<close>, an error a value of its own. Code outside the repository (the MQL compiler and
  engine \<open>llx\<close>, hashes, MRNs, versions, protobuf sizes) is a parameter: a field of \<open>env\<close>, \<open>externals\<close>, \<open>bundle_env\<close>, \<open>engine\<close>,
  \<open>sink_env\<close> or \<open>lake_env\<close>. Every operation that holds a lock is one step; goroutines are the order of events.

  \<^bold>\<open>Fuel and stack depth.\<close> \<open>Execute\<close> takes a number of steps for its rounds; \<open>None\<close> is running out of it, and
  \<open>Graph_Exec_Results\<close> shows from which number on it returns. The depth-first searches of the builder, the resolver, bundles,
  frameworks and the policy hub take the depth the call stack may grow to. The builder's gives \<open>None\<close> exactly on a graph with a
  cycle (\<open>Build_Wiring\<close>); for the resolver some depth is enough and more changes nothing (\<open>Resolver_Returns\<close>), for the
  invalidation of policies the number of ranks of their dependencies is enough (\<open>Policy_Hub_Results\<close>), and for the others a
  depth above the number of nodes. A search that goes deeper is the panic \<open>StackOverflow\<close>.

  \<^bold>\<open>Not modelled.\<close> Checksums and compilation of policies and bundles (the result of hash and compiler calls), MRN handling, calls
  of the upstream service, files and databases, the scanner around the executions (connections, processes, uploads), rendering of
  reports, the command line, logging, progress and metrics, and generated code. In the data lake, what recomputes
  checksums (validated policies and bundles, mutating assignments), and resources. The stop request of the execution manager and the recovery
  of panics on other goroutines. Floating-point overflow and NaN.
\<close>

end
